(* ===== verification/Guard_Prelude.thy ===== *)
theory Guard_Prelude
  imports Complex_Main "HOL-Library.Char_ord" "HOL-Library.List_Lexorder"
    "HOL-Library.Product_Lexorder"
begin

text \<open>
  Shared vocabulary of the development: the names of the model's basic types, the exceptions
  the program raises and the sum type that carries them, tables as lists of rows, decimal and
  hexadecimal text, the canonical text of a UUID, ISO timestamps, and the generic lemmas the
  component theories use.

  Times are integers: microseconds since the Unix epoch in UTC, which is the resolution of
  Python's \<open>datetime\<close> and of PostgreSQL's \<open>timestamptz\<close>. Floating-point seconds are
  idealised as rational numbers. A UUID is a natural number; \<open>uuid4()\<close> is modelled by a
  counter (see the database theory), that is, by its documented promise not to repeat.
  Text of closed or ASCII vocabularies is \<open>string\<close>; user-written prose whose Unicode
  categories the code inspects is a list of code points.
\<close>

section \<open>Names of the basic types\<close>

type_synonym uuid = nat
type_synonym time = int
type_synonym codepoint = nat
type_synonym ustring = "codepoint list"

named_theorems table_simps \<open>rewriting of lookups and updates on tables\<close>
named_theorems op_defs \<open>definitions of the operations of a component\<close>
named_theorems inv_defs \<open>definitions of the invariants of a component\<close>

section \<open>Exceptions as values\<close>

text \<open>Every exception class the modelled code raises, with its message where it has one.\<close>

datatype exn =
    TransitionValidationError string
  | CommentValidationError string
  | AuditValidationError string
  | OutboxOperationError string
  | LeaseLostError string
  | DetectionEngineError string
  | RuleSyncError string
  | RuleValidationError string
  | SpoolFullError string
  | ValueError string
  | KeyError string
  | IntegrityError string
  | ApiError nat string
  | InvalidCredentialsError
  | InactiveServerError
  | InvalidOperatorCredentialsError
  | OperatorManagementError string
  | WebSessionError string
  | InvalidWebSessionError
  | WebSessionPermissionError
  | TelegramIdentityError string
  | CallbackDataError string
  | TelegramUpdateError string
  | TelegramTransportError string
  | TelegramTokenFileError string
  | DestinationManagementError string
  | CursorValidationError string
  | SourceUnavailableError string
  | IpBlockError string
  | TypeError string
  | IndexError string
  | RuntimeError string

type_synonym 'a result = "exn + 'a"

text \<open>Sequencing: the first exception ends the computation.\<close>

fun bind_r :: "'a result \<Rightarrow> ('a \<Rightarrow> 'b result) \<Rightarrow> 'b result" where
  "bind_r (Inl e) f = Inl e"
| "bind_r (Inr x) f = f x"

definition guard_r :: "bool \<Rightarrow> exn \<Rightarrow> unit result" where
  "guard_r b e = (if b then Inr () else Inl e)"

lemma guard_r_simps [simp]:
  "guard_r True e = Inr ()" "guard_r False e = Inl e"
  by (simp_all add: guard_r_def)

lemma bind_r_eq_Inr: "bind_r m f = Inr y \<longleftrightarrow> (\<exists>x. m = Inr x \<and> f x = Inr y)"
  by (cases m) auto

lemma bind_r_eq_Inl: "bind_r m f = Inl e \<longleftrightarrow> m = Inl e \<or> (\<exists>x. m = Inr x \<and> f x = Inl e)"
  by (cases m) auto

lemma guard_r_eq_Inr [simp]: "guard_r b e = Inr u \<longleftrightarrow> b"
  by (simp add: guard_r_def)

lemma guard_r_eq_Inl [simp]: "guard_r b e = Inl e' \<longleftrightarrow> \<not> b \<and> e' = e"
  by (auto simp: guard_r_def)

text \<open>
  \<open>with session.begin():\<close> commits the new state, or rolls back to the state before the block
  when the block raises.
\<close>

definition atomically :: "('s \<Rightarrow> ('s \<times> 'a) result) \<Rightarrow> 's \<Rightarrow> 's \<times> 'a result" where
  "atomically f s = (case f s of Inl e \<Rightarrow> (s, Inl e) | Inr (s', a) \<Rightarrow> (s', Inr a))"

lemma atomically_Inl [simp]: "f s = Inl e \<Longrightarrow> atomically f s = (s, Inl e)"
  by (simp add: atomically_def)

lemma atomically_Inr [simp]: "f s = Inr (s', a) \<Longrightarrow> atomically f s = (s', Inr a)"
  by (simp add: atomically_def)

lemma atomically_cases:
  obtains e where "f s = Inl e" "atomically f s = (s, Inl e)"
  | s' a where "f s = Inr (s', a)" "atomically f s = (s', Inr a)"
  by (cases "f s") auto

section \<open>Tables\<close>

text \<open>
  A table is the list of its rows in insertion order. \<open>find_row\<close> is
  \<open>SELECT ... WHERE key = k\<close> with at most one row, \<open>update_where\<close> is
  \<open>UPDATE ... WHERE\<close>, deletion is \<open>filter\<close>.
\<close>

definition find_row :: "('r \<Rightarrow> 'k) \<Rightarrow> 'k \<Rightarrow> 'r list \<Rightarrow> 'r option" where
  "find_row key k rows = List.find (\<lambda>r. key r = k) rows"

definition update_where :: "('r \<Rightarrow> bool) \<Rightarrow> ('r \<Rightarrow> 'r) \<Rightarrow> 'r list \<Rightarrow> 'r list" where
  "update_where P f rows = map (\<lambda>r. if P r then f r else r) rows"

lemma find_row_Nil [simp]: "find_row key k [] = None"
  by (simp add: find_row_def)

lemma find_row_Cons [simp]:
  "find_row key k (r # rs) = (if key r = k then Some r else find_row key k rs)"
  by (simp add: find_row_def)

lemma find_row_SomeD: "find_row key k rows = Some r \<Longrightarrow> r \<in> set rows \<and> key r = k"
  by (induction rows) (auto split: if_splits)

lemma find_row_None_iff: "find_row key k rows = None \<longleftrightarrow> k \<notin> key ` set rows"
  by (induction rows) auto

lemma find_row_append:
  "find_row key k (xs @ ys) = (case find_row key k xs of None \<Rightarrow> find_row key k ys | Some r \<Rightarrow> Some r)"
  by (induction xs) auto

lemma find_row_distinct:
  "distinct (map key rows) \<Longrightarrow> r \<in> set rows \<Longrightarrow> find_row key (key r) rows = Some r"
  by (induction rows) auto

lemma length_update_where [simp]: "length (update_where P f rows) = length rows"
  by (simp add: update_where_def)

lemma update_where_Nil [simp]: "update_where P f [] = []"
  by (simp add: update_where_def)

lemma update_where_Cons [simp]:
  "update_where P f (r # rs) = (if P r then f r else r) # update_where P f rs"
  by (simp add: update_where_def)

lemma set_update_where: "set (update_where P f rows) = (\<lambda>r. if P r then f r else r) ` set rows"
  by (simp add: update_where_def)

lemma map_update_where [table_simps]:
  "(\<And>r. P r \<Longrightarrow> g (f r) = g r) \<Longrightarrow> map g (update_where P f rows) = map g rows"
  by (induction rows) auto

lemma update_where_none: "(\<And>r. r \<in> set rows \<Longrightarrow> \<not> P r) \<Longrightarrow> update_where P f rows = rows"
  by (induction rows) auto

lemma find_row_update_where:
  assumes "\<And>r. P r \<Longrightarrow> key (f r) = key r"
  shows "find_row key k (update_where P f rows) =
    map_option (\<lambda>r. if P r then f r else r) (find_row key k rows)"
  using assms by (induction rows) auto

lemma find_row_update_where_other:
  assumes "\<And>r. P r \<Longrightarrow> key r \<noteq> k" "\<And>r. P r \<Longrightarrow> key (f r) = key r"
  shows "find_row key k (update_where P f rows) = find_row key k rows"
  using assms by (induction rows) auto

lemma update_where_ball:
  assumes "\<forall>r \<in> set rows. Q r" "\<And>r. r \<in> set rows \<Longrightarrow> P r \<Longrightarrow> Q r \<Longrightarrow> Q (f r)"
  shows "\<forall>r \<in> set (update_where P f rows). Q r"
  using assms by (auto simp: set_update_where)

lemma update_where_all:
  assumes "x \<in> set (update_where P f rows)" "\<And>r. r \<in> set rows \<Longrightarrow> Q (if P r then f r else r)"
  shows "Q x"
  using assms unfolding set_update_where by blast

lemma update_where_related:
  assumes "P r \<Longrightarrow> R r (f r)" "R r r" "r \<in> set rows"
  shows "\<exists>r' \<in> set (update_where P f rows). R r r'"
proof -
  have "R r (if P r then f r else r)" using assms(1,2) by simp
  with assms(3) show ?thesis unfolding set_update_where by blast
qed

lemma key_inj_rows:
  "distinct (map key rows) \<Longrightarrow> r \<in> set rows \<Longrightarrow> r' \<in> set rows \<Longrightarrow> key r = key r' \<Longrightarrow> r = r'"
  by (metis find_row_distinct option.inject)

lemma filter_update_where_length:
  assumes "\<And>r. Q (if P r then f r else r) = Q r"
  shows "length (filter Q (update_where P f rows)) = length (filter Q rows)"
  using assms by (induction rows) (auto split: if_splits)

section \<open>Text of numbers\<close>

fun nat_digits :: "nat \<Rightarrow> string" where
  "nat_digits n =
     (if n < 10 then [char_of (48 + n)] else nat_digits (n div 10) @ [char_of (48 + n mod 10)])"

declare nat_digits.simps [simp del]

definition show_nat :: "nat \<Rightarrow> string" where
  "show_nat n = nat_digits n"

definition show_int :: "int \<Rightarrow> string" where
  "show_int i = (if i < 0 then CHR ''-'' # show_nat (nat (- i)) else show_nat (nat i))"

text \<open>Exactly \<open>w\<close> decimal digits, as \<open>f"{n:0wd}"\<close> for \<open>n < 10 ^ w\<close>.\<close>

definition pad_nat :: "nat \<Rightarrow> nat \<Rightarrow> string" where
  "pad_nat w n = map (\<lambda>i. char_of (48 + n div 10 ^ i mod 10)) (rev [0..<w])"

definition hex_digit :: "nat \<Rightarrow> char" where
  "hex_digit d = (if d < 10 then char_of (48 + d) else char_of (87 + d))"

definition hex_text :: "nat \<Rightarrow> nat \<Rightarrow> string" where
  "hex_text w n = map (\<lambda>i. hex_digit (n div 16 ^ i mod 16)) (rev [0..<w])"

definition is_lower_hex :: "char \<Rightarrow> bool" where
  "is_lower_hex c \<longleftrightarrow> (48 \<le> (of_char c :: nat) \<and> (of_char c :: nat) \<le> 57)
     \<or> (97 \<le> (of_char c :: nat) \<and> (of_char c :: nat) \<le> 102)"

lemma hex_digit_is_hex: "d < 16 \<Longrightarrow> is_lower_hex (hex_digit d)"
  by (auto simp: hex_digit_def is_lower_hex_def of_char_of)

lemma length_hex_text [simp]: "length (hex_text w n) = w"
  by (simp add: hex_text_def)

lemma set_hex_text: "c \<in> set (hex_text w n) \<Longrightarrow> is_lower_hex c"
  by (auto simp: hex_text_def intro: hex_digit_is_hex)

section \<open>Character classes of the source's regular expressions\<close>

definition is_digit :: "char \<Rightarrow> bool" where
  "is_digit c \<longleftrightarrow> 48 \<le> (of_char c :: nat) \<and> (of_char c :: nat) \<le> 57"

definition is_lower :: "char \<Rightarrow> bool" where
  "is_lower c \<longleftrightarrow> 97 \<le> (of_char c :: nat) \<and> (of_char c :: nat) \<le> 122"

definition is_upper :: "char \<Rightarrow> bool" where
  "is_upper c \<longleftrightarrow> 65 \<le> (of_char c :: nat) \<and> (of_char c :: nat) \<le> 90"

definition is_alnum :: "char \<Rightarrow> bool" where
  "is_alnum c \<longleftrightarrow> is_digit c \<or> is_lower c \<or> is_upper c"

text \<open>A full match of \<open>first rest{lo,hi}\<close>, one character of a class and then a bounded run of another.\<close>

definition head_run :: "(char \<Rightarrow> bool) \<Rightarrow> (char \<Rightarrow> bool) \<Rightarrow> nat \<Rightarrow> nat \<Rightarrow> string \<Rightarrow> bool" where
  "head_run first rest lo hi s \<longleftrightarrow>
     (case s of [] \<Rightarrow> False | c # cs \<Rightarrow> first c \<and> list_all rest cs \<and> lo \<le> length cs \<and> length cs \<le> hi)"

text \<open>A lower-case SHA-256 hex digest, \<open>^[0-9a-f]{64}$\<close>.\<close>

definition is_sha256_hex :: "string \<Rightarrow> bool" where
  "is_sha256_hex s \<longleftrightarrow> length s = 64 \<and> list_all is_lower_hex s"

section \<open>The canonical text of a UUID\<close>

text \<open>\<open>str(uuid)\<close>: 8-4-4-4-12 lower-case hexadecimal digits of the 128-bit value.\<close>

definition uuid_str :: "uuid \<Rightarrow> string" where
  "uuid_str u = (let h = hex_text 32 u in
     take 8 h @ ''-'' @ take 4 (drop 8 h) @ ''-'' @ take 4 (drop 12 h) @ ''-''
       @ take 4 (drop 16 h) @ ''-'' @ drop 20 h)"

text \<open>
  \<open>str(UUID(value)) == value\<close>: the text parses as a UUID and is already in the canonical form.
\<close>

definition canonical_uuid_text :: "string \<Rightarrow> bool" where
  "canonical_uuid_text s \<longleftrightarrow> length s = 36
     \<and> list_all (\<lambda>i. if i \<in> {8, 13, 18, 23} then s ! i = CHR ''-'' else is_lower_hex (s ! i)) [0..<36]"

lemma hex_text_nth: "i < w \<Longrightarrow> is_lower_hex (hex_text w n ! i)"
  by (rule set_hex_text [of _ w n]) (simp add: nth_mem)

lemma uuid_str_canonical [simp]: "canonical_uuid_text (uuid_str u)"
proof -
  define h where "h = hex_text 32 u"
  have len: "length h = 32" by (simp add: h_def)
  have hex: "is_lower_hex (h ! i)" if "i < 32" for i
    using that by (simp add: h_def hex_text_nth)
  have shape: "uuid_str u = take 8 h @ ''-'' @ take 4 (drop 8 h) @ ''-'' @ take 4 (drop 12 h)
      @ ''-'' @ take 4 (drop 16 h) @ ''-'' @ drop 20 h"
    by (simp add: uuid_str_def h_def Let_def)
  have range: "[0..<36] = [0,1,2,3,4,5,6,7,8,9,10,11,12,13,14,15,16,17,18,19,20,21,22,23,24,25,26,
      27,28,29,30,31,32,33,34,35::nat]"
    by (simp add: upt_rec)
  show ?thesis
    unfolding canonical_uuid_text_def shape range
    by (simp add: len hex nth_append nth_Cons')
qed

lemma hex_digit_inj: "d < 16 \<Longrightarrow> e < 16 \<Longrightarrow> hex_digit d = hex_digit e \<Longrightarrow> d = e"
proof -
  assume *: "d < 16" "e < 16" "hex_digit d = hex_digit e"
  have code: "(of_char (hex_digit k) :: nat) = (if k < 10 then 48 + k else 87 + k)" if "k < 16" for k
    using that by (simp add: hex_digit_def of_char_of)
  have "(if d < 10 then 48 + d else 87 + d) = (if e < 10 then 48 + e else 87 + e)"
    unfolding code [OF *(1), symmetric] code [OF *(2), symmetric] *(3) ..
  with *(1,2) show "d = e" by (simp split: if_splits)
qed

lemma digits_eq:
  fixes b :: nat
  shows "1 < b \<Longrightarrow> u < b ^ w \<Longrightarrow> v < b ^ w \<Longrightarrow> (\<And>i. i < w \<Longrightarrow> u div b ^ i mod b = v div b ^ i mod b) \<Longrightarrow> u = v"
proof (induction w arbitrary: u v)
  case (Suc w)
  have "u div b = v div b"
  proof (rule Suc.IH)
    fix i assume "i < w"
    then have "u div b ^ Suc i mod b = v div b ^ Suc i mod b" by (intro Suc.prems(4)) simp
    then show "u div b div b ^ i mod b = v div b div b ^ i mod b" by (simp add: div_mult2_eq)
  qed (use Suc.prems in \<open>auto simp: less_mult_imp_div_less mult.commute\<close>)
  moreover have "u mod b = v mod b" using Suc.prems(4) [of 0] by simp
  ultimately show ?case by (metis div_mult_mod_eq)
qed simp

lemma hex_text_inj:
  assumes "u < 16 ^ w" "v < 16 ^ w" "hex_text w u = hex_text w v"
  shows "u = v"
proof (rule digits_eq [of 16 _ w])
  fix i assume "i < w"
  from assms(3) have "\<forall>i \<in> set (rev [0..<w]). hex_digit (u div 16 ^ i mod 16) = hex_digit (v div 16 ^ i mod 16)"
    unfolding hex_text_def map_eq_conv .
  with \<open>i < w\<close> have "hex_digit (u div 16 ^ i mod 16) = hex_digit (v div 16 ^ i mod 16)" by simp
  then show "u div 16 ^ i mod 16 = v div 16 ^ i mod 16" by (intro hex_digit_inj) simp_all
qed (use assms in simp_all)

lemma uuid_str_inj:
  assumes "u < 2 ^ 128" "v < 2 ^ 128" "uuid_str u = uuid_str v"
  shows "u = v"
proof -
  have plain: "filter (\<lambda>c. c \<noteq> CHR ''-'') (uuid_str k) = hex_text 32 k" for k
  proof -
    have no: "filter (\<lambda>c. c \<noteq> CHR ''-'') xs = xs" if "set xs \<subseteq> set (hex_text 32 k)" for xs
    proof (rule filter_True)
      show "\<forall>c \<in> set xs. c \<noteq> CHR ''-''" using that set_hex_text [of _ 32 k] by (force simp: is_lower_hex_def)
    qed
    have sub: "set (take a (drop b (hex_text 32 k))) \<subseteq> set (hex_text 32 k)"
      "set (drop b (hex_text 32 k)) \<subseteq> set (hex_text 32 k)"
      "set (take a (hex_text 32 k)) \<subseteq> set (hex_text 32 k)" for a b
      by (auto dest: in_set_takeD in_set_dropD)
    show ?thesis
      using append_take_drop_id [of 8 "hex_text 32 k"] append_take_drop_id [of 4 "drop 8 (hex_text 32 k)"]
        append_take_drop_id [of 4 "drop 12 (hex_text 32 k)"] append_take_drop_id [of 4 "drop 16 (hex_text 32 k)"]
      by (simp add: uuid_str_def Let_def no [OF sub(1)] no [OF sub(2)] no [OF sub(3)])
  qed
  from assms(3) have "hex_text 32 u = hex_text 32 v" using plain by metis
  moreover have "(2::nat) ^ 128 = 16 ^ 32" by simp
  ultimately show ?thesis using hex_text_inj [of u 32 v] assms(1,2) by metis
qed

section \<open>Splitting, joining and reading text\<close>

fun join_with :: "string \<Rightarrow> string list \<Rightarrow> string" where
  "join_with sep [] = []"
| "join_with sep [x] = x"
| "join_with sep (x # y # xs) = x @ sep @ join_with sep (y # xs)"

text \<open>\<open>text.split(sep)\<close> for a one-character separator.\<close>

fun split_on :: "'a \<Rightarrow> 'a list \<Rightarrow> 'a list list" where
  "split_on sep [] = [[]]"
| "split_on sep (c # cs) =
     (if c = sep then [] # split_on sep cs
      else (case split_on sep cs of [] \<Rightarrow> [[c]] | p # ps \<Rightarrow> (c # p) # ps))"

definition read_dec :: "string \<Rightarrow> nat" where
  "read_dec s = foldl (\<lambda>n c. 10 * n + (of_char c - 48)) 0 s"

lemma split_on_nonempty: "split_on sep s \<noteq> []"
  by (induction s) (auto split: list.splits)

lemma split_on_none: "sep \<notin> set s \<Longrightarrow> split_on sep s = [s]"
  by (induction s) auto

lemma split_on_append:
  "sep \<notin> set x \<Longrightarrow> split_on sep (x @ sep # s) = x # split_on sep s"
  by (induction x) auto

lemma split_on_join:
  "xs \<noteq> [] \<Longrightarrow> \<forall>x \<in> set xs. sep \<notin> set x \<Longrightarrow> split_on sep (join_with [sep] xs) = xs"
  by (induction "[sep]" xs rule: join_with.induct) (auto simp: split_on_none split_on_append)

lemma nat_digits_nonempty: "nat_digits n \<noteq> []"
  by (subst nat_digits.simps) simp

lemma nat_digits_inj: "nat_digits m = nat_digits n \<Longrightarrow> m = n"
proof (induction m arbitrary: n rule: nat_digits.induct)
  case (1 m)
  have last_digit: "last (nat_digits k) = char_of (48 + k mod 10)" for k
    by (subst nat_digits.simps) simp
  have but_last: "butlast (nat_digits k) = (if k < 10 then [] else nat_digits (k div 10))" for k
    by (subst nat_digits.simps) simp
  have "(char_of (48 + m mod 10) :: char) = char_of (48 + n mod 10)"
    using "1.prems" last_digit by metis
  then have "(of_char (char_of (48 + m mod 10) :: char) :: nat) = of_char (char_of (48 + n mod 10) :: char)"
    by simp
  then have mods: "m mod 10 = n mod 10"
    by (simp add: of_char_of)
  show ?case
  proof (cases "m < 10")
    case True
    with "1.prems" but_last have "n < 10"
      by (metis nat_digits_nonempty)
    with True mods show ?thesis by simp
  next
    case False
    with "1.prems" but_last have "\<not> n < 10" "nat_digits (m div 10) = nat_digits (n div 10)"
      by (metis nat_digits_nonempty)+
    with False "1.IH" have "m div 10 = n div 10" by blast
    with mods show ?thesis by (metis div_mult_mod_eq)
  qed
qed

lemma show_nat_inj [simp]: "show_nat m = show_nat n \<longleftrightarrow> m = n"
  by (auto simp: show_nat_def dest: nat_digits_inj)

lemma nat_digits_no_minus: "c \<in> set (nat_digits n) \<Longrightarrow> 48 \<le> (of_char c :: nat) \<and> (of_char c :: nat) < 58"
proof (induction n rule: nat_digits.induct)
  case (1 n)
  then show ?case
    by (subst (asm) (2) nat_digits.simps) (auto simp: of_char_of split: if_splits)
qed

lemma show_nat_not_minus: "show_nat n \<noteq> CHR ''-'' # s"
proof
  assume "show_nat n = CHR ''-'' # s"
  then have "CHR ''-'' \<in> set (nat_digits n)" by (simp add: show_nat_def)
  from nat_digits_no_minus [OF this] show False by simp
qed

lemma read_dec_snoc: "read_dec (s @ [c]) = 10 * read_dec s + (of_char c - 48)"
  by (simp add: read_dec_def)

lemma read_dec_nat_digits [simp]: "read_dec (nat_digits n) = n"
proof (induction n rule: nat_digits.induct)
  case (1 n)
  show ?case
  proof (cases "n < 10")
    case True
    then show ?thesis
      by (subst nat_digits.simps) (simp add: read_dec_def of_char_of)
  next
    case False
    with "1.IH" show ?thesis
      by (subst nat_digits.simps) (simp add: read_dec_snoc of_char_of)
  qed
qed

lemma read_dec_show_nat [simp]: "read_dec (show_nat n) = n"
  by (simp add: show_nat_def)

lemma show_nat_digits: "c \<in> set (show_nat n) \<Longrightarrow> is_digit c"
  by (auto simp: show_nat_def is_digit_def dest: nat_digits_no_minus)

lemma show_nat_nonempty [simp]: "show_nat n \<noteq> []"
  by (simp add: show_nat_def nat_digits_nonempty)

section \<open>ISO timestamps\<close>

text \<open>
  \<open>datetime.isoformat()\<close> of an aware UTC value: the proleptic Gregorian date of the day number
  (days since 1970-01-01), the time of day, six fractional digits only when they are not zero.
\<close>

definition civil_from_days :: "int \<Rightarrow> int \<times> int \<times> int" where
  "civil_from_days z0 = (let
      z = z0 + 719468;
      era = z div 146097;
      doe = z mod 146097;
      yoe = (doe - doe div 1460 + doe div 36524 - doe div 146096) div 365;
      doy = doe - (365 * yoe + yoe div 4 - yoe div 100);
      mp = (5 * doy + 2) div 153;
      d = doy - (153 * mp + 2) div 5 + 1;
      m = (if mp < 10 then mp + 3 else mp - 9);
      y = yoe + era * 400 + (if m \<le> 2 then 1 else 0)
    in (y, m, d))"

definition isoformat :: "time \<Rightarrow> string" where
  "isoformat t = (let
      micro = nat (t mod 1000000);
      secs = t div 1000000;
      sod = nat (secs mod 86400);
      (y, m, d) = civil_from_days (secs div 86400)
    in pad_nat 4 (nat y) @ ''-'' @ pad_nat 2 (nat m) @ ''-'' @ pad_nat 2 (nat d) @ ''T''
       @ pad_nat 2 (sod div 3600) @ '':'' @ pad_nat 2 (sod div 60 mod 60) @ '':'' @ pad_nat 2 (sod mod 60)
       @ (if micro = 0 then '''' else ''.'' @ pad_nat 6 micro) @ ''+00:00'')"

text \<open>
  \<open>timedelta(seconds=x)\<close> in microseconds: rounded to the nearest, a tie to the even neighbour.
\<close>

definition round_half_even :: "rat \<Rightarrow> int" where
  "round_half_even x = (let f = \<lfloor>x\<rfloor>; r = x - of_int f in
     if r < 1 / 2 then f else if r > 1 / 2 then f + 1 else if even f then f else f + 1)"

definition seconds :: "rat \<Rightarrow> time" where
  "seconds s = round_half_even (s * 1000000)"

lemma round_half_even_int [simp]: "round_half_even (of_int n) = n"
  by (simp add: round_half_even_def)

lemma seconds_of_int [simp]: "seconds (of_int n) = n * 1000000"
proof -
  have "of_int n * (1000000 :: rat) = of_int (n * 1000000)" by simp
  then show ?thesis unfolding seconds_def by (metis round_half_even_int)
qed

lemma round_half_even_mono: "x \<le> y \<Longrightarrow> round_half_even x \<le> round_half_even y"
proof -
  assume le: "x \<le> y"
  then have fl: "\<lfloor>x\<rfloor> \<le> \<lfloor>y\<rfloor>" by (rule floor_mono)
  show ?thesis
  proof (cases "\<lfloor>x\<rfloor> = \<lfloor>y\<rfloor>")
    case True
    with le show ?thesis by (auto simp: round_half_even_def Let_def)
  next
    case False
    with fl have "\<lfloor>x\<rfloor> + 1 \<le> \<lfloor>y\<rfloor>" by linarith
    then show ?thesis by (auto simp: round_half_even_def Let_def)
  qed
qed

lemma seconds_mono: "x \<le> y \<Longrightarrow> seconds x \<le> seconds y"
  by (simp add: seconds_def round_half_even_mono)

lemma seconds_0 [simp]: "seconds 0 = 0"
  using seconds_of_int [of 0] by simp

lemma seconds_nonneg: "0 \<le> s \<Longrightarrow> 0 \<le> seconds s"
  using seconds_mono [of 0 s] by simp

lemma seconds_pos: "1 \<le> s \<Longrightarrow> 0 < seconds s"
  using seconds_mono [of 1 s] seconds_of_int [of 1] by simp

end
