(* ===== verification/Json.thy ===== *)
theory Json
  imports Guard_Prelude
begin

text \<open>
  JSON values as Python holds them, \<open>json.dumps(value, ensure_ascii=False,
  separators=(",", ":"), sort_keys=True)\<close>, and Python's \<open>==\<close> on them, under which
  \<open>True == 1\<close> and dictionaries compare without regard to order. Numbers are integers:
  agent events carry no others, see the header of the root theory. Strings are UTF-8 bytes, so
  their order and the characters \<open>dumps\<close> escapes are those of the code points.
\<close>

datatype json =
    JNull
  | JBool bool
  | JInt int
  | JStr string
  | JArr "json list"
  | JObj "(string \<times> json) list"

text \<open>\<open>mapping.get(key)\<close> on a JSON object.\<close>

definition obj_get :: "(string \<times> json) list \<Rightarrow> string \<Rightarrow> json option" where
  "obj_get kvs k = map_of kvs k"

section \<open>Canonical serialisation\<close>

definition escape_char :: "char \<Rightarrow> string" where
  "escape_char c = (let n = (of_char c :: nat) in
     if n = 34 then [CHR 0x5C, CHR 0x22]
     else if n = 92 then [CHR 0x5C, CHR 0x5C]
     else if n = 10 then CHR 0x5C # ''n''
     else if n = 13 then CHR 0x5C # ''r''
     else if n = 9 then CHR 0x5C # ''t''
     else if n = 8 then CHR 0x5C # ''b''
     else if n = 12 then CHR 0x5C # ''f''
     else if n < 32 then CHR 0x5C # CHR ''u'' # hex_text 4 n
     else [c])"

definition quote_string :: "string \<Rightarrow> string" where
  "quote_string s = CHR 0x22 # concat (map escape_char s) @ [CHR 0x22]"

fun dumps :: "json \<Rightarrow> string" where
  "dumps JNull = ''null''"
| "dumps (JBool b) = (if b then ''true'' else ''false'')"
| "dumps (JInt i) = show_int i"
| "dumps (JStr s) = quote_string s"
| "dumps (JArr xs) = ''['' @ join_with '','' (map dumps xs) @ '']''"
| "dumps (JObj kvs) = ''{'' @ join_with '',''
     (map (\<lambda>(k, d). quote_string k @ '':'' @ d)
        (sort_key fst (map (\<lambda>(k, v). (k, dumps v)) kvs))) @ ''}''"

section \<open>Python equality\<close>

text \<open>
  Two values are equal in Python when they agree after booleans are read as the integers 0 and 1
  and the entries of every dictionary are put in one order.
\<close>

fun py_norm :: "json \<Rightarrow> json" where
  "py_norm JNull = JNull"
| "py_norm (JBool b) = JInt (if b then 1 else 0)"
| "py_norm (JInt i) = JInt i"
| "py_norm (JStr s) = JStr s"
| "py_norm (JArr xs) = JArr (map py_norm xs)"
| "py_norm (JObj kvs) = JObj (sort_key fst (map (\<lambda>(k, v). (k, py_norm v)) kvs))"

definition py_eq :: "json \<Rightarrow> json \<Rightarrow> bool" where
  "py_eq a b \<longleftrightarrow> py_norm a = py_norm b"

lemma py_eq_refl [simp]: "py_eq a a"
  by (simp add: py_eq_def)

lemma py_eq_sym: "py_eq a b \<Longrightarrow> py_eq b a"
  by (simp add: py_eq_def)

lemma py_eq_trans: "py_eq a b \<Longrightarrow> py_eq b c \<Longrightarrow> py_eq a c"
  by (simp add: py_eq_def)

lemma py_eq_True_1: "py_eq (JBool True) (JInt 1)"
  by (simp add: py_eq_def)

lemma dumps_True_1: "dumps (JBool True) \<noteq> dumps (JInt 1)"
  by (simp add: show_int_def show_nat_def nat_digits.simps)

section \<open>The serialisation of scalars is injective\<close>

lemma escape_char_nonempty: "escape_char c \<noteq> []"
  by (simp add: escape_char_def Let_def)

lemma show_int_inj [simp]: "show_int i = show_int j \<longleftrightarrow> i = j"
  using show_nat_not_minus by (auto simp: show_int_def) (metis show_nat_not_minus)+

end
