(* ===== verification/Database.thy ===== *)
theory Database
  imports Json
begin

text \<open>
  The PostgreSQL tables of \<open>infrastructure/database/models\<close>, one record per table with the
  columns as fields, and the whole database as one record of tables. A column restricted by a
  \<open>CHECK (... IN ...)\<close> to a closed vocabulary has the vocabulary's datatype; every other
  CHECK constraint is a predicate on rows (\<open>..._check\<close>) and every unique constraint or
  partial unique index is a predicate on tables (\<open>..._unique\<close>). Column names carry the
  prefix of their table.
\<close>

section \<open>Closed vocabularies\<close>

datatype severity = Low | Medium | High | Critical

datatype incident_status = New | Investigating | Resolved | False_Positive

datatype operator_role = Viewer | Analyst | Admin

datatype auth_method = Operator_Api_Key | Web_Session | Telegram_Link

datatype history_entry_type = Baseline | Status_Transition

datatype audit_actor = Actor_Operator | Actor_Local_Cli

datatype outbox_status = Pending | Processing | Delivered | Failed

datatype outbox_error =
    Adapter_Unexpected_Error
  | Attempts_Exhausted
  | Destination_Disabled
  | Destination_Unconfigured
  | Lease_Expired
  | Payload_Invalid
  | Permanent_Delivery_Error
  | Retryable_Delivery_Error
  | Telegram_Protocol_Error
  | Telegram_Runtime_Copy_Invalid
  | Telegram_Runtime_Copy_Unavailable
  | Telegram_Staging_File_Invalid
  | Telegram_Staging_File_Missing

fun severity_value :: "severity \<Rightarrow> string" where
  "severity_value Low = ''low''"
| "severity_value Medium = ''medium''"
| "severity_value High = ''high''"
| "severity_value Critical = ''critical''"

fun status_value :: "incident_status \<Rightarrow> string" where
  "status_value New = ''new''"
| "status_value Investigating = ''investigating''"
| "status_value Resolved = ''resolved''"
| "status_value False_Positive = ''false_positive''"

fun role_value :: "operator_role \<Rightarrow> string" where
  "role_value Viewer = ''viewer''"
| "role_value Analyst = ''analyst''"
| "role_value Admin = ''admin''"

text \<open>Iteration order of \<open>for status in IncidentStatus\<close>.\<close>

definition all_statuses :: "incident_status list" where
  "all_statuses = [New, Investigating, Resolved, False_Positive]"

section \<open>Rows\<close>

record event_row =
  ev_id :: uuid
  ev_server_id :: uuid
  ev_agent_event_id :: uuid
  ev_schema_version :: int
  ev_source :: string
  ev_event_type :: string
  ev_occurred_at :: time
  ev_collected_at :: time
  ev_persisted_at :: time
  ev_payload :: json

record rule_version_row =
  rv_id :: uuid
  rv_rule_key :: string
  rv_version :: int
  rv_schema_version :: int
  rv_enabled :: bool
  rv_severity :: severity
  rv_checksum :: string
  rv_definition :: json
  rv_is_active :: bool
  rv_activated_at :: "time option"

record incident_row =
  inc_id :: uuid
  inc_server_id :: uuid
  inc_rule_version_id :: uuid
  inc_rule_key :: string
  inc_rule_version :: int
  inc_severity :: severity
  inc_status :: incident_status
  inc_title :: ustring
  inc_explanation :: ustring
  inc_recommendation :: ustring
  inc_title_en :: "ustring option"
  inc_explanation_en :: "ustring option"
  inc_recommendation_en :: "ustring option"
  inc_correlation :: "(string \<times> json) list"
  inc_correlation_hash :: string
  inc_rule_snapshot :: json
  inc_first_seen_at :: time
  inc_last_seen_at :: time
  inc_event_count :: nat
  inc_lock_version :: int
  inc_created_at :: time
  inc_updated_at :: time

record link_row =
  lk_incident_id :: uuid
  lk_event_id :: uuid
  lk_linked_at :: time

record history_row =
  hs_id :: uuid
  hs_incident_id :: uuid
  hs_version :: int
  hs_entry_type :: history_entry_type
  hs_from_status :: "incident_status option"
  hs_to_status :: incident_status
  hs_reason :: "ustring option"
  hs_changed_by :: "uuid option"
  hs_actor_username :: "string option"
  hs_auth_type :: "auth_method option"
  hs_auth_id :: "uuid option"
  hs_request_id :: "string option"
  hs_created_at :: time

record comment_row =
  cm_id :: uuid
  cm_incident_id :: uuid
  cm_operator_id :: uuid
  cm_actor_username :: string
  cm_auth_type :: auth_method
  cm_auth_id :: uuid
  cm_request_id :: string
  cm_body :: ustring
  cm_created_at :: time

text \<open>Scalar audit details: a string, an integer or a boolean (\<open>AuditDetailValue\<close>).\<close>

datatype detail_value = DStr string | DInt int | DBool bool

record audit_row =
  au_id :: uuid
  au_actor_type :: audit_actor
  au_operator_id :: "uuid option"
  au_actor_username :: "string option"
  au_auth_type :: "auth_method option"
  au_auth_id :: "uuid option"
  au_action :: string
  au_target_type :: string
  au_target_id :: uuid
  au_history_id :: "uuid option"
  au_request_id :: "string option"
  au_details :: "(string \<times> detail_value) list"
  au_created_at :: time

record idem_row =
  id_id :: uuid
  id_operator_id :: uuid
  id_key :: string
  id_operation :: string
  id_resource_id :: uuid
  id_request_hash :: string
  id_response_status :: nat
  id_response_body :: "(string \<times> json) list"
  id_created_at :: time

record destination_row =
  de_id :: uuid
  de_adapter_kind :: string
  de_enabled :: bool
  de_minimum_severity :: severity
  de_created_at :: time
  de_updated_at :: time

record outbox_row =
  ob_id :: uuid
  ob_notification_type :: string
  ob_incident_id :: uuid
  ob_destination_id :: uuid
  ob_payload_schema_version :: int
  ob_payload :: json
  ob_idempotency_key :: string
  ob_status :: outbox_status
  ob_attempt_count :: int
  ob_max_attempts :: int
  ob_next_attempt_at :: "time option"
  ob_claim_token :: "uuid option"
  ob_claimed_at :: "time option"
  ob_lease_expires_at :: "time option"
  ob_delivered_at :: "time option"
  ob_failed_at :: "time option"
  ob_last_error_code :: "outbox_error option"
  ob_last_error :: "string option"
  ob_created_at :: time
  ob_updated_at :: time

section \<open>The database\<close>

text \<open>
  \<open>next_uuid\<close> is the supply of \<open>uuid4()\<close>: identifiers below it have been handed out.
\<close>

record db =
  events :: "event_row list"
  rule_versions :: "rule_version_row list"
  incidents :: "incident_row list"
  incident_events :: "link_row list"
  history :: "history_row list"
  comments :: "comment_row list"
  audit_log :: "audit_row list"
  idempotency :: "idem_row list"
  destinations :: "destination_row list"
  outbox :: "outbox_row list"
  next_uuid :: uuid

definition db_empty :: db where
  "db_empty = \<lparr>events = [], rule_versions = [], incidents = [], incident_events = [],
     history = [], comments = [], audit_log = [], idempotency = [], destinations = [],
     outbox = [], next_uuid = 1\<rparr>"

definition uuid4 :: "db \<Rightarrow> uuid \<times> db" where
  "uuid4 d = (next_uuid d, d\<lparr>next_uuid := Suc (next_uuid d)\<rparr>)"

section \<open>CHECK constraints\<close>

definition incident_check :: "incident_row \<Rightarrow> bool" where
  "incident_check i \<longleftrightarrow> 0 < inc_event_count i \<and> 0 < inc_lock_version i
     \<and> length (inc_correlation_hash i) = 64"

definition rule_version_check :: "rule_version_row \<Rightarrow> bool" where
  "rule_version_check r \<longleftrightarrow> 0 < rv_version r \<and> length (rv_checksum r) = 64
     \<and> (rv_is_active r \<longrightarrow> rv_activated_at r \<noteq> None)"

definition is_terminal :: "incident_status \<Rightarrow> bool" where
  "is_terminal s \<longleftrightarrow> s = Resolved \<or> s = False_Positive"

definition history_check :: "history_row \<Rightarrow> bool" where
  "history_check h \<longleftrightarrow>
     0 < hs_version h
     \<and> (hs_auth_type h = None \<longleftrightarrow> hs_auth_id h = None)
     \<and> (case hs_reason h of None \<Rightarrow> True | Some r \<Rightarrow> 1 \<le> length r \<and> length r \<le> 1000)
     \<and> (hs_entry_type h = Baseline \<or> \<not> is_terminal (hs_to_status h) \<or> hs_reason h \<noteq> None)
     \<and> (case hs_entry_type h of
          Baseline \<Rightarrow> hs_version h = 1 \<and> hs_from_status h = None \<and> hs_reason h = None
            \<and> hs_changed_by h = None \<and> hs_actor_username h = None
            \<and> hs_auth_type h = None \<and> hs_auth_id h = None
        | Status_Transition \<Rightarrow> 1 < hs_version h \<and> hs_from_status h \<noteq> None
            \<and> hs_changed_by h \<noteq> None \<and> hs_actor_username h \<noteq> None
            \<and> hs_auth_type h \<noteq> None \<and> hs_auth_id h \<noteq> None)"

definition comment_check :: "comment_row \<Rightarrow> bool" where
  "comment_check c \<longleftrightarrow> 1 \<le> length (cm_body c) \<and> length (cm_body c) \<le> 1000"

definition audit_check :: "audit_row \<Rightarrow> bool" where
  "audit_check a \<longleftrightarrow>
     (case au_actor_type a of
        Actor_Local_Cli \<Rightarrow> au_operator_id a = None \<and> au_actor_username a = None
          \<and> au_auth_type a = None \<and> au_auth_id a = None
      | Actor_Operator \<Rightarrow> au_operator_id a \<noteq> None \<and> au_actor_username a \<noteq> None
          \<and> au_auth_type a \<noteq> None \<and> au_auth_id a \<noteq> None)
     \<and> head_run is_lower (\<lambda>c. is_lower c \<or> is_digit c \<or> c = CHR ''_'' \<or> c = CHR ''.'') 2 63 (au_action a)
     \<and> head_run is_lower (\<lambda>c. is_lower c \<or> is_digit c \<or> c = CHR ''_'') 2 31 (au_target_type a)"

definition idempotency_key_ok :: "string \<Rightarrow> bool" where
  "idempotency_key_ok =
     head_run is_alnum (\<lambda>c. is_alnum c \<or> c \<in> {CHR ''.'', CHR ''_'', CHR '':'', CHR ''-''}) 0 127"

definition idem_check :: "idem_row \<Rightarrow> bool" where
  "idem_check r \<longleftrightarrow> idempotency_key_ok (id_key r) \<and> is_sha256_hex (id_request_hash r)
     \<and> id_response_status r \<in> {200, 404, 409}"

text \<open>The regular expression of \<open>idempotency_key_format\<close>: \<open>incident.created:UUID:UUID\<close>.\<close>

definition outbox_key_format :: "string \<Rightarrow> bool" where
  "outbox_key_format s \<longleftrightarrow> take 17 s = ''incident.created:''
     \<and> canonical_uuid_text (take 36 (drop 17 s)) \<and> take 1 (drop 53 s) = '':''
     \<and> canonical_uuid_text (drop 54 s)"

definition outbox_state_shape :: "outbox_row \<Rightarrow> bool" where
  "outbox_state_shape m \<longleftrightarrow>
     (case ob_status m of
        Pending \<Rightarrow> ob_claim_token m = None \<and> ob_claimed_at m = None \<and> ob_lease_expires_at m = None
          \<and> ob_next_attempt_at m \<noteq> None \<and> ob_delivered_at m = None \<and> ob_failed_at m = None
      | Processing \<Rightarrow> ob_claim_token m \<noteq> None \<and> ob_claimed_at m \<noteq> None
          \<and> ob_lease_expires_at m \<noteq> None \<and> ob_next_attempt_at m = None
          \<and> ob_delivered_at m = None \<and> ob_failed_at m = None
      | Delivered \<Rightarrow> ob_claim_token m = None \<and> ob_claimed_at m = None
          \<and> ob_lease_expires_at m = None \<and> ob_next_attempt_at m = None
          \<and> ob_delivered_at m \<noteq> None \<and> ob_failed_at m = None
          \<and> ob_last_error_code m = None \<and> ob_last_error m = None
      | Failed \<Rightarrow> ob_claim_token m = None \<and> ob_claimed_at m = None
          \<and> ob_lease_expires_at m = None \<and> ob_next_attempt_at m = None
          \<and> ob_delivered_at m = None \<and> ob_failed_at m \<noteq> None
          \<and> ob_last_error_code m \<noteq> None \<and> ob_last_error m \<noteq> None)"

definition outbox_check :: "outbox_row \<Rightarrow> bool" where
  "outbox_check m \<longleftrightarrow>
     ob_notification_type m = ''incident.created'' \<and> ob_payload_schema_version m = 1
     \<and> (case ob_payload m of JObj _ \<Rightarrow> True | _ \<Rightarrow> False)
     \<and> 0 \<le> ob_attempt_count m \<and> ob_attempt_count m \<le> ob_max_attempts m
     \<and> 1 \<le> ob_max_attempts m \<and> ob_max_attempts m \<le> 20
     \<and> (case (ob_claim_token m, ob_lease_expires_at m, ob_claimed_at m) of
          (Some _, Some l, Some c) \<Rightarrow> c < l
        | _ \<Rightarrow> True)
     \<and> outbox_state_shape m \<and> outbox_key_format (ob_idempotency_key m)"

section \<open>Unique constraints\<close>

definition events_unique :: "event_row list \<Rightarrow> bool" where
  "events_unique es \<longleftrightarrow> distinct (map ev_id es)
     \<and> distinct (map (\<lambda>e. (ev_server_id e, ev_agent_event_id e)) es)"

definition rule_versions_unique :: "rule_version_row list \<Rightarrow> bool" where
  "rule_versions_unique rs \<longleftrightarrow> distinct (map rv_id rs)
     \<and> distinct (map (\<lambda>r. (rv_rule_key r, rv_version r)) rs)
     \<and> distinct (map (\<lambda>r. (rv_rule_key r, rv_checksum r)) rs)
     \<and> distinct (map rv_rule_key (filter rv_is_active rs))"

definition is_open :: "incident_row \<Rightarrow> bool" where
  "is_open i \<longleftrightarrow> inc_status i = New \<or> inc_status i = Investigating"

definition incidents_unique :: "incident_row list \<Rightarrow> bool" where
  "incidents_unique is \<longleftrightarrow> distinct (map inc_id is)
     \<and> distinct (map (\<lambda>i. (inc_server_id i, inc_rule_version_id i, inc_correlation_hash i))
         (filter is_open is))"

definition links_unique :: "link_row list \<Rightarrow> bool" where
  "links_unique ls \<longleftrightarrow> distinct (map (\<lambda>l. (lk_incident_id l, lk_event_id l)) ls)"

definition history_unique :: "history_row list \<Rightarrow> bool" where
  "history_unique hs \<longleftrightarrow> distinct (map hs_id hs)
     \<and> distinct (map (\<lambda>h. (hs_incident_id h, hs_version h)) hs)"

definition audit_unique :: "audit_row list \<Rightarrow> bool" where
  "audit_unique as \<longleftrightarrow> distinct (map au_id as)
     \<and> distinct (map au_history_id (filter (\<lambda>a. au_history_id a \<noteq> None) as))"

definition idem_unique :: "idem_row list \<Rightarrow> bool" where
  "idem_unique rs \<longleftrightarrow> distinct (map (\<lambda>r. (id_operator_id r, id_key r)) rs)"

definition outbox_unique :: "outbox_row list \<Rightarrow> bool" where
  "outbox_unique ms \<longleftrightarrow> distinct (map ob_id ms)
     \<and> distinct (map (\<lambda>m. (ob_notification_type m, ob_incident_id m, ob_destination_id m)) ms)
     \<and> distinct (map ob_idempotency_key ms)"

end
