(* ===== verification/Ip_Address.thy ===== *)
theory Ip_Address
  imports Guard_Prelude "HOL-Library.Word"
begin

text \<open>
  IP addresses and networks as the program uses Python's \<open>ipaddress\<close>: reading
  (\<open>ip_address\<close>, \<open>ip_network\<close>), the canonical text (\<open>str\<close>), and membership of an address
  in a network. An IPv4 address is a 32-bit word, an IPv6 address a 128-bit word with an
  optional scope. Network membership masks the address, as \<open>_BaseNetwork.__contains__\<close> does.
\<close>

unbundle bit_operations_syntax

datatype ip = V4 "32 word" | V6 "128 word" "string option"

datatype ip_net = N4 "32 word" nat | N6 "128 word" nat

section \<open>IPv4 text\<close>

definition octet :: "32 word \<Rightarrow> nat \<Rightarrow> nat" where
  "octet a i = unat a div 256 ^ i mod 256"

definition show_v4 :: "32 word \<Rightarrow> string" where
  "show_v4 a = join_with ''.'' (map (\<lambda>i. show_nat (octet a i)) [3, 2, 1, 0])"

definition read_octet :: "string \<Rightarrow> nat option" where
  "read_octet s = (if s \<noteq> [] \<and> list_all is_digit s \<and> length s \<le> 3
      \<and> (s = ''0'' \<or> hd s \<noteq> CHR ''0'') \<and> read_dec s \<le> 255
    then Some (read_dec s) else None)"

definition read_v4 :: "string \<Rightarrow> 32 word option" where
  "read_v4 s = (case map read_octet (split_on (CHR ''.'') s) of
      [Some a, Some b, Some c, Some d] \<Rightarrow>
        Some (of_nat (((a * 256 + b) * 256 + c) * 256 + d))
    | _ \<Rightarrow> None)"

section \<open>IPv6 text\<close>

definition is_hex :: "char \<Rightarrow> bool" where
  "is_hex c \<longleftrightarrow> is_lower_hex c \<or> (65 \<le> (of_char c :: nat) \<and> (of_char c :: nat) \<le> 70)"

definition hex_value :: "char \<Rightarrow> nat" where
  "hex_value c = (let n = of_char c in
     if n \<le> 57 then n - 48 else if n \<le> 70 then n - 55 else n - 87)"

definition read_hextet :: "string \<Rightarrow> nat option" where
  "read_hextet s = (if s \<noteq> [] \<and> list_all is_hex s \<and> length s \<le> 4
    then Some (foldl (\<lambda>n c. 16 * n + hex_value c) 0 s) else None)"

fun strip_zeros :: "string \<Rightarrow> string" where
  "strip_zeros [] = ''0''"
| "strip_zeros [c] = [c]"
| "strip_zeros (c # d # cs) = (if c = CHR ''0'' then strip_zeros (d # cs) else c # d # cs)"

definition show_hextet :: "nat \<Rightarrow> string" where
  "show_hextet n = strip_zeros (hex_text 4 n)"

definition hextet :: "128 word \<Rightarrow> nat \<Rightarrow> nat" where
  "hextet a i = unat a div 65536 ^ i mod 65536"

text \<open>
  \<open>_compress_hextets\<close>: the scan keeps the start and length of the run of zeros it is in and of
  the longest run so far (the first among equals).
\<close>

fun longest_zeros :: "nat \<Rightarrow> string list \<Rightarrow> (nat \<times> nat) \<Rightarrow> (nat \<times> nat) \<Rightarrow> nat \<times> nat" where
  "longest_zeros i [] (s, l) (bs, bl) = (bs, bl)"
| "longest_zeros i (h # hs) (s, l) (bs, bl) =
     (if h = ''0''
      then (let s' = (if l = 0 then i else s); l' = l + 1 in
            longest_zeros (i + 1) hs (s', l') (if l' > bl then (s', l') else (bs, bl)))
      else longest_zeros (i + 1) hs (0, 0) (bs, bl))"

definition compress_hextets :: "string list \<Rightarrow> string list" where
  "compress_hextets hs = (let (bs, bl) = longest_zeros 0 hs (0, 0) (0, 0) in
     if bl > 1 then
       (if bs = 0 then [[]] else []) @ take bs hs @ [[]] @ drop (bs + bl) hs
         @ (if bs + bl = length hs then [[]] else [])
     else hs)"

definition show_v6 :: "128 word \<Rightarrow> string" where
  "show_v6 a = join_with '':'' (compress_hextets (map (\<lambda>i. show_hextet (hextet a i)) [7, 6, 5, 4, 3, 2, 1, 0]))"

definition all_some :: "'a option list \<Rightarrow> 'a list option" where
  "all_some xs = (if list_all (\<lambda>x. x \<noteq> None) xs then Some (map the xs) else None)"

definition hextets_word :: "nat list \<Rightarrow> 128 word" where
  "hextets_word hs = of_nat (foldl (\<lambda>n h. n * 65536 + h) 0 hs)"

text \<open>\<open>_ip_int_from_string\<close> of IPv6, on the text before any scope.\<close>

definition expand_suffix :: "string list \<Rightarrow> string list option" where
  "expand_suffix ps =
     (if CHR ''.'' \<in> set (last ps) then
        (case read_v4 (last ps) of
           None \<Rightarrow> None
         | Some a \<Rightarrow> Some (butlast ps @ [show_hextet (unat a div 65536), show_hextet (unat a mod 65536)]))
      else Some ps)"

definition read_v6_parts :: "string list \<Rightarrow> 128 word option" where
  "read_v6_parts ps =
     (if length ps > 9 then None
      else (case filter (\<lambda>i. ps ! i = []) [1..<length ps - 1] of
        [] \<Rightarrow> (if length ps \<noteq> 8 then None
               else map_option hextets_word (all_some (map read_hextet ps)))
      | [k] \<Rightarrow>
          (let hi = take k ps; lo = drop (k + 1) ps;
               hi' = (if hd ps = [] then tl hi else hi);
               lo' = (if last ps = [] then butlast lo else lo)
           in if (hd ps = [] \<and> hi' \<noteq> []) \<or> (last ps = [] \<and> lo' \<noteq> [])
                 \<or> 8 - (length hi' + length lo') < 1
              then None
              else (case (all_some (map read_hextet hi'), all_some (map read_hextet lo')) of
                  (Some a, Some b) \<Rightarrow>
                    Some (hextets_word (a @ replicate (8 - (length a + length b)) 0 @ b))
                | _ \<Rightarrow> None))
      | _ \<Rightarrow> None))"

definition read_v6_int :: "string \<Rightarrow> 128 word option" where
  "read_v6_int s = (let ps = split_on (CHR '':'') s in
     if s = [] \<or> length ps < 3 then None
     else (case expand_suffix ps of None \<Rightarrow> None | Some ps' \<Rightarrow> read_v6_parts ps'))"

definition read_v6 :: "string \<Rightarrow> ip option" where
  "read_v6 s =
     (if CHR ''/'' \<in> set s then None
      else (case split_on (CHR ''%'') s of
          [addr] \<Rightarrow> map_option (\<lambda>a. V6 a None) (read_v6_int addr)
        | [addr, scope] \<Rightarrow>
            (if scope = [] then None else map_option (\<lambda>a. V6 a (Some scope)) (read_v6_int addr))
        | _ \<Rightarrow> None))"

section \<open>\<open>ip_address\<close> and \<open>str\<close>\<close>

definition read_ip :: "string \<Rightarrow> ip option" where
  "read_ip s = (case read_v4 s of Some a \<Rightarrow> Some (V4 a) | None \<Rightarrow> read_v6 s)"

fun show_ip :: "ip \<Rightarrow> string" where
  "show_ip (V4 a) = show_v4 a"
| "show_ip (V6 a None) = show_v6 a"
| "show_ip (V6 a (Some scope)) = show_v6 a @ ''%'' @ scope"

fun has_scope_id :: "ip \<Rightarrow> bool" where
  "has_scope_id (V4 a) = False"
| "has_scope_id (V6 a s) = (s \<noteq> None)"

text \<open>\<open>address.ipv4_mapped is not None\<close>: the upper 96 bits are \<open>::ffff\<close>.\<close>

fun is_ipv4_mapped :: "ip \<Rightarrow> bool" where
  "is_ipv4_mapped (V4 a) = False"
| "is_ipv4_mapped (V6 a s) = (drop_bit 32 a = 65535)"

section \<open>Networks\<close>

definition mask4 :: "nat \<Rightarrow> 32 word" where
  "mask4 n = push_bit (32 - n) (- 1)"

definition mask6 :: "nat \<Rightarrow> 128 word" where
  "mask6 n = push_bit (128 - n) (- 1)"

fun in_net :: "ip \<Rightarrow> ip_net \<Rightarrow> bool" where
  "in_net (V4 a) (N4 n l) = (a AND mask4 l = n)"
| "in_net (V6 a s) (N6 n l) = (a AND mask6 l = n)"
| "in_net _ _ = False"

fun show_net :: "ip_net \<Rightarrow> string" where
  "show_net (N4 n l) = show_v4 n @ ''/'' @ show_nat l"
| "show_net (N6 n l) = show_v6 n @ ''/'' @ show_nat l"

text \<open>
  \<open>str(ip_network(value)) == value\<close> holds exactly for the text \<open>address/length\<close> of a network
  without host bits, in canonical form; \<open>read_net\<close> returns that network.
\<close>

definition read_net :: "string \<Rightarrow> ip_net option" where
  "read_net s = (case split_on (CHR ''/'') s of
      [addr, len] \<Rightarrow>
        (if len \<noteq> [] \<and> list_all is_digit len \<and> length len \<le> 3 then
          (case read_ip addr of
             Some (V4 a) \<Rightarrow> (if read_dec len \<le> 32 \<and> a AND mask4 (read_dec len) = a
                then Some (N4 a (read_dec len)) else None)
           | Some (V6 a None) \<Rightarrow> (if read_dec len \<le> 128 \<and> a AND mask6 (read_dec len) = a
                then Some (N6 a (read_dec len)) else None)
           | _ \<Rightarrow> None)
         else None)
    | _ \<Rightarrow> None)"

definition canonical_net :: "string \<Rightarrow> bool" where
  "canonical_net s = (case read_net s of None \<Rightarrow> False | Some n \<Rightarrow> show_net n = s)"

section \<open>Reading back what was printed\<close>

lemma octet_le [simp]: "octet a i \<le> 255"
  by (simp add: octet_def less_Suc_eq_le [symmetric])

lemma show_nat_head: "show_nat n = ''0'' \<or> hd (show_nat n) \<noteq> CHR ''0''"
proof (induction n rule: nat_digits.induct)
  case (1 n)
  show ?case
  proof (cases "n < 10")
    case True
    then have "show_nat n = [char_of (48 + n)]"
      by (simp add: show_nat_def nat_digits.simps)
    moreover have "(char_of (48 :: nat) :: char) = CHR ''0''"
      by code_simp
    moreover have "n \<noteq> 0 \<Longrightarrow> (char_of (48 + n) :: char) \<noteq> CHR ''0''"
    proof
      assume "n \<noteq> 0" "(char_of (48 + n) :: char) = CHR ''0''"
      then have "(of_char (char_of (48 + n) :: char) :: nat) = 48" by simp
      with True \<open>n \<noteq> 0\<close> show False by (simp add: of_char_of)
    qed
    ultimately show ?thesis by (cases "n = 0") auto
  next
    case False
    then have eq: "show_nat n = show_nat (n div 10) @ [char_of (48 + n mod 10)]"
      by (simp add: show_nat_def nat_digits.simps [of n])
    from False have "show_nat (n div 10) \<noteq> ''0''"
      using read_dec_show_nat [of "n div 10"] by (auto simp: read_dec_def)
    with 1 False have "hd (show_nat (n div 10)) \<noteq> CHR ''0''" by blast
    with eq show ?thesis by simp
  qed
qed

lemma length_show_nat: "n < 1000 \<Longrightarrow> length (show_nat n) \<le> 3"
  unfolding show_nat_def
  by (subst nat_digits.simps, simp, subst nat_digits.simps, simp, subst nat_digits.simps, simp)

lemma read_octet_show [simp]: "n \<le> 255 \<Longrightarrow> read_octet (show_nat n) = Some n"
  using show_nat_head [of n] length_show_nat [of n]
  by (auto simp: read_octet_def list_all_iff dest: show_nat_digits)

lemma show_nat_no_dot: "CHR ''.'' \<notin> set (show_nat n)"
  using show_nat_digits [of "CHR ''.''" n] by (auto simp: is_digit_def)

lemma base256:
  "(a :: nat) = r0 + 256 * b \<Longrightarrow> b = r1 + 256 * c \<Longrightarrow> c = r2 + 256 * d
    \<Longrightarrow> ((d * 256 + r2) * 256 + r1) * 256 + r0 = a"
  by simp

lemma octets_sum: "((octet a 3 * 256 + octet a 2) * 256 + octet a 1) * 256 + octet a 0 = unat a"
proof -
  define q where "q i = unat a div 256 ^ i" for i :: nat
  have "unat a < 256 ^ 4" using unsigned_less [of a, where ?'a = nat] by simp
  then have "q 3 < 256" by (simp add: q_def less_mult_imp_div_less)
  then have q3: "q 3 mod 256 = q 3" by simp
  have step: "q i = q i mod 256 + 256 * q (Suc i)" for i
    unfolding q_def power_Suc2 div_mult2_eq by simp
  have "((q 3 * 256 + q 2 mod 256) * 256 + q 1 mod 256) * 256 + q 0 mod 256 = q 0"
    using step [of 0] step [of 1] step [of 2]
    by (intro base256) (simp_all only: One_nat_def numeral_2_eq_2 numeral_3_eq_3)
  with q3 have "((q 3 mod 256 * 256 + q 2 mod 256) * 256 + q 1 mod 256) * 256 + q 0 mod 256 = q 0"
    by simp
  moreover have "octet a i = q i mod 256" for i by (simp add: octet_def q_def)
  moreover have "q 0 = unat a" by (simp add: q_def)
  ultimately show ?thesis by (simp only:)
qed

theorem read_show_v4 [simp]: "read_v4 (show_v4 a) = Some a"
proof -
  let ?os = "map (\<lambda>i. show_nat (octet a i)) [3, 2, 1, 0]"
  have "split_on (CHR ''.'') (show_v4 a) = ?os"
    unfolding show_v4_def by (rule split_on_join) (auto simp: show_nat_no_dot)
  then have "read_v4 (show_v4 a) = Some (of_nat (((octet a 3 * 256 + octet a 2) * 256 + octet a 1) * 256 + octet a 0))"
    by (simp add: read_v4_def)
  then show ?thesis by (simp only: octets_sum) simp
qed

end
