(* ===== verification/Audit_Log.thy ===== *)
theory Audit_Log
  imports Database Ip_Address "HOL-Library.Sublist"
begin

text \<open>
  \<open>application/audit.py\<close>: the closed registry of audit actions, the validator that admits a
  record only when actor, authentication method, target and the exact set of detail fields match
  the registry, and the two append-only writers. Untrusted detail values are JSON values; the
  stored ones are \<open>detail_value\<close>. Also \<open>application/operator_principal.py\<close>, the identity
  the operator writer takes.
\<close>

section \<open>Operator identity\<close>

record principal =
  op_operator_id :: uuid
  op_username :: string
  op_role :: operator_role
  op_auth_type :: auth_method
  op_auth_id :: uuid

section \<open>The registry\<close>

datatype detail_type =
    T_Uuid
  | T_Operator_Role
  | T_Incident_Status
  | T_Positive_Integer
  | T_Boolean
  | T_Adapter_Kind
  | T_Severity
  | T_Ip_Address
  | T_Ip_Network

datatype history_policy = Required | Forbidden

record audit_spec =
  sp_actor_type :: audit_actor
  sp_target_type :: string
  sp_detail_fields :: "(string \<times> detail_type) list"
  sp_auth_methods :: "auth_method list"
  sp_history_policy :: history_policy

definition all_auth_methods :: "auth_method list" where
  "all_auth_methods = [Operator_Api_Key, Web_Session, Telegram_Link]"

definition cli_spec :: "string \<Rightarrow> (string \<times> detail_type) list \<Rightarrow> audit_spec" where
  "cli_spec target flds = \<lparr>sp_actor_type = Actor_Local_Cli, sp_target_type = target,
     sp_detail_fields = flds, sp_auth_methods = [], sp_history_policy = Forbidden\<rparr>"

definition operator_spec ::
  "string \<Rightarrow> (string \<times> detail_type) list \<Rightarrow> auth_method list \<Rightarrow> audit_spec" where
  "operator_spec target flds methods = \<lparr>sp_actor_type = Actor_Operator, sp_target_type = target,
     sp_detail_fields = flds, sp_auth_methods = methods, sp_history_policy = Forbidden\<rparr>"

definition audit_registry :: "(string \<times> audit_spec) list" where
  "audit_registry =
   [(''operator.created'', cli_spec ''operator'' [(''role'', T_Operator_Role)]),
    (''operator_api_key.issued'', cli_spec ''operator_api_key'' [(''operator_id'', T_Uuid)]),
    (''operator_api_key.rotated'', cli_spec ''operator_api_key''
       [(''operator_id'', T_Uuid), (''replaced_key_id'', T_Uuid)]),
    (''operator_api_key.revoked'', cli_spec ''operator_api_key'' [(''operator_id'', T_Uuid)]),
    (''incident.status_changed'', (operator_spec ''incident''
       [(''from_status'', T_Incident_Status), (''from_version'', T_Positive_Integer),
        (''history_id'', T_Uuid), (''to_status'', T_Incident_Status),
        (''to_version'', T_Positive_Integer)] all_auth_methods)\<lparr>sp_history_policy := Required\<rparr>),
    (''incident.comment_added'', operator_spec ''incident_comment'' [(''incident_id'', T_Uuid)]
       all_auth_methods),
    (''operator_web_session.started'', operator_spec ''operator_web_session'' [] [Operator_Api_Key]),
    (''operator_web_session.ended'', operator_spec ''operator_web_session'' [] [Web_Session]),
    (''operator_telegram_link.created'', cli_spec ''operator_telegram_link'' [(''operator_id'', T_Uuid)]),
    (''operator_telegram_link.revoked'', cli_spec ''operator_telegram_link'' [(''operator_id'', T_Uuid)]),
    (''outbox.failed_requeued'', cli_spec ''outbox_message''
       [(''from_attempt_count'', T_Positive_Integer), (''from_max_attempts'', T_Positive_Integer),
        (''to_max_attempts'', T_Positive_Integer)]),
    (''notification_destination.created'', cli_spec ''notification_destination''
       [(''adapter_kind'', T_Adapter_Kind), (''minimum_severity'', T_Severity)]),
    (''notification_destination.updated'', cli_spec ''notification_destination''
       [(''adapter_kind'', T_Adapter_Kind), (''from_minimum_severity'', T_Severity),
        (''to_minimum_severity'', T_Severity), (''chat_id_changed'', T_Boolean),
        (''token_file_changed'', T_Boolean)]),
    (''notification_destination.enabled'', cli_spec ''notification_destination''
       [(''adapter_kind'', T_Adapter_Kind), (''minimum_severity'', T_Severity)]),
    (''notification_destination.disabled'', cli_spec ''notification_destination''
       [(''adapter_kind'', T_Adapter_Kind), (''minimum_severity'', T_Severity)]),
    (''notification_destination.disabled_by_operator'', operator_spec ''notification_destination''
       [(''adapter_kind'', T_Adapter_Kind), (''minimum_severity'', T_Severity)] [Web_Session]),
    (''notification_destination.minimum_severity_changed_by_operator'',
       operator_spec ''notification_destination''
       [(''adapter_kind'', T_Adapter_Kind), (''from_minimum_severity'', T_Severity),
        (''to_minimum_severity'', T_Severity)] [Web_Session]),
    (''ip_block_plan.proposed'', operator_spec ''ip_block_plan''
       [(''incident_id'', T_Uuid), (''ip_address'', T_Ip_Address)] all_auth_methods),
    (''ip_block_plan.approved'', operator_spec ''ip_block_plan''
       [(''ip_address'', T_Ip_Address), (''proposed_by_operator_id'', T_Uuid)] all_auth_methods),
    (''ip_block_plan.rejected'', operator_spec ''ip_block_plan''
       [(''ip_address'', T_Ip_Address), (''proposed_by_operator_id'', T_Uuid)] all_auth_methods),
    (''ip_block_allowlist.created'', cli_spec ''ip_block_allowlist_entry'' [(''cidr'', T_Ip_Network)]),
    (''ip_block_allowlist.revoked'', cli_spec ''ip_block_allowlist_entry'' [(''cidr'', T_Ip_Network)])]"

definition forbidden_fields :: "string list" where
  "forbidden_fields =
     [''authorization'', ''credential'', ''event_payload'', ''request_body'', ''secret'', ''token'']"

text \<open>\<open>str.casefold\<close>, on ASCII.\<close>

definition casefold :: "string \<Rightarrow> string" where
  "casefold = map (\<lambda>c. if is_upper c then char_of ((of_char c :: nat) + 32) else c)"

section \<open>Validation\<close>

definition max_database_integer :: int where
  "max_database_integer = 2147483647"

definition invalid_detail :: exn where
  "invalid_detail = AuditValidationError ''audit detail value is invalid''"

definition checked_text :: "(string \<Rightarrow> bool) \<Rightarrow> json \<Rightarrow> detail_value result" where
  "checked_text ok v = (case v of
     JStr s \<Rightarrow> if ok s then Inr (DStr s) else Inl invalid_detail
   | _ \<Rightarrow> Inl invalid_detail)"

definition canonical_audit_ip :: "string \<Rightarrow> bool" where
  "canonical_audit_ip s = (case read_ip s of
     None \<Rightarrow> False
   | Some a \<Rightarrow> \<not> is_ipv4_mapped a \<and> show_ip a = s)"

fun validate_detail_value :: "json \<Rightarrow> detail_type \<Rightarrow> detail_value result" where
  "validate_detail_value v T_Uuid = checked_text canonical_uuid_text v"
| "validate_detail_value v T_Operator_Role =
     checked_text (\<lambda>s. s \<in> set (map role_value [Viewer, Analyst, Admin])) v"
| "validate_detail_value v T_Incident_Status =
     checked_text (\<lambda>s. s \<in> set (map status_value all_statuses)) v"
| "validate_detail_value v T_Adapter_Kind = checked_text (\<lambda>s. s = ''telegram'') v"
| "validate_detail_value v T_Severity =
     checked_text (\<lambda>s. s \<in> set (map severity_value [Low, Medium, High, Critical])) v"
| "validate_detail_value v T_Ip_Address = checked_text canonical_audit_ip v"
| "validate_detail_value v T_Ip_Network = checked_text canonical_net v"
| "validate_detail_value v T_Boolean =
     (case v of JBool b \<Rightarrow> Inr (DBool b) | _ \<Rightarrow> Inl invalid_detail)"
| "validate_detail_value v T_Positive_Integer =
     (case v of JInt i \<Rightarrow>
        if 1 \<le> i \<and> i \<le> max_database_integer then Inr (DInt i) else Inl invalid_detail
      | _ \<Rightarrow> Inl invalid_detail)"

text \<open>The loop over \<open>spec.detail_fields\<close>; the caller has checked that every field is supplied.\<close>

fun validate_fields ::
  "(string \<times> json) list \<Rightarrow> (string \<times> detail_type) list \<Rightarrow> (string \<times> detail_value) list result" where
  "validate_fields details [] = Inr []"
| "validate_fields details ((f, t) # fs) =
     (case obj_get details f of
        None \<Rightarrow> Inl (KeyError f)
      | Some v \<Rightarrow> bind_r (validate_detail_value v t) (\<lambda>d.
          bind_r (validate_fields details fs) (\<lambda>ds. Inr ((f, d) # ds))))"

definition schema_mismatch :: exn where
  "schema_mismatch = AuditValidationError ''audit details do not match action schema''"

definition auth_mismatch :: exn where
  "auth_mismatch = AuditValidationError ''audit authentication method is not allowed for action''"

definition validate_audit_action ::
  "string \<Rightarrow> audit_actor \<Rightarrow> auth_method option \<Rightarrow> string \<Rightarrow> (string \<times> json) list
    \<Rightarrow> (string \<times> detail_value) list result" where
  "validate_audit_action action actor auth target details =
     (case map_of audit_registry action of
        None \<Rightarrow> Inl (AuditValidationError ''audit action is not allowed'')
      | Some spec \<Rightarrow>
        if actor \<noteq> sp_actor_type spec
          then Inl (AuditValidationError ''audit actor is not allowed for action'')
        else if actor = Actor_Operator
            \<and> \<not> (case auth of None \<Rightarrow> False | Some m \<Rightarrow> m \<in> set (sp_auth_methods spec))
          then Inl auth_mismatch
        else if actor \<noteq> Actor_Operator \<and> auth \<noteq> None then Inl auth_mismatch
        else if target \<noteq> sp_target_type spec
          then Inl (AuditValidationError ''audit target type is not allowed for action'')
        else if \<exists>f \<in> set (map fst details). casefold f \<in> set forbidden_fields
          then Inl schema_mismatch
        else if set (map fst details) \<noteq> set (map fst (sp_detail_fields spec))
          then Inl schema_mismatch
        else validate_fields details (sp_detail_fields spec))"

section \<open>The writers\<close>

definition record_local_cli_action ::
  "db \<Rightarrow> time \<Rightarrow> string \<Rightarrow> string \<Rightarrow> uuid \<Rightarrow> (string \<times> json) list \<Rightarrow> (db \<times> audit_row) result" where
  "record_local_cli_action d now action target target_id details =
     bind_r (validate_audit_action action Actor_Local_Cli None target details) (\<lambda>checked.
       let (eid, d1) = uuid4 d;
           entry = \<lparr>au_id = eid, au_actor_type = Actor_Local_Cli, au_operator_id = None,
             au_actor_username = None, au_auth_type = None, au_auth_id = None,
             au_action = action, au_target_type = target, au_target_id = target_id,
             au_history_id = None, au_request_id = None, au_details = checked, au_created_at = now\<rparr>
       in Inr (d1\<lparr>audit_log := audit_log d1 @ [entry]\<rparr>, entry))"

definition history_reference_ok ::
  "audit_spec \<Rightarrow> uuid option \<Rightarrow> (string \<times> detail_value) list \<Rightarrow> unit result" where
  "history_reference_ok spec hist checked =
     (case sp_history_policy spec of
        Required \<Rightarrow>
          guard_r (case hist of None \<Rightarrow> False
              | Some h \<Rightarrow> map_of checked ''history_id'' = Some (DStr (uuid_str h)))
            (AuditValidationError ''audit history reference does not match action schema'')
      | Forbidden \<Rightarrow>
          guard_r (hist = None)
            (AuditValidationError ''audit history reference is not allowed for action''))"

definition record_operator_action ::
  "db \<Rightarrow> time \<Rightarrow> principal \<Rightarrow> string \<Rightarrow> string \<Rightarrow> uuid \<Rightarrow> string \<Rightarrow> uuid option
    \<Rightarrow> (string \<times> json) list \<Rightarrow> (db \<times> audit_row) result" where
  "record_operator_action d now actor action target target_id request_id hist details =
     bind_r (validate_audit_action action Actor_Operator (Some (op_auth_type actor)) target details)
       (\<lambda>checked.
       case map_of audit_registry action of
         None \<Rightarrow> Inl (KeyError action)
       | Some spec \<Rightarrow>
         bind_r (history_reference_ok spec hist checked) (\<lambda>_.
         let (eid, d1) = uuid4 d;
             entry = \<lparr>au_id = eid, au_actor_type = Actor_Operator,
               au_operator_id = Some (op_operator_id actor),
               au_actor_username = Some (op_username actor),
               au_auth_type = Some (op_auth_type actor), au_auth_id = Some (op_auth_id actor),
               au_action = action, au_target_type = target, au_target_id = target_id,
               au_history_id = hist, au_request_id = Some request_id, au_details = checked,
               au_created_at = now\<rparr>
         in Inr (d1\<lparr>audit_log := audit_log d1 @ [entry]\<rparr>, entry)))"

section \<open>What an admitted record satisfies\<close>

lemma audit_registry_distinct: "distinct (map fst audit_registry)"
  by (simp add: audit_registry_def)

definition audit_entry_formats :: "string \<Rightarrow> audit_spec \<Rightarrow> bool" where
  "audit_entry_formats action spec \<longleftrightarrow>
     head_run is_lower (\<lambda>c. is_lower c \<or> is_digit c \<or> c = CHR ''_'' \<or> c = CHR ''.'') 2 63 action
     \<and> head_run is_lower (\<lambda>c. is_lower c \<or> is_digit c \<or> c = CHR ''_'') 2 31 (sp_target_type spec)
     \<and> list_all (\<lambda>f. casefold f \<notin> set forbidden_fields) (map fst (sp_detail_fields spec))
     \<and> distinct (map fst (sp_detail_fields spec))"

lemma audit_registry_formats: "list_all (\<lambda>(a, s). audit_entry_formats a s) audit_registry"
  by (simp add: audit_registry_def cli_spec_def operator_spec_def audit_entry_formats_def head_run_def is_lower_def is_digit_def casefold_def is_upper_def forbidden_fields_def)

lemma registry_entry_formats: "map_of audit_registry a = Some s \<Longrightarrow> audit_entry_formats a s"
  using audit_registry_formats by (auto simp: list_all_iff dest!: map_of_SomeD)

lemma validate_fields_keys:
  "validate_fields details fs = Inr checked \<Longrightarrow> map fst checked = map fst fs"
  by (induction details fs arbitrary: checked rule: validate_fields.induct)
    (auto simp: bind_r_eq_Inr split: option.splits)

lemma validate_fields_values:
  "validate_fields details fs = Inr checked \<Longrightarrow> distinct (map fst fs) \<Longrightarrow> (f, t) \<in> set fs \<Longrightarrow>
    \<exists>v d. obj_get details f = Some v \<and> validate_detail_value v t = Inr d \<and> map_of checked f = Some d"
proof (induction details fs arbitrary: checked rule: validate_fields.induct)
  case (1 details)
  then show ?case by simp
next
  case (2 details g u fs)
  then obtain v d ds where step: "obj_get details g = Some v" "validate_detail_value v u = Inr d"
      "validate_fields details fs = Inr ds" "checked = (g, d) # ds"
    by (auto simp: bind_r_eq_Inr split: option.splits)
  show ?case
  proof (cases "f = g")
    case True
    with 2 step show ?thesis by force
  next
    case False
    with 2 step show ?thesis by auto
  qed
qed

lemma validate_audit_action_eq_Inr:
  "validate_audit_action action actor auth target details = Inr checked \<longleftrightarrow>
    (\<exists>spec. map_of audit_registry action = Some spec \<and> actor = sp_actor_type spec
      \<and> (case actor of
            Actor_Operator \<Rightarrow> (\<exists>m \<in> set (sp_auth_methods spec). auth = Some m)
          | Actor_Local_Cli \<Rightarrow> auth = None)
      \<and> target = sp_target_type spec
      \<and> (\<forall>f \<in> set (map fst details). casefold f \<notin> set forbidden_fields)
      \<and> set (map fst details) = set (map fst (sp_detail_fields spec))
      \<and> validate_fields details (sp_detail_fields spec) = Inr checked)"
  by (auto simp: validate_audit_action_def split: option.splits audit_actor.splits if_splits)

lemma audit_spec_actor_cases: "sp_actor_type spec = Actor_Operator \<or> sp_actor_type spec = Actor_Local_Cli"
  by (cases "sp_actor_type spec") auto

text \<open>The effect of each writer on the database: one row, appended, and one identifier used.\<close>

definition logged :: "db \<Rightarrow> audit_row \<Rightarrow> db" where
  "logged d e = d\<lparr>audit_log := audit_log d @ [e], next_uuid := Suc (next_uuid d)\<rparr>"

lemma record_local_cli_action_Inr:
  assumes "record_local_cli_action d now action target target_id details = Inr (d', e)"
  shows "d' = logged d e" "audit_check e" "au_id e = next_uuid d" "au_action e = action"
    "au_target_id e = target_id" "au_history_id e = None" "au_actor_type e = Actor_Local_Cli"
    "validate_audit_action action Actor_Local_Cli None target details = Inr (au_details e)"
    "au_created_at e = now"
proof -
  from assms obtain checked where v: "validate_audit_action action Actor_Local_Cli None target details = Inr checked"
    and e: "e = \<lparr>au_id = next_uuid d, au_actor_type = Actor_Local_Cli, au_operator_id = None,
             au_actor_username = None, au_auth_type = None, au_auth_id = None,
             au_action = action, au_target_type = target, au_target_id = target_id,
             au_history_id = None, au_request_id = None, au_details = checked, au_created_at = now\<rparr>"
    and d': "d' = logged d e"
    by (auto simp: record_local_cli_action_def bind_r_eq_Inr uuid4_def logged_def Let_def)
  from v obtain spec where "map_of audit_registry action = Some spec" "target = sp_target_type spec"
    by (auto simp: validate_audit_action_eq_Inr)
  then have "audit_entry_formats action spec" "target = sp_target_type spec"
    by (auto dest: registry_entry_formats)
  with e show "audit_check e" by (simp add: audit_check_def audit_entry_formats_def)
qed (use assms in \<open>auto simp: record_local_cli_action_def bind_r_eq_Inr uuid4_def logged_def Let_def\<close>)

lemma record_operator_action_Inr:
  assumes "record_operator_action d now actor action target target_id request_id hist details = Inr (d', e)"
  shows "d' = logged d e" "audit_check e" "au_id e = next_uuid d" "au_action e = action"
    "au_target_id e = target_id" "au_history_id e = hist" "au_actor_type e = Actor_Operator"
    "validate_audit_action action Actor_Operator (Some (op_auth_type actor)) target details = Inr (au_details e)"
    "au_operator_id e = Some (op_operator_id actor)" "au_created_at e = now"
    "au_auth_type e = Some (op_auth_type actor)" "au_auth_id e = Some (op_auth_id actor)"
proof -
  from assms obtain spec where
    v: "validate_audit_action action Actor_Operator (Some (op_auth_type actor)) target details = Inr (au_details e)"
    and spec: "map_of audit_registry action = Some spec"
    and e: "au_actor_type e = Actor_Operator" "au_operator_id e \<noteq> None" "au_actor_username e \<noteq> None"
      "au_auth_type e \<noteq> None" "au_auth_id e \<noteq> None" "au_action e = action" "au_target_type e = target"
    by (auto simp: record_operator_action_def bind_r_eq_Inr uuid4_def Let_def split: option.splits)
  from v spec have "target = sp_target_type spec"
    by (auto simp: validate_audit_action_eq_Inr)
  with spec have "audit_entry_formats action spec" "target = sp_target_type spec"
    by (auto dest: registry_entry_formats)
  with e show "audit_check e" by (simp add: audit_check_def audit_entry_formats_def)
qed (use assms in \<open>auto simp: record_operator_action_def bind_r_eq_Inr uuid4_def logged_def Let_def
      split: option.splits\<close>)

lemma logged_simps [simp]:
  "audit_log (logged d e) = audit_log d @ [e]" "next_uuid (logged d e) = Suc (next_uuid d)"
  "events (logged d e) = events d" "rule_versions (logged d e) = rule_versions d"
  "incidents (logged d e) = incidents d" "incident_events (logged d e) = incident_events d"
  "history (logged d e) = history d" "comments (logged d e) = comments d"
  "idempotency (logged d e) = idempotency d" "destinations (logged d e) = destinations d"
  "outbox (logged d e) = outbox d"
  by (simp_all add: logged_def)

section \<open>The invariant of the log\<close>

text \<open>
  Every record satisfies the CHECK constraints, record identifiers and referenced history
  entries are used once, and every reference points at an existing history entry.
\<close>

definition audit_inv :: "db \<Rightarrow> bool" where
  "audit_inv d \<longleftrightarrow> audit_unique (audit_log d)
     \<and> (\<forall>a \<in> set (audit_log d). audit_check a \<and> au_id a < next_uuid d
          \<and> (\<forall>h \<in> set_option (au_history_id a). h \<in> hs_id ` set (history d)))"

lemma audit_inv_logged:
  assumes "audit_inv d" "audit_check e" "au_id e = next_uuid d"
    and "\<And>h. au_history_id e = Some h \<Longrightarrow>
      h \<in> hs_id ` set (history d) \<and> Some h \<notin> au_history_id ` set (audit_log d)"
  shows "audit_inv (logged d e)"
  using assms
  by (cases "au_history_id e") (auto simp: audit_inv_def audit_unique_def less_Suc_eq image_iff)

lemma audit_inv_cong:
  "audit_log d' = audit_log d \<Longrightarrow> next_uuid d \<le> next_uuid d' \<Longrightarrow>
    hs_id ` set (history d) \<subseteq> hs_id ` set (history d') \<Longrightarrow> audit_inv d \<Longrightarrow> audit_inv d'"
  by (auto simp: audit_inv_def intro: less_le_trans)

lemma registry_status_changed:
  "map_of audit_registry ''incident.status_changed'' = Some \<lparr>sp_actor_type = Actor_Operator,
     sp_target_type = ''incident'', sp_detail_fields =
       [(''from_status'', T_Incident_Status), (''from_version'', T_Positive_Integer),
        (''history_id'', T_Uuid), (''to_status'', T_Incident_Status),
        (''to_version'', T_Positive_Integer)],
     sp_auth_methods = all_auth_methods, sp_history_policy = Required\<rparr>"
  by (simp add: audit_registry_def cli_spec_def operator_spec_def)

lemma registry_comment_added:
  "map_of audit_registry ''incident.comment_added'' = Some \<lparr>sp_actor_type = Actor_Operator,
     sp_target_type = ''incident_comment'', sp_detail_fields = [(''incident_id'', T_Uuid)],
     sp_auth_methods = all_auth_methods, sp_history_policy = Forbidden\<rparr>"
  by (simp add: audit_registry_def cli_spec_def operator_spec_def)

lemma registry_outbox_requeued:
  "map_of audit_registry ''outbox.failed_requeued'' = Some \<lparr>sp_actor_type = Actor_Local_Cli,
     sp_target_type = ''outbox_message'', sp_detail_fields =
       [(''from_attempt_count'', T_Positive_Integer), (''from_max_attempts'', T_Positive_Integer),
        (''to_max_attempts'', T_Positive_Integer)],
     sp_auth_methods = [], sp_history_policy = Forbidden\<rparr>"
  by (simp add: audit_registry_def cli_spec_def operator_spec_def)

lemma all_auth_methods_complete [simp]: "m \<in> set all_auth_methods"
  by (cases m) (simp_all add: all_auth_methods_def)

lemma status_value_listed [simp]: "status_value s \<in> set (map status_value all_statuses)"
  by (cases s) (simp_all add: all_statuses_def)

section \<open>Properties\<close>

text \<open>What a stored detail of each declared type looks like.\<close>

fun detail_conforms :: "detail_type \<Rightarrow> detail_value \<Rightarrow> bool" where
  "detail_conforms T_Uuid (DStr s) \<longleftrightarrow> canonical_uuid_text s"
| "detail_conforms T_Operator_Role (DStr s) \<longleftrightarrow> (\<exists>r. s = role_value r)"
| "detail_conforms T_Incident_Status (DStr s) \<longleftrightarrow> (\<exists>st. s = status_value st)"
| "detail_conforms T_Severity (DStr s) \<longleftrightarrow> (\<exists>sv. s = severity_value sv)"
| "detail_conforms T_Adapter_Kind (DStr s) \<longleftrightarrow> s = ''telegram''"
| "detail_conforms T_Ip_Address (DStr s) \<longleftrightarrow> canonical_audit_ip s"
| "detail_conforms T_Ip_Network (DStr s) \<longleftrightarrow> canonical_net s"
| "detail_conforms T_Boolean (DBool b) \<longleftrightarrow> True"
| "detail_conforms T_Positive_Integer (DInt i) \<longleftrightarrow> 1 \<le> i \<and> i < 2 ^ 31"
| "detail_conforms _ _ \<longleftrightarrow> False"

lemma checked_text_Inr: "checked_text ok v = Inr dv \<longleftrightarrow> (\<exists>s. v = JStr s \<and> dv = DStr s \<and> ok s)"
  by (auto simp: checked_text_def invalid_detail_def split: json.splits if_splits)

lemma checked_text_listed:
  assumes "checked_text (\<lambda>s. s \<in> set (map f xs)) v = Inr dv"
  shows "\<exists>s x. dv = DStr s \<and> s = f x"
proof -
  from assms obtain s where "dv = DStr s" "s \<in> set (map f xs)" by (auto simp only: checked_text_Inr)
  then show ?thesis by auto
qed

lemma validate_detail_value_conforms:
  assumes "validate_detail_value v t = Inr dv"
  shows "detail_conforms t dv"
proof (cases t)
  case T_Operator_Role
  then show ?thesis
    using checked_text_listed [OF assms [unfolded T_Operator_Role validate_detail_value.simps]] by auto
next
  case T_Incident_Status
  then show ?thesis
    using checked_text_listed [OF assms [unfolded T_Incident_Status validate_detail_value.simps]] by auto
next
  case T_Severity
  then show ?thesis
    using checked_text_listed [OF assms [unfolded T_Severity validate_detail_value.simps]] by auto
qed (use assms in \<open>auto simp: checked_text_Inr max_database_integer_def invalid_detail_def
      split: json.splits if_splits\<close>)

lemma validated_details:
  assumes "validate_audit_action action actor auth target details = Inr checked"
    "map_of audit_registry action = Some spec"
  shows "map fst checked = map fst (sp_detail_fields spec)"
    "\<forall>(f, t) \<in> set (sp_detail_fields spec). \<exists>dv. map_of checked f = Some dv \<and> detail_conforms t dv"
    "\<forall>f \<in> set (map fst checked). casefold f \<notin> set forbidden_fields"
proof -
  from assms have v: "validate_fields details (sp_detail_fields spec) = Inr checked"
    by (simp add: validate_audit_action_eq_Inr)
  from registry_entry_formats [OF assms(2)] have "distinct (map fst (sp_detail_fields spec))"
    and nf: "\<forall>f \<in> set (map fst (sp_detail_fields spec)). casefold f \<notin> set forbidden_fields"
    by (auto simp: audit_entry_formats_def list_all_iff)
  from validate_fields_values [OF v this(1)]
  show "\<forall>(f, t) \<in> set (sp_detail_fields spec). \<exists>dv. map_of checked f = Some dv \<and> detail_conforms t dv"
    by (fastforce dest: validate_detail_value_conforms)
  show "map fst checked = map fst (sp_detail_fields spec)" using v by (rule validate_fields_keys)
  with nf show "\<forall>f \<in> set (map fst checked). casefold f \<notin> set forbidden_fields" by simp
qed

text \<open>C22: Every record an operator action writes conforms to the registry: the action is registered
  for operators and for the method the operator authenticated with, target type and the exact list of
  detail fields are those of its entry, every detail has its declared type, no field has a forbidden
  name, a history reference is present exactly where the entry requires one and then equals the
  detail, and the row satisfies the table's constraints. Nothing but the log changes.\<close>

theorem operator_audit_record_conforms:
  assumes "record_operator_action d now actor action target target_id request_id hist details = Inr (d', e)"
  shows "\<exists>spec. map_of audit_registry action = Some spec \<and> sp_actor_type spec = Actor_Operator
    \<and> op_auth_type actor \<in> set (sp_auth_methods spec) \<and> target = sp_target_type spec
    \<and> map fst (au_details e) = map fst (sp_detail_fields spec)
    \<and> (\<forall>(f, t) \<in> set (sp_detail_fields spec). \<exists>dv. map_of (au_details e) f = Some dv \<and> detail_conforms t dv)
    \<and> (\<forall>f \<in> set (map fst (au_details e)). casefold f \<notin> set forbidden_fields)
    \<and> (case sp_history_policy spec of
         Forbidden \<Rightarrow> hist = None
       | Required \<Rightarrow> \<exists>h. hist = Some h \<and> map_of (au_details e) ''history_id'' = Some (DStr (uuid_str h)))
    \<and> audit_check e \<and> d' = d\<lparr>audit_log := audit_log d @ [e], next_uuid := Suc (next_uuid d)\<rparr>"
proof -
  note r = record_operator_action_Inr [OF assms]
  from r(8) obtain spec where spec: "map_of audit_registry action = Some spec"
    "sp_actor_type spec = Actor_Operator" "op_auth_type actor \<in> set (sp_auth_methods spec)"
    "target = sp_target_type spec"
    by (auto simp: validate_audit_action_eq_Inr)
  from assms spec(1) r(8) have "history_reference_ok spec hist (au_details e) = Inr ()"
    by (auto simp: record_operator_action_def bind_r_eq_Inr uuid4_def Let_def)
  then have "case sp_history_policy spec of Forbidden \<Rightarrow> hist = None
      | Required \<Rightarrow> \<exists>h. hist = Some h \<and> map_of (au_details e) ''history_id'' = Some (DStr (uuid_str h))"
    by (auto simp: history_reference_ok_def split: history_policy.splits option.splits)
  with spec validated_details [OF r(8) spec(1)] r(1,2) show ?thesis
    by (intro exI [of _ spec]) (simp add: logged_def)
qed

definition audit_sample_actor :: principal where
  "audit_sample_actor = \<lparr>op_operator_id = 4, op_username = ''anna'', op_role = Analyst,
     op_auth_type = Web_Session, op_auth_id = 5\<rparr>"

theorem operator_audit_record_conforms_witness:
  "\<exists>d' e. record_operator_action db_empty 0 audit_sample_actor ''incident.comment_added''
      ''incident_comment'' 9 ''r'' None [(''incident_id'', JStr (uuid_str 7))] = Inr (d', e)
    \<and> audit_check e \<and> audit_log d' = [e]"
proof -
  have "\<exists>d' e. record_operator_action db_empty 0 audit_sample_actor ''incident.comment_added''
      ''incident_comment'' 9 ''r'' None [(''incident_id'', JStr (uuid_str 7))] = Inr (d', e)"
    by (simp add: record_operator_action_def validate_audit_action_def registry_comment_added
        obj_get_def checked_text_def history_reference_ok_def forbidden_fields_def casefold_def
        is_upper_def uuid4_def Let_def)
  then obtain d' e where r: "record_operator_action db_empty 0 audit_sample_actor ''incident.comment_added''
      ''incident_comment'' 9 ''r'' None [(''incident_id'', JStr (uuid_str 7))] = Inr (d', e)" by blast
  from operator_audit_record_conforms [OF r] r show ?thesis by (auto simp: db_empty_def)
qed

end
