(* ===== verification/Idempotency.thy ===== *)
theory Idempotency
  imports Database
begin

text \<open>
  \<open>application/operator_idempotency.py\<close>: the advisory-lock key of one operator and client key,
  the lookup of a completed outcome, and its insertion, which PostgreSQL refuses when the row
  breaks a CHECK constraint or the unique constraint on operator and key. SHA-256 is a parameter.
  The interface the idempotent operations implement, and what a client may rely on when it
  retries, is the locale \<open>idempotent_operation\<close>.
\<close>

section \<open>The lock key\<close>

definition lock_material :: "uuid \<Rightarrow> string \<Rightarrow> string" where
  "lock_material operator_id key = uuid_str operator_id @ '':'' @ key"

text \<open>\<open>int.from_bytes(digest[:8], "big", signed=True)\<close>.\<close>

definition signed_be :: "nat list \<Rightarrow> int" where
  "signed_be bs = (let n = foldl (\<lambda>n b. n * 256 + int b) 0 (take 8 bs) in
     if n \<ge> 2 ^ 63 then n - 2 ^ 64 else n)"

definition operator_lock_key :: "(string \<Rightarrow> nat list) \<Rightarrow> uuid \<Rightarrow> string \<Rightarrow> int" where
  "operator_lock_key sha256 operator_id key = signed_be (sha256 (lock_material operator_id key))"

lemma foldl_bytes_bound:
  "\<forall>b \<in> set bs. b < 256 \<Longrightarrow> 0 \<le> a \<Longrightarrow>
    0 \<le> foldl (\<lambda>n b. n * 256 + int b) a bs
      \<and> foldl (\<lambda>n b. n * 256 + int b) a bs < (a + 1) * 256 ^ length bs"
proof (induction bs arbitrary: a)
  case Nil
  then show ?case by simp
next
  case (Cons b bs)
  have "0 \<le> a * 256 + int b" using Cons.prems by simp
  with Cons have ih: "0 \<le> foldl (\<lambda>n b. n * 256 + int b) (a * 256 + int b) bs"
      "foldl (\<lambda>n b. n * 256 + int b) (a * 256 + int b) bs < (a * 256 + int b + 1) * 256 ^ length bs"
    by simp_all
  have "a * 256 + int b + 1 \<le> (a + 1) * 256" using Cons.prems by simp
  then have "(a * 256 + int b + 1) * 256 ^ length bs \<le> (a + 1) * 256 * 256 ^ length bs"
    by (rule mult_right_mono) simp
  also have "\<dots> = (a + 1) * 256 ^ length (b # bs)" by simp
  finally have "(a * 256 + int b + 1) * 256 ^ length bs \<le> (a + 1) * 256 ^ length (b # bs)" .
  from ih(1) less_le_trans [OF ih(2) this] show ?case
    unfolding foldl_Cons by (rule conjI)
qed

lemma signed_be_range:
  assumes "\<forall>b \<in> set bs. b < 256" "8 \<le> length bs"
  shows "- (2 ^ 63) \<le> signed_be bs \<and> signed_be bs < 2 ^ 63"
proof -
  have "\<forall>b \<in> set (take 8 bs). b < 256" using assms by (auto dest: in_set_takeD)
  from foldl_bytes_bound [OF this, of 0]
  have "0 \<le> foldl (\<lambda>n b. n * 256 + int b) 0 (take 8 bs)"
    "foldl (\<lambda>n b. n * 256 + int b) 0 (take 8 bs) < 2 ^ 64"
    using assms by (simp_all add: min_absorb2)
  then show ?thesis by (simp add: signed_be_def Let_def)
qed

lemma length_uuid_str [simp]: "length (uuid_str u) = 36"
  using uuid_str_canonical [of u] by (simp add: canonical_uuid_text_def)

lemma lock_material_inj:
  "lock_material o1 k1 = lock_material o2 k2 \<longleftrightarrow> uuid_str o1 = uuid_str o2 \<and> k1 = k2"
  by (auto simp: lock_material_def)

section \<open>Records\<close>

definition load_operator_idempotency_record :: "db \<Rightarrow> uuid \<Rightarrow> string \<Rightarrow> idem_row option" where
  "load_operator_idempotency_record d operator_id key =
     find_row (\<lambda>r. (id_operator_id r, id_key r)) (operator_id, key) (idempotency d)"

definition idem_entry ::
  "uuid \<Rightarrow> time \<Rightarrow> uuid \<Rightarrow> string \<Rightarrow> string \<Rightarrow> uuid \<Rightarrow> string \<Rightarrow> nat \<Rightarrow> (string \<times> json) list \<Rightarrow> idem_row" where
  "idem_entry rid now operator_id key operation resource_id request_hash response_status response_body =
     \<lparr>id_id = rid, id_operator_id = operator_id, id_key = key, id_operation = operation,
       id_resource_id = resource_id, id_request_hash = request_hash,
       id_response_status = response_status, id_response_body = response_body,
       id_created_at = now\<rparr>"

definition store_operator_idempotency_record ::
  "db \<Rightarrow> time \<Rightarrow> uuid \<Rightarrow> string \<Rightarrow> string \<Rightarrow> uuid \<Rightarrow> string \<Rightarrow> nat \<Rightarrow> (string \<times> json) list
    \<Rightarrow> (db \<times> idem_row) result" where
  "store_operator_idempotency_record d now operator_id key operation resource_id request_hash
       response_status response_body =
     (let (rid, d1) = uuid4 d;
          row = idem_entry rid now operator_id key operation resource_id request_hash
            response_status response_body
      in if \<not> idem_check row then Inl (IntegrityError ''operator_idempotency_records check'')
         else if load_operator_idempotency_record d operator_id key \<noteq> None
           then Inl (IntegrityError ''uq_operator_idempotency_records_operator_key'')
         else Inr (d1\<lparr>idempotency := idempotency d1 @ [row]\<rparr>, row))"

lemma idem_entry_simps [simp]:
  "id_operator_id (idem_entry rid now oid key operation res h st body) = oid"
  "id_key (idem_entry rid now oid key operation res h st body) = key"
  "id_operation (idem_entry rid now oid key operation res h st body) = operation"
  "id_request_hash (idem_entry rid now oid key operation res h st body) = h"
  "id_response_status (idem_entry rid now oid key operation res h st body) = st"
  "id_response_body (idem_entry rid now oid key operation res h st body) = body"
  by (simp_all add: idem_entry_def)

definition with_record :: "db \<Rightarrow> idem_row \<Rightarrow> db" where
  "with_record d r = d\<lparr>idempotency := idempotency d @ [r], next_uuid := Suc (next_uuid d)\<rparr>"

lemma with_record_simps [simp]:
  "idempotency (with_record d r) = idempotency d @ [r]"
  "next_uuid (with_record d r) = Suc (next_uuid d)"
  "events (with_record d r) = events d" "rule_versions (with_record d r) = rule_versions d"
  "incidents (with_record d r) = incidents d" "incident_events (with_record d r) = incident_events d"
  "history (with_record d r) = history d" "comments (with_record d r) = comments d"
  "audit_log (with_record d r) = audit_log d" "destinations (with_record d r) = destinations d"
  "outbox (with_record d r) = outbox d"
  by (simp_all add: with_record_def)

lemma store_Inr:
  "store_operator_idempotency_record d now oid key operation res h st body = Inr (d', r) \<longleftrightarrow>
    d' = with_record d r \<and> idem_check r \<and> load_operator_idempotency_record d oid key = None
    \<and> r = idem_entry (next_uuid d) now oid key operation res h st body"
  by (auto simp: store_operator_idempotency_record_def uuid4_def Let_def with_record_def split: if_splits)

lemma store_defined:
  "idempotency_key_ok key \<Longrightarrow> is_sha256_hex h \<Longrightarrow> st \<in> {200, 404, 409} \<Longrightarrow>
    load_operator_idempotency_record d oid key = None \<Longrightarrow>
    store_operator_idempotency_record d now oid key operation res h st body =
      (let r = idem_entry (next_uuid d) now oid key operation res h st body in Inr (with_record d r, r))"
  by (simp add: store_operator_idempotency_record_def uuid4_def Let_def idem_check_def with_record_def)

lemma load_with_record:
  "load_operator_idempotency_record (with_record d r) oid key =
    (case load_operator_idempotency_record d oid key of
       Some s \<Rightarrow> Some s
     | None \<Rightarrow> if (id_operator_id r, id_key r) = (oid, key) then Some r else None)"
  by (auto simp: load_operator_idempotency_record_def find_row_append split: option.splits)

lemma load_cong [simp]:
  "load_operator_idempotency_record (d\<lparr>incidents := x\<rparr>) oid key = load_operator_idempotency_record d oid key"
  "load_operator_idempotency_record (d\<lparr>history := y\<rparr>) oid key = load_operator_idempotency_record d oid key"
  "load_operator_idempotency_record (d\<lparr>comments := z\<rparr>) oid key = load_operator_idempotency_record d oid key"
  "load_operator_idempotency_record (d\<lparr>next_uuid := n\<rparr>) oid key = load_operator_idempotency_record d oid key"
  "load_operator_idempotency_record (d\<lparr>audit_log := a\<rparr>) oid key = load_operator_idempotency_record d oid key"
  by (simp_all add: load_operator_idempotency_record_def)

lemma load_same_table:
  "idempotency d = idempotency d' \<Longrightarrow>
    load_operator_idempotency_record d oid key = load_operator_idempotency_record d' oid key"
  by (simp add: load_operator_idempotency_record_def)

lemma idem_unique_with_record:
  assumes "idem_unique (idempotency d)"
    and "load_operator_idempotency_record d (id_operator_id r) (id_key r) = None"
  shows "idem_unique (idempotency (with_record d r))"
  using assms by (auto simp: idem_unique_def load_operator_idempotency_record_def find_row_None_iff)

definition idem_inv :: "db \<Rightarrow> bool" where
  "idem_inv d \<longleftrightarrow> idem_unique (idempotency d) \<and> (\<forall>r \<in> set (idempotency d). idem_check r)"

lemma idem_inv_with_record:
  "idem_inv d \<Longrightarrow> idem_check r \<Longrightarrow>
    load_operator_idempotency_record d (id_operator_id r) (id_key r) = None \<Longrightarrow>
    idem_inv (with_record d r)"
  using idem_unique_with_record [of d r] by (auto simp: idem_inv_def)

lemma idem_inv_cong: "idempotency d' = idempotency d \<Longrightarrow> idem_inv d' = idem_inv d"
  by (simp add: idem_inv_def)

section \<open>Outcomes and the interface of an idempotent operation\<close>

record outcome =
  oc_http_status :: nat
  oc_body :: "(string \<times> json) list"
  oc_replayed :: bool
  oc_conflict :: "string option"

definition stored_conflict_type :: "(string \<times> json) list \<Rightarrow> string option" where
  "stored_conflict_type body =
     (case obj_get body ''conflict_type'' of Some (JStr s) \<Rightarrow> Some s | _ \<Rightarrow> None)"

definition replay_outcome :: "idem_row \<Rightarrow> outcome" where
  "replay_outcome r = \<lparr>oc_http_status = id_response_status r, oc_body = id_response_body r,
     oc_replayed = True, oc_conflict = stored_conflict_type (id_response_body r)\<rparr>"

definition key_reused_outcome :: outcome where
  "key_reused_outcome = \<lparr>oc_http_status = 409,
     oc_body = [(''detail'', JStr ''Idempotency-Key was already used for another request'')],
     oc_replayed = False, oc_conflict = Some ''idempotency_key_reused''\<rparr>"

text \<open>
  An operation run under a key \<open>'k\<close> for a request \<open>'r\<close>: the first run under a fresh key records
  its outcome under it; a run under a recorded key changes nothing and answers from the record,
  replaying it when the request matches and refusing it otherwise; other keys are not touched.
\<close>

locale idempotent_operation =
  fixes run :: "'s \<Rightarrow> 'k \<Rightarrow> 'r \<Rightarrow> ('s \<times> outcome) result"
    and lookup :: "'s \<Rightarrow> 'k \<Rightarrow> idem_row option"
    and matches :: "idem_row \<Rightarrow> 'r \<Rightarrow> bool"
  assumes first_run: "lookup s k = None \<Longrightarrow> run s k r = Inr (s', oc) \<Longrightarrow>
      \<exists>row. lookup s' k = Some row \<and> matches row r \<and> id_response_status row = oc_http_status oc
        \<and> id_response_body row = oc_body oc \<and> \<not> oc_replayed oc"
    and replay: "lookup s k = Some row \<Longrightarrow> matches row r \<Longrightarrow> run s k r = Inr (s, replay_outcome row)"
    and reuse: "lookup s k = Some row \<Longrightarrow> \<not> matches row r \<Longrightarrow> run s k r = Inr (s, key_reused_outcome)"
    and other_keys: "k' \<noteq> k \<Longrightarrow> run s k r = Inr (s', oc) \<Longrightarrow> lookup s' k' = lookup s k'"
begin

text \<open>A run of several requests; one that raises leaves the state as it was.\<close>

definition next_state :: "'s \<Rightarrow> 'k \<times> 'r \<Rightarrow> 's" where
  "next_state s kr = (case run s (fst kr) (snd kr) of Inl e \<Rightarrow> s | Inr (s', oc) \<Rightarrow> s')"

lemma recorded_next: "lookup s k = Some row \<Longrightarrow> lookup (next_state s (k', r)) k = Some row"
proof -
  assume rec: "lookup s k = Some row"
  show ?thesis
  proof (cases "k' = k")
    case True
    with rec show ?thesis
      by (cases "matches row r") (auto simp: next_state_def replay reuse)
  next
    case False
    with rec show ?thesis
      by (auto simp: next_state_def split: sum.splits dest: other_keys [rotated])
  qed
qed

lemma recorded_forever: "lookup s k = Some row \<Longrightarrow> lookup (foldl next_state s krs) k = Some row"
proof (induction krs arbitrary: s)
  case Nil
  then show ?case by simp
next
  case (Cons kr krs)
  then show ?case by (cases kr) (simp add: recorded_next)
qed

lemma retry_after_anything:
  assumes "run s k r = Inr (s', oc)" "lookup s k = None" "\<And>row. matches row r' = matches row r"
  shows "\<exists>oc'. run (foldl next_state s' krs) k r' = Inr (foldl next_state s' krs, oc')
    \<and> oc_http_status oc' = oc_http_status oc \<and> oc_body oc' = oc_body oc \<and> oc_replayed oc'"
proof -
  from first_run [OF assms(2,1)] obtain row where
    row: "lookup s' k = Some row" "matches row r" "id_response_status row = oc_http_status oc"
      "id_response_body row = oc_body oc" by blast
  from row(1) have "lookup (foldl next_state s' krs) k = Some row" by (rule recorded_forever)
  moreover from assms(3) row(2) have "matches row r'" by blast
  ultimately have "run (foldl next_state s' krs) k r' = Inr (foldl next_state s' krs, replay_outcome row)"
    by (rule replay)
  with row(3,4) show ?thesis by (simp add: replay_outcome_def)
qed

lemma different_request_refused:
  assumes "lookup s k = Some row" "\<not> matches row r"
  shows "run s k r = Inr (s, key_reused_outcome)"
  using assms by (rule reuse)

end

end
