(* ===== verification/Unicode_Text.thy ===== *)
theory Unicode_Text
  imports Json
begin

text \<open>
  User-written text as lists of code points. The Unicode character database
  (\<open>unicodedata.category\<close>, NFC normalisation) is data outside the repository: a record of two
  functions, an argument of every definition that consults it. Encoding to UTF-8, stripping and
  line-ending replacement are concrete.
\<close>

record unicode =
  ucategory :: "codepoint \<Rightarrow> string"
  nfc :: "ustring \<Rightarrow> ustring"

text \<open>The categories every text validator of the control plane rejects.\<close>

definition prohibited_categories :: "string list" where
  "prohibited_categories = [''Cc'', ''Cf'', ''Cs'', ''Zl'', ''Zp'']"

definition prohibited :: "unicode \<Rightarrow> codepoint \<Rightarrow> bool" where
  "prohibited u c \<longleftrightarrow> ucategory u c \<in> set prohibited_categories"

definition strip_of :: "(codepoint \<Rightarrow> bool) \<Rightarrow> ustring \<Rightarrow> ustring" where
  "strip_of P s = rev (dropWhile P (rev (dropWhile P s)))"

text \<open>\<open>text.replace("\\r\\n", "\\n").replace("\\r", "\\n")\<close>.\<close>

fun canonical_lines :: "ustring \<Rightarrow> ustring" where
  "canonical_lines [] = []"
| "canonical_lines [c] = [if c = 13 then 10 else c]"
| "canonical_lines (c # d # cs) =
     (if c = 13 \<and> d = 10 then 10 # canonical_lines cs
      else (if c = 13 then 10 else c) # canonical_lines (d # cs))"

text \<open>Code points Python's \<open>str.strip()\<close> removes.\<close>

definition is_space :: "codepoint \<Rightarrow> bool" where
  "is_space c \<longleftrightarrow> c \<in> {9..13} \<union> {28..32} \<union> {133, 160, 5760, 8232, 8233, 8239, 8287, 12288}
     \<or> (8192 \<le> c \<and> c \<le> 8202)"

definition utf8_char :: "codepoint \<Rightarrow> nat list" where
  "utf8_char c =
     (if c < 128 then [c]
      else if c < 2048 then [192 + c div 64, 128 + c mod 64]
      else if c < 65536 then [224 + c div 4096, 128 + c div 64 mod 64, 128 + c mod 64]
      else [240 + c div 262144, 128 + c div 4096 mod 64, 128 + c div 64 mod 64, 128 + c mod 64])"

definition utf8 :: "ustring \<Rightarrow> string" where
  "utf8 s = map char_of (concat (map utf8_char s))"

definition ascii :: "string \<Rightarrow> ustring" where
  "ascii s = map of_char s"

lemma set_strip_of: "set (strip_of P s) \<subseteq> set s"
  by (auto simp: strip_of_def dest!: set_dropWhileD)

lemma dropWhile_head: "dropWhile P xs = y # ys \<Longrightarrow> \<not> P y"
  by (induction xs) (auto split: if_splits)

lemma strip_of_last: "strip_of P s \<noteq> [] \<Longrightarrow> \<not> P (last (strip_of P s))"
  unfolding strip_of_def last_rev
  by (metis dropWhile_head list.exhaust_sel rev_is_Nil_conv last_rev)

lemma strip_of_hd: "strip_of P s \<noteq> [] \<Longrightarrow> \<not> P (hd (strip_of P s))"
proof -
  assume ne: "strip_of P s \<noteq> []"
  obtain xs where t: "rev (dropWhile P s) = takeWhile P (rev (dropWhile P s)) @ xs"
    "xs = dropWhile P (rev (dropWhile P s))"
    by simp
  then have "dropWhile P s = strip_of P s @ rev (takeWhile P (rev (dropWhile P s)))"
    by (metis rev_append rev_rev_ident strip_of_def)
  with ne have "hd (dropWhile P s) = hd (strip_of P s)" "dropWhile P s \<noteq> []"
    using append_is_Nil_conv by (metis hd_append2, metis)
  with hd_dropWhile [of P s] show ?thesis by simp
qed

lemma no_cr_canonical_lines: "13 \<notin> set (canonical_lines s)"
  by (induction s rule: canonical_lines.induct) auto

end
