(* ===== verification/Incident_Workflow.thy ===== *)
theory Incident_Workflow
  imports Audit_Log Idempotency Unicode_Text
begin

text \<open>
  \<open>application/incident_workflow.py\<close>: normalisation of a transition request, the finite-state
  machine of incident statuses, the canonical request hash, and \<open>transition_incident\<close>, which
  evaluates one request inside a caller-owned transaction. \<open>sha256_hex\<close> (the digest as text)
  and the Unicode database are parameters.
\<close>

section \<open>Request normalisation\<close>

record transition =
  tr_target :: incident_status
  tr_expected_version :: int
  tr_reason :: "ustring option"

definition reject_reason_characters :: "unicode \<Rightarrow> ustring \<Rightarrow> unit result" where
  "reject_reason_characters u s = guard_r (\<not> list_ex (prohibited u) s)
     (TransitionValidationError ''reason contains a prohibited Unicode character'')"

definition normalize_reason :: "unicode \<Rightarrow> ustring option \<Rightarrow> ustring option result" where
  "normalize_reason u reason = (case reason of
     None \<Rightarrow> Inr None
   | Some raw \<Rightarrow>
       bind_r (reject_reason_characters u raw) (\<lambda>_.
       let normalized = nfc u (strip_of (\<lambda>c. c = 32) raw) in
       bind_r (reject_reason_characters u normalized) (\<lambda>_.
       bind_r (guard_r (1 \<le> length normalized \<and> length normalized \<le> 1000)
         (TransitionValidationError ''reason must contain 1 to 1000 characters'')) (\<lambda>_.
       Inr (Some normalized)))))"

definition normalize_transition ::
  "unicode \<Rightarrow> incident_status \<Rightarrow> int \<Rightarrow> ustring option \<Rightarrow> transition result" where
  "normalize_transition u target expected_version reason =
     bind_r (guard_r (\<not> (expected_version < 1 \<or> expected_version > 2147483647))
       (TransitionValidationError ''expected_version is outside the allowed range'')) (\<lambda>_.
     bind_r (normalize_reason u reason) (\<lambda>normalized.
     bind_r (guard_r (\<not> (is_terminal target \<and> normalized = None))
       (TransitionValidationError ''reason is required for a terminal status'')) (\<lambda>_.
     Inr \<lparr>tr_target = target, tr_expected_version = expected_version, tr_reason = normalized\<rparr>)))"

definition validate_idempotency_key :: "string \<Rightarrow> string result" where
  "validate_idempotency_key s =
     bind_r (guard_r (idempotency_key_ok s) (TransitionValidationError ''invalid Idempotency-Key''))
       (\<lambda>_. Inr s)"

section \<open>The state machine\<close>

fun allowed_transitions :: "incident_status \<Rightarrow> incident_status list" where
  "allowed_transitions New = [Investigating, Resolved, False_Positive]"
| "allowed_transitions Investigating = [Resolved, False_Positive]"
| "allowed_transitions Resolved = []"
| "allowed_transitions False_Positive = []"

definition is_transition_allowed :: "incident_status \<Rightarrow> incident_status \<Rightarrow> bool" where
  "is_transition_allowed current target \<longleftrightarrow> target \<in> set (allowed_transitions current)"

definition allowed_transition_targets :: "incident_status \<Rightarrow> incident_status list" where
  "allowed_transition_targets current =
     filter (\<lambda>s. s \<in> set (allowed_transitions current)) all_statuses"

section \<open>The canonical request\<close>

definition idempotency_operation :: string where
  "idempotency_operation = ''incident.status.transition.v1''"

definition transition_json :: "uuid \<Rightarrow> transition \<Rightarrow> json" where
  "transition_json incident_id t = JObj
     [(''expected_version'', JInt (tr_expected_version t)),
      (''incident_id'', JStr (uuid_str incident_id)),
      (''operation'', JStr idempotency_operation),
      (''reason'', (case tr_reason t of None \<Rightarrow> JNull | Some r \<Rightarrow> JStr (utf8 r))),
      (''status'', JStr (status_value (tr_target t)))]"

definition canonical_transition_hash :: "(string \<Rightarrow> string) \<Rightarrow> uuid \<Rightarrow> transition \<Rightarrow> string" where
  "canonical_transition_hash sha256_hex incident_id t = sha256_hex (dumps (transition_json incident_id t))"

section \<open>Snapshots\<close>

definition incident_snapshot :: "incident_row \<Rightarrow> json" where
  "incident_snapshot i = JObj
     [(''created_at'', JStr (isoformat (inc_created_at i))),
      (''event_count'', JInt (int (inc_event_count i))),
      (''first_seen_at'', JStr (isoformat (inc_first_seen_at i))),
      (''id'', JStr (uuid_str (inc_id i))),
      (''last_seen_at'', JStr (isoformat (inc_last_seen_at i))),
      (''rule_key'', JStr (inc_rule_key i)),
      (''rule_version'', JInt (inc_rule_version i)),
      (''server_id'', JStr (uuid_str (inc_server_id i))),
      (''severity'', JStr (severity_value (inc_severity i))),
      (''status'', JStr (status_value (inc_status i))),
      (''title'', JStr (utf8 (inc_title i))),
      (''updated_at'', JStr (isoformat (inc_updated_at i))),
      (''version'', JInt (inc_lock_version i))]"

definition opt_json :: "('a \<Rightarrow> json) \<Rightarrow> 'a option \<Rightarrow> json" where
  "opt_json f x = (case x of None \<Rightarrow> JNull | Some v \<Rightarrow> f v)"

text \<open>\<open>str(None)\<close> is the text \<open>None\<close>; the operator of a transition entry is never \<open>None\<close>.\<close>

definition history_snapshot :: "history_row \<Rightarrow> json" where
  "history_snapshot h = JObj
     [(''created_at'', JStr (isoformat (hs_created_at h))),
      (''from_status'', opt_json (JStr \<circ> status_value) (hs_from_status h)),
      (''id'', JStr (uuid_str (hs_id h))),
      (''operator_id'', JStr (case hs_changed_by h of None \<Rightarrow> ''None'' | Some o1 \<Rightarrow> uuid_str o1)),
      (''operator_username'', opt_json JStr (hs_actor_username h)),
      (''reason'', opt_json (JStr \<circ> utf8) (hs_reason h)),
      (''to_status'', JStr (status_value (hs_to_status h))),
      (''version'', JInt (hs_version h))]"

section \<open>The transition\<close>

text \<open>\<open>session.add(history); session.flush()\<close>: refused when a constraint of the table fails.\<close>

definition insert_history :: "db \<Rightarrow> history_row \<Rightarrow> db result" where
  "insert_history d h =
     (if \<not> history_check h then Inl (IntegrityError ''incident_history check'')
      else if \<exists>g \<in> set (history d). hs_incident_id g = hs_incident_id h \<and> hs_version g = hs_version h
        then Inl (IntegrityError ''uq_incident_history_incident_version'')
      else Inr (d\<lparr>history := history d @ [h]\<rparr>))"

definition store_outcome ::
  "db \<Rightarrow> time \<Rightarrow> principal \<Rightarrow> string \<Rightarrow> uuid \<Rightarrow> string \<Rightarrow> string \<Rightarrow> nat \<Rightarrow> (string \<times> json) list
    \<Rightarrow> string option \<Rightarrow> (db \<times> outcome) result" where
  "store_outcome d now actor operation incident_id key request_hash http_status body conflict =
     bind_r (store_operator_idempotency_record d now (op_operator_id actor) key operation
         incident_id request_hash http_status body) (\<lambda>(d', _).
       Inr (d', \<lparr>oc_http_status = http_status, oc_body = body, oc_replayed = False,
         oc_conflict = conflict\<rparr>))"

definition not_found_body :: "(string \<times> json) list" where
  "not_found_body = [(''detail'', JStr ''incident not found''), (''conflict_type'', JStr ''not_found'')]"

definition stale_body :: "int \<Rightarrow> (string \<times> json) list" where
  "stale_body v = [(''detail'', JStr ''incident version conflict''),
     (''conflict_type'', JStr ''stale_version''), (''current_version'', JInt v)]"

definition not_allowed_body :: "(string \<times> json) list" where
  "not_allowed_body = [(''detail'', JStr ''incident status transition is not allowed''),
     (''conflict_type'', JStr ''transition_not_allowed'')]"

definition transition_details ::
  "incident_status \<Rightarrow> incident_status \<Rightarrow> int \<Rightarrow> uuid \<Rightarrow> (string \<times> json) list" where
  "transition_details from_status to_status next_version history_id =
     [(''from_status'', JStr (status_value from_status)),
      (''from_version'', JInt (next_version - 1)),
      (''history_id'', JStr (uuid_str history_id)),
      (''to_status'', JStr (status_value to_status)),
      (''to_version'', JInt next_version)]"

text \<open>The history entry and the updated incident row of the applied branch.\<close>

definition transition_entry ::
  "uuid \<Rightarrow> time \<Rightarrow> principal \<Rightarrow> incident_row \<Rightarrow> transition \<Rightarrow> string \<Rightarrow> history_row" where
  "transition_entry hid now actor i t request_id = \<lparr>hs_id = hid, hs_incident_id = inc_id i,
     hs_version = inc_lock_version i + 1, hs_entry_type = Status_Transition,
     hs_from_status = Some (inc_status i), hs_to_status = tr_target t, hs_reason = tr_reason t,
     hs_changed_by = Some (op_operator_id actor), hs_actor_username = Some (op_username actor),
     hs_auth_type = Some (op_auth_type actor), hs_auth_id = Some (op_auth_id actor),
     hs_request_id = Some request_id, hs_created_at = now\<rparr>"

definition transitioned :: "time \<Rightarrow> incident_row \<Rightarrow> transition \<Rightarrow> incident_row" where
  "transitioned now i t = i\<lparr>inc_status := tr_target t, inc_lock_version := inc_lock_version i + 1,
     inc_updated_at := now\<rparr>"

text \<open>The applied branch: the incident row, its history entry, the audit record, the outcome.\<close>

definition apply_transition ::
  "db \<Rightarrow> time \<Rightarrow> principal \<Rightarrow> incident_row \<Rightarrow> transition \<Rightarrow> string \<Rightarrow> string \<Rightarrow> string
    \<Rightarrow> (db \<times> outcome) result" where
  "apply_transition d now actor i t key request_hash request_id =
     (let i' = transitioned now i t;
          (hid, d1) = uuid4 (d\<lparr>incidents := update_where (\<lambda>r. inc_id r = inc_id i) (\<lambda>_. i') (incidents d)\<rparr>);
          h = transition_entry hid now actor i t request_id
      in bind_r (insert_history d1 h) (\<lambda>d2.
         bind_r (record_operator_action d2 now actor ''incident.status_changed'' ''incident'' (inc_id i)
             request_id (Some hid)
             (transition_details (inc_status i) (tr_target t) (inc_lock_version i + 1) hid)) (\<lambda>(d3, _).
         store_outcome d3 now actor idempotency_operation (inc_id i) key request_hash 200
           [(''incident'', incident_snapshot i'), (''transition'', history_snapshot h)] None)))"

definition transition_incident ::
  "db \<Rightarrow> time \<Rightarrow> principal \<Rightarrow> uuid \<Rightarrow> transition \<Rightarrow> string \<Rightarrow> string \<Rightarrow> string
    \<Rightarrow> (db \<times> outcome) result" where
  "transition_incident d now actor incident_id t key request_hash request_id =
     (case load_operator_idempotency_record d (op_operator_id actor) key of
        Some existing \<Rightarrow>
          (if id_request_hash existing = request_hash then Inr (d, replay_outcome existing)
           else Inr (d, key_reused_outcome))
      | None \<Rightarrow>
        (case find_row inc_id incident_id (incidents d) of
           None \<Rightarrow> store_outcome d now actor idempotency_operation incident_id key request_hash 404
             not_found_body (Some ''not_found'')
         | Some i \<Rightarrow>
           if inc_lock_version i \<noteq> tr_expected_version t then
             store_outcome d now actor idempotency_operation incident_id key request_hash 409
               (stale_body (inc_lock_version i)) (Some ''stale_version'')
           else if \<not> is_transition_allowed (inc_status i) (tr_target t) then
             store_outcome d now actor idempotency_operation incident_id key request_hash 409
               not_allowed_body (Some ''transition_not_allowed'')
           else apply_transition d now actor i t key request_hash request_id))"

definition baseline_history :: "uuid \<Rightarrow> incident_row \<Rightarrow> history_row" where
  "baseline_history hid i = \<lparr>hs_id = hid, hs_incident_id = inc_id i, hs_version = 1,
     hs_entry_type = Baseline, hs_from_status = None, hs_to_status = inc_status i,
     hs_reason = None, hs_changed_by = None, hs_actor_username = None, hs_auth_type = None,
     hs_auth_id = None, hs_request_id = None, hs_created_at = inc_created_at i\<rparr>"

definition add_baseline_history :: "db \<Rightarrow> incident_row \<Rightarrow> db result" where
  "add_baseline_history d i = (let (hid, d1) = uuid4 d in insert_history d1 (baseline_history hid i))"

section \<open>The history of an incident replays to its row\<close>

text \<open>
  Reading the history entries of one incident in order: the first is its baseline, and each
  later entry leaves the status the previous one reached, by an allowed edge, one version on.
\<close>

fun replay_from :: "incident_status \<Rightarrow> int \<Rightarrow> history_row list \<Rightarrow> (incident_status \<times> int) option" where
  "replay_from s v [] = Some (s, v)"
| "replay_from s v (h # hs) =
     (if hs_entry_type h = Status_Transition \<and> hs_from_status h = Some s \<and> hs_version h = v + 1
         \<and> is_transition_allowed s (hs_to_status h)
      then replay_from (hs_to_status h) (v + 1) hs else None)"

fun replay_history :: "history_row list \<Rightarrow> (incident_status \<times> int) option" where
  "replay_history [] = None"
| "replay_history (b # hs) =
     (if hs_entry_type b = Baseline \<and> hs_version b = 1 then replay_from (hs_to_status b) 1 hs else None)"

definition history_of :: "db \<Rightarrow> uuid \<Rightarrow> history_row list" where
  "history_of d incident_id = filter (\<lambda>h. hs_incident_id h = incident_id) (history d)"

definition history_inv :: "db \<Rightarrow> bool" where
  "history_inv d \<longleftrightarrow> distinct (map inc_id (incidents d))
     \<and> (\<forall>i \<in> set (incidents d).
          replay_history (history_of d (inc_id i)) = Some (inc_status i, inc_lock_version i))
     \<and> (\<forall>h \<in> set (history d). history_check h \<and> hs_id h < next_uuid d
          \<and> hs_incident_id h \<in> inc_id ` set (incidents d))
     \<and> history_unique (history d)"

lemma replay_from_append:
  "replay_from s v (xs @ [h]) = (case replay_from s v xs of
     None \<Rightarrow> None | Some (s', v') \<Rightarrow> replay_from s' v' [h])"
  by (induction s v xs rule: replay_from.induct) auto

lemma replay_history_append:
  "replay_history xs = Some (s, v) \<Longrightarrow> replay_history (xs @ [h]) = replay_from s v [h]"
  by (cases xs) (auto simp del: replay_from.simps simp: replay_from_append split: if_splits)

lemma replay_from_versions:
  "replay_from s v hs = Some (s', v') \<Longrightarrow>
    map hs_version hs = map (\<lambda>k. v + 1 + int k) [0..<length hs] \<and> v' = v + int (length hs)"
proof (induction s v hs rule: replay_from.induct)
  case (1 s v)
  then show ?case by simp
next
  case (2 s v h hs)
  then have "map hs_version hs = map (\<lambda>k. v + 2 + int k) [0..<length hs]" "hs_version h = v + 1"
    "v' = v + 1 + int (length hs)"
    by (auto split: if_splits simp: add.assoc)
  then show ?case by (simp add: upt_conv_Cons map_Suc_upt [symmetric] del: upt_Suc)
qed

text \<open>How far a status is from the start; every allowed edge goes strictly up, and the end is 2.\<close>

fun status_rank :: "incident_status \<Rightarrow> int" where
  "status_rank New = 0"
| "status_rank Investigating = 1"
| "status_rank Resolved = 2"
| "status_rank False_Positive = 2"

lemma allowed_rank: "is_transition_allowed s s' \<Longrightarrow> status_rank s < status_rank s'"
  by (cases s) (auto simp: is_transition_allowed_def)

lemma status_rank_bounds: "0 \<le> status_rank s" "status_rank s \<le> 2"
  by (cases s; simp)+

lemma replay_from_rank: "replay_from s v hs = Some (s', v') \<Longrightarrow> v' - v \<le> status_rank s' - status_rank s \<and> v \<le> v'"
  by (induction s v hs rule: replay_from.induct) (auto split: if_splits dest!: allowed_rank)

lemma replay_history_bounds: "replay_history hs = Some (s, v) \<Longrightarrow> 1 \<le> v \<and> v \<le> 1 + status_rank s"
  by (cases hs) (auto split: if_splits dest!: replay_from_rank intro: order_trans [OF _ add_left_mono]
      simp: algebra_simps, use status_rank_bounds(1) in smt)

lemma history_inv_version:
  "history_inv d \<Longrightarrow> i \<in> set (incidents d) \<Longrightarrow>
    1 \<le> inc_lock_version i \<and> inc_lock_version i \<le> 1 + status_rank (inc_status i)"
  by (rule replay_history_bounds) (auto simp: history_inv_def)

lemma terminal_no_exit: "is_terminal s \<Longrightarrow> \<not> is_transition_allowed s s'"
  by (auto simp: is_terminal_def is_transition_allowed_def)

section \<open>The effect of one request\<close>

lemma insert_history_Inr:
  "insert_history d h = Inr d' \<longleftrightarrow> d' = d\<lparr>history := history d @ [h]\<rparr> \<and> history_check h
    \<and> (hs_incident_id h, hs_version h) \<notin> (\<lambda>g. (hs_incident_id g, hs_version g)) ` set (history d)"
  by (auto simp: insert_history_def image_iff) metis

lemma store_outcome_Inr:
  "store_outcome d now actor operation res key h st body c = Inr (d', oc) \<longleftrightarrow>
    (\<exists>r. r = idem_entry (next_uuid d) now (op_operator_id actor) key operation res h st body
      \<and> d' = with_record d r \<and> idem_check r
      \<and> load_operator_idempotency_record d (op_operator_id actor) key = None
      \<and> oc = \<lparr>oc_http_status = st, oc_body = body, oc_replayed = False, oc_conflict = c\<rparr>)"
  by (auto simp: store_outcome_def bind_r_eq_Inr store_Inr)

text \<open>The database after the applied branch has written the row, the entry and the audit record.\<close>

definition with_transition :: "db \<Rightarrow> incident_row \<Rightarrow> history_row \<Rightarrow> audit_row \<Rightarrow> db" where
  "with_transition d i' h e = d\<lparr>
     incidents := update_where (\<lambda>r. inc_id r = inc_id i') (\<lambda>_. i') (incidents d),
     history := history d @ [h], audit_log := audit_log d @ [e],
     next_uuid := Suc (Suc (next_uuid d))\<rparr>"

lemma with_transition_simps [simp]:
  "incidents (with_transition d i' h e) = update_where (\<lambda>r. inc_id r = inc_id i') (\<lambda>_. i') (incidents d)"
  "history (with_transition d i' h e) = history d @ [h]"
  "audit_log (with_transition d i' h e) = audit_log d @ [e]"
  "next_uuid (with_transition d i' h e) = Suc (Suc (next_uuid d))"
  "idempotency (with_transition d i' h e) = idempotency d"
  "events (with_transition d i' h e) = events d"
  "rule_versions (with_transition d i' h e) = rule_versions d"
  "incident_events (with_transition d i' h e) = incident_events d"
  "comments (with_transition d i' h e) = comments d"
  "destinations (with_transition d i' h e) = destinations d"
  "outbox (with_transition d i' h e) = outbox d"
  by (simp_all add: with_transition_def)

lemma transitioned_simps [simp]:
  "inc_id (transitioned now i t) = inc_id i" "inc_status (transitioned now i t) = tr_target t"
  "inc_lock_version (transitioned now i t) = inc_lock_version i + 1"
  by (simp_all add: transitioned_def)

lemma apply_transition_Inr:
  assumes "apply_transition d now actor i t key request_hash request_id = Inr (d', oc)"
  obtains h e r where "h = transition_entry (next_uuid d) now actor i t request_id" "history_check h"
    "(hs_incident_id h, hs_version h) \<notin> (\<lambda>g. (hs_incident_id g, hs_version g)) ` set (history d)"
    "audit_check e" "au_id e = Suc (next_uuid d)" "au_history_id e = Some (hs_id h)"
    "au_action e = ''incident.status_changed''" "au_target_id e = inc_id i"
    "au_operator_id e = Some (op_operator_id actor)"
    "idem_check r" "id_operator_id r = op_operator_id actor" "id_key r = key"
    "id_request_hash r = request_hash" "id_response_status r = 200" "id_response_body r = oc_body oc"
    "id_operation r = idempotency_operation"
    "load_operator_idempotency_record d (op_operator_id actor) key = None"
    "d' = with_record (with_transition d (transitioned now i t) h e) r"
    "oc = \<lparr>oc_http_status = 200, oc_body = [(''incident'', incident_snapshot (transitioned now i t)),
       (''transition'', history_snapshot h)], oc_replayed = False, oc_conflict = None\<rparr>"
    "au_actor_type e = Actor_Operator" "au_auth_type e = Some (op_auth_type actor)" "au_auth_id e = Some (op_auth_id actor)"
proof -
  define h where "h = transition_entry (next_uuid d) now actor i t request_id"
  define d1 where "d1 = d\<lparr>incidents := update_where (\<lambda>r. inc_id r = inc_id i)
      (\<lambda>_. transitioned now i t) (incidents d), next_uuid := Suc (next_uuid d)\<rparr>"
  from assms obtain d2 d3 e where
    ins: "insert_history d1 h = Inr d2"
    and aud: "record_operator_action d2 now actor ''incident.status_changed'' ''incident'' (inc_id i)
             request_id (Some (next_uuid d))
             (transition_details (inc_status i) (tr_target t) (inc_lock_version i + 1) (next_uuid d)) = Inr (d3, e)"
    and sto: "store_outcome d3 now actor idempotency_operation (inc_id i) key request_hash 200
       [(''incident'', incident_snapshot (transitioned now i t)), (''transition'', history_snapshot h)] None = Inr (d', oc)"
    by (auto simp: apply_transition_def uuid4_def Let_def bind_r_eq_Inr h_def d1_def)
  have d2: "d2 = d1\<lparr>history := history d1 @ [h]\<rparr>" using ins by (simp add: insert_history_Inr)
  have d3: "d3 = with_transition d (transitioned now i t) h e"
    using record_operator_action_Inr(1) [OF aud]
    by (simp add: d2 d1_def with_transition_def logged_def)
  have tables: "history d1 = history d" "next_uuid d1 = Suc (next_uuid d)" "next_uuid d2 = Suc (next_uuid d)" "hs_id h = next_uuid d"
    "hs_incident_id h = inc_id i"
    by (simp_all add: d1_def d2 h_def transition_entry_def)
  note load = load_same_table [of d3 d, unfolded d3, simplified]
  show ?thesis
    using ins sto record_operator_action_Inr(2-12) [OF aud]
    by (intro that [of h e "idem_entry (next_uuid d3) now (op_operator_id actor) key idempotency_operation
        (inc_id i) request_hash 200 (oc_body oc)"])
      (auto simp: h_def [symmetric] insert_history_Inr store_outcome_Inr d3 tables load)
qed

text \<open>The five ways a request that does not raise can end.\<close>

lemma transition_incident_cases:
  assumes "transition_incident d now actor incident_id t key request_hash request_id = Inr (d', oc)"
  obtains (replayed) r where "load_operator_idempotency_record d (op_operator_id actor) key = Some r"
      "d' = d" "id_request_hash r = request_hash" "oc = replay_outcome r"
  | (reused) r where "load_operator_idempotency_record d (op_operator_id actor) key = Some r"
      "d' = d" "id_request_hash r \<noteq> request_hash" "oc = key_reused_outcome"
  | (refused) r where "load_operator_idempotency_record d (op_operator_id actor) key = None"
      "d' = with_record d r" "idem_check r" "id_operator_id r = op_operator_id actor" "id_key r = key"
      "id_request_hash r = request_hash" "id_response_status r = oc_http_status oc"
      "id_response_body r = oc_body oc" "id_operation r = idempotency_operation"
      "\<not> oc_replayed oc"
      "find_row inc_id incident_id (incidents d) = None \<and> oc_http_status oc = 404
       \<or> (\<exists>i. find_row inc_id incident_id (incidents d) = Some i \<and> oc_http_status oc = 409
          \<and> (if inc_lock_version i \<noteq> tr_expected_version t
              then oc_conflict oc = Some ''stale_version''
              else \<not> is_transition_allowed (inc_status i) (tr_target t)
                \<and> oc_conflict oc = Some ''transition_not_allowed''))"
  | (applied) i where "load_operator_idempotency_record d (op_operator_id actor) key = None"
      "find_row inc_id incident_id (incidents d) = Some i"
      "inc_lock_version i = tr_expected_version t" "is_transition_allowed (inc_status i) (tr_target t)"
      "apply_transition d now actor i t key request_hash request_id = Inr (d', oc)"
proof (cases "load_operator_idempotency_record d (op_operator_id actor) key")
  case (Some r)
  with assms replayed reused show ?thesis
    by (auto simp: transition_incident_def split: if_splits)
next
  case None
  show ?thesis
  proof (cases "find_row inc_id incident_id (incidents d)")
    case nf: None
    from assms None nf show ?thesis
      by (intro refused [of "idem_entry (next_uuid d) now (op_operator_id actor) key
          idempotency_operation incident_id request_hash 404 not_found_body"])
        (auto simp: transition_incident_def store_outcome_Inr)
  next
    case (Some i)
    consider (stale) "inc_lock_version i \<noteq> tr_expected_version t"
      | (na) "inc_lock_version i = tr_expected_version t" "\<not> is_transition_allowed (inc_status i) (tr_target t)"
      | (ok) "inc_lock_version i = tr_expected_version t" "is_transition_allowed (inc_status i) (tr_target t)"
      by blast
    then show ?thesis
    proof cases
      case stale
      with assms None Some show ?thesis
        by (intro refused [of "idem_entry (next_uuid d) now (op_operator_id actor) key
            idempotency_operation incident_id request_hash 409 (stale_body (inc_lock_version i))"])
          (auto simp: transition_incident_def store_outcome_Inr)
    next
      case na
      with assms None Some show ?thesis
        by (intro refused [of "idem_entry (next_uuid d) now (op_operator_id actor) key
            idempotency_operation incident_id request_hash 409 not_allowed_body"])
          (auto simp: transition_incident_def store_outcome_Inr)
    next
      case ok
      with assms None Some show ?thesis by (intro applied) (auto simp: transition_incident_def)
    qed
  qed
qed

text \<open>
  The answer to a request under a fresh key, the tables it leaves apart from the outcome it stores, and that
  outcome: what each branch writes, in one place.
\<close>

definition appended_outcome :: "db \<Rightarrow> time \<Rightarrow> principal \<Rightarrow> string \<Rightarrow> uuid \<Rightarrow> string \<Rightarrow> outcome \<Rightarrow> db \<Rightarrow> bool" where
  "appended_outcome d now actor key incident_id h oc d' \<longleftrightarrow>
     (\<exists>rid. idempotency d' = idempotency d @ [idem_entry rid now (op_operator_id actor) key idempotency_operation
        incident_id h (oc_http_status oc) (oc_body oc)])"

definition same_elsewhere :: "db \<Rightarrow> db \<Rightarrow> bool" where
  "same_elsewhere d d' \<longleftrightarrow> events d' = events d \<and> rule_versions d' = rule_versions d
     \<and> incident_events d' = incident_events d \<and> comments d' = comments d
     \<and> destinations d' = destinations d \<and> outbox d' = outbox d"

lemma store_outcome_writes:
  assumes "store_outcome d now actor idempotency_operation incident_id key h st body c = Inr (d', oc)"
  shows "appended_outcome d now actor key incident_id h oc d'" "same_elsewhere d d'"
    "incidents d' = incidents d \<and> history d' = history d \<and> audit_log d' = audit_log d"
    "oc = \<lparr>oc_http_status = st, oc_body = body, oc_replayed = False, oc_conflict = c\<rparr>"
  using assms by (auto simp: store_outcome_Inr appended_outcome_def same_elsewhere_def)

lemma apply_transition_writes:
  assumes "apply_transition d now actor i t key h request_id = Inr (d', oc)"
  shows "appended_outcome d now actor key (inc_id i) h oc d'" "same_elsewhere d d'"
proof -
  from assms obtain d2 d3 e where
    ins: "insert_history (d\<lparr>incidents := update_where (\<lambda>r. inc_id r = inc_id i)
      (\<lambda>_. transitioned now i t) (incidents d), next_uuid := Suc (next_uuid d)\<rparr>)
      (transition_entry (next_uuid d) now actor i t request_id) = Inr d2"
    and aud: "record_operator_action d2 now actor ''incident.status_changed'' ''incident'' (inc_id i)
      request_id (Some (next_uuid d))
      (transition_details (inc_status i) (tr_target t) (inc_lock_version i + 1) (next_uuid d)) = Inr (d3, e)"
    and sto: "store_outcome d3 now actor idempotency_operation (inc_id i) key h 200
      [(''incident'', incident_snapshot (transitioned now i t)),
       (''transition'', history_snapshot (transition_entry (next_uuid d) now actor i t request_id))] None = Inr (d', oc)"
    by (auto simp: apply_transition_def uuid4_def Let_def bind_r_eq_Inr)
  have d2: "idempotency d2 = idempotency d" "same_elsewhere d d2"
    using ins by (simp_all add: insert_history_Inr same_elsewhere_def)
  have "idempotency d3 = idempotency d" "same_elsewhere d d3"
    using record_operator_action_Inr(1) [OF aud] d2 by (simp_all add: same_elsewhere_def)
  with store_outcome_writes(1,2) [OF sto]
  show "appended_outcome d now actor key (inc_id i) h oc d'" "same_elsewhere d d'"
    by (simp_all add: appended_outcome_def same_elsewhere_def)
qed


section \<open>Preservation\<close>

lemma history_inv_cong:
  "history_inv d \<Longrightarrow> incidents d' = incidents d \<Longrightarrow> history d' = history d \<Longrightarrow>
    next_uuid d \<le> next_uuid d' \<Longrightarrow> history_inv d'"
  by (auto simp: history_inv_def history_of_def intro: less_le_trans)

lemma history_of_snoc:
  "history_of (d\<lparr>history := history d @ [h]\<rparr>) k =
    history_of d k @ (if hs_incident_id h = k then [h] else [])"
  by (simp add: history_of_def)

lemma history_of_with_transition:
  "history_of (with_transition d i' h e) k =
    history_of d k @ (if hs_incident_id h = k then [h] else [])"
  by (simp add: history_of_def)

lemma history_inv_with_transition:
  assumes inv: "history_inv d" and i: "i \<in> set (incidents d)"
    and allowed: "is_transition_allowed (inc_status i) (tr_target t)"
    and h: "h = transition_entry (next_uuid d) now actor i t request_id" "history_check h"
    and fresh: "(hs_incident_id h, hs_version h) \<notin> (\<lambda>g. (hs_incident_id g, hs_version g)) ` set (history d)"
  shows "history_inv (with_transition d (transitioned now i t) h e)"
proof -
  have proj: "hs_id h = next_uuid d" "hs_incident_id h = inc_id i" "hs_entry_type h = Status_Transition"
    "hs_from_status h = Some (inc_status i)" "hs_version h = inc_lock_version i + 1"
    "hs_to_status h = tr_target t"
    by (simp_all add: h transition_entry_def)
  let ?d = "with_transition d (transitioned now i t) h e"
  have ids: "map inc_id (incidents ?d) = map inc_id (incidents d)"
    by (simp, rule map_update_where, simp)
  have replay: "replay_history (history_of ?d (inc_id j)) = Some (inc_status j, inc_lock_version j)"
    if j: "j \<in> set (incidents ?d)" for j
  proof (cases "inc_id j = inc_id i")
    case True
    with j have "j = transitioned now i t" by (auto simp: set_update_where)
    moreover have "replay_history (history_of d (inc_id i)) = Some (inc_status i, inc_lock_version i)"
      using inv i by (simp add: history_inv_def)
    ultimately show ?thesis
      using allowed by (simp add: history_of_with_transition proj replay_history_append)
  next
    case False
    with j inv show ?thesis
      by (auto simp: set_update_where history_of_with_transition proj history_inv_def)
  qed
  have "inc_id ` set (incidents ?d) = inc_id ` set (incidents d)"
    using ids by (metis set_map)
  with inv i ids replay h(2) fresh proj show ?thesis
    by (auto simp: history_inv_def history_unique_def less_Suc_eq)
qed

text \<open>What a request that does not raise preserves.\<close>

lemma transition_incident_history_inv:
  assumes "history_inv d" "transition_incident d now actor incident_id t key h request_id = Inr (d', oc)"
  shows "history_inv d'"
  using assms(2)
proof (cases rule: transition_incident_cases)
  case (refused r)
  with assms(1) show ?thesis by (auto intro: history_inv_cong)
next
  case (applied i)
  then have "i \<in> set (incidents d)" by (auto dest: find_row_SomeD)
  from applied(5) show ?thesis
  proof (rule apply_transition_Inr)
    fix g e r
    assume *: "g = transition_entry (next_uuid d) now actor i t request_id" "history_check g"
      "(hs_incident_id g, hs_version g) \<notin> (\<lambda>g. (hs_incident_id g, hs_version g)) ` set (history d)"
      "d' = with_record (with_transition d (transitioned now i t) g e) r"
    from history_inv_with_transition [OF assms(1) \<open>i \<in> _\<close> applied(4) *(1-3)]
    show ?thesis by (rule history_inv_cong) (simp_all add: *(4))
  qed
qed (use assms in simp_all)

lemma transition_incident_idem_inv:
  assumes "idem_inv d" "transition_incident d now actor incident_id t key h request_id = Inr (d', oc)"
  shows "idem_inv d'"
  using assms(2)
proof (cases rule: transition_incident_cases)
  case (applied i)
  from applied(5) show ?thesis
  proof (rule apply_transition_Inr)
    fix g e r
    assume *: "idem_check r" "id_operator_id r = op_operator_id actor" "id_key r = key"
      "load_operator_idempotency_record d (op_operator_id actor) key = None"
      "d' = with_record (with_transition d (transitioned now i t) g e) r"
    let ?d = "with_transition d (transitioned now i t) g e"
    have "load_operator_idempotency_record ?d (id_operator_id r) (id_key r) = None"
      using * load_same_table [of ?d d] by simp
    with * assms(1) show ?thesis
      by (simp add: idem_inv_with_record idem_inv_cong [of ?d d])
  qed
qed (use assms in \<open>simp_all add: idem_inv_with_record\<close>)

lemma transition_incident_audit_inv:
  assumes "history_inv d" "audit_inv d"
    "transition_incident d now actor incident_id t key h request_id = Inr (d', oc)"
  shows "audit_inv d'"
  using assms(3)
proof (cases rule: transition_incident_cases)
  case (refused r)
  with assms(2) show ?thesis by (auto intro: audit_inv_cong)
next
  case (applied i)
  from applied(5) show ?thesis
  proof (rule apply_transition_Inr)
    fix g e r
    assume *: "g = transition_entry (next_uuid d) now actor i t request_id" "audit_check e"
      "au_id e = Suc (next_uuid d)" "au_history_id e = Some (hs_id g)"
      "d' = with_record (with_transition d (transitioned now i t) g e) r"
    let ?d1 = "d\<lparr>history := history d @ [g], next_uuid := Suc (next_uuid d)\<rparr>"
    have id: "hs_id g = next_uuid d" by (simp add: * transition_entry_def)
    have "Some (next_uuid d) \<notin> au_history_id ` set (audit_log d)"
    proof
      assume "Some (next_uuid d) \<in> au_history_id ` set (audit_log d)"
      then obtain a where "a \<in> set (audit_log d)" "au_history_id a = Some (next_uuid d)" by auto
      with assms(2) have "next_uuid d \<in> hs_id ` set (history d)" by (force simp: audit_inv_def)
      with assms(1) show False by (auto simp: history_inv_def)
    qed
    moreover have "audit_inv ?d1" by (rule audit_inv_cong [OF _ _ _ assms(2)]) auto
    ultimately have "audit_inv (logged ?d1 e)"
      using * id by (intro audit_inv_logged) auto
    then show ?thesis by (rule audit_inv_cong [rotated 3]) (auto simp: *)
  qed
qed (use assms in simp_all)

section \<open>A valid request is answered\<close>

definition reason_ok :: "transition \<Rightarrow> bool" where
  "reason_ok t \<longleftrightarrow> (case tr_reason t of None \<Rightarrow> \<not> is_terminal (tr_target t)
     | Some r \<Rightarrow> 1 \<le> length r \<and> length r \<le> 1000)"

lemma normalize_reason_Some:
  assumes "normalize_reason u reason = Inr (Some r)"
  shows "1 \<le> length r" "length r \<le> 1000" "\<not> list_ex (prohibited u) r"
    "\<exists>raw. reason = Some raw \<and> r = nfc u (strip_of (\<lambda>c. c = 32) raw)"
  using assms by (auto simp: normalize_reason_def reject_reason_characters_def bind_r_eq_Inr Let_def
      split: option.splits)

lemma normalize_transition_Inr:
  assumes "normalize_transition u target v reason = Inr t"
  shows "reason_ok t" "tr_target t = target" "tr_expected_version t = v" "1 \<le> v" "v \<le> 2147483647"
    "normalize_reason u reason = Inr (tr_reason t)"
proof -
  have shape: "reason_ok t" if "normalize_reason u reason = Inr r" "\<not> (is_terminal target \<and> r = None)"
    "t = \<lparr>tr_target = target, tr_expected_version = v, tr_reason = r\<rparr>" for r
    using that normalize_reason_Some(1,2) [of u reason] by (cases r) (simp_all add: reason_ok_def)
  from assms obtain r where "normalize_reason u reason = Inr r" "\<not> (is_terminal target \<and> r = None)"
    "t = \<lparr>tr_target = target, tr_expected_version = v, tr_reason = r\<rparr>"
    by (auto simp: normalize_transition_def bind_r_eq_Inr)
  then show "reason_ok t" by (rule shape)
qed (use assms in \<open>auto simp: normalize_transition_def bind_r_eq_Inr\<close>)

lemma replay_history_versions:
  assumes "replay_history hs = Some (s, v)" "h \<in> set hs"
  shows "1 \<le> hs_version h \<and> hs_version h \<le> v"
proof (cases hs)
  case (Cons b bs)
  with assms(1) have b: "hs_version b = 1" "replay_from (hs_to_status b) 1 bs = Some (s, v)"
    by (auto split: if_splits)
  from replay_from_versions [OF b(2)]
  have "hs_version ` set bs = (\<lambda>k. 2 + int k) ` set [0..<length bs]" "v = 1 + int (length bs)"
    by (metis (no_types, lifting) image_cong list.set_map one_add_one add.assoc, simp)
  moreover have "h = b \<or> hs_version h \<in> hs_version ` set bs" using assms(2) Cons by auto
  ultimately show ?thesis using b(1) by auto
qed (use assms in simp)

lemma next_version_free:
  assumes "history_inv d" "i \<in> set (incidents d)"
  shows "(inc_id i, inc_lock_version i + 1) \<notin> (\<lambda>g. (hs_incident_id g, hs_version g)) ` set (history d)"
proof
  assume "(inc_id i, inc_lock_version i + 1) \<in> (\<lambda>g. (hs_incident_id g, hs_version g)) ` set (history d)"
  then obtain g where g: "g \<in> set (history_of d (inc_id i))" "hs_version g = inc_lock_version i + 1"
    by (auto simp: history_of_def)
  from assms have "replay_history (history_of d (inc_id i)) = Some (inc_status i, inc_lock_version i)"
    by (simp add: history_inv_def)
  from replay_history_versions [OF this g(1)] g(2) show False by simp
qed

lemma record_status_changed:
  assumes "1 \<le> v" "v < 2147483647"
  shows "\<exists>d' e. record_operator_action d now actor ''incident.status_changed'' ''incident'' k
    request_id (Some hid) (transition_details s s' (v + 1) hid) = Inr (d', e)"
  using assms
  by (simp add: record_operator_action_def validate_audit_action_def registry_status_changed
      transition_details_def obj_get_def checked_text_def max_database_integer_def
      history_reference_ok_def forbidden_fields_def casefold_def is_upper_def uuid4_def Let_def
      status_value_listed [unfolded set_map])

lemma apply_transition_defined:
  assumes inv: "history_inv d" and i: "i \<in> set (incidents d)" and reason: "reason_ok t"
    and ok: "idempotency_key_ok key" "is_sha256_hex h"
    and load: "load_operator_idempotency_record d (op_operator_id actor) key = None"
  shows "\<exists>r. apply_transition d now actor i t key h request_id = Inr r"
proof -
  define g where "g = transition_entry (next_uuid d) now actor i t request_id"
  define d1 where "d1 = d\<lparr>incidents := update_where (\<lambda>r. inc_id r = inc_id i)
      (\<lambda>_. transitioned now i t) (incidents d), next_uuid := Suc (next_uuid d)\<rparr>"
  define d2 where "d2 = d1\<lparr>history := history d @ [g]\<rparr>"
  have v: "1 \<le> inc_lock_version i" "inc_lock_version i < 2147483647"
    using history_inv_version [OF inv i] status_rank_bounds(2) [of "inc_status i"] by simp_all
  have "history_check g"
    using reason v by (auto simp: g_def transition_entry_def history_check_def reason_ok_def split: option.splits)
  then have ins: "insert_history d1 g = Inr d2"
    using next_version_free [OF inv i]
    by (auto simp: insert_history_Inr d1_def d2_def g_def transition_entry_def)
  obtain d3 e where aud: "record_operator_action d2 now actor ''incident.status_changed'' ''incident'' (inc_id i)
      request_id (Some (next_uuid d))
      (transition_details (inc_status i) (tr_target t) (inc_lock_version i + 1) (next_uuid d)) = Inr (d3, e)"
    using record_status_changed [OF v] by blast
  have "idempotency d3 = idempotency d"
    using record_operator_action_Inr(1) [OF aud] by (simp add: d2_def d1_def)
  then have "load_operator_idempotency_record d3 (op_operator_id actor) key = None"
    using load load_same_table by metis
  from store_defined [OF ok _ this]
  show ?thesis
    using ins aud by (simp add: apply_transition_def uuid4_def Let_def d1_def g_def store_outcome_def)
qed

lemma transition_incident_defined:
  assumes "history_inv d" "reason_ok t" "idempotency_key_ok key" "is_sha256_hex h"
  shows "\<exists>d' oc. transition_incident d now actor incident_id t key h request_id = Inr (d', oc)"
proof (cases "load_operator_idempotency_record d (op_operator_id actor) key")
  case None
  show ?thesis
  proof (cases "find_row inc_id incident_id (incidents d)")
    case (Some i)
    then have "i \<in> set (incidents d)" by (auto dest: find_row_SomeD)
    from apply_transition_defined [OF assms(1) this assms(2-4) None]
    show ?thesis
      using None Some assms(3,4)
      by (fastforce simp: transition_incident_def store_outcome_def store_defined Let_def)
  qed (use None assms in \<open>simp add: transition_incident_def store_outcome_def store_defined Let_def\<close>)
qed (auto simp: transition_incident_def)

section \<open>Sequences of requests\<close>

text \<open>A request as the routes make it; the operator of the key is the operator that sends it.\<close>

record transition_request =
  rq_now :: time
  rq_actor :: principal
  rq_incident :: uuid
  rq_transition :: transition
  rq_hash :: string
  rq_request_id :: string

definition transition_run :: "db \<Rightarrow> uuid \<times> string \<Rightarrow> transition_request \<Rightarrow> (db \<times> outcome) result" where
  "transition_run d k rq = transition_incident d (rq_now rq) ((rq_actor rq)\<lparr>op_operator_id := fst k\<rparr>)
     (rq_incident rq) (rq_transition rq) (snd k) (rq_hash rq) (rq_request_id rq)"

text \<open>One request in a transaction of its own: committed, or rolled back when it raises.\<close>

definition transition_next :: "db \<Rightarrow> (uuid \<times> string) \<times> transition_request \<Rightarrow> db" where
  "transition_next d kr = fst (atomically (\<lambda>d. transition_run d (fst kr) (snd kr)) d)"

definition idem_lookup :: "db \<Rightarrow> uuid \<times> string \<Rightarrow> idem_row option" where
  "idem_lookup d k = load_operator_idempotency_record d (fst k) (snd k)"

definition transition_matches :: "idem_row \<Rightarrow> transition_request \<Rightarrow> bool" where
  "transition_matches row rq \<longleftrightarrow> id_request_hash row = rq_hash rq"

lemma idem_lookup_other:
  "id_operator_id r = fst k \<Longrightarrow> id_key r = snd k \<Longrightarrow> k' \<noteq> k \<Longrightarrow>
    idem_lookup (with_record d r) k' = idem_lookup d k'"
  by (cases k; cases k') (auto simp: idem_lookup_def load_with_record split: option.splits)

lemma idem_lookup_same:
  "id_operator_id r = fst k \<Longrightarrow> id_key r = snd k \<Longrightarrow> idem_lookup d k = None \<Longrightarrow>
    idem_lookup (with_record d r) k = Some r"
  by (cases k) (simp add: idem_lookup_def load_with_record)

lemma idem_lookup_cong: "idempotency d = idempotency d' \<Longrightarrow> idem_lookup d k = idem_lookup d' k"
  unfolding idem_lookup_def by (rule load_same_table)

text \<open>Every run that does not raise either leaves the database or appends one record for its key.\<close>

lemma transition_run_record:
  assumes "transition_run d k rq = Inr (d', oc)"
  shows "(\<exists>row. idem_lookup d k = Some row \<and> d' = d)
    \<or> idem_lookup d k = None \<and> (\<exists>d1 r. d' = with_record d1 r \<and> idempotency d1 = idempotency d
        \<and> id_operator_id r = fst k \<and> id_key r = snd k \<and> id_request_hash r = rq_hash rq
        \<and> id_response_status r = oc_http_status oc \<and> id_response_body r = oc_body oc
        \<and> \<not> oc_replayed oc)"
  using assms unfolding transition_run_def
proof (cases rule: transition_incident_cases)
  case (refused r)
  then show ?thesis by (intro disjI2) (auto simp: idem_lookup_def intro!: exI [of _ d] exI [of _ r])
next
  case (applied i)
  from applied(5) show ?thesis
  proof (rule apply_transition_Inr)
    fix h e r
    assume *: "id_operator_id r = op_operator_id (rq_actor rq\<lparr>op_operator_id := fst k\<rparr>)" "id_key r = snd k"
      "id_request_hash r = rq_hash rq" "id_response_status r = 200" "id_response_body r = oc_body oc"
      "load_operator_idempotency_record d (op_operator_id (rq_actor rq\<lparr>op_operator_id := fst k\<rparr>)) (snd k) = None"
      "d' = with_record (with_transition d (transitioned (rq_now rq) i (rq_transition rq)) h e) r"
      "oc = \<lparr>oc_http_status = 200,
         oc_body = [(''incident'', incident_snapshot (transitioned (rq_now rq) i (rq_transition rq))),
           (''transition'', history_snapshot h)], oc_replayed = False, oc_conflict = None\<rparr>"
    from *(6) have "idem_lookup d k = None" by (simp add: idem_lookup_def)
    moreover have "\<not> oc_replayed oc" "oc_http_status oc = 200" by (simp_all add: *(8))
    ultimately show ?thesis
      using *(1-5) by (intro disjI2 conjI exI [of _ r]
        exI [of _ "with_transition d (transitioned (rq_now rq) i (rq_transition rq)) h e"]) (simp_all add: *(7))
  qed
qed (auto simp: idem_lookup_def)

lemma transition_run_operation:
  assumes "transition_run d k rq = Inr (d', oc)" "idem_lookup d k = None"
  shows "\<exists>row. idem_lookup d' k = Some row \<and> id_operation row = idempotency_operation"
  using assms(1) unfolding transition_run_def
proof (cases rule: transition_incident_cases)
  case (refused r)
  with assms(2) idem_lookup_same [of r k d] show ?thesis by auto
next
  case (applied i)
  from applied(5) show ?thesis
  proof (rule apply_transition_Inr)
    fix h e r
    assume *: "id_operator_id r = op_operator_id (rq_actor rq\<lparr>op_operator_id := fst k\<rparr>)" "id_key r = snd k"
      "id_operation r = idempotency_operation"
      "d' = with_record (with_transition d (transitioned (rq_now rq) i (rq_transition rq)) h e) r"
    let ?d = "with_transition d (transitioned (rq_now rq) i (rq_transition rq)) h e"
    have "idem_lookup ?d k = None" using assms(2) idem_lookup_cong [of ?d d k] by simp
    with * idem_lookup_same [of r k ?d] show ?thesis by simp
  qed
qed (use assms(2) in \<open>auto simp: idem_lookup_def\<close>)

interpretation workflow: idempotent_operation transition_run idem_lookup transition_matches
proof unfold_locales
  fix d k rq d' oc
  assume "idem_lookup d k = None" "transition_run d k rq = Inr (d', oc)"
  with transition_run_record [OF this(2)] obtain d1 r where r: "d' = with_record d1 r"
      "idempotency d1 = idempotency d" "id_operator_id r = fst k" "id_key r = snd k"
      "id_request_hash r = rq_hash rq" "id_response_status r = oc_http_status oc"
      "id_response_body r = oc_body oc" "\<not> oc_replayed oc" by auto
  moreover have "idem_lookup d1 k = None"
    using idem_lookup_cong [OF r(2)] \<open>idem_lookup d k = None\<close> by simp
  ultimately show "\<exists>row. idem_lookup d' k = Some row \<and> transition_matches row rq
      \<and> id_response_status row = oc_http_status oc \<and> id_response_body row = oc_body oc \<and> \<not> oc_replayed oc"
    by (simp add: idem_lookup_same transition_matches_def)
next
  fix d k row rq
  assume "idem_lookup d k = Some row" "transition_matches row rq"
  then show "transition_run d k rq = Inr (d, replay_outcome row)"
    by (simp add: transition_run_def transition_incident_def idem_lookup_def transition_matches_def)
next
  fix d k row rq
  assume "idem_lookup d k = Some row" "\<not> transition_matches row rq"
  then show "transition_run d k rq = Inr (d, key_reused_outcome)"
    by (simp add: transition_run_def transition_incident_def idem_lookup_def transition_matches_def)
next
  fix k' k d rq d' oc
  assume "k' \<noteq> k" "transition_run d k rq = Inr (d', oc)"
  with transition_run_record [OF this(2)] show "idem_lookup d' k' = idem_lookup d k'"
    using idem_lookup_other idem_lookup_cong by metis
qed

lemma transition_next_eq: "transition_next d kr = workflow.next_state d kr"
  by (simp add: transition_next_def workflow.next_state_def atomically_def split: sum.splits)

lemma foldl_transition_next: "foldl transition_next d rqs = foldl workflow.next_state d rqs"
  by (induction rqs arbitrary: d) (simp_all add: transition_next_eq)

lemma transition_next_induct:
  assumes "P d" "\<And>d k rq d' oc. P d \<Longrightarrow> transition_run d k rq = Inr (d', oc) \<Longrightarrow> P d'"
  shows "P (foldl transition_next d rqs)"
  using assms(1)
proof (induction rqs arbitrary: d)
  case (Cons kr rqs)
  have "P (transition_next d kr)"
    using Cons.prems assms(2) by (auto simp: transition_next_def atomically_def split: sum.splits)
  with Cons.IH show ?case by simp
qed simp

section \<open>How an incident row may change\<close>

definition advances :: "incident_row \<Rightarrow> incident_row \<Rightarrow> bool" where
  "advances i i' \<longleftrightarrow> inc_id i' = inc_id i
     \<and> (i' = i \<or> \<not> is_terminal (inc_status i) \<and> inc_lock_version i < inc_lock_version i')"

lemma advances_refl [simp]: "advances i i"
  by (simp add: advances_def)

lemma advances_trans: "advances i j \<Longrightarrow> advances j k \<Longrightarrow> advances i k"
  by (auto simp: advances_def)

lemma advances_terminal: "advances i j \<Longrightarrow> is_terminal (inc_status i) \<Longrightarrow> j = i"
  by (simp add: advances_def)

lemma apply_transition_advances:
  assumes "find_row inc_id incident_id (incidents d) = Some i"
    "is_transition_allowed (inc_status i) (tr_target t)"
    "find_row inc_id k (incidents d) = Some j"
  shows "\<exists>j'. find_row inc_id k (incidents (with_transition d (transitioned now i t) h e)) = Some j'
    \<and> advances j j'"
proof -
  let ?u = "update_where (\<lambda>r. inc_id r = inc_id i) (\<lambda>_. transitioned now i t) (incidents d)"
  have "find_row inc_id k ?u = (if inc_id i = k then Some (transitioned now i t) else Some j)"
    using assms(3) find_row_SomeD [OF assms(3)] by (subst find_row_update_where) auto
  moreover have "inc_id i = k \<Longrightarrow> j = i"
    using assms find_row_SomeD [OF assms(1)] by simp
  moreover have "\<not> is_terminal (inc_status i)" using assms(2) terminal_no_exit by blast
  ultimately show ?thesis by (auto simp: advances_def)
qed

lemma transition_run_advances:
  assumes "transition_run d k rq = Inr (d', oc)" "find_row inc_id n (incidents d) = Some i"
  shows "\<exists>i'. find_row inc_id n (incidents d') = Some i' \<and> advances i i'"
  using assms(1) unfolding transition_run_def
proof (cases rule: transition_incident_cases)
  case (applied j)
  from applied(5) apply_transition_advances [OF applied(2,4) assms(2)] show ?thesis
    by (elim apply_transition_Inr) simp
qed (use assms(2) in auto)

lemma foldl_advances:
  assumes "find_row inc_id n (incidents d) = Some i"
  shows "\<exists>i'. find_row inc_id n (incidents (foldl transition_next d rqs)) = Some i' \<and> advances i i'"
proof (rule transition_next_induct)
  show "\<exists>i'. find_row inc_id n (incidents d) = Some i' \<and> advances i i'" using assms by auto
next
  fix d k rq d' oc
  assume "\<exists>i'. find_row inc_id n (incidents d) = Some i' \<and> advances i i'"
    "transition_run d k rq = Inr (d', oc)"
  then show "\<exists>i'. find_row inc_id n (incidents d') = Some i' \<and> advances i i'"
    using transition_run_advances advances_trans by blast
qed

section \<open>A concrete database\<close>

definition sample_incident :: incident_row where
  "sample_incident = \<lparr>inc_id = 7, inc_server_id = 2, inc_rule_version_id = 3,
     inc_rule_key = ''ssh_bruteforce'', inc_rule_version = 1, inc_severity = High, inc_status = New,
     inc_title = [116], inc_explanation = [101], inc_recommendation = [114], inc_title_en = None,
     inc_explanation_en = None, inc_recommendation_en = None, inc_correlation = [],
     inc_correlation_hash = replicate 64 (CHR ''0''), inc_rule_snapshot = JObj [],
     inc_first_seen_at = 0, inc_last_seen_at = 0, inc_event_count = 5, inc_lock_version = 1,
     inc_created_at = 0, inc_updated_at = 0\<rparr>"

definition sample_db :: db where
  "sample_db = db_empty\<lparr>incidents := [sample_incident],
     history := [baseline_history 8 sample_incident], next_uuid := 20\<rparr>"

definition sample_principal :: principal where
  "sample_principal = \<lparr>op_operator_id = 4, op_username = ''anna'', op_role = Analyst,
     op_auth_type = Web_Session, op_auth_id = 5\<rparr>"

definition sample_request :: "incident_status \<Rightarrow> int \<Rightarrow> transition_request" where
  "sample_request target v = \<lparr>rq_now = 1000000, rq_actor = sample_principal, rq_incident = 7,
     rq_transition = \<lparr>tr_target = target, tr_expected_version = v, tr_reason = Some (ascii ''noise'')\<rparr>,
     rq_hash = replicate 64 (CHR ''a''), rq_request_id = ''req-1''\<rparr>"

lemma sample_db_inv: "history_inv sample_db" "audit_inv sample_db" "idem_inv sample_db"
  by (simp_all add: history_inv_def history_of_def history_unique_def audit_inv_def audit_unique_def
      idem_inv_def idem_unique_def history_check_def sample_db_def db_empty_def baseline_history_def
      sample_incident_def)

lemma sample_row: "find_row inc_id 7 (incidents sample_db) = Some sample_incident"
  "inc_status sample_incident = New" "inc_lock_version sample_incident = 1" "inc_id sample_incident = 7"
  by (simp_all add: sample_db_def sample_incident_def)

lemma sample_fresh: "idem_lookup sample_db k = None"
  by (simp add: idem_lookup_def load_operator_idempotency_record_def sample_db_def db_empty_def)

lemma sample_key_ok: "idempotency_key_ok ''k-1''" "is_sha256_hex (replicate 64 (CHR ''a''))"
  by (simp_all add: idempotency_key_ok_def head_run_def is_alnum_def is_lower_def is_digit_def
      is_sha256_hex_def is_lower_hex_def list_all_iff)

lemma sample_applied:
  "\<exists>d' oc. transition_run sample_db (4, ''k-1'') (sample_request Resolved 1) = Inr (d', oc)
    \<and> oc_http_status oc = 200 \<and> \<not> oc_replayed oc"
proof -
  have "reason_ok (rq_transition (sample_request Resolved 1))"
    by (simp add: reason_ok_def sample_request_def ascii_def)
  then have "\<exists>d' oc. transition_run sample_db (4, ''k-1'') (sample_request Resolved 1) = Inr (d', oc)"
    unfolding transition_run_def using sample_db_inv(1) sample_key_ok
    by (intro transition_incident_defined) (simp_all add: sample_request_def)
  then obtain d' oc where run: "transition_run sample_db (4, ''k-1'') (sample_request Resolved 1) = Inr (d', oc)"
    by blast
  then have "oc_http_status oc = 200 \<and> \<not> oc_replayed oc"
    unfolding transition_run_def
  proof (cases rule: transition_incident_cases)
    case (applied i)
    from applied(5) show ?thesis by (elim apply_transition_Inr) simp
  qed (use sample_row sample_fresh [of "(4, ''k-1'')"] in
      \<open>auto simp: sample_request_def is_transition_allowed_def idem_lookup_def\<close>)
  with run show ?thesis by blast
qed

section \<open>Properties\<close>

text \<open>C5: Through any sequence of transition requests, accepted, refused, replayed or raising, the
  history of every incident replays to the status and version of its row (baseline first, then
  allowed edges, one version each), every history entry satisfies its constraints, every audit
  record is well formed with a reference of its own to an existing history entry, and completed
  outcomes stay unique per operator and key.\<close>

theorem transitions_keep_history_faithful:
  assumes "history_inv d" "audit_inv d" "idem_inv d"
  shows "history_inv (foldl transition_next d rqs) \<and> audit_inv (foldl transition_next d rqs)
    \<and> idem_inv (foldl transition_next d rqs)"
proof (rule transition_next_induct)
  fix d k rq d' oc
  assume "history_inv d \<and> audit_inv d \<and> idem_inv d" "transition_run d k rq = Inr (d', oc)"
  then show "history_inv d' \<and> audit_inv d' \<and> idem_inv d'"
    unfolding transition_run_def
    by (auto intro: transition_incident_history_inv transition_incident_audit_inv
        transition_incident_idem_inv)
qed (use assms in simp)

theorem transitions_keep_history_faithful_witness:
  "history_inv (foldl transition_next sample_db [((4, ''k-1''), sample_request Resolved 1)])
    \<and> audit_inv (foldl transition_next sample_db [((4, ''k-1''), sample_request Resolved 1)])
    \<and> idem_inv (foldl transition_next sample_db [((4, ''k-1''), sample_request Resolved 1)])"
  by (rule transitions_keep_history_faithful [OF sample_db_inv])

text \<open>C18: Every normalised request is answered: no constraint of the history, audit or idempotency tables can
  refuse it, and no version leaves the column's range. Under a key the operator has used before, no table changes:
  the stored answer is replayed when the request hash is the stored one, and the answer is 409, key reused, when it
  is not. Under a fresh key, exactly one outcome record is stored, with the operator, the key, the hash, the incident
  and exactly the status and body of the answer. An unknown incident is answered 404, a stale version 409 with the
  current version, a forbidden edge 409, and these three write nothing else. Any other request is answered 200: the
  incident takes the requested status, one version on, one history entry and one audit record are appended, and no
  other incident and no other table is touched.\<close>

theorem transition_answers:
  assumes inv: "history_inv d" and norm: "normalize_transition u target v reason = Inr t"
    and key: "validate_idempotency_key key = Inr key" and hash: "is_sha256_hex h"
  shows "\<exists>d' oc. transition_incident d now actor incident_id t key h request_id = Inr (d', oc)
    \<and> (case load_operator_idempotency_record d (op_operator_id actor) key of
        Some stored \<Rightarrow> d' = d \<and> oc = (if id_request_hash stored = h then replay_outcome stored else key_reused_outcome)
      | None \<Rightarrow> \<not> oc_replayed oc \<and> same_elsewhere d d'
        \<and> (\<exists>rid. idempotency d' = idempotency d @ [idem_entry rid now (op_operator_id actor) key
            idempotency_operation incident_id h (oc_http_status oc) (oc_body oc)])
        \<and> (case find_row inc_id incident_id (incidents d) of
            None \<Rightarrow> oc_http_status oc = 404 \<and> oc_body oc = not_found_body \<and> oc_conflict oc = Some ''not_found''
              \<and> incidents d' = incidents d \<and> history d' = history d \<and> audit_log d' = audit_log d
          | Some i \<Rightarrow>
              if inc_lock_version i = v \<and> is_transition_allowed (inc_status i) target
              then oc_http_status oc = 200 \<and> oc_conflict oc = None
                \<and> oc_body oc = [(''incident'', incident_snapshot (transitioned now i t)),
                    (''transition'', history_snapshot (transition_entry (next_uuid d) now actor i t request_id))]
                \<and> incidents d' = update_where (\<lambda>r. inc_id r = incident_id)
                    (\<lambda>_. i\<lparr>inc_status := target, inc_lock_version := v + 1, inc_updated_at := now\<rparr>) (incidents d)
                \<and> history d' = history d @ [transition_entry (next_uuid d) now actor i t request_id]
                \<and> (\<exists>e. audit_log d' = audit_log d @ [e] \<and> au_history_id e = Some (next_uuid d)
                     \<and> au_action e = ''incident.status_changed'' \<and> au_target_id e = incident_id
                     \<and> au_operator_id e = Some (op_operator_id actor))
              else oc_http_status oc = 409 \<and> incidents d' = incidents d \<and> history d' = history d
                \<and> audit_log d' = audit_log d
                \<and> (if inc_lock_version i \<noteq> v
                   then oc_body oc = stale_body (inc_lock_version i) \<and> oc_conflict oc = Some ''stale_version''
                   else oc_body oc = not_allowed_body \<and> oc_conflict oc = Some ''transition_not_allowed'')))"
proof -
  note t = normalize_transition_Inr [OF norm]
  have "idempotency_key_ok key" using key by (simp add: validate_idempotency_key_def bind_r_eq_Inr)
  from transition_incident_defined [OF inv t(1) this hash] obtain d' oc where
    run: "transition_incident d now actor incident_id t key h request_id = Inr (d', oc)" by blast
  from run show ?thesis
  proof (cases rule: transition_incident_cases)
    case (refused r)
    have 1: "load_operator_idempotency_record d (op_operator_id actor) key = None" by (rule refused(1))
    show ?thesis
    proof (cases "find_row inc_id incident_id (incidents d)")
      case None
      with run 1 have "store_outcome d now actor idempotency_operation incident_id key h 404
          not_found_body (Some ''not_found'') = Inr (d', oc)" by (simp add: transition_incident_def)
      from store_outcome_writes [OF this] run 1 None show ?thesis by (auto simp: appended_outcome_def)
    next
      case (Some i)
      with refused(11) have no: "\<not> (inc_lock_version i = v \<and> is_transition_allowed (inc_status i) target)"
        by (auto simp: t split: if_splits)
      with run 1 Some obtain body c where
        st: "store_outcome d now actor idempotency_operation incident_id key h 409 body c = Inr (d', oc)"
        and b: "if inc_lock_version i \<noteq> v then body = stale_body (inc_lock_version i) \<and> c = Some ''stale_version''
          else body = not_allowed_body \<and> c = Some ''transition_not_allowed''"
        by (cases "inc_lock_version i = v") (auto simp: transition_incident_def t)
      from store_outcome_writes [OF st] run 1 Some no b show ?thesis
        by (auto simp: appended_outcome_def)
    qed
  next
    case (applied i)
    note id = find_row_SomeD [OF applied(2)] and writes = apply_transition_writes [OF applied(5)]
    from applied(5) show ?thesis
    proof (rule apply_transition_Inr)
      fix g e r
      assume *: "g = transition_entry (next_uuid d) now actor i t request_id"
        "d' = with_record (with_transition d (transitioned now i t) g e) r"
        "au_history_id e = Some (hs_id g)" "au_action e = ''incident.status_changed''"
        "au_target_id e = inc_id i" "au_operator_id e = Some (op_operator_id actor)"
        "oc = \<lparr>oc_http_status = 200, oc_body = [(''incident'', incident_snapshot (transitioned now i t)),
          (''transition'', history_snapshot g)], oc_replayed = False, oc_conflict = None\<rparr>"
      have "hs_id g = next_uuid d" by (simp add: *(1) transition_entry_def)
      moreover have "transitioned now i t = i\<lparr>inc_status := target, inc_lock_version := v + 1, inc_updated_at := now\<rparr>"
        using applied(3) by (simp add: transitioned_def t)
      ultimately have "incidents d' = update_where (\<lambda>r. inc_id r = incident_id)
            (\<lambda>_. i\<lparr>inc_status := target, inc_lock_version := v + 1, inc_updated_at := now\<rparr>) (incidents d)"
        "history d' = history d @ [g]" "audit_log d' = audit_log d @ [e]" "au_history_id e = Some (next_uuid d)"
        "inc_lock_version i = v \<and> is_transition_allowed (inc_status i) target"
        using * applied(3,4) id t(2,3) by simp_all
      with *(1,4-7) applied(1,2) id writes run show ?thesis
        by (auto simp: appended_outcome_def)
    qed
  qed (use run in simp_all)
qed

lemma sample_normalized:
  "normalize_transition \<lparr>ucategory = (\<lambda>_. ''Ll''), nfc = (\<lambda>s. s)\<rparr> Resolved 1 (Some (ascii ''noise''))
    = Inr (rq_transition (sample_request Resolved 1))"
  by (simp add: normalize_transition_def normalize_reason_def reject_reason_characters_def ascii_def
      prohibited_def prohibited_categories_def strip_of_def sample_request_def)

theorem transition_answers_witness:
  "\<exists>d' oc. transition_incident sample_db 0 sample_principal 7
      (rq_transition (sample_request Resolved 1)) ''k-1'' (replicate 64 (CHR ''a'')) ''r'' = Inr (d', oc)
    \<and> oc_http_status oc = 200 \<and> map id_response_status (idempotency d') = [200]
    \<and> map inc_status (incidents d') = [Resolved] \<and> map inc_lock_version (incidents d') = [2]"
proof -
  have key: "validate_idempotency_key ''k-1'' = Inr ''k-1''"
    by (simp add: validate_idempotency_key_def sample_key_ok)
  have load: "load_operator_idempotency_record sample_db (op_operator_id sample_principal) ''k-1'' = None"
    using sample_fresh [of "(op_operator_id sample_principal, ''k-1'')"] by (simp add: idem_lookup_def)
  have edge: "is_transition_allowed New Resolved" by (simp add: is_transition_allowed_def)
  from transition_answers [OF sample_db_inv(1) sample_normalized key sample_key_ok(2),
      of 0 sample_principal 7 "''r''"]
  obtain d' oc rid where "transition_incident sample_db 0 sample_principal 7
      (rq_transition (sample_request Resolved 1)) ''k-1'' (replicate 64 (CHR ''a'')) ''r'' = Inr (d', oc)"
    "oc_http_status oc = 200"
    "idempotency d' = idempotency sample_db @ [idem_entry rid 0 (op_operator_id sample_principal) ''k-1''
      idempotency_operation 7 (replicate 64 (CHR ''a'')) (oc_http_status oc) (oc_body oc)]"
    "incidents d' = update_where (\<lambda>r. inc_id r = 7) (\<lambda>_. sample_incident\<lparr>inc_status := Resolved,
       inc_lock_version := 2, inc_updated_at := 0\<rparr>) (incidents sample_db)"
    using edge by (auto simp: sample_row load)
  moreover have "incidents sample_db = [sample_incident]" "idempotency sample_db = []"
    by (simp_all add: sample_db_def db_empty_def)
  ultimately show ?thesis by (auto simp: sample_row)
qed


text \<open>C0: Optimistic locking lets one writer through. Once a request on an incident with expected
  version \<open>v\<close> has been applied, then whatever requests run in between, no other request on that
  incident with the same expected version is applied: a run that answers without replaying answers
  409 and changes neither incidents, history nor audit log.\<close>

theorem first_writer_wins:
  assumes first: "transition_run d k rq = Inr (d1, oc)" "oc_http_status oc = 200" "\<not> oc_replayed oc"
    and later: "transition_run (foldl transition_next d1 rqs) k' rq' = Inr (d3, oc')" "\<not> oc_replayed oc'"
    and same: "rq_incident rq' = rq_incident rq"
      "tr_expected_version (rq_transition rq') = tr_expected_version (rq_transition rq)"
  shows "oc_http_status oc' = 409 \<and> incidents d3 = incidents (foldl transition_next d1 rqs)
    \<and> history d3 = history (foldl transition_next d1 rqs)
    \<and> audit_log d3 = audit_log (foldl transition_next d1 rqs)"
proof -
  let ?v = "tr_expected_version (rq_transition rq)" and ?n = "rq_incident rq"
  from first(1) obtain i where i: "find_row inc_id ?n (incidents d1) = Some i" "?v < inc_lock_version i"
    unfolding transition_run_def
  proof (cases rule: transition_incident_cases)
    case (applied i)
    have "find_row inc_id ?n (update_where (\<lambda>r. inc_id r = inc_id i)
        (\<lambda>_. transitioned (rq_now rq) i (rq_transition rq)) (incidents d))
      = Some (transitioned (rq_now rq) i (rq_transition rq))"
      using applied(2) find_row_SomeD [OF applied(2)] by (subst find_row_update_where) auto
    with applied(3,5) that show ?thesis by (elim apply_transition_Inr) simp
  qed (use first(2,3) in \<open>auto simp: replay_outcome_def key_reused_outcome_def\<close>)
  from foldl_advances [OF i(1), of rqs] i(2) obtain j where
    j: "find_row inc_id ?n (incidents (foldl transition_next d1 rqs)) = Some j" "?v < inc_lock_version j"
    by (auto simp: advances_def)
  from later(1) show ?thesis
    unfolding transition_run_def
    by (cases rule: transition_incident_cases)
      (use later(2) j same in \<open>auto simp: replay_outcome_def key_reused_outcome_def\<close>)
qed

theorem first_writer_wins_witness:
  "\<exists>d1 oc d3 oc'. transition_run sample_db (4, ''k-1'') (sample_request Resolved 1) = Inr (d1, oc)
    \<and> oc_http_status oc = 200
    \<and> transition_run d1 (4, ''k-2'') (sample_request Investigating 1) = Inr (d3, oc')
    \<and> oc_http_status oc' = 409"
proof -
  from sample_applied obtain d1 oc where
    a: "transition_run sample_db (4, ''k-1'') (sample_request Resolved 1) = Inr (d1, oc)"
      "oc_http_status oc = 200" "\<not> oc_replayed oc" by blast
  have "history_inv d1"
    using a(1) sample_db_inv(1) unfolding transition_run_def by (rule transition_incident_history_inv [rotated])
  moreover have "reason_ok (rq_transition (sample_request Investigating 1))"
    "idempotency_key_ok ''k-2''"
    by (simp_all add: reason_ok_def sample_request_def ascii_def idempotency_key_ok_def head_run_def
        is_alnum_def is_lower_def is_digit_def)
  ultimately obtain d3 oc' where
    b: "transition_run d1 (4, ''k-2'') (sample_request Investigating 1) = Inr (d3, oc')"
    unfolding transition_run_def using sample_key_ok(2) transition_incident_defined
    by (fastforce simp: sample_request_def)
  have "idem_lookup d1 (4, ''k-2'') = None"
    using workflow.other_keys [OF _ a(1), of "(4, ''k-2'')"] sample_fresh by simp
  then have "\<not> oc_replayed oc'"
    using transition_run_record [OF b] by auto
  then have "oc_http_status oc' = 409"
    using first_writer_wins [OF a, of "[]"] b by (simp add: sample_request_def)
  with a b show ?thesis by blast
qed

text \<open>A terminal status is final: no sequence of transition requests changes a resolved or
  false-positive incident in any column.\<close>

theorem terminal_incident_is_final:
  assumes "find_row inc_id n (incidents d) = Some i" "is_terminal (inc_status i)"
  shows "find_row inc_id n (incidents (foldl transition_next d rqs)) = Some i"
  using foldl_advances [OF assms(1), of rqs] assms(2) by (auto simp: advances_def)

theorem terminal_incident_is_final_witness:
  "find_row inc_id 7 (incidents (foldl transition_next
      (sample_db\<lparr>incidents := [sample_incident\<lparr>inc_status := Resolved\<rparr>]\<rparr>)
      [((4, ''k-1''), sample_request New 1)]))
    = Some (sample_incident\<lparr>inc_status := Resolved\<rparr>)"
  by (rule terminal_incident_is_final) (simp_all add: is_terminal_def sample_row)

text \<open>C20: Retrying is safe. After a request under a fresh key has been answered, any later request of
  the same operator under that key, whatever ran in between, changes nothing: the same request gets
  the recorded status and body marked as a replay, a different one is refused as a reused key.\<close>

theorem transition_retry_is_safe:
  assumes "transition_run d k rq = Inr (d1, oc)" "idem_lookup d k = None"
  shows "\<exists>oc'. transition_run (foldl transition_next d1 rqs) k rq' = Inr (foldl transition_next d1 rqs, oc')
    \<and> (if rq_hash rq' = rq_hash rq
        then oc_http_status oc' = oc_http_status oc \<and> oc_body oc' = oc_body oc \<and> oc_replayed oc'
        else oc' = key_reused_outcome)"
proof (cases "rq_hash rq' = rq_hash rq")
  case True
  with workflow.retry_after_anything [OF assms, of rq' rqs] show ?thesis
    by (simp add: foldl_transition_next transition_matches_def)
next
  case False
  from workflow.first_run [OF assms(2,1)] obtain row where
    "idem_lookup d1 k = Some row" "transition_matches row rq" by blast
  with False workflow.recorded_forever [of d1 k row rqs]
    workflow.different_request_refused [of "foldl transition_next d1 rqs" k row rq'] show ?thesis
    by (simp add: foldl_transition_next transition_matches_def)
qed

theorem transition_retry_is_safe_witness:
  "\<exists>d1 oc oc'. transition_run sample_db (4, ''k-1'') (sample_request Resolved 1) = Inr (d1, oc)
    \<and> transition_run d1 (4, ''k-1'') (sample_request Resolved 1) = Inr (d1, oc')
    \<and> oc_replayed oc' \<and> oc_body oc' = oc_body oc"
proof -
  from sample_applied obtain d1 oc where
    a: "transition_run sample_db (4, ''k-1'') (sample_request Resolved 1) = Inr (d1, oc)" by blast
  from transition_retry_is_safe [OF a sample_fresh, of "[]" "sample_request Resolved 1"] a
  show ?thesis by auto
qed

end
