(* ===== verification/Incident_Comments.thy ===== *)
theory Incident_Comments
  imports Incident_Workflow
begin

text \<open>
  \<open>application/incident_comments.py\<close>: normalisation of a comment (line endings, Unicode
  categories, length), the canonical request hash, and \<open>add_incident_comment\<close>, a second
  implementation of the interface \<open>idempotent_operation\<close>: a record answers for a comment only
  when it was written by the comment operation and for the same request.
\<close>

section \<open>Normalisation\<close>

definition max_comment_length :: nat where
  "max_comment_length = 1000"

definition comment_character_ok :: "unicode \<Rightarrow> bool \<Rightarrow> codepoint \<Rightarrow> bool" where
  "comment_character_ok u allow_browser_line_endings c \<longleftrightarrow>
     c \<in> {13, 10} \<and> allow_browser_line_endings
     \<or> c = 10 \<and> \<not> allow_browser_line_endings
     \<or> \<not> prohibited u c"

definition reject_comment_characters :: "unicode \<Rightarrow> bool \<Rightarrow> ustring \<Rightarrow> unit result" where
  "reject_comment_characters u allow s = guard_r (list_all (comment_character_ok u allow) s)
     (CommentValidationError ''comment contains a prohibited Unicode character'')"

definition normalize_comment :: "unicode \<Rightarrow> ustring \<Rightarrow> ustring result" where
  "normalize_comment u raw =
     bind_r (reject_comment_characters u True raw) (\<lambda>_.
     let normalized = strip_of is_space (nfc u (canonical_lines raw)) in
     bind_r (reject_comment_characters u False normalized) (\<lambda>_.
     bind_r (guard_r (1 \<le> length normalized \<and> length normalized \<le> max_comment_length)
       (CommentValidationError ''comment length is invalid'')) (\<lambda>_.
     Inr normalized)))"

section \<open>The canonical request\<close>

definition comment_idempotency_operation :: string where
  "comment_idempotency_operation = ''incident.comment.create.v1''"

definition comment_json :: "uuid \<Rightarrow> ustring \<Rightarrow> json" where
  "comment_json incident_id body = JObj
     [(''comment'', JStr (utf8 body)),
      (''incident_id'', JStr (uuid_str incident_id)),
      (''operation'', JStr comment_idempotency_operation)]"

definition canonical_comment_hash :: "(string \<Rightarrow> string) \<Rightarrow> uuid \<Rightarrow> ustring \<Rightarrow> string" where
  "canonical_comment_hash sha256_hex incident_id body = sha256_hex (dumps (comment_json incident_id body))"

section \<open>The operation\<close>

definition comment_entry ::
  "uuid \<Rightarrow> time \<Rightarrow> principal \<Rightarrow> uuid \<Rightarrow> ustring \<Rightarrow> string \<Rightarrow> comment_row" where
  "comment_entry cid now actor incident_id body request_id = \<lparr>cm_id = cid,
     cm_incident_id = incident_id, cm_operator_id = op_operator_id actor,
     cm_actor_username = op_username actor, cm_auth_type = op_auth_type actor,
     cm_auth_id = op_auth_id actor, cm_request_id = request_id, cm_body = body, cm_created_at = now\<rparr>"

definition insert_comment :: "db \<Rightarrow> comment_row \<Rightarrow> db result" where
  "insert_comment d c =
     (if \<not> comment_check c then Inl (IntegrityError ''incident_comments check'')
      else if cm_id c \<in> cm_id ` set (comments d) then Inl (IntegrityError ''pk_incident_comments'')
      else Inr (d\<lparr>comments := comments d @ [c]\<rparr>))"

definition comment_response :: "comment_row \<Rightarrow> (string \<times> json) list" where
  "comment_response c = [(''comment_id'', JStr (uuid_str (cm_id c))),
     (''created_at'', JStr (isoformat (cm_created_at c))),
     (''incident_id'', JStr (uuid_str (cm_incident_id c)))]"

definition store_comment ::
  "db \<Rightarrow> time \<Rightarrow> principal \<Rightarrow> uuid \<Rightarrow> ustring \<Rightarrow> string \<Rightarrow> string \<Rightarrow> string \<Rightarrow> (db \<times> outcome) result" where
  "store_comment d now actor incident_id body key request_hash request_id =
     (let (cid, d1) = uuid4 d; c = comment_entry cid now actor incident_id body request_id
      in bind_r (insert_comment d1 c) (\<lambda>d2.
         bind_r (record_operator_action d2 now actor ''incident.comment_added'' ''incident_comment'' cid
             request_id None [(''incident_id'', JStr (uuid_str incident_id))]) (\<lambda>(d3, _).
         store_outcome d3 now actor comment_idempotency_operation incident_id key request_hash 200
           (comment_response c) None)))"

definition add_incident_comment ::
  "db \<Rightarrow> time \<Rightarrow> principal \<Rightarrow> uuid \<Rightarrow> ustring \<Rightarrow> string \<Rightarrow> string \<Rightarrow> string \<Rightarrow> (db \<times> outcome) result" where
  "add_incident_comment d now actor incident_id body key request_hash request_id =
     (case load_operator_idempotency_record d (op_operator_id actor) key of
        Some existing \<Rightarrow>
          (if id_operation existing = comment_idempotency_operation
              \<and> id_request_hash existing = request_hash
           then Inr (d, replay_outcome existing)
           else Inr (d, key_reused_outcome))
      | None \<Rightarrow>
        (case find_row inc_id incident_id (incidents d) of
           None \<Rightarrow> store_outcome d now actor comment_idempotency_operation incident_id key
             request_hash 404 not_found_body (Some ''not_found'')
         | Some _ \<Rightarrow> store_comment d now actor incident_id body key request_hash request_id))"

section \<open>The effect of one request\<close>

lemma comment_entry_simps [simp]:
  "cm_id (comment_entry cid now actor n body rid) = cid"
  "cm_incident_id (comment_entry cid now actor n body rid) = n"
  "cm_body (comment_entry cid now actor n body rid) = body"
  "cm_created_at (comment_entry cid now actor n body rid) = now"
  by (simp_all add: comment_entry_def)

definition with_comment :: "db \<Rightarrow> comment_row \<Rightarrow> audit_row \<Rightarrow> db" where
  "with_comment d c e = d\<lparr>comments := comments d @ [c], audit_log := audit_log d @ [e],
     next_uuid := Suc (Suc (next_uuid d))\<rparr>"

lemma with_comment_simps [simp]:
  "comments (with_comment d c e) = comments d @ [c]"
  "audit_log (with_comment d c e) = audit_log d @ [e]"
  "next_uuid (with_comment d c e) = Suc (Suc (next_uuid d))"
  "incidents (with_comment d c e) = incidents d" "history (with_comment d c e) = history d"
  "idempotency (with_comment d c e) = idempotency d"
  "outbox (with_comment d c e) = outbox d" "events (with_comment d c e) = events d"
  by (simp_all add: with_comment_def)

lemma store_comment_Inr:
  assumes "store_comment d now actor n body key h request_id = Inr (d', oc)"
  obtains c e r where "c = comment_entry (next_uuid d) now actor n body request_id" "comment_check c"
    "audit_check e" "au_id e = Suc (next_uuid d)" "au_history_id e = None"
    "au_action e = ''incident.comment_added''" "au_target_id e = next_uuid d"
    "au_operator_id e = Some (op_operator_id actor)"
    "idem_check r" "id_operator_id r = op_operator_id actor" "id_key r = key"
    "id_request_hash r = h" "id_response_status r = 200" "id_response_body r = oc_body oc"
    "id_operation r = comment_idempotency_operation"
    "load_operator_idempotency_record d (op_operator_id actor) key = None"
    "d' = with_record (with_comment d c e) r"
    "oc = \<lparr>oc_http_status = 200, oc_body = comment_response c, oc_replayed = False, oc_conflict = None\<rparr>"
proof -
  define c where "c = comment_entry (next_uuid d) now actor n body request_id"
  define d1 where "d1 = d\<lparr>next_uuid := Suc (next_uuid d)\<rparr>"
  from assms obtain d2 d3 e where
    ins: "insert_comment d1 c = Inr d2"
    and aud: "record_operator_action d2 now actor ''incident.comment_added'' ''incident_comment''
        (next_uuid d) request_id None [(''incident_id'', JStr (uuid_str n))] = Inr (d3, e)"
    and sto: "store_outcome d3 now actor comment_idempotency_operation n key h 200
        (comment_response c) None = Inr (d', oc)"
    by (auto simp: store_comment_def uuid4_def Let_def bind_r_eq_Inr c_def d1_def)
  have d2: "d2 = d1\<lparr>comments := comments d1 @ [c]\<rparr>" "comment_check c"
    using ins by (auto simp: insert_comment_def split: if_splits)
  have d3: "d3 = with_comment d c e"
    using record_operator_action_Inr(1) [OF aud] by (simp add: d2(1) d1_def with_comment_def logged_def)
  have n2: "next_uuid d2 = Suc (next_uuid d)" by (simp add: d2(1) d1_def)
  note load = load_same_table [of d3 d, unfolded d3, simplified]
  show ?thesis
    using d2(2) sto record_operator_action_Inr(2-9) [OF aud]
    by (intro that [of c e "idem_entry (next_uuid d3) now (op_operator_id actor) key
        comment_idempotency_operation n h 200 (oc_body oc)"])
      (auto simp: c_def [symmetric] store_outcome_Inr d3 load n2)
qed

lemma add_incident_comment_cases:
  assumes "add_incident_comment d now actor n body key h request_id = Inr (d', oc)"
  obtains (replayed) r where "load_operator_idempotency_record d (op_operator_id actor) key = Some r"
      "d' = d" "id_operation r = comment_idempotency_operation" "id_request_hash r = h"
      "oc = replay_outcome r"
  | (reused) r where "load_operator_idempotency_record d (op_operator_id actor) key = Some r"
      "d' = d" "\<not> (id_operation r = comment_idempotency_operation \<and> id_request_hash r = h)"
      "oc = key_reused_outcome"
  | (missing) r where "load_operator_idempotency_record d (op_operator_id actor) key = None"
      "find_row inc_id n (incidents d) = None"
      "d' = with_record d r" "idem_check r" "id_operator_id r = op_operator_id actor" "id_key r = key"
      "id_request_hash r = h" "id_response_status r = 404" "oc_http_status oc = 404"
      "id_response_body r = oc_body oc" "id_operation r = comment_idempotency_operation"
      "\<not> oc_replayed oc"
  | (stored) i where "load_operator_idempotency_record d (op_operator_id actor) key = None"
      "find_row inc_id n (incidents d) = Some i"
      "store_comment d now actor n body key h request_id = Inr (d', oc)"
proof (cases "load_operator_idempotency_record d (op_operator_id actor) key")
  case (Some r)
  with assms replayed reused show ?thesis
    by (auto simp: add_incident_comment_def split: if_splits)
next
  case None
  show ?thesis
  proof (cases "find_row inc_id n (incidents d)")
    case nf: None
    from assms None nf show ?thesis
      by (intro missing [of "idem_entry (next_uuid d) now (op_operator_id actor) key
          comment_idempotency_operation n h 404 not_found_body"])
        (auto simp: add_incident_comment_def store_outcome_Inr)
  next
    case (Some i)
    with assms None stored show ?thesis by (auto simp: add_incident_comment_def)
  qed
qed

section \<open>Invariants\<close>

definition comment_inv :: "db \<Rightarrow> bool" where
  "comment_inv d \<longleftrightarrow> distinct (map cm_id (comments d))
     \<and> (\<forall>c \<in> set (comments d). comment_check c \<and> cm_id c < next_uuid d
          \<and> cm_incident_id c \<in> inc_id ` set (incidents d))"

lemma comment_inv_cong:
  "comment_inv d \<Longrightarrow> comments d' = comments d \<Longrightarrow> next_uuid d \<le> next_uuid d' \<Longrightarrow>
    inc_id ` set (incidents d) \<subseteq> inc_id ` set (incidents d') \<Longrightarrow> comment_inv d'"
  by (auto simp: comment_inv_def intro: less_le_trans)

lemma comment_inv_with_comment:
  assumes "comment_inv d" "find_row inc_id n (incidents d) = Some i" "comment_check c"
    "cm_id c = next_uuid d" "cm_incident_id c = n"
  shows "comment_inv (with_comment d c e)"
proof -
  have "n \<in> inc_id ` set (incidents d)" using find_row_SomeD [OF assms(2)] by auto
  with assms show ?thesis by (auto simp: comment_inv_def less_Suc_eq)
qed

lemma add_incident_comment_inv:
  assumes "comment_inv d" "audit_inv d" "idem_inv d" "history_inv d"
    "add_incident_comment d now actor n body key h request_id = Inr (d', oc)"
  shows "comment_inv d' \<and> audit_inv d' \<and> idem_inv d' \<and> history_inv d'"
  using assms(5)
proof (cases rule: add_incident_comment_cases)
  case (missing r)
  with assms show ?thesis
    by (auto intro: comment_inv_cong audit_inv_cong history_inv_cong idem_inv_with_record)
next
  case (stored i)
  from stored(3) show ?thesis
  proof (rule store_comment_Inr)
    fix c e r
    assume *: "c = comment_entry (next_uuid d) now actor n body request_id" "comment_check c"
      "audit_check e" "au_id e = Suc (next_uuid d)" "au_history_id e = None"
      "idem_check r" "id_operator_id r = op_operator_id actor" "id_key r = key"
      "load_operator_idempotency_record d (op_operator_id actor) key = None"
      "d' = with_record (with_comment d c e) r"
    let ?d = "with_comment d c e" and ?d1 = "d\<lparr>next_uuid := Suc (next_uuid d)\<rparr>"
    have "comment_inv ?d" using assms(1) stored(2) *(1,2) by (auto intro: comment_inv_with_comment)
    then have c: "comment_inv d'" by (rule comment_inv_cong) (simp_all add: *)
    have "audit_inv (logged ?d1 e)"
      by (rule audit_inv_logged [OF audit_inv_cong [OF _ _ _ assms(2)]]) (simp_all add: *)
    then have a: "audit_inv d'" by (rule audit_inv_cong [rotated 3]) (simp_all add: *)
    have "load_operator_idempotency_record ?d (id_operator_id r) (id_key r) = None"
      using * load_same_table [of ?d d] by simp
    moreover have "idem_inv ?d" using assms(3) idem_inv_cong [of ?d d] by simp
    ultimately have "idem_inv d'" using *(6) unfolding *(10) by (intro idem_inv_with_record)
    moreover have "history_inv d'" by (rule history_inv_cong [OF assms(4)]) (simp_all add: *)
    ultimately show ?thesis using c a by blast
  qed
qed (use assms in simp_all)

text \<open>A normalised comment on a consistent database is always answered.\<close>

lemma normalize_comment_Inr:
  assumes "normalize_comment u raw = Inr body"
  shows "1 \<le> length body" "length body \<le> 1000" "\<forall>c \<in> set body. c = 10 \<or> \<not> prohibited u c"
    "body = strip_of is_space (nfc u (canonical_lines raw))"
    "\<forall>c \<in> set raw. c = 13 \<or> c = 10 \<or> \<not> prohibited u c"
  using assms
  by (auto simp: normalize_comment_def reject_comment_characters_def comment_character_ok_def
      bind_r_eq_Inr list_all_iff max_comment_length_def Let_def)

lemma record_comment_added:
  "\<exists>d' e. record_operator_action d now actor ''incident.comment_added'' ''incident_comment'' cid
    request_id None [(''incident_id'', JStr (uuid_str n))] = Inr (d', e)"
  by (simp add: record_operator_action_def validate_audit_action_def registry_comment_added obj_get_def
      checked_text_def history_reference_ok_def forbidden_fields_def casefold_def is_upper_def
      uuid4_def Let_def)

lemma add_incident_comment_defined:
  assumes inv: "comment_inv d" and body: "1 \<le> length body" "length body \<le> 1000"
    and ok: "idempotency_key_ok key" "is_sha256_hex h"
  shows "\<exists>d' oc. add_incident_comment d now actor n body key h request_id = Inr (d', oc)"
proof (cases "load_operator_idempotency_record d (op_operator_id actor) key")
  case None
  let ?c = "comment_entry (next_uuid d) now actor n body request_id"
  let ?d2 = "d\<lparr>comments := comments d @ [?c], next_uuid := Suc (next_uuid d)\<rparr>"
  have ins: "insert_comment (d\<lparr>next_uuid := Suc (next_uuid d)\<rparr>) ?c = Inr ?d2"
    using inv body by (auto simp: insert_comment_def comment_check_def comment_inv_def)
  obtain d3 e where aud: "record_operator_action ?d2 now actor ''incident.comment_added''
      ''incident_comment'' (next_uuid d) request_id None [(''incident_id'', JStr (uuid_str n))] = Inr (d3, e)"
    using record_comment_added by blast
  have "idempotency d3 = idempotency d" using record_operator_action_Inr(1) [OF aud] by simp
  then have "load_operator_idempotency_record d3 (op_operator_id actor) key = None"
    using None load_same_table by metis
  from store_defined [OF ok _ this] store_defined [OF ok _ None] None ins aud show ?thesis
    by (auto simp: add_incident_comment_def store_comment_def store_outcome_def uuid4_def Let_def
        split: option.splits)
qed (auto simp: add_incident_comment_def)

section \<open>Sequences of requests\<close>

record comment_request =
  cq_now :: time
  cq_actor :: principal
  cq_incident :: uuid
  cq_body :: ustring
  cq_hash :: string
  cq_request_id :: string

definition comment_run :: "db \<Rightarrow> uuid \<times> string \<Rightarrow> comment_request \<Rightarrow> (db \<times> outcome) result" where
  "comment_run d k rq = add_incident_comment d (cq_now rq) ((cq_actor rq)\<lparr>op_operator_id := fst k\<rparr>)
     (cq_incident rq) (cq_body rq) (snd k) (cq_hash rq) (cq_request_id rq)"

definition comment_next :: "db \<Rightarrow> (uuid \<times> string) \<times> comment_request \<Rightarrow> db" where
  "comment_next d kr = fst (atomically (\<lambda>d. comment_run d (fst kr) (snd kr)) d)"

definition comment_matches :: "idem_row \<Rightarrow> comment_request \<Rightarrow> bool" where
  "comment_matches row rq \<longleftrightarrow> id_operation row = comment_idempotency_operation
     \<and> id_request_hash row = cq_hash rq"

lemma comment_run_record:
  assumes "comment_run d k rq = Inr (d', oc)"
  shows "(\<exists>row. idem_lookup d k = Some row \<and> d' = d)
    \<or> idem_lookup d k = None \<and> (\<exists>d1 r. d' = with_record d1 r \<and> idempotency d1 = idempotency d
        \<and> id_operator_id r = fst k \<and> id_key r = snd k \<and> comment_matches r rq
        \<and> id_response_status r = oc_http_status oc \<and> id_response_body r = oc_body oc
        \<and> \<not> oc_replayed oc)"
  using assms unfolding comment_run_def
proof (cases rule: add_incident_comment_cases)
  case (missing r)
  then show ?thesis
    by (intro disjI2) (auto simp: idem_lookup_def comment_matches_def intro!: exI [of _ d] exI [of _ r])
next
  case (stored i)
  from stored(3) show ?thesis
  proof (rule store_comment_Inr)
    fix c e r
    assume *: "id_operator_id r = op_operator_id (cq_actor rq\<lparr>op_operator_id := fst k\<rparr>)" "id_key r = snd k"
      "id_request_hash r = cq_hash rq" "id_response_status r = 200" "id_response_body r = oc_body oc"
      "id_operation r = comment_idempotency_operation" "d' = with_record (with_comment d c e) r"
      "oc = \<lparr>oc_http_status = 200, oc_body = comment_response c, oc_replayed = False, oc_conflict = None\<rparr>"
    have "\<not> oc_replayed oc" "oc_http_status oc = 200" by (simp_all add: *(8))
    moreover have "idem_lookup d k = None" using stored(1) by (simp add: idem_lookup_def)
    ultimately show ?thesis
      using *(1-6) by (intro disjI2 conjI exI [of _ r] exI [of _ "with_comment d c e"])
        (simp_all add: *(7) comment_matches_def)
  qed
qed (auto simp: idem_lookup_def)

interpretation comment_op: idempotent_operation comment_run idem_lookup comment_matches
proof unfold_locales
  fix d k rq d' oc
  assume "idem_lookup d k = None" "comment_run d k rq = Inr (d', oc)"
  with comment_run_record [OF this(2)] obtain d1 r where r: "d' = with_record d1 r"
      "idempotency d1 = idempotency d" "id_operator_id r = fst k" "id_key r = snd k"
      "comment_matches r rq" "id_response_status r = oc_http_status oc"
      "id_response_body r = oc_body oc" "\<not> oc_replayed oc" by auto
  moreover have "idem_lookup d1 k = None"
    using idem_lookup_cong [OF r(2)] \<open>idem_lookup d k = None\<close> by simp
  ultimately show "\<exists>row. idem_lookup d' k = Some row \<and> comment_matches row rq
      \<and> id_response_status row = oc_http_status oc \<and> id_response_body row = oc_body oc \<and> \<not> oc_replayed oc"
    by (simp add: idem_lookup_same)
next
  fix d k row rq
  assume "idem_lookup d k = Some row" "comment_matches row rq"
  then show "comment_run d k rq = Inr (d, replay_outcome row)"
    by (simp add: comment_run_def add_incident_comment_def idem_lookup_def comment_matches_def)
next
  fix d k row rq
  assume "idem_lookup d k = Some row" "\<not> comment_matches row rq"
  then show "comment_run d k rq = Inr (d, key_reused_outcome)"
    by (auto simp: comment_run_def add_incident_comment_def idem_lookup_def comment_matches_def)
next
  fix k' k d rq d' oc
  assume "k' \<noteq> k" "comment_run d k rq = Inr (d', oc)"
  with comment_run_record [OF this(2)] show "idem_lookup d' k' = idem_lookup d k'"
    using idem_lookup_other idem_lookup_cong by metis
qed

section \<open>Properties\<close>

text \<open>A comment admitted by the normaliser is clean: it has 1 to 1000 characters, no carriage
  return, no character of a prohibited category other than the line feed, and no white space at
  either end; and the text submitted for it had no prohibited character but line endings.\<close>

theorem normalized_comment_is_clean:
  assumes "normalize_comment u raw = Inr body" "prohibited u 13"
  shows "1 \<le> length body \<and> length body \<le> 1000 \<and> 13 \<notin> set body
    \<and> (\<forall>c \<in> set body. c = 10 \<or> ucategory u c \<notin> {''Cc'', ''Cf'', ''Cs'', ''Zl'', ''Zp''})
    \<and> \<not> is_space (hd body) \<and> \<not> is_space (last body)
    \<and> (\<forall>c \<in> set raw. c = 13 \<or> c = 10 \<or> ucategory u c \<notin> {''Cc'', ''Cf'', ''Cs'', ''Zl'', ''Zp''})"
proof -
  note n = normalize_comment_Inr [OF assms(1)]
  have "body \<noteq> []" using n(1) by auto
  then have "\<not> is_space (hd body)" "\<not> is_space (last body)"
    using strip_of_hd [of is_space] strip_of_last [of is_space] n(4) by metis+
  moreover have "\<And>c. prohibited u c \<longleftrightarrow> ucategory u c \<in> {''Cc'', ''Cf'', ''Cs'', ''Zl'', ''Zp''}"
    by (simp add: prohibited_def prohibited_categories_def)
  moreover have "13 \<notin> set body" using n(3) assms(2) by fastforce
  ultimately show ?thesis using n(1-3,5) by simp
qed

definition ascii_unicode :: unicode where
  "ascii_unicode = \<lparr>ucategory = (\<lambda>c. if c < 32 then ''Cc'' else ''Ll''), nfc = (\<lambda>s. s)\<rparr>"

theorem normalized_comment_is_clean_witness:
  "normalize_comment ascii_unicode [32, 97, 13, 10, 98, 13] = Inr [97, 10, 98]
    \<and> 13 \<notin> set [97, 10, 98::nat]"
proof -
  have n: "normalize_comment ascii_unicode [32, 97, 13, 10, 98, 13] = Inr [97, 10, 98]"
    by (simp add: normalize_comment_def reject_comment_characters_def comment_character_ok_def
        prohibited_def prohibited_categories_def ascii_unicode_def strip_of_def is_space_def
        max_comment_length_def)
  have "prohibited ascii_unicode 13"
    by (simp add: prohibited_def prohibited_categories_def ascii_unicode_def)
  from normalized_comment_is_clean [OF n this] n show ?thesis by blast
qed

text \<open>C21: A normalised comment sent under a key is always answered, and answers keep the comments,
  the audit log, the outcomes and the incident histories consistent. Under a fresh key an unknown
  incident is answered 404 and stores no comment; otherwise exactly one comment with the normalised
  body and one audit record pointing at it are appended, and the incident itself is not touched.\<close>

theorem comment_answers:
  assumes inv: "comment_inv d" "audit_inv d" "idem_inv d" "history_inv d"
    and norm: "normalize_comment u raw = Inr body"
    and key: "idempotency_key_ok key" and hash: "is_sha256_hex h"
  shows "\<exists>d' oc. add_incident_comment d now actor n body key h request_id = Inr (d', oc)
    \<and> comment_inv d' \<and> audit_inv d' \<and> idem_inv d' \<and> history_inv d'
    \<and> incidents d' = incidents d \<and> history d' = history d
    \<and> (load_operator_idempotency_record d (op_operator_id actor) key = None \<longrightarrow>
        (if n \<in> inc_id ` set (incidents d)
         then oc_http_status oc = 200
           \<and> comments d' = comments d @ [comment_entry (next_uuid d) now actor n body request_id]
           \<and> (\<exists>e. audit_log d' = audit_log d @ [e] \<and> au_action e = ''incident.comment_added''
                \<and> au_target_id e = next_uuid d \<and> au_operator_id e = Some (op_operator_id actor))
         else oc_http_status oc = 404 \<and> comments d' = comments d \<and> audit_log d' = audit_log d))"
proof -
  from add_incident_comment_defined [OF inv(1) normalize_comment_Inr(1,2) [OF norm] key hash]
  obtain d' oc where run: "add_incident_comment d now actor n body key h request_id = Inr (d', oc)"
    by blast
  note keep = add_incident_comment_inv [OF inv run]
  from run show ?thesis
  proof (cases rule: add_incident_comment_cases)
    case (missing r)
    then have "n \<notin> inc_id ` set (incidents d)" by (simp add: find_row_None_iff)
    with missing run keep show ?thesis by simp
  next
    case (stored i)
    have "n \<in> inc_id ` set (incidents d)" using find_row_SomeD [OF stored(2)] by auto
    moreover from stored(3) have "incidents d' = incidents d \<and> history d' = history d
        \<and> oc_http_status oc = 200
        \<and> comments d' = comments d @ [comment_entry (next_uuid d) now actor n body request_id]
        \<and> (\<exists>e. audit_log d' = audit_log d @ [e] \<and> au_action e = ''incident.comment_added''
             \<and> au_target_id e = next_uuid d \<and> au_operator_id e = Some (op_operator_id actor))"
      by (elim store_comment_Inr) simp
    ultimately show ?thesis using run keep by simp
  qed (use run keep in simp_all)
qed

theorem comment_answers_witness:
  "\<exists>d' oc. add_incident_comment sample_db 0 sample_principal 7 [97, 10, 98] ''k-1''
      (replicate 64 (CHR ''a'')) ''r'' = Inr (d', oc)
    \<and> oc_http_status oc = 200 \<and> map cm_body (comments d') = [[97, 10, 98]]"
proof -
  have n: "normalize_comment ascii_unicode [32, 97, 13, 10, 98, 13] = Inr [97, 10, 98]"
    by (simp add: normalize_comment_def reject_comment_characters_def comment_character_ok_def
        prohibited_def prohibited_categories_def ascii_unicode_def strip_of_def is_space_def
        max_comment_length_def)
  have c: "comment_inv sample_db" by (simp add: comment_inv_def sample_db_def db_empty_def)
  have m: "7 \<in> inc_id ` set (incidents sample_db)" by (simp add: sample_db_def sample_incident_def)
  have f: "load_operator_idempotency_record sample_db (op_operator_id sample_principal) ''k-1'' = None"
    "comments sample_db = []"
    by (simp_all add: load_operator_idempotency_record_def sample_db_def db_empty_def)
  from comment_answers [OF c sample_db_inv(2,3,1) n sample_key_ok, of 0 sample_principal 7 "''r''"] m f
  show ?thesis by auto
qed

text \<open>A retried comment is stored once. After a comment request under a fresh key has been
  answered, and whatever comment requests ran in between, the same request under the same key
  changes nothing and gets the recorded answer as a replay; a key that a status transition used
  is refused for a comment.\<close>

theorem comment_stored_once:
  assumes "comment_run d k rq = Inr (d1, oc)" "idem_lookup d k = None" "cq_hash rq' = cq_hash rq"
    and other: "transition_run d0 k0 tq = Inr (d2, oc0)" "idem_lookup d0 k0 = None"
  shows "(\<exists>oc'. comment_run (foldl comment_next d1 rqs) k rq' = Inr (foldl comment_next d1 rqs, oc')
      \<and> oc_http_status oc' = oc_http_status oc \<and> oc_body oc' = oc_body oc \<and> oc_replayed oc')
    \<and> comment_run d2 k0 rq' = Inr (d2, key_reused_outcome)"
proof -
  have eq: "comment_next = comment_op.next_state"
    by (intro ext) (simp add: comment_next_def comment_op.next_state_def atomically_def split: sum.splits)
  from transition_run_operation [OF other] obtain row where
    row: "idem_lookup d2 k0 = Some row" "id_operation row = idempotency_operation" by blast
  then have "\<not> comment_matches row rq'"
    by (simp add: comment_matches_def idempotency_operation_def comment_idempotency_operation_def)
  from comment_op.different_request_refused [OF row(1) this]
    comment_op.retry_after_anything [OF assms(1,2), of rq' rqs] assms(3)
  show ?thesis by (simp add: eq comment_matches_def)
qed

definition sample_comment :: comment_request where
  "sample_comment = \<lparr>cq_now = 0, cq_actor = sample_principal, cq_incident = 7, cq_body = ascii ''hi'',
     cq_hash = replicate 64 (CHR ''b''), cq_request_id = ''req-2''\<rparr>"

theorem comment_stored_once_witness:
  "\<exists>d1 oc oc'. comment_run sample_db (4, ''k-1'') sample_comment = Inr (d1, oc)
    \<and> comment_run d1 (4, ''k-1'') sample_comment = Inr (d1, oc') \<and> oc_replayed oc'"
proof -
  have c: "comment_inv sample_db" by (simp add: comment_inv_def sample_db_def db_empty_def)
  have "is_sha256_hex (replicate 64 (CHR ''b''))"
    by (simp add: is_sha256_hex_def is_lower_hex_def list_all_iff)
  then obtain d1 oc where a: "comment_run sample_db (4, ''k-1'') sample_comment = Inr (d1, oc)"
    unfolding comment_run_def
    using add_incident_comment_defined [OF c, of "cq_body sample_comment" "''k-1''" "cq_hash sample_comment"]
      sample_key_ok(1) by (fastforce simp: sample_comment_def ascii_def)
  from sample_applied obtain d2 oc2 where
    b: "transition_run sample_db (4, ''k-1'') (sample_request Resolved 1) = Inr (d2, oc2)" by blast
  from comment_stored_once [OF a sample_fresh refl b sample_fresh, of "[]"] a show ?thesis by auto
qed

end
