(* ===== verification/Outbox.thy ===== *)
theory Outbox
  imports Incident_Workflow
begin

text \<open>
  \<open>application/outbox.py\<close>: the notification envelope of a new incident and the atomic
  production of one outbox row per enabled destination whose severity threshold the incident
  reaches. The JSON form of the envelope is produced and read by pydantic, which is outside the
  repository: a \<open>codec\<close>, an argument of the definitions that use it. Field constraints of the
  envelope are concrete.
\<close>

section \<open>The envelope\<close>

record notification =
  nt_incident_id :: uuid
  nt_server_id :: uuid
  nt_rule_key :: string
  nt_rule_version :: int
  nt_severity :: severity
  nt_title :: ustring
  nt_title_en :: "ustring option"
  nt_created_at :: time

record codec =
  model_dump :: "notification \<Rightarrow> json"
  model_validate :: "json \<Rightarrow> notification option"

definition incident_created_notification :: string where
  "incident_created_notification = ''incident.created''"

fun notification_rank :: "severity \<Rightarrow> nat" where
  "notification_rank Low = 1"
| "notification_rank Medium = 2"
| "notification_rank High = 3"
| "notification_rank Critical = 4"

definition envelope_text_ok :: "ustring \<Rightarrow> nat \<Rightarrow> bool" where
  "envelope_text_ok s most \<longleftrightarrow> 1 \<le> length s \<and> length s \<le> most \<and> 0 \<notin> set s"

definition envelope_ok :: "notification \<Rightarrow> bool" where
  "envelope_ok n \<longleftrightarrow> envelope_text_ok (ascii (nt_rule_key n)) 100 \<and> 0 < nt_rule_version n
     \<and> envelope_text_ok (nt_title n) 255
     \<and> (case nt_title_en n of None \<Rightarrow> True | Some t \<Rightarrow> envelope_text_ok t 255)"

definition build_incident_created_payload :: "incident_row \<Rightarrow> notification result" where
  "build_incident_created_payload i =
     (let n = \<lparr>nt_incident_id = inc_id i, nt_server_id = inc_server_id i,
        nt_rule_key = inc_rule_key i, nt_rule_version = inc_rule_version i,
        nt_severity = inc_severity i, nt_title = inc_title i, nt_title_en = inc_title_en i,
        nt_created_at = inc_created_at i\<rparr>
      in bind_r (guard_r (envelope_ok n) (ValueError ''ValidationError'')) (\<lambda>_. Inr n))"

definition outbox_idempotency_key :: "uuid \<Rightarrow> uuid \<Rightarrow> string" where
  "outbox_idempotency_key incident_id destination_id =
     incident_created_notification @ '':'' @ uuid_str incident_id @ '':'' @ uuid_str destination_id"

section \<open>Production\<close>

definition outbox_entry ::
  "uuid \<Rightarrow> time \<Rightarrow> incident_row \<Rightarrow> json \<Rightarrow> int \<Rightarrow> destination_row \<Rightarrow> outbox_row" where
  "outbox_entry oid now i payload max_attempts destination = \<lparr>ob_id = oid,
     ob_notification_type = incident_created_notification, ob_incident_id = inc_id i,
     ob_destination_id = de_id destination, ob_payload_schema_version = 1, ob_payload = payload,
     ob_idempotency_key = outbox_idempotency_key (inc_id i) (de_id destination),
     ob_status = Pending, ob_attempt_count = 0, ob_max_attempts = max_attempts,
     ob_next_attempt_at = Some now, ob_claim_token = None, ob_claimed_at = None,
     ob_lease_expires_at = None, ob_delivered_at = None, ob_failed_at = None,
     ob_last_error_code = None, ob_last_error = None, ob_created_at = now, ob_updated_at = now\<rparr>"

definition insert_outbox :: "db \<Rightarrow> outbox_row \<Rightarrow> db result" where
  "insert_outbox d m =
     (if \<not> outbox_check m then Inl (IntegrityError ''outbox_messages check'')
      else if \<exists>o1 \<in> set (outbox d). ob_id o1 = ob_id m
          \<or> (ob_notification_type o1, ob_incident_id o1, ob_destination_id o1)
            = (ob_notification_type m, ob_incident_id m, ob_destination_id m)
          \<or> ob_idempotency_key o1 = ob_idempotency_key m
        then Inl (IntegrityError ''uq_outbox_messages'')
      else Inr (d\<lparr>outbox := outbox d @ [m]\<rparr>))"

fun add_outbox_rows ::
  "db \<Rightarrow> time \<Rightarrow> incident_row \<Rightarrow> json \<Rightarrow> int \<Rightarrow> destination_row list \<Rightarrow> db result" where
  "add_outbox_rows d now i payload max_attempts [] = Inr d"
| "add_outbox_rows d now i payload max_attempts (t # ts) =
     (let (oid, d1) = uuid4 d in
      bind_r (insert_outbox d1 (outbox_entry oid now i payload max_attempts t)) (\<lambda>d2.
        add_outbox_rows d2 now i payload max_attempts ts))"

definition eligible_destinations :: "db \<Rightarrow> incident_row \<Rightarrow> destination_row list" where
  "eligible_destinations d i =
     filter (\<lambda>t. notification_rank (de_minimum_severity t) \<le> notification_rank (inc_severity i))
       (sort_key de_id (filter de_enabled (destinations d)))"

definition enqueue_incident_created_notifications ::
  "codec \<Rightarrow> db \<Rightarrow> time \<Rightarrow> incident_row \<Rightarrow> int \<Rightarrow> (db \<times> nat) result" where
  "enqueue_incident_created_notifications k d now i max_attempts =
     bind_r (guard_r (1 \<le> max_attempts \<and> max_attempts \<le> 20)
       (ValueError ''outbox max attempts must be between 1 and 20'')) (\<lambda>_.
     let eligible = eligible_destinations d i in
     if eligible = [] then Inr (d, 0)
     else bind_r (build_incident_created_payload i) (\<lambda>n.
       bind_r (add_outbox_rows d now i (model_dump k n) max_attempts eligible) (\<lambda>d'.
       Inr (d', length eligible))))"

section \<open>The invariant of the queue\<close>

text \<open>
  Every row satisfies the CHECK constraints and carries the key of its incident and destination;
  keys, identifiers and the pairs of incident and destination are unique; lease tokens in use have
  been handed out and no two rows share one; a message that left the pending state was attempted.
\<close>

definition tokens_apart :: "outbox_row list \<Rightarrow> bool" where
  "tokens_apart ms \<longleftrightarrow> (\<forall>m \<in> set ms. \<forall>m' \<in> set ms. \<forall>t.
     ob_claim_token m = Some t \<longrightarrow> ob_claim_token m' = Some t \<longrightarrow> ob_id m = ob_id m')"

lemma tokens_apart_snoc:
  "tokens_apart ms \<Longrightarrow> ob_claim_token m = None \<Longrightarrow> tokens_apart (ms @ [m])"
  unfolding tokens_apart_def set_append
proof (intro ballI allI impI)
  fix x y t
  assume apart: "\<forall>m \<in> set ms. \<forall>m' \<in> set ms. \<forall>t. ob_claim_token m = Some t \<longrightarrow>
      ob_claim_token m' = Some t \<longrightarrow> ob_id m = ob_id m'"
    and none: "ob_claim_token m = None"
    and mem: "x \<in> set ms \<union> set [m]" "y \<in> set ms \<union> set [m]"
    and tok: "ob_claim_token x = Some t" "ob_claim_token y = Some t"
  from mem none tok have "x \<in> set ms" "y \<in> set ms" by auto
  with apart tok show "ob_id x = ob_id y" by blast
qed

definition outbox_inv :: "db \<Rightarrow> bool" where
  "outbox_inv d \<longleftrightarrow> outbox_unique (outbox d)
     \<and> (\<forall>m \<in> set (outbox d). outbox_check m \<and> ob_id m < next_uuid d
          \<and> ob_idempotency_key m = outbox_idempotency_key (ob_incident_id m) (ob_destination_id m)
          \<and> (\<forall>t \<in> set_option (ob_claim_token m). t < next_uuid d)
          \<and> (ob_status m \<noteq> Pending \<longrightarrow> 1 \<le> ob_attempt_count m))
     \<and> tokens_apart (outbox d)"

lemma outbox_inv_cong:
  "outbox_inv d \<Longrightarrow> outbox d' = outbox d \<Longrightarrow> next_uuid d \<le> next_uuid d' \<Longrightarrow> outbox_inv d'"
  by (auto simp: outbox_inv_def intro: less_le_trans)

lemma outbox_key_format_key: "outbox_key_format (outbox_idempotency_key a b)"
proof -
  have len: "length (uuid_str a) = 36" "length (uuid_str b) = 36"
    using uuid_str_canonical [of a] uuid_str_canonical [of b] by (simp_all add: canonical_uuid_text_def)
  show ?thesis
    by (simp add: outbox_key_format_def outbox_idempotency_key_def incident_created_notification_def
        len take_Cons' drop_Cons')
qed

lemma outbox_idempotency_key_inj:
  assumes "outbox_idempotency_key a b = outbox_idempotency_key a' b'"
    "a < 2 ^ 128" "b < 2 ^ 128" "a' < 2 ^ 128" "b' < 2 ^ 128"
  shows "a = a' \<and> b = b'"
proof -
  from assms(1) have "uuid_str a @ '':'' @ uuid_str b = uuid_str a' @ '':'' @ uuid_str b'"
    by (simp add: outbox_idempotency_key_def)
  then have "uuid_str a = uuid_str a'" "uuid_str b = uuid_str b'" by (simp_all add: append_eq_append_conv)
  with assms(2-5) show ?thesis by (blast intro: uuid_str_inj)
qed

lemma outbox_entry_check:
  assumes "1 \<le> max_attempts" "max_attempts \<le> 20" "payload = JObj kvs"
  shows "outbox_check (outbox_entry oid now i payload max_attempts t)"
  using assms by (simp add: outbox_check_def outbox_entry_def outbox_state_shape_def
      outbox_key_format_key incident_created_notification_def)

lemma outbox_entry_simps [simp]:
  "ob_id (outbox_entry oid now i p n t) = oid"
  "ob_incident_id (outbox_entry oid now i p n t) = inc_id i"
  "ob_destination_id (outbox_entry oid now i p n t) = de_id t"
  "ob_notification_type (outbox_entry oid now i p n t) = incident_created_notification"
  "ob_idempotency_key (outbox_entry oid now i p n t) = outbox_idempotency_key (inc_id i) (de_id t)"
  "ob_claim_token (outbox_entry oid now i p n t) = None"
  "ob_status (outbox_entry oid now i p n t) = Pending"
  by (simp_all add: outbox_entry_def)

text \<open>The rows a run of insertions appends.\<close>

fun outbox_entries ::
  "uuid \<Rightarrow> time \<Rightarrow> incident_row \<Rightarrow> json \<Rightarrow> int \<Rightarrow> destination_row list \<Rightarrow> outbox_row list" where
  "outbox_entries n now i payload max_attempts [] = []"
| "outbox_entries n now i payload max_attempts (t # ts) =
     outbox_entry n now i payload max_attempts t # outbox_entries (Suc n) now i payload max_attempts ts"

definition with_outbox :: "db \<Rightarrow> outbox_row list \<Rightarrow> db" where
  "with_outbox d ms = d\<lparr>outbox := outbox d @ ms, next_uuid := next_uuid d + length ms\<rparr>"

lemma with_outbox_simps [simp]:
  "outbox (with_outbox d ms) = outbox d @ ms" "next_uuid (with_outbox d ms) = next_uuid d + length ms"
  "incidents (with_outbox d ms) = incidents d" "history (with_outbox d ms) = history d"
  "audit_log (with_outbox d ms) = audit_log d" "idempotency (with_outbox d ms) = idempotency d"
  "comments (with_outbox d ms) = comments d" "destinations (with_outbox d ms) = destinations d"
  "events (with_outbox d ms) = events d" "incident_events (with_outbox d ms) = incident_events d"
  "rule_versions (with_outbox d ms) = rule_versions d"
  by (simp_all add: with_outbox_def)

lemma with_outbox_append: "with_outbox (with_outbox d xs) ys = with_outbox d (xs @ ys)"
  by (simp add: with_outbox_def)

lemma length_outbox_entries [simp]: "length (outbox_entries n now i p k ts) = length ts"
  by (induction ts arbitrary: n) simp_all

lemma add_outbox_rows_Inr:
  "add_outbox_rows d now i p k ts = Inr d' \<Longrightarrow> d' = with_outbox d (outbox_entries (next_uuid d) now i p k ts)"
proof (induction ts arbitrary: d)
  case Nil
  then show ?case by (simp add: with_outbox_def)
next
  case (Cons t ts)
  then obtain d2 where step: "insert_outbox (d\<lparr>next_uuid := Suc (next_uuid d)\<rparr>) (outbox_entry (next_uuid d) now i p k t) = Inr d2"
    "add_outbox_rows d2 now i p k ts = Inr d'"
    by (auto simp: uuid4_def Let_def bind_r_eq_Inr)
  then have "d2 = with_outbox d [outbox_entry (next_uuid d) now i p k t]"
    by (auto simp: insert_outbox_def with_outbox_def split: if_splits)
  with Cons.IH [OF step(2)] show ?case by (simp add: with_outbox_append)
qed

lemma insert_outbox_inv:
  assumes "outbox_inv d" "insert_outbox (d\<lparr>next_uuid := Suc (next_uuid d)\<rparr>) m = Inr d'"
    and "ob_id m = next_uuid d" "ob_claim_token m = None" "ob_status m = Pending"
    and "ob_idempotency_key m = outbox_idempotency_key (ob_incident_id m) (ob_destination_id m)"
  shows "outbox_inv d'"
proof -
  let ?d = "d\<lparr>next_uuid := Suc (next_uuid d)\<rparr>"
  from assms(2) have d': "d' = ?d\<lparr>outbox := outbox d @ [m]\<rparr>" and chk: "outbox_check m"
    and fresh: "\<forall>o1 \<in> set (outbox d). ob_id o1 \<noteq> ob_id m \<and> ob_idempotency_key o1 \<noteq> ob_idempotency_key m
      \<and> (ob_notification_type o1, ob_incident_id o1, ob_destination_id o1)
          \<noteq> (ob_notification_type m, ob_incident_id m, ob_destination_id m)"
    by (auto simp: insert_outbox_def split: if_splits)
  have uniq: "outbox_unique (outbox d @ [m])"
    using assms(1) fresh by (auto simp: outbox_inv_def outbox_unique_def)
  have "outbox_inv ?d" using assms(1) by (rule outbox_inv_cong) simp_all
  moreover have "tokens_apart (outbox d @ [m])"
    using assms(1,4) by (intro tokens_apart_snoc) (simp_all add: outbox_inv_def)
  ultimately show ?thesis using d' chk uniq assms(3-6) by (auto simp: outbox_inv_def)
qed

lemma add_outbox_rows_inv:
  "outbox_inv d \<Longrightarrow> add_outbox_rows d now i p k ts = Inr d' \<Longrightarrow> outbox_inv d'"
proof (induction ts arbitrary: d)
  case (Cons t ts)
  then obtain d2 where step: "insert_outbox (d\<lparr>next_uuid := Suc (next_uuid d)\<rparr>) (outbox_entry (next_uuid d) now i p k t) = Inr d2"
    "add_outbox_rows d2 now i p k ts = Inr d'"
    by (auto simp: uuid4_def Let_def bind_r_eq_Inr)
  from insert_outbox_inv [OF Cons.prems(1) step(1)] have "outbox_inv d2" by simp
  from Cons.IH [OF this step(2)] show ?case .
qed simp

lemma add_outbox_rows_defined:
  assumes "outbox_inv d" "p = JObj kvs" "1 \<le> k" "k \<le> 20"
    and "inc_id i < 2 ^ 128" "\<forall>t \<in> set ts. de_id t < 2 ^ 128" "distinct (map de_id ts)"
    and "\<forall>m \<in> set (outbox d). ob_incident_id m < 2 ^ 128 \<and> ob_destination_id m < 2 ^ 128
      \<and> (ob_incident_id m = inc_id i \<longrightarrow> ob_destination_id m \<notin> de_id ` set ts)"
  shows "\<exists>d'. add_outbox_rows d now i p k ts = Inr d'"
  using assms
proof (induction ts arbitrary: d)
  case (Cons t ts)
  let ?m = "outbox_entry (next_uuid d) now i p k t"
  let ?d2 = "d\<lparr>outbox := outbox d @ [?m], next_uuid := Suc (next_uuid d)\<rparr>"
  have "outbox_check ?m" using Cons.prems(2-4) by (rule outbox_entry_check [rotated 2])
  moreover have "ob_id o1 \<noteq> next_uuid d
      \<and> (ob_incident_id o1 = inc_id i \<longrightarrow> ob_destination_id o1 \<noteq> de_id t)
      \<and> ob_idempotency_key o1 \<noteq> outbox_idempotency_key (inc_id i) (de_id t)"
    if o1: "o1 \<in> set (outbox d)" for o1
  proof -
    have "ob_id o1 < next_uuid d"
      "ob_idempotency_key o1 = outbox_idempotency_key (ob_incident_id o1) (ob_destination_id o1)"
      using Cons.prems(1) o1 by (auto simp: outbox_inv_def)
    moreover have pair: "ob_incident_id o1 = inc_id i \<longrightarrow> ob_destination_id o1 \<noteq> de_id t"
      "ob_incident_id o1 < 2 ^ 128" "ob_destination_id o1 < 2 ^ 128"
      using Cons.prems(8) o1 by auto
    moreover have "inc_id i < 2 ^ 128" "de_id t < 2 ^ 128" using Cons.prems(5,6) by simp_all
    ultimately show ?thesis
      by (auto dest!: outbox_idempotency_key_inj simp del: One_nat_def power_numeral)
  qed
  ultimately have ins: "insert_outbox (d\<lparr>next_uuid := Suc (next_uuid d)\<rparr>) ?m = Inr ?d2"
    by (auto simp: insert_outbox_def)
  from insert_outbox_inv [OF Cons.prems(1) this] have inv: "outbox_inv ?d2" by simp
  have "\<exists>d'. add_outbox_rows ?d2 now i p k ts = Inr d'"
  proof (rule Cons.IH [OF inv Cons.prems(2-5)])
    show "\<forall>t \<in> set ts. de_id t < 2 ^ 128" "distinct (map de_id ts)" using Cons.prems(6,7) by simp_all
    show "\<forall>m \<in> set (outbox ?d2). ob_incident_id m < 2 ^ 128 \<and> ob_destination_id m < 2 ^ 128
        \<and> (ob_incident_id m = inc_id i \<longrightarrow> ob_destination_id m \<notin> de_id ` set ts)"
      using Cons.prems(5-8) by auto
  qed
  with ins show ?case by (simp add: uuid4_def Let_def)
qed simp

lemma enqueue_Inr:
  assumes "enqueue_incident_created_notifications k d now i n = Inr (d', c)"
  shows "\<exists>p. d' = with_outbox d (outbox_entries (next_uuid d) now i p n (eligible_destinations d i))"
    "c = length (eligible_destinations d i)"
    "outbox_inv d \<Longrightarrow> outbox_inv d'"
proof -
  consider "eligible_destinations d i = []" "d' = d" "c = 0"
    | p where "add_outbox_rows d now i p n (eligible_destinations d i) = Inr d'"
        "c = length (eligible_destinations d i)"
    using assms by (auto simp: enqueue_incident_created_notifications_def bind_r_eq_Inr Let_def split: if_splits)
  then show "\<exists>p. d' = with_outbox d (outbox_entries (next_uuid d) now i p n (eligible_destinations d i))"
    "c = length (eligible_destinations d i)" "outbox_inv d \<Longrightarrow> outbox_inv d'"
    by (cases, auto simp: with_outbox_def [of d "[]"] dest: add_outbox_rows_Inr add_outbox_rows_inv)+
qed

lemma outbox_entries_map:
  "map ob_destination_id (outbox_entries n now i p k ts) = map de_id ts"
  "\<forall>m \<in> set (outbox_entries n now i p k ts). ob_status m = Pending \<and> ob_attempt_count m = 0
     \<and> ob_max_attempts m = k \<and> ob_payload m = p \<and> ob_incident_id m = inc_id i"
  by (induction ts arbitrary: n) (auto simp: outbox_entry_def)

section \<open>Properties\<close>

text \<open>C23: Production of notifications. For a valid incident that has no message yet, the call
  succeeds and appends exactly one pending, unattempted message with the incident's envelope for
  every enabled destination whose minimum severity does not exceed the incident's, in the order of
  destination identifiers, and for no other; the queue's constraints all hold afterwards. An
  attempt limit outside 1 to 20 is refused before anything is written.\<close>

theorem enqueue_one_per_eligible_destination:
  assumes inv: "outbox_inv d" and env: "build_incident_created_payload i = Inr n"
    and dump: "model_dump k n = JObj kvs"
    and new: "\<forall>m \<in> set (outbox d). ob_incident_id m \<noteq> inc_id i \<and> ob_incident_id m < 2 ^ 128
      \<and> ob_destination_id m < 2 ^ 128"
    and ids: "inc_id i < 2 ^ 128" "\<forall>t \<in> set (destinations d). de_id t < 2 ^ 128"
      "distinct (map de_id (destinations d))"
  shows "if 1 \<le> max_attempts \<and> max_attempts \<le> 20
    then \<exists>d' ms. enqueue_incident_created_notifications k d now i max_attempts = Inr (d', length ms)
      \<and> outbox d' = outbox d @ ms \<and> outbox_inv d'
      \<and> sorted (map ob_destination_id ms) \<and> distinct (map ob_destination_id ms)
      \<and> set (map ob_destination_id ms) = de_id ` {t \<in> set (destinations d). de_enabled t
           \<and> notification_rank (de_minimum_severity t) \<le> notification_rank (inc_severity i)}
      \<and> (\<forall>m \<in> set ms. ob_status m = Pending \<and> ob_attempt_count m = 0
           \<and> ob_max_attempts m = max_attempts \<and> ob_payload m = JObj kvs \<and> ob_incident_id m = inc_id i)
    else enqueue_incident_created_notifications k d now i max_attempts
      = Inl (ValueError ''outbox max attempts must be between 1 and 20'')"
proof (cases "1 \<le> max_attempts \<and> max_attempts \<le> 20")
  case True
  let ?E = "eligible_destinations d i"
  have E: "set ?E = {t \<in> set (destinations d). de_enabled t
      \<and> notification_rank (de_minimum_severity t) \<le> notification_rank (inc_severity i)}"
    by (auto simp: eligible_destinations_def)
  have srt: "sorted (map de_id ?E)"
    unfolding eligible_destinations_def by (intro sorted_filter) simp
  have "distinct (map de_id (filter de_enabled (destinations d)))" using ids(3) by (rule distinct_map_filter)
  then have "distinct (map de_id (sort_key de_id (filter de_enabled (destinations d))))"
    by (simp add: distinct_map)
  then have dst: "distinct (map de_id ?E)"
    unfolding eligible_destinations_def by (rule distinct_map_filter)
  obtain d' where add: "add_outbox_rows d now i (JObj kvs) max_attempts ?E = Inr d'"
    using add_outbox_rows_defined [OF inv refl, of max_attempts i ?E now kvs] True ids new dst E by fastforce
  let ?ms = "outbox_entries (next_uuid d) now i (JObj kvs) max_attempts ?E"
  have "enqueue_incident_created_notifications k d now i max_attempts = Inr (d', length ?ms)"
    using True add env dump
    by (auto simp: enqueue_incident_created_notifications_def Let_def)
  moreover have "outbox d' = outbox d @ ?ms" using add_outbox_rows_Inr [OF add] by simp
  moreover have "outbox_inv d'" using inv add by (rule add_outbox_rows_inv)
  moreover note outbox_entries_map [of "next_uuid d" now i "JObj kvs" max_attempts ?E]
  ultimately have "enqueue_incident_created_notifications k d now i max_attempts = Inr (d', length ?ms)
      \<and> outbox d' = outbox d @ ?ms \<and> outbox_inv d'
      \<and> sorted (map ob_destination_id ?ms) \<and> distinct (map ob_destination_id ?ms)
      \<and> set (map ob_destination_id ?ms) = de_id ` {t \<in> set (destinations d). de_enabled t
           \<and> notification_rank (de_minimum_severity t) \<le> notification_rank (inc_severity i)}
      \<and> (\<forall>m \<in> set ?ms. ob_status m = Pending \<and> ob_attempt_count m = 0
           \<and> ob_max_attempts m = max_attempts \<and> ob_payload m = JObj kvs \<and> ob_incident_id m = inc_id i)"
    using srt dst E by (simp only: set_map)
  then show ?thesis unfolding if_P [OF True] by (intro exI [of _ d'] exI [of _ ?ms])
qed (auto simp: enqueue_incident_created_notifications_def)

definition sample_destination :: "uuid \<Rightarrow> bool \<Rightarrow> severity \<Rightarrow> destination_row" where
  "sample_destination n enabled s = \<lparr>de_id = n, de_adapter_kind = ''telegram'', de_enabled = enabled,
     de_minimum_severity = s, de_created_at = 0, de_updated_at = 0\<rparr>"

definition sample_notify_db :: db where
  "sample_notify_db = sample_db\<lparr>destinations := [sample_destination 12 True High,
     sample_destination 11 True Low, sample_destination 13 False Low, sample_destination 14 True Critical]\<rparr>"

definition sample_codec :: codec where
  "sample_codec = \<lparr>model_dump = (\<lambda>n. JObj [(''title'', JStr (utf8 (nt_title n)))]), model_validate = (\<lambda>_. None)\<rparr>"

theorem enqueue_one_per_eligible_destination_witness:
  "\<exists>d' ms. enqueue_incident_created_notifications sample_codec sample_notify_db 0 sample_incident 5
      = Inr (d', length ms)
    \<and> outbox d' = ms \<and> set (map ob_destination_id ms) = {11, 12} \<and> outbox_inv d'"
proof -
  have inv: "outbox_inv sample_notify_db" "outbox sample_notify_db = []"
    by (simp_all add: outbox_inv_def outbox_unique_def tokens_apart_def sample_notify_db_def sample_db_def db_empty_def)
  define n where "n = \<lparr>nt_incident_id = inc_id sample_incident, nt_server_id = inc_server_id sample_incident,
        nt_rule_key = inc_rule_key sample_incident, nt_rule_version = inc_rule_version sample_incident,
        nt_severity = inc_severity sample_incident, nt_title = inc_title sample_incident,
        nt_title_en = inc_title_en sample_incident, nt_created_at = inc_created_at sample_incident\<rparr>"
  have env: "build_incident_created_payload sample_incident = Inr n"
    by (simp add: build_incident_created_payload_def n_def envelope_ok_def envelope_text_ok_def
        ascii_def sample_incident_def)
  have dump: "model_dump sample_codec n = JObj [(''title'', JStr (utf8 (nt_title n)))]"
    by (simp add: sample_codec_def)
  have ids: "inc_id sample_incident < 2 ^ 128"
    "\<forall>t \<in> set (destinations sample_notify_db). de_id t < 2 ^ 128"
    "distinct (map de_id (destinations sample_notify_db))"
    by (simp_all add: sample_incident_def sample_notify_db_def sample_destination_def)
  have "{t \<in> set (destinations sample_notify_db). de_enabled t
      \<and> notification_rank (de_minimum_severity t) \<le> notification_rank (inc_severity sample_incident)}
    = set (filter (\<lambda>t. de_enabled t
        \<and> notification_rank (de_minimum_severity t) \<le> notification_rank (inc_severity sample_incident))
        (destinations sample_notify_db))"
    by (simp only: set_filter)
  then have elig: "de_id ` {t \<in> set (destinations sample_notify_db). de_enabled t
      \<and> notification_rank (de_minimum_severity t) \<le> notification_rank (inc_severity sample_incident)} = {11, 12}"
    by (simp add: sample_notify_db_def sample_destination_def sample_incident_def insert_commute)
  from enqueue_one_per_eligible_destination [OF inv(1) env dump _ ids, of 5 0] inv(2)
  show ?thesis unfolding elig by auto
qed

end
