(* ===== verification/Outbox_Worker.thy ===== *)
theory Outbox_Worker
  imports Outbox
begin

text \<open>
  \<open>application/outbox_worker.py\<close>: claiming a due message under a lease, completing a claim
  (acknowledge, reschedule, fail), recovering expired leases, the confirmed requeue of a failed
  message, queue statistics, the jittered backoff, and the worker that runs one message at a time.
  Delivery adapters, provider configuration loaders, the clock and the random source are outside
  the repository: arguments. Rows other transactions hold locked are the argument \<open>locked\<close>
  of a claim (\<open>FOR UPDATE SKIP LOCKED\<close>).
\<close>

section \<open>Adapter results\<close>

datatype disposition = Result_Delivered | Result_Retryable | Result_Permanent

text \<open>A Python value where a number of seconds is expected.\<close>

datatype py_number = Finite rat | Non_Finite | Py_Bool bool | Not_A_Number

record delivery_result =
  dr_disposition :: disposition
  dr_error_code :: "outbox_error option"
  dr_retry_after :: "py_number option"

definition delivery_retryable_codes :: "outbox_error list" where
  "delivery_retryable_codes = [Retryable_Delivery_Error, Telegram_Protocol_Error,
     Telegram_Runtime_Copy_Invalid, Telegram_Runtime_Copy_Unavailable,
     Telegram_Staging_File_Invalid, Telegram_Staging_File_Missing]"

definition delivery_permanent_codes :: "outbox_error list" where
  "delivery_permanent_codes = [Permanent_Delivery_Error, Destination_Unconfigured, Payload_Invalid]"

definition code_in :: "outbox_error option \<Rightarrow> outbox_error list \<Rightarrow> bool" where
  "code_in c cs = (case c of None \<Rightarrow> False | Some e \<Rightarrow> e \<in> set cs)"

definition make_delivery_result ::
  "disposition \<Rightarrow> outbox_error option \<Rightarrow> py_number option \<Rightarrow> delivery_result result" where
  "make_delivery_result disp code hint =
     bind_r (case disp of
         Result_Delivered \<Rightarrow> guard_r (code = None \<and> hint = None)
           (ValueError ''successful delivery result contains failure fields'')
       | Result_Retryable \<Rightarrow>
           bind_r (guard_r (code_in code delivery_retryable_codes)
             (ValueError ''retryable delivery result has an unsupported error code'')) (\<lambda>_.
           guard_r (case hint of None \<Rightarrow> True | Some (Finite q) \<Rightarrow> 0 \<le> q | _ \<Rightarrow> False)
             (ValueError ''retryable delivery result has an invalid retry hint''))
       | Result_Permanent \<Rightarrow>
           bind_r (guard_r (code_in code delivery_permanent_codes)
             (ValueError ''permanent delivery result has an unsupported error code'')) (\<lambda>_.
           guard_r (hint = None) (ValueError ''permanent delivery result contains a retry hint'')))
     (\<lambda>_. Inr \<lparr>dr_disposition = disp, dr_error_code = code, dr_retry_after = hint\<rparr>)"

text \<open>How a call of an adapter can end.\<close>

datatype adapter_outcome =
    Returned delivery_result
  | Returned_Other
  | Raised_Retryable "py_number option"
  | Raised_Exception

section \<open>Backoff\<close>

record backoff =
  bo_base :: rat
  bo_maximum :: rat
  bo_retry_after_cap :: rat

definition make_backoff :: "rat \<Rightarrow> rat \<Rightarrow> rat \<Rightarrow> backoff result" where
  "make_backoff base maximum cap =
     bind_r (guard_r (\<not> (base \<le> 0 \<or> maximum < base)) (ValueError ''outbox backoff bounds are invalid'')) (\<lambda>_.
     bind_r (guard_r (\<not> cap < 0) (ValueError ''outbox retry-after cap is invalid'')) (\<lambda>_.
     Inr \<lparr>bo_base = base, bo_maximum = maximum, bo_retry_after_cap = cap\<rparr>))"

definition backoff_delay :: "backoff \<Rightarrow> rat \<Rightarrow> int \<Rightarrow> py_number option \<Rightarrow> rat" where
  "backoff_delay b rnd attempt_count retry_after =
     (let exponent = nat (max 0 (min (attempt_count - 1) 30));
          cap = min (bo_maximum b) (bo_base b * 2 ^ exponent);
          delay = cap / 2 + rnd * cap / 2
      in case retry_after of
           Some (Finite hint) \<Rightarrow> max delay (max 0 (min hint (bo_retry_after_cap b)))
         | _ \<Rightarrow> delay)"

section \<open>Claims\<close>

fun error_message :: "outbox_error \<Rightarrow> string" where
  "error_message Adapter_Unexpected_Error = ''Delivery adapter failed unexpectedly.''"
| "error_message Attempts_Exhausted = ''Delivery attempt limit was exhausted.''"
| "error_message Destination_Disabled = ''Notification destination is disabled.''"
| "error_message Destination_Unconfigured = ''Notification destination is not configured.''"
| "error_message Lease_Expired = ''Delivery claim lease expired.''"
| "error_message Payload_Invalid = ''Notification payload is invalid.''"
| "error_message Permanent_Delivery_Error = ''Delivery was rejected permanently.''"
| "error_message Retryable_Delivery_Error = ''Delivery failed temporarily.''"
| "error_message Telegram_Protocol_Error = ''Telegram response was not valid.''"
| "error_message Telegram_Runtime_Copy_Invalid = ''Telegram runtime token copy is invalid.''"
| "error_message Telegram_Runtime_Copy_Unavailable = ''Telegram runtime token copy is unavailable.''"
| "error_message Telegram_Staging_File_Invalid = ''Telegram staging token file is invalid.''"
| "error_message Telegram_Staging_File_Missing = ''Telegram staging token file is missing.''"

record claimed =
  cl_outbox_id :: uuid
  cl_incident_id :: uuid
  cl_destination_id :: uuid
  cl_adapter_kind :: string
  cl_notification_type :: string
  cl_payload :: notification
  cl_attempt_count :: int
  cl_claim_token :: uuid
  cl_provider_configuration :: "string option"

record delivery_request =
  rd_outbox_id :: uuid
  rd_incident_id :: uuid
  rd_destination_id :: uuid
  rd_adapter_kind :: string
  rd_notification_type :: string
  rd_payload :: notification
  rd_attempt_count :: int
  rd_provider_configuration :: "string option"

definition delivery_request_of :: "claimed \<Rightarrow> delivery_request" where
  "delivery_request_of c = \<lparr>rd_outbox_id = cl_outbox_id c, rd_incident_id = cl_incident_id c,
     rd_destination_id = cl_destination_id c, rd_adapter_kind = cl_adapter_kind c,
     rd_notification_type = cl_notification_type c, rd_payload = cl_payload c,
     rd_attempt_count = cl_attempt_count c, rd_provider_configuration = cl_provider_configuration c\<rparr>"

record claim_result =
  cr_processed :: bool
  cr_message :: "claimed option"

type_synonym loaders = "string \<Rightarrow> (uuid \<Rightarrow> string option) option"

text \<open>An \<open>UPDATE\<close> of the table, refused when an updated row breaks a CHECK constraint.\<close>

definition update_outbox :: "db \<Rightarrow> (outbox_row \<Rightarrow> bool) \<Rightarrow> (outbox_row \<Rightarrow> outbox_row) \<Rightarrow> db result" where
  "update_outbox d P f =
     (if \<exists>m \<in> set (outbox d). P m \<and> \<not> outbox_check (f m)
      then Inl (IntegrityError ''outbox_messages check'')
      else Inr (d\<lparr>outbox := update_where P f (outbox d)\<rparr>))"

definition claimable :: "db \<Rightarrow> time \<Rightarrow> (uuid \<Rightarrow> bool) \<Rightarrow> outbox_row \<Rightarrow> bool" where
  "claimable d now locked m \<longleftrightarrow> ob_status m = Pending
     \<and> (case ob_next_attempt_at m of None \<Rightarrow> False | Some t \<Rightarrow> t \<le> now)
     \<and> ob_attempt_count m < ob_max_attempts m
     \<and> find_row de_id (ob_destination_id m) (destinations d) \<noteq> None \<and> \<not> locked (ob_id m)"

definition due_order :: "outbox_row \<Rightarrow> time \<times> time \<times> uuid" where
  "due_order m = (the (ob_next_attempt_at m), ob_created_at m, ob_id m)"

definition claim_row :: "uuid \<Rightarrow> time \<Rightarrow> time \<Rightarrow> rat \<Rightarrow> outbox_row \<Rightarrow> outbox_row" where
  "claim_row token now wall lease_seconds m = m\<lparr>ob_status := Processing,
     ob_attempt_count := ob_attempt_count m + 1, ob_next_attempt_at := None,
     ob_claim_token := Some token, ob_claimed_at := Some now,
     ob_lease_expires_at := Some (now + seconds lease_seconds), ob_updated_at := wall\<rparr>"

definition fail_row :: "time \<Rightarrow> outbox_error \<Rightarrow> outbox_row \<Rightarrow> outbox_row" where
  "fail_row now code m = m\<lparr>ob_status := Failed, ob_claim_token := None, ob_claimed_at := None,
     ob_lease_expires_at := None, ob_next_attempt_at := None, ob_failed_at := Some now,
     ob_last_error_code := Some code, ob_last_error := Some (error_message code), ob_updated_at := now\<rparr>"

definition is_message :: "uuid \<Rightarrow> outbox_row \<Rightarrow> bool" where
  "is_message oid m \<longleftrightarrow> ob_id m = oid"

text \<open>\<open>_fail_claimed_orm\<close>, on the row the claim has just flushed.\<close>

definition fail_claimed :: "db \<Rightarrow> uuid \<Rightarrow> time \<Rightarrow> outbox_error \<Rightarrow> (db \<times> claim_result) result" where
  "fail_claimed d oid now code =
     bind_r (update_outbox d (is_message oid) (fail_row now code)) (\<lambda>d'.
       Inr (d', \<lparr>cr_processed = True, cr_message = None\<rparr>))"

definition claimed_message ::
  "outbox_row \<Rightarrow> destination_row \<Rightarrow> notification \<Rightarrow> uuid \<Rightarrow> string option \<Rightarrow> claimed" where
  "claimed_message m destination payload token config = \<lparr>cl_outbox_id = ob_id m,
     cl_incident_id = ob_incident_id m, cl_destination_id = ob_destination_id m,
     cl_adapter_kind = de_adapter_kind destination, cl_notification_type = ob_notification_type m,
     cl_payload = payload, cl_attempt_count = ob_attempt_count m + 1, cl_claim_token = token,
     cl_provider_configuration = config\<rparr>"

text \<open>What follows the flush of the claim: the refusals, or the detached message.\<close>

definition admit_claim ::
  "codec \<Rightarrow> db \<Rightarrow> time \<Rightarrow> loaders \<Rightarrow> outbox_row \<Rightarrow> destination_row \<Rightarrow> uuid \<Rightarrow> (db \<times> claim_result) result" where
  "admit_claim k d now loaders m destination token =
     (if \<not> de_enabled destination then fail_claimed d (ob_id m) now Destination_Disabled
      else case model_validate k (ob_payload m) of
        None \<Rightarrow> fail_claimed d (ob_id m) now Payload_Invalid
      | Some payload \<Rightarrow>
        (case loaders (de_adapter_kind destination) of
           None \<Rightarrow> Inr (d, \<lparr>cr_processed = True,
             cr_message = Some (claimed_message m destination payload token None)\<rparr>)
         | Some load \<Rightarrow>
           (case load (de_id destination) of
              None \<Rightarrow> fail_claimed d (ob_id m) now Destination_Unconfigured
            | Some config \<Rightarrow> Inr (d, \<lparr>cr_processed = True,
                cr_message = Some (claimed_message m destination payload token (Some config))\<rparr>))))"

definition claim_next_message ::
  "codec \<Rightarrow> db \<Rightarrow> time \<Rightarrow> time \<Rightarrow> rat \<Rightarrow> loaders \<Rightarrow> (uuid \<Rightarrow> bool) \<Rightarrow> (db \<times> claim_result) result" where
  "claim_next_message k d now wall lease_seconds loaders locked =
     (case sort_key due_order (filter (claimable d now locked) (outbox d)) of
        [] \<Rightarrow> Inr (d, \<lparr>cr_processed = False, cr_message = None\<rparr>)
      | m # _ \<Rightarrow>
        (case find_row de_id (ob_destination_id m) (destinations d) of
           None \<Rightarrow> Inr (d, \<lparr>cr_processed = False, cr_message = None\<rparr>)
         | Some destination \<Rightarrow>
           let (token, d1) = uuid4 d in
           bind_r (update_outbox d1 (is_message (ob_id m)) (claim_row token now wall lease_seconds)) (\<lambda>d2.
             admit_claim k d2 now loaders m destination token)))"

section \<open>Completing a claim\<close>

definition owned :: "uuid \<Rightarrow> uuid \<Rightarrow> outbox_row \<Rightarrow> bool" where
  "owned oid token m \<longleftrightarrow> ob_id m = oid \<and> ob_status m = Processing \<and> ob_claim_token m = Some token"

definition lease_lost :: exn where
  "lease_lost = LeaseLostError ''outbox claim is no longer owned''"

definition deliver_row :: "time \<Rightarrow> outbox_row \<Rightarrow> outbox_row" where
  "deliver_row now m = m\<lparr>ob_status := Delivered, ob_claim_token := None, ob_claimed_at := None,
     ob_lease_expires_at := None, ob_next_attempt_at := None, ob_delivered_at := Some now,
     ob_failed_at := None, ob_last_error_code := None, ob_last_error := None, ob_updated_at := now\<rparr>"

definition exhausted :: "outbox_row \<Rightarrow> bool" where
  "exhausted m \<longleftrightarrow> ob_max_attempts m \<le> ob_attempt_count m"

text \<open>The shared shape of rescheduling and recovery: fail when exhausted, else pending at \<open>next\<close>.\<close>

definition release_row :: "time \<Rightarrow> time \<Rightarrow> outbox_error \<Rightarrow> outbox_row \<Rightarrow> outbox_row" where
  "release_row now next_at code m =
     (let code' = (if exhausted m then Attempts_Exhausted else code)
      in m\<lparr>ob_status := (if exhausted m then Failed else Pending), ob_claim_token := None,
        ob_claimed_at := None, ob_lease_expires_at := None,
        ob_next_attempt_at := (if exhausted m then None else Some next_at),
        ob_failed_at := (if exhausted m then Some now else None),
        ob_last_error_code := Some code', ob_last_error := Some (error_message code'),
        ob_updated_at := now\<rparr>)"

definition acknowledge_delivery :: "db \<Rightarrow> uuid \<Rightarrow> uuid \<Rightarrow> time \<Rightarrow> (db \<times> unit) result" where
  "acknowledge_delivery d oid token now =
     bind_r (update_outbox d (owned oid token) (deliver_row now)) (\<lambda>d'.
     bind_r (guard_r (\<exists>m \<in> set (outbox d). owned oid token m) lease_lost) (\<lambda>_. Inr (d', ())))"

definition reschedule_delivery ::
  "db \<Rightarrow> uuid \<Rightarrow> uuid \<Rightarrow> time \<Rightarrow> rat \<Rightarrow> outbox_error \<Rightarrow> (db \<times> outbox_status) result" where
  "reschedule_delivery d oid token now delay_seconds code =
     (let f = release_row now (now + seconds delay_seconds) code in
     bind_r (update_outbox d (owned oid token) f) (\<lambda>d'.
       case filter (owned oid token) (outbox d) of
         [] \<Rightarrow> Inl lease_lost
       | m # _ \<Rightarrow> Inr (d', ob_status (f m))))"

definition fail_delivery_permanently ::
  "db \<Rightarrow> uuid \<Rightarrow> uuid \<Rightarrow> time \<Rightarrow> outbox_error \<Rightarrow> (db \<times> unit) result" where
  "fail_delivery_permanently d oid token now code =
     bind_r (update_outbox d (owned oid token) (fail_row now code)) (\<lambda>d'.
     bind_r (guard_r (\<exists>m \<in> set (outbox d). owned oid token m) lease_lost) (\<lambda>_. Inr (d', ())))"

definition expired :: "time \<Rightarrow> outbox_row \<Rightarrow> bool" where
  "expired now m \<longleftrightarrow> ob_status m = Processing
     \<and> (case ob_lease_expires_at m of None \<Rightarrow> False | Some t \<Rightarrow> t \<le> now)"

definition recover_expired_claims :: "db \<Rightarrow> time \<Rightarrow> (db \<times> nat \<times> nat) result" where
  "recover_expired_claims d now =
     (let f = release_row now now Lease_Expired;
          statuses = map (ob_status \<circ> f) (filter (expired now) (outbox d))
      in bind_r (update_outbox d (expired now) f) (\<lambda>d'.
         Inr (d', length (filter (\<lambda>s. s = Pending) statuses), length (filter (\<lambda>s. s = Failed) statuses))))"

section \<open>Statistics and the confirmed requeue\<close>

record queue_statistics =
  st_pending :: nat
  st_processing :: nat
  st_delivered :: nat
  st_failed :: nat
  st_ready :: nat
  st_expired :: nat
  st_oldest_pending_age :: "time option"

definition count_status :: "outbox_row list \<Rightarrow> outbox_status \<Rightarrow> nat" where
  "count_status ms s = length (filter (\<lambda>m. ob_status m = s) ms)"

definition queue_stats :: "db \<Rightarrow> time \<Rightarrow> queue_statistics" where
  "queue_stats d now = \<lparr>st_pending = count_status (outbox d) Pending,
     st_processing = count_status (outbox d) Processing,
     st_delivered = count_status (outbox d) Delivered, st_failed = count_status (outbox d) Failed,
     st_ready = length (filter (\<lambda>m. ob_status m = Pending
        \<and> (case ob_next_attempt_at m of None \<Rightarrow> False | Some t \<Rightarrow> t \<le> now)) (outbox d)),
     st_expired = length (filter (expired now) (outbox d)),
     st_oldest_pending_age =
       (case map ob_created_at (filter (\<lambda>m. ob_status m = Pending) (outbox d)) of
          [] \<Rightarrow> None
        | t # ts \<Rightarrow> Some (max 0 (now - foldl min t ts)))\<rparr>"

definition requeue_row :: "time \<Rightarrow> int \<Rightarrow> outbox_row \<Rightarrow> outbox_row" where
  "requeue_row now to_max_attempts m = m\<lparr>ob_status := Pending, ob_max_attempts := to_max_attempts,
     ob_next_attempt_at := Some now, ob_claim_token := None, ob_claimed_at := None,
     ob_lease_expires_at := None, ob_delivered_at := None, ob_failed_at := None,
     ob_last_error_code := None, ob_last_error := None, ob_updated_at := now\<rparr>"

definition not_available :: exn where
  "not_available = OutboxOperationError ''outbox message is not available for requeue''"

definition requeue_failed_message ::
  "db \<Rightarrow> uuid \<Rightarrow> uuid \<Rightarrow> int \<Rightarrow> time \<Rightarrow> (db \<times> audit_row) result" where
  "requeue_failed_message d oid confirmation additional_attempts now =
     bind_r (guard_r (confirmation = oid)
       (OutboxOperationError ''outbox requeue confirmation does not match'')) (\<lambda>_.
     bind_r (guard_r (1 \<le> additional_attempts \<and> additional_attempts \<le> 5)
       (OutboxOperationError ''additional attempts must be between 1 and 5'')) (\<lambda>_.
     case find_row ob_id oid (outbox d) of
       None \<Rightarrow> Inl not_available
     | Some m \<Rightarrow>
       bind_r (guard_r (ob_status m = Failed) not_available) (\<lambda>_.
       let to_max_attempts = ob_max_attempts m + additional_attempts in
       bind_r (guard_r (\<not> to_max_attempts > 20)
         (OutboxOperationError ''outbox maximum attempts would exceed the safe limit'')) (\<lambda>_.
       bind_r (update_outbox d (is_message oid) (requeue_row now to_max_attempts)) (\<lambda>d1.
       record_local_cli_action d1 now ''outbox.failed_requeued'' ''outbox_message'' oid
         [(''from_attempt_count'', JInt (ob_attempt_count m)),
          (''from_max_attempts'', JInt (ob_max_attempts m)),
          (''to_max_attempts'', JInt to_max_attempts)])))))"

section \<open>The worker\<close>

definition positive_number :: "string \<Rightarrow> py_number \<Rightarrow> rat result" where
  "positive_number name v = (case v of
     Finite q \<Rightarrow> if q \<le> 0 then Inl (ValueError (''outbox '' @ name @ '' must be positive'')) else Inr q
   | _ \<Rightarrow> Inl (ValueError (''outbox '' @ name @ '' must be a finite positive number'')))"

definition validate_worker_timings ::
  "py_number \<Rightarrow> py_number \<Rightarrow> py_number \<Rightarrow> py_number \<Rightarrow> unit result" where
  "validate_worker_timings lease adapter_timeout poll recovery =
     bind_r (positive_number ''lease'' lease) (\<lambda>l.
     bind_r (positive_number ''adapter timeout'' adapter_timeout) (\<lambda>a.
     bind_r (positive_number ''poll interval'' poll) (\<lambda>_.
     bind_r (positive_number ''recovery interval'' recovery) (\<lambda>r.
     bind_r (guard_r (\<not> l \<le> a) (ValueError ''outbox lease must exceed adapter timeout'')) (\<lambda>_.
     guard_r (\<not> r > l) (ValueError ''outbox recovery interval must not exceed lease''))))))"

record worker =
  wk_codec :: codec
  wk_adapters :: "string \<Rightarrow> (delivery_request \<Rightarrow> adapter_outcome) option"
  wk_loaders :: loaders
  wk_backoff :: backoff
  wk_lease_seconds :: rat

text \<open>
  What the clock, the random source and the other transactions show during one iteration.
\<close>

record tick =
  tk_claim_now :: time
  tk_done_now :: time
  tk_wall :: time
  tk_random :: rat
  tk_stop :: bool
  tk_locked :: "uuid \<Rightarrow> bool"

text \<open>\<open>None\<close> is the lost lease; every other exception leaves the worker.\<close>

fun unless_lost :: "db \<times> outbox_status result \<Rightarrow> db \<times> outbox_status option result" where
  "unless_lost (d, Inr s) = (d, Inr (Some s))"
| "unless_lost (d, Inl (LeaseLostError m)) = (d, Inr None)"
| "unless_lost (d, Inl e) = (d, Inl e)"

definition complete_retry ::
  "worker \<Rightarrow> tick \<Rightarrow> db \<Rightarrow> claimed \<Rightarrow> outbox_error \<Rightarrow> py_number option \<Rightarrow> db \<times> outbox_status option result" where
  "complete_retry w tk d c code hint =
     unless_lost (atomically (\<lambda>d. reschedule_delivery d (cl_outbox_id c) (cl_claim_token c)
       (tk_done_now tk) (backoff_delay (wk_backoff w) (tk_random tk) (cl_attempt_count c) hint) code) d)"

definition complete_permanent ::
  "tick \<Rightarrow> db \<Rightarrow> claimed \<Rightarrow> outbox_error \<Rightarrow> db \<times> outbox_status option result" where
  "complete_permanent tk d c code =
     unless_lost (atomically (\<lambda>d. bind_r (fail_delivery_permanently d (cl_outbox_id c) (cl_claim_token c)
       (tk_done_now tk) code) (\<lambda>(d', _). Inr (d', Failed))) d)"

definition complete_delivered :: "tick \<Rightarrow> db \<Rightarrow> claimed \<Rightarrow> db \<times> outbox_status option result" where
  "complete_delivered tk d c =
     unless_lost (atomically (\<lambda>d. bind_r (acknowledge_delivery d (cl_outbox_id c) (cl_claim_token c)
       (tk_done_now tk)) (\<lambda>(d', _). Inr (d', Delivered))) d)"

definition deliver_claim :: "worker \<Rightarrow> tick \<Rightarrow> db \<Rightarrow> claimed \<Rightarrow> db \<times> outbox_status option result" where
  "deliver_claim w tk d c =
     (case wk_adapters w (cl_adapter_kind c) of
        None \<Rightarrow> complete_permanent tk d c Destination_Unconfigured
      | Some deliver \<Rightarrow>
        (case deliver (delivery_request_of c) of
           Raised_Retryable hint \<Rightarrow> complete_retry w tk d c Retryable_Delivery_Error hint
         | Raised_Exception \<Rightarrow> complete_retry w tk d c Adapter_Unexpected_Error None
         | Returned_Other \<Rightarrow> complete_retry w tk d c Adapter_Unexpected_Error None
         | Returned r \<Rightarrow>
           (case dr_disposition r of
              Result_Delivered \<Rightarrow> complete_delivered tk d c
            | Result_Permanent \<Rightarrow>
                (case dr_error_code r of
                   None \<Rightarrow> complete_retry w tk d c Adapter_Unexpected_Error None
                 | Some code \<Rightarrow> complete_permanent tk d c code)
            | Result_Retryable \<Rightarrow>
                (case dr_error_code r of
                   None \<Rightarrow> complete_retry w tk d c Adapter_Unexpected_Error None
                 | Some code \<Rightarrow> complete_retry w tk d c code (dr_retry_after r)))))"

record run_result =
  rn_processed :: nat
  rn_delivered :: nat
  rn_deferred :: nat
  rn_failed :: nat
  rn_lease_lost :: nat

definition no_result :: run_result where
  "no_result = \<lparr>rn_processed = 0, rn_delivered = 0, rn_deferred = 0, rn_failed = 0, rn_lease_lost = 0\<rparr>"

fun count_outcome :: "outbox_status option \<Rightarrow> run_result \<Rightarrow> run_result" where
  "count_outcome (Some Delivered) r = r\<lparr>rn_delivered := Suc (rn_delivered r)\<rparr>"
| "count_outcome (Some Pending) r = r\<lparr>rn_deferred := Suc (rn_deferred r)\<rparr>"
| "count_outcome (Some Failed) r = r\<lparr>rn_failed := Suc (rn_failed r)\<rparr>"
| "count_outcome _ r = r\<lparr>rn_lease_lost := Suc (rn_lease_lost r)\<rparr>"

text \<open>
  The loop of \<open>run_once\<close>; its first argument is \<open>limit - processed\<close>, and \<open>ticks n\<close> is what
  iteration \<open>n\<close> sees. An exception ends the run; what earlier transactions committed stays.
\<close>

fun run_loop ::
  "nat \<Rightarrow> worker \<Rightarrow> (nat \<Rightarrow> tick) \<Rightarrow> run_result \<Rightarrow> db \<Rightarrow> db \<times> run_result result" where
  "run_loop 0 w ticks r d = (d, Inr r)"
| "run_loop (Suc n) w ticks r d =
     (let tk = ticks (rn_processed r) in
      if tk_stop tk then (d, Inr r)
      else case atomically (\<lambda>d. claim_next_message (wk_codec w) d (tk_claim_now tk) (tk_wall tk)
          (wk_lease_seconds w) (wk_loaders w) (tk_locked tk)) d of
        (d1, Inl e) \<Rightarrow> (d1, Inl e)
      | (d1, Inr claim) \<Rightarrow>
          if \<not> cr_processed claim then (d1, Inr r)
          else let r1 = r\<lparr>rn_processed := Suc (rn_processed r)\<rparr> in
            (case cr_message claim of
               None \<Rightarrow> run_loop n w ticks (r1\<lparr>rn_failed := Suc (rn_failed r1)\<rparr>) d1
             | Some c \<Rightarrow>
               (case deliver_claim w tk d1 c of
                  (d2, Inl e) \<Rightarrow> (d2, Inl e)
                | (d2, Inr outcome) \<Rightarrow> run_loop n w ticks (count_outcome outcome r1) d2)))"

definition run_once ::
  "nat \<Rightarrow> bool \<Rightarrow> worker \<Rightarrow> time \<Rightarrow> (nat \<Rightarrow> tick) \<Rightarrow> db \<Rightarrow> db \<times> run_result result" where
  "run_once limit recover w now ticks d =
     (if \<not> (1 \<le> limit \<and> limit \<le> 100)
      then (d, Inl (OutboxOperationError ''outbox run-once limit must be between 1 and 100''))
      else case (if recover then atomically (\<lambda>d. recover_expired_claims d now) d else (d, Inr (0, 0))) of
        (d1, Inl e) \<Rightarrow> (d1, Inl e)
      | (d1, Inr _) \<Rightarrow> run_loop limit w ticks no_result d1)"

section \<open>Rows stay within their constraints\<close>

lemma check_claim_row:
  "outbox_check m \<Longrightarrow> ob_status m = Pending \<Longrightarrow> ob_attempt_count m < ob_max_attempts m \<Longrightarrow>
    0 < seconds lease \<Longrightarrow> outbox_check (claim_row token now wall lease m)"
  by (auto simp: outbox_check_def outbox_state_shape_def claim_row_def)

lemma check_fail_row:
  "outbox_check m \<Longrightarrow> ob_status m = Processing \<Longrightarrow> outbox_check (fail_row now code m)"
  by (auto simp: outbox_check_def outbox_state_shape_def fail_row_def)

lemma check_deliver_row:
  "outbox_check m \<Longrightarrow> ob_status m = Processing \<Longrightarrow> outbox_check (deliver_row now m)"
  by (auto simp: outbox_check_def outbox_state_shape_def deliver_row_def)

lemma check_release_row:
  "outbox_check m \<Longrightarrow> ob_status m = Processing \<Longrightarrow> outbox_check (release_row now next_at code m)"
  by (auto simp: outbox_check_def outbox_state_shape_def release_row_def Let_def)

lemma check_requeue_row:
  "outbox_check m \<Longrightarrow> ob_max_attempts m \<le> n \<Longrightarrow> n \<le> 20 \<Longrightarrow> outbox_check (requeue_row now n m)"
  by (auto simp: outbox_check_def outbox_state_shape_def requeue_row_def)

text \<open>The columns no update writes.\<close>

definition same_message :: "outbox_row \<Rightarrow> outbox_row \<Rightarrow> bool" where
  "same_message m m' \<longleftrightarrow> ob_id m' = ob_id m \<and> ob_notification_type m' = ob_notification_type m
     \<and> ob_incident_id m' = ob_incident_id m \<and> ob_destination_id m' = ob_destination_id m
     \<and> ob_idempotency_key m' = ob_idempotency_key m \<and> ob_payload m' = ob_payload m
     \<and> ob_created_at m' = ob_created_at m"

lemma same_message_updates [simp]:
  "same_message m (claim_row token now wall lease m)" "same_message m (fail_row now code m)"
  "same_message m (deliver_row now m)" "same_message m (release_row now next_at code m)"
  "same_message m (requeue_row now n m)" "same_message m m"
  by (simp_all add: same_message_def claim_row_def fail_row_def deliver_row_def release_row_def
      requeue_row_def Let_def)

lemma released_tokens [simp]:
  "ob_claim_token (fail_row now code m) = None" "ob_claim_token (deliver_row now m) = None"
  "ob_claim_token (release_row now next_at code m) = None" "ob_claim_token (requeue_row now n m) = None"
  "ob_claim_token (claim_row token now wall lease m) = Some token"
  by (simp_all add: fail_row_def deliver_row_def release_row_def requeue_row_def claim_row_def Let_def)

lemma ids_of_updates [simp]:
  "ob_id (fail_row now code m) = ob_id m" "ob_id (deliver_row now m) = ob_id m"
  "ob_id (release_row now next_at code m) = ob_id m" "ob_id (requeue_row now n m) = ob_id m"
  "ob_id (claim_row token now wall lease m) = ob_id m"
  by (simp_all add: fail_row_def deliver_row_def release_row_def requeue_row_def claim_row_def Let_def)

lemma settled_columns [simp]:
  "ob_attempt_count (fail_row now code m) = ob_attempt_count m"
  "ob_attempt_count (deliver_row now m) = ob_attempt_count m"
  "ob_attempt_count (release_row now next_at code m) = ob_attempt_count m"
  "ob_status (fail_row now code m) = Failed" "ob_status (deliver_row now m) = Delivered"
  "ob_status (release_row now next_at code m) = (if exhausted m then Failed else Pending)"
  "ob_attempt_count (claim_row token now wall lease m) = ob_attempt_count m + 1"
  "ob_status (claim_row token now wall lease m) = Processing"
  "ob_attempt_count (requeue_row now n m) = ob_attempt_count m" "ob_status (requeue_row now n m) = Pending"
  by (simp_all add: fail_row_def deliver_row_def release_row_def claim_row_def requeue_row_def Let_def)

lemma update_outbox_Inr:
  "update_outbox d P f = Inr d' \<longleftrightarrow> d' = d\<lparr>outbox := update_where P f (outbox d)\<rparr>
    \<and> (\<forall>m \<in> set (outbox d). P m \<longrightarrow> outbox_check (f m))"
  by (auto simp: update_outbox_def)

lemma outbox_unique_update:
  assumes "outbox_unique ms" "\<And>m. P m \<Longrightarrow> same_message m (f m)"
  shows "outbox_unique (update_where P f ms)"
proof -
  have "map g (update_where P f ms) = map g ms" if "\<And>m. P m \<Longrightarrow> g (f m) = g m" for g :: "outbox_row \<Rightarrow> 'b"
    using that by (rule map_update_where)
  with assms show ?thesis
    by (simp add: outbox_unique_def same_message_def map_update_where)
qed

lemma tokens_apart_release:
  assumes "tokens_apart ms" "\<And>m. P m \<Longrightarrow> same_message m (f m)" "\<And>m. P m \<Longrightarrow> ob_claim_token (f m) = None"
  shows "tokens_apart (update_where P f ms)"
  unfolding tokens_apart_def
proof (intro ballI allI impI)
  fix m m' t
  assume "m \<in> set (update_where P f ms)" "m' \<in> set (update_where P f ms)"
    "ob_claim_token m = Some t" "ob_claim_token m' = Some t"
  with assms(3) have "m \<in> set ms" "m' \<in> set ms" by (auto simp: set_update_where split: if_splits)
  with assms(1) \<open>ob_claim_token m = Some t\<close> \<open>ob_claim_token m' = Some t\<close> show "ob_id m = ob_id m'"
    unfolding tokens_apart_def by blast
qed

lemma tokens_apart_claim:
  assumes "tokens_apart ms" "\<And>m. same_message m (f m)" "\<And>m. ob_claim_token (f m) = Some n"
    and "\<forall>m \<in> set ms. ob_claim_token m \<noteq> Some n"
  shows "tokens_apart (update_where (is_message oid) f ms)"
  unfolding tokens_apart_def
proof (intro ballI allI impI)
  fix m m' t
  assume mem: "m \<in> set (update_where (is_message oid) f ms)" "m' \<in> set (update_where (is_message oid) f ms)"
    and tok: "ob_claim_token m = Some t" "ob_claim_token m' = Some t"
  have origin: "x \<in> set ms \<and> ob_claim_token x \<noteq> Some n \<or> ob_id x = oid \<and> ob_claim_token x = Some n"
    if "x \<in> set (update_where (is_message oid) f ms)" for x
    using that assms(2-4) by (auto simp: set_update_where is_message_def same_message_def split: if_splits)
  show "ob_id m = ob_id m'"
  proof (cases "t = n")
    case True
    with origin [OF mem(1)] origin [OF mem(2)] tok show ?thesis by auto
  next
    case False
    with origin [OF mem(1)] origin [OF mem(2)] tok have "m \<in> set ms" "m' \<in> set ms" by auto
    with assms(1) tok show ?thesis unfolding tokens_apart_def by blast
  qed
qed

text \<open>An update keeps the invariant when it frees the lease of the rows it touches.\<close>

lemma outbox_inv_release:
  assumes "outbox_inv d" "update_outbox d P f = Inr d'"
    and "\<And>m. P m \<Longrightarrow> same_message m (f m)" "\<And>m. P m \<Longrightarrow> ob_claim_token (f m) = None"
    and "\<And>m. m \<in> set (outbox d) \<Longrightarrow> P m \<Longrightarrow> ob_status (f m) \<noteq> Pending \<Longrightarrow> 1 \<le> ob_attempt_count (f m)"
  shows "outbox_inv d'"
proof -
  from assms(2) have d': "outbox d' = update_where P f (outbox d)" "next_uuid d' = next_uuid d"
    and chk: "\<forall>m \<in> set (outbox d). P m \<longrightarrow> outbox_check (f m)"
    by (auto simp: update_outbox_Inr)
  have "outbox_unique (outbox d')"
    unfolding d' using assms(1,3) by (intro outbox_unique_update) (auto simp: outbox_inv_def)
  moreover have "tokens_apart (outbox d')"
    unfolding d' using assms(1,3,4) by (intro tokens_apart_release) (simp_all add: outbox_inv_def)
  ultimately show ?thesis
    using assms(1,3-5) chk by (auto simp: outbox_inv_def d' set_update_where same_message_def)
qed

text \<open>A claim puts a token that was never handed out on one row.\<close>

lemma outbox_inv_claim:
  assumes "outbox_inv d" "update_outbox (d\<lparr>next_uuid := Suc (next_uuid d)\<rparr>) (is_message oid) f = Inr d'"
    and "\<And>m. same_message m (f m)" "\<And>m. ob_claim_token (f m) = Some (next_uuid d)"
    and "\<And>m. ob_attempt_count (f m) = ob_attempt_count m + 1"
  shows "outbox_inv d'"
proof -
  from assms(2) have d': "outbox d' = update_where (is_message oid) f (outbox d)"
    "next_uuid d' = Suc (next_uuid d)"
    and chk: "\<forall>m \<in> set (outbox d). is_message oid m \<longrightarrow> outbox_check (f m)"
    by (auto simp: update_outbox_Inr)
  have "outbox_unique (outbox d')"
    unfolding d' using assms(1,3) by (intro outbox_unique_update) (auto simp: outbox_inv_def)
  moreover have "\<forall>m \<in> set (outbox d). ob_claim_token m \<noteq> Some (next_uuid d)"
    using assms(1) by (auto simp: outbox_inv_def)
  then have "tokens_apart (outbox d')"
    unfolding d' using assms(1,3,4) by (intro tokens_apart_claim) (simp_all add: outbox_inv_def)
  ultimately show ?thesis
    using assms(1,3-5) chk
    by (auto simp: outbox_inv_def d' set_update_where same_message_def is_message_def less_Suc_eq
        outbox_check_def)
qed

section \<open>What each operation does\<close>

text \<open>How one message may change over time.\<close>

definition message_advances :: "outbox_row \<Rightarrow> outbox_row \<Rightarrow> bool" where
  "message_advances m m' \<longleftrightarrow> same_message m m' \<and> ob_attempt_count m \<le> ob_attempt_count m'
     \<and> ob_max_attempts m \<le> ob_max_attempts m' \<and> (ob_status m = Delivered \<longrightarrow> m' = m)"

definition queue_advances :: "outbox_row list \<Rightarrow> outbox_row list \<Rightarrow> bool" where
  "queue_advances ms ms' \<longleftrightarrow> (\<forall>m \<in> set ms. \<exists>m' \<in> set ms'. message_advances m m')"

lemma message_advances_refl [simp]: "message_advances m m"
  by (simp add: message_advances_def)

lemma message_advances_trans: "message_advances a b \<Longrightarrow> message_advances b c \<Longrightarrow> message_advances a c"
  by (auto simp: message_advances_def same_message_def)

lemma queue_advances_refl [simp]: "queue_advances ms ms"
  by (auto simp: queue_advances_def intro: message_advances_refl)

lemma queue_advances_trans: "queue_advances a b \<Longrightarrow> queue_advances b c \<Longrightarrow> queue_advances a c"
  unfolding queue_advances_def by (meson message_advances_trans)

lemma queue_advances_append [simp]: "queue_advances ms (ms @ ms')"
  by (auto simp: queue_advances_def intro: message_advances_refl)

lemma queue_advances_update:
  assumes "\<And>m. m \<in> set ms \<Longrightarrow> P m \<Longrightarrow> message_advances m (f m)"
  shows "queue_advances ms (update_where P f ms)"
  unfolding queue_advances_def set_update_where
proof
  fix m assume "m \<in> set ms"
  with assms show "\<exists>m' \<in> (\<lambda>r. if P r then f r else r) ` set ms. message_advances m m'"
    by (intro bexI [of _ "if P m then f m else m"]) auto
qed

lemma row_advances:
  "ob_status m = Pending \<Longrightarrow> message_advances m (claim_row token now wall lease m)"
  "ob_status m = Processing \<Longrightarrow> message_advances m (fail_row now code m)"
  "ob_status m = Processing \<Longrightarrow> message_advances m (deliver_row now m)"
  "ob_status m = Processing \<Longrightarrow> message_advances m (release_row now next_at code m)"
  "ob_status m = Failed \<Longrightarrow> ob_max_attempts m \<le> n \<Longrightarrow> message_advances m (requeue_row now n m)"
  "ob_status m = Pending \<Longrightarrow> message_advances m (fail_row now code (claim_row token now wall lease m))"
  by (simp_all add: message_advances_def same_message_def)
    (simp_all add: claim_row_def fail_row_def deliver_row_def release_row_def requeue_row_def Let_def)

lemma update_where_twice:
  assumes "\<And>m. P m \<Longrightarrow> P (f m)"
  shows "update_where P g (update_where P f ms) = update_where P (\<lambda>m. g (f m)) ms"
  using assms by (induction ms) auto

lemma claimed_twice:
  "update_where (is_message k) g (update_where (is_message k) (claim_row t now wall lease) ms)
    = update_where (is_message k) (\<lambda>m. g (claim_row t now wall lease m)) ms"
  by (rule update_where_twice) (simp add: is_message_def)

lemma is_message_unique:
  "outbox_inv d \<Longrightarrow> m \<in> set (outbox d) \<Longrightarrow> x \<in> set (outbox d) \<Longrightarrow> is_message (ob_id m) x \<Longrightarrow> x = m"
  by (rule key_inj_rows [of ob_id]) (auto simp: outbox_inv_def outbox_unique_def is_message_def)

definition claimed_db :: "db \<Rightarrow> outbox_row \<Rightarrow> (outbox_row \<Rightarrow> outbox_row) \<Rightarrow> db" where
  "claimed_db d m f = d\<lparr>outbox := update_where (is_message (ob_id m)) f (outbox d),
     next_uuid := Suc (next_uuid d)\<rparr>"

lemma claimed_db_simps [simp]:
  "outbox (claimed_db d m f) = update_where (is_message (ob_id m)) f (outbox d)"
  "next_uuid (claimed_db d m f) = Suc (next_uuid d)"
  "audit_log (claimed_db d m f) = audit_log d" "history (claimed_db d m f) = history d"
  "incidents (claimed_db d m f) = incidents d" "destinations (claimed_db d m f) = destinations d"
  by (simp_all add: claimed_db_def)

lemma first_due:
  assumes "sort_key key (filter P xs) = m # rest"
  shows "m \<in> set xs" "P m" "\<forall>x \<in> set xs. P x \<longrightarrow> (key m :: 'k :: linorder) \<le> key x"
proof -
  have sub: "set (m # rest) = {x \<in> set xs. P x}"
    using assms by (metis set_filter set_sort)
  then show "m \<in> set xs" "P m" by auto
  have "sorted (map key (m # rest))" using assms by (metis sorted_sort_key)
  with sub show "\<forall>x \<in> set xs. P x \<longrightarrow> key m \<le> key x" by auto
qed

lemma admit_claim_Inr:
  assumes "admit_claim k d now loaders m destination token = Inr (d', cr)"
  obtains (admitted) c where "d' = d" "cr_processed cr" "cr_message cr = Some c"
      "cl_outbox_id c = ob_id m" "cl_claim_token c = token" "cl_attempt_count c = ob_attempt_count m + 1"
      "de_enabled destination" "model_validate k (ob_payload m) = Some (cl_payload c)"
  | (refused) code where "update_outbox d (is_message (ob_id m)) (fail_row now code) = Inr d'"
      "cr_processed cr" "cr_message cr = None"
proof -
  from assms consider
      payload config where "de_enabled destination" "model_validate k (ob_payload m) = Some payload" "d' = d"
        "cr = \<lparr>cr_processed = True, cr_message = Some (claimed_message m destination payload token config)\<rparr>"
    | code where "fail_claimed d (ob_id m) now code = Inr (d', cr)"
    by (auto simp: admit_claim_def split: if_splits option.splits)
  then show ?thesis
  proof cases
    case (1 payload config)
    then show ?thesis
      by (intro admitted [of "claimed_message m destination payload token config"])
        (simp_all add: claimed_message_def)
  next
    case (2 code)
    then show ?thesis by (intro refused [of code]) (auto simp: fail_claimed_def bind_r_eq_Inr)
  qed
qed

lemma claim_next_message_Inr:
  assumes "claim_next_message k d now wall lease loaders locked = Inr (d', cr)"
  obtains (nothing) "\<forall>m \<in> set (outbox d). \<not> claimable d now locked m" "d' = d"
      "\<not> cr_processed cr" "cr_message cr = None"
  | (claimed) m c where "m \<in> set (outbox d)" "claimable d now locked m"
      "\<forall>x \<in> set (outbox d). claimable d now locked x \<longrightarrow> due_order m \<le> due_order x"
      "d' = claimed_db d m (claim_row (next_uuid d) now wall lease)"
      "update_outbox (d\<lparr>next_uuid := Suc (next_uuid d)\<rparr>) (is_message (ob_id m))
         (claim_row (next_uuid d) now wall lease) = Inr d'"
      "cr_processed cr" "cr_message cr = Some c" "cl_outbox_id c = ob_id m"
      "cl_claim_token c = next_uuid d" "cl_attempt_count c = ob_attempt_count m + 1"
      "model_validate k (ob_payload m) = Some (cl_payload c)"
  | (refused) m code d2 where "m \<in> set (outbox d)" "claimable d now locked m"
      "\<forall>x \<in> set (outbox d). claimable d now locked x \<longrightarrow> due_order m \<le> due_order x"
      "d' = claimed_db d m (\<lambda>m. fail_row now code (claim_row (next_uuid d) now wall lease m))"
      "update_outbox (d\<lparr>next_uuid := Suc (next_uuid d)\<rparr>) (is_message (ob_id m))
         (claim_row (next_uuid d) now wall lease) = Inr d2"
      "update_outbox d2 (is_message (ob_id m)) (fail_row now code) = Inr d'"
      "cr_processed cr" "cr_message cr = None"
proof (cases "sort_key due_order (filter (claimable d now locked) (outbox d))")
  case Nil
  then have "filter (claimable d now locked) (outbox d) = []"
    by (metis length_0_conv length_sort)
  then have "\<forall>m \<in> set (outbox d). \<not> claimable d now locked m" by (simp add: filter_empty_conv)
  moreover from Nil assms have "d' = d" "\<not> cr_processed cr" "cr_message cr = None"
    by (auto simp: claim_next_message_def)
  ultimately show ?thesis by (rule nothing)
next
  case (Cons m rest)
  note m = first_due [OF Cons]
  from m(2) obtain destination where de: "find_row de_id (ob_destination_id m) (destinations d) = Some destination"
    by (auto simp: claimable_def)
  let ?d1 = "d\<lparr>next_uuid := Suc (next_uuid d)\<rparr>" and ?f = "claim_row (next_uuid d) now wall lease"
  from assms Cons de obtain d2 where
    up: "update_outbox ?d1 (is_message (ob_id m)) ?f = Inr d2"
    and adm: "admit_claim k d2 now loaders m destination (next_uuid d) = Inr (d', cr)"
    by (auto simp: claim_next_message_def uuid4_def Let_def bind_r_eq_Inr)
  have d2: "d2 = claimed_db d m ?f" using up by (simp add: update_outbox_Inr claimed_db_def)
  from adm show ?thesis
  proof (cases rule: admit_claim_Inr)
    case (admitted c)
    with claimed [OF m] up d2 show ?thesis by simp
  next
    case ref: (refused code)
    have "d' = claimed_db d m (\<lambda>m. fail_row now code (?f m))"
      using ref(1) d2 by (simp add: update_outbox_Inr claimed_db_def claimed_twice)
    from refused [OF m this up ref] show ?thesis .
  qed
qed

lemma claim_next_message_inv:
  assumes "outbox_inv d" "claim_next_message k d now wall lease loaders locked = Inr (d', cr)"
  shows "outbox_inv d' \<and> queue_advances (outbox d) (outbox d')"
  using assms(2)
proof (cases rule: claim_next_message_Inr)
  case (claimed m c)
  have "outbox_inv d'" using assms(1) claimed(5) by (rule outbox_inv_claim) simp_all
  moreover have "queue_advances (outbox d) (outbox d')"
    unfolding claimed(4) claimed_db_simps
    using is_message_unique [OF assms(1) claimed(1)] claimed(2)
    by (intro queue_advances_update row_advances) (auto simp: claimable_def)
  ultimately show ?thesis ..
next
  case (refused m code d2)
  have "outbox_inv d2" using assms(1) refused(5) by (rule outbox_inv_claim) simp_all
  then have "outbox_inv d'" using refused(6)
    by (rule outbox_inv_release)
      (use assms(1) refused(5) in \<open>auto simp: update_outbox_Inr set_update_where is_message_def
        outbox_inv_def outbox_check_def split: if_splits\<close>)
  moreover have "queue_advances (outbox d) (outbox d')"
    unfolding refused(4) claimed_db_simps
    using is_message_unique [OF assms(1) refused(1)] refused(2)
    by (intro queue_advances_update row_advances) (auto simp: claimable_def)
  ultimately show ?thesis ..
qed (use assms(1) in simp)

lemma claim_next_message_defined:
  assumes "outbox_inv d" "0 < seconds lease"
  shows "\<exists>d' cr. claim_next_message k d now wall lease loaders locked = Inr (d', cr)"
proof (cases "sort_key due_order (filter (claimable d now locked) (outbox d))")
  case (Cons m rest)
  note m = first_due [OF Cons]
  from m(2) obtain destination where de: "find_row de_id (ob_destination_id m) (destinations d) = Some destination"
    by (auto simp: claimable_def)
  let ?f = "claim_row (next_uuid d) now wall lease"
  have chk: "outbox_check (?f m)"
    using assms m(1,2) by (intro check_claim_row) (auto simp: outbox_inv_def claimable_def)
  then have up: "update_outbox (d\<lparr>next_uuid := Suc (next_uuid d)\<rparr>) (is_message (ob_id m)) ?f = Inr (claimed_db d m ?f)"
    using is_message_unique [OF assms(1) m(1)] by (auto simp: update_outbox_Inr claimed_db_def)
  have "outbox_check (fail_row now code (?f m))" for code
    using chk by (rule check_fail_row) (simp add: claim_row_def)
  then have "\<exists>d'. update_outbox (claimed_db d m ?f) (is_message (ob_id m)) (fail_row now code) = Inr d'" for code
    using is_message_unique [OF assms(1) m(1)]
    by (auto simp: update_outbox_Inr set_update_where is_message_def split: if_splits)
  then have "\<exists>d' cr. admit_claim k (claimed_db d m ?f) now loaders m destination (next_uuid d) = Inr (d', cr)"
    by (auto simp: admit_claim_def fail_claimed_def bind_r_eq_Inr split: option.splits)
  with Cons de up show ?thesis
    by (simp add: claim_next_message_def uuid4_def Let_def)
qed (simp add: claim_next_message_def)

text \<open>The three ways a claim is settled.\<close>

definition settles :: "(outbox_row \<Rightarrow> outbox_row) \<Rightarrow> bool" where
  "settles f \<longleftrightarrow> (\<exists>now. f = deliver_row now) \<or> (\<exists>now code. f = fail_row now code)
     \<or> (\<exists>now next_at code. f = release_row now next_at code)"

lemma settlesI [intro]:
  "settles (deliver_row now)" "settles (fail_row now code)" "settles (release_row now next_at code)"
  unfolding settles_def by blast+

lemma settles_row:
  assumes "settles f"
  shows "same_message m (f m)" "ob_claim_token (f m) = None"
    "ob_status m = Processing \<Longrightarrow> message_advances m (f m)"
    "outbox_check m \<Longrightarrow> ob_status m = Processing \<Longrightarrow> outbox_check (f m)"
    "ob_attempt_count (f m) = ob_attempt_count m" "ob_status (f m) \<noteq> Processing"
  using assms unfolding settles_def
  by (auto intro: row_advances check_deliver_row check_fail_row check_release_row split: if_splits)

lemma owned_unique:
  "outbox_inv d \<Longrightarrow> m \<in> set (outbox d) \<Longrightarrow> x \<in> set (outbox d) \<Longrightarrow> owned oid t m \<Longrightarrow> owned oid t x \<Longrightarrow> x = m"
  by (rule key_inj_rows [of ob_id]) (auto simp: outbox_inv_def outbox_unique_def owned_def)

lemma update_owned:
  assumes "outbox_inv d" "settles f"
  shows "update_outbox d (owned oid token) f = Inr (d\<lparr>outbox := update_where (owned oid token) f (outbox d)\<rparr>)"
  using assms by (auto simp: update_outbox_Inr outbox_inv_def owned_def intro: settles_row(4))

lemma no_owned_update:
  assumes "\<forall>m \<in> set (outbox d). \<not> owned oid token m"
  shows "update_outbox d (owned oid token) f = Inr d"
  using assms by (simp add: update_outbox_Inr update_where_none)

text \<open>Completing a claim: without the lease nothing is written; with it the one row is settled.\<close>

definition settled :: "db \<Rightarrow> claimed \<Rightarrow> (outbox_row \<Rightarrow> outbox_row) \<Rightarrow> db" where
  "settled d c f = d\<lparr>outbox := update_where (owned (cl_outbox_id c) (cl_claim_token c)) f (outbox d)\<rparr>"

lemma settled_simps [simp]:
  "outbox (settled d c f) = update_where (owned (cl_outbox_id c) (cl_claim_token c)) f (outbox d)"
  "next_uuid (settled d c f) = next_uuid d" "audit_log (settled d c f) = audit_log d"
  "destinations (settled d c f) = destinations d" "incidents (settled d c f) = incidents d"
  "history (settled d c f) = history d"
  by (simp_all add: settled_def)

lemma complete_lost:
  assumes "\<forall>m \<in> set (outbox d). \<not> owned (cl_outbox_id c) (cl_claim_token c) m"
  shows "complete_delivered tk d c = (d, Inr None)" "complete_permanent tk d c code = (d, Inr None)"
    "complete_retry w tk d c code hint = (d, Inr None)"
  using assms
  by (simp_all add: complete_delivered_def complete_permanent_def complete_retry_def
      acknowledge_delivery_def fail_delivery_permanently_def reschedule_delivery_def
      no_owned_update lease_lost_def atomically_def guard_r_def Let_def)

lemma complete_settled:
  assumes "outbox_inv d" "m \<in> set (outbox d)" "owned (cl_outbox_id c) (cl_claim_token c) m"
  shows "complete_delivered tk d c = (settled d c (deliver_row (tk_done_now tk)), Inr (Some Delivered))"
    "complete_permanent tk d c code = (settled d c (fail_row (tk_done_now tk) code), Inr (Some Failed))"
    "\<exists>next_at. complete_retry w tk d c code hint = (settled d c (release_row (tk_done_now tk) next_at code),
       Inr (Some (ob_status (release_row (tk_done_now tk) next_at code m))))"
proof -
  have ex: "\<exists>m \<in> set (outbox d). owned (cl_outbox_id c) (cl_claim_token c) m" using assms(2,3) by blast
  show "complete_delivered tk d c = (settled d c (deliver_row (tk_done_now tk)), Inr (Some Delivered))"
    "complete_permanent tk d c code = (settled d c (fail_row (tk_done_now tk) code), Inr (Some Failed))"
    using ex by (simp_all add: complete_delivered_def complete_permanent_def acknowledge_delivery_def
        fail_delivery_permanently_def update_owned [OF assms(1)] settlesI settled_def guard_r_def atomically_def)
  let ?o = "owned (cl_outbox_id c) (cl_claim_token c)"
  obtain x xs where fl: "filter ?o (outbox d) = x # xs"
    using ex by (cases "filter ?o (outbox d)") (auto simp: filter_empty_conv)
  then have "x \<in> set (filter ?o (outbox d))" by simp
  then have "x \<in> set (outbox d)" "?o x" by simp_all
  with assms have "x = m" using owned_unique by blast
  with fl show "\<exists>next_at. complete_retry w tk d c code hint = (settled d c (release_row (tk_done_now tk) next_at code),
       Inr (Some (ob_status (release_row (tk_done_now tk) next_at code m))))"
    by (simp add: complete_retry_def reschedule_delivery_def update_owned [OF assms(1)] settlesI
        settled_def atomically_def Let_def) blast
qed

lemma deliver_claim_cases:
  assumes "outbox_inv d"
  obtains (lost) "\<forall>m \<in> set (outbox d). \<not> owned (cl_outbox_id c) (cl_claim_token c) m"
      "deliver_claim w tk d c = (d, Inr None)"
  | (settled) m f where "m \<in> set (outbox d)" "owned (cl_outbox_id c) (cl_claim_token c) m" "settles f"
      "deliver_claim w tk d c = (settled d c f, Inr (Some (ob_status (f m))))"
proof (cases "\<forall>m \<in> set (outbox d). \<not> owned (cl_outbox_id c) (cl_claim_token c) m")
  case True
  then have "deliver_claim w tk d c = (d, Inr None)"
    by (auto simp: deliver_claim_def complete_lost split: option.splits adapter_outcome.splits disposition.splits)
  with True lost show ?thesis by blast
next
  case False
  then obtain m where m: "m \<in> set (outbox d)" "owned (cl_outbox_id c) (cl_claim_token c) m" by blast
  note cs = complete_settled [OF assms m]
  have "deliver_claim w tk d c = complete_delivered tk d c
      \<or> (\<exists>code. deliver_claim w tk d c = complete_permanent tk d c code)
      \<or> (\<exists>code hint. deliver_claim w tk d c = complete_retry w tk d c code hint)"
    by (auto simp: deliver_claim_def split: option.splits adapter_outcome.splits disposition.splits)
  then have "\<exists>f. settles f \<and> deliver_claim w tk d c = (settled d c f, Inr (Some (ob_status (f m))))"
  proof (elim disjE exE)
    assume "deliver_claim w tk d c = complete_delivered tk d c"
    with cs(1) show ?thesis by (intro exI [of _ "deliver_row (tk_done_now tk)"]) auto
  next
    fix code assume "deliver_claim w tk d c = complete_permanent tk d c code"
    with cs(2) show ?thesis by (intro exI [of _ "fail_row (tk_done_now tk) code"]) auto
  next
    fix code hint assume "deliver_claim w tk d c = complete_retry w tk d c code hint"
    with cs(3) show ?thesis by (metis settlesI(3))
  qed
  with m settled show ?thesis by blast
qed

lemma settled_inv:
  assumes "outbox_inv d" "settles f"
  shows "outbox_inv (settled d c f) \<and> queue_advances (outbox d) (outbox (settled d c f))"
proof
  show "outbox_inv (settled d c f)"
    unfolding settled_def using assms(1) update_owned [OF assms]
    by (rule outbox_inv_release)
      (use assms in \<open>auto intro: settles_row simp: settles_row(5) outbox_inv_def owned_def\<close>)
  show "queue_advances (outbox d) (outbox (settled d c f))"
    unfolding settled_simps using settles_row(3) [OF assms(2)]
    by (intro queue_advances_update) (auto simp: owned_def)
qed

lemma recover_inv:
  assumes "outbox_inv d"
  shows "\<exists>n. recover_expired_claims d now = Inr (d\<lparr>outbox := update_where (expired now)
      (release_row now now Lease_Expired) (outbox d)\<rparr>, n)"
    and "recover_expired_claims d now = Inr (d', n) \<Longrightarrow> outbox_inv d' \<and> queue_advances (outbox d) (outbox d')"
proof -
  have ok: "update_outbox d (expired now) (release_row now now Lease_Expired)
      = Inr (d\<lparr>outbox := update_where (expired now) (release_row now now Lease_Expired) (outbox d)\<rparr>)"
    using assms by (auto simp: update_outbox_Inr outbox_inv_def expired_def intro: check_release_row)
  then show "\<exists>n. recover_expired_claims d now = Inr (d\<lparr>outbox := update_where (expired now)
      (release_row now now Lease_Expired) (outbox d)\<rparr>, n)"
    by (simp add: recover_expired_claims_def Let_def)
  assume "recover_expired_claims d now = Inr (d', n)"
  then have eq: "d' = d\<lparr>outbox := update_where (expired now) (release_row now now Lease_Expired) (outbox d)\<rparr>"
    unfolding recover_expired_claims_def Let_def ok bind_r.simps sum.inject prod.inject by blast
  have d': "update_outbox d (expired now) (release_row now now Lease_Expired) = Inr d'"
    unfolding eq by (rule ok)
  from assms d' have "outbox_inv d'"
    by (rule outbox_inv_release) (use assms in \<open>simp_all add: outbox_inv_def expired_def\<close>)
  moreover have "queue_advances (outbox d) (outbox d')"
    using d' by (auto simp: update_outbox_Inr expired_def intro!: queue_advances_update row_advances)
  ultimately show "outbox_inv d' \<and> queue_advances (outbox d) (outbox d')" ..
qed

lemma requeue_Inr:
  assumes "requeue_failed_message d oid confirmation extra now = Inr (d', e)"
  obtains m d1 where "find_row ob_id oid (outbox d) = Some m" "confirmation = oid" "1 \<le> extra" "extra \<le> 5"
    "ob_status m = Failed" "ob_max_attempts m + extra \<le> 20"
    "update_outbox d (is_message oid) (requeue_row now (ob_max_attempts m + extra)) = Inr d1"
    "d1 = d\<lparr>outbox := update_where (is_message oid) (requeue_row now (ob_max_attempts m + extra)) (outbox d)\<rparr>"
    "d' = logged d1 e" "audit_check e" "au_action e = ''outbox.failed_requeued''" "au_target_id e = oid"
    "au_id e = next_uuid d" "au_history_id e = None"
proof -
  from assms obtain m d1 where *: "find_row ob_id oid (outbox d) = Some m" "confirmation = oid" "1 \<le> extra"
    "extra \<le> 5" "ob_status m = Failed" "ob_max_attempts m + extra \<le> 20"
    "update_outbox d (is_message oid) (requeue_row now (ob_max_attempts m + extra)) = Inr d1"
    and rec: "record_local_cli_action d1 now ''outbox.failed_requeued'' ''outbox_message'' oid
         [(''from_attempt_count'', JInt (ob_attempt_count m)),
          (''from_max_attempts'', JInt (ob_max_attempts m)),
          (''to_max_attempts'', JInt (ob_max_attempts m + extra))] = Inr (d', e)"
    by (auto simp: requeue_failed_message_def bind_r_eq_Inr Let_def split: option.splits)
  have d1: "d1 = d\<lparr>outbox := update_where (is_message oid) (requeue_row now (ob_max_attempts m + extra)) (outbox d)\<rparr>"
    using *(7) by (simp add: update_outbox_Inr)
  note r = record_local_cli_action_Inr [OF rec]
  have "au_id e = next_uuid d" using r(3) d1 by simp
  from that [OF * d1 r(1,2,4,5) this r(6)] show ?thesis .
qed

lemma requeue_inv:
  assumes "outbox_inv d" "requeue_failed_message d oid confirmation extra now = Inr (d', e)"
  shows "outbox_inv d' \<and> queue_advances (outbox d) (outbox d')"
  using assms(2)
proof (rule requeue_Inr)
  fix m d1
  assume *: "find_row ob_id oid (outbox d) = Some m" "1 \<le> extra" "ob_status m = Failed"
    "update_outbox d (is_message oid) (requeue_row now (ob_max_attempts m + extra)) = Inr d1"
    "d1 = d\<lparr>outbox := update_where (is_message oid) (requeue_row now (ob_max_attempts m + extra)) (outbox d)\<rparr>"
    "d' = logged d1 e"
  have "outbox_inv d1" using assms(1) *(4) by (rule outbox_inv_release) simp_all
  then have "outbox_inv d'" by (rule outbox_inv_cong) (simp_all add: *(6))
  moreover have "x = m" if "x \<in> set (outbox d)" "is_message oid x" for x
    using is_message_unique [OF assms(1), of m x] find_row_SomeD [OF *(1)] that by auto
  then have "queue_advances (outbox d) (outbox d')"
    using *(2,3) by (simp add: *(5,6)) (intro queue_advances_update row_advances, auto)
  ultimately show ?thesis ..
qed

end
