(* ===== verification/Step_Systems.thy ===== *)
theory Step_Systems
  imports Main
begin

text \<open>
  The interfaces of the state machines of this development. A component provides a step relation with an
  invariant that every step keeps; what holds of runs follows once, here. A second interface adds an order
  in which states only move forward.
\<close>

locale step_system =
  fixes step :: "'s \<Rightarrow> 's \<Rightarrow> bool"
    and ok :: "'s \<Rightarrow> bool"
  assumes ok_step: "ok s \<Longrightarrow> step s s' \<Longrightarrow> ok s'"
begin

lemma ok_steps: "step\<^sup>*\<^sup>* s s' \<Longrightarrow> ok s \<Longrightarrow> ok s'"
  by (induction rule: rtranclp_induct) (auto intro: ok_step)

end

locale forward_system = step_system +
  fixes later :: "'a \<Rightarrow> 'a \<Rightarrow> bool"
  assumes later_refl: "later s s"
    and later_trans: "later s t \<Longrightarrow> later t u \<Longrightarrow> later s u"
    and later_step: "ok s \<Longrightarrow> step s s' \<Longrightarrow> later s s'"
begin

lemma later_steps: "step\<^sup>*\<^sup>* s s' \<Longrightarrow> ok s \<Longrightarrow> later s s'"
proof (induction rule: rtranclp_induct)
  case (step y z)
  then have "later s y" "later y z" by (auto intro: later_step ok_steps)
  then show ?case by (rule later_trans)
qed (rule later_refl)

text \<open>What holds for ever once it holds.\<close>

lemma stable_steps:
  assumes "step\<^sup>*\<^sup>* s s'" "ok s" "P s" "\<And>t t'. later t t' \<Longrightarrow> P t \<Longrightarrow> P t'"
  shows "P s'"
  using later_steps [OF assms(1,2)] assms(3,4) by blast

end

end
