(* ===== verification/Outbox_Leases.thy ===== *)
theory Outbox_Leases
  imports Outbox_Worker Step_Systems
begin

text \<open>
  What leases guarantee when several workers share the queue: the interface \<open>lease_tokens\<close>, the
  step relation of interleaved workers with its invariant, the interpretation of the interface on
  it, the accounting of one worker's run, and the properties of the outbox worker.
\<close>

section \<open>Leases as an interface\<close>

text \<open>
  What a worker that holds a lease relies on, whatever the table behind it does: the states stay
  well formed, an issued token stays issued, and no step gives an issued token to an item that
  does not already hold it.
\<close>

locale lease_tokens = step_system step ok
  for step :: "'s \<Rightarrow> 's \<Rightarrow> bool" and ok :: "'s \<Rightarrow> bool" +
  fixes holder :: "'s \<Rightarrow> 'i \<Rightarrow> 't option"
    and issued :: "'s \<Rightarrow> 't \<Rightarrow> bool"
  assumes issued_step: "ok s \<Longrightarrow> step s s' \<Longrightarrow> issued s t \<Longrightarrow> issued s' t"
    and no_reissue: "ok s \<Longrightarrow> step s s' \<Longrightarrow> issued s t \<Longrightarrow> holder s' i = Some t \<Longrightarrow> holder s i = Some t"
begin

lemma issued_steps: "step\<^sup>*\<^sup>* s s' \<Longrightarrow> ok s \<Longrightarrow> issued s t \<Longrightarrow> issued s' t"
  by (induction rule: rtranclp_induct) (auto intro: issued_step ok_steps)

lemma lost_for_ever:
  assumes "step\<^sup>*\<^sup>* s s'" "ok s" "issued s t" "holder s i \<noteq> Some t"
  shows "holder s' i \<noteq> Some t"
  using assms
proof (induction rule: rtranclp_induct)
  case (step y z)
  have "ok y" "issued y t" using step.hyps(1) step.prems by (auto intro: ok_steps issued_steps)
  with no_reissue [OF this(1) step.hyps(2) this(2)] step show ?case by blast
qed

lemma exclusive:
  assumes "step\<^sup>*\<^sup>* s s'" "ok s" "issued s t" "issued s t'" "t \<noteq> t'"
  shows "holder s' i \<noteq> Some t \<or> holder s' i \<noteq> Some t'"
  using assms by auto

end

section \<open>Several workers on one queue\<close>

text \<open>
  The database and the claims workers hold in memory. Any number of workers, with any
  configuration, interleave their transactions; a worker that dies drops its claim.
\<close>

record queue_state =
  qs_db :: db
  qs_held :: "claimed list"

inductive queue_step :: "queue_state \<Rightarrow> queue_state \<Rightarrow> bool" where
  step_claim: "claim_next_message k (qs_db s) now wall lease loaders locked = Inr (d', cr) \<Longrightarrow>
    queue_step s (s\<lparr>qs_db := d', qs_held := (case cr_message cr of None \<Rightarrow> qs_held s | Some c \<Rightarrow> c # qs_held s)\<rparr>)"
| step_complete: "c \<in> set (qs_held s) \<Longrightarrow> deliver_claim w tk (qs_db s) c = (d', res) \<Longrightarrow>
    queue_step s (s\<lparr>qs_db := d', qs_held := remove1 c (qs_held s)\<rparr>)"
| step_crash: "c \<in> set (qs_held s) \<Longrightarrow> queue_step s (s\<lparr>qs_held := remove1 c (qs_held s)\<rparr>)"
| step_recover: "recover_expired_claims (qs_db s) now = Inr (d', n) \<Longrightarrow> queue_step s (s\<lparr>qs_db := d'\<rparr>)"
| step_requeue: "requeue_failed_message (qs_db s) oid confirmation extra now = Inr (d', e) \<Longrightarrow>
    queue_step s (s\<lparr>qs_db := d'\<rparr>)"
| step_enqueue: "enqueue_incident_created_notifications k (qs_db s) now i max_attempts = Inr (d', n) \<Longrightarrow>
    queue_step s (s\<lparr>qs_db := d'\<rparr>)"

inductive_cases queue_stepE: "queue_step s s'"

definition queue_inv :: "queue_state \<Rightarrow> bool" where
  "queue_inv s \<longleftrightarrow> outbox_inv (qs_db s)
     \<and> (\<forall>c \<in> set (qs_held s). cl_claim_token c < next_uuid (qs_db s))
     \<and> distinct (map cl_claim_token (qs_held s))"

text \<open>What every transaction on the queue has in common.\<close>

definition queue_change :: "db \<Rightarrow> db \<Rightarrow> bool" where
  "queue_change d d' \<longleftrightarrow> outbox_inv d' \<and> queue_advances (outbox d) (outbox d')
     \<and> next_uuid d \<le> next_uuid d'
     \<and> (\<forall>m' \<in> set (outbox d'). \<forall>t \<in> set_option (ob_claim_token m'). t < next_uuid d \<longrightarrow> m' \<in> set (outbox d))"

lemma queue_change_refl: "outbox_inv d \<Longrightarrow> queue_change d d"
  by (simp add: queue_change_def)

lemma release_keeps_tokens:
  assumes "\<And>m. P m \<Longrightarrow> ob_claim_token (f m) = None"
  shows "\<forall>m' \<in> set (update_where P f ms). \<forall>t \<in> set_option (ob_claim_token m'). t < n \<longrightarrow> m' \<in> set ms"
  using assms by (auto simp: set_update_where split: if_splits)

lemma claim_change:
  assumes "outbox_inv d" "claim_next_message k d now wall lease loaders locked = Inr (d', cr)"
  shows "queue_change d d'"
    and "\<forall>c \<in> set_option (cr_message cr). cl_claim_token c = next_uuid d \<and> next_uuid d < next_uuid d'"
proof -
  note keep = claim_next_message_inv [OF assms]
  from assms(2) have "next_uuid d \<le> next_uuid d' \<and>
    (\<forall>m' \<in> set (outbox d'). \<forall>t \<in> set_option (ob_claim_token m'). t < next_uuid d \<longrightarrow> m' \<in> set (outbox d))"
  proof (cases rule: claim_next_message_Inr)
    case (claimed m c)
    then show ?thesis by (auto simp: set_update_where split: if_splits)
  next
    case (refused m code d2)
    then show ?thesis by (auto simp: set_update_where split: if_splits)
  qed simp
  with keep show "queue_change d d'" by (auto simp: queue_change_def)
  from assms(2) show "\<forall>c \<in> set_option (cr_message cr). cl_claim_token c = next_uuid d \<and> next_uuid d < next_uuid d'"
    by (cases rule: claim_next_message_Inr) auto
qed

lemma complete_change:
  assumes "outbox_inv d" "deliver_claim w tk d c = (d', res)"
  shows "queue_change d d'"
  using assms(1)
proof (cases rule: deliver_claim_cases [where c = c and w = w and tk = tk])
  case lost
  with assms show ?thesis by (simp add: queue_change_refl)
next
  case (settled m f)
  with assms(2) have "d' = settled d c f" by simp
  with settled_inv [OF assms(1) settled(3), of c] release_keeps_tokens [of _ f] settles_row(2) [OF settled(3)]
  show ?thesis by (simp add: queue_change_def)
qed

lemma recover_change:
  assumes "outbox_inv d" "recover_expired_claims d now = Inr (d', n)"
  shows "queue_change d d'"
proof -
  from recover_inv(1) [OF assms(1), of now] assms(2)
  have "d' = d\<lparr>outbox := update_where (expired now) (release_row now now Lease_Expired) (outbox d)\<rparr>"
    by (auto simp del: update_where_Cons)
  with recover_inv(2) [OF assms] release_keeps_tokens [of "expired now" "release_row now now Lease_Expired"]
  show ?thesis by (simp add: queue_change_def)
qed

lemma requeue_change:
  assumes "outbox_inv d" "requeue_failed_message d oid confirmation extra now = Inr (d', e)"
  shows "queue_change d d'"
  using assms(2)
proof (rule requeue_Inr)
  fix m d1
  assume "d1 = d\<lparr>outbox := update_where (is_message oid) (requeue_row now (ob_max_attempts m + extra)) (outbox d)\<rparr>"
    "d' = logged d1 e"
  with requeue_inv [OF assms]
    release_keeps_tokens [of "is_message oid" "requeue_row now (ob_max_attempts m + extra)"]
  show ?thesis by (simp add: queue_change_def)
qed

lemma enqueue_change:
  assumes "outbox_inv d" "enqueue_incident_created_notifications k d now i n = Inr (d', c)"
  shows "queue_change d d'"
proof -
  from enqueue_Inr(1) [OF assms(2)] obtain p where
    d': "d' = with_outbox d (outbox_entries (next_uuid d) now i p n (eligible_destinations d i))" by blast
  have "\<forall>m \<in> set (outbox_entries q now i p n ts). ob_claim_token m = None" for q ts
    by (induction ts arbitrary: q) auto
  with enqueue_Inr(3) [OF assms(2,1)] show ?thesis by (auto simp: queue_change_def d')
qed

lemma queue_step_change:
  assumes "queue_inv s" "queue_step s s'"
  shows "queue_inv s' \<and> queue_change (qs_db s) (qs_db s')"
proof -
  have inv: "outbox_inv (qs_db s)" using assms(1) by (simp add: queue_inv_def)
  have keep: "queue_inv (s\<lparr>qs_db := d'\<rparr>)" if "queue_change (qs_db s) d'" for d'
    using that assms(1) by (auto simp: queue_inv_def queue_change_def)
  have drop: "queue_inv (t\<lparr>qs_held := remove1 c (qs_held t)\<rparr>)" if "queue_inv t" for t c
  proof -
    have "set (remove1 c (qs_held t)) \<subseteq> set (qs_held t)" by (rule set_remove1_subset)
    moreover have "distinct (map cl_claim_token (remove1 c (qs_held t)))"
      using that by (simp add: queue_inv_def distinct_map distinct_remove1 inj_on_def)
    ultimately show ?thesis using that by (auto simp: queue_inv_def)
  qed
  from assms(2) show ?thesis
  proof (cases rule: queue_stepE [consumes 1, case_names step_claim step_complete step_crash step_recover step_requeue step_enqueue])
    case (step_claim k now wall lease loaders locked d' cr)
    note ch = claim_change [OF inv step_claim(2)]
    have "queue_inv (s\<lparr>qs_db := d'\<rparr>)" using ch(1) by (rule keep)
    with ch assms(1) show ?thesis
      by (auto simp: step_claim(1) queue_inv_def split: option.splits)
  next
    case (step_complete c w tk d' res)
    have ch: "queue_change (qs_db s) d'" using inv step_complete(3) by (rule complete_change)
    from drop [OF keep [OF ch], of c] ch show ?thesis by (simp add: step_complete(1))
  next
    case (step_crash c)
    with drop [OF assms(1), of c] inv show ?thesis by (simp add: queue_change_refl)
  next
    case (step_recover now d' n)
    with recover_change [OF inv step_recover(2)] keep show ?thesis by simp
  next
    case (step_requeue oid confirmation extra now d' e)
    with requeue_change [OF inv step_requeue(2)] keep show ?thesis by simp
  next
    case (step_enqueue k now i n d' c)
    with enqueue_change [OF inv step_enqueue(2)] keep show ?thesis by simp
  qed
qed

definition token_of :: "queue_state \<Rightarrow> uuid \<Rightarrow> uuid option" where
  "token_of s oid = (case find_row ob_id oid (outbox (qs_db s)) of None \<Rightarrow> None | Some m \<Rightarrow> ob_claim_token m)"

definition token_issued :: "queue_state \<Rightarrow> uuid \<Rightarrow> bool" where
  "token_issued s t \<longleftrightarrow> t < next_uuid (qs_db s)"

interpretation queue: lease_tokens queue_step queue_inv token_of token_issued
proof unfold_locales
  fix s s' t
  assume "queue_inv s" "queue_step s s'" "token_issued s t"
  with queue_step_change show "token_issued s' t"
    by (auto simp: token_issued_def queue_change_def intro: less_le_trans)
next
  fix s s' t i
  assume *: "queue_inv s" "queue_step s s'" "token_issued s t" "token_of s' i = Some t"
  from *(4) obtain m where m: "find_row ob_id i (outbox (qs_db s')) = Some m" "ob_claim_token m = Some t"
    by (auto simp: token_of_def split: option.splits)
  with queue_step_change [OF *(1,2)] *(3) have "m \<in> set (outbox (qs_db s))" "ob_id m = i"
    by (auto simp: queue_change_def token_issued_def dest!: find_row_SomeD)
  moreover have "distinct (map ob_id (outbox (qs_db s)))"
    using *(1) by (simp add: queue_inv_def outbox_inv_def outbox_unique_def)
  ultimately have "find_row ob_id i (outbox (qs_db s)) = Some m" using find_row_distinct by metis
  with m(2) show "token_of s i = Some t" by (simp add: token_of_def)
qed (use queue_step_change in blast)

interpretation queue_history: forward_system queue_step queue_inv
  "\<lambda>s s'. queue_advances (outbox (qs_db s)) (outbox (qs_db s'))"
proof unfold_locales
  fix s s'
  assume "queue_inv s" "queue_step s s'"
  then show "queue_advances (outbox (qs_db s)) (outbox (qs_db s'))"
    using queue_step_change by (auto simp: queue_change_def)
qed (auto intro: queue_advances_trans)

lemma queue_steps_change:
  "queue_step\<^sup>*\<^sup>* s s' \<Longrightarrow> queue_inv s \<Longrightarrow>
    queue_inv s' \<and> queue_advances (outbox (qs_db s)) (outbox (qs_db s'))"
  by (blast intro: queue.ok_steps queue_history.later_steps)

lemma token_of_owned:
  assumes "outbox_inv (qs_db s)" "m \<in> set (outbox (qs_db s))" "owned oid t m"
  shows "token_of s oid = Some t"
proof -
  have "distinct (map ob_id (outbox (qs_db s)))" using assms(1) by (simp add: outbox_inv_def outbox_unique_def)
  from find_row_distinct [OF this assms(2)] assms(3) show ?thesis by (simp add: token_of_def owned_def)
qed

lemma not_holder_lost:
  assumes "outbox_inv (qs_db s)" "token_of s (cl_outbox_id c) \<noteq> Some (cl_claim_token c)"
  shows "deliver_claim w tk (qs_db s) c = (qs_db s, Inr None)"
  using assms(1)
proof (cases rule: deliver_claim_cases [where c = c and w = w and tk = tk])
  case (settled m f)
  with token_of_owned [OF assms(1) settled(1,2)] assms(2) show ?thesis by simp
qed

lemma settled_token_of:
  assumes "outbox_inv (qs_db s)" "deliver_claim w tk (qs_db s) c = (d', Inr (Some st))"
  shows "token_of (s\<lparr>qs_db := d'\<rparr>) (cl_outbox_id c) = None"
  using assms(1)
proof (cases rule: deliver_claim_cases [where c = c and w = w and tk = tk])
  case (settled m f)
  let ?o = "owned (cl_outbox_id c) (cl_claim_token c)"
  have d': "outbox d' = update_where ?o f (outbox (qs_db s))" using settled(4) assms(2) by auto
  have id: "ob_id m = cl_outbox_id c" using settled(2) by (simp add: owned_def)
  have "find_row ob_id (cl_outbox_id c) (outbox (qs_db s)) = Some m"
    using assms(1) settled(1) id find_row_distinct [of ob_id _ m]
    by (simp add: outbox_inv_def outbox_unique_def)
  moreover have "ob_id (f x) = ob_id x" for x using settles_row(1) [OF settled(3)] by (simp add: same_message_def)
  ultimately have "find_row ob_id (cl_outbox_id c) (outbox d') = Some (f m)"
    using settled(2) by (simp add: d' find_row_update_where)
  with settles_row(2) [OF settled(3)] show ?thesis by (simp add: token_of_def)
qed (use assms(2) in simp)

section \<open>The run of one worker\<close>

definition accounted :: "run_result \<Rightarrow> run_result \<Rightarrow> bool" where
  "accounted r r' \<longleftrightarrow> rn_lease_lost r' = rn_lease_lost r \<and> rn_processed r \<le> rn_processed r'
     \<and> rn_delivered r' + rn_deferred r' + rn_failed r' + rn_processed r
       = rn_delivered r + rn_deferred r + rn_failed r + rn_processed r'"

definition nothing_due :: "db \<Rightarrow> tick \<Rightarrow> bool" where
  "nothing_due d tk \<longleftrightarrow> (\<forall>m \<in> set (outbox d). \<not> claimable d (tk_claim_now tk) (tk_locked tk) m)"

lemma count_outcome_accounted:
  assumes "st \<noteq> Processing"
  shows "accounted r (count_outcome (Some st) (r\<lparr>rn_processed := Suc (rn_processed r)\<rparr>))"
    "rn_processed (count_outcome (Some st) (r\<lparr>rn_processed := Suc (rn_processed r)\<rparr>)) = Suc (rn_processed r)"
  using assms by (cases st; simp add: accounted_def)+

lemma accounted_trans: "accounted a b \<Longrightarrow> accounted b c \<Longrightarrow> accounted a c"
  by (auto simp: accounted_def)

lemma accounted_refl [simp]: "accounted r r"
  by (simp add: accounted_def)

lemma claimed_then_settled:
  assumes inv: "outbox_inv d" and claim: "claim_next_message k d now wall lease loaders locked = Inr (d1, cr)"
    and c: "cr_message cr = Some c"
  shows "\<exists>d2 st. deliver_claim w tk d1 c = (d2, Inr (Some st)) \<and> st \<noteq> Processing
    \<and> outbox_inv d2 \<and> queue_advances (outbox d1) (outbox d2)"
proof -
  have inv1: "outbox_inv d1" using claim_change(1) [OF inv claim] by (simp add: queue_change_def)
  from claim c obtain m where m: "m \<in> set (outbox d)" "cl_outbox_id c = ob_id m" "cl_claim_token c = next_uuid d"
    "d1 = claimed_db d m (claim_row (next_uuid d) now wall lease)"
    by (cases rule: claim_next_message_Inr) auto
  then have "claim_row (next_uuid d) now wall lease m \<in> set (outbox d1)"
    by (force simp: set_update_where is_message_def)
  moreover have "owned (cl_outbox_id c) (cl_claim_token c) (claim_row (next_uuid d) now wall lease m)"
    by (simp add: owned_def m)
  ultimately have own: "\<exists>x \<in> set (outbox d1). owned (cl_outbox_id c) (cl_claim_token c) x" by blast
  from inv1 show ?thesis
  proof (cases rule: deliver_claim_cases [where c = c and w = w and tk = tk])
    case lost
    with own show ?thesis by blast
  next
    case (settled x f)
    with settled_inv [OF inv1 settled(3), of c] settles_row(6) [OF settled(3), of x] show ?thesis by blast
  qed
qed

lemma run_loop_accounts:
  assumes "outbox_inv d" "0 < seconds (wk_lease_seconds w)"
  shows "\<exists>d' r'. run_loop n w ticks r d = (d', Inr r') \<and> outbox_inv d'
    \<and> queue_advances (outbox d) (outbox d') \<and> accounted r r' \<and> rn_processed r' \<le> rn_processed r + n
    \<and> (rn_processed r' = rn_processed r + n \<or> tk_stop (ticks (rn_processed r'))
        \<or> nothing_due d' (ticks (rn_processed r')))"
  using assms(1)
proof (induction n arbitrary: r d)
  case 0
  then show ?case by simp
next
  case (Suc n)
  define tk where "tk = ticks (rn_processed r)"
  let ?claim = "claim_next_message (wk_codec w) d (tk_claim_now tk) (tk_wall tk) (wk_lease_seconds w)
      (wk_loaders w) (tk_locked tk)"
  obtain d1 cr where claim: "?claim = Inr (d1, cr)"
    using claim_next_message_defined [OF Suc.prems assms(2)] by blast
  have ch: "outbox_inv d1 \<and> queue_advances (outbox d) (outbox d1)"
    using claim_change(1) [OF Suc.prems claim] by (simp add: queue_change_def)
  show ?case
  proof (cases "tk_stop tk")
    case True
    with Suc.prems show ?thesis by (simp add: tk_def)
  next
    case go: False
    show ?thesis
    proof (cases "cr_processed cr")
      case False
      with claim have "nothing_due d tk" "d1 = d"
        by (cases rule: claim_next_message_Inr; simp add: nothing_due_def)+
      with go False claim Suc.prems show ?thesis by (simp add: tk_def [symmetric])
    next
      case True
      obtain d2 r2 where step: "run_loop (Suc n) w ticks r d = run_loop n w ticks r2 d2"
        "outbox_inv d2" "queue_advances (outbox d) (outbox d2)" "accounted r r2"
        "rn_processed r2 = Suc (rn_processed r)"
      proof (cases "cr_message cr")
        case None
        with go True claim ch show ?thesis
          by (intro that [of "r\<lparr>rn_processed := Suc (rn_processed r), rn_failed := Suc (rn_failed r)\<rparr>" d1])
            (simp_all add: tk_def [symmetric] accounted_def Let_def)
      next
        case (Some c)
        from claimed_then_settled [OF Suc.prems claim Some, of w tk] obtain d2 st where
          d2: "deliver_claim w tk d1 c = (d2, Inr (Some st))" "st \<noteq> Processing"
            "outbox_inv d2" "queue_advances (outbox d1) (outbox d2)" by blast
        with go True claim ch Some show ?thesis
          by (intro that [of "count_outcome (Some st) (r\<lparr>rn_processed := Suc (rn_processed r)\<rparr>)" d2])
            (simp_all add: tk_def [symmetric] Let_def count_outcome_accounted queue_advances_trans [of _ "outbox d1"])
      qed
      from Suc.IH [OF step(2), of r2] show ?thesis
        using step by (auto intro: queue_advances_trans accounted_trans)
    qed
  qed
qed

section \<open>A concrete queue\<close>

definition sample_message :: outbox_row where
  "sample_message = outbox_entry 15 0 sample_incident (JObj []) 5 (sample_destination 11 True Low)"

definition sample_queue_db :: db where
  "sample_queue_db = sample_notify_db\<lparr>outbox := [sample_message], next_uuid := 30\<rparr>"

definition sample_envelope :: notification where
  "sample_envelope = \<lparr>nt_incident_id = 7, nt_server_id = 2, nt_rule_key = ''ssh_bruteforce'',
     nt_rule_version = 1, nt_severity = High, nt_title = [116], nt_title_en = None, nt_created_at = 0\<rparr>"

definition sample_worker :: worker where
  "sample_worker = \<lparr>wk_codec = \<lparr>model_dump = (\<lambda>_. JObj []), model_validate = (\<lambda>_. Some sample_envelope)\<rparr>,
     wk_adapters = [''telegram'' \<mapsto> (\<lambda>_. Returned \<lparr>dr_disposition = Result_Delivered,
       dr_error_code = None, dr_retry_after = None\<rparr>)],
     wk_loaders = Map.empty, wk_backoff = \<lparr>bo_base = 1, bo_maximum = 60, bo_retry_after_cap = 300\<rparr>,
     wk_lease_seconds = 60\<rparr>"

definition sample_tick :: tick where
  "sample_tick = \<lparr>tk_claim_now = 10, tk_done_now = 20, tk_wall = 10, tk_random = 0, tk_stop = False,
     tk_locked = (\<lambda>_. False)\<rparr>"

lemma sample_message_check: "outbox_check sample_message"
  unfolding sample_message_def by (rule outbox_entry_check) simp_all

lemma sample_message_columns:
  "ob_id sample_message = 15" "ob_status sample_message = Pending" "ob_attempt_count sample_message = 0"
  "ob_max_attempts sample_message = 5" "ob_next_attempt_at sample_message = Some 0"
  "ob_claim_token sample_message = None" "ob_destination_id sample_message = 11"
  "ob_idempotency_key sample_message = outbox_idempotency_key (ob_incident_id sample_message) (ob_destination_id sample_message)"
  by (simp_all add: sample_message_def) (simp_all add: outbox_entry_def sample_destination_def)

lemma sample_queue_inv: "outbox_inv sample_queue_db" "outbox sample_queue_db = [sample_message]"
  "next_uuid sample_queue_db = 30"
  using sample_message_check sample_message_columns
  by (simp_all add: sample_queue_db_def outbox_inv_def outbox_unique_def tokens_apart_def)

lemma sixty_seconds: "0 < seconds 60"
  by (rule seconds_pos) simp

lemma sample_claimable: "claimable sample_queue_db 10 (\<lambda>_. False) sample_message"
  by (simp add: claimable_def sample_message_columns)
    (simp add: sample_queue_db_def sample_notify_db_def sample_destination_def)

definition sample_held_db :: db where
  "sample_held_db = claimed_db sample_queue_db sample_message (claim_row 30 10 10 60)"

definition sample_claim :: claimed where
  "sample_claim = claimed_message sample_message (sample_destination 11 True Low) sample_envelope 30 None"

lemma sample_held:
  "outbox_inv sample_held_db" "next_uuid sample_held_db = 31"
  "claim_row 30 10 10 60 sample_message \<in> set (outbox sample_held_db)"
  "owned (cl_outbox_id sample_claim) (cl_claim_token sample_claim) (claim_row 30 10 10 60 sample_message)"
proof -
  have "outbox_check (claim_row 30 10 10 60 sample_message)"
    using sample_message_check sample_message_columns sixty_seconds by (intro check_claim_row) simp_all
  then have "update_outbox (sample_queue_db\<lparr>next_uuid := Suc (next_uuid sample_queue_db)\<rparr>)
      (is_message (ob_id sample_message)) (claim_row 30 10 10 60) = Inr sample_held_db"
    by (simp add: update_outbox_Inr sample_held_db_def claimed_db_def sample_queue_inv)
  with sample_queue_inv(1) show "outbox_inv sample_held_db"
    by (rule outbox_inv_claim) (simp_all add: sample_queue_inv)
  show "next_uuid sample_held_db = 31" by (simp add: sample_held_db_def sample_queue_inv)
  show "claim_row 30 10 10 60 sample_message \<in> set (outbox sample_held_db)"
    by (simp add: sample_held_db_def sample_queue_inv is_message_def)
  show "owned (cl_outbox_id sample_claim) (cl_claim_token sample_claim) (claim_row 30 10 10 60 sample_message)"
    by (simp add: owned_def sample_claim_def claimed_message_def)
qed

section \<open>Properties\<close>

text \<open>C7: Whatever claims, completions, crashes, lease recoveries, confirmed requeues and new
  notifications any number of workers interleave, the queue stays consistent: every row satisfies
  the table's CHECK and unique constraints, no lease token is shared, and every message of the
  queue keeps its identity and payload, never loses attempts, never exceeds its attempt limit nor
  twenty attempts, and once delivered never changes again.\<close>

theorem queue_stays_consistent:
  assumes "queue_inv s" "queue_step\<^sup>*\<^sup>* s s'"
  shows "queue_inv s' \<and> (\<forall>m \<in> set (outbox (qs_db s)). \<exists>m' \<in> set (outbox (qs_db s')).
    same_message m m' \<and> ob_attempt_count m \<le> ob_attempt_count m'
    \<and> ob_attempt_count m' \<le> ob_max_attempts m' \<and> ob_max_attempts m' \<le> 20
    \<and> outbox_check m' \<and> (ob_status m = Delivered \<longrightarrow> m' = m))"
proof -
  from queue_steps_change [OF assms(2,1)]
  have inv: "queue_inv s'" and adv: "queue_advances (outbox (qs_db s)) (outbox (qs_db s'))" by simp_all
  have chk: "outbox_check m'" if "m' \<in> set (outbox (qs_db s'))" for m'
    using inv that by (simp add: queue_inv_def outbox_inv_def)
  show ?thesis
    using inv adv chk unfolding queue_advances_def message_advances_def
    by (fastforce simp: outbox_check_def)
qed

theorem queue_stays_consistent_witness:
  "queue_inv \<lparr>qs_db = sample_held_db, qs_held = [sample_claim]\<rparr>
    \<and> (\<exists>m' \<in> set (outbox sample_held_db). ob_max_attempts m' \<le> 20)"
proof -
  have "queue_inv \<lparr>qs_db = sample_held_db, qs_held = [sample_claim]\<rparr>"
    using sample_held(1,2) by (simp add: queue_inv_def sample_claim_def claimed_message_def)
  from queue_stays_consistent [OF this rtranclp.rtrancl_refl] sample_held(3) show ?thesis by auto
qed

text \<open>C9: A settled claim is dead, and so is every other claim handed out for its message before. Once
  some worker's completion of a claim has settled a message (delivered, rescheduled or failed), then
  after any further interleaving a completion of any claim issued for that message up to then
  writes nothing and reports a lost lease, whatever its adapter answers.\<close>

theorem settled_claims_are_dead:
  assumes inv: "queue_inv s"
    and settled: "deliver_claim w tk (qs_db s) c = (d', Inr (Some st))"
    and later: "queue_step\<^sup>*\<^sup>* (s\<lparr>qs_db := d'\<rparr>) s'"
    and same: "cl_outbox_id c' = cl_outbox_id c" "cl_claim_token c' < next_uuid (qs_db s)"
  shows "deliver_claim w' tk' (qs_db s') c' = (qs_db s', Inr None)"
proof -
  let ?s1 = "s\<lparr>qs_db := d'\<rparr>"
  have inv0: "outbox_inv (qs_db s)" using inv by (simp add: queue_inv_def)
  have ch: "queue_change (qs_db s) d'" using inv0 settled by (rule complete_change)
  then have inv1: "queue_inv ?s1" using inv by (auto simp: queue_inv_def queue_change_def)
  have "token_issued ?s1 (cl_claim_token c')"
    using same(2) ch by (simp add: token_issued_def queue_change_def)
  moreover have "token_of ?s1 (cl_outbox_id c') \<noteq> Some (cl_claim_token c')"
    using settled_token_of [OF inv0 settled] same(1) by simp
  ultimately have "token_of s' (cl_outbox_id c') \<noteq> Some (cl_claim_token c')"
    using queue.lost_for_ever [OF later inv1] by blast
  moreover have "outbox_inv (qs_db s')" using queue.ok_steps [OF later inv1] by (simp add: queue_inv_def)
  ultimately show ?thesis by (intro not_holder_lost)
qed

theorem settled_claims_are_dead_witness:
  "\<exists>d'. deliver_claim sample_worker sample_tick sample_held_db sample_claim = (d', Inr (Some Delivered))
    \<and> deliver_claim sample_worker sample_tick d' sample_claim = (d', Inr None)"
proof -
  let ?s = "\<lparr>qs_db = sample_held_db, qs_held = [sample_claim]\<rparr>"
  have inv: "queue_inv ?s"
    using sample_held(1,2) by (simp add: queue_inv_def sample_claim_def claimed_message_def)
  have "deliver_claim sample_worker sample_tick sample_held_db sample_claim
      = complete_delivered sample_tick sample_held_db sample_claim"
    by (simp add: deliver_claim_def sample_worker_def sample_claim_def claimed_message_def sample_destination_def)
  with complete_settled(1) [OF sample_held(1,3,4), of sample_tick] obtain d' where
    d': "deliver_claim sample_worker sample_tick sample_held_db sample_claim = (d', Inr (Some Delivered))"
    by simp
  from settled_claims_are_dead [OF inv, of sample_worker sample_tick sample_claim d' Delivered
      "?s\<lparr>qs_db := d'\<rparr>" sample_claim sample_worker sample_tick] d' sample_held(2)
  show ?thesis by (simp add: sample_claim_def claimed_message_def)
qed

text \<open>A claim takes the first due message and no other. With a positive lease it never fails on a
  consistent queue; when no unlocked pending message with attempts left is due it changes nothing;
  otherwise it takes the least of these by due time, creation time and identifier, counts one
  attempt, leaves every other row as it was, and either hands the message out under a token never
  issued before that expires after the lease, or fails the message (destination disabled or not
  configured, invalid payload) and hands out nothing.\<close>

theorem claim_takes_first_due:
  assumes inv: "outbox_inv d" and lease: "0 < seconds lease"
  shows "\<exists>d' cr. claim_next_message k d now wall lease loaders locked = Inr (d', cr)
    \<and> (if \<forall>m \<in> set (outbox d). \<not> claimable d now locked m
        then \<not> cr_processed cr \<and> d' = d
        else cr_processed cr \<and> (\<exists>m \<in> set (outbox d). claimable d now locked m
          \<and> (\<forall>x \<in> set (outbox d). claimable d now locked x \<longrightarrow> due_order m \<le> due_order x)
          \<and> (\<exists>f. outbox d' = update_where (\<lambda>x. ob_id x = ob_id m) f (outbox d)
               \<and> ob_attempt_count (f m) = ob_attempt_count m + 1
               \<and> (case cr_message cr of
                    None \<Rightarrow> ob_status (f m) = Failed
                  | Some c \<Rightarrow> ob_status (f m) = Processing
                      \<and> ob_claim_token (f m) = Some (cl_claim_token c)
                      \<and> ob_lease_expires_at (f m) = Some (now + seconds lease)
                      \<and> cl_outbox_id c = ob_id m \<and> next_uuid d \<le> cl_claim_token c
                      \<and> model_validate k (ob_payload m) = Some (cl_payload c)))))"
proof -
  obtain d' cr where run: "claim_next_message k d now wall lease loaders locked = Inr (d', cr)"
    using claim_next_message_defined [OF assms] by blast
  have eq: "is_message (ob_id m) = (\<lambda>x. ob_id x = ob_id m)" for m by (auto simp: is_message_def)
  from run show ?thesis
  proof (cases rule: claim_next_message_Inr)
    case nothing
    with run show ?thesis by simp
  next
    case (claimed m c)
    let ?f = "claim_row (next_uuid d) now wall lease"
    have "ob_lease_expires_at (?f m) = Some (now + seconds lease)" by (simp add: claim_row_def)
    with claimed run show ?thesis
      by (intro exI [of _ d'] exI [of _ cr]) (auto simp: eq intro!: bexI [of _ m] exI [of _ ?f])
  next
    case (refused m code d2)
    let ?f = "\<lambda>m. fail_row now code (claim_row (next_uuid d) now wall lease m)"
    from refused run show ?thesis
      by (intro exI [of _ d'] exI [of _ cr]) (auto simp: eq intro!: bexI [of _ m] exI [of _ ?f])
  qed
qed

theorem claim_takes_first_due_witness:
  "\<exists>d' cr. claim_next_message (wk_codec sample_worker) sample_queue_db 10 10 60 Map.empty (\<lambda>_. False) = Inr (d', cr)
    \<and> cr_processed cr"
  using claim_takes_first_due [OF sample_queue_inv(1) sixty_seconds, of "wk_codec sample_worker" 10 10 Map.empty "\<lambda>_. False"]
    sample_claimable sample_queue_inv(2) by auto

text \<open>C24: An uncontended run is complete and accounts for every message. On a consistent queue with a
  positive lease and a limit from 1 to 100, a run without recovery raises nothing, keeps the queue
  consistent, never loses a lease, processes at most the limit, and counts every processed message
  as delivered, deferred or failed; it stops short of its limit only when it was asked to stop or
  nothing was due.\<close>

theorem run_once_accounts:
  assumes "outbox_inv d" "0 < seconds (wk_lease_seconds w)" "1 \<le> limit" "limit \<le> 100"
  shows "\<exists>d' r. run_once limit False w now ticks d = (d', Inr r) \<and> outbox_inv d'
    \<and> rn_processed r \<le> limit \<and> rn_lease_lost r = 0
    \<and> rn_processed r = rn_delivered r + rn_deferred r + rn_failed r
    \<and> (rn_processed r < limit \<longrightarrow> tk_stop (ticks (rn_processed r))
        \<or> (\<forall>m \<in> set (outbox d'). \<not> claimable d' (tk_claim_now (ticks (rn_processed r)))
             (tk_locked (ticks (rn_processed r))) m))"
  using run_loop_accounts [OF assms(1,2), of limit ticks no_result] assms(3,4)
  by (auto simp: run_once_def accounted_def no_result_def nothing_due_def)

theorem run_once_accounts_witness:
  "\<exists>d' r. run_once 2 False sample_worker 0 (\<lambda>_. sample_tick) sample_queue_db = (d', Inr r)
    \<and> rn_lease_lost r = 0"
proof -
  have "0 < seconds (wk_lease_seconds sample_worker)" using sixty_seconds by (simp add: sample_worker_def)
  from run_once_accounts [OF sample_queue_inv(1) this, of 2] show ?thesis by fastforce
qed

text \<open>C25: The backoff is bounded. A delay is at least half the exponential step and at most the larger
  of the configured maximum and the cap on hints; it is positive; and a finite hint of the provider
  is honoured up to that cap, while any other hint is ignored.\<close>

theorem backoff_within_bounds:
  assumes b: "make_backoff base maximum cap = Inr b" and rnd: "0 \<le> rnd" "rnd < 1"
  shows "0 < backoff_delay b rnd n hint
    \<and> min maximum (base * 2 ^ nat (max 0 (min (n - 1) 30))) / 2 \<le> backoff_delay b rnd n hint
    \<and> backoff_delay b rnd n hint \<le> max maximum cap
    \<and> (\<forall>q. hint = Some (Finite q) \<longrightarrow> min q cap \<le> backoff_delay b rnd n hint)
    \<and> ((\<nexists>q. hint = Some (Finite q)) \<longrightarrow> backoff_delay b rnd n hint \<le> maximum)"
proof -
  from b have b': "b = \<lparr>bo_base = base, bo_maximum = maximum, bo_retry_after_cap = cap\<rparr>"
    and pos: "0 < base" "base \<le> maximum" "0 \<le> cap"
    by (auto simp: make_backoff_def bind_r_eq_Inr)
  define c where "c = min maximum (base * 2 ^ nat (max 0 (min (n - 1) 30)))"
  define e where "e = c / 2 + rnd * c / 2"
  have c: "0 < c" "c \<le> maximum" using pos by (auto simp: c_def)
  have step: "rnd * c \<le> c" "0 \<le> rnd * c" using rnd c(1) by (simp_all add: mult_left_le_one_le)
  then have "e \<le> c" by (simp add: e_def)
  moreover have "c / 2 \<le> e" using step by (simp add: e_def)
  ultimately have e: "c / 2 \<le> e" "e \<le> maximum" "0 < e" using c by simp_all
  have delay: "backoff_delay b rnd n hint = (case hint of
      Some (Finite q) \<Rightarrow> max e (max 0 (min q cap)) | _ \<Rightarrow> e)"
    by (simp add: backoff_delay_def Let_def b' e_def c_def split: option.split py_number.split)
  show ?thesis
    unfolding c_def [symmetric] delay using e pos
    by (auto split: option.splits py_number.splits)
qed

theorem backoff_within_bounds_witness:
  "make_backoff 1 60 300 = Inr \<lparr>bo_base = 1, bo_maximum = 60, bo_retry_after_cap = 300\<rparr>
    \<and> backoff_delay \<lparr>bo_base = 1, bo_maximum = 60, bo_retry_after_cap = 300\<rparr> (1 / 2) 3 None \<le> 60"
proof -
  have m: "make_backoff 1 60 300 = Inr \<lparr>bo_base = 1, bo_maximum = 60, bo_retry_after_cap = 300\<rparr>"
    by (simp add: make_backoff_def)
  from backoff_within_bounds [OF m, of "1 / 2" 3 None] m show ?thesis by simp
qed

text \<open>C26: A failed message is requeued exactly when the operator repeats its identifier, grants 1 to 5
  further attempts, the message exists and has failed, and its limit would stay within 20. Then the
  message is pending again with its attempts kept and its limit raised, and one audit record of the
  action is appended; otherwise nothing happens but the error.\<close>

theorem requeue_is_confirmed_and_bounded:
  assumes inv: "outbox_inv d"
  shows "if confirmation = oid \<and> 1 \<le> extra \<and> extra \<le> 5
      \<and> (\<exists>m \<in> set (outbox d). ob_id m = oid \<and> ob_status m = Failed \<and> ob_max_attempts m + extra \<le> 20)
    then \<exists>d' e m. requeue_failed_message d oid confirmation extra now = Inr (d', e)
      \<and> m \<in> set (outbox d) \<and> ob_id m = oid \<and> ob_status m = Failed
      \<and> outbox d' = update_where (\<lambda>x. ob_id x = oid) (requeue_row now (ob_max_attempts m + extra)) (outbox d)
      \<and> audit_log d' = audit_log d @ [e] \<and> au_action e = ''outbox.failed_requeued'' \<and> au_target_id e = oid
    else \<exists>msg. requeue_failed_message d oid confirmation extra now = Inl (OutboxOperationError msg)"
    (is "if ?ok then ?done else ?error")
proof (cases ?ok)
  case ok: True
  then obtain m where m: "m \<in> set (outbox d)" "ob_id m = oid" "ob_status m = Failed"
    "ob_max_attempts m + extra \<le> 20" by blast
  let ?f = "requeue_row now (ob_max_attempts m + extra)"
  let ?d1 = "d\<lparr>outbox := update_where (is_message oid) ?f (outbox d)\<rparr>"
  have row: "find_row ob_id oid (outbox d) = Some m"
    using inv m(1,2) find_row_distinct [of ob_id "outbox d" m] by (simp add: outbox_inv_def outbox_unique_def)
  have chk: "outbox_check m" "1 \<le> ob_attempt_count m" using inv m(1,3) by (auto simp: outbox_inv_def)
  then have "outbox_check (?f m)" using ok m(4) by (intro check_requeue_row) simp_all
  then have up: "update_outbox d (is_message oid) ?f = Inr ?d1"
    using m(2) is_message_unique [OF inv m(1)] by (auto simp: update_outbox_Inr)
  have "ob_attempt_count m \<le> 20" "1 \<le> ob_max_attempts m" using chk m(4) ok by (auto simp: outbox_check_def)
  then obtain d' e where rec: "record_local_cli_action ?d1 now ''outbox.failed_requeued'' ''outbox_message'' oid
       [(''from_attempt_count'', JInt (ob_attempt_count m)), (''from_max_attempts'', JInt (ob_max_attempts m)),
        (''to_max_attempts'', JInt (ob_max_attempts m + extra))] = Inr (d', e)"
    using ok m(4) chk(2)
    by (simp add: record_local_cli_action_def validate_audit_action_def registry_outbox_requeued
        obj_get_def max_database_integer_def forbidden_fields_def casefold_def is_upper_def uuid4_def Let_def)
  have "requeue_failed_message d oid confirmation extra now = Inr (d', e)"
    using ok row m(3,4) up rec by (simp add: requeue_failed_message_def Let_def)
  moreover have "is_message oid = (\<lambda>x. ob_id x = oid)" by (auto simp: is_message_def)
  ultimately have ?done
    using m record_local_cli_action_Inr(1,4,5) [OF rec] by (intro exI [of _ d'] exI [of _ e] exI [of _ m]) simp
  with ok show ?thesis by simp
next
  case False
  moreover have ?error
    using False unfolding requeue_failed_message_def not_available_def
    by (auto simp: guard_r_def Let_def dest: find_row_SomeD split: option.splits)
  ultimately show ?thesis by (simp only: if_False)
qed

theorem requeue_is_confirmed_and_bounded_witness:
  "\<exists>msg. requeue_failed_message sample_queue_db 15 15 2 0 = Inl (OutboxOperationError msg)"
  using requeue_is_confirmed_and_bounded [OF sample_queue_inv(1), of 15 15 2 0]
  by (simp add: sample_queue_inv(2) sample_message_columns)

end
