(* ===== verification/Rules.thy ===== *)
theory Rules
  imports Unicode_Text Database
begin

text \<open>
  \<open>application/detection/rules.py\<close>: rule definitions as data, the field constraints of the
  models, the loading of a rules directory, and the checksum. Parsing YAML and converting between
  JSON and the models is done by PyYAML and pydantic, outside the repository: a \<open>rule_codec\<close>, an
  argument of the definitions that use it; the constraints the models declare are concrete.
\<close>

section \<open>Definitions\<close>

datatype supported_event_type =
    Ssh_Authentication_Failed
  | Ssh_Login_Succeeded
  | Sudo_Authentication_Failed
  | User_Created
  | Privileged_Group_Changed
  | Nginx_Request_Failed
  | Cron_Job_Changed
  | Systemd_Unit_Stopped
  | File_Changed

fun event_type_value :: "supported_event_type \<Rightarrow> string" where
  "event_type_value Ssh_Authentication_Failed = ''linux.ssh.authentication_failed''"
| "event_type_value Ssh_Login_Succeeded = ''linux.ssh.login_succeeded''"
| "event_type_value Sudo_Authentication_Failed = ''linux.sudo.authentication_failed''"
| "event_type_value User_Created = ''linux.account.user_created''"
| "event_type_value Privileged_Group_Changed = ''linux.account.privileged_group_changed''"
| "event_type_value Nginx_Request_Failed = ''web.nginx.request_failed''"
| "event_type_value Cron_Job_Changed = ''linux.cron.job_changed''"
| "event_type_value Systemd_Unit_Stopped = ''linux.systemd.unit_stopped''"
| "event_type_value File_Changed = ''linux.file.changed''"

text \<open>Both fields are optional; \<open>None\<close> of \<open>equals\<close> is also what JSON \<open>null\<close> reads as.\<close>

record field_matcher =
  fm_equals :: "json option"
  fm_one_of :: "json list option"

record event_condition =
  ec_event_type :: supported_event_type
  ec_filters :: "(string \<times> field_matcher) list"

record sequence_step =
  ss_condition :: event_condition
  ss_repeat_at_least :: nat

datatype condition =
    Single event_condition
  | Threshold event_condition (threshold_of: nat) (window_of: nat) (group_of: "string list")
  | Distinct_Count event_condition string nat nat nat "string list"
  | Sequence nat "sequence_step list"
  | First_Seen event_condition string "string list" nat nat

record rule =
  ru_rule_key :: string
  ru_version :: int
  ru_enabled :: bool
  ru_severity :: severity
  ru_title :: ustring
  ru_description :: ustring
  ru_explanation :: ustring
  ru_recommendation :: ustring
  ru_title_en :: "ustring option"
  ru_description_en :: "ustring option"
  ru_explanation_en :: "ustring option"
  ru_recommendation_en :: "ustring option"
  ru_mitre_attack_ids :: "string list"
  ru_condition :: condition
  ru_correlation_fields :: "string list"

section \<open>Field constraints\<close>

definition word_char :: "char \<Rightarrow> bool" where
  "word_char c \<longleftrightarrow> is_lower c \<or> is_digit c \<or> c = CHR ''_''"

definition field_path_ok :: "string \<Rightarrow> bool" where
  "field_path_ok s \<longleftrightarrow> list_all (\<lambda>p. head_run is_lower word_char 0 (length p) p) (split_on (CHR ''.'') s)"

definition rule_key_ok :: "string \<Rightarrow> bool" where
  "rule_key_ok = head_run is_lower word_char 0 99"

definition mitre_id_ok :: "string \<Rightarrow> bool" where
  "mitre_id_ok s \<longleftrightarrow> (case s of [] \<Rightarrow> False | t # rest \<Rightarrow> t = CHR ''T''
     \<and> list_all is_digit (take 4 rest) \<and> 4 \<le> length rest
     \<and> (drop 4 rest = [] \<or> (hd (drop 4 rest) = CHR ''.'' \<and> length (drop 5 rest) = 3
          \<and> list_all is_digit (drop 5 rest))))"

text \<open>\<open>exactly_one_matcher\<close> and \<open>min_length=1\<close>.\<close>

definition matcher_ok :: "field_matcher \<Rightarrow> bool" where
  "matcher_ok m \<longleftrightarrow> (fm_equals m = None) \<noteq> (fm_one_of m = None)
     \<and> fm_equals m \<noteq> Some JNull \<and> fm_one_of m \<noteq> Some []"

definition event_condition_ok :: "event_condition \<Rightarrow> bool" where
  "event_condition_ok c \<longleftrightarrow> list_all (\<lambda>(f, m). field_path_ok f \<and> matcher_ok m) (ec_filters c)
     \<and> distinct (map fst (ec_filters c))"

definition field_list_ok :: "string list \<Rightarrow> bool" where
  "field_list_ok fs \<longleftrightarrow> fs \<noteq> [] \<and> list_all field_path_ok fs"

fun condition_ok :: "condition \<Rightarrow> bool" where
  "condition_ok (Single c) \<longleftrightarrow> event_condition_ok c"
| "condition_ok (Threshold c threshold window group_by) \<longleftrightarrow>
     event_condition_ok c \<and> 0 < threshold \<and> 0 < window \<and> field_list_ok group_by"
| "condition_ok (Distinct_Count c distinct_field distinct_threshold minimum_events window group_by) \<longleftrightarrow>
     event_condition_ok c \<and> field_path_ok distinct_field \<and> 0 < distinct_threshold
     \<and> 0 < minimum_events \<and> 0 < window \<and> field_list_ok group_by"
| "condition_ok (Sequence window steps) \<longleftrightarrow> 0 < window \<and> 2 \<le> length steps
     \<and> list_all (\<lambda>s. event_condition_ok (ss_condition s) \<and> 0 < ss_repeat_at_least s) steps"
| "condition_ok (First_Seen c value_field scope_fields lookback baseline) \<longleftrightarrow>
     event_condition_ok c \<and> field_path_ok value_field \<and> field_list_ok scope_fields \<and> 0 < lookback"

text \<open>\<open>field_lists_are_unique\<close>.\<close>

definition unique_field_lists :: "rule \<Rightarrow> bool" where
  "unique_field_lists r \<longleftrightarrow> distinct (ru_correlation_fields r)
     \<and> (case ru_condition r of
          Threshold _ _ _ group_by \<Rightarrow> distinct group_by
        | Distinct_Count _ _ _ _ _ group_by \<Rightarrow> distinct group_by
        | First_Seen _ _ scope_fields _ _ \<Rightarrow> distinct scope_fields
        | _ \<Rightarrow> True)"

definition prose_ok :: "ustring \<Rightarrow> nat \<Rightarrow> bool" where
  "prose_ok s most \<longleftrightarrow> 1 \<le> length s \<and> length s \<le> most"

definition optional_prose_ok :: "ustring option \<Rightarrow> nat \<Rightarrow> bool" where
  "optional_prose_ok s most \<longleftrightarrow> (case s of None \<Rightarrow> True | Some t \<Rightarrow> prose_ok t most)"

definition rule_ok :: "rule \<Rightarrow> bool" where
  "rule_ok r \<longleftrightarrow> rule_key_ok (ru_rule_key r) \<and> 0 < ru_version r
     \<and> prose_ok (ru_title r) 255 \<and> prose_ok (ru_description r) 2000
     \<and> prose_ok (ru_explanation r) 4000 \<and> prose_ok (ru_recommendation r) 4000
     \<and> optional_prose_ok (ru_title_en r) 255 \<and> optional_prose_ok (ru_description_en r) 2000
     \<and> optional_prose_ok (ru_explanation_en r) 4000 \<and> optional_prose_ok (ru_recommendation_en r) 4000
     \<and> list_all mitre_id_ok (ru_mitre_attack_ids r) \<and> condition_ok (ru_condition r)
     \<and> field_list_ok (ru_correlation_fields r) \<and> unique_field_lists r"

section \<open>Codec, checksum and loading\<close>

record rule_codec =
  rule_dump :: "rule \<Rightarrow> json"
  rule_parse :: "json \<Rightarrow> rule option"

text \<open>\<open>RuleDefinition.model_validate\<close>: what pydantic reads, if the declared constraints hold.\<close>

definition rule_model_validate :: "rule_codec \<Rightarrow> json \<Rightarrow> rule option" where
  "rule_model_validate k j = (case rule_parse k j of
     None \<Rightarrow> None
   | Some r \<Rightarrow> if rule_ok r then Some r else None)"

definition canonical_rule :: "rule_codec \<Rightarrow> rule \<Rightarrow> json" where
  "canonical_rule k r = rule_dump k r"

definition rule_checksum :: "(string \<Rightarrow> string) \<Rightarrow> rule_codec \<Rightarrow> rule \<Rightarrow> string" where
  "rule_checksum sha256_hex k r = sha256_hex (dumps (canonical_rule k r))"

definition validate_rule_key :: "string \<Rightarrow> string result" where
  "validate_rule_key s = bind_r (guard_r (rule_key_ok s) (ValueError ''invalid rule key'')) (\<lambda>_. Inr s)"

definition translated :: "rule \<Rightarrow> bool" where
  "translated r \<longleftrightarrow> ru_title_en r \<noteq> None \<and> ru_description_en r \<noteq> None
     \<and> ru_explanation_en r \<noteq> None \<and> ru_recommendation_en r \<noteq> None"

fun load_rule_files :: "rule_codec \<Rightarrow> (string \<times> json option) list \<Rightarrow> rule list result" where
  "load_rule_files k [] = Inr []"
| "load_rule_files k ((name, document) # files) =
     (case document of
        None \<Rightarrow> Inl (RuleValidationError (''invalid rule file: '' @ name))
      | Some j \<Rightarrow>
        (case rule_model_validate k j of
           None \<Rightarrow> Inl (RuleValidationError (''invalid rule file: '' @ name))
         | Some r \<Rightarrow>
           bind_r (guard_r (translated r)
             (RuleValidationError (''rule file is missing English prose: '' @ name))) (\<lambda>_.
           bind_r (load_rule_files k files) (\<lambda>rs. Inr (r # rs)))))"

text \<open>
  The directory as its YAML files: name and parsed document, \<open>None\<close> for one that cannot be read or
  parsed; \<open>None\<close> for a path that is no directory.
\<close>

definition load_rules_directory :: "rule_codec \<Rightarrow> (string \<times> json option) list option \<Rightarrow> rule list result" where
  "load_rules_directory k directory = (case directory of
     None \<Rightarrow> Inl (RuleValidationError ''rules directory is unavailable'')
   | Some files \<Rightarrow>
     bind_r (guard_r (files \<noteq> []) (RuleValidationError ''rules directory contains no YAML files'')) (\<lambda>_.
     bind_r (load_rule_files k (sort_key fst files)) (\<lambda>rules.
     bind_r (guard_r (distinct (map ru_rule_key rules))
       (RuleValidationError ''rules directory contains duplicate rule keys'')) (\<lambda>_.
     Inr rules))))"

lemma rule_model_validate_ok: "rule_model_validate k j = Some r \<Longrightarrow> rule_ok r"
  by (auto simp: rule_model_validate_def split: option.splits if_splits)

lemma load_rule_files_ok:
  "load_rule_files k files = Inr rs \<Longrightarrow> (\<forall>r \<in> set rs. rule_ok r \<and> translated r) \<and> length rs = length files"
  by (induction k files arbitrary: rs rule: load_rule_files.induct)
    (auto simp: bind_r_eq_Inr dest: rule_model_validate_ok split: option.splits)

section \<open>Properties\<close>

text \<open>A rules directory is accepted only as a whole: when loading returns, every file gave exactly
  one rule, every rule satisfies all declared constraints and carries its English prose, and no two
  rules share a key; otherwise loading is a safe error and no rule is returned.\<close>

theorem loaded_rules_are_valid:
  "case load_rules_directory k directory of
     Inl e \<Rightarrow> \<exists>msg. e = RuleValidationError msg
   | Inr rules \<Rightarrow> \<exists>files. directory = Some files \<and> rules \<noteq> [] \<and> length rules = length files
       \<and> distinct (map ru_rule_key rules)
       \<and> list_all rule_ok rules \<and> list_all translated rules"
proof -
  have err: "\<exists>msg. e = RuleValidationError msg" if "load_rule_files k files = Inl e" for files e
    using that by (induction k files rule: load_rule_files.induct)
      (auto simp: bind_r_eq_Inl split: option.splits)
  show ?thesis
  proof (cases "load_rules_directory k directory")
    case (Inl e)
    then show ?thesis
      by (auto simp: load_rules_directory_def bind_r_eq_Inl split: option.splits dest: err)
  next
    case (Inr rules)
    then obtain files where f: "directory = Some files" "files \<noteq> []" "distinct (map ru_rule_key rules)"
      "load_rule_files k (sort_key fst files) = Inr rules"
      by (auto simp: load_rules_directory_def bind_r_eq_Inr split: option.splits)
    from load_rule_files_ok [OF f(4)] f(2) have "rules \<noteq> []" by auto
    with f(1,3) load_rule_files_ok [OF f(4)] Inr show ?thesis by (auto simp: list_all_iff)
  qed
qed

end
