(* ===== verification/Rule_Evaluation.thy ===== *)
theory Rule_Evaluation
  imports Rules "HOL-Library.Multiset"
begin

text \<open>
  The evaluation of one rule in \<open>application/detection/engine.py\<close>: field lookup in event
  payloads, event matching, correlation, and the five kinds of condition over an explicit history,
  with the reference specification of a sequence: the greedy backward scan finds a match exactly
  when some choice of events satisfies the steps.
\<close>

section \<open>Field values\<close>

fun walk_path :: "json \<Rightarrow> string list \<Rightarrow> json option" where
  "walk_path j [] = Some j"
| "walk_path (JObj kvs) (p # ps) = (case obj_get kvs p of None \<Rightarrow> None | Some v \<Rightarrow> walk_path v ps)"
| "walk_path _ (p # ps) = None"

text \<open>The object the path starts in: the payload, or its \<open>attributes\<close> when only they have the key.\<close>

definition path_root :: "json \<Rightarrow> string \<Rightarrow> json" where
  "path_root payload first = (case payload of
     JObj kvs \<Rightarrow>
       if obj_get kvs first = None
       then (case obj_get kvs ''attributes'' of
               Some (JObj as) \<Rightarrow> if obj_get as first \<noteq> None then JObj as else payload
             | _ \<Rightarrow> payload)
       else payload
   | _ \<Rightarrow> payload)"

definition field_value :: "event_row \<Rightarrow> string \<Rightarrow> json option" where
  "field_value e path =
     (let parts = split_on (CHR ''.'') path in
      case walk_path (path_root (ev_payload e) (hd parts)) parts of
        None \<Rightarrow> None
      | Some v \<Rightarrow> if v = JNull then None else Some v)"

definition canonical_value :: "json \<Rightarrow> string" where
  "canonical_value = dumps"

fun field_group :: "event_row \<Rightarrow> string list \<Rightarrow> string list option" where
  "field_group e [] = Some []"
| "field_group e (f # fs) = (case field_value e f of
     None \<Rightarrow> None
   | Some v \<Rightarrow> (case field_group e fs of None \<Rightarrow> None | Some vs \<Rightarrow> Some (canonical_value v # vs)))"

section \<open>Matching and correlation\<close>

definition matcher_accepts :: "field_matcher \<Rightarrow> json \<Rightarrow> bool" where
  "matcher_accepts m v \<longleftrightarrow>
     (case fm_equals m of None \<Rightarrow> True | Some w \<Rightarrow> py_eq v w)
     \<and> (case fm_one_of m of None \<Rightarrow> True | Some ws \<Rightarrow> list_ex (py_eq v) ws)"

definition matches_event :: "event_row \<Rightarrow> event_condition \<Rightarrow> bool" where
  "matches_event e c \<longleftrightarrow> ev_event_type e = event_type_value (ec_event_type c)
     \<and> list_all (\<lambda>(f, m). case field_value e f of None \<Rightarrow> False | Some v \<Rightarrow> matcher_accepts m v)
         (ec_filters c)"

fun trigger_condition :: "condition \<Rightarrow> event_condition" where
  "trigger_condition (Single c) = c"
| "trigger_condition (Threshold c _ _ _) = c"
| "trigger_condition (Distinct_Count c _ _ _ _ _) = c"
| "trigger_condition (Sequence _ steps) = ss_condition (last steps)"
| "trigger_condition (First_Seen c _ _ _ _) = c"

definition can_trigger :: "rule \<Rightarrow> event_row \<Rightarrow> bool" where
  "can_trigger r e \<longleftrightarrow> matches_event e (trigger_condition (ru_condition r))"

fun correlation_of :: "event_row \<Rightarrow> string list \<Rightarrow> (string \<times> json) list option" where
  "correlation_of e [] = Some []"
| "correlation_of e (f # fs) = (case field_value e f of
     None \<Rightarrow> None
   | Some v \<Rightarrow> (case correlation_of e fs of None \<Rightarrow> None | Some vs \<Rightarrow> Some ((f, v) # vs)))"

section \<open>The five conditions\<close>

record detection_match =
  mt_correlation :: "(string \<times> json) list"
  mt_evidence :: "event_row list"

definition event_order :: "event_row \<Rightarrow> time \<times> uuid" where
  "event_order e = (ev_occurred_at e, ev_id e)"

text \<open>One event per identifier, the last one given, in order of occurrence.\<close>

definition unique_events :: "event_row list \<Rightarrow> event_row list" where
  "unique_events es = sort_key event_order
     (map (\<lambda>k. last (filter (\<lambda>e. ev_id e = k) es)) (remdups (map ev_id es)))"

definition in_window :: "nat \<Rightarrow> event_row \<Rightarrow> event_row \<Rightarrow> bool" where
  "in_window window trigger e \<longleftrightarrow> ev_occurred_at trigger - int window * 1000000 \<le> ev_occurred_at e
     \<and> ev_occurred_at e \<le> ev_occurred_at trigger"

definition evaluate_threshold ::
  "event_condition \<Rightarrow> nat \<Rightarrow> nat \<Rightarrow> string list \<Rightarrow> event_row \<Rightarrow> event_row list
    \<Rightarrow> (string \<times> json) list \<Rightarrow> detection_match option" where
  "evaluate_threshold c threshold window group_by trigger hist correlation =
     (case field_group trigger group_by of
        None \<Rightarrow> None
      | Some grp \<Rightarrow>
        let evidence = filter (\<lambda>e. in_window window trigger e \<and> matches_event e c
          \<and> field_group e group_by = Some grp) hist
        in if length evidence < threshold then None
           else Some \<lparr>mt_correlation = correlation, mt_evidence = unique_events evidence\<rparr>)"

definition evaluate_distinct ::
  "event_condition \<Rightarrow> string \<Rightarrow> nat \<Rightarrow> nat \<Rightarrow> nat \<Rightarrow> string list \<Rightarrow> event_row \<Rightarrow> event_row list
    \<Rightarrow> (string \<times> json) list \<Rightarrow> detection_match option" where
  "evaluate_distinct c distinct_field distinct_threshold minimum_events window group_by trigger hist correlation =
     (case field_group trigger group_by of
        None \<Rightarrow> None
      | Some grp \<Rightarrow>
        let evidence = filter (\<lambda>e. in_window window trigger e \<and> matches_event e c
              \<and> field_group e group_by = Some grp \<and> field_value e distinct_field \<noteq> None) hist;
            distinct_values = remdups (map (\<lambda>e. canonical_value (the (field_value e distinct_field))) evidence)
        in if length evidence < minimum_events \<or> length distinct_values < distinct_threshold then None
           else Some \<lparr>mt_correlation = correlation, mt_evidence = unique_events evidence\<rparr>)"

text \<open>The latest events first: \<open>sorted(..., key=(occurred_at, id), reverse=True)\<close>.\<close>

definition latest_first :: "event_row list \<Rightarrow> event_row list" where
  "latest_first es = rev (sort_key event_order (rev es))"

text \<open>\<open>min(event.occurred_at for event in chosen)\<close>, for a non-empty choice.\<close>

definition earliest :: "event_row list \<Rightarrow> time" where
  "earliest es = Min (ev_occurred_at ` set es)"

text \<open>The steps before the last one, given latest step first, below a strict upper bound.\<close>

fun choose_earlier :: "event_row list \<Rightarrow> time \<Rightarrow> sequence_step list \<Rightarrow> event_row list option" where
  "choose_earlier candidates bound [] = Some []"
| "choose_earlier candidates bound (s # ss) =
     (let chosen = take (ss_repeat_at_least s) (latest_first
            (filter (\<lambda>e. matches_event e (ss_condition s) \<and> ev_occurred_at e < bound) candidates))
      in if length chosen < ss_repeat_at_least s then None
         else (case choose_earlier candidates (earliest chosen) ss of
                 None \<Rightarrow> None
               | Some rest \<Rightarrow> Some (chosen @ rest)))"

definition choose_last :: "event_row list \<Rightarrow> event_row \<Rightarrow> sequence_step \<Rightarrow> event_row list option" where
  "choose_last candidates trigger s =
     (let step_candidates = filter (\<lambda>e. matches_event e (ss_condition s)
            \<and> ev_occurred_at e \<le> ev_occurred_at trigger) candidates
      in if trigger \<notin> set step_candidates then None
         else let chosen = trigger # take (ss_repeat_at_least s - 1)
                (latest_first (filter (\<lambda>e. ev_id e \<noteq> ev_id trigger) step_candidates))
              in if length chosen < ss_repeat_at_least s then None else Some chosen)"

definition choose_sequence ::
  "event_row list \<Rightarrow> event_row \<Rightarrow> sequence_step list \<Rightarrow> event_row list option" where
  "choose_sequence candidates trigger steps =
     (case rev steps of
        [] \<Rightarrow> Some []
      | s # ss \<Rightarrow>
        (case choose_last candidates trigger s of
           None \<Rightarrow> None
         | Some chosen \<Rightarrow>
           (case choose_earlier candidates (earliest chosen) ss of
              None \<Rightarrow> None
            | Some rest \<Rightarrow> Some (chosen @ rest))))"

definition evaluate_sequence ::
  "string list \<Rightarrow> nat \<Rightarrow> sequence_step list \<Rightarrow> event_row \<Rightarrow> event_row list
    \<Rightarrow> (string \<times> json) list \<Rightarrow> detection_match option" where
  "evaluate_sequence correlation_fields window steps trigger hist correlation =
     (let candidates = filter (\<lambda>e. in_window window trigger e
          \<and> field_group e correlation_fields = field_group trigger correlation_fields) hist
      in map_option (\<lambda>selected. \<lparr>mt_correlation = correlation, mt_evidence = unique_events selected\<rparr>)
           (choose_sequence candidates trigger steps))"

definition evaluate_first_seen ::
  "event_condition \<Rightarrow> string \<Rightarrow> string list \<Rightarrow> nat \<Rightarrow> nat \<Rightarrow> event_row \<Rightarrow> event_row list
    \<Rightarrow> (string \<times> json) list \<Rightarrow> detection_match option" where
  "evaluate_first_seen c value_field scope_fields lookback required trigger hist correlation =
     (case (field_value trigger value_field, field_group trigger scope_fields) of
        (Some value, Some scope) \<Rightarrow>
          let baseline = filter (\<lambda>e. ev_id e \<noteq> ev_id trigger \<and> in_window lookback trigger e
                \<and> matches_event e c \<and> field_group e scope_fields = Some scope) hist
          in if length baseline < required then None
             else if list_ex (\<lambda>e. case field_value e value_field of
                 None \<Rightarrow> False | Some v \<Rightarrow> canonical_value v = canonical_value value) baseline then None
             else Some \<lparr>mt_correlation = correlation, mt_evidence = unique_events (baseline @ [trigger])\<rparr>
      | _ \<Rightarrow> None)"

definition evaluate_rule :: "rule \<Rightarrow> event_row \<Rightarrow> event_row list \<Rightarrow> detection_match option" where
  "evaluate_rule r trigger hist =
     (if \<not> ru_enabled r \<or> \<not> can_trigger r trigger then None
      else case correlation_of trigger (ru_correlation_fields r) of
        None \<Rightarrow> None
      | Some correlation \<Rightarrow>
        let same_server = filter (\<lambda>e. ev_server_id e = ev_server_id trigger) hist in
        (case ru_condition r of
           Single _ \<Rightarrow> Some \<lparr>mt_correlation = correlation, mt_evidence = [trigger]\<rparr>
         | Threshold c n w g \<Rightarrow> evaluate_threshold c n w g trigger same_server correlation
         | Distinct_Count c f dn mn w g \<Rightarrow>
             evaluate_distinct c f dn mn w g trigger same_server correlation
         | Sequence w steps \<Rightarrow>
             evaluate_sequence (ru_correlation_fields r) w steps trigger same_server correlation
         | First_Seen c f scope l n \<Rightarrow> evaluate_first_seen c f scope l n trigger same_server correlation))"

section \<open>The latest events are the best choice\<close>

lemma set_latest_first [simp]: "set (latest_first es) = set es"
  by (simp add: latest_first_def)

lemma length_latest_first [simp]: "length (latest_first es) = length es"
  by (simp add: latest_first_def)

lemma distinct_latest_first [simp]: "distinct (latest_first es) = distinct es"
  by (simp add: latest_first_def)

lemma latest_first_order: "sorted_wrt (\<lambda>a b. ev_occurred_at b \<le> ev_occurred_at a) (latest_first es)"
proof -
  have "sorted (map event_order (sort_key event_order (rev es)))" by simp
  then have "sorted_wrt (\<lambda>a b. event_order a \<le> event_order b) (sort_key event_order (rev es))"
    by (simp add: sorted_wrt_map)
  then have "sorted_wrt (\<lambda>a b. event_order b \<le> event_order a) (latest_first es)"
    unfolding latest_first_def sorted_wrt_rev .
  then show ?thesis
    by (rule sorted_wrt_mono_rel [rotated]) (auto simp: event_order_def less_eq_prod_def)
qed

lemma earliest_le: "e \<in> set es \<Longrightarrow> earliest es \<le> ev_occurred_at e"
  by (simp add: earliest_def)

lemma earliest_mem: "es \<noteq> [] \<Longrightarrow> \<exists>e \<in> set es. earliest es = ev_occurred_at e"
proof -
  assume "es \<noteq> []"
  then have "Min (ev_occurred_at ` set es) \<in> ev_occurred_at ` set es" by (intro Min_in) auto
  then show ?thesis by (auto simp: earliest_def)
qed

lemma le_earliest: "es \<noteq> [] \<Longrightarrow> (\<And>e. e \<in> set es \<Longrightarrow> t \<le> ev_occurred_at e) \<Longrightarrow> t \<le> earliest es"
  by (auto simp: earliest_def)

text \<open>No choice of as many events starts later than the first ones of the list.\<close>

lemma best_choice:
  assumes xs: "sorted_wrt (\<lambda>a b. ev_occurred_at b \<le> ev_occurred_at a) xs" "distinct xs"
    and C: "distinct C" "set C \<subseteq> set xs" "length C = n"
    and x: "x \<in> set (take n xs)"
  shows "earliest C \<le> ev_occurred_at x"
proof (cases "x \<in> set C")
  case True
  then show ?thesis by (rule earliest_le)
next
  case False
  have "n \<le> length xs"
    using C xs(2) by (metis card_mono distinct_card List.finite_set)
  then have card: "card (set (take n xs)) = n" using xs(2) by (simp add: distinct_card)
  have "\<not> set C \<subseteq> set (take n xs)"
  proof
    assume "set C \<subseteq> set (take n xs)"
    with x False have "card (set C) < card (set (take n xs))" by (intro psubset_card_mono) auto
    with card C(1,3) show False by (simp add: distinct_card)
  qed
  then obtain y where y: "y \<in> set C" "y \<notin> set (take n xs)" by blast
  with C(2) have "y \<in> set (drop n xs)" by (metis append_take_drop_id set_append UnE subsetD)
  with xs(1) x have "ev_occurred_at y \<le> ev_occurred_at x"
    by (metis append_take_drop_id sorted_wrt_append)
  with earliest_le [OF y(1)] show ?thesis by simp
qed

lemma enough_events:
  assumes "distinct xs" "distinct C" "set C \<subseteq> set xs"
  shows "length C \<le> length xs"
  using assms by (metis card_mono distinct_card List.finite_set)

section \<open>The specification of a sequence\<close>

text \<open>A choice for one step: as many different matching candidates as the step asks for.\<close>

definition step_choice :: "event_row list \<Rightarrow> sequence_step \<Rightarrow> event_row list \<Rightarrow> bool" where
  "step_choice candidates s C \<longleftrightarrow> distinct C \<and> length C = ss_repeat_at_least s
     \<and> (\<forall>e \<in> set C. e \<in> set candidates \<and> matches_event e (ss_condition s))"

definition all_before :: "event_row list \<Rightarrow> event_row list \<Rightarrow> bool" where
  "all_before C D \<longleftrightarrow> (\<forall>e \<in> set C. \<forall>e' \<in> set D. ev_occurred_at e < ev_occurred_at e')"

text \<open>
  A choice for every step, each step's events strictly before the next step's, the trigger among
  those of the last step and none of them after it.
\<close>

definition sequence_choice ::
  "event_row list \<Rightarrow> event_row \<Rightarrow> sequence_step list \<Rightarrow> event_row list list \<Rightarrow> bool" where
  "sequence_choice candidates trigger steps Cs \<longleftrightarrow> list_all2 (step_choice candidates) steps Cs
     \<and> successively all_before Cs \<and> trigger \<in> set (last Cs)
     \<and> (\<forall>e \<in> set (last Cs). ev_occurred_at e \<le> ev_occurred_at trigger)"

text \<open>The same, latest step first and below a bound.\<close>

fun earlier_choice :: "event_row list \<Rightarrow> time \<Rightarrow> sequence_step list \<Rightarrow> event_row list list \<Rightarrow> bool" where
  "earlier_choice candidates bound [] [] \<longleftrightarrow> True"
| "earlier_choice candidates bound (s # ss) (C # Cs) \<longleftrightarrow> step_choice candidates s C
     \<and> (\<forall>e \<in> set C. ev_occurred_at e < bound) \<and> earlier_choice candidates (earliest C) ss Cs"
| "earlier_choice candidates bound _ _ \<longleftrightarrow> False"

lemma step_choice_nonempty: "step_choice candidates s C \<Longrightarrow> 0 < ss_repeat_at_least s \<Longrightarrow> C \<noteq> []"
  by (auto simp: step_choice_def)

lemma choose_earlier_sound:
  assumes "distinct candidates" "choose_earlier candidates bound ss = Some sel"
  shows "\<exists>Cs. earlier_choice candidates bound ss Cs \<and> concat Cs = sel"
  using assms(2)
proof (induction ss arbitrary: bound sel)
  case Nil
  then show ?case by (intro exI [of _ "[]"]) simp
next
  case (Cons s ss)
  let ?F = "filter (\<lambda>e. matches_event e (ss_condition s) \<and> ev_occurred_at e < bound) candidates"
  define C where "C = take (ss_repeat_at_least s) (latest_first ?F)"
  from Cons.prems obtain rest where rest: "choose_earlier candidates (earliest C) ss = Some rest"
    "sel = C @ rest" "\<not> length C < ss_repeat_at_least s"
    by (auto simp: Let_def C_def [symmetric] split: if_splits option.splits)
  have sub: "set C \<subseteq> set ?F" unfolding C_def by (metis set_latest_first set_take_subset)
  moreover have "distinct C" using assms(1) by (simp add: C_def)
  moreover have "length C = ss_repeat_at_least s" using rest(3) by (simp add: C_def)
  ultimately have "step_choice candidates s C" "\<forall>e \<in> set C. ev_occurred_at e < bound"
    by (auto simp: step_choice_def)
  moreover from Cons.IH [OF rest(1)] obtain Cs where
    "earlier_choice candidates (earliest C) ss Cs" "concat Cs = rest" by blast
  ultimately show ?case using rest(2) by (intro exI [of _ "C # Cs"]) simp
qed

lemma choose_earlier_complete:
  assumes "distinct candidates" "\<forall>s \<in> set ss. 0 < ss_repeat_at_least s"
    "earlier_choice candidates b ss Cs" "b \<le> bound"
  shows "choose_earlier candidates bound ss \<noteq> None"
  using assms(2-4)
proof (induction ss arbitrary: b bound Cs)
  case Nil
  then show ?case by simp
next
  case (Cons s ss)
  then obtain D Ds where D: "step_choice candidates s D" "\<forall>e \<in> set D. ev_occurred_at e < b"
    "earlier_choice candidates (earliest D) ss Ds"
    by (cases Cs) auto
  let ?F = "filter (\<lambda>e. matches_event e (ss_condition s) \<and> ev_occurred_at e < bound) candidates"
  define C where "C = take (ss_repeat_at_least s) (latest_first ?F)"
  have sub: "set D \<subseteq> set (latest_first ?F)" using D(1,2) Cons.prems(3) by (auto simp: step_choice_def)
  have dist: "distinct (latest_first ?F)" using assms(1) by simp
  have D': "distinct D" "length D = ss_repeat_at_least s" using D(1) by (simp_all add: step_choice_def)
  have enough: "length C = ss_repeat_at_least s"
    using enough_events [OF dist D'(1) sub] D'(2) by (simp add: C_def)
  then have "C \<noteq> []" using Cons.prems(1) by auto
  then have "earliest D \<le> earliest C"
    using best_choice [OF latest_first_order dist D'(1) sub D'(2)] by (intro le_earliest) (auto simp: C_def)
  then have "choose_earlier candidates (earliest C) ss \<noteq> None"
    using Cons.IH [OF _ D(3)] Cons.prems(1) by simp
  with enough show ?case
    by (simp add: Let_def C_def [symmetric] split: option.split)
qed

text \<open>The last step's candidates, and those among them other than the trigger.\<close>

definition last_candidates :: "event_row list \<Rightarrow> event_row \<Rightarrow> sequence_step \<Rightarrow> event_row list" where
  "last_candidates candidates trigger s = filter (\<lambda>e. matches_event e (ss_condition s)
     \<and> ev_occurred_at e \<le> ev_occurred_at trigger) candidates"

definition last_others :: "event_row list \<Rightarrow> event_row \<Rightarrow> sequence_step \<Rightarrow> event_row list" where
  "last_others candidates trigger s = take (ss_repeat_at_least s - 1)
     (latest_first (filter (\<lambda>e. ev_id e \<noteq> ev_id trigger) (last_candidates candidates trigger s)))"

lemma choose_last_eq:
  "choose_last candidates trigger s =
     (if trigger \<notin> set (last_candidates candidates trigger s)
        \<or> Suc (length (last_others candidates trigger s)) < ss_repeat_at_least s then None
      else Some (trigger # last_others candidates trigger s))"
  unfolding choose_last_def Let_def last_candidates_def [symmetric] last_others_def [symmetric]
  by simp

lemma set_last_candidates: "e \<in> set (last_candidates candidates trigger s) \<longleftrightarrow> e \<in> set candidates
    \<and> matches_event e (ss_condition s) \<and> ev_occurred_at e \<le> ev_occurred_at trigger"
  by (auto simp: last_candidates_def)

lemma last_others_subset:
  assumes "e \<in> set (last_others candidates trigger s)"
  shows "e \<in> set (last_candidates candidates trigger s)" "ev_id e \<noteq> ev_id trigger"
proof -
  have "e \<in> set (latest_first (filter (\<lambda>e. ev_id e \<noteq> ev_id trigger) (last_candidates candidates trigger s)))"
    using assms unfolding last_others_def by (rule in_set_takeD)
  then show "e \<in> set (last_candidates candidates trigger s)" "ev_id e \<noteq> ev_id trigger" by simp_all
qed

lemma choose_last_sound:
  assumes "distinct candidates" "choose_last candidates trigger s = Some C" "0 < ss_repeat_at_least s"
  shows "step_choice candidates s C" "trigger \<in> set C"
    "\<forall>e \<in> set C. ev_occurred_at e \<le> ev_occurred_at trigger"
proof -
  let ?t = "last_others candidates trigger s"
  from assms(2) have C: "C = trigger # ?t" "trigger \<in> set (last_candidates candidates trigger s)"
    and len: "\<not> Suc (length ?t) < ss_repeat_at_least s"
    by (simp_all add: choose_last_eq split: if_splits)
  have "length ?t \<le> ss_repeat_at_least s - 1" by (simp add: last_others_def)
  with len assms(3) have "length C = ss_repeat_at_least s" by (simp add: C(1))
  moreover have "trigger \<notin> set ?t" using last_others_subset(2) [of trigger candidates trigger s] by blast
  moreover have "distinct ?t" using assms(1) by (simp add: last_others_def last_candidates_def)
  moreover have all: "e \<in> set (last_candidates candidates trigger s)" if "e \<in> set C" for e
    using that C last_others_subset(1) by auto
  ultimately show "step_choice candidates s C"
    unfolding step_choice_def set_last_candidates C(1) by simp
  show "\<forall>e \<in> set C. ev_occurred_at e \<le> ev_occurred_at trigger"
    using all unfolding set_last_candidates by blast
  show "trigger \<in> set C" by (simp add: C(1))
qed

lemma choose_last_best:
  assumes dist: "distinct (map ev_id candidates)"
    and D: "step_choice candidates s D" "trigger \<in> set D"
      "\<forall>e \<in> set D. ev_occurred_at e \<le> ev_occurred_at trigger"
  shows "\<exists>C. choose_last candidates trigger s = Some C \<and> earliest D \<le> earliest C"
proof -
  let ?F = "last_candidates candidates trigger s"
  let ?n = "ss_repeat_at_least s - 1" and ?t = "last_others candidates trigger s"
  let ?R = "latest_first (filter (\<lambda>e. ev_id e \<noteq> ev_id trigger) ?F)"
  have F: "e \<in> set ?F" if "e \<in> set D" for e
    using that D by (auto simp: step_choice_def set_last_candidates)
  have D': "distinct D" "length D = ss_repeat_at_least s" using D(1) by (simp_all add: step_choice_def)
  have other: "ev_id e \<noteq> ev_id trigger" if "e \<in> set D" "e \<noteq> trigger" for e
    using that F [OF that(1)] F [OF D(2)] key_inj_rows [OF dist, of e trigger]
    by (auto simp: set_last_candidates)
  have sub: "set (remove1 trigger D) \<subseteq> set ?R" using F other D'(1) by auto
  have "distinct candidates" using dist by (simp add: distinct_map)
  then have R: "distinct ?R" by (simp add: last_candidates_def)
  have E: "distinct (remove1 trigger D)" "length (remove1 trigger D) = ?n"
    using D(2) D' by (simp_all add: length_remove1)
  have t: "?t = take ?n ?R" by (simp add: last_others_def)
  have len: "length ?t = ?n" using enough_events [OF R E(1) sub] E(2) by (simp add: t min_def)
  have "earliest D \<le> ev_occurred_at x" if x: "x \<in> set ?t" for x
  proof -
    have "remove1 trigger D \<noteq> []" using len E(2) x by (cases "remove1 trigger D") auto
    from earliest_mem [OF this] obtain y where y: "y \<in> set D"
      "earliest (remove1 trigger D) = ev_occurred_at y"
      using D'(1) by auto
    have "earliest (remove1 trigger D) \<le> ev_occurred_at x"
      using best_choice [OF latest_first_order R E(1) sub E(2)] x by (simp add: t)
    with y earliest_le [of y D] show ?thesis by simp
  qed
  then have "earliest D \<le> earliest (trigger # ?t)" using earliest_le [OF D(2)] by (intro le_earliest) auto
  moreover have "\<not> Suc (length ?t) < ss_repeat_at_least s" using len by simp
  ultimately show ?thesis using F [OF D(2)] by (simp add: choose_last_eq)
qed

lemma earlier_choice_iff:
  assumes "\<forall>s \<in> set ss. 0 < ss_repeat_at_least s" "C \<noteq> []"
  shows "earlier_choice candidates (earliest C) ss Cs \<longleftrightarrow> list_all2 (step_choice candidates) ss Cs
    \<and> successively (\<lambda>C D. all_before D C) (C # Cs)"
  using assms
proof (induction ss arbitrary: C Cs)
  case Nil
  then show ?case by (cases Cs) simp_all
next
  case (Cons s ss)
  show ?case
  proof (cases Cs)
    case Nil
    then show ?thesis by simp
  next
    case Cs: (Cons D Ds)
    have before: "all_before D C \<longleftrightarrow> (\<forall>e \<in> set D. ev_occurred_at e < earliest C)"
      using earliest_mem [OF Cons.prems(2)] earliest_le [of _ C] by (force simp: all_before_def)
    show ?thesis
    proof (cases "step_choice candidates s D")
      case True
      then have "D \<noteq> []" using Cons.prems(1) step_choice_nonempty by auto
      then show ?thesis using True Cons.IH [of D Ds] Cons.prems(1) by (auto simp: Cs before)
    qed (simp add: Cs)
  qed
qed

lemma sequence_choice_rev:
  "sequence_choice candidates trigger steps (rev (C # Cs)) \<longleftrightarrow>
     list_all2 (step_choice candidates) (rev steps) (C # Cs)
     \<and> successively (\<lambda>C D. all_before D C) (C # Cs) \<and> trigger \<in> set C
     \<and> (\<forall>e \<in> set C. ev_occurred_at e \<le> ev_occurred_at trigger)"
  using list_all2_rev [of "step_choice candidates" "rev steps" "C # Cs"]
  by (simp add: sequence_choice_def successively_rev del: rev.simps list_all2_rev) simp

text \<open>The greedy scan finds a choice exactly when there is one.\<close>

lemma choose_sequence_iff:
  assumes "distinct (map ev_id candidates)" "steps \<noteq> []" "\<forall>s \<in> set steps. 0 < ss_repeat_at_least s"
  shows "choose_sequence candidates trigger steps \<noteq> None \<longleftrightarrow> (\<exists>Cs. sequence_choice candidates trigger steps Cs)"
proof
  obtain s ss where rev: "rev steps = s # ss" using assms(2) by (cases "rev steps") auto
  have pos: "0 < ss_repeat_at_least s" "\<forall>s \<in> set ss. 0 < ss_repeat_at_least s"
    using assms(3) arg_cong [OF rev, of set] by auto
  have dist: "distinct candidates" using assms(1) by (simp add: distinct_map)
  {
    assume "choose_sequence candidates trigger steps \<noteq> None"
    then obtain C sel where C: "choose_last candidates trigger s = Some C"
      "choose_earlier candidates (earliest C) ss = Some sel"
      by (auto simp: choose_sequence_def rev split: option.splits)
    note last = choose_last_sound [OF dist C(1) pos(1)]
    from choose_earlier_sound [OF dist C(2)] obtain Cs where
      "earlier_choice candidates (earliest C) ss Cs" by blast
    with last pos have "sequence_choice candidates trigger steps (rev (C # Cs))"
      unfolding sequence_choice_rev rev by (subst (asm) earlier_choice_iff) auto
    then show "\<exists>Cs. sequence_choice candidates trigger steps Cs" by blast
  }
  assume "\<exists>Cs. sequence_choice candidates trigger steps Cs"
  then obtain Cs where Cs: "sequence_choice candidates trigger steps Cs" by blast
  moreover from this assms(2) obtain D Ds where eq: "Cs = rev (D # Ds)"
    by (cases "rev Cs") (auto simp: sequence_choice_def rev_swap)
  ultimately have D: "step_choice candidates s D" "list_all2 (step_choice candidates) ss Ds"
    "successively (\<lambda>C D. all_before D C) (D # Ds)" "trigger \<in> set D"
    "\<forall>e \<in> set D. ev_occurred_at e \<le> ev_occurred_at trigger"
    unfolding eq sequence_choice_rev rev list_all2_Cons by blast+
  from choose_last_best [OF assms(1) D(1,4,5)] obtain C where
    C: "choose_last candidates trigger s = Some C" "earliest D \<le> earliest C" by blast
  have "D \<noteq> []" using D(4) by auto
  with D(2,3) pos(2) have "earlier_choice candidates (earliest D) ss Ds"
    by (simp add: earlier_choice_iff)
  from choose_earlier_complete [OF dist pos(2) this C(2)]
  show "choose_sequence candidates trigger steps \<noteq> None" by (auto simp: choose_sequence_def rev C(1))
qed

section \<open>Every piece of evidence is relevant\<close>

fun rule_window :: "condition \<Rightarrow> nat" where
  "rule_window (Single _) = 0"
| "rule_window (Threshold _ _ w _) = w"
| "rule_window (Distinct_Count _ _ _ _ w _) = w"
| "rule_window (Sequence w _) = w"
| "rule_window (First_Seen _ _ _ l _) = l"

fun rule_conditions :: "condition \<Rightarrow> event_condition list" where
  "rule_conditions (Single c) = [c]"
| "rule_conditions (Threshold c _ _ _) = [c]"
| "rule_conditions (Distinct_Count c _ _ _ _ _) = [c]"
| "rule_conditions (Sequence _ steps) = map ss_condition steps"
| "rule_conditions (First_Seen c _ _ _ _) = [c]"

text \<open>The least number of different events a match can rest on.\<close>

fun required_events :: "condition \<Rightarrow> nat" where
  "required_events (Single _) = 1"
| "required_events (Threshold _ n _ _) = n"
| "required_events (Distinct_Count _ _ dn mn _ _) = max dn mn"
| "required_events (Sequence _ steps) = Max (set (map ss_repeat_at_least steps))"
| "required_events (First_Seen _ _ _ _ n) = Suc n"

lemma set_unique_events: "set (unique_events es) \<subseteq> set es"
proof
  fix e assume "e \<in> set (unique_events es)"
  then obtain x where x: "x \<in> set es" "e = last (filter (\<lambda>y. ev_id y = ev_id x) es)"
    by (auto simp: unique_events_def)
  then have "filter (\<lambda>y. ev_id y = ev_id x) es \<noteq> []" by (auto simp: filter_empty_conv)
  from last_in_set [OF this] x(2) show "e \<in> set es" by simp
qed

lemma ids_unique_events: "ev_id ` set (unique_events es) = ev_id ` set es"
proof -
  have "ev_id (last (filter (\<lambda>y. ev_id y = ev_id x) es)) = ev_id x" if "x \<in> set es" for x
  proof -
    have "filter (\<lambda>y. ev_id y = ev_id x) es \<noteq> []" using that by (auto simp: filter_empty_conv)
    from last_in_set [OF this] show ?thesis by simp
  qed
  then show ?thesis by (force simp: unique_events_def image_iff)
qed

lemma distinct_map_sort: "distinct (map f (sort_key g xs)) = distinct (map f xs)"
  by (simp add: distinct_map)

lemma unique_events_distinct: "distinct (map ev_id (unique_events es))"
proof -
  have "ev_id (last (filter (\<lambda>y. ev_id y = k) es)) = k" if "k \<in> set (map ev_id es)" for k
  proof -
    have "filter (\<lambda>y. ev_id y = k) es \<noteq> []" using that by (auto simp: filter_empty_conv)
    from last_in_set [OF this] show ?thesis by simp
  qed
  then have "map ev_id (map (\<lambda>k. last (filter (\<lambda>e. ev_id e = k) es)) (remdups (map ev_id es)))
      = remdups (map ev_id es)"
    unfolding map_map by (intro map_idI) simp
  then have "distinct (map ev_id (map (\<lambda>k. last (filter (\<lambda>e. ev_id e = k) es)) (remdups (map ev_id es))))"
    by simp
  then show ?thesis unfolding unique_events_def distinct_map_sort .
qed

lemma unique_events_sorted: "sorted (map event_order (unique_events es))"
  by (simp add: unique_events_def)

lemma card_unique_events:
  assumes "distinct (map ev_id hist)" "set es \<subseteq> set hist"
  shows "length (unique_events es) = card (set es)"
proof -
  have "inj_on ev_id (set es)" using assms inj_on_subset by (auto simp: distinct_map)
  then have "card (ev_id ` set es) = card (set es)" by (rule card_image)
  then show ?thesis
    using unique_events_distinct [of es] ids_unique_events [of es]
    by (metis distinct_card length_map list.set_map)
qed

lemma unique_events_mem:
  assumes "distinct (map ev_id hist)" "set es \<subseteq> set hist" "e \<in> set es"
  shows "e \<in> set (unique_events es)"
proof -
  have "ev_id e \<in> ev_id ` set (unique_events es)" using assms(3) by (simp add: ids_unique_events)
  then obtain x where "x \<in> set (unique_events es)" "ev_id x = ev_id e" by auto
  with key_inj_rows [OF assms(1), of x e] set_unique_events assms(2,3) show ?thesis by blast
qed

definition evidence_relevant :: "rule \<Rightarrow> event_row \<Rightarrow> event_row list \<Rightarrow> event_row list \<Rightarrow> bool" where
  "evidence_relevant r trigger hist es \<longleftrightarrow>
     (\<forall>e \<in> set es. ev_server_id e = ev_server_id trigger
        \<and> in_window (rule_window (ru_condition r)) trigger e \<and> e \<in> set hist
        \<and> list_ex (matches_event e) (rule_conditions (ru_condition r)))"

lemma earlier_choice_mem:
  "earlier_choice candidates b ss Cs \<Longrightarrow> e \<in> set (concat Cs) \<Longrightarrow>
     e \<in> set candidates \<and> (\<exists>s \<in> set ss. matches_event e (ss_condition s))"
  by (induction candidates b ss Cs rule: earlier_choice.induct) (auto simp: step_choice_def)

lemma earlier_choice_sizes:
  "earlier_choice candidates b ss Cs \<Longrightarrow> s \<in> set ss \<Longrightarrow>
     \<exists>C. distinct C \<and> length C = ss_repeat_at_least s \<and> set C \<subseteq> set (concat Cs)"
proof (induction candidates b ss Cs rule: earlier_choice.induct)
  case (2 candidates bound s' ss C Cs)
  show ?case
  proof (cases "s = s'")
    case True
    with 2(2) show ?thesis by (intro exI [of _ C]) (simp add: step_choice_def)
  next
    case False
    with 2 obtain D where "distinct D" "length D = ss_repeat_at_least s" "set D \<subseteq> set (concat Cs)"
      by auto
    then show ?thesis by (intro exI [of _ D]) auto
  qed
qed auto

lemma choose_sequence_evidence:
  assumes "distinct candidates" "choose_sequence candidates trigger steps = Some sel" "steps \<noteq> []"
    "\<forall>s \<in> set steps. 0 < ss_repeat_at_least s"
  shows "\<forall>e \<in> set sel. e \<in> set candidates \<and> (\<exists>s \<in> set steps. matches_event e (ss_condition s))"
    "\<forall>s \<in> set steps. \<exists>C. distinct C \<and> length C = ss_repeat_at_least s \<and> set C \<subseteq> set sel"
    "trigger \<in> set sel"
proof -
  obtain s ss where rev: "rev steps = s # ss" using assms(3) by (cases "rev steps") auto
  have steps: "set steps = insert s (set ss)" using arg_cong [OF rev, of set] by simp
  from assms(2) obtain C rest where C: "choose_last candidates trigger s = Some C"
    "choose_earlier candidates (earliest C) ss = Some rest" "sel = C @ rest"
    by (auto simp: choose_sequence_def rev split: option.splits)
  note last = choose_last_sound [OF assms(1) C(1)]
  from choose_earlier_sound [OF assms(1) C(2)] obtain Cs where
    Cs: "earlier_choice candidates (earliest C) ss Cs" "concat Cs = rest" by blast
  note mem = earlier_choice_mem [OF Cs(1), unfolded Cs(2)]
  note sizes = earlier_choice_sizes [OF Cs(1), unfolded Cs(2)]
  have step: "step_choice candidates s C" "trigger \<in> set C" using last assms(4) steps by auto
  show "\<forall>e \<in> set sel. e \<in> set candidates \<and> (\<exists>s \<in> set steps. matches_event e (ss_condition s))"
    using mem step(1) by (auto simp: C(3) steps step_choice_def)
  show "\<forall>s \<in> set steps. \<exists>C. distinct C \<and> length C = ss_repeat_at_least s \<and> set C \<subseteq> set sel"
  proof
    fix s' assume s': "s' \<in> set steps"
    show "\<exists>C. distinct C \<and> length C = ss_repeat_at_least s' \<and> set C \<subseteq> set sel"
    proof (cases "s' = s")
      case True
      then show ?thesis using step(1) by (intro exI [of _ C]) (simp add: step_choice_def C(3))
    next
      case False
      with s' steps have "s' \<in> set ss" by simp
      from sizes [OF this] show ?thesis by (auto simp: C(3))
    qed
  qed
  show "trigger \<in> set sel" using step(2) by (simp add: C(3))
qed

definition sequence_candidates :: "rule \<Rightarrow> nat \<Rightarrow> event_row \<Rightarrow> event_row list \<Rightarrow> event_row list" where
  "sequence_candidates r window trigger hist = filter (\<lambda>e. in_window window trigger e
     \<and> field_group e (ru_correlation_fields r) = field_group trigger (ru_correlation_fields r))
     (filter (\<lambda>e. ev_server_id e = ev_server_id trigger) hist)"

lemma evaluate_sequence_candidates:
  "evaluate_sequence (ru_correlation_fields r) w steps trigger
      (filter (\<lambda>e. ev_server_id e = ev_server_id trigger) hist) correlation
    = map_option (\<lambda>sel. \<lparr>mt_correlation = correlation, mt_evidence = unique_events sel\<rparr>)
        (choose_sequence (sequence_candidates r w trigger hist) trigger steps)"
  by (simp add: evaluate_sequence_def sequence_candidates_def)

lemma sequence_rule_steps:
  "rule_ok r \<Longrightarrow> ru_condition r = Sequence w steps \<Longrightarrow> steps \<noteq> [] \<and> (\<forall>s \<in> set steps. 0 < ss_repeat_at_least s)"
  by (auto simp: rule_ok_def list_all_iff)

lemma distinct_candidates:
  "distinct (map ev_id hist) \<Longrightarrow> distinct (map ev_id (sequence_candidates r w trigger hist))"
  by (simp add: sequence_candidates_def distinct_map_filter)

text \<open>What a match rests on, in the terms of the event list it was drawn from.\<close>

definition sound_evidence :: "rule \<Rightarrow> event_row \<Rightarrow> event_row list \<Rightarrow> event_row list \<Rightarrow> bool" where
  "sound_evidence r trigger hist es \<longleftrightarrow> evidence_relevant r trigger hist es
     \<and> distinct (map ev_id es) \<and> sorted (map event_order es)
     \<and> required_events (ru_condition r) \<le> length es"

lemma sound_unique_events:
  assumes "distinct (map ev_id hist)" "evidence_relevant r trigger hist es"
    "required_events (ru_condition r) \<le> card (set es)"
  shows "sound_evidence r trigger hist (unique_events es)"
proof -
  have "set es \<subseteq> set hist" using assms(2) by (auto simp: evidence_relevant_def)
  from card_unique_events [OF assms(1) this] assms(3)
  have "required_events (ru_condition r) \<le> length (unique_events es)" by simp
  moreover have "evidence_relevant r trigger hist (unique_events es)"
    using assms(2) set_unique_events unfolding evidence_relevant_def by blast
  ultimately show ?thesis
    by (simp add: sound_evidence_def unique_events_distinct unique_events_sorted)
qed

lemma evaluate_threshold_sound:
  assumes "distinct (map ev_id hist)" "ru_condition r = Threshold c n w g"
    "evaluate_threshold c n w g trigger (filter (\<lambda>e. ev_server_id e = ev_server_id trigger) hist) k = Some m"
  shows "sound_evidence r trigger hist (mt_evidence m)" "mt_correlation m = k"
    "trigger \<in> set hist \<Longrightarrow> can_trigger r trigger \<Longrightarrow> trigger \<in> set (mt_evidence m)"
proof -
  from assms(3) obtain grp where grp: "field_group trigger g = Some grp"
    by (auto simp: evaluate_threshold_def split: option.splits)
  define es where "es = filter (\<lambda>e. in_window w trigger e \<and> matches_event e c
      \<and> field_group e g = Some grp) (filter (\<lambda>e. ev_server_id e = ev_server_id trigger) hist)"
  have m: "\<not> length es < n" "m = \<lparr>mt_correlation = k, mt_evidence = unique_events es\<rparr>"
    using assms(3) unfolding evaluate_threshold_def grp option.case Let_def es_def [symmetric]
    by (simp_all split: if_splits)
  have sub: "set es \<subseteq> set hist" by (auto simp: es_def)
  have rel: "evidence_relevant r trigger hist es"
    by (auto simp: evidence_relevant_def es_def assms(2))
  have "distinct es" using assms(1) by (simp add: es_def distinct_map)
  then have "required_events (ru_condition r) \<le> card (set es)" using m(1) by (simp add: assms(2) distinct_card)
  with assms(1) rel show "sound_evidence r trigger hist (mt_evidence m)"
    unfolding m(2) detection_match.simps by (rule sound_unique_events)
  show "mt_correlation m = k" by (simp add: m(2))
  assume "trigger \<in> set hist" "can_trigger r trigger"
  then have "trigger \<in> set es" using grp by (simp add: es_def can_trigger_def assms(2) in_window_def)
  with unique_events_mem [OF assms(1) sub] show "trigger \<in> set (mt_evidence m)" by (simp add: m(2))
qed

lemma evaluate_distinct_sound:
  assumes "distinct (map ev_id hist)" "ru_condition r = Distinct_Count c f dn mn w g"
    "evaluate_distinct c f dn mn w g trigger (filter (\<lambda>e. ev_server_id e = ev_server_id trigger) hist) k = Some m"
  shows "sound_evidence r trigger hist (mt_evidence m)" "mt_correlation m = k"
    "trigger \<in> set hist \<Longrightarrow> can_trigger r trigger \<Longrightarrow> field_value trigger f \<noteq> None
      \<Longrightarrow> trigger \<in> set (mt_evidence m)"
proof -
  from assms(3) obtain grp where grp: "field_group trigger g = Some grp"
    by (auto simp: evaluate_distinct_def split: option.splits)
  define es where "es = filter (\<lambda>e. in_window w trigger e \<and> matches_event e c
      \<and> field_group e g = Some grp \<and> field_value e f \<noteq> None)
      (filter (\<lambda>e. ev_server_id e = ev_server_id trigger) hist)"
  let ?the_values = "remdups (map (\<lambda>e. canonical_value (the (field_value e f))) es)"
  have m: "\<not> length es < mn" "\<not> length ?the_values < dn" "m = \<lparr>mt_correlation = k, mt_evidence = unique_events es\<rparr>"
    using assms(3) unfolding evaluate_distinct_def grp option.case Let_def es_def [symmetric]
    by (simp_all split: if_splits)
  have sub: "set es \<subseteq> set hist" by (auto simp: es_def)
  have rel: "evidence_relevant r trigger hist es"
    by (auto simp: evidence_relevant_def es_def assms(2))
  have "distinct es" using assms(1) by (simp add: es_def distinct_map)
  moreover have "length ?the_values \<le> length es" using length_remdups_leq [of "map _ es"] by simp
  ultimately have "required_events (ru_condition r) \<le> card (set es)"
    using m(1,2) by (simp add: assms(2) distinct_card)
  with assms(1) rel show "sound_evidence r trigger hist (mt_evidence m)"
    unfolding m(3) detection_match.simps by (rule sound_unique_events)
  show "mt_correlation m = k" by (simp add: m(3))
  assume "trigger \<in> set hist" "can_trigger r trigger" "field_value trigger f \<noteq> None"
  then have "trigger \<in> set es" using grp by (simp add: es_def can_trigger_def assms(2) in_window_def)
  with unique_events_mem [OF assms(1) sub] show "trigger \<in> set (mt_evidence m)" by (simp add: m(3))
qed

lemma evaluate_sequence_sound:
  assumes "distinct (map ev_id hist)" "ru_condition r = Sequence w steps" "rule_ok r"
    "evaluate_sequence (ru_correlation_fields r) w steps trigger
       (filter (\<lambda>e. ev_server_id e = ev_server_id trigger) hist) k = Some m"
  shows "sound_evidence r trigger hist (mt_evidence m)" "mt_correlation m = k"
    "trigger \<in> set (mt_evidence m)"
proof -
  let ?c = "sequence_candidates r w trigger hist"
  from assms(4) obtain sel where sel: "choose_sequence ?c trigger steps = Some sel"
    "m = \<lparr>mt_correlation = k, mt_evidence = unique_events sel\<rparr>"
    unfolding evaluate_sequence_candidates by auto
  have "distinct ?c" using distinct_candidates [OF assms(1)] by (simp add: distinct_map)
  note ev = choose_sequence_evidence [OF this sel(1) conjunct1 [OF sequence_rule_steps [OF assms(3,2)]]
      conjunct2 [OF sequence_rule_steps [OF assms(3,2)]]]
  have sub: "set sel \<subseteq> set hist" using ev(1) by (auto simp: sequence_candidates_def)
  have rel: "evidence_relevant r trigger hist sel"
    using ev(1) by (fastforce simp: evidence_relevant_def sequence_candidates_def assms(2) list_ex_iff)
  have "ss_repeat_at_least s \<le> card (set sel)" if "s \<in> set steps" for s
    using ev(2) that by (metis List.finite_set card_mono distinct_card)
  then have "required_events (ru_condition r) \<le> card (set sel)"
    using sequence_rule_steps [OF assms(3,2)] by (simp add: assms(2))
  with assms(1) rel show "sound_evidence r trigger hist (mt_evidence m)"
    unfolding sel(2) detection_match.simps by (rule sound_unique_events)
  show "mt_correlation m = k" by (simp add: sel(2))
  show "trigger \<in> set (mt_evidence m)"
    using unique_events_mem [OF assms(1) sub ev(3)] by (simp add: sel(2))
qed

lemma evaluate_first_seen_sound:
  assumes "distinct (map ev_id hist)" "ru_condition r = First_Seen c f scope l n"
    "trigger \<in> set hist" "can_trigger r trigger"
    "evaluate_first_seen c f scope l n trigger (filter (\<lambda>e. ev_server_id e = ev_server_id trigger) hist) k = Some m"
  shows "sound_evidence r trigger hist (mt_evidence m)" "mt_correlation m = k" "trigger \<in> set (mt_evidence m)"
proof -
  from assms(5) obtain v grp where grp: "field_value trigger f = Some v" "field_group trigger scope = Some grp"
    by (auto simp: evaluate_first_seen_def split: option.splits)
  define es where "es = filter (\<lambda>e. ev_id e \<noteq> ev_id trigger \<and> in_window l trigger e \<and> matches_event e c
      \<and> field_group e scope = Some grp) (filter (\<lambda>e. ev_server_id e = ev_server_id trigger) hist)"
  have m: "\<not> length es < n" "m = \<lparr>mt_correlation = k, mt_evidence = unique_events (es @ [trigger])\<rparr>"
    using assms(5) unfolding evaluate_first_seen_def grp prod.case option.case Let_def es_def [symmetric]
    by (simp_all split: if_splits)
  have sub: "set (es @ [trigger]) \<subseteq> set hist" using assms(3) by (auto simp: es_def)
  have rel: "evidence_relevant r trigger hist (es @ [trigger])"
    using assms(3,4) by (auto simp: evidence_relevant_def es_def assms(2) can_trigger_def in_window_def)
  have "distinct (es @ [trigger])" using assms(1) by (auto simp: es_def distinct_map)
  then have "required_events (ru_condition r) \<le> card (set (es @ [trigger]))"
    using m(1) unfolding distinct_card [OF \<open>distinct (es @ [trigger])\<close>] by (simp add: assms(2))
  with assms(1) rel show "sound_evidence r trigger hist (mt_evidence m)"
    unfolding m(2) detection_match.simps by (rule sound_unique_events)
  show "mt_correlation m = k" by (simp add: m(2))
  show "trigger \<in> set (mt_evidence m)" using unique_events_mem [OF assms(1) sub] by (simp add: m(2))
qed

text \<open>Whether the trigger itself counts: a distinct-count condition skips events without its field.\<close>

definition trigger_counts :: "rule \<Rightarrow> event_row \<Rightarrow> bool" where
  "trigger_counts r trigger \<longleftrightarrow> (case ru_condition r of
     Distinct_Count _ f _ _ _ _ \<Rightarrow> field_value trigger f \<noteq> None | _ \<Rightarrow> True)"

lemma evaluate_rule_sound:
  assumes "rule_ok r" "distinct (map ev_id hist)" "trigger \<in> set hist" "evaluate_rule r trigger hist = Some m"
  shows "sound_evidence r trigger hist (mt_evidence m)"
    "correlation_of trigger (ru_correlation_fields r) = Some (mt_correlation m)"
    "trigger_counts r trigger \<Longrightarrow> trigger \<in> set (mt_evidence m)"
    "ru_enabled r \<and> can_trigger r trigger"
proof -
  from assms(4) obtain k where k: "ru_enabled r" "can_trigger r trigger"
    "correlation_of trigger (ru_correlation_fields r) = Some k"
    by (auto simp: evaluate_rule_def split: if_splits option.splits)
  note eval = assms(4) [unfolded evaluate_rule_def, simplified k Let_def, simplified]
  have *: "sound_evidence r trigger hist (mt_evidence m) \<and> mt_correlation m = k
      \<and> (trigger_counts r trigger \<longrightarrow> trigger \<in> set (mt_evidence m))"
  proof (cases "ru_condition r")
    case (Single c)
    then have "m = \<lparr>mt_correlation = k, mt_evidence = [trigger]\<rparr>" using eval by simp
    then show ?thesis using k(2) assms(3) Single
      by (simp add: sound_evidence_def evidence_relevant_def can_trigger_def in_window_def)
  next
    case (Threshold c n w g)
    with eval evaluate_threshold_sound [OF assms(2) Threshold] assms(3) k(2) show ?thesis by simp
  next
    case (Distinct_Count c f dn mn w g)
    with eval evaluate_distinct_sound [OF assms(2) Distinct_Count] assms(3) k(2) show ?thesis
      by (simp add: trigger_counts_def)
  next
    case (Sequence w steps)
    with eval evaluate_sequence_sound [OF assms(2) Sequence assms(1)] show ?thesis by simp
  next
    case (First_Seen c f scope l n)
    with eval evaluate_first_seen_sound [OF assms(2) First_Seen assms(3) k(2)] show ?thesis by simp
  qed
  with k show "sound_evidence r trigger hist (mt_evidence m)"
    "correlation_of trigger (ru_correlation_fields r) = Some (mt_correlation m)"
    "trigger_counts r trigger \<Longrightarrow> trigger \<in> set (mt_evidence m)"
    "ru_enabled r \<and> can_trigger r trigger" by simp_all
qed

section \<open>The order of the history does not matter\<close>

lemma event_order_inj: "distinct (map ev_id es) \<Longrightarrow> inj_on event_order (set es)"
  by (auto simp: inj_on_def event_order_def distinct_map)

lemma sort_key_permuted:
  assumes "mset xs = mset ys" "inj_on key (set xs)"
  shows "sort_key key xs = sort_key key ys"
  using assms by (intro sort_key_inj_key_eq) simp_all

lemma latest_first_permuted:
  assumes "mset xs = mset ys" "distinct (map ev_id xs)"
  shows "latest_first xs = latest_first ys"
proof -
  have "inj_on event_order (set (rev xs))" using event_order_inj [OF assms(2)] by simp
  with assms(1) show ?thesis
    unfolding latest_first_def by (intro arg_cong [of _ _ rev] sort_key_permuted) simp_all
qed

lemma unique_events_of_distinct:
  assumes "distinct (map ev_id es)"
  shows "unique_events es = sort_key event_order es"
proof -
  have "last (filter (\<lambda>y. ev_id y = ev_id x) es) = x" if "x \<in> set es" for x
  proof -
    have "last (filter (\<lambda>y. ev_id y = ev_id x) es) \<in> set (filter (\<lambda>y. ev_id y = ev_id x) es)"
      using that by (intro last_in_set) (auto simp: filter_empty_conv)
    with that key_inj_rows [OF assms] show ?thesis by auto
  qed
  then have "map (\<lambda>k. last (filter (\<lambda>e. ev_id e = k) es)) (map ev_id es) = es"
    unfolding map_map by (intro map_idI) simp
  with assms show ?thesis by (simp add: unique_events_def distinct_remdups_id del: map_map)
qed

lemma mset_filter_eq: "mset xs = mset ys \<Longrightarrow> mset (filter P xs) = mset (filter P ys)"
  by simp

lemma unique_events_permuted:
  assumes "mset xs = mset ys" "distinct (map ev_id xs)"
  shows "unique_events xs = unique_events ys"
proof -
  have "distinct (map ev_id ys)"
    using assms mset_eq_imp_distinct_iff [of "map ev_id xs" "map ev_id ys"] by simp
  then show ?thesis
    unfolding unique_events_of_distinct [OF assms(2)] unique_events_of_distinct [OF \<open>distinct (map ev_id ys)\<close>]
    by (intro sort_key_permuted assms(1) event_order_inj assms(2))
qed

lemma choose_earlier_permuted:
  assumes "mset xs = mset ys" "distinct (map ev_id xs)"
  shows "choose_earlier xs bound ss = choose_earlier ys bound ss"
proof (induction ss arbitrary: bound)
  case (Cons s ss)
  have *: "latest_first (filter P xs) = latest_first (filter P ys)" for P
    using assms by (intro latest_first_permuted) (simp_all add: distinct_map_filter)
  show ?case unfolding choose_earlier.simps * Cons.IH ..
qed simp

lemma choose_sequence_permuted:
  assumes "mset xs = mset ys" "distinct (map ev_id xs)"
  shows "choose_sequence xs trigger steps = choose_sequence ys trigger steps"
proof -
  have last: "last_others xs trigger s = last_others ys trigger s" for s
    unfolding last_others_def last_candidates_def filter_filter
    using assms by (intro arg_cong2 [of _ _ _ _ take] latest_first_permuted refl)
      (simp_all add: distinct_map_filter)
  have "set xs = set ys" using assms(1) by (rule mset_eq_setD)
  then have mem: "set (last_candidates xs trigger s) = set (last_candidates ys trigger s)" for s
    by (simp add: last_candidates_def)
  show ?thesis
    unfolding choose_sequence_def choose_last_eq last mem choose_earlier_permuted [OF assms] ..
qed

lemma choose_sequence_ids:
  assumes "distinct (map ev_id xs)" "choose_sequence xs trigger steps = Some sel" "steps \<noteq> []"
    "\<forall>s \<in> set steps. 0 < ss_repeat_at_least s"
  shows "set sel \<subseteq> set xs"
  using choose_sequence_evidence(1) [of xs] assms by (auto simp: distinct_map)

text \<open>
  The verdict and the evidence are functions of the set of events with the trigger's server: the
  order in which the history is read and the events of other servers are irrelevant.
\<close>

lemma evaluate_rule_permuted:
  assumes "distinct (map ev_id hist)"
    "mset (filter (\<lambda>e. ev_server_id e = ev_server_id trigger) hist) =
     mset (filter (\<lambda>e. ev_server_id e = ev_server_id trigger) hist')"
  shows "evaluate_rule r trigger hist = evaluate_rule r trigger hist'"
proof -
  define xs ys where xy: "xs = filter (\<lambda>e. ev_server_id e = ev_server_id trigger) hist"
    "ys = filter (\<lambda>e. ev_server_id e = ev_server_id trigger) hist'"
  have eq: "mset xs = mset ys" and dist: "distinct (map ev_id xs)"
    using assms by (simp_all add: xy distinct_map_filter)
  have len: "length (filter P xs) = length (filter P ys)" for P
    using eq by (metis mset_filter mset_eq_length)
  have uniq: "unique_events (filter P xs) = unique_events (filter P ys)" for P
    using eq dist by (intro unique_events_permuted) (simp_all add: distinct_map_filter)
  have set: "set xs = set ys" using eq by (rule mset_eq_setD)
  have vals: "length (remdups (map f (filter P xs))) = length (remdups (map f (filter P ys)))"
    for f :: "event_row \<Rightarrow> string" and P
    using set by (simp add: length_remdups_card_conv)
  have seq: "choose_sequence (filter P xs) trigger steps = choose_sequence (filter P ys) trigger steps" for P steps
    using eq dist by (intro choose_sequence_permuted) (simp_all add: distinct_map_filter)
  have any: "list_ex Q (filter P xs) = list_ex Q (filter P ys)" for P Q
    using set by (simp add: list_ex_iff)
  have fs: "unique_events (filter (\<lambda>e. ev_id e \<noteq> ev_id trigger \<and> P e) xs @ [trigger])
      = unique_events (filter (\<lambda>e. ev_id e \<noteq> ev_id trigger \<and> P e) ys @ [trigger])" for P
    using eq dist by (intro unique_events_permuted) (auto simp: distinct_map_filter)
  show ?thesis
    unfolding evaluate_rule_def Let_def xy [symmetric]
    by (simp add: evaluate_threshold_def evaluate_distinct_def evaluate_sequence_def
        evaluate_first_seen_def Let_def len uniq vals seq any fs split: condition.split option.split)
qed

section \<open>Sample data\<close>

definition sample_event :: "nat \<Rightarrow> supported_event_type \<Rightarrow> int \<Rightarrow> event_row" where
  "sample_event n t tm = \<lparr>ev_id = n, ev_server_id = 1, ev_agent_event_id = n, ev_schema_version = 1,
     ev_source = ''ssh'', ev_event_type = event_type_value t, ev_occurred_at = tm, ev_collected_at = tm,
     ev_persisted_at = tm, ev_payload = JObj [(''attributes'', JObj [(''username'', JStr ''root'')])]\<rparr>"

text \<open>Two failed log-ins, then a successful one.\<close>

definition sample_history :: "event_row list" where
  "sample_history = [sample_event 1 Ssh_Authentication_Failed 1000000,
     sample_event 2 Ssh_Authentication_Failed 2000000, sample_event 3 Ssh_Login_Succeeded 3000000]"

definition sample_steps :: "sequence_step list" where
  "sample_steps =
     [\<lparr>ss_condition = \<lparr>ec_event_type = Ssh_Authentication_Failed, ec_filters = []\<rparr>, ss_repeat_at_least = 2\<rparr>,
      \<lparr>ss_condition = \<lparr>ec_event_type = Ssh_Login_Succeeded, ec_filters = []\<rparr>, ss_repeat_at_least = 1\<rparr>]"

definition sample_rule :: rule where
  "sample_rule = \<lparr>ru_rule_key = ''ssh_success_after_failures'', ru_version = 1, ru_enabled = True,
     ru_severity = High, ru_title = [84], ru_description = [68], ru_explanation = [69],
     ru_recommendation = [82], ru_title_en = None, ru_description_en = None, ru_explanation_en = None,
     ru_recommendation_en = None, ru_mitre_attack_ids = [''T1110.001''],
     ru_condition = Sequence 300 sample_steps, ru_correlation_fields = [''username'']\<rparr>"

lemma sample_rule_ok: "rule_ok sample_rule"
  by code_simp

lemma sample_history_distinct: "distinct (map ev_id sample_history)"
  by (simp add: sample_history_def sample_event_def)

lemma sample_rule_matches: "evaluate_rule sample_rule (sample_event 3 Ssh_Login_Succeeded 3000000) sample_history
    = Some \<lparr>mt_correlation = [(''username'', JStr ''root'')], mt_evidence = sample_history\<rparr>"
  by code_simp

section \<open>Properties\<close>

text \<open>C8: The greedy backward scan of a sequence rule is exact: on any history in which event
  identifiers are unique, an enabled sequence rule fires for a trigger exactly when the trigger has
  all correlation fields and some choice of candidate events (same server, inside the window, same
  correlation values) satisfies every step with the events of each step strictly before those of the
  next and the trigger among the last step's events. No attack sequence that is there is missed.\<close>

theorem sequence_rule_fires_iff_possible:
  assumes "rule_ok r" "ru_enabled r" "ru_condition r = Sequence window steps" "distinct (map ev_id hist)"
  shows "evaluate_rule r trigger hist \<noteq> None \<longleftrightarrow>
    correlation_of trigger (ru_correlation_fields r) \<noteq> None
    \<and> (\<exists>Cs. sequence_choice (sequence_candidates r window trigger hist) trigger steps Cs)"
proof -
  note steps = sequence_rule_steps [OF assms(1,3)]
  note iff = choose_sequence_iff [OF distinct_candidates [OF assms(4)] conjunct1 [OF steps] conjunct2 [OF steps],
      of r window trigger]
  have "can_trigger r trigger" if "sequence_choice cs trigger steps Cs" for cs Cs
  proof -
    have "steps \<noteq> []" "list_all2 (step_choice cs) steps Cs" "trigger \<in> set (last Cs)"
      using that steps by (simp_all add: sequence_choice_def)
    then have "step_choice cs (last steps) (last Cs)"
      by (metis list_all2_lengthD last_conv_nth list_all2_nthD2 length_0_conv length_greater_0_conv diff_less zero_less_one)
    with \<open>trigger \<in> set (last Cs)\<close> show ?thesis
      by (simp add: can_trigger_def assms(3) step_choice_def)
  qed
  with iff show ?thesis
    by (auto simp: evaluate_rule_def assms(2,3) evaluate_sequence_candidates Let_def split: option.splits)
qed

theorem sequence_rule_fires_iff_possible_witness:
  "\<exists>Cs. sequence_choice (sequence_candidates sample_rule 300 (sample_event 3 Ssh_Login_Succeeded 3000000) sample_history)
     (sample_event 3 Ssh_Login_Succeeded 3000000) sample_steps Cs"
  using sequence_rule_fires_iff_possible [of sample_rule 300 sample_steps sample_history
      "sample_event 3 Ssh_Login_Succeeded 3000000"] sample_rule_ok sample_history_distinct sample_rule_matches
  by (simp add: sample_rule_def)

text \<open>C27: Every match rests on sound evidence, whatever the kind of rule: each event of the evidence
  comes from the trigger's server, lies in the rule's window before the trigger, is in the history and
  matches one of the rule's event conditions; the evidence has no event twice, is in the order of
  occurrence and has at least as many events as the rule's thresholds demand; the correlation values
  are those of the trigger, and the trigger is itself part of the evidence unless a distinct-count
  rule has to skip it.\<close>

theorem match_rests_on_sound_evidence:
  assumes "rule_ok r" "distinct (map ev_id hist)" "trigger \<in> set hist" "evaluate_rule r trigger hist = Some m"
  shows "sound_evidence r trigger hist (mt_evidence m)
    \<and> correlation_of trigger (ru_correlation_fields r) = Some (mt_correlation m)
    \<and> (trigger_counts r trigger \<longrightarrow> trigger \<in> set (mt_evidence m))
    \<and> ru_enabled r \<and> can_trigger r trigger"
  using evaluate_rule_sound [OF assms] by simp

theorem match_rests_on_sound_evidence_witness:
  "sound_evidence sample_rule (sample_event 3 Ssh_Login_Succeeded 3000000) sample_history sample_history"
  using match_rests_on_sound_evidence [OF sample_rule_ok sample_history_distinct _ sample_rule_matches]
  by (simp add: sample_history_def)

text \<open>C28: The verdict is deterministic: it depends only on the set of events of the trigger's server.
  Reading the history in another order, or with the events of other servers added or removed, gives
  the same match with the same evidence.\<close>

theorem verdict_is_deterministic:
  assumes "distinct (map ev_id hist)"
    "mset (filter (\<lambda>e. ev_server_id e = ev_server_id trigger) hist) =
     mset (filter (\<lambda>e. ev_server_id e = ev_server_id trigger) hist')"
  shows "evaluate_rule r trigger hist = evaluate_rule r trigger hist'"
  using assms by (rule evaluate_rule_permuted)

theorem verdict_is_deterministic_witness:
  "evaluate_rule sample_rule (sample_event 3 Ssh_Login_Succeeded 3000000)
     (rev ((sample_event 9 File_Changed 5)\<lparr>ev_server_id := 2\<rparr> # sample_history))
   = Some \<lparr>mt_correlation = [(''username'', JStr ''root'')], mt_evidence = sample_history\<rparr>"
proof -
  let ?h = "rev ((sample_event 9 File_Changed 5)\<lparr>ev_server_id := 2\<rparr> # sample_history)"
  have "evaluate_rule sample_rule (sample_event 3 Ssh_Login_Succeeded 3000000) sample_history
      = evaluate_rule sample_rule (sample_event 3 Ssh_Login_Succeeded 3000000) ?h"
    by (rule verdict_is_deterministic [OF sample_history_distinct])
      (simp add: sample_history_def sample_event_def)
  with sample_rule_matches show ?thesis by simp
qed

end
