(* ===== verification/Detection.thy ===== *)
theory Detection
  imports Rule_Evaluation Outbox
begin

text \<open>
  \<open>application/detection/engine.py\<close>, the part that works on the database: reading the history of a
  trigger, turning a match into an incident or into more evidence for the open one, and the run over
  all new events and all active rules inside the caller's transaction. SHA-256, the conversion of
  stored rule definitions and that of notification envelopes are arguments (\<open>detection_env\<close>). The
  advisory lock on a correlation bucket has no effect in a model that executes one transaction at a
  time.
\<close>

section \<open>Definitions\<close>

record detection_env =
  dt_sha256_hex :: "string \<Rightarrow> string"
  dt_rules :: rule_codec
  dt_notifications :: codec

record detection_result =
  dr_matched_rules :: nat
  dr_created_incidents :: nat
  dr_linked_evidence :: nat

definition correlation_hash :: "(string \<Rightarrow> string) \<Rightarrow> (string \<times> json) list \<Rightarrow> string" where
  "correlation_hash sha256_hex correlation = sha256_hex (canonical_value (JObj correlation))"

definition load_history :: "db \<Rightarrow> rule \<Rightarrow> event_row \<Rightarrow> event_row list" where
  "load_history d r trigger = (case ru_condition r of
     Single _ \<Rightarrow> [trigger]
   | _ \<Rightarrow> sort_key event_order (filter (\<lambda>e. ev_server_id e = ev_server_id trigger
       \<and> ev_event_type e \<in> set (map (event_type_value \<circ> ec_event_type) (rule_conditions (ru_condition r)))
       \<and> in_window (rule_window (ru_condition r)) trigger e) (events d)))"

definition bucket :: "uuid \<Rightarrow> uuid \<Rightarrow> string \<Rightarrow> string \<Rightarrow> incident_row \<Rightarrow> bool" where
  "bucket server version_id rule_key h i \<longleftrightarrow> inc_server_id i = server
     \<and> inc_rule_version_id i = version_id \<and> inc_rule_key i = rule_key
     \<and> inc_correlation_hash i = h \<and> is_open i"

definition evidence_times :: "detection_match \<Rightarrow> time list" where
  "evidence_times m = map ev_occurred_at (mt_evidence m)"

definition new_incident ::
  "detection_env \<Rightarrow> uuid \<Rightarrow> time \<Rightarrow> rule_version_row \<Rightarrow> rule \<Rightarrow> event_row \<Rightarrow> detection_match \<Rightarrow> string
    \<Rightarrow> incident_row" where
  "new_incident env iid now stored r trigger m h = \<lparr>inc_id = iid, inc_server_id = ev_server_id trigger,
     inc_rule_version_id = rv_id stored, inc_rule_key = ru_rule_key r, inc_rule_version = ru_version r,
     inc_severity = ru_severity r, inc_status = New, inc_title = ru_title r,
     inc_explanation = ru_explanation r, inc_recommendation = ru_recommendation r,
     inc_title_en = ru_title_en r, inc_explanation_en = ru_explanation_en r,
     inc_recommendation_en = ru_recommendation_en r, inc_correlation = mt_correlation m,
     inc_correlation_hash = h, inc_rule_snapshot = canonical_rule (dt_rules env) r,
     inc_first_seen_at = Min (set (evidence_times m)), inc_last_seen_at = Max (set (evidence_times m)),
     inc_event_count = length (mt_evidence m), inc_lock_version = 1, inc_created_at = now,
     inc_updated_at = now\<rparr>"

definition insert_incident :: "db \<Rightarrow> incident_row \<Rightarrow> db result" where
  "insert_incident d i =
     (if \<not> incident_check i then Inl (IntegrityError ''incidents check'')
      else if \<exists>j \<in> set (incidents d). is_open i \<and> is_open j \<and> inc_server_id j = inc_server_id i
          \<and> inc_rule_version_id j = inc_rule_version_id i
          \<and> inc_correlation_hash j = inc_correlation_hash i
        then Inl (IntegrityError ''uq_incidents_active_server_rule_version_correlation'')
      else Inr (d\<lparr>incidents := incidents d @ [i]\<rparr>))"

text \<open>The open incident of the bucket, created with its baseline history when there is none.\<close>

definition open_incident ::
  "detection_env \<Rightarrow> db \<Rightarrow> time \<Rightarrow> rule_version_row \<Rightarrow> rule \<Rightarrow> event_row \<Rightarrow> detection_match \<Rightarrow> string
    \<Rightarrow> (db \<times> incident_row \<times> bool) result" where
  "open_incident env d now stored r trigger m h =
     (case List.find (bucket (ev_server_id trigger) (rv_id stored) (ru_rule_key r) h) (incidents d) of
        Some i \<Rightarrow> Inr (d, i, False)
      | None \<Rightarrow>
        let (iid, d1) = uuid4 d; i = new_incident env iid now stored r trigger m h in
        bind_r (insert_incident d1 i) (\<lambda>d2.
        bind_r (add_baseline_history d2 i) (\<lambda>d3. Inr (d3, i, True))))"

definition link_ids :: "link_row list \<Rightarrow> (uuid \<times> uuid) set" where
  "link_ids ls = (\<lambda>l. (lk_incident_id l, lk_event_id l)) ` set ls"

text \<open>\<open>INSERT ... ON CONFLICT DO NOTHING RETURNING event_id\<close>, with the count of inserted rows.\<close>

fun link_evidence :: "db \<Rightarrow> time \<Rightarrow> uuid \<Rightarrow> event_row list \<Rightarrow> (db \<times> nat) result" where
  "link_evidence d now iid [] = Inr (d, 0)"
| "link_evidence d now iid (e # es) =
     (if ev_id e \<notin> ev_id ` set (events d) then Inl (IntegrityError ''fk_incident_events_event_id'')
      else if (iid, ev_id e) \<in> link_ids (incident_events d) then link_evidence d now iid es
      else map_sum id (\<lambda>(d', n). (d', Suc n)) (link_evidence
        (d\<lparr>incident_events := incident_events d
             @ [\<lparr>lk_incident_id = iid, lk_event_id = ev_id e, lk_linked_at = now\<rparr>]\<rparr>) now iid es))"

definition evidence_count :: "db \<Rightarrow> uuid \<Rightarrow> nat" where
  "evidence_count d iid = length (filter (\<lambda>l. lk_incident_id l = iid) (incident_events d))"

text \<open>What the flush after linking writes on the incident's row.\<close>

definition refreshed :: "db \<Rightarrow> time \<Rightarrow> detection_match \<Rightarrow> incident_row \<Rightarrow> incident_row" where
  "refreshed d now m i = i\<lparr>inc_first_seen_at := min (inc_first_seen_at i) (Min (set (evidence_times m))),
     inc_last_seen_at := max (inc_last_seen_at i) (Max (set (evidence_times m))),
     inc_event_count := evidence_count d (inc_id i), inc_updated_at := now\<rparr>"

definition persist_match ::
  "detection_env \<Rightarrow> db \<Rightarrow> time \<Rightarrow> int \<Rightarrow> rule_version_row \<Rightarrow> rule \<Rightarrow> event_row \<Rightarrow> detection_match
    \<Rightarrow> string \<Rightarrow> (db \<times> bool \<times> nat) result" where
  "persist_match env d now outbox_max_attempts stored r trigger m h =
     bind_r (guard_r (mt_evidence m \<noteq> []) (ValueError ''min() arg is an empty sequence'')) (\<lambda>_.
     bind_r (open_incident env d now stored r trigger m h) (\<lambda>(d1, i, created).
     bind_r (link_evidence d1 now (inc_id i) (mt_evidence m)) (\<lambda>(d2, linked).
     let i' = refreshed d2 now m i;
         d3 = d2\<lparr>incidents := update_where (\<lambda>j. inc_id j = inc_id i) (\<lambda>_. i') (incidents d2)\<rparr> in
     if created
     then bind_r (enqueue_incident_created_notifications (dt_notifications env) d3 now i' outbox_max_attempts)
       (\<lambda>(d4, _). Inr (d4, True, linked))
     else Inr (d3, False, linked))))"

text \<open>One iteration of the two loops: one new event against one active rule.\<close>

definition detect_one ::
  "detection_env \<Rightarrow> time \<Rightarrow> int \<Rightarrow> event_row \<times> rule_version_row \<times> rule \<Rightarrow> db \<times> detection_result
    \<Rightarrow> (db \<times> detection_result) result" where
  "detect_one env now outbox_max_attempts = (\<lambda>(trigger, stored, r) (d, res).
     if \<not> can_trigger r trigger then Inr (d, res)
     else case correlation_of trigger (ru_correlation_fields r) of
       None \<Rightarrow> Inr (d, res)
     | Some correlation \<Rightarrow>
       (case evaluate_rule r trigger (load_history d r trigger) of
          None \<Rightarrow> Inr (d, res)
        | Some m \<Rightarrow>
          bind_r (persist_match env d now outbox_max_attempts stored r trigger m
              (correlation_hash (dt_sha256_hex env) correlation)) (\<lambda>(d', created, linked).
          Inr (d', \<lparr>dr_matched_rules = dr_matched_rules res + 1,
            dr_created_incidents = dr_created_incidents res + of_bool created,
            dr_linked_evidence = dr_linked_evidence res + linked\<rparr>))))"

fun detect_all ::
  "detection_env \<Rightarrow> time \<Rightarrow> int \<Rightarrow> (event_row \<times> rule_version_row \<times> rule) list \<Rightarrow> db \<times> detection_result
    \<Rightarrow> (db \<times> detection_result) result" where
  "detect_all env now k [] s = Inr s"
| "detect_all env now k (x # xs) s = bind_r (detect_one env now k x s) (detect_all env now k xs)"

definition stored_rules :: "db \<Rightarrow> rule_version_row list" where
  "stored_rules d = sort_key rv_rule_key (filter (\<lambda>r. rv_is_active r \<and> rv_enabled r) (rule_versions d))"

fun parse_rules :: "rule_codec \<Rightarrow> rule_version_row list \<Rightarrow> (rule_version_row \<times> rule) list option" where
  "parse_rules k [] = Some []"
| "parse_rules k (s # ss) = (case rule_model_validate k (rv_definition s) of
     None \<Rightarrow> None
   | Some r \<Rightarrow> map_option (\<lambda>rs. (s, r) # rs) (parse_rules k ss))"

definition no_detection :: detection_result where
  "no_detection = \<lparr>dr_matched_rules = 0, dr_created_incidents = 0, dr_linked_evidence = 0\<rparr>"

definition run_detection ::
  "detection_env \<Rightarrow> db \<Rightarrow> time \<Rightarrow> event_row list \<Rightarrow> int \<Rightarrow> (db \<times> detection_result) result" where
  "run_detection env d now new_events outbox_max_attempts =
     (if new_events = [] then Inr (d, no_detection)
      else case parse_rules (dt_rules env) (stored_rules d) of
        None \<Rightarrow> Inl (DetectionEngineError ''an active rule definition is invalid'')
      | Some rules \<Rightarrow>
        detect_all env now outbox_max_attempts
          (concat (map (\<lambda>t. map (Pair t) rules) (sort_key event_order new_events))) (d, no_detection))"

section \<open>Evidence links\<close>

definition evidence_of :: "db \<Rightarrow> uuid \<Rightarrow> event_row list" where
  "evidence_of d iid = filter (\<lambda>e. (iid, ev_id e) \<in> link_ids (incident_events d)) (events d)"

definition with_links :: "db \<Rightarrow> link_row list \<Rightarrow> db" where
  "with_links d ls = d\<lparr>incident_events := incident_events d @ ls\<rparr>"

lemma with_links_simps [simp]:
  "incident_events (with_links d ls) = incident_events d @ ls" "events (with_links d ls) = events d"
  "incidents (with_links d ls) = incidents d" "history (with_links d ls) = history d"
  "outbox (with_links d ls) = outbox d" "next_uuid (with_links d ls) = next_uuid d"
  "rule_versions (with_links d ls) = rule_versions d" "destinations (with_links d ls) = destinations d"
  "audit_log (with_links d ls) = audit_log d" "comments (with_links d ls) = comments d"
  "idempotency (with_links d ls) = idempotency d"
  by (simp_all add: with_links_def)

lemma with_links_Nil [simp]: "with_links d [] = d"
  by (simp add: with_links_def)

lemma link_ids_simps [simp]:
  "link_ids [] = {}" "link_ids (xs @ ys) = link_ids xs \<union> link_ids ys"
  "link_ids (l # ls) = insert (lk_incident_id l, lk_event_id l) (link_ids ls)"
  by (auto simp: link_ids_def)

lemma link_evidence_Inr:
  assumes "link_evidence d now iid es = Inr (d', n)"
  obtains ls where "d' = with_links d ls" "n = length ls" "\<forall>l \<in> set ls. lk_incident_id l = iid
      \<and> lk_event_id l \<in> ev_id ` set (events d)"
    "link_ids (incident_events d') = link_ids (incident_events d) \<union> (\<lambda>e. (iid, ev_id e)) ` set es"
    "links_unique (incident_events d) \<Longrightarrow> links_unique (incident_events d')"
  using assms
proof (induction es arbitrary: d d' n thesis)
  case Nil
  then show ?case by (auto intro: Nil.prems(1) [of "[]"])
next
  case (Cons e es)
  show ?case
  proof (cases "(iid, ev_id e) \<in> link_ids (incident_events d)")
    case True
    with Cons.prems(2) have rest: "link_evidence d now iid es = Inr (d', n)" by (simp split: if_splits)
    show ?thesis
    proof (rule Cons.IH [OF _ rest])
      fix ls assume *: "d' = with_links d ls" "n = length ls" "\<forall>l \<in> set ls. lk_incident_id l = iid
          \<and> lk_event_id l \<in> ev_id ` set (events d)"
        "link_ids (incident_events d') = link_ids (incident_events d) \<union> (\<lambda>e. (iid, ev_id e)) ` set es"
        "links_unique (incident_events d) \<Longrightarrow> links_unique (incident_events d')"
      have "link_ids (incident_events d') = link_ids (incident_events d) \<union> (\<lambda>e. (iid, ev_id e)) ` set (e # es)"
        using *(4) True by auto
      with * show ?thesis by (intro Cons.prems(1))
    qed
  next
    case False
    let ?l = "\<lparr>lk_incident_id = iid, lk_event_id = ev_id e, lk_linked_at = now\<rparr>"
    from Cons.prems(2) False obtain k where e: "ev_id e \<in> ev_id ` set (events d)"
      and rest: "link_evidence (with_links d [?l]) now iid es = Inr (d', k)" and n: "n = Suc k"
      by (cases "link_evidence (with_links d [?l]) now iid es") (auto simp: with_links_def split: if_splits)
    have new: "links_unique (incident_events d) \<Longrightarrow> links_unique (incident_events (with_links d [?l]))"
      using False by (auto simp: links_unique_def link_ids_def image_iff)
    show ?thesis
    proof (rule Cons.IH [OF _ rest])
      fix ls assume *: "d' = with_links (with_links d [?l]) ls" "k = length ls"
        "\<forall>l \<in> set ls. lk_incident_id l = iid \<and> lk_event_id l \<in> ev_id ` set (events (with_links d [?l]))"
        "link_ids (incident_events d') = link_ids (incident_events (with_links d [?l])) \<union> (\<lambda>e. (iid, ev_id e)) ` set es"
        "links_unique (incident_events (with_links d [?l])) \<Longrightarrow> links_unique (incident_events d')"
      show ?thesis
        using e n * new by (intro Cons.prems(1) [of "?l # ls"]) (auto simp: with_links_def)
    qed
  qed
qed

lemma link_evidence_defined:
  "ev_id ` set es \<subseteq> ev_id ` set (events d) \<Longrightarrow> \<exists>r. link_evidence d now iid es = Inr r"
proof (induction es arbitrary: d)
  case (Cons e es)
  let ?d = "with_links d [\<lparr>lk_incident_id = iid, lk_event_id = ev_id e, lk_linked_at = now\<rparr>]"
  obtain r r' where "link_evidence d now iid es = Inr r" "link_evidence ?d now iid es = Inr r'"
    using Cons.IH [of d] Cons.IH [of ?d] Cons.prems by auto
  then show ?case using Cons.prems by (cases r') (auto simp: with_links_def)
qed simp

section \<open>What the incident tables promise\<close>

text \<open>
  An incident counts exactly its evidence, spans exactly its evidence in time, and its evidence all
  comes from its server.
\<close>

definition incident_evidence_ok :: "db \<Rightarrow> incident_row \<Rightarrow> bool" where
  "incident_evidence_ok d i \<longleftrightarrow> (let es = evidence_of d (inc_id i) in
     es \<noteq> [] \<and> inc_event_count i = length es
     \<and> inc_first_seen_at i = Min (ev_occurred_at ` set es)
     \<and> inc_last_seen_at i = Max (ev_occurred_at ` set es)
     \<and> (\<forall>e \<in> set es. ev_server_id e = inc_server_id i))"

definition detection_inv :: "db \<Rightarrow> bool" where
  "detection_inv d \<longleftrightarrow> distinct (map ev_id (events d)) \<and> incidents_unique (incidents d)
     \<and> links_unique (incident_events d)
     \<and> (\<forall>l \<in> set (incident_events d). lk_incident_id l \<in> inc_id ` set (incidents d)
          \<and> lk_event_id l \<in> ev_id ` set (events d))
     \<and> (\<forall>i \<in> set (incidents d). incident_check i \<and> inc_id i < next_uuid d \<and> incident_evidence_ok d i)"

lemma evidence_count_eq:
  assumes "distinct (map ev_id (events d))" "links_unique (incident_events d)"
    "\<forall>l \<in> set (incident_events d). lk_event_id l \<in> ev_id ` set (events d)"
  shows "evidence_count d iid = length (evidence_of d iid)"
proof -
  let ?ls = "filter (\<lambda>l. lk_incident_id l = iid) (incident_events d)"
  have "distinct (map (\<lambda>l. (lk_incident_id l, lk_event_id l)) ?ls)"
    using assms(2) unfolding links_unique_def by (rule distinct_map_filter)
  then have "distinct (map lk_event_id ?ls)" by (auto simp: distinct_map inj_on_def)
  then have "evidence_count d iid = card (lk_event_id ` set ?ls)"
    unfolding evidence_count_def by (metis distinct_card length_map list.set_map)
  also have "lk_event_id ` set ?ls = ev_id ` set (evidence_of d iid)"
    using assms(3) by (force simp: evidence_of_def link_ids_def)
  also have "distinct (map ev_id (evidence_of d iid))"
    unfolding evidence_of_def using assms(1) by (rule distinct_map_filter)
  then have "card (ev_id ` set (evidence_of d iid)) = length (evidence_of d iid)"
    by (metis distinct_card length_map list.set_map)
  finally show ?thesis .
qed

section \<open>One match\<close>

text \<open>A match whose evidence is stored, nonempty and from the trigger's server.\<close>

definition stored_match :: "db \<Rightarrow> event_row \<Rightarrow> detection_match \<Rightarrow> bool" where
  "stored_match d trigger m \<longleftrightarrow> mt_evidence m \<noteq> [] \<and> set (mt_evidence m) \<subseteq> set (events d)
     \<and> (\<forall>e \<in> set (mt_evidence m). ev_server_id e = ev_server_id trigger)"

lemma set_evidence_of: "distinct (map ev_id (events d)) \<Longrightarrow> set es \<subseteq> set (events d) \<Longrightarrow>
    link_ids (incident_events d') = link_ids (incident_events d) \<union> (\<lambda>e. (iid, ev_id e)) ` set es \<Longrightarrow>
    events d' = events d \<Longrightarrow>
    set (evidence_of d' k) = set (evidence_of d k) \<union> (if k = iid then set es else {})"
  using key_inj_rows [of ev_id "events d"] by (auto simp: evidence_of_def)

text \<open>
  The database after a match: the bucket's incident \<open>i\<close> (old or new) refreshed, links added,
  messages appended for a new incident only.
\<close>

definition matched_db :: "db \<Rightarrow> incident_row list \<Rightarrow> history_row list \<Rightarrow> link_row list \<Rightarrow> outbox_row list \<Rightarrow> nat \<Rightarrow> db" where
  "matched_db d is hs ls ms used = d\<lparr>incidents := is, history := hs, incident_events := incident_events d @ ls,
     outbox := outbox d @ ms, next_uuid := next_uuid d + used\<rparr>"

lemma matched_db_simps [simp]:
  "incidents (matched_db d is hs ls ms u) = is" "history (matched_db d is hs ls ms u) = hs"
  "incident_events (matched_db d is hs ls ms u) = incident_events d @ ls"
  "outbox (matched_db d is hs ls ms u) = outbox d @ ms"
  "next_uuid (matched_db d is hs ls ms u) = next_uuid d + u"
  "events (matched_db d is hs ls ms u) = events d" "rule_versions (matched_db d is hs ls ms u) = rule_versions d"
  "destinations (matched_db d is hs ls ms u) = destinations d" "audit_log (matched_db d is hs ls ms u) = audit_log d"
  "comments (matched_db d is hs ls ms u) = comments d" "idempotency (matched_db d is hs ls ms u) = idempotency d"
  by (simp_all add: matched_db_def)

lemma matched_db_refreshed:
  "(with_links d ls)\<lparr>incidents := is\<rparr> = matched_db d is (history d) ls [] 0"
  by (rule db.equality) simp_all

definition refresh_row :: "time \<Rightarrow> detection_match \<Rightarrow> nat \<Rightarrow> incident_row \<Rightarrow> incident_row" where
  "refresh_row now m n i = i\<lparr>inc_first_seen_at := min (inc_first_seen_at i) (Min (set (evidence_times m))),
     inc_last_seen_at := max (inc_last_seen_at i) (Max (set (evidence_times m))),
     inc_event_count := n, inc_updated_at := now\<rparr>"

lemma refreshed_row: "refreshed d now m i = refresh_row now m (evidence_count d (inc_id i)) i"
  by (simp add: refreshed_def refresh_row_def)

lemma refresh_row_simps [simp]:
  "inc_id (refresh_row now m c i) = inc_id i" "inc_server_id (refresh_row now m c i) = inc_server_id i"
  "inc_rule_version_id (refresh_row now m c i) = inc_rule_version_id i"
  "inc_rule_key (refresh_row now m c i) = inc_rule_key i"
  "inc_status (refresh_row now m c i) = inc_status i" "inc_lock_version (refresh_row now m c i) = inc_lock_version i"
  "inc_correlation_hash (refresh_row now m c i) = inc_correlation_hash i"
  "inc_event_count (refresh_row now m c i) = c"
  "inc_first_seen_at (refresh_row now m c i) = min (inc_first_seen_at i) (Min (set (evidence_times m)))"
  "inc_last_seen_at (refresh_row now m c i) = max (inc_last_seen_at i) (Max (set (evidence_times m)))"
  by (simp_all add: refresh_row_def)

text \<open>What a persisted match did, in the two cases.\<close>

lemma persist_match_cases [consumes 1, case_names existing created]:
  assumes "persist_match env d now k stored r trigger m h = Inr (d', created, linked)"
  obtains i ls where "\<not> created" "i \<in> set (incidents d)"
      "bucket (ev_server_id trigger) (rv_id stored) (ru_rule_key r) h i" "linked = length ls"
      "\<forall>l \<in> set ls. lk_incident_id l = inc_id i \<and> lk_event_id l \<in> ev_id ` set (events d)"
      "link_ids (incident_events d @ ls) = link_ids (incident_events d) \<union> (\<lambda>e. (inc_id i, ev_id e)) ` set (mt_evidence m)"
      "links_unique (incident_events d) \<Longrightarrow> links_unique (incident_events d @ ls)"
      "d' = matched_db d (update_where (\<lambda>j. inc_id j = inc_id i)
         (\<lambda>_. refresh_row now m (evidence_count (with_links d ls) (inc_id i)) i) (incidents d)) (history d) ls [] 0"
  | i b ls ms where "created" "i = new_incident env (next_uuid d) now stored r trigger m h"
      "b = baseline_history (Suc (next_uuid d)) i" "history_check b"
      "incident_check i" "\<not> list_ex (bucket (ev_server_id trigger) (rv_id stored) (ru_rule_key r) h) (incidents d)"
      "\<forall>j \<in> set (incidents d). is_open j \<longrightarrow> (inc_server_id j, inc_rule_version_id j, inc_correlation_hash j)
         \<noteq> (inc_server_id i, inc_rule_version_id i, inc_correlation_hash i)"
      "(next_uuid d, 1) \<notin> (\<lambda>g. (hs_incident_id g, hs_version g)) ` set (history d)" "linked = length ls"
      "\<forall>l \<in> set ls. lk_incident_id l = inc_id i \<and> lk_event_id l \<in> ev_id ` set (events d)"
      "link_ids (incident_events d @ ls) = link_ids (incident_events d) \<union> (\<lambda>e. (inc_id i, ev_id e)) ` set (mt_evidence m)"
      "links_unique (incident_events d) \<Longrightarrow> links_unique (incident_events d @ ls)"
      "\<forall>o1 \<in> set ms. ob_incident_id o1 = inc_id i" "outbox_inv d \<Longrightarrow> outbox_inv d'"
      "d' = matched_db d (update_where (\<lambda>j. inc_id j = inc_id i)
         (\<lambda>_. refresh_row now m (evidence_count (with_links d ls) (inc_id i)) i) (incidents d @ [i]))
         (history d @ [b]) ls ms (2 + length ms)"
      "map ob_destination_id ms = map de_id (eligible_destinations d i)"
proof -
  let ?b = "bucket (ev_server_id trigger) (rv_id stored) (ru_rule_key r) h"
  from assms obtain d1 i c d2 where open1: "open_incident env d now stored r trigger m h = Inr (d1, i, c)"
    and link: "link_evidence d1 now (inc_id i) (mt_evidence m) = Inr (d2, linked)"
    and rest: "(let i' = refreshed d2 now m i;
         d3 = d2\<lparr>incidents := update_where (\<lambda>j. inc_id j = inc_id i) (\<lambda>_. i') (incidents d2)\<rparr> in
       if c
       then bind_r (enqueue_incident_created_notifications (dt_notifications env) d3 now i' k)
         (\<lambda>(d4, _). Inr (d4, True, linked))
       else Inr (d3, False, linked)) = Inr (d', created, linked)"
    by (auto simp: persist_match_def bind_r_eq_Inr Let_def split: if_splits)
  from link obtain ls where d2: "d2 = with_links d1 ls" "linked = length ls"
    "\<forall>l \<in> set ls. lk_incident_id l = inc_id i \<and> lk_event_id l \<in> ev_id ` set (events d1)"
    "link_ids (incident_events d2) = link_ids (incident_events d1) \<union> (\<lambda>e. (inc_id i, ev_id e)) ` set (mt_evidence m)"
    "links_unique (incident_events d1) \<Longrightarrow> links_unique (incident_events d2)"
    by (rule link_evidence_Inr) blast
  show thesis
  proof (cases "List.find ?b (incidents d)")
    case (Some j)
    with open1 have j: "d1 = d" "i = j" "\<not> c" by (simp_all add: open_incident_def)
    from Some j have i: "i \<in> set (incidents d)" "?b i" by (auto simp: find_Some_iff)
    have "\<not> created" "d' = matched_db d (update_where (\<lambda>j. inc_id j = inc_id i)
         (\<lambda>_. refresh_row now m (evidence_count (with_links d ls) (inc_id i)) i) (incidents d)) (history d) ls [] 0"
      using rest j by (simp_all add: d2(1) refreshed_row Let_def matched_db_refreshed)
    with i d2 j(1) show thesis by (intro that(1)) simp_all
  next
    case None
    define n where "n = next_uuid d"
    let ?i = "new_incident env n now stored r trigger m h"
    let ?bl = "baseline_history (Suc n) ?i"
    have id: "inc_id ?i = n" "is_open ?i" by (simp_all add: new_incident_def is_open_def)
    from open1 None have c: "c" "i = ?i" "incident_check ?i" "history_check ?bl"
      and uq: "\<forall>j \<in> set (incidents d). is_open j \<longrightarrow> (inc_server_id j, inc_rule_version_id j, inc_correlation_hash j)
         \<noteq> (inc_server_id ?i, inc_rule_version_id ?i, inc_correlation_hash ?i)"
      and hs: "(n, 1) \<notin> (\<lambda>g. (hs_incident_id g, hs_version g)) ` set (history d)"
      and d1: "d1 = d\<lparr>incidents := incidents d @ [?i], history := history d @ [?bl], next_uuid := Suc (Suc n)\<rparr>"
      by (auto simp: open_incident_def uuid4_def Let_def bind_r_eq_Inr insert_incident_def
          add_baseline_history_def insert_history_Inr baseline_history_def n_def [symmetric] id split: if_splits)
    let ?i' = "refresh_row now m (evidence_count (with_links d ls) n) ?i"
    have count: "evidence_count d2 n = evidence_count (with_links d ls) n"
      by (simp add: evidence_count_def d2(1) d1)
    define d3 where "d3 = d2\<lparr>incidents := update_where (\<lambda>j. inc_id j = n) (\<lambda>_. ?i') (incidents d2)\<rparr>"
    from rest obtain x where enq: "enqueue_incident_created_notifications (dt_notifications env) d3 now ?i' k = Inr (d', x)"
      and cr: "created"
      by (auto simp: c Let_def bind_r_eq_Inr refreshed_row count id d3_def)
    obtain p where ms: "d' = with_outbox d3 (outbox_entries (next_uuid d3) now ?i' p k (eligible_destinations d3 ?i'))"
      using enqueue_Inr(1) [OF enq] by blast
    let ?ms = "outbox_entries (next_uuid d3) now ?i' p k (eligible_destinations d3 ?i')"
    have d': "d' = matched_db d (update_where (\<lambda>j. inc_id j = n) (\<lambda>_. ?i') (incidents d @ [?i]))
         (history d @ [?bl]) ls ?ms (2 + length ?ms)"
      unfolding ms by (simp add: d3_def d2(1) d1 with_outbox_def matched_db_def with_links_def n_def)
    have "outbox_inv d3" if "outbox_inv d"
      using that by (rule outbox_inv_cong) (simp_all add: d3_def d2(1) d1 n_def)
    then have inv: "outbox_inv d \<Longrightarrow> outbox_inv d'" using enqueue_Inr(3) [OF enq] by blast
    have new: "\<not> list_ex ?b (incidents d)" using None by (auto simp: find_None_iff list_ex_iff)
    have ids: "\<forall>o1 \<in> set ?ms. ob_incident_id o1 = n" using outbox_entries_map(2) [of "next_uuid d3" now ?i' p k] id by simp
    have "eligible_destinations d3 ?i' = eligible_destinations d ?i"
      by (simp add: eligible_destinations_def d3_def d2(1) d1 refresh_row_def)
    then have dests: "map ob_destination_id ?ms = map de_id (eligible_destinations d ?i)"
      by (simp add: outbox_entries_map(1))
    show thesis
      by (rule that(2) [of ?i ?bl ls ?ms])
        (use cr c uq hs d2 d1 d' inv new ids id dests in \<open>simp_all add: n_def [symmetric]\<close>)
  qed
qed

lemma update_where_append: "update_where P f (xs @ ys) = update_where P f xs @ update_where P f ys"
  by (simp add: update_where_def)

lemma map_filter_update_where:
  "(\<And>r. r \<in> set rows \<Longrightarrow> Q r \<Longrightarrow> P (f r) = P r \<and> (P r \<longrightarrow> g (f r) = g r)) \<Longrightarrow>
    map g (filter P (update_where Q f rows)) = map g (filter P rows)"
  by (induction rows) auto

text \<open>Replacing a row by one that agrees with it on a projection.\<close>

lemma replaced_row:
  assumes "distinct (map inc_id is)" "i \<in> set is" "inc_id j = inc_id i" "j \<in> set is"
  shows "j = i"
  using key_inj_rows [OF assms(1,4,2,3)] .

lemma incidents_unique_replaced:
  assumes "incidents_unique is" "i \<in> set is" "inc_id i' = inc_id i" "inc_status i' = inc_status i"
    "inc_server_id i' = inc_server_id i" "inc_rule_version_id i' = inc_rule_version_id i"
    "inc_correlation_hash i' = inc_correlation_hash i"
  shows "incidents_unique (update_where (\<lambda>j. inc_id j = inc_id i) (\<lambda>_. i') is)"
proof -
  let ?is = "update_where (\<lambda>j. inc_id j = inc_id i) (\<lambda>_. i') is"
  have dist: "distinct (map inc_id is)" using assms(1) by (simp add: incidents_unique_def)
  have "map inc_id ?is = map inc_id is" by (rule map_update_where) (simp add: assms(3))
  moreover have "map (\<lambda>i. (inc_server_id i, inc_rule_version_id i, inc_correlation_hash i)) (filter is_open ?is)
      = map (\<lambda>i. (inc_server_id i, inc_rule_version_id i, inc_correlation_hash i)) (filter is_open is)"
    by (rule map_filter_update_where) (auto simp: assms(4-7) is_open_def dest: replaced_row [OF dist assms(2)])
  ultimately show ?thesis using assms(1) by (simp add: incidents_unique_def)
qed

lemma history_inv_replaced:
  assumes inv: "history_inv d" and i: "i \<in> set (incidents d)"
    and i': "inc_id i' = inc_id i" "inc_status i' = inc_status i" "inc_lock_version i' = inc_lock_version i"
    and d': "incidents d' = update_where (\<lambda>j. inc_id j = inc_id i) (\<lambda>_. i') (incidents d)"
      "history d' = history d" "next_uuid d \<le> next_uuid d'"
  shows "history_inv d'"
proof -
  have ids: "map inc_id (incidents d') = map inc_id (incidents d)"
    unfolding d'(1) by (rule map_update_where) (simp add: i'(1))
  then have ids': "inc_id ` set (incidents d') = inc_id ` set (incidents d)" by (metis set_map)
  have "replay_history (history_of d' (inc_id j)) = Some (inc_status j, inc_lock_version j)"
    if "j \<in> set (incidents d')" for j
    using that inv i unfolding d'(1) by (auto simp: set_update_where i' history_inv_def history_of_def d'(2))
  with inv ids ids' d'(2,3) show ?thesis by (auto simp: history_inv_def intro: less_le_trans)
qed

lemma history_inv_baseline:
  assumes inv: "history_inv d" and i: "inc_id i \<notin> inc_id ` set (incidents d)" "inc_status i = New" "inc_lock_version i = 1"
    and b: "b = baseline_history (Suc (next_uuid d)) i" "history_check b"
    and d': "incidents d' = incidents d @ [i]" "history d' = history d @ [b]" "Suc (next_uuid d) < next_uuid d'"
  shows "history_inv d'"
proof -
  have none: "hs_incident_id h \<noteq> inc_id i" if "h \<in> set (history d)" for h
    using that inv i(1) unfolding history_inv_def by metis
  then have old: "history_of d (inc_id i) = []" by (auto simp: history_of_def filter_empty_conv)
  have bl: "hs_incident_id b = inc_id i" "hs_version b = 1" "hs_id b = Suc (next_uuid d)"
    "hs_entry_type b = Baseline" "hs_to_status b = inc_status i"
    by (simp_all add: b(1) baseline_history_def)
  have of': "history_of d' k = history_of d k @ (if inc_id i = k then [b] else [])" for k
    by (simp add: history_of_def d'(2) bl)
  have "replay_history (history_of d' (inc_id j)) = Some (inc_status j, inc_lock_version j)"
    if "j \<in> set (incidents d')" for j
  proof (cases "j = i")
    case True
    then show ?thesis by (simp add: of' old bl i(3))
  next
    case False
    with that have "j \<in> set (incidents d)" by (simp add: d'(1))
    moreover from this i(1) have "inc_id j \<noteq> inc_id i" by (metis image_eqI)
    ultimately show ?thesis using inv by (simp add: of' history_inv_def)
  qed
  moreover have "hs_id h < next_uuid d" if "h \<in> set (history d)" for h using that inv by (simp add: history_inv_def)
  ultimately show ?thesis
    using inv i(1) none b(2) d'(3) bl by (fastforce simp: history_inv_def history_unique_def d'(1,2))
qed

lemma evidence_other:
  assumes "events d' = events d" "j \<noteq> iid"
    "link_ids (incident_events d') = link_ids (incident_events d) \<union> (\<lambda>e. (iid, ev_id e)) ` set es"
  shows "evidence_of d' j = evidence_of d j"
  using assms by (auto simp: evidence_of_def intro!: filter_cong)

lemma evidence_refreshed:
  assumes d: "distinct (map ev_id (events d))" "events d' = events d" "links_unique (incident_events d')"
      "\<forall>l \<in> set (incident_events d'). lk_event_id l \<in> ev_id ` set (events d')"
      "link_ids (incident_events d') = link_ids (incident_events d) \<union> (\<lambda>e. (inc_id i, ev_id e)) ` set (mt_evidence m)"
    and m: "stored_match d trigger m" and i: "inc_server_id i = ev_server_id trigger"
    and old: "incident_evidence_ok d i \<or> (evidence_of d (inc_id i) = []
      \<and> inc_first_seen_at i = Min (set (evidence_times m)) \<and> inc_last_seen_at i = Max (set (evidence_times m)))"
  shows "incident_evidence_ok d' (refresh_row now m (evidence_count d' (inc_id i)) i)"
    "0 < evidence_count d' (inc_id i)"
proof -
  let ?E = "evidence_of d (inc_id i)" and ?T = "\<lambda>es. ev_occurred_at ` set es"
  have mem: "set (evidence_of d' (inc_id i)) = set ?E \<union> set (mt_evidence m)"
    using set_evidence_of [OF d(1) _ d(5,2), of "inc_id i"] m by (simp add: stored_match_def)
  have ne: "mt_evidence m \<noteq> []" "evidence_times m \<noteq> []" "evidence_of d' (inc_id i) \<noteq> []"
    using m mem by (auto simp: stored_match_def evidence_times_def)
  have T: "?T (evidence_of d' (inc_id i)) = ?T ?E \<union> set (evidence_times m)"
    by (simp add: mem image_Un evidence_times_def)
  have count: "evidence_count d' (inc_id i) = length (evidence_of d' (inc_id i))"
    using d by (intro evidence_count_eq) simp_all
  then show "0 < evidence_count d' (inc_id i)" using ne(3) by simp
  have first: "min (inc_first_seen_at i) (Min (set (evidence_times m))) = Min (?T (evidence_of d' (inc_id i)))"
    and last: "max (inc_last_seen_at i) (Max (set (evidence_times m))) = Max (?T (evidence_of d' (inc_id i)))"
    using old ne(2) unfolding T
    by (auto simp: incident_evidence_ok_def Let_def Min_Un Max_Un)
  have "\<forall>e \<in> set (evidence_of d' (inc_id i)). ev_server_id e = inc_server_id i"
    using old m i unfolding mem by (auto simp: incident_evidence_ok_def Let_def stored_match_def)
  with ne(3) count first last show "incident_evidence_ok d' (refresh_row now m (evidence_count d' (inc_id i)) i)"
    by (simp add: incident_evidence_ok_def Let_def)
qed

section \<open>What a run changes\<close>

text \<open>
  An incident that is still open may gain evidence; a closed one keeps its row; nothing else of any
  row changes.
\<close>

definition same_incident :: "incident_row \<Rightarrow> incident_row \<Rightarrow> bool" where
  "same_incident i i' \<longleftrightarrow> inc_first_seen_at i' \<le> inc_first_seen_at i
     \<and> inc_last_seen_at i \<le> inc_last_seen_at i' \<and> inc_event_count i \<le> inc_event_count i'
     \<and> (is_open i \<or> i' = i)
     \<and> i' = i\<lparr>inc_first_seen_at := inc_first_seen_at i', inc_last_seen_at := inc_last_seen_at i',
          inc_event_count := inc_event_count i', inc_updated_at := inc_updated_at i'\<rparr>"

lemma same_incident_refl [simp]: "same_incident i i"
  by (simp add: same_incident_def)

lemma same_incident_ids: "same_incident i j \<Longrightarrow>
    inc_id j = inc_id i \<and> inc_status j = inc_status i \<and> inc_lock_version j = inc_lock_version i"
  by (cases i; cases j) (auto simp: same_incident_def)

lemma same_incident_trans: "same_incident i j \<Longrightarrow> same_incident j k \<Longrightarrow> same_incident i k"
  by (cases i; cases j; cases k) (auto simp: same_incident_def is_open_def)

text \<open>The tables a run only reads, and those it only appends to.\<close>

definition detected :: "db \<Rightarrow> db \<Rightarrow> nat \<Rightarrow> bool" where
  "detected d d' n \<longleftrightarrow> events d' = events d \<and> rule_versions d' = rule_versions d
     \<and> comments d' = comments d \<and> audit_log d' = audit_log d \<and> idempotency d' = idempotency d
     \<and> destinations d' = destinations d \<and> next_uuid d \<le> next_uuid d'
     \<and> (\<exists>is new. list_all2 same_incident (incidents d) is \<and> incidents d' = is @ new \<and> length new = n
          \<and> (\<forall>i \<in> set new. next_uuid d \<le> inc_id i \<and> inc_status i = New \<and> inc_lock_version i = 1)
          \<and> (\<exists>bs. history d' = history d @ bs \<and> map hs_incident_id bs = map inc_id new)
          \<and> (\<exists>ms. outbox d' = outbox d @ ms \<and> ob_incident_id ` set ms \<subseteq> inc_id ` set new))
     \<and> (\<exists>ls. incident_events d' = incident_events d @ ls)"

lemma detected_refl [simp]: "detected d d 0"
  by (auto simp: detected_def intro: list_all2_refl)

lemma detected_trans:
  assumes "detected d d1 m" "detected d1 d2 n"
  shows "detected d d2 (m + n)"
proof -
  from assms(1) obtain is1 new1 bs1 ms1 ls1 where 1: "list_all2 same_incident (incidents d) is1"
    "incidents d1 = is1 @ new1" "length new1 = m"
    "\<forall>i \<in> set new1. next_uuid d \<le> inc_id i \<and> inc_status i = New \<and> inc_lock_version i = 1"
    "history d1 = history d @ bs1" "map hs_incident_id bs1 = map inc_id new1"
    "outbox d1 = outbox d @ ms1" "ob_incident_id ` set ms1 \<subseteq> inc_id ` set new1"
    "incident_events d1 = incident_events d @ ls1" unfolding detected_def by blast
  from assms(2) obtain is2 new2 bs2 ms2 ls2 where 2: "list_all2 same_incident (incidents d1) is2"
    "incidents d2 = is2 @ new2" "length new2 = n"
    "\<forall>i \<in> set new2. next_uuid d1 \<le> inc_id i \<and> inc_status i = New \<and> inc_lock_version i = 1"
    "history d2 = history d1 @ bs2" "map hs_incident_id bs2 = map inc_id new2"
    "outbox d2 = outbox d1 @ ms2" "ob_incident_id ` set ms2 \<subseteq> inc_id ` set new2"
    "incident_events d2 = incident_events d1 @ ls2" unfolding detected_def by blast
  from 2(1) 1(2) obtain js new1' where 3: "is2 = js @ new1'" "list_all2 same_incident is1 js"
    "list_all2 same_incident new1 new1'" by (auto simp: list_all2_append1)
  have le: "next_uuid d \<le> next_uuid d1" "next_uuid d1 \<le> next_uuid d2"
    using assms by (simp_all add: detected_def)
  have "list_all2 same_incident (incidents d) js"
    using list_all2_trans [OF same_incident_trans 1(1) 3(2)] .
  moreover have ids: "map inc_id new1' = map inc_id new1"
    using 3(3) by (induction rule: list_all2_induct) (auto dest: same_incident_ids)
  moreover have "\<forall>i \<in> set new1'. next_uuid d \<le> inc_id i \<and> inc_status i = New \<and> inc_lock_version i = 1"
  proof
    fix i assume "i \<in> set new1'"
    then obtain j where "j \<in> set new1" "same_incident j i"
      using 3(3) by (metis in_set_conv_nth list_all2_conv_all_nth)
    with 1(4) same_incident_ids [of j i]
    show "next_uuid d \<le> inc_id i \<and> inc_status i = New \<and> inc_lock_version i = 1" by simp
  qed
  moreover have "length new1' = m" using 3(3) 1(3) list_all2_lengthD by fastforce
  moreover have "\<forall>i \<in> set new2. next_uuid d \<le> inc_id i \<and> inc_status i = New \<and> inc_lock_version i = 1"
    using 2(4) le(1) by auto
  ultimately have "list_all2 same_incident (incidents d) js" "incidents d2 = js @ new1' @ new2"
    "length (new1' @ new2) = m + n"
    "\<forall>i \<in> set (new1' @ new2). next_uuid d \<le> inc_id i \<and> inc_status i = New \<and> inc_lock_version i = 1"
    using 2(2,3) 3(1) by auto
  moreover have "history d2 = history d @ bs1 @ bs2" "map hs_incident_id (bs1 @ bs2) = map inc_id (new1' @ new2)"
    using 1(5,6) 2(5,6) ids by simp_all
  moreover have "set (map inc_id new1') = set (map inc_id new1)" by (simp only: ids)
  then have "outbox d2 = outbox d @ ms1 @ ms2" "ob_incident_id ` set (ms1 @ ms2) \<subseteq> inc_id ` set (new1' @ new2)"
    using 1(7,8) 2(7,8) unfolding set_append image_Un by auto
  ultimately have "\<exists>is new. list_all2 same_incident (incidents d) is \<and> incidents d2 = is @ new \<and> length new = m + n
          \<and> (\<forall>i \<in> set new. next_uuid d \<le> inc_id i \<and> inc_status i = New \<and> inc_lock_version i = 1)
          \<and> (\<exists>bs. history d2 = history d @ bs \<and> map hs_incident_id bs = map inc_id new)
          \<and> (\<exists>ms. outbox d2 = outbox d @ ms \<and> ob_incident_id ` set ms \<subseteq> inc_id ` set new)" by blast
  moreover have "incident_events d2 = incident_events d @ ls1 @ ls2" using 1(9) 2(9) by simp
  then have "\<exists>ls. incident_events d2 = incident_events d @ ls" by blast
  ultimately show ?thesis using assms le unfolding detected_def by simp
qed

lemma incident_check_refreshed: "incident_check i \<Longrightarrow> 0 < n \<Longrightarrow> incident_check (refresh_row now m n i)"
  by (simp add: incident_check_def)

lemma detection_inv_matched:
  assumes uniq: "distinct (map ev_id (events d))" "incidents_unique B" "links_unique (incident_events d @ ls)"
    and i: "i \<in> set B" "incident_check i" "inc_server_id i = ev_server_id trigger"
    and old: "incident_evidence_ok d i \<or> (evidence_of d (inc_id i) = []
      \<and> inc_first_seen_at i = Min (set (evidence_times m)) \<and> inc_last_seen_at i = Max (set (evidence_times m)))"
    and rest: "\<forall>j \<in> set B. inc_id j < next_uuid d' \<and> (j \<noteq> i \<longrightarrow> incident_check j \<and> incident_evidence_ok d j)"
    and links: "\<forall>l \<in> set (incident_events d). lk_incident_id l \<in> inc_id ` set B \<and> lk_event_id l \<in> ev_id ` set (events d)"
      "\<forall>l \<in> set ls. lk_incident_id l = inc_id i \<and> lk_event_id l \<in> ev_id ` set (events d)"
      "link_ids (incident_events d @ ls) = link_ids (incident_events d) \<union> (\<lambda>e. (inc_id i, ev_id e)) ` set (mt_evidence m)"
    and m: "stored_match d trigger m"
    and d': "d' = matched_db d (update_where (\<lambda>j. inc_id j = inc_id i)
       (\<lambda>_. refresh_row now m (evidence_count (with_links d ls) (inc_id i)) i) B) hs ls ms u"
  shows "detection_inv d'"
proof -
  have count: "evidence_count (with_links d ls) (inc_id i) = evidence_count d' (inc_id i)"
    by (simp add: evidence_count_def d')
  let ?i = "refresh_row now m (evidence_count d' (inc_id i)) i"
  let ?B = "update_where (\<lambda>j. inc_id j = inc_id i) (\<lambda>_. ?i) B"
  have "incidents d' = update_where (\<lambda>j. inc_id j = inc_id i)
      (\<lambda>_. refresh_row now m (evidence_count (with_links d ls) (inc_id i)) i) B" by (simp add: d')
  then have B: "incidents d' = ?B" unfolding count .
  have ev: "events d' = events d" "incident_events d' = incident_events d @ ls" by (simp_all add: d')
  have lk: "\<forall>l \<in> set (incident_events d'). lk_event_id l \<in> ev_id ` set (events d')"
    using links(1,2) by (auto simp: ev)
  have link_ids: "link_ids (incident_events d') = link_ids (incident_events d) \<union> (\<lambda>e. (inc_id i, ev_id e)) ` set (mt_evidence m)"
    using links(3) by (simp add: ev)
  note new = evidence_refreshed [OF uniq(1) ev(1) _ lk link_ids m i(3) old]
  have "map inc_id ?B = map inc_id B" by (rule map_update_where) simp
  then have ids: "inc_id ` set ?B = inc_id ` set B" by (metis set_map)
  have dist: "distinct (map inc_id B)" using uniq(2) by (simp add: incidents_unique_def)
  have "incident_check j \<and> inc_id j < next_uuid d' \<and> incident_evidence_ok d' j" if j: "j \<in> set ?B" for j
  proof (cases "j = ?i")
    case True
    then show ?thesis using new uniq(3) i rest incident_check_refreshed [OF i(2)] by (simp add: ev)
  next
    case False
    with j have j: "j \<in> set B" "inc_id j \<noteq> inc_id i" by (auto simp: set_update_where split: if_splits)
    then have "j \<noteq> i" by auto
    moreover have "evidence_of d' (inc_id j) = evidence_of d (inc_id j)"
      using evidence_other [OF ev(1) j(2) link_ids] .
    ultimately show ?thesis using rest j(1) by (simp add: incident_evidence_ok_def)
  qed
  moreover have "incidents_unique ?B" by (rule incidents_unique_replaced [OF uniq(2) i(1)]) simp_all
  moreover have "\<forall>l \<in> set (incident_events d @ ls). lk_incident_id l \<in> inc_id ` set ?B
      \<and> lk_event_id l \<in> ev_id ` set (events d)"
    using links(1,2) i(1) unfolding ids by auto
  ultimately show ?thesis using uniq(1,3) by (simp add: detection_inv_def B ev)
qed

lemma same_incident_refresh:
  assumes "is_open i" "incident_evidence_ok d i" "inc_event_count i \<le> n"
  shows "same_incident i (refresh_row now m n i)"
  using assms by (simp add: same_incident_def refresh_row_def)

lemma evidence_count_mono: "evidence_count d k \<le> evidence_count (with_links d ls) k"
  by (simp add: evidence_count_def)

lemma list_all2_update_where:
  "(\<And>r. r \<in> set rows \<Longrightarrow> P r \<Longrightarrow> R r (f r)) \<Longrightarrow> (\<And>r. R r r) \<Longrightarrow> list_all2 R rows (update_where P f rows)"
  by (induction rows) auto

lemma persist_match_inv:
  assumes p: "persist_match env d now k stored r trigger m h = Inr (d', created, linked)"
    and inv: "detection_inv d" and m: "stored_match d trigger m"
  shows "detection_inv d'" "history_inv d \<Longrightarrow> history_inv d'" "outbox_inv d \<Longrightarrow> outbox_inv d'"
    "detected d d' (of_bool created)"
proof -
  have uniq: "distinct (map ev_id (events d))" "incidents_unique (incidents d)" "links_unique (incident_events d)"
    and links: "\<forall>l \<in> set (incident_events d). lk_incident_id l \<in> inc_id ` set (incidents d)
      \<and> lk_event_id l \<in> ev_id ` set (events d)"
    and rows: "\<forall>i \<in> set (incidents d). incident_check i \<and> inc_id i < next_uuid d \<and> incident_evidence_ok d i"
    using inv by (simp_all add: detection_inv_def)
  have dist: "distinct (map inc_id (incidents d))" using uniq(2) by (simp add: incidents_unique_def)
  from p have "detection_inv d' \<and> (history_inv d \<longrightarrow> history_inv d') \<and> (outbox_inv d \<longrightarrow> outbox_inv d')
    \<and> detected d d' (of_bool created)"
  proof (cases rule: persist_match_cases)
    case (existing i ls)
    let ?n = "evidence_count (with_links d ls) (inc_id i)"
    let ?i = "refresh_row now m ?n i"
    have i: "incident_check i" "incident_evidence_ok d i" "is_open i" "inc_server_id i = ev_server_id trigger"
      using existing(2,3) rows by (auto simp: bucket_def)
    have di: "detection_inv d'"
      by (rule detection_inv_matched [OF uniq(1,2) _ existing(2) i(1,4) disjI1 [OF i(2)] _ links existing(5,6) m existing(8)])
        (use existing(7,8) uniq(3) rows in simp_all)
    have "history_inv d'" if "history_inv d"
      using that existing(2) by (rule history_inv_replaced) (simp_all add: existing(8))
    moreover have "outbox_inv d'" if "outbox_inv d"
      using that by (rule outbox_inv_cong) (simp_all add: existing(8))
    moreover have "detected d d' 0"
    proof -
      have "inc_event_count i \<le> ?n"
        using i(2) evidence_count_eq [OF uniq(1,3)] links evidence_count_mono [of d "inc_id i" ls]
        by (simp add: incident_evidence_ok_def Let_def)
      then have "same_incident i ?i" using i by (intro same_incident_refresh)
      then have "list_all2 same_incident (incidents d) (incidents d')"
        unfolding existing(8) matched_db_simps
        by (intro list_all2_update_where) (auto dest: replaced_row [OF dist existing(2)])
      then show ?thesis by (auto simp: detected_def existing(8))
    qed
    ultimately show ?thesis using di existing(1) by simp
  next
    case (created i b ls ms)
    let ?B = "incidents d @ [i]"
    let ?n = "evidence_count (with_links d ls) (inc_id i)"
    let ?i = "refresh_row now m ?n i"
    have i: "inc_id i = next_uuid d" "inc_status i = New" "inc_lock_version i = 1" "inc_server_id i = ev_server_id trigger"
      "inc_first_seen_at i = Min (set (evidence_times m))" "inc_last_seen_at i = Max (set (evidence_times m))"
      by (simp_all add: created(2) new_incident_def)
    have fresh: "inc_id i \<notin> inc_id ` set (incidents d)" using rows i(1) by auto
    have B: "incidents_unique ?B"
      using uniq(2) fresh created(7) by (auto simp: incidents_unique_def)
    have none: "evidence_of d (inc_id i) = []"
      using links fresh by (force simp: evidence_of_def filter_empty_conv link_ids_def)
    have lt: "\<forall>j \<in> set ?B. inc_id j < next_uuid d' \<and> (j \<noteq> i \<longrightarrow> incident_check j \<and> incident_evidence_ok d j)"
      using rows i(1) by (auto simp: created(15))
    have lk: "\<forall>l \<in> set (incident_events d). lk_incident_id l \<in> inc_id ` set ?B \<and> lk_event_id l \<in> ev_id ` set (events d)"
      using links by auto
    have di: "detection_inv d'"
      by (rule detection_inv_matched [OF uniq(1) B created(12) [OF uniq(3)] _ created(5) i(4) _ lt lk created(10,11) m created(15)])
        (use none i in simp_all)
    have "history_inv d'" if "history_inv d"
    proof -
      let ?d = "matched_db d ?B (history d @ [b]) ls ms (2 + length ms)"
      have "history_inv ?d"
        using that fresh i(2,3) created(3,4) by (rule history_inv_baseline) simp_all
      then show ?thesis
        by (rule history_inv_replaced [of _ i ?i]) (simp_all add: created(15))
    qed
    moreover have "detected d d' 1"
    proof -
      have eq: "update_where (\<lambda>j. inc_id j = inc_id i) (\<lambda>_. ?i) ?B = incidents d @ [?i]"
      proof -
        have "inc_id j \<noteq> inc_id i" if "j \<in> set (incidents d)" for j using that fresh by (metis image_eqI)
        then have "update_where (\<lambda>j. inc_id j = inc_id i) (\<lambda>_. ?i) (incidents d) = incidents d"
          by (rule update_where_none)
        then show ?thesis by (simp add: update_where_append)
      qed
      have "list_all2 same_incident (incidents d) (incidents d)" by (simp add: list_all2_refl)
      then have "\<exists>is new. list_all2 same_incident (incidents d) is \<and> incidents d' = is @ new \<and> length new = 1
          \<and> (\<forall>i \<in> set new. next_uuid d \<le> inc_id i \<and> inc_status i = New \<and> inc_lock_version i = 1)
          \<and> (\<exists>bs. history d' = history d @ bs \<and> map hs_incident_id bs = map inc_id new)
          \<and> (\<exists>ms. outbox d' = outbox d @ ms \<and> ob_incident_id ` set ms \<subseteq> inc_id ` set new)"
        using i created(13) unfolding created(15) matched_db_simps eq
        by (intro exI [of _ "incidents d"] exI [of _ "[?i]"]) (auto simp: created(3) baseline_history_def)
      then show ?thesis unfolding detected_def created(15) matched_db_simps by simp
    qed
    ultimately show ?thesis using di created(1,14) by simp
  qed
  then show "detection_inv d'" "history_inv d \<Longrightarrow> history_inv d'" "outbox_inv d \<Longrightarrow> outbox_inv d'"
    "detected d d' (of_bool created)" by simp_all
qed

section \<open>The effect of the matches\<close>

text \<open>
  A hit of a run is a new event against an active rule that matches: the trigger, the stored version, the rule, the
  match and the hash of its correlation. Whether there is one depends on the events and not on what the run writes.
\<close>

type_synonym hit = "event_row \<times> rule_version_row \<times> rule \<times> detection_match \<times> string"

definition hit_of :: "detection_env \<Rightarrow> db \<Rightarrow> event_row \<times> rule_version_row \<times> rule \<Rightarrow> hit option" where
  "hit_of env d = (\<lambda>(trigger, stored, r).
     if \<not> can_trigger r trigger then None
     else case correlation_of trigger (ru_correlation_fields r) of None \<Rightarrow> None
     | Some correlation \<Rightarrow> map_option (\<lambda>m. (trigger, stored, r, m, correlation_hash (dt_sha256_hex env) correlation))
         (evaluate_rule r trigger (load_history d r trigger)))"

definition detection_hits :: "detection_env \<Rightarrow> db \<Rightarrow> event_row list \<Rightarrow> hit list" where
  "detection_hits env d new_events = (case parse_rules (dt_rules env) (stored_rules d) of None \<Rightarrow> []
   | Some rules \<Rightarrow> List.map_filter (hit_of env d) (concat (map (\<lambda>t. map (Pair t) rules) (sort_key event_order new_events))))"

definition hit_bucket :: "hit \<Rightarrow> incident_row \<Rightarrow> bool" where
  "hit_bucket = (\<lambda>(trigger, stored, r, m, h). bucket (ev_server_id trigger) (rv_id stored) (ru_rule_key r) h)"

definition hit_evidence :: "hit \<Rightarrow> uuid set" where
  "hit_evidence = (\<lambda>(trigger, stored, r, m, h). ev_id ` set (mt_evidence m))"

text \<open>What an incident says comes from the rule and the match that opened it.\<close>

definition describes :: "detection_env \<Rightarrow> hit \<Rightarrow> incident_row \<Rightarrow> bool" where
  "describes env = (\<lambda>(trigger, stored, r, m, h) i. inc_rule_version i = ru_version r \<and> inc_severity i = ru_severity r
     \<and> inc_title i = ru_title r \<and> inc_explanation i = ru_explanation r \<and> inc_recommendation i = ru_recommendation r
     \<and> inc_title_en i = ru_title_en r \<and> inc_explanation_en i = ru_explanation_en r
     \<and> inc_recommendation_en i = ru_recommendation_en r \<and> inc_correlation i = mt_correlation m
     \<and> inc_rule_snapshot i = canonical_rule (dt_rules env) r)"

text \<open>
  Every hit is recorded: its bucket has an open incident that all of its evidence is linked to. Nothing else is: every
  new link is evidence of a hit, in the incident of its bucket, and every new incident was opened by a hit. A new
  incident has one message for each destination that is eligible for its severity.
\<close>

definition recorded :: "detection_env \<Rightarrow> db \<Rightarrow> db \<Rightarrow> hit set \<Rightarrow> bool" where
  "recorded env d d' hits \<longleftrightarrow>
     (\<forall>x \<in> hits. \<exists>i \<in> set (incidents d'). hit_bucket x i \<and> (\<forall>e \<in> hit_evidence x. (inc_id i, e) \<in> link_ids (incident_events d')))
     \<and> (\<forall>l \<in> link_ids (incident_events d') - link_ids (incident_events d).
          \<exists>x \<in> hits. \<exists>i \<in> set (incidents d'). hit_bucket x i \<and> inc_id i = fst l \<and> snd l \<in> hit_evidence x)
     \<and> (\<forall>i \<in> set (incidents d'). next_uuid d \<le> inc_id i \<longrightarrow> (\<exists>x \<in> hits. hit_bucket x i \<and> describes env x i))
     \<and> (\<exists>ms. outbox d' = outbox d @ ms \<and> (\<forall>i \<in> set (incidents d'). next_uuid d \<le> inc_id i \<longrightarrow>
          map ob_destination_id (filter (\<lambda>o1. ob_incident_id o1 = inc_id i) ms) = map de_id (eligible_destinations d i)))"

lemma hit_of_cong: "events d' = events d \<Longrightarrow> hit_of env d' = hit_of env d"
proof -
  assume "events d' = events d"
  then have "load_history d' r t = load_history d r t" for r t by (cases "ru_condition r") (simp_all add: load_history_def)
  then have "load_history d' = load_history d" by (intro ext)
  then show ?thesis unfolding hit_of_def by (simp only:)
qed

lemma detect_one_hit:
  "detect_one env now k x (d, res) = (case hit_of env d x of None \<Rightarrow> Inr (d, res)
   | Some (t, s, r, m, h) \<Rightarrow> bind_r (persist_match env d now k s r t m h) (\<lambda>(d', created, linked).
       Inr (d', \<lparr>dr_matched_rules = dr_matched_rules res + 1, dr_created_incidents = dr_created_incidents res + of_bool created,
         dr_linked_evidence = dr_linked_evidence res + linked\<rparr>)))"
  by (cases x) (simp add: detect_one_def hit_of_def split: option.split)

lemma same_incident_fields: "same_incident i j \<Longrightarrow> hit_bucket x j = hit_bucket x i \<and> describes env x j = describes env x i
    \<and> eligible_destinations d j = eligible_destinations d i"
  by (cases i; cases j; cases x)
    (auto simp: same_incident_def hit_bucket_def bucket_def is_open_def describes_def eligible_destinations_def)

lemma recorded_none: "detection_inv d \<Longrightarrow> recorded env d d {}"
  by (force simp: recorded_def detection_inv_def)

lemma detected_rows:
  assumes "detected d d' n"
  shows "i \<in> set (incidents d) \<Longrightarrow> \<exists>j \<in> set (incidents d'). same_incident i j"
    "j \<in> set (incidents d') \<Longrightarrow> (\<exists>i \<in> set (incidents d). same_incident i j) \<or> next_uuid d \<le> inc_id j"
proof -
  from assms obtain js new where rows: "list_all2 same_incident (incidents d) js" "incidents d' = js @ new"
    "\<forall>i \<in> set new. next_uuid d \<le> inc_id i" unfolding detected_def by blast
  show "\<exists>j \<in> set (incidents d'). same_incident i j" if "i \<in> set (incidents d)"
    using that rows(1,2) by (metis UnCI in_set_conv_nth list_all2_conv_all_nth set_append)
  show "(\<exists>i \<in> set (incidents d). same_incident i j) \<or> next_uuid d \<le> inc_id j" if "j \<in> set (incidents d')"
    using that rows by (metis Un_iff in_set_conv_nth list_all2_conv_all_nth set_append)
qed

lemma persist_match_recorded:
  assumes p: "persist_match env d now k s r t m h = Inr (d', created, linked)" and inv: "detection_inv d" and m: "stored_match d t m"
  shows "recorded env d d' {(t, s, r, m, h)}" "length (incident_events d') = length (incident_events d) + linked"
proof -
  have rows: "\<forall>i \<in> set (incidents d). inc_id i < next_uuid d" and dist: "distinct (map inc_id (incidents d))"
    using inv by (simp_all add: detection_inv_def incidents_unique_def)
  from p have "recorded env d d' {(t, s, r, m, h)} \<and> length (incident_events d') = length (incident_events d) + linked"
  proof (cases rule: persist_match_cases)
    case (existing i ls)
    let ?i = "refresh_row now m (evidence_count (with_links d ls) (inc_id i)) i"
    have here: "?i \<in> set (incidents d')" using existing(2) by (force simp: existing(8) set_update_where)
    have b: "bucket (ev_server_id t) (rv_id s) (ru_rule_key r) h ?i" using existing(3) by (simp add: bucket_def is_open_def)
    have ids: "inc_id j < next_uuid d" if "j \<in> set (incidents d')" for j
      using that existing(2) rows by (auto simp: existing(8) set_update_where split: if_splits)
    show ?thesis unfolding recorded_def
      using here b existing(4,6) ids by (fastforce simp: existing(8) hit_bucket_def hit_evidence_def not_le)
  next
    case (created i b ls ms)
    let ?i = "refresh_row now m (evidence_count (with_links d ls) (inc_id i)) i"
    have i: "inc_id i = next_uuid d" by (simp add: created(2) new_incident_def)
    then have inc: "incidents d' = incidents d @ [?i]"
      using rows by (auto simp: created(15) update_where_append intro!: update_where_none)
    have b: "bucket (ev_server_id t) (rv_id s) (ru_rule_key r) h ?i" "describes env (t, s, r, m, h) ?i"
      by (simp_all add: bucket_def is_open_def created(2) new_incident_def describes_def refresh_row_def)
    have old: "\<not> next_uuid d \<le> inc_id j" if "j \<in> set (incidents d)" for j using rows that by auto
    have "eligible_destinations d ?i = eligible_destinations d i" by (simp add: eligible_destinations_def refresh_row_def)
    moreover have "filter (\<lambda>o1. ob_incident_id o1 = inc_id i) ms = ms" using created(13) by simp
    ultimately have msgs: "map ob_destination_id (filter (\<lambda>o1. ob_incident_id o1 = inc_id ?i) ms) = map de_id (eligible_destinations d ?i)"
      using created(16) by simp
    show ?thesis unfolding recorded_def
      using b old msgs created(9,11) by (fastforce simp: created(15) inc [unfolded created(15) matched_db_simps] hit_bucket_def hit_evidence_def)
  qed
  then show "recorded env d d' {(t, s, r, m, h)}" "length (incident_events d') = length (incident_events d) + linked" by simp_all
qed

lemma recorded_trans:
  assumes "recorded env d d1 H1" "detected d d1 n1" "detection_inv d1" "recorded env d1 d2 H2" "detected d1 d2 n2"
  shows "recorded env d d2 (H1 \<union> H2)"
proof -
  have links: "link_ids (incident_events d1) \<subseteq> link_ids (incident_events d2)"
    using assms(5) by (auto simp: detected_def)
  have le: "next_uuid d \<le> next_uuid d1" using assms(2) by (simp add: detected_def)
  have rows: "inc_id i < next_uuid d1" if "i \<in> set (incidents d1)" for i using assms(3) that by (simp add: detection_inv_def)
  note fwd = detected_rows(1) [OF assms(5)] and back_rows = detected_rows(2) [OF assms(5)]
  have hits: "\<exists>i \<in> set (incidents d2). hit_bucket x i \<and> (\<forall>e \<in> hit_evidence x. (inc_id i, e) \<in> link_ids (incident_events d2))"
    if x: "x \<in> H1 \<union> H2" for x
  proof (cases "x \<in> H2")
    case False
    with x assms(1) obtain i where i: "i \<in> set (incidents d1)" "hit_bucket x i"
      "\<forall>e \<in> hit_evidence x. (inc_id i, e) \<in> link_ids (incident_events d1)" unfolding recorded_def by blast
    from fwd [OF i(1)] obtain j where j: "j \<in> set (incidents d2)" "same_incident i j" by blast
    have "hit_bucket x j" "inc_id j = inc_id i" using i(2) same_incident_fields [OF j(2)] same_incident_ids [OF j(2)] by simp_all
    then show ?thesis using i(3) links by (intro bexI [OF _ j(1)]) auto
  qed (use assms(4) in \<open>auto simp: recorded_def\<close>)
  have new_links: "\<exists>x \<in> H1 \<union> H2. \<exists>i \<in> set (incidents d2). hit_bucket x i \<and> inc_id i = fst l \<and> snd l \<in> hit_evidence x"
    if l: "l \<in> link_ids (incident_events d2)" "l \<notin> link_ids (incident_events d)" for l
  proof (cases "l \<in> link_ids (incident_events d1)")
    case True
    with l assms(1) obtain x i where i: "x \<in> H1" "i \<in> set (incidents d1)" "hit_bucket x i" "inc_id i = fst l" "snd l \<in> hit_evidence x"
      unfolding recorded_def by blast
    from fwd [OF i(2)] obtain j where "j \<in> set (incidents d2)" "same_incident i j" by blast
    then have "hit_bucket x j" "inc_id j = fst l"
      using i(3,4) same_incident_fields [of i j x] same_incident_ids [of i j] by simp_all
    then show ?thesis using i(1,5) \<open>j \<in> _\<close> by blast
  next
    case False
    then show ?thesis using l assms(4) unfolding recorded_def by blast
  qed
  have opened: "\<exists>x \<in> H1 \<union> H2. hit_bucket x j \<and> describes env x j" if j: "j \<in> set (incidents d2)" "next_uuid d \<le> inc_id j" for j
  proof -
    from back_rows [OF j(1)] show ?thesis
    proof
      assume "\<exists>i \<in> set (incidents d1). same_incident i j"
      then obtain i where i: "i \<in> set (incidents d1)" "same_incident i j" by blast
      then have "next_uuid d \<le> inc_id i" using j(2) same_incident_ids by metis
      then obtain x where "x \<in> H1" "hit_bucket x i" "describes env x i" using assms(1) i(1) unfolding recorded_def by blast
      then show ?thesis using same_incident_fields [OF i(2)] by blast
    qed (use assms(4) j(1) in \<open>auto simp: recorded_def\<close>)
  qed
  obtain ms1 where ms1_eq: "outbox d1 = outbox d @ ms1"
    and m1: "\<forall>i \<in> set (incidents d1). next_uuid d \<le> inc_id i \<longrightarrow>
      map ob_destination_id (filter (\<lambda>o1. ob_incident_id o1 = inc_id i) ms1) = map de_id (eligible_destinations d i)"
    using assms(1) unfolding recorded_def by (elim conjE exE) (rule that)
  obtain ms2 where ms2_eq: "outbox d2 = outbox d1 @ ms2"
    and m2: "\<forall>i \<in> set (incidents d2). next_uuid d1 \<le> inc_id i \<longrightarrow>
      map ob_destination_id (filter (\<lambda>o1. ob_incident_id o1 = inc_id i) ms2) = map de_id (eligible_destinations d1 i)"
    using assms(4) unfolding recorded_def by (elim conjE exE) (rule that)
  have ms: "outbox d1 = outbox d @ ms1" "outbox d2 = outbox d1 @ ms2" by fact+
  have ms1: "ob_incident_id o1 < next_uuid d1" if "o1 \<in> set ms1" for o1
    using assms(2) that ms(1) rows unfolding detected_def by fastforce
  have ms2: "next_uuid d1 \<le> ob_incident_id o1" if "o1 \<in> set ms2" for o1
    using assms(5) that ms(2) unfolding detected_def by fastforce
  have same_dest: "eligible_destinations d1 i = eligible_destinations d i" for i
    using assms(2) by (simp add: detected_def eligible_destinations_def)
  have messages: "map ob_destination_id (filter (\<lambda>o1. ob_incident_id o1 = inc_id j) (ms1 @ ms2)) = map de_id (eligible_destinations d j)"
    if j: "j \<in> set (incidents d2)" "next_uuid d \<le> inc_id j" for j
  proof (cases "next_uuid d1 \<le> inc_id j")
    case True
    then have "filter (\<lambda>o1. ob_incident_id o1 = inc_id j) ms1 = []" using ms1 by (fastforce simp: filter_empty_conv)
    then show ?thesis using m2 j(1) True same_dest by simp
  next
    case False
    then obtain i where i: "i \<in> set (incidents d1)" "same_incident i j" using back_rows [OF j(1)] by blast
    have "filter (\<lambda>o1. ob_incident_id o1 = inc_id j) ms2 = []" using ms2 False by (fastforce simp: filter_empty_conv)
    then show ?thesis using m1 i(1) j(2) same_incident_ids [OF i(2)] same_incident_fields [OF i(2)] by simp
  qed
  show ?thesis unfolding recorded_def using hits new_links opened messages ms by auto
qed

section \<open>The whole run\<close>

lemma rule_needs_events:
  "rule_ok r \<Longrightarrow> 0 < required_events (ru_condition r)"
proof -
  assume ok: "rule_ok r"
  show ?thesis
  proof (cases "ru_condition r")
    case (Sequence w steps)
    from sequence_rule_steps [OF ok this] obtain s where "s \<in> set steps" "0 < ss_repeat_at_least s"
      by (cases steps) auto
    moreover from this have "ss_repeat_at_least s \<le> Max (ss_repeat_at_least ` set steps)" by simp
    ultimately show ?thesis unfolding Sequence required_events.simps set_map by linarith
  qed (use ok in \<open>auto simp: rule_ok_def\<close>)
qed

lemma load_history_props:
  assumes "distinct (map ev_id (events d))" "trigger \<in> set (events d)" "can_trigger r trigger" "rule_ok r"
  shows "distinct (map ev_id (load_history d r trigger))" "trigger \<in> set (load_history d r trigger)"
    "set (load_history d r trigger) \<subseteq> set (events d)"
proof -
  have "ev_event_type trigger = event_type_value (ec_event_type (trigger_condition (ru_condition r)))"
    using assms(3) by (simp add: can_trigger_def matches_event_def)
  moreover have "trigger_condition (ru_condition r) \<in> set (rule_conditions (ru_condition r))"
    using sequence_rule_steps [OF assms(4)] by (cases "ru_condition r") auto
  ultimately show "trigger \<in> set (load_history d r trigger)"
    using assms(2) by (auto simp: load_history_def in_window_def split: condition.split)
  show "distinct (map ev_id (load_history d r trigger))"
    using assms(1) by (simp add: load_history_def distinct_map_sort distinct_map_filter split: condition.split)
  show "set (load_history d r trigger) \<subseteq> set (events d)"
    using assms(2) by (auto simp: load_history_def split: condition.split)
qed

lemma evaluated_match_stored:
  assumes "distinct (map ev_id (events d))" "trigger \<in> set (events d)" "rule_ok r" "can_trigger r trigger"
    "evaluate_rule r trigger (load_history d r trigger) = Some m"
  shows "stored_match d trigger m"
proof -
  note h = load_history_props [OF assms(1,2,4,3)]
  note ev = evaluate_rule_sound(1) [OF assms(3) h(1,2) assms(5)]
  then have "mt_evidence m \<noteq> []" using rule_needs_events [OF assms(3)] by (auto simp: sound_evidence_def)
  with ev h(3) show ?thesis by (auto simp: stored_match_def sound_evidence_def evidence_relevant_def)
qed

definition detection_step_ok :: "db \<Rightarrow> event_row \<times> rule_version_row \<times> rule \<Rightarrow> bool" where
  "detection_step_ok d = (\<lambda>(trigger, stored, r). trigger \<in> set (events d) \<and> rule_ok r)"

text \<open>The counters of a result after the hits of a part of the run.\<close>

definition counted :: "db \<Rightarrow> detection_result \<Rightarrow> hit list \<Rightarrow> db \<Rightarrow> detection_result \<Rightarrow> bool" where
  "counted d res hits d' res' \<longleftrightarrow> dr_matched_rules res' = dr_matched_rules res + length hits
     \<and> length (incident_events d') + dr_linked_evidence res = length (incident_events d) + dr_linked_evidence res'"

lemma detect_one_inv:
  assumes "detect_one env now k x (d, res) = Inr (d', res')" "detection_inv d" "detection_step_ok d x"
  shows "detection_inv d'" "history_inv d \<Longrightarrow> history_inv d'" "outbox_inv d \<Longrightarrow> outbox_inv d'"
    "\<exists>n. detected d d' n \<and> dr_created_incidents res' = dr_created_incidents res + n"
    "recorded env d d' (set_option (hit_of env d x))" "counted d res (List.map_filter (hit_of env d) [x]) d' res'"
proof -
  obtain trigger stored r where x: "x = (trigger, stored, r)" by (cases x) auto
  have ev: "trigger \<in> set (events d)" "rule_ok r" using assms(3) by (simp_all add: detection_step_ok_def x)
  have dist: "distinct (map ev_id (events d))" using assms(2) by (simp add: detection_inv_def)
  have "detection_inv d' \<and> (history_inv d \<longrightarrow> history_inv d') \<and> (outbox_inv d \<longrightarrow> outbox_inv d')
    \<and> (\<exists>n. detected d d' n \<and> dr_created_incidents res' = dr_created_incidents res + n)
    \<and> recorded env d d' (set_option (hit_of env d x)) \<and> counted d res (List.map_filter (hit_of env d) [x]) d' res'"
  proof (cases "hit_of env d x")
    case None
    then have "d' = d" "res' = res" using assms(1) by (simp_all add: detect_one_hit)
    then show ?thesis using assms(2) None
      by (auto simp: recorded_none counted_def map_filter_simps intro: exI [of _ 0])
  next
    case (Some y)
    obtain m h where y: "y = (trigger, stored, r, m, h)" and m: "can_trigger r trigger"
      "evaluate_rule r trigger (load_history d r trigger) = Some m"
      using Some by (auto simp: hit_of_def x split: if_split_asm option.split_asm)
    from assms(1) obtain created linked where p: "persist_match env d now k stored r trigger m h = Inr (d', created, linked)"
      and res': "res' = \<lparr>dr_matched_rules = dr_matched_rules res + 1, dr_created_incidents = dr_created_incidents res + of_bool created,
         dr_linked_evidence = dr_linked_evidence res + linked\<rparr>"
      by (auto simp: detect_one_hit Some y bind_r_eq_Inr)
    note stored = evaluated_match_stored [OF dist ev m]
    have "counted d res (List.map_filter (hit_of env d) [x]) d' res'"
      using persist_match_recorded(2) [OF p assms(2) stored] by (simp add: counted_def map_filter_simps Some res')
    then show ?thesis
      using persist_match_inv [OF p assms(2) stored] persist_match_recorded(1) [OF p assms(2) stored] by (auto simp: Some y res')
  qed
  then show "detection_inv d'" "history_inv d \<Longrightarrow> history_inv d'" "outbox_inv d \<Longrightarrow> outbox_inv d'"
    "\<exists>n. detected d d' n \<and> dr_created_incidents res' = dr_created_incidents res + n"
    "recorded env d d' (set_option (hit_of env d x))" "counted d res (List.map_filter (hit_of env d) [x]) d' res'" by simp_all
qed

lemma detect_all_inv:
  assumes "detect_all env now k xs (d, res) = Inr (d', res')" "detection_inv d" "\<forall>x \<in> set xs. detection_step_ok d x"
  shows "detection_inv d' \<and> (history_inv d \<longrightarrow> history_inv d') \<and> (outbox_inv d \<longrightarrow> outbox_inv d')
    \<and> (\<exists>n. detected d d' n \<and> dr_created_incidents res' = dr_created_incidents res + n)
    \<and> recorded env d d' (set (List.map_filter (hit_of env d) xs)) \<and> counted d res (List.map_filter (hit_of env d) xs) d' res'"
  using assms
proof (induction xs arbitrary: d res)
  case Nil
  then show ?case by (auto simp: recorded_none counted_def map_filter_simps intro: exI [of _ 0])
next
  case (Cons x xs)
  from Cons.prems(1) obtain d1 res1 where one: "detect_one env now k x (d, res) = Inr (d1, res1)"
    and rest: "detect_all env now k xs (d1, res1) = Inr (d', res')"
    by (auto simp: bind_r_eq_Inr)
  note step = detect_one_inv [OF one Cons.prems(2)]
  have x: "detection_step_ok d x" using Cons.prems(3) by simp
  obtain n where n: "detected d d1 n" "dr_created_incidents res1 = dr_created_incidents res + n"
    using step(4) [OF x] by blast
  have ev: "events d1 = events d" using n(1) by (simp add: detected_def)
  then have "\<forall>x \<in> set xs. detection_step_ok d1 x" using Cons.prems(3) by (auto simp: detection_step_ok_def)
  from Cons.IH [OF rest step(1) [OF x] this, unfolded hit_of_cong [OF ev]] obtain n'
    where IH: "detection_inv d'" "history_inv d1 \<longrightarrow> history_inv d'"
    "outbox_inv d1 \<longrightarrow> outbox_inv d'" "detected d1 d' n'" "dr_created_incidents res' = dr_created_incidents res1 + n'"
    "recorded env d1 d' (set (List.map_filter (hit_of env d) xs))" "counted d1 res1 (List.map_filter (hit_of env d) xs) d' res'"
    by blast
  have "detected d d' (n + n')" using n(1) IH(4) by (rule detected_trans)
  moreover have "dr_created_incidents res' = dr_created_incidents res + (n + n')" using n(2) IH(5) by simp
  moreover have "recorded env d d' (set_option (hit_of env d x) \<union> set (List.map_filter (hit_of env d) xs))"
    by (rule recorded_trans [OF step(5) [OF x] n(1) step(1) [OF x] IH(6,4)])
  moreover have "set_option (hit_of env d x) \<union> set (List.map_filter (hit_of env d) xs) = set (List.map_filter (hit_of env d) (x # xs))"
    by (cases "hit_of env d x") (simp_all add: map_filter_simps)
  moreover have "counted d res (List.map_filter (hit_of env d) (x # xs)) d' res'"
    using step(6) [OF x] IH(7) by (cases "hit_of env d x") (simp_all add: counted_def map_filter_simps)
  ultimately show ?case using IH(1-3) step(2,3) [OF x] by metis
qed

lemma parse_rules_ok: "parse_rules k ss = Some rs \<Longrightarrow> \<forall>(s, r) \<in> set rs. s \<in> set ss \<and> rule_ok r"
  by (induction ss arbitrary: rs) (auto dest: rule_model_validate_ok split: option.splits)

lemma run_detection_inv:
  assumes "run_detection env d now new_events k = Inr (d', res)" "detection_inv d" "set new_events \<subseteq> set (events d)"
  shows "detection_inv d' \<and> (history_inv d \<longrightarrow> history_inv d') \<and> (outbox_inv d \<longrightarrow> outbox_inv d')
    \<and> detected d d' (dr_created_incidents res) \<and> recorded env d d' (set (detection_hits env d new_events))
    \<and> counted d no_detection (detection_hits env d new_events) d' res"
proof (cases "new_events = []")
  case True
  with assms(1) have "d' = d" "res = no_detection" by (auto simp: run_detection_def)
  moreover have "detection_hits env d [] = []" by (auto simp: detection_hits_def map_filter_simps split: option.split)
  ultimately show ?thesis using assms(2) True by (simp add: recorded_none counted_def no_detection_def)
next
  case False
  with assms(1) obtain rules where rules: "parse_rules (dt_rules env) (stored_rules d) = Some rules"
    and all: "detect_all env now k (concat (map (\<lambda>t. map (Pair t) rules) (sort_key event_order new_events)))
      (d, no_detection) = Inr (d', res)"
    by (auto simp: run_detection_def split: option.splits)
  have "\<forall>x \<in> set (concat (map (\<lambda>t. map (Pair t) rules) (sort_key event_order new_events))). detection_step_ok d x"
    using parse_rules_ok [OF rules] assms(3) by (auto simp: detection_step_ok_def)
  from detect_all_inv [OF all assms(2) this] show ?thesis by (auto simp: no_detection_def detection_hits_def rules)
qed

section \<open>Properties\<close>

definition sample_sha :: "string \<Rightarrow> string" where
  "sample_sha s = replicate 64 (CHR ''a'')"

definition sample_env :: detection_env where
  "sample_env = \<lparr>dt_sha256_hex = sample_sha,
     dt_rules = \<lparr>rule_dump = (\<lambda>_. JNull), rule_parse = (\<lambda>_. Some sample_rule)\<rparr>,
     dt_notifications = sample_codec\<rparr>"

definition sample_rule_version :: rule_version_row where
  "sample_rule_version = \<lparr>rv_id = 3, rv_rule_key = ''ssh_success_after_failures'', rv_version = 1,
     rv_schema_version = 1, rv_enabled = True, rv_severity = High, rv_checksum = replicate 64 (CHR ''b''),
     rv_definition = JNull, rv_is_active = True, rv_activated_at = Some 0\<rparr>"

definition sample_detection_db :: db where
  "sample_detection_db = db_empty\<lparr>events := sample_history, rule_versions := [sample_rule_version],
     next_uuid := 20\<rparr>"

lemma sample_detection_inv: "detection_inv sample_detection_db" "history_inv sample_detection_db"
  "outbox_inv sample_detection_db"
  by (simp_all add: detection_inv_def history_inv_def outbox_inv_def outbox_unique_def tokens_apart_def
      history_unique_def links_unique_def incidents_unique_def sample_detection_db_def db_empty_def
      sample_history_def sample_event_def)

text \<open>C6: Detection has exactly the effect of its matches. When a run over newly stored events succeeds on a
  consistent database, take its hits: the new events against the active rules that trigger, correlate and match. Every hit is
  recorded: its server, rule version and correlation have an open incident afterwards, and all evidence of the match is
  linked to it. Nothing else happens: every new link is evidence of a hit in the incident of its bucket, every new
  incident was opened by a hit and carries its rule's texts and severity, and has one message for each eligible
  destination. The result counts the hits, the new incidents and the new links. The tables stay consistent: at most one open
  incident per server, rule version and correlation; every incident counts exactly its linked evidence, spans exactly that
  evidence in time and has evidence of its own server only; every history still replays to its row; the queue keeps its
  constraints. Existing incidents keep status, version, texts and correlation, closed ones their whole row; new
  incidents start at version 1 with their baseline entry, and all other tables are untouched.\<close>

theorem detection_keeps_incidents_consistent:
  assumes "run_detection env d now new_events k = Inr (d', res)" "set new_events \<subseteq> set (events d)"
    "detection_inv d" "history_inv d" "outbox_inv d"
  shows "detection_inv d' \<and> history_inv d' \<and> outbox_inv d' \<and> detected d d' (dr_created_incidents res)
    \<and> recorded env d d' (set (detection_hits env d new_events))
    \<and> dr_matched_rules res = length (detection_hits env d new_events)
    \<and> length (incident_events d') = length (incident_events d) + dr_linked_evidence res"
  using run_detection_inv [OF assms(1,3,2)] assms(4,5) by (simp add: counted_def no_detection_def)

lemma sample_detection_run:
  "case run_detection sample_env sample_detection_db 4000000 [sample_event 3 Ssh_Login_Succeeded 3000000] 5 of
     Inl _ \<Rightarrow> False
   | Inr (d', res) \<Rightarrow> res = \<lparr>dr_matched_rules = 1, dr_created_incidents = 1, dr_linked_evidence = 3\<rparr>"
  by code_simp

theorem detection_keeps_incidents_consistent_witness:
  "\<exists>d' res. run_detection sample_env sample_detection_db 4000000 [sample_event 3 Ssh_Login_Succeeded 3000000] 5
      = Inr (d', res) \<and> dr_created_incidents res = 1 \<and> detection_inv d' \<and> length (incidents d') = 1
      \<and> length (detection_hits sample_env sample_detection_db [sample_event 3 Ssh_Login_Succeeded 3000000]) = 1
      \<and> length (incident_events d') = 3"
proof -
  obtain d' res where run: "run_detection sample_env sample_detection_db 4000000
      [sample_event 3 Ssh_Login_Succeeded 3000000] 5 = Inr (d', res)"
    "res = \<lparr>dr_matched_rules = 1, dr_created_incidents = 1, dr_linked_evidence = 3\<rparr>"
    using sample_detection_run by (auto split: sum.splits)
  have "set [sample_event 3 Ssh_Login_Succeeded 3000000] \<subseteq> set (events sample_detection_db)"
    by (simp add: sample_detection_db_def db_empty_def sample_history_def)
  note all = detection_keeps_incidents_consistent [OF run(1) this sample_detection_inv]
  have c: "dr_created_incidents res = 1" "dr_matched_rules res = 1" "dr_linked_evidence res = 3" "incident_events sample_detection_db = []"
    by (simp_all add: run(2)) (simp add: sample_detection_db_def db_empty_def)
  have "detection_inv d'" "detected sample_detection_db d' 1" using all [unfolded c] by blast+
  moreover have "length (detection_hits sample_env sample_detection_db [sample_event 3 Ssh_Login_Succeeded 3000000]) = 1"
    using all [unfolded c] by metis
  moreover have "length (incident_events d') = 3" using all c(3,4) by simp
  moreover have "length (incidents d') = 1"
    using \<open>detected _ _ 1\<close> by (auto simp: detected_def sample_detection_db_def db_empty_def)
  ultimately show ?thesis using run by simp
qed

end
