(* ===== verification/Rule_Sync.thy ===== *)
theory Rule_Sync
  imports Rule_Evaluation
begin

text \<open>
  \<open>application/detection/sync.py\<close>: the append-only table of rule versions and the atomic activation
  of a validated rule set, with its specification: what every row becomes.
\<close>

section \<open>Definitions\<close>

text \<open>\<open>str.strip()\<close> on the fixed-width checksum column.\<close>

definition strip_blanks :: "string \<Rightarrow> string" where
  "strip_blanks s = rev (dropWhile (\<lambda>c. c = CHR '' '') (rev (dropWhile (\<lambda>c. c = CHR '' '') s)))"

definition new_rule_version ::
  "(string \<Rightarrow> string) \<Rightarrow> rule_codec \<Rightarrow> uuid \<Rightarrow> rule \<Rightarrow> rule_version_row" where
  "new_rule_version sha256_hex k rid r = \<lparr>rv_id = rid, rv_rule_key = ru_rule_key r,
     rv_version = ru_version r, rv_schema_version = 1, rv_enabled = ru_enabled r,
     rv_severity = ru_severity r, rv_checksum = rule_checksum sha256_hex k r,
     rv_definition = canonical_rule k r, rv_is_active = False, rv_activated_at = None\<rparr>"

definition insert_rule_version :: "db \<Rightarrow> rule_version_row \<Rightarrow> db result" where
  "insert_rule_version d v =
     (if \<not> rule_version_check v then Inl (IntegrityError ''detection_rule_versions check'')
      else if list_ex (\<lambda>w. rv_rule_key w = rv_rule_key v
          \<and> (rv_version w = rv_version v \<or> rv_checksum w = rv_checksum v
             \<or> rv_is_active w \<and> rv_is_active v)) (rule_versions d)
        then Inl (IntegrityError ''uq_detection_rule_versions'')
      else Inr (d\<lparr>rule_versions := rule_versions d @ [v]\<rparr>))"

text \<open>The first loop, for one rule: the row that holds its version, appended when it is new.\<close>

definition find_or_append ::
  "(string \<Rightarrow> string) \<Rightarrow> rule_codec \<Rightarrow> db \<Rightarrow> rule \<Rightarrow> (db \<times> rule_version_row) result" where
  "find_or_append sha256_hex k d r =
     (let checksum = rule_checksum sha256_hex k r in
      case List.find (\<lambda>v. rv_rule_key v = ru_rule_key r \<and> rv_version v = ru_version r) (rule_versions d) of
        Some existing \<Rightarrow>
          if strip_blanks (rv_checksum existing) \<noteq> checksum
          then Inl (RuleSyncError (''immutable rule version conflicts with database: '' @ ru_rule_key r))
          else Inr (d, existing)
      | None \<Rightarrow>
          if list_ex (\<lambda>v. rv_rule_key v = ru_rule_key r \<and> rv_checksum v = checksum) (rule_versions d)
          then Inl (RuleSyncError (''rule definition already exists under another version: '' @ ru_rule_key r))
          else let (rid, d1) = uuid4 d; stored = new_rule_version sha256_hex k rid r in
            bind_r (insert_rule_version d1 stored) (\<lambda>d2. Inr (d2, stored)))"

fun collect_targets ::
  "(string \<Rightarrow> string) \<Rightarrow> rule_codec \<Rightarrow> db \<Rightarrow> rule list \<Rightarrow> (db \<times> rule_version_row list) result" where
  "collect_targets sha256_hex k d [] = Inr (d, [])"
| "collect_targets sha256_hex k d (r # rs) =
     bind_r (find_or_append sha256_hex k d r) (\<lambda>(d1, t).
     bind_r (collect_targets sha256_hex k d1 rs) (\<lambda>(d2, ts). Inr (d2, t # ts)))"

text \<open>
  The second loop, for one target: the UPDATE that deactivates the other active version of its key,
  then the activation of the target unless it is already active.
\<close>

definition activate :: "time \<Rightarrow> rule_version_row \<Rightarrow> rule_version_row list \<Rightarrow> rule_version_row list" where
  "activate now t rows =
     update_where (\<lambda>v. rv_id v = rv_id t \<and> \<not> rv_is_active v)
       (\<lambda>v. v\<lparr>rv_is_active := True, rv_activated_at := Some now\<rparr>)
       (update_where (\<lambda>v. rv_rule_key v = rv_rule_key t \<and> rv_is_active v \<and> rv_id v \<noteq> rv_id t)
         (\<lambda>v. v\<lparr>rv_is_active := False\<rparr>) rows)"

definition sync_rules ::
  "(string \<Rightarrow> string) \<Rightarrow> rule_codec \<Rightarrow> db \<Rightarrow> time \<Rightarrow> rule list \<Rightarrow> (db \<times> nat) result" where
  "sync_rules sha256_hex k d activation_time rules =
     bind_r (collect_targets sha256_hex k d rules) (\<lambda>(d1, targets).
       Inr (d1\<lparr>rule_versions := fold (activate activation_time) targets (rule_versions d1)\<rparr>, length targets))"

section \<open>The invariant of the table\<close>

definition rules_inv :: "db \<Rightarrow> bool" where
  "rules_inv d \<longleftrightarrow> rule_versions_unique (rule_versions d)
     \<and> (\<forall>v \<in> set (rule_versions d). rule_version_check v \<and> rv_id v < next_uuid d
          \<and> strip_blanks (rv_checksum v) = rv_checksum v)"

text \<open>A digest function whose values are 64 lower-case hexadecimal digits, as SHA-256's are.\<close>

definition hex_digest :: "(string \<Rightarrow> string) \<Rightarrow> bool" where
  "hex_digest sha256_hex \<longleftrightarrow> (\<forall>s. is_sha256_hex (sha256_hex s))"

lemma strip_blanks_hex:
  assumes "is_sha256_hex s"
  shows "strip_blanks s = s"
proof -
  have no: "c \<noteq> CHR '' ''" if "c \<in> set s" for c
    using assms that by (auto simp: is_sha256_hex_def list_all_iff is_lower_hex_def)
  have "dropWhile (\<lambda>c. c = CHR '' '') xs = xs" if "set xs \<subseteq> set s" for xs
    using that no by (cases xs) auto
  then show ?thesis by (simp add: strip_blanks_def)
qed

text \<open>What a rule conflicts with: its version under another checksum, or its checksum under another version.\<close>

definition conflicting :: "(string \<Rightarrow> string) \<Rightarrow> rule_codec \<Rightarrow> rule \<Rightarrow> rule_version_row \<Rightarrow> bool" where
  "conflicting sha256_hex k r v \<longleftrightarrow> rv_rule_key v = ru_rule_key r
     \<and> ((rv_version v = ru_version r) \<noteq> (rv_checksum v = rule_checksum sha256_hex k r))"

definition holds_rule :: "(string \<Rightarrow> string) \<Rightarrow> rule_codec \<Rightarrow> rule \<Rightarrow> rule_version_row \<Rightarrow> bool" where
  "holds_rule sha256_hex k r v \<longleftrightarrow> rv_rule_key v = ru_rule_key r \<and> rv_version v = ru_version r
     \<and> rv_checksum v = rule_checksum sha256_hex k r"

definition with_versions :: "db \<Rightarrow> rule_version_row list \<Rightarrow> db" where
  "with_versions d vs = d\<lparr>rule_versions := rule_versions d @ vs, next_uuid := next_uuid d + length vs\<rparr>"

lemma with_versions_simps [simp]:
  "rule_versions (with_versions d vs) = rule_versions d @ vs"
  "next_uuid (with_versions d vs) = next_uuid d + length vs"
  "with_versions d [] = d" "with_versions (with_versions d vs) ws = with_versions d (vs @ ws)"
  by (simp_all add: with_versions_def)

lemma find_or_append_cases [consumes 3, case_names conflict existing appended]:
  assumes inv: "rules_inv d" and sha: "hex_digest sha256_hex" and r: "0 < ru_version r"
  obtains v msg where "find_or_append sha256_hex k d r = Inl (RuleSyncError msg)"
      "v \<in> set (rule_versions d)" "conflicting sha256_hex k r v"
  | v where "find_or_append sha256_hex k d r = Inr (d, v)" "v \<in> set (rule_versions d)"
      "holds_rule sha256_hex k r v"
  | v where "v = new_rule_version sha256_hex k (next_uuid d) r"
      "find_or_append sha256_hex k d r = Inr (with_versions d [v], v)" "rules_inv (with_versions d [v])"
      "holds_rule sha256_hex k r v" "\<forall>w \<in> set (rule_versions d). \<not> conflicting sha256_hex k r w"
proof -
  let ?c = "rule_checksum sha256_hex k r"
  have hex: "is_sha256_hex ?c" using sha by (simp add: hex_digest_def rule_checksum_def)
  show thesis
  proof (cases "List.find (\<lambda>v. rv_rule_key v = ru_rule_key r \<and> rv_version v = ru_version r) (rule_versions d)")
    case (Some v)
    then have v: "v \<in> set (rule_versions d)" "rv_rule_key v = ru_rule_key r" "rv_version v = ru_version r"
      by (auto simp: find_Some_iff)
    have "strip_blanks (rv_checksum v) = rv_checksum v" using inv v(1) by (simp add: rules_inv_def)
    then show thesis using v Some that(1,2)
      by (cases "rv_checksum v = ?c") (auto simp: find_or_append_def conflicting_def holds_rule_def)
  next
    case None
    then have none: "\<forall>v \<in> set (rule_versions d). rv_rule_key v = ru_rule_key r \<longrightarrow> rv_version v \<noteq> ru_version r"
      by (auto simp: find_None_iff)
    show thesis
    proof (cases "\<exists>v \<in> set (rule_versions d). rv_rule_key v = ru_rule_key r \<and> rv_checksum v = ?c")
      case True
      then show thesis using None none that(1)
        by (auto simp: find_or_append_def conflicting_def list_ex_iff Let_def)
    next
      case False
      let ?v = "new_rule_version sha256_hex k (next_uuid d) r"
      have v: "rv_id ?v = next_uuid d" "rv_rule_key ?v = ru_rule_key r" "rv_version ?v = ru_version r"
        "rv_checksum ?v = ?c" "\<not> rv_is_active ?v" "rule_version_check ?v"
        using hex r by (simp_all add: new_rule_version_def rule_version_check_def is_sha256_hex_def)
      have ins: "find_or_append sha256_hex k d r = Inr (with_versions d [?v], ?v)"
        using None none False v
        by (auto simp: find_or_append_def list_ex_iff Let_def uuid4_def insert_rule_version_def with_versions_def)
      have "next_uuid d \<notin> rv_id ` set (rule_versions d)"
        using inv by (auto simp: rules_inv_def)
      then have "rules_inv (with_versions d [?v])"
        using inv v none False strip_blanks_hex [OF hex]
        by (auto simp: rules_inv_def rule_versions_unique_def less_Suc_eq)
      with ins v none False show thesis
        by (intro that(3)) (auto simp: holds_rule_def conflicting_def)
    qed
  qed
qed

lemma collect_targets_Inr:
  assumes "rules_inv d" "hex_digest sha256_hex" "\<forall>r \<in> set rs. 0 < ru_version r"
    "collect_targets sha256_hex k d rs = Inr (d', ts)"
  obtains vs where "d' = with_versions d vs" "rules_inv d'" "set vs \<subseteq> set ts" "set ts \<subseteq> set (rule_versions d')"
    "list_all2 (holds_rule sha256_hex k) rs ts"
  using assms
proof (induction rs arbitrary: d ts thesis)
  case Nil
  then show ?case by (auto intro: Nil.prems(1) [of "[]"])
next
  case (Cons r rs)
  from Cons.prems(5) obtain d1 t ts' where one: "find_or_append sha256_hex k d r = Inr (d1, t)"
    and rest: "collect_targets sha256_hex k d1 rs = Inr (d', ts')" and ts: "ts = t # ts'"
    by (auto simp: bind_r_eq_Inr)
  have r: "0 < ru_version r" "\<forall>r \<in> set rs. 0 < ru_version r" using Cons.prems(4) by simp_all
  have "\<exists>us. d1 = with_versions d us \<and> rules_inv d1 \<and> set us \<subseteq> {t} \<and> t \<in> set (rule_versions d1)
      \<and> holds_rule sha256_hex k r t"
    using Cons.prems(2,3) r(1)
  proof (cases rule: find_or_append_cases [where k = k])
    case (existing v)
    with one Cons.prems(2) show ?thesis by (intro exI [of _ "[]"]) simp
  next
    case (appended v)
    from one appended(2) have "d1 = with_versions d [v]" "t = v" by auto
    with appended(3,4) show ?thesis by (intro exI [of _ "[v]"]) simp
  qed (use one in simp)
  then obtain us where us: "d1 = with_versions d us" "rules_inv d1" "set us \<subseteq> {t}" "t \<in> set (rule_versions d1)"
    "holds_rule sha256_hex k r t" by blast
  from Cons.IH [OF _ us(2) Cons.prems(3) r(2) rest] obtain vs where
    "d' = with_versions d1 vs" "rules_inv d'" "set vs \<subseteq> set ts'" "set ts' \<subseteq> set (rule_versions d')"
    "list_all2 (holds_rule sha256_hex k) rs ts'" by blast
  with us show ?case by (intro Cons.prems(1) [of "us @ vs"]) (auto simp: ts)
qed

text \<open>The only errors are conflicts, and a set without conflicts with the table is accepted.\<close>

lemma collect_targets_conflict:
  assumes "rules_inv d" "hex_digest sha256_hex" "\<forall>r \<in> set rs. 0 < ru_version r" "distinct (map ru_rule_key rs)"
  shows "(\<exists>d' ts. collect_targets sha256_hex k d rs = Inr (d', ts)
        \<and> (\<forall>r \<in> set rs. \<forall>v \<in> set (rule_versions d). \<not> conflicting sha256_hex k r v))
    \<or> (\<exists>msg. collect_targets sha256_hex k d rs = Inl (RuleSyncError msg)
        \<and> (\<exists>r \<in> set rs. \<exists>v \<in> set (rule_versions d). conflicting sha256_hex k r v))"
  using assms
proof (induction rs arbitrary: d)
  case (Cons r rs)
  have r: "0 < ru_version r" "\<forall>r \<in> set rs. 0 < ru_version r" "distinct (map ru_rule_key rs)"
    "ru_rule_key r \<notin> ru_rule_key ` set rs" using Cons.prems(3,4) by auto
  from Cons.prems(1,2) r(1) show ?case
  proof (cases rule: find_or_append_cases [where k = k])
    case (conflict v msg)
    then show ?thesis by auto
  next
    case (existing v)
    have dist: "distinct (map (\<lambda>r. (rv_rule_key r, rv_version r)) (rule_versions d))"
      "distinct (map (\<lambda>r. (rv_rule_key r, rv_checksum r)) (rule_versions d))"
      using Cons.prems(1) by (simp_all add: rules_inv_def rule_versions_unique_def)
    have "w = v" if "w \<in> set (rule_versions d)" "rv_rule_key w = ru_rule_key r"
      "rv_version w = ru_version r \<or> rv_checksum w = rule_checksum sha256_hex k r" for w
      using that existing(2,3) key_inj_rows [OF dist(1), of w v] key_inj_rows [OF dist(2), of w v]
      by (auto simp: holds_rule_def)
    then have "\<not> conflicting sha256_hex k r w" if "w \<in> set (rule_versions d)" for w
      using that existing(3) unfolding conflicting_def holds_rule_def by metis
    moreover from Cons.IH [OF Cons.prems(1,2) r(2,3)] show ?thesis
      using existing(1) calculation by (elim disjE exE conjE) auto
  next
    case (appended v)
    have "conflicting sha256_hex k r' v = False" if "r' \<in> set rs" for r'
      using that r(4) by (auto simp: conflicting_def appended(1) new_rule_version_def)
    then have "(\<exists>v \<in> set (rule_versions (with_versions d [v])). conflicting sha256_hex k r' v)
        \<longleftrightarrow> (\<exists>v \<in> set (rule_versions d). conflicting sha256_hex k r' v)" if "r' \<in> set rs" for r'
      using that by auto
    with Cons.IH [OF appended(3) Cons.prems(2) r(2,3)] show ?thesis
      using appended(2,5) by (elim disjE exE conjE) auto
  qed
qed simp

section \<open>What activation does to every row\<close>

text \<open>The row after the activation of one target.\<close>

definition activated :: "time \<Rightarrow> rule_version_row \<Rightarrow> rule_version_row \<Rightarrow> rule_version_row" where
  "activated now t v =
     (if rv_id v = rv_id t
      then (if rv_is_active v then v else v\<lparr>rv_is_active := True, rv_activated_at := Some now\<rparr>)
      else if rv_rule_key v = rv_rule_key t then v\<lparr>rv_is_active := False\<rparr> else v)"

lemma inactive_row [simp]: "\<not> rv_is_active v \<Longrightarrow> v\<lparr>rv_is_active := False\<rparr> = v"
  by (cases v) simp

lemma activate_map: "activate now t rows = map (activated now t) rows"
  by (induction rows) (auto simp: activate_def activated_def)

lemma activated_simps [simp]:
  "rv_id (activated now t v) = rv_id v" "rv_rule_key (activated now t v) = rv_rule_key v"
  "rv_version (activated now t v) = rv_version v" "rv_checksum (activated now t v) = rv_checksum v"
  "rv_definition (activated now t v) = rv_definition v"
  by (simp_all add: activated_def)

text \<open>
  The row after the activation of a set of targets with different keys: decided by the target of its
  own key alone, kept when there is none.
\<close>

definition settled :: "time \<Rightarrow> rule_version_row list \<Rightarrow> rule_version_row \<Rightarrow> rule_version_row" where
  "settled now ts v = (case find_row rv_rule_key (rv_rule_key v) ts of None \<Rightarrow> v | Some t \<Rightarrow> activated now t v)"

lemma settled_other: "rv_rule_key v \<notin> rv_rule_key ` set ts \<Longrightarrow> settled now ts v = v"
  by (simp add: settled_def find_row_None_iff [THEN iffD2])

lemma activated_other: "rv_rule_key v \<noteq> rv_rule_key t \<Longrightarrow> rv_id v \<noteq> rv_id t \<Longrightarrow> activated now t v = v"
  by (simp add: activated_def)

lemma fold_activate:
  assumes "distinct (map rv_rule_key ts)" "\<forall>t \<in> set ts. \<forall>v \<in> set rows. rv_id v = rv_id t \<longrightarrow> rv_rule_key v = rv_rule_key t"
  shows "fold (activate now) ts rows = map (settled now ts) rows"
  using assms
proof (induction ts arbitrary: rows)
  case Nil
  then show ?case by (simp add: settled_def map_idI)
next
  case (Cons t ts)
  have "fold (activate now) ts (activate now t rows) = map (settled now ts) (activate now t rows)"
  proof (rule Cons.IH)
    show "distinct (map rv_rule_key ts)" using Cons.prems(1) by simp
    show "\<forall>t' \<in> set ts. \<forall>v \<in> set (activate now t rows). rv_id v = rv_id t' \<longrightarrow> rv_rule_key v = rv_rule_key t'"
    proof (intro ballI impI)
      fix t' v' assume *: "t' \<in> set ts" "v' \<in> set (activate now t rows)" "rv_id v' = rv_id t'"
      from *(2) obtain v where v: "v \<in> set rows" "v' = activated now t v"
        unfolding activate_map set_map by blast
      moreover have "t' \<in> set (t # ts)" using *(1) by simp
      ultimately show "rv_rule_key v' = rv_rule_key t'"
        using *(3) Cons.prems(2) unfolding v(2) activated_simps by blast
    qed
  qed
  also have "\<dots> = map (settled now (t # ts)) rows"
    unfolding activate_map map_map
  proof (rule map_cong [OF refl])
    fix v assume v: "v \<in> set rows"
    show "(settled now ts \<circ> activated now t) v = settled now (t # ts) v"
    proof (cases "rv_rule_key v = rv_rule_key t")
      case True
      then have "rv_rule_key v \<notin> rv_rule_key ` set ts" using Cons.prems(1) by auto
      then show ?thesis using True settled_other [of "activated now t v" ts now] by (simp add: settled_def)
    next
      case False
      have "t \<in> set (t # ts)" by simp
      with Cons.prems(2) v False have "rv_id v \<noteq> rv_id t" by blast
      with False show ?thesis by (simp add: activated_other) (simp add: settled_def)
    qed
  qed
  finally show ?case by simp
qed

lemma settled_rules_simps [simp]:
  "rv_id (settled now ts v) = rv_id v" "rv_rule_key (settled now ts v) = rv_rule_key v"
  "rv_version (settled now ts v) = rv_version v" "rv_checksum (settled now ts v) = rv_checksum v"
  "rv_definition (settled now ts v) = rv_definition v"
  by (simp_all add: settled_def split: option.split)

lemma settled_check: "rule_version_check v \<Longrightarrow> rule_version_check (settled now ts v)"
  by (auto simp: settled_def activated_def rule_version_check_def split: option.split)

text \<open>A row whose key has a target is active exactly when it is the target.\<close>

lemma settled_active:
  "rv_rule_key v \<in> rv_rule_key ` set ts \<Longrightarrow> distinct (map rv_rule_key ts) \<Longrightarrow>
    rv_is_active (settled now ts v) \<longleftrightarrow> rv_id v \<in> rv_id ` {t \<in> set ts. rv_rule_key t = rv_rule_key v}"
proof -
  assume key: "rv_rule_key v \<in> rv_rule_key ` set ts" and dist: "distinct (map rv_rule_key ts)"
  then obtain t where t: "find_row rv_rule_key (rv_rule_key v) ts = Some t"
    using find_row_None_iff [of rv_rule_key "rv_rule_key v" ts] by (cases "find_row rv_rule_key (rv_rule_key v) ts") auto
  note mem = find_row_SomeD [OF t]
  have "{t \<in> set ts. rv_rule_key t = rv_rule_key v} = {t}"
    using mem key_inj_rows [OF dist] by auto
  then show ?thesis using mem by (auto simp: settled_def t activated_def)
qed

lemma settled_unique:
  assumes uniq: "rule_versions_unique rows" and dist: "distinct (map rv_rule_key ts)" and sub: "set ts \<subseteq> set rows"
  shows "rule_versions_unique (map (settled now ts) rows)"
proof -
  let ?rows = "map (settled now ts) rows"
  have ids: "distinct (map rv_id rows)" using uniq by (simp add: rule_versions_unique_def)
  have "v = w" if vw: "v \<in> set rows" "w \<in> set rows" "rv_rule_key v = rv_rule_key w"
      "rv_is_active (settled now ts v)" "rv_is_active (settled now ts w)" for v w
  proof (cases "rv_rule_key v \<in> rv_rule_key ` set ts")
    case True
    with vw have "rv_id v \<in> rv_id ` {t \<in> set ts. rv_rule_key t = rv_rule_key v}"
      "rv_id w \<in> rv_id ` {t \<in> set ts. rv_rule_key t = rv_rule_key v}"
      using settled_active [OF _ dist, of v now] settled_active [OF _ dist, of w now] by simp_all
    then obtain a b where ab: "a \<in> set ts" "b \<in> set ts" "rv_id v = rv_id a" "rv_id w = rv_id b"
      "rv_rule_key a = rv_rule_key v" "rv_rule_key b = rv_rule_key v" by blast
    then have "a = b" using key_inj_rows [OF dist ab(1,2)] by simp
    with ab(3,4) have "rv_id v = rv_id w" by simp
    then show ?thesis using key_inj_rows [OF ids] vw by blast
  next
    case False
    with vw have "rv_is_active v" "rv_is_active w" by (simp_all add: settled_other)
    moreover have "distinct (map rv_rule_key (filter rv_is_active rows))" using uniq by (simp add: rule_versions_unique_def)
    ultimately show ?thesis using key_inj_rows [of rv_rule_key "filter rv_is_active rows" v w] vw by simp
  qed
  then have "inj_on (rv_rule_key \<circ> settled now ts) (set (filter (rv_is_active \<circ> settled now ts) rows))"
    by (auto simp: inj_on_def)
  moreover have "distinct (filter (rv_is_active \<circ> settled now ts) rows)" using ids by (simp add: distinct_map)
  ultimately have "distinct (map rv_rule_key (filter rv_is_active ?rows))"
    by (simp add: filter_map distinct_map)
  with uniq show ?thesis by (simp add: rule_versions_unique_def comp_def)
qed

lemma sync_rules_Inr:
  assumes inv: "rules_inv d" and sha: "hex_digest sha256_hex" and ver: "\<forall>r \<in> set rs. 0 < ru_version r"
    and keys: "distinct (map ru_rule_key rs)" and sync: "sync_rules sha256_hex k d now rs = Inr (d', n)"
  obtains vs ts where "list_all2 (holds_rule sha256_hex k) rs ts" "set vs \<subseteq> set ts"
    "set ts \<subseteq> set (rule_versions d @ vs)" "distinct (map rv_rule_key ts)" "n = length rs"
    "d' = d\<lparr>rule_versions := map (settled now ts) (rule_versions d @ vs), next_uuid := next_uuid d + length vs\<rparr>"
    "rules_inv d'"
proof -
  from sync obtain d1 ts where col: "collect_targets sha256_hex k d rs = Inr (d1, ts)" and n: "n = length ts"
    and d': "d' = d1\<lparr>rule_versions := fold (activate now) ts (rule_versions d1)\<rparr>"
    by (auto simp: sync_rules_def bind_r_eq_Inr)
  from collect_targets_Inr [OF inv sha ver col] obtain vs where vs: "d1 = with_versions d vs" "rules_inv d1"
    "set vs \<subseteq> set ts" "set ts \<subseteq> set (rule_versions d1)" "list_all2 (holds_rule sha256_hex k) rs ts" by blast
  have "map rv_rule_key ts = map ru_rule_key rs"
    using vs(5) by (induction rule: list_all2_induct) (auto simp: holds_rule_def)
  then have tk: "distinct (map rv_rule_key ts)" using keys by simp
  have uniq: "rule_versions_unique (rule_versions d1)" using vs(2) by (simp add: rules_inv_def)
  then have ids: "distinct (map rv_id (rule_versions d1))" by (simp add: rule_versions_unique_def)
  have "rv_rule_key v = rv_rule_key t" if "t \<in> set ts" "v \<in> set (rule_versions d1)" "rv_id v = rv_id t" for t v
    using key_inj_rows [OF ids that(2) _ that(3)] vs(4) that(1) by blast
  then have rows: "rule_versions d' = map (settled now ts) (rule_versions d1)"
    using fold_activate [OF tk, of "rule_versions d1" now] by (simp add: d')
  have "rule_versions_unique (rule_versions d')"
    unfolding rows using uniq tk vs(4) by (rule settled_unique)
  moreover have "next_uuid d' = next_uuid d1" by (simp add: d')
  ultimately have "rules_inv d'"
    using vs(2) by (auto simp: rules_inv_def rows settled_check)
  moreover have "d' = d\<lparr>rule_versions := map (settled now ts) (rule_versions d @ vs), next_uuid := next_uuid d + length vs\<rparr>"
    using rows by (simp add: d' vs(1) with_versions_def)
  moreover have "n = length rs" using vs(5) n by (simp add: list_all2_lengthD)
  ultimately show thesis using that [of ts vs] vs tk by simp
qed

section \<open>Properties\<close>

definition sync_pre :: "(string \<Rightarrow> string) \<Rightarrow> db \<Rightarrow> rule list \<Rightarrow> bool" where
  "sync_pre sha256_hex d rs \<longleftrightarrow> rules_inv d \<and> hex_digest sha256_hex \<and> list_all rule_ok rs
     \<and> distinct (map ru_rule_key rs)"

lemma sync_pre_versions: "sync_pre sha256_hex d rs \<Longrightarrow> \<forall>r \<in> set rs. 0 < ru_version r"
  by (auto simp: sync_pre_def list_all_iff rule_ok_def)

text \<open>What the table looks like after the activation of a rule set.\<close>

definition rule_set_active :: "(string \<Rightarrow> string) \<Rightarrow> rule_codec \<Rightarrow> db \<Rightarrow> rule list \<Rightarrow> db \<Rightarrow> bool" where
  "rule_set_active sha256_hex k d rs d' \<longleftrightarrow> rules_inv d'
     \<and> (\<forall>r \<in> set rs. \<exists>v \<in> set (rule_versions d'). rv_is_active v \<and> holds_rule sha256_hex k r v)
     \<and> (\<exists>old new. rule_versions d' = old @ new
          \<and> list_all2 (\<lambda>v v'. v' = v\<lparr>rv_is_active := rv_is_active v', rv_activated_at := rv_activated_at v'\<rparr>
                \<and> (rv_rule_key v \<notin> ru_rule_key ` set rs \<longrightarrow> v' = v)) (rule_versions d) old
          \<and> (\<forall>v \<in> set new. \<exists>r \<in> set rs. holds_rule sha256_hex k r v))"

lemma settled_frozen:
  "settled now ts v = v\<lparr>rv_is_active := rv_is_active (settled now ts v),
     rv_activated_at := rv_activated_at (settled now ts v)\<rparr>"
  by (cases v) (simp add: settled_def activated_def split: option.split)

lemma holds_rule_settled [simp]: "holds_rule sha256_hex k r (settled now ts v) = holds_rule sha256_hex k r v"
  by (simp add: holds_rule_def)

text \<open>C17: Synchronising a rule set is all or nothing and never rewrites a definition. On a table that
  satisfies its constraints, a set of valid rules with different keys is either refused with a safe
  error, exactly when some rule conflicts with a stored version (same version under another checksum
  or same checksum under another version); or it is stored and activated: all constraints hold again,
  every rule of the set is active under its own checksum, which leaves no other version of its key
  active, stored rows keep everything but their activation, rows of other keys are untouched, and
  appended rows are versions of the set.\<close>

theorem sync_activates_or_refuses:
  assumes "sync_pre sha256_hex d rs"
  shows "case sync_rules sha256_hex k d now rs of
      Inl e \<Rightarrow> (\<exists>msg. e = RuleSyncError msg)
        \<and> (\<exists>r \<in> set rs. \<exists>v \<in> set (rule_versions d). conflicting sha256_hex k r v)
    | Inr (d', n) \<Rightarrow> n = length rs \<and> rule_set_active sha256_hex k d rs d'
        \<and> (\<forall>r \<in> set rs. \<forall>v \<in> set (rule_versions d). \<not> conflicting sha256_hex k r v)"
proof -
  have pre: "rules_inv d" "hex_digest sha256_hex" "distinct (map ru_rule_key rs)"
    using assms by (simp_all add: sync_pre_def)
  note ver = sync_pre_versions [OF assms]
  note conflict = collect_targets_conflict [OF pre(1,2) ver pre(3), of k]
  show ?thesis
  proof (cases "sync_rules sha256_hex k d now rs")
    case (Inl e)
    then have "collect_targets sha256_hex k d rs = Inl e" by (auto simp: sync_rules_def bind_r_eq_Inl)
    with conflict Inl show ?thesis by auto
  next
    case (Inr x)
    then obtain d' n where sync: "sync_rules sha256_hex k d now rs = Inr (d', n)" by (cases x) auto
    obtain vs ts where
      ts: "list_all2 (holds_rule sha256_hex k) rs ts" "set vs \<subseteq> set ts" "set ts \<subseteq> set (rule_versions d @ vs)"
        "distinct (map rv_rule_key ts)" "n = length rs"
      and eq: "d' = d\<lparr>rule_versions := map (settled now ts) (rule_versions d @ vs),
        next_uuid := next_uuid d + length vs\<rparr>" and inv': "rules_inv d'"
      using pre(1,2) ver pre(3) sync by (rule sync_rules_Inr)
    have d': "rule_versions d' = map (settled now ts) (rule_versions d @ vs)" by (simp add: eq)
    have keys: "rv_rule_key ` set ts = ru_rule_key ` set rs"
      using ts(1) by (induction rule: list_all2_induct) (auto simp: holds_rule_def)
    have "\<exists>v \<in> set (rule_versions d'). rv_is_active v \<and> holds_rule sha256_hex k r v" if "r \<in> set rs" for r
    proof -
      obtain t where t: "t \<in> set ts" "holds_rule sha256_hex k r t"
        using ts(1) \<open>r \<in> set rs\<close> by (metis in_set_conv_nth list_all2_conv_all_nth)
      then have "rv_is_active (settled now ts t)" using settled_active [OF _ ts(4), of t now] by auto
      with t ts(3) show ?thesis unfolding d' by (intro bexI [of _ "settled now ts t"]) auto
    qed
    moreover have "list_all2 (\<lambda>v v'. v' = v\<lparr>rv_is_active := rv_is_active v', rv_activated_at := rv_activated_at v'\<rparr>
        \<and> (rv_rule_key v \<notin> ru_rule_key ` set rs \<longrightarrow> v' = v)) (rule_versions d) (map (settled now ts) (rule_versions d))"
      using settled_other [of _ ts now] settled_frozen [of now ts] by (simp add: list_all2_conv_all_nth keys)
    moreover have "\<forall>v \<in> set (map (settled now ts) vs). \<exists>r \<in> set rs. holds_rule sha256_hex k r v"
    proof
      fix v assume "v \<in> set (map (settled now ts) vs)"
      then obtain u where u: "u \<in> set ts" "v = settled now ts u" using ts(2) by auto
      then show "\<exists>r \<in> set rs. holds_rule sha256_hex k r v"
        using ts(1) by (metis holds_rule_settled in_set_conv_nth list_all2_conv_all_nth)
    qed
    ultimately have "rule_set_active sha256_hex k d rs d'"
      using inv' unfolding rule_set_active_def d' map_append by blast
    moreover have "\<forall>r \<in> set rs. \<forall>v \<in> set (rule_versions d). \<not> conflicting sha256_hex k r v"
      using conflict sync by (auto simp: sync_rules_def)
    ultimately show ?thesis using sync ts(5) by simp
  qed
qed

definition sample_rules_codec :: rule_codec where
  "sample_rules_codec = \<lparr>rule_dump = (\<lambda>r. JStr (ru_rule_key r)), rule_parse = (\<lambda>_. Some sample_rule)\<rparr>"

definition sample_digest :: "string \<Rightarrow> string" where
  "sample_digest s = replicate 64 (CHR ''c'')"

lemma sample_sync_pre: "sync_pre sample_digest db_empty [sample_rule]"
  using sample_rule_ok
  by (simp add: sync_pre_def rules_inv_def rule_versions_unique_def db_empty_def hex_digest_def
      sample_digest_def is_sha256_hex_def list_all_iff is_lower_hex_def)

lemma sample_sync_run: "\<exists>d'. sync_rules sample_digest sample_rules_codec db_empty 5 [sample_rule] = Inr (d', 1)
    \<and> length (rule_versions d') = 1"
  by (simp add: sync_rules_def find_or_append_def db_empty_def Let_def uuid4_def insert_rule_version_def
      new_rule_version_def rule_version_check_def rule_checksum_def sample_digest_def sample_rule_def activate_map)

theorem sync_activates_or_refuses_witness:
  "\<exists>d'. sync_rules sample_digest sample_rules_codec db_empty 5 [sample_rule] = Inr (d', 1)
     \<and> rule_set_active sample_digest sample_rules_codec db_empty [sample_rule] d'"
  using sync_activates_or_refuses [OF sample_sync_pre, of sample_rules_codec 5] sample_sync_run by auto

text \<open>A table that already holds a rule set actively.\<close>

lemma find_held:
  assumes inv: "rules_inv d" and sha: "hex_digest sha256_hex" and r: "0 < ru_version r"
    and v: "v \<in> set (rule_versions d)" "holds_rule sha256_hex k r v"
  shows "find_or_append sha256_hex k d r = Inr (d, v)"
  using inv sha r
proof (cases rule: find_or_append_cases [where k = k])
  case (conflict w msg)
  have "distinct (map (\<lambda>r. (rv_rule_key r, rv_version r)) (rule_versions d))"
    "distinct (map (\<lambda>r. (rv_rule_key r, rv_checksum r)) (rule_versions d))"
    using inv by (simp_all add: rules_inv_def rule_versions_unique_def)
  from key_inj_rows [OF this(1), of w v] key_inj_rows [OF this(2), of w v] conflict v show ?thesis
    by (auto simp: conflicting_def holds_rule_def)
next
  case (existing w)
  have "distinct (map (\<lambda>r. (rv_rule_key r, rv_version r)) (rule_versions d))"
    using inv by (simp add: rules_inv_def rule_versions_unique_def)
  from key_inj_rows [OF this, of w v] existing v show ?thesis by (simp add: holds_rule_def)
next
  case (appended w)
  have "List.find (\<lambda>v. rv_rule_key v = ru_rule_key r \<and> rv_version v = ru_version r) (rule_versions d) \<noteq> None"
    using v by (auto simp: find_None_iff holds_rule_def)
  then obtain y where y: "List.find (\<lambda>v. rv_rule_key v = ru_rule_key r \<and> rv_version v = ru_version r)
      (rule_versions d) = Some y" by auto
  have "\<exists>x. find_or_append sha256_hex k d r = Inr (d, x) \<or> (\<exists>e. find_or_append sha256_hex k d r = Inl e)"
    by (cases "strip_blanks (rv_checksum y) = rule_checksum sha256_hex k r") (auto simp: find_or_append_def Let_def y)
  moreover have "with_versions d [w] \<noteq> d"
    by (metis add_Suc_right less_add_Suc1 less_irrefl list.size(3) list.size(4) with_versions_simps(2) add_0_right)
  ultimately show ?thesis using appended(2) by auto
qed

lemma collect_held:
  assumes "rules_inv d" "hex_digest sha256_hex" "\<forall>r \<in> set rs. 0 < ru_version r"
    "list_all2 (holds_rule sha256_hex k) rs ts" "set ts \<subseteq> set (rule_versions d)"
  shows "collect_targets sha256_hex k d rs = Inr (d, ts)"
  using assms(4,3,5)
proof (induction rule: list_all2_induct)
  case (Cons r rs t ts)
  with find_held [OF assms(1,2), of r t k] show ?case by simp
qed simp

text \<open>Synchronisation is idempotent: running it again on the table it left, at any later time,
  succeeds and changes nothing, so activation times are not rewritten.\<close>

theorem sync_is_idempotent:
  assumes "sync_pre sha256_hex d rs" "sync_rules sha256_hex k d now rs = Inr (d', n)"
  shows "sync_rules sha256_hex k d' later rs = Inr (d', n)"
proof -
  have pre: "rules_inv d" "hex_digest sha256_hex" "distinct (map ru_rule_key rs)"
    using assms(1) by (simp_all add: sync_pre_def)
  note ver = sync_pre_versions [OF assms(1)]
  obtain vs ts where lst: "list_all2 (holds_rule sha256_hex k) rs ts" and "set vs \<subseteq> set ts"
    and ts: "set ts \<subseteq> set (rule_versions d @ vs)" "distinct (map rv_rule_key ts)" "n = length rs"
    and eq: "d' = d\<lparr>rule_versions := map (settled now ts) (rule_versions d @ vs),
      next_uuid := next_uuid d + length vs\<rparr>" and inv': "rules_inv d'"
    using pre(1,2) ver pre(3) assms(2) by (rule sync_rules_Inr)
  let ?us = "map (settled now ts) ts"
  have d': "rule_versions d' = map (settled now ts) (rule_versions d @ vs)" by (simp add: eq)
  have us: "list_all2 (holds_rule sha256_hex k) rs ?us" "set ?us \<subseteq> set (rule_versions d')"
    "distinct (map rv_rule_key ?us)" "n = length ?us"
    using lst ts by (auto simp: list_all2_conv_all_nth d' comp_def)
  have ids: "distinct (map rv_id (rule_versions d'))"
    using inv' by (simp add: rules_inv_def rule_versions_unique_def)
  have same: "settled later ?us v = v" if v: "v \<in> set (rule_versions d')" for v
  proof (cases "find_row rv_rule_key (rv_rule_key v) ?us")
    case None
    then show ?thesis by (simp add: settled_def)
  next
    case (Some u)
    note u = conjunct1 [OF find_row_SomeD [OF Some]] conjunct2 [OF find_row_SomeD [OF Some]]
    have st: "settled later ?us v = activated later u v" by (simp only: settled_def Some option.case)
    have act: "rv_is_active w" if w: "w \<in> set ?us" for w
    proof -
      from w obtain t where "t \<in> set ts" "w = settled now ts t" by auto
      then show ?thesis using settled_active [OF _ ts(2), of t now] by auto
    qed
    show ?thesis
    proof (cases "v = u")
      case True
      show ?thesis using act [OF u(1)] unfolding st activated_def True [symmetric] by simp
    next
      case False
      have mem: "u \<in> set (rule_versions d')" using u(1) us(2) by blast
      then have ne: "rv_id v \<noteq> rv_id u" using key_inj_rows [OF ids v, of u] False by blast
      have uniq: "distinct (map rv_rule_key (filter rv_is_active (rule_versions d')))"
        using inv' by (simp add: rules_inv_def rule_versions_unique_def)
      have "\<not> rv_is_active v"
      proof
        assume "rv_is_active v"
        then have "v = u" using v mem act [OF u(1)] u(2) by (intro key_inj_rows [OF uniq]) simp_all
        with False show False ..
      qed
      with ne show ?thesis unfolding st activated_def by simp
    qed
  qed
  have "fold (activate later) ?us (rule_versions d') = map (settled later ?us) (rule_versions d')"
  proof (rule fold_activate [OF us(3)])
    show "\<forall>t \<in> set ?us. \<forall>v \<in> set (rule_versions d'). rv_id v = rv_id t \<longrightarrow> rv_rule_key v = rv_rule_key t"
      using key_inj_rows [OF ids] us(2) by blast
  qed
  also have "\<dots> = rule_versions d'" using same by (simp add: map_idI)
  finally show ?thesis
    using collect_held [OF inv' pre(2) ver us(1,2)] us(4) by (simp add: sync_rules_def)
qed

theorem sync_is_idempotent_witness:
  "\<exists>d'. sync_rules sample_digest sample_rules_codec d' 9 [sample_rule] = Inr (d', 1)"
  using sync_is_idempotent [OF sample_sync_pre] sample_sync_run by blast

end
