(* ===== verification/Event_Contract.thy ===== *)
theory Event_Contract
  imports Json
begin

text \<open>
  The contract between agents and the control plane, \<open>woland_guard_contracts/events.py\<close>: normalized
  events and batches, and what pydantic and the validators accept of them. Building the objects from a
  request body is pydantic's work; a model value is an object whose fields have their declared types.
\<close>

section \<open>The contract\<close>

datatype event_source = Journald | Syslog_File | Nginx_Access | File_Integrity

fun source_value :: "event_source \<Rightarrow> string" where
  "source_value Journald = ''journald''"
| "source_value Syslog_File = ''syslog_file''"
| "source_value Nginx_Access = ''nginx_access''"
| "source_value File_Integrity = ''file_integrity''"

record normalized_event =
  ne_event_id :: uuid
  ne_occurred_at :: time
  ne_collected_at :: time
  ne_source :: event_source
  ne_event_type :: string
  ne_actor :: "ustring option"
  ne_source_ip :: "string option"
  ne_summary :: "ustring option"
  ne_attributes :: "(string \<times> json) list"

record event_batch =
  eb_batch_id :: uuid
  eb_sent_at :: time
  eb_events :: "normalized_event list"

text \<open>\<open>^[a-z0-9]+(?:[._-][a-z0-9]+)*$\<close>, 1 to 100 characters.\<close>

definition event_type_ok :: "string \<Rightarrow> bool" where
  "event_type_ok s \<longleftrightarrow> length s \<le> 100
     \<and> list_all (\<lambda>p. p \<noteq> [] \<and> list_all (\<lambda>c. is_lower c \<or> is_digit c) p)
         (split_on (CHR ''.'') (map (\<lambda>c. if c = CHR ''_'' \<or> c = CHR ''-'' then CHR ''.'' else c) s))"

text \<open>\<open>_reject_nul\<close>: no U+0000 in any string or object key of a JSON tree.\<close>

fun nul_free :: "json \<Rightarrow> bool" where
  "nul_free (JStr s) \<longleftrightarrow> CHR 0x00 \<notin> set s"
| "nul_free (JArr xs) \<longleftrightarrow> list_all nul_free xs"
| "nul_free (JObj kvs) \<longleftrightarrow> list_all (\<lambda>(k, v). CHR 0x00 \<notin> set k \<and> nul_free v) kvs"
| "nul_free _ \<longleftrightarrow> True"

definition text_field_ok :: "nat \<Rightarrow> ustring option \<Rightarrow> bool" where
  "text_field_ok most s \<longleftrightarrow> (case s of None \<Rightarrow> True | Some t \<Rightarrow> length t \<le> most \<and> 0 \<notin> set t)"

definition event_contract_ok :: "normalized_event \<Rightarrow> bool" where
  "event_contract_ok e \<longleftrightarrow> event_type_ok (ne_event_type e)
     \<and> text_field_ok 255 (ne_actor e) \<and> text_field_ok 1000 (ne_summary e)
     \<and> nul_free (JObj (ne_attributes e)) \<and> ne_occurred_at e \<le> ne_collected_at e"

definition batch_contract_ok :: "event_batch \<Rightarrow> bool" where
  "batch_contract_ok b \<longleftrightarrow> 1 \<le> length (eb_events b) \<and> length (eb_events b) \<le> 100
     \<and> list_all event_contract_ok (eb_events b) \<and> distinct (map ne_event_id (eb_events b))"

end
