(* ===== verification/Agent_Spool.thy ===== *)
theory Agent_Spool
  imports Event_Contract "HOL-Library.Multiset" "HOL-Library.Countable"
begin

text \<open>
  The agent's durable queue, \<open>woland_guard_agent/spool.py\<close>: three SQLite tables and one transaction per
  operation. A table is the list of its rows in \<open>rowid\<close> order; SQLite gives a new row an identifier above
  all rows present, so insertion appends. Floating-point seconds are rationals; the time an operation
  reads from the clock is an argument. Serialising an event is pydantic's work and an argument; the checks
  of the file's type and owner touch no state of the queue and are not modelled.
\<close>

section \<open>Tables\<close>

datatype spool_status = Spool_Pending | Spool_Quarantined | Spool_Oversized

fun spool_status_value :: "spool_status \<Rightarrow> string" where
  "spool_status_value Spool_Pending = ''pending''"
| "spool_status_value Spool_Quarantined = ''quarantined''"
| "spool_status_value Spool_Oversized = ''oversized''"

record spool_row =
  sr_event_id :: uuid
  sr_payload :: string
  sr_enqueued_at :: rat
  sr_attempts :: nat
  sr_next_attempt_at :: rat
  sr_status :: spool_status
  sr_last_error :: "string option"

record cursor_row =
  cu_source_name :: string
  cu_cursor :: string
  cu_updated_at :: rat

record diagnostic_state =
  di_code :: string
  di_first_seen_at :: rat
  di_last_seen_at :: rat
  di_occurrences :: nat

record spool =
  sp_max_events :: int
  sp_events :: "spool_row list"
  sp_cursors :: "cursor_row list"
  sp_diagnostics :: "diagnostic_state list"

record event_codec =
  ec_dump :: "normalized_event \<Rightarrow> string"
  ec_parse :: "string \<Rightarrow> normalized_event option"

text \<open>What pydantic documents of \<open>model_dump_json\<close> and \<open>model_validate_json\<close>: the second reads back what
  the first wrote of a valid object.\<close>

definition codec_ok :: "event_codec \<Rightarrow> bool" where
  "codec_ok c \<longleftrightarrow> (\<forall>e. event_contract_ok e \<longrightarrow> ec_parse c (ec_dump c e) = Some e)"

definition make_spool :: "int \<Rightarrow> spool result" where
  "make_spool max_events = bind_r (guard_r (1 \<le> max_events) (ValueError ''max_events must be positive'')) (\<lambda>_.
     Inr \<lparr>sp_max_events = max_events, sp_events = [], sp_cursors = [], sp_diagnostics = []\<rparr>)"

section \<open>Collection\<close>

datatype enqueue_result = Inserted | Duplicate

text \<open>The \<open>CHECK\<close> on a cursor; SQLite's \<open>length\<close> counts the characters before a NUL.\<close>

definition cursor_length_ok :: "string \<Rightarrow> bool" where
  "cursor_length_ok c \<longleftrightarrow> (let n = length (takeWhile (\<lambda>x. x \<noteq> CHR 0x00) c) in 1 \<le> n \<and> n \<le> 4096)"

definition upsert_cursor :: "string \<Rightarrow> string \<Rightarrow> rat \<Rightarrow> spool \<Rightarrow> spool result" where
  "upsert_cursor source cursor now sp =
     bind_r (guard_r (cursor_length_ok cursor) (IntegrityError ''length(cursor)'')) (\<lambda>_.
     Inr (sp\<lparr>sp_cursors :=
       (if source \<in> cu_source_name ` set (sp_cursors sp)
        then update_where (\<lambda>r. cu_source_name r = source) (\<lambda>r. r\<lparr>cu_cursor := cursor, cu_updated_at := now\<rparr>) (sp_cursors sp)
        else sp_cursors sp @ [\<lparr>cu_source_name = source, cu_cursor = cursor, cu_updated_at = now\<rparr>])\<rparr>))"

definition new_spool_row :: "event_codec \<Rightarrow> normalized_event \<Rightarrow> rat \<Rightarrow> spool_row" where
  "new_spool_row c e now = \<lparr>sr_event_id = ne_event_id e, sr_payload = ec_dump c e, sr_enqueued_at = now,
     sr_attempts = 0, sr_next_attempt_at = 0, sr_status = Spool_Pending, sr_last_error = None\<rparr>"

definition enqueue_with_cursor ::
  "event_codec \<Rightarrow> string \<Rightarrow> string \<Rightarrow> normalized_event \<Rightarrow> rat \<Rightarrow> spool \<Rightarrow> (spool \<times> enqueue_result) result" where
  "enqueue_with_cursor c source cursor e now sp =
     (if ne_event_id e \<in> sr_event_id ` set (sp_events sp)
      then bind_r (upsert_cursor source cursor now sp) (\<lambda>sp1. Inr (sp1, Duplicate))
      else bind_r (guard_r (int (length (sp_events sp)) < sp_max_events sp)
          (SpoolFullError ''spool capacity reached; cursor was not advanced'')) (\<lambda>_.
        bind_r (upsert_cursor source cursor now (sp\<lparr>sp_events := sp_events sp @ [new_spool_row c e now]\<rparr>)) (\<lambda>sp1.
        Inr (sp1, Inserted))))"

definition advance_cursor :: "string \<Rightarrow> string \<Rightarrow> rat \<Rightarrow> spool \<Rightarrow> spool result" where
  "advance_cursor source cursor now sp = upsert_cursor source cursor now sp"

definition clear_cursor :: "string \<Rightarrow> spool \<Rightarrow> spool" where
  "clear_cursor source sp = sp\<lparr>sp_cursors := filter (\<lambda>r. cu_source_name r \<noteq> source) (sp_cursors sp)\<rparr>"

text \<open>The cursor of a source.\<close>

definition spool_cursor :: "string \<Rightarrow> spool \<Rightarrow> string option" where
  "spool_cursor source sp = map_option cu_cursor (find_row cu_source_name source (sp_cursors sp))"

definition record_diagnostic :: "string \<Rightarrow> rat \<Rightarrow> spool \<Rightarrow> spool result" where
  "record_diagnostic code now sp =
     (let rest = filter (\<lambda>c. c \<noteq> CHR ''_'') code in
      bind_r (guard_r (1 \<le> length code \<and> length code \<le> 100 \<and> rest \<noteq> [] \<and> list_all is_alnum rest)
        (ValueError ''diagnostic code has an unsafe format'')) (\<lambda>_.
      Inr (sp\<lparr>sp_diagnostics :=
        (if code \<in> di_code ` set (sp_diagnostics sp)
         then update_where (\<lambda>r. di_code r = code)
           (\<lambda>r. r\<lparr>di_last_seen_at := now, di_occurrences := di_occurrences r + 1\<rparr>) (sp_diagnostics sp)
         else sp_diagnostics sp @ [\<lparr>di_code = code, di_first_seen_at = now, di_last_seen_at = now, di_occurrences = 1\<rparr>])\<rparr>)))"

definition spool_diagnostics :: "spool \<Rightarrow> diagnostic_state list" where
  "spool_diagnostics sp = sort_key di_code (sp_diagnostics sp)"

section \<open>Delivery\<close>

record queued_event =
  qe_event :: normalized_event
  qe_attempts :: nat

definition queued_id :: "queued_event \<Rightarrow> uuid" where
  "queued_id q = ne_event_id (qe_event q)"

lemma queued_id_simp [simp]: "queued_id \<lparr>qe_event = e, qe_attempts = n\<rparr> = ne_event_id e"
  by (simp add: queued_id_def)

definition due_rows :: "rat \<Rightarrow> spool \<Rightarrow> spool_row list" where
  "due_rows now sp = sort_key sr_enqueued_at
     (filter (\<lambda>r. sr_status r = Spool_Pending \<and> sr_next_attempt_at r \<le> now) (sp_events sp))"

fun parse_rows :: "event_codec \<Rightarrow> spool_row list \<Rightarrow> queued_event list result" where
  "parse_rows c [] = Inr []"
| "parse_rows c (r # rs) = (case ec_parse c (sr_payload r) of
     None \<Rightarrow> Inl (ValueError ''stored event is invalid'')
   | Some e \<Rightarrow> bind_r (parse_rows c rs) (\<lambda>qs. Inr (\<lparr>qe_event = e, qe_attempts = sr_attempts r\<rparr> # qs)))"

definition ready_batch :: "event_codec \<Rightarrow> int \<Rightarrow> rat \<Rightarrow> spool \<Rightarrow> queued_event list result" where
  "ready_batch c limit now sp =
     bind_r (guard_r (1 \<le> limit \<and> limit \<le> 100) (ValueError ''batch limit must be between 1 and 100'')) (\<lambda>_.
     parse_rows c (take (nat limit) (due_rows now sp)))"

definition acknowledge :: "uuid list \<Rightarrow> spool \<Rightarrow> spool" where
  "acknowledge ids sp = sp\<lparr>sp_events := filter (\<lambda>r. sr_event_id r \<notin> set ids) (sp_events sp)\<rparr>"

definition defer_events :: "uuid list \<Rightarrow> rat \<Rightarrow> string \<Rightarrow> rat \<Rightarrow> spool \<Rightarrow> spool" where
  "defer_events ids delay_seconds error_code now sp = sp\<lparr>sp_events :=
     update_where (\<lambda>r. sr_event_id r \<in> set ids \<and> sr_status r = Spool_Pending)
       (\<lambda>r. r\<lparr>sr_attempts := sr_attempts r + 1, sr_next_attempt_at := now + max 0 delay_seconds,
              sr_last_error := Some error_code\<rparr>) (sp_events sp)\<rparr>"

definition quarantine :: "uuid \<Rightarrow> spool_status \<Rightarrow> string \<Rightarrow> spool \<Rightarrow> spool result" where
  "quarantine eid status error_code sp =
     bind_r (guard_r (status \<noteq> Spool_Pending) (ValueError ''unsupported terminal spool status'')) (\<lambda>_.
     Inr (sp\<lparr>sp_events := update_where (\<lambda>r. sr_event_id r = eid \<and> sr_status r = Spool_Pending)
       (\<lambda>r. r\<lparr>sr_status := status, sr_attempts := sr_attempts r + 1, sr_last_error := Some error_code\<rparr>)
       (sp_events sp)\<rparr>))"

section \<open>Administration\<close>

record spool_statistics =
  ss_pending :: nat
  ss_quarantined :: nat
  ss_oversized :: nat
  ss_diagnostics :: nat

definition count_spool_status :: "spool_status \<Rightarrow> spool \<Rightarrow> nat" where
  "count_spool_status st sp = length (filter (\<lambda>r. sr_status r = st) (sp_events sp))"

definition spool_statistics_of :: "spool \<Rightarrow> spool_statistics" where
  "spool_statistics_of sp = \<lparr>ss_pending = count_spool_status Spool_Pending sp,
     ss_quarantined = count_spool_status Spool_Quarantined sp, ss_oversized = count_spool_status Spool_Oversized sp,
     ss_diagnostics = length (sp_diagnostics sp)\<rparr>"

definition ss_total :: "spool_statistics \<Rightarrow> nat" where
  "ss_total s = ss_pending s + ss_quarantined s + ss_oversized s"

record spool_event_summary =
  su_event_id :: uuid
  su_status :: spool_status
  su_attempts :: nat
  su_enqueued_at :: rat
  su_last_error :: "string option"

definition list_events :: "spool_status option \<Rightarrow> int \<Rightarrow> spool \<Rightarrow> spool_event_summary list result" where
  "list_events status limit sp =
     bind_r (guard_r (1 \<le> limit \<and> limit \<le> 1000) (ValueError ''list limit must be between 1 and 1000'')) (\<lambda>_.
     Inr (map (\<lambda>r. \<lparr>su_event_id = sr_event_id r, su_status = sr_status r, su_attempts = sr_attempts r,
         su_enqueued_at = sr_enqueued_at r, su_last_error = sr_last_error r\<rparr>)
       (take (nat limit) (sort_key sr_enqueued_at
         (filter (\<lambda>r. case status of None \<Rightarrow> True | Some st \<Rightarrow> sr_status r = st) (sp_events sp))))))"

definition spool_requeue :: "uuid \<Rightarrow> spool \<Rightarrow> spool \<times> bool" where
  "spool_requeue eid sp = (sp\<lparr>sp_events := update_where (\<lambda>r. sr_event_id r = eid \<and> sr_status r \<noteq> Spool_Pending)
       (\<lambda>r. r\<lparr>sr_status := Spool_Pending, sr_attempts := 0, sr_next_attempt_at := 0, sr_last_error := None\<rparr>) (sp_events sp)\<rparr>,
     length (filter (\<lambda>r. sr_event_id r = eid \<and> sr_status r \<noteq> Spool_Pending) (sp_events sp)) = 1)"

definition spool_delete :: "uuid \<Rightarrow> spool \<Rightarrow> spool \<times> bool" where
  "spool_delete eid sp = (sp\<lparr>sp_events := filter (\<lambda>r. sr_event_id r \<noteq> eid) (sp_events sp)\<rparr>,
     length (filter (\<lambda>r. sr_event_id r = eid) (sp_events sp)) = 1)"

definition spool_contains :: "uuid \<Rightarrow> spool \<Rightarrow> bool" where
  "spool_contains eid sp \<longleftrightarrow> eid \<in> sr_event_id ` set (sp_events sp)"

section \<open>The invariant\<close>

text \<open>
  The keys of the tables are unique, the queue is within its capacity, every stored payload reads back as
  a valid event of that identifier, and every cursor fits its column.
\<close>

definition spool_row_ok :: "event_codec \<Rightarrow> spool_row \<Rightarrow> bool" where
  "spool_row_ok c r \<longleftrightarrow> (\<exists>e. event_contract_ok e \<and> ne_event_id e = sr_event_id r \<and> sr_payload r = ec_dump c e)"

definition spool_inv :: "event_codec \<Rightarrow> spool \<Rightarrow> bool" where
  "spool_inv c sp \<longleftrightarrow> distinct (map sr_event_id (sp_events sp)) \<and> int (length (sp_events sp)) \<le> sp_max_events sp
     \<and> (\<forall>r \<in> set (sp_events sp). spool_row_ok c r)
     \<and> distinct (map cu_source_name (sp_cursors sp)) \<and> (\<forall>r \<in> set (sp_cursors sp). cursor_length_ok (cu_cursor r))
     \<and> distinct (map di_code (sp_diagnostics sp))"

lemma upsert_cursor_Inr:
  assumes "upsert_cursor source cursor now sp = Inr sp'"
  shows "sp_events sp' = sp_events sp" "sp_max_events sp' = sp_max_events sp" "sp_diagnostics sp' = sp_diagnostics sp"
    "spool_cursor source sp' = Some cursor" "\<And>other. other \<noteq> source \<Longrightarrow> spool_cursor other sp' = spool_cursor other sp"
    "spool_inv c sp \<Longrightarrow> spool_inv c sp'"
proof -
  let ?new = "if source \<in> cu_source_name ` set (sp_cursors sp)
        then update_where (\<lambda>r. cu_source_name r = source) (\<lambda>r. r\<lparr>cu_cursor := cursor, cu_updated_at := now\<rparr>) (sp_cursors sp)
        else sp_cursors sp @ [\<lparr>cu_source_name = source, cu_cursor = cursor, cu_updated_at = now\<rparr>]"
  have sp': "sp' = sp\<lparr>sp_cursors := ?new\<rparr>" and len: "cursor_length_ok cursor"
    using assms by (auto simp: upsert_cursor_def bind_r_eq_Inr)
  show "sp_events sp' = sp_events sp" "sp_max_events sp' = sp_max_events sp" "sp_diagnostics sp' = sp_diagnostics sp"
    by (simp_all add: sp')
  show "spool_cursor source sp' = Some cursor"
    using find_row_None_iff [of cu_source_name source "sp_cursors sp"]
    by (cases "find_row cu_source_name source (sp_cursors sp)")
      (auto simp: sp' spool_cursor_def find_row_update_where find_row_append dest: find_row_SomeD)
  show "spool_cursor other sp' = spool_cursor other sp" if "other \<noteq> source" for other
    using that by (auto simp: sp' spool_cursor_def find_row_update_where_other find_row_append split: option.split)
  have "distinct (map cu_source_name ?new)" if "distinct (map cu_source_name (sp_cursors sp))"
    using that by (auto simp: map_update_where)
  moreover have "\<forall>r \<in> set ?new. cursor_length_ok (cu_cursor r)" if "\<forall>r \<in> set (sp_cursors sp). cursor_length_ok (cu_cursor r)"
    using that len by (auto simp: set_update_where)
  ultimately show "spool_inv c sp'" if "spool_inv c sp" using that by (simp add: spool_inv_def sp')
qed

lemma spool_enqueue_Inr:
  assumes "enqueue_with_cursor c source cursor e now sp = Inr (sp', res)"
  shows "res = (if spool_contains (ne_event_id e) sp then Duplicate else Inserted)"
    "sp_events sp' = sp_events sp @ (if res = Inserted then [new_spool_row c e now] else [])"
    "sp_max_events sp' = sp_max_events sp" "sp_diagnostics sp' = sp_diagnostics sp"
    "spool_cursor source sp' = Some cursor" "\<And>other. other \<noteq> source \<Longrightarrow> spool_cursor other sp' = spool_cursor other sp"
    "spool_contains (ne_event_id e) sp'"
    "spool_inv c sp \<Longrightarrow> event_contract_ok e \<Longrightarrow> spool_inv c sp'"
proof -
  let ?sp1 = "sp\<lparr>sp_events := sp_events sp @ [new_spool_row c e now]\<rparr>"
  have cases: "(spool_contains (ne_event_id e) sp \<and> res = Duplicate \<and> upsert_cursor source cursor now sp = Inr sp')
    \<or> (\<not> spool_contains (ne_event_id e) sp \<and> res = Inserted \<and> int (length (sp_events sp)) < sp_max_events sp
        \<and> upsert_cursor source cursor now ?sp1 = Inr sp')"
    using assms by (auto simp: enqueue_with_cursor_def spool_contains_def bind_r_eq_Inr split: if_splits)
  then show "res = (if spool_contains (ne_event_id e) sp then Duplicate else Inserted)" by auto
  from cases show rows: "sp_events sp' = sp_events sp @ (if res = Inserted then [new_spool_row c e now] else [])"
    by (auto simp: upsert_cursor_Inr(1))
  from cases show "sp_max_events sp' = sp_max_events sp" "sp_diagnostics sp' = sp_diagnostics sp"
    by (auto simp: upsert_cursor_Inr(2,3))
  from cases show "spool_cursor source sp' = Some cursor" by (auto simp: upsert_cursor_Inr(4))
  show "spool_cursor other sp' = spool_cursor other sp" if "other \<noteq> source" for other
  proof -
    have "spool_cursor other ?sp1 = spool_cursor other sp" by (simp add: spool_cursor_def)
    with cases that show ?thesis by (auto simp: upsert_cursor_Inr(5))
  qed
  from cases rows show "spool_contains (ne_event_id e) sp'" by (auto simp: spool_contains_def new_spool_row_def)
  show "spool_inv c sp'" if inv: "spool_inv c sp" and ok: "event_contract_ok e"
  proof -
    have "spool_inv c ?sp1" if "\<not> spool_contains (ne_event_id e) sp" "int (length (sp_events sp)) < sp_max_events sp"
      using inv ok that by (auto simp: spool_inv_def spool_contains_def new_spool_row_def spool_row_ok_def)
    with cases inv show ?thesis by (auto dest: upsert_cursor_Inr(6))
  qed
qed

text \<open>Deleting rows, and rewriting columns other than identifier and payload, keeps the invariant.\<close>

lemma spool_inv_filter: "spool_inv c sp \<Longrightarrow> spool_inv c (sp\<lparr>sp_events := filter P (sp_events sp)\<rparr>)"
  by (auto simp: spool_inv_def distinct_map_filter intro: order_trans [OF of_nat_mono [OF length_filter_le]])

lemma spool_inv_update:
  assumes "spool_inv c sp" "\<And>r. sr_event_id (f r) = sr_event_id r" "\<And>r. sr_payload (f r) = sr_payload r"
  shows "spool_inv c (sp\<lparr>sp_events := update_where P f (sp_events sp)\<rparr>)"
  using assms by (auto simp: spool_inv_def map_update_where set_update_where spool_row_ok_def)

lemma spool_contains_update:
  "(\<And>r. sr_event_id (f r) = sr_event_id r) \<Longrightarrow>
    spool_contains eid (sp\<lparr>sp_events := update_where P f (sp_events sp)\<rparr>) \<longleftrightarrow> spool_contains eid sp"
  by (simp add: spool_contains_def map_update_where flip: set_map)

lemma acknowledge_facts:
  "spool_inv c sp \<Longrightarrow> spool_inv c (acknowledge ids sp)"
  "spool_contains eid (acknowledge ids sp) \<longleftrightarrow> spool_contains eid sp \<and> eid \<notin> set ids"
  by (auto simp: acknowledge_def spool_inv_filter spool_contains_def)

lemma defer_facts:
  "spool_inv c sp \<Longrightarrow> spool_inv c (defer_events ids delay code now sp)"
  "spool_contains eid (defer_events ids delay code now sp) \<longleftrightarrow> spool_contains eid sp"
  by (simp_all add: defer_events_def spool_inv_update spool_contains_update)

lemma quarantine_facts:
  assumes "quarantine k st code sp = Inr sp'"
  shows "spool_inv c sp \<Longrightarrow> spool_inv c sp'" "spool_contains eid sp' \<longleftrightarrow> spool_contains eid sp"
  using assms by (auto simp: quarantine_def bind_r_eq_Inr spool_inv_update spool_contains_update)

lemma spool_requeue_facts:
  "spool_inv c sp \<Longrightarrow> spool_inv c (fst (spool_requeue k sp))"
  "spool_contains eid (fst (spool_requeue k sp)) \<longleftrightarrow> spool_contains eid sp"
  by (simp_all add: spool_requeue_def spool_inv_update spool_contains_update)

lemma spool_delete_facts:
  "spool_inv c sp \<Longrightarrow> spool_inv c (fst (spool_delete k sp))"
  "spool_contains eid (fst (spool_delete k sp)) \<longleftrightarrow> spool_contains eid sp \<and> eid \<noteq> k"
  by (auto simp: spool_delete_def spool_inv_filter spool_contains_def)

lemma record_diagnostic_Inr:
  assumes "record_diagnostic code now sp = Inr sp'"
  shows "spool_inv c sp \<Longrightarrow> spool_inv c sp'" "sp_events sp' = sp_events sp" "sp_cursors sp' = sp_cursors sp"
  using assms by (auto simp: record_diagnostic_def Let_def bind_r_eq_Inr spool_inv_def map_update_where)

lemma clear_cursor_facts:
  "spool_inv c sp \<Longrightarrow> spool_inv c (clear_cursor source sp)" "sp_events (clear_cursor source sp) = sp_events sp"
  "spool_cursor source (clear_cursor source sp) = None"
proof -
  show "spool_cursor source (clear_cursor source sp) = None"
    using find_row_None_iff [of cu_source_name source "filter (\<lambda>r. cu_source_name r \<noteq> source) (sp_cursors sp)"]
    by (auto simp: spool_cursor_def clear_cursor_def)
qed (auto simp: clear_cursor_def spool_inv_def distinct_map_filter)

section \<open>The next batch\<close>

lemma parse_rows_ok:
  assumes "codec_ok c" "\<forall>r \<in> set rs. spool_row_ok c r"
  obtains qs where "parse_rows c rs = Inr qs" "map queued_id qs = map sr_event_id rs"
    "\<forall>q \<in> set qs. event_contract_ok (qe_event q)" "map qe_attempts qs = map sr_attempts rs"
proof -
  have "\<exists>qs. parse_rows c rs = Inr qs \<and> map queued_id qs = map sr_event_id rs
      \<and> (\<forall>q \<in> set qs. event_contract_ok (qe_event q)) \<and> map qe_attempts qs = map sr_attempts rs"
    using assms(2)
  proof (induction rs)
    case (Cons r rs)
    then obtain qs where qs: "parse_rows c rs = Inr qs" "map queued_id qs = map sr_event_id rs"
      "\<forall>q \<in> set qs. event_contract_ok (qe_event q)" "map qe_attempts qs = map sr_attempts rs" by auto
    from Cons.prems obtain e where e: "event_contract_ok e" "ne_event_id e = sr_event_id r" "sr_payload r = ec_dump c e"
      by (auto simp: spool_row_ok_def)
    with assms(1) have "ec_parse c (sr_payload r) = Some e" by (simp add: codec_ok_def)
    with qs e show ?case by simp
  qed simp
  then show ?thesis using that by blast
qed

lemma due_rows_props:
  "set (due_rows now sp) \<subseteq> set (sp_events sp)"
  "distinct (map sr_event_id (sp_events sp)) \<Longrightarrow> distinct (map sr_event_id (due_rows now sp))"
proof -
  show "set (due_rows now sp) \<subseteq> set (sp_events sp)" by (auto simp: due_rows_def)
  assume "distinct (map sr_event_id (sp_events sp))"
  then have "distinct (map sr_event_id (filter (\<lambda>r. sr_status r = Spool_Pending \<and> sr_next_attempt_at r \<le> now) (sp_events sp)))"
    by (rule distinct_map_filter)
  moreover have "mset (map sr_event_id (due_rows now sp))
      = mset (map sr_event_id (filter (\<lambda>r. sr_status r = Spool_Pending \<and> sr_next_attempt_at r \<le> now) (sp_events sp)))"
    by (simp add: due_rows_def)
  ultimately show "distinct (map sr_event_id (due_rows now sp))" by (metis mset_eq_imp_distinct_iff)
qed

lemma ready_batch_ok:
  assumes "codec_ok c" "spool_inv c sp" "1 \<le> limit" "limit \<le> 100"
  obtains qs where "ready_batch c limit now sp = Inr qs"
    "map queued_id qs = map sr_event_id (take (nat limit) (due_rows now sp))"
    "distinct (map queued_id qs)" "\<forall>q \<in> set qs. event_contract_ok (qe_event q)"
    "length qs \<le> nat limit" "\<forall>q \<in> set qs. spool_contains (queued_id q) sp"
    "map qe_attempts qs = map sr_attempts (take (nat limit) (due_rows now sp))"
proof -
  let ?rs = "take (nat limit) (due_rows now sp)"
  have sub: "set ?rs \<subseteq> set (sp_events sp)" using due_rows_props(1) by (rule order_trans [OF set_take_subset])
  with assms(2) have ok: "\<forall>r \<in> set ?rs. spool_row_ok c r" by (auto simp: spool_inv_def)
  obtain qs where qs: "parse_rows c ?rs = Inr qs" "map queued_id qs = map sr_event_id ?rs"
    "\<forall>q \<in> set qs. event_contract_ok (qe_event q)" "map qe_attempts qs = map sr_attempts ?rs"
    by (rule parse_rows_ok [OF assms(1) ok])
  have "distinct (map sr_event_id (due_rows now sp))"
    using assms(2) by (intro due_rows_props) (simp add: spool_inv_def)
  then have "distinct (map sr_event_id ?rs)" by (simp add: distinct_take flip: take_map)
  moreover have "length qs \<le> nat limit" using arg_cong [OF qs(2), of length] by simp
  moreover have "spool_contains (queued_id q) sp" if "q \<in> set qs" for q
  proof -
    have "queued_id q \<in> set (map queued_id qs)" using that by auto
    also have "\<dots> = sr_event_id ` set ?rs" by (simp only: qs(2) set_map)
    finally show ?thesis using sub by (auto simp: spool_contains_def)
  qed
  ultimately show ?thesis using that [of qs] qs assms(3,4) by (simp add: ready_batch_def)
qed

section \<open>A codec that reads back what it wrote\<close>

instance event_source :: countable by countable_datatype
instance json :: countable by countable_datatype

definition event_fields where
  "event_fields e = (ne_event_id e, ne_occurred_at e, ne_collected_at e, ne_source e, ne_event_type e, ne_actor e,
     ne_source_ip e, ne_summary e, ne_attributes e)"

definition event_of_fields where
  "event_of_fields = (\<lambda>(eid, occ, col, src, ty, act, ip, summ, attrs). \<lparr>ne_event_id = eid, ne_occurred_at = occ,
     ne_collected_at = col, ne_source = src, ne_event_type = ty, ne_actor = act, ne_source_ip = ip, ne_summary = summ,
     ne_attributes = attrs\<rparr>)"

definition sample_event_codec :: event_codec where
  "sample_event_codec = \<lparr>ec_dump = (\<lambda>e. show_nat (to_nat (event_fields e))),
     ec_parse = (\<lambda>s. Some (event_of_fields (from_nat (read_dec s))))\<rparr>"

lemma sample_codec_ok: "codec_ok sample_event_codec"
  by (simp add: codec_ok_def sample_event_codec_def event_fields_def event_of_fields_def)

end
