(* ===== verification/Agent_Delivery.thy ===== *)
theory Agent_Delivery
  imports Agent_Spool "HOL-Library.Log_Nat"
begin

text \<open>
  \<open>woland_guard_agent/transport.py\<close> and \<open>delivery.py\<close>: sending a batch, classifying the answer, and the
  policy that settles the batch in the queue. The HTTP client is an argument that maps a batch to a reply;
  \<open>float()\<close> and \<open>parsedate_to_datetime\<close> on a header value are arguments, and so is the jitter.
\<close>

section \<open>Transport\<close>

datatype delivery_class =
    Class_Success
  | Class_Authentication
  | Class_Forbidden
  | Class_Payload_Too_Large
  | Class_Unprocessable
  | Class_Rate_Limited
  | Class_Server_Error
  | Class_Network_Error
  | Class_Protocol_Error

fun class_value :: "delivery_class \<Rightarrow> string" where
  "class_value Class_Success = ''success''"
| "class_value Class_Authentication = ''authentication''"
| "class_value Class_Forbidden = ''forbidden''"
| "class_value Class_Payload_Too_Large = ''payload_too_large''"
| "class_value Class_Unprocessable = ''unprocessable''"
| "class_value Class_Rate_Limited = ''rate_limited''"
| "class_value Class_Server_Error = ''server_error''"
| "class_value Class_Network_Error = ''network_error''"
| "class_value Class_Protocol_Error = ''protocol_error''"

record transport_result =
  tr_classification :: delivery_class
  tr_accepted :: int
  tr_existing :: int
  tr_retry_after_seconds :: "rat option"

text \<open>
  What the client returns: no reply (\<open>httpx.HTTPError\<close>), or a status, the \<open>Retry-After\<close> header and the
  body as JSON, if it is JSON.
\<close>

datatype http_reply = No_Reply | Reply nat "string option" "json option"

record header_parsers =
  hp_float :: "string \<Rightarrow> rat option"
  hp_date :: "string \<Rightarrow> time option"

definition plain_result :: "delivery_class \<Rightarrow> transport_result" where
  "plain_result cl = \<lparr>tr_classification = cl, tr_accepted = 0, tr_existing = 0, tr_retry_after_seconds = None\<rparr>"

definition successful_result :: "json option \<Rightarrow> int \<Rightarrow> transport_result" where
  "successful_result body expected =
     (case body of
        Some (JObj kvs) \<Rightarrow>
          (case (obj_get kvs ''accepted'', obj_get kvs ''existing'') of
             (Some (JInt accepted), Some (JInt existing)) \<Rightarrow>
               if accepted < 0 \<or> existing < 0 \<or> accepted + existing \<noteq> expected then plain_result Class_Protocol_Error
               else \<lparr>tr_classification = Class_Success, tr_accepted = accepted, tr_existing = existing,
                 tr_retry_after_seconds = None\<rparr>
           | _ \<Rightarrow> plain_result Class_Protocol_Error)
      | _ \<Rightarrow> plain_result Class_Protocol_Error)"

definition retry_after_seconds :: "header_parsers \<Rightarrow> time \<Rightarrow> string option \<Rightarrow> rat option" where
  "retry_after_seconds hp now header =
     (case header of
        None \<Rightarrow> None
      | Some v \<Rightarrow>
        map_option (\<lambda>n. max 0 (min n 3600))
          (case hp_float hp v of
             Some n \<Rightarrow> Some n
           | None \<Rightarrow> map_option (\<lambda>target. of_int (target - now) / 1000000) (hp_date hp v)))"

definition classify_reply :: "header_parsers \<Rightarrow> time \<Rightarrow> http_reply \<Rightarrow> int \<Rightarrow> transport_result" where
  "classify_reply hp now reply expected =
     (case reply of
        No_Reply \<Rightarrow> plain_result Class_Network_Error
      | Reply status header body \<Rightarrow>
        if status = 200 then successful_result body expected
        else if status = 401 then plain_result Class_Authentication
        else if status = 403 then plain_result Class_Forbidden
        else if status = 413 then plain_result Class_Payload_Too_Large
        else if status = 422 then plain_result Class_Unprocessable
        else if status = 429 then (plain_result Class_Rate_Limited)\<lparr>tr_retry_after_seconds := retry_after_seconds hp now header\<rparr>
        else if 500 \<le> status \<and> status \<le> 599 then plain_result Class_Server_Error
        else plain_result Class_Protocol_Error)"

definition make_batch :: "uuid \<Rightarrow> time \<Rightarrow> normalized_event list \<Rightarrow> event_batch" where
  "make_batch batch_id sent_at es = \<lparr>eb_batch_id = batch_id, eb_sent_at = sent_at, eb_events = es\<rparr>"

definition transport_send ::
  "header_parsers \<Rightarrow> (event_batch \<Rightarrow> http_reply) \<Rightarrow> uuid \<Rightarrow> time \<Rightarrow> time \<Rightarrow> normalized_event list \<Rightarrow> transport_result result" where
  "transport_send hp post batch_id sent_at now es =
     bind_r (guard_r (1 \<le> length es \<and> length es \<le> 100)
       (ValueError ''transport batch must contain between 1 and 100 events'')) (\<lambda>_.
     bind_r (guard_r (batch_contract_ok (make_batch batch_id sent_at es)) (ValueError ''event batch is invalid'')) (\<lambda>_.
     Inr (classify_reply hp now (post (make_batch batch_id sent_at es)) (int (length es)))))"

section \<open>Delivery policy\<close>

datatype delivery_action = Action_Idle | Action_Delivered | Action_Deferred | Action_Quarantined

record delivery_outcome =
  do_action :: delivery_action
  do_event_count :: nat
  do_accepted :: int
  do_existing :: int
  do_retry_after_seconds :: "rat option"

record delivery_manager =
  dm_configured_batch_size :: int
  dm_current_batch_size :: int
  dm_backoff_base :: rat
  dm_backoff_maximum :: rat
  dm_authentication_retry_seconds :: rat

definition make_manager :: "int \<Rightarrow> rat \<Rightarrow> rat \<Rightarrow> rat \<Rightarrow> delivery_manager" where
  "make_manager n base most auth_retry = \<lparr>dm_configured_batch_size = n, dm_current_batch_size = n,
     dm_backoff_base = base, dm_backoff_maximum = most, dm_authentication_retry_seconds = auth_retry\<rparr>"

definition agent_backoff_delay :: "delivery_manager \<Rightarrow> rat \<Rightarrow> nat \<Rightarrow> rat" where
  "agent_backoff_delay m jitter attempt =
     (let cap = min (dm_backoff_maximum m) (dm_backoff_base m * 2 ^ min attempt 30) in cap / 2 + jitter * cap / 2)"

definition outcome_of :: "delivery_action \<Rightarrow> nat \<Rightarrow> delivery_outcome" where
  "outcome_of a n = \<lparr>do_action = a, do_event_count = n, do_accepted = 0, do_existing = 0, do_retry_after_seconds = None\<rparr>"

definition defer_batch ::
  "uuid list \<Rightarrow> transport_result \<Rightarrow> rat \<Rightarrow> rat \<Rightarrow> delivery_manager \<times> spool
    \<Rightarrow> (delivery_manager \<times> spool) \<times> delivery_outcome" where
  "defer_batch ids res delay now = (\<lambda>(m, sp).
     ((m, defer_events ids delay (class_value (tr_classification res)) now sp),
      (outcome_of Action_Deferred (length ids))\<lparr>do_retry_after_seconds := Some delay\<rparr>))"

definition handle_splittable_failure ::
  "uuid list \<Rightarrow> transport_result \<Rightarrow> spool_status \<Rightarrow> rat \<Rightarrow> delivery_manager \<times> spool
    \<Rightarrow> ((delivery_manager \<times> spool) \<times> delivery_outcome) result" where
  "handle_splittable_failure ids res terminal now = (\<lambda>(m, sp).
     if 1 < length ids
     then Inr (defer_batch ids res 0 now (m\<lparr>dm_current_batch_size := max 1 (int (length ids) div 2)\<rparr>, sp))
     else bind_r (quarantine (hd ids) terminal (class_value (tr_classification res)) sp) (\<lambda>sp'.
       Inr ((m, sp'), outcome_of Action_Quarantined 1)))"

text \<open>The part of \<open>deliver_once\<close> after the transport has answered.\<close>

definition settle_batch ::
  "queued_event list \<Rightarrow> transport_result \<Rightarrow> rat \<Rightarrow> rat \<Rightarrow> delivery_manager \<times> spool
    \<Rightarrow> ((delivery_manager \<times> spool) \<times> delivery_outcome) result" where
  "settle_batch queued res jitter now = (\<lambda>(m, sp).
     let ids = map queued_id queued; backoff = agent_backoff_delay m jitter (Max (set (map qe_attempts queued))) in
     (case tr_classification res of
        Class_Success \<Rightarrow> Inr ((m\<lparr>dm_current_batch_size := dm_configured_batch_size m\<rparr>, acknowledge ids sp),
          (outcome_of Action_Delivered (length ids))\<lparr>do_accepted := tr_accepted res, do_existing := tr_existing res\<rparr>)
      | Class_Authentication \<Rightarrow> Inr (defer_batch ids res (dm_authentication_retry_seconds m) now (m, sp))
      | Class_Forbidden \<Rightarrow> Inr (defer_batch ids res (dm_authentication_retry_seconds m) now (m, sp))
      | Class_Payload_Too_Large \<Rightarrow> handle_splittable_failure ids res Spool_Oversized now (m, sp)
      | Class_Unprocessable \<Rightarrow> handle_splittable_failure ids res Spool_Quarantined now (m, sp)
      | Class_Rate_Limited \<Rightarrow> Inr (defer_batch ids res
          (case tr_retry_after_seconds res of None \<Rightarrow> backoff | Some delay \<Rightarrow> delay) now (m, sp))
      | _ \<Rightarrow> Inr (defer_batch ids res backoff now (m, sp))))"

definition deliver_once ::
  "event_codec \<Rightarrow> (normalized_event list \<Rightarrow> transport_result result) \<Rightarrow> rat \<Rightarrow> rat \<Rightarrow> rat \<Rightarrow> delivery_manager \<times> spool
    \<Rightarrow> ((delivery_manager \<times> spool) \<times> delivery_outcome) result" where
  "deliver_once c send jitter now now' = (\<lambda>(m, sp).
     bind_r (ready_batch c (dm_current_batch_size m) now sp) (\<lambda>queued.
     if queued = [] then Inr ((m, sp), outcome_of Action_Idle 0)
     else bind_r (send (map qe_event queued)) (\<lambda>res. settle_batch queued res jitter now' (m, sp))))"

section \<open>What a settlement does to the queue\<close>

text \<open>The server's word for having stored a whole batch of \<open>n\<close> events.\<close>

definition confirms :: "http_reply \<Rightarrow> nat \<Rightarrow> bool" where
  "confirms reply n \<longleftrightarrow> (\<exists>header kvs a x. reply = Reply 200 header (Some (JObj kvs))
     \<and> obj_get kvs ''accepted'' = Some (JInt a) \<and> obj_get kvs ''existing'' = Some (JInt x)
     \<and> 0 \<le> a \<and> 0 \<le> x \<and> a + x = int n)"

lemma successful_result_Success:
  "tr_classification (successful_result body n) = Class_Success \<longleftrightarrow>
    (\<exists>kvs a x. body = Some (JObj kvs) \<and> obj_get kvs ''accepted'' = Some (JInt a)
       \<and> obj_get kvs ''existing'' = Some (JInt x) \<and> 0 \<le> a \<and> 0 \<le> x \<and> a + x = n)"
  by (auto simp: successful_result_def plain_result_def split: option.splits json.splits)

lemma classify_reply_Success:
  "tr_classification (classify_reply hp now reply (int n)) = Class_Success \<longleftrightarrow> confirms reply n"
  by (cases reply) (auto simp: classify_reply_def confirms_def successful_result_Success plain_result_def)

definition manager_ok :: "delivery_manager \<Rightarrow> bool" where
  "manager_ok m \<longleftrightarrow> 1 \<le> dm_current_batch_size m \<and> dm_current_batch_size m \<le> dm_configured_batch_size m
     \<and> dm_configured_batch_size m \<le> 100"

lemma defer_batch_facts:
  "defer_batch ids res delay now (m, sp) = ((m', sp'), out) \<Longrightarrow>
    m' = m \<and> (spool_inv c sp \<longrightarrow> spool_inv c sp') \<and> (\<forall>eid. spool_contains eid sp' \<longleftrightarrow> spool_contains eid sp)"
  by (auto simp: defer_batch_def defer_facts)

lemma split_failure_facts:
  assumes "terminal \<noteq> Spool_Pending" "int (length ids) \<le> dm_current_batch_size m" "manager_ok m"
  obtains m' sp' out where "handle_splittable_failure ids res terminal now (m, sp) = Inr ((m', sp'), out)" "manager_ok m'"
    "dm_configured_batch_size m' = dm_configured_batch_size m" "spool_inv c sp \<longrightarrow> spool_inv c sp'"
    "\<forall>eid. spool_contains eid sp' \<longleftrightarrow> spool_contains eid sp"
proof (cases "1 < length ids")
  case True
  let ?m = "m\<lparr>dm_current_batch_size := max 1 (int (length ids) div 2)\<rparr>"
  obtain m' sp' out where run: "defer_batch ids res 0 now (?m, sp) = ((m', sp'), out)" by (metis surj_pair)
  have "manager_ok ?m" using assms(2,3) by (auto simp: manager_ok_def)
  with run True defer_batch_facts [OF run] that show ?thesis by (simp add: handle_splittable_failure_def)
next
  case False
  then obtain sp' where q: "quarantine (hd ids) terminal (class_value (tr_classification res)) sp = Inr sp'"
    using assms(1) by (simp add: quarantine_def)
  from quarantine_facts [OF q] have "spool_inv c sp \<longrightarrow> spool_inv c sp'"
    "\<forall>eid. spool_contains eid sp' \<longleftrightarrow> spool_contains eid sp" by blast+
  with q False assms(3) that show ?thesis by (simp add: handle_splittable_failure_def)
qed

lemma settle_batch_facts:
  assumes "int (length queued) \<le> dm_current_batch_size m" "manager_ok m"
  obtains m' sp' out where "settle_batch queued res jitter now (m, sp) = Inr ((m', sp'), out)" "manager_ok m'"
    "dm_configured_batch_size m' = dm_configured_batch_size m" "spool_inv c sp \<longrightarrow> spool_inv c sp'"
    "\<forall>eid. spool_contains eid sp' \<longleftrightarrow> spool_contains eid sp
       \<and> \<not> (tr_classification res = Class_Success \<and> eid \<in> queued_id ` set queued)"
proof -
  let ?ids = "map queued_id queued" let ?backoff = "agent_backoff_delay m jitter (Max (set (map qe_attempts queued)))"
  have len: "int (length ?ids) \<le> dm_current_batch_size m" using assms(1) by simp
  consider (ok) "tr_classification res = Class_Success"
    | (split) terminal where "terminal \<noteq> Spool_Pending" "tr_classification res \<noteq> Class_Success"
      "settle_batch queued res jitter now (m, sp) = handle_splittable_failure ?ids res terminal now (m, sp)"
    | (later) delay where "tr_classification res \<noteq> Class_Success"
      "settle_batch queued res jitter now (m, sp) = Inr (defer_batch ?ids res delay now (m, sp))"
    by (cases "tr_classification res") (auto simp: settle_batch_def Let_def)
  then show ?thesis
  proof cases
    case ok
    with assms(2) show ?thesis
      by (intro that [of "m\<lparr>dm_current_batch_size := dm_configured_batch_size m\<rparr>" "acknowledge ?ids sp"])
        (auto simp: settle_batch_def Let_def manager_ok_def acknowledge_facts)
  next
    case split
    obtain m' sp' out where "handle_splittable_failure ?ids res terminal now (m, sp) = Inr ((m', sp'), out)" "manager_ok m'"
      "dm_configured_batch_size m' = dm_configured_batch_size m" "spool_inv c sp \<longrightarrow> spool_inv c sp'"
      "\<forall>eid. spool_contains eid sp' \<longleftrightarrow> spool_contains eid sp"
      by (rule split_failure_facts [OF split(1) len assms(2)])
    with split that show ?thesis by simp
  next
    case later
    obtain m' sp' out where run: "defer_batch ?ids res delay now (m, sp) = ((m', sp'), out)" by (metis surj_pair)
    from later defer_batch_facts [OF run, of c] run assms(2) that show ?thesis by simp
  qed
qed

section \<open>Rounds against a server that refuses some events\<close>

text \<open>A server that answers \<open>cl\<close> to every batch holding an event it refuses, and stores all others.\<close>

definition judging_server :: "(uuid \<Rightarrow> bool) \<Rightarrow> delivery_class \<Rightarrow> normalized_event list \<Rightarrow> transport_result result" where
  "judging_server bad cl es = Inr (if list_ex (\<lambda>e. bad (ne_event_id e)) es then plain_result cl
     else \<lparr>tr_classification = Class_Success, tr_accepted = int (length es), tr_existing = 0, tr_retry_after_seconds = None\<rparr>)"

definition terminal_status :: "delivery_class \<Rightarrow> spool_status" where
  "terminal_status cl = (if cl = Class_Payload_Too_Large then Spool_Oversized else Spool_Quarantined)"

fun deliver_rounds ::
  "event_codec \<Rightarrow> (normalized_event list \<Rightarrow> transport_result result) \<Rightarrow> rat \<Rightarrow> rat list \<Rightarrow> delivery_manager \<times> spool
    \<Rightarrow> (delivery_manager \<times> spool) result" where
  "deliver_rounds c send jitter [] st = Inr st"
| "deliver_rounds c send jitter (t # ts) st =
     bind_r (deliver_once c send jitter t t st) (\<lambda>(st', _). deliver_rounds c send jitter ts st')"

lemma terminal_status_terminal [simp]: "terminal_status cl \<noteq> Spool_Pending"
  by (simp add: terminal_status_def)

text \<open>What the rows will have become when every pending event is settled.\<close>

definition is_pending :: "spool_row \<Rightarrow> bool" where
  "is_pending r \<longleftrightarrow> sr_status r = Spool_Pending"

definition final_view :: "(uuid \<Rightarrow> bool) \<Rightarrow> spool_status \<Rightarrow> spool \<Rightarrow> (uuid \<times> spool_status) list" where
  "final_view bad st sp = map (\<lambda>r. (sr_event_id r, if is_pending r then st else sr_status r))
     (filter (\<lambda>r. is_pending r \<longrightarrow> bad (sr_event_id r)) (sp_events sp))"

definition all_due :: "rat \<Rightarrow> spool \<Rightarrow> bool" where
  "all_due t sp \<longleftrightarrow> (\<forall>r \<in> set (sp_events sp). is_pending r \<longrightarrow> sr_next_attempt_at r \<le> t)"

definition pending_count :: "spool \<Rightarrow> nat" where
  "pending_count sp = length (filter is_pending (sp_events sp))"

definition rounds_left :: "delivery_manager \<times> spool \<Rightarrow> nat" where
  "rounds_left = (\<lambda>(m, sp). if pending_count sp = 0 then 0
     else (pending_count sp - 1) * floorlog 2 (nat (dm_configured_batch_size m)) + floorlog 2 (nat (dm_current_batch_size m)))"

lemma floorlog_half: "2 \<le> n \<Longrightarrow> n \<le> s \<Longrightarrow> floorlog 2 (n div 2) < floorlog 2 s"
  using floorlog_mono [of n s 2] by (simp add: compute_floorlog [of 2 n])

lemma floorlog_pos: "0 < n \<Longrightarrow> 0 < floorlog 2 n"
  by (simp add: compute_floorlog)

lemma rounds_less:
  assumes "manager_ok m" "dm_configured_batch_size m' = dm_configured_batch_size m" "manager_ok m'"
    "pending_count sp' < pending_count sp"
  shows "rounds_left (m', sp') < rounds_left (m, sp)"
proof -
  let ?K = "floorlog 2 (nat (dm_configured_batch_size m))"
  have "floorlog 2 (nat (dm_current_batch_size m')) \<le> ?K"
    using assms(1-3) by (intro floorlog_mono) (auto simp: manager_ok_def)
  moreover have "0 < floorlog 2 (nat (dm_current_batch_size m))"
    using assms(1) by (intro floorlog_pos) (simp add: manager_ok_def)
  moreover obtain p where p: "pending_count sp = Suc p" using assms(4) by (cases "pending_count sp") auto
  moreover have "(pending_count sp' - 1) * ?K + ?K \<le> p * ?K" if "pending_count sp' \<noteq> 0"
  proof -
    have "(pending_count sp' - 1) * ?K + ?K = pending_count sp' * ?K"
      using that by (cases "pending_count sp'") auto
    also have "\<dots> \<le> p * ?K" using assms(4) p by (intro mult_right_mono) auto
    finally show ?thesis .
  qed
  ultimately show ?thesis using assms(2) by (auto simp: rounds_left_def)
qed

lemma acknowledge_pending:
  assumes "spool_inv c sp" "rs \<noteq> []" "set rs \<subseteq> set (sp_events sp)" "\<forall>r \<in> set rs. is_pending r \<and> \<not> bad (sr_event_id r)"
  shows "final_view bad st (acknowledge (map sr_event_id rs) sp) = final_view bad st sp"
    "pending_count (acknowledge (map sr_event_id rs) sp) < pending_count sp"
proof -
  have in_rs: "r \<in> set rs" if "r \<in> set (sp_events sp)" "sr_event_id r \<in> sr_event_id ` set rs" for r
    using that assms(1,3) key_inj_rows [of sr_event_id "sp_events sp"] by (auto simp: spool_inv_def)
  have "filter (\<lambda>r. is_pending r \<longrightarrow> bad (sr_event_id r)) (filter (\<lambda>r. sr_event_id r \<notin> sr_event_id ` set rs) (sp_events sp))
      = filter (\<lambda>r. is_pending r \<longrightarrow> bad (sr_event_id r)) (sp_events sp)"
    unfolding filter_filter using in_rs assms(4) by (intro filter_cong [OF refl]) blast
  then show "final_view bad st (acknowledge (map sr_event_id rs) sp) = final_view bad st sp"
    by (simp add: final_view_def acknowledge_def)
  obtain r where "r \<in> set rs" using assms(2) by (cases rs) auto
  then have "r \<in> set (filter is_pending (sp_events sp))" using assms(3,4) by auto
  then have "length (filter (\<lambda>r. sr_event_id r \<notin> sr_event_id ` set rs) (filter is_pending (sp_events sp)))
      < length (filter is_pending (sp_events sp))"
    by (rule length_filter_less) (use \<open>r \<in> set rs\<close> in simp)
  then show "pending_count (acknowledge (map sr_event_id rs) sp) < pending_count sp"
    by (simp add: pending_count_def acknowledge_def conj_commute)
qed

lemma defer_pending:
  "final_view bad st (defer_events ids delay code t sp) = final_view bad st sp"
  "pending_count (defer_events ids delay code t sp) = pending_count sp"
  "all_due t sp \<Longrightarrow> delay \<le> 0 \<Longrightarrow> all_due t (defer_events ids delay code t sp)"
proof -
  let ?f = "\<lambda>r. r\<lparr>sr_attempts := sr_attempts r + 1, sr_next_attempt_at := t + max 0 delay, sr_last_error := Some code\<rparr>"
  let ?P = "\<lambda>r. sr_event_id r \<in> set ids \<and> sr_status r = Spool_Pending"
  have "map (\<lambda>r. (sr_event_id r, if is_pending r then st else sr_status r))
      (filter (\<lambda>r. is_pending r \<longrightarrow> bad (sr_event_id r)) (update_where ?P ?f rows))
    = map (\<lambda>r. (sr_event_id r, if is_pending r then st else sr_status r))
      (filter (\<lambda>r. is_pending r \<longrightarrow> bad (sr_event_id r)) rows)" for rows
    by (induction rows) (simp_all add: is_pending_def)
  then show "final_view bad st (defer_events ids delay code t sp) = final_view bad st sp"
    by (simp add: final_view_def defer_events_def)
  have "length (filter is_pending (update_where ?P ?f rows)) = length (filter is_pending rows)" for rows
    by (rule filter_update_where_length) (simp add: is_pending_def)
  then show "pending_count (defer_events ids delay code t sp) = pending_count sp"
    by (simp add: pending_count_def defer_events_def)
  show "all_due t (defer_events ids delay code t sp)" if "all_due t sp" "delay \<le> 0"
    using that by (auto simp: all_due_def defer_events_def set_update_where is_pending_def)
qed

lemma quarantine_pending:
  assumes "quarantine k st code sp = Inr sp'" "spool_inv c sp" "r \<in> set (sp_events sp)" "sr_event_id r = k" "is_pending r" "bad k"
  shows "final_view bad st sp' = final_view bad st sp" "pending_count sp' < pending_count sp" "all_due t sp \<Longrightarrow> all_due t sp'"
proof -
  let ?P = "\<lambda>r. sr_event_id r = k \<and> sr_status r = Spool_Pending"
  let ?f = "\<lambda>r. r\<lparr>sr_status := st, sr_attempts := sr_attempts r + 1, sr_last_error := Some code\<rparr>"
  have sp': "sp' = sp\<lparr>sp_events := update_where ?P ?f (sp_events sp)\<rparr>" and st: "st \<noteq> Spool_Pending"
    using assms(1) by (auto simp: quarantine_def bind_r_eq_Inr)
  have "map (\<lambda>r. (sr_event_id r, if is_pending r then st else sr_status r))
      (filter (\<lambda>r. is_pending r \<longrightarrow> bad (sr_event_id r)) (update_where ?P ?f rows))
    = map (\<lambda>r. (sr_event_id r, if is_pending r then st else sr_status r))
      (filter (\<lambda>r. is_pending r \<longrightarrow> bad (sr_event_id r)) rows)" for rows
    using st assms(6) by (induction rows) (auto simp: is_pending_def)
  then show "final_view bad st sp' = final_view bad st sp" by (simp add: final_view_def sp')
  have "length (filter is_pending (update_where ?P ?f rows))
      = length (filter (\<lambda>r. sr_event_id r \<noteq> k) (filter is_pending rows))" for rows
    using st by (induction rows) (auto simp: is_pending_def)
  moreover have "length (filter (\<lambda>r. sr_event_id r \<noteq> k) (filter is_pending (sp_events sp))) < length (filter is_pending (sp_events sp))"
    by (rule length_filter_less [of r]) (use assms in auto)
  ultimately show "pending_count sp' < pending_count sp" by (simp add: pending_count_def sp')
  show "all_due t sp'" if "all_due t sp"
    using that st by (auto simp: all_due_def sp' set_update_where is_pending_def)
qed

lemma pending_due:
  "all_due t sp \<Longrightarrow> due_rows t sp = sort_key sr_enqueued_at (filter is_pending (sp_events sp))"
  by (auto simp: due_rows_def all_due_def is_pending_def intro!: arg_cong [of _ _ "sort_key sr_enqueued_at"] filter_cong)

lemma judged_round:
  assumes "codec_ok c" "spool_inv c sp" "manager_ok m" "all_due t sp" "pending_count sp \<noteq> 0"
    "cl = Class_Payload_Too_Large \<or> cl = Class_Unprocessable"
  obtains m' sp' out where "deliver_once c (judging_server bad cl) jitter t t (m, sp) = Inr ((m', sp'), out)"
    "spool_inv c sp'" "manager_ok m'" "dm_configured_batch_size m' = dm_configured_batch_size m" "all_due t sp'"
    "final_view bad (terminal_status cl) sp' = final_view bad (terminal_status cl) sp"
    "rounds_left (m', sp') < rounds_left (m, sp)"
proof -
  let ?rs = "take (nat (dm_current_batch_size m)) (due_rows t sp)" let ?st = "terminal_status cl"
  have size: "1 \<le> dm_current_batch_size m" "dm_current_batch_size m \<le> 100" using assms(3) by (auto simp: manager_ok_def)
  obtain qs where qs: "ready_batch c (dm_current_batch_size m) t sp = Inr qs" "map queued_id qs = map sr_event_id ?rs"
    by (rule ready_batch_ok [OF assms(1,2) size])
  have "filter is_pending (sp_events sp) \<noteq> []" using assms(5) by (auto simp: pending_count_def)
  then have "due_rows t sp \<noteq> []" by (metis pending_due [OF assms(4)] length_0_conv length_sort)
  with size have rs: "?rs \<noteq> []" by simp
  with qs(2) have "qs \<noteq> []" by auto
  have sub: "set ?rs \<subseteq> {r \<in> set (sp_events sp). is_pending r}"
    using set_take_subset [of "nat (dm_current_batch_size m)" "due_rows t sp"] by (auto simp: pending_due [OF assms(4)])
  have bad: "list_ex (\<lambda>e. bad (ne_event_id e)) (map qe_event qs) \<longleftrightarrow> (\<exists>r \<in> set ?rs. bad (sr_event_id r))"
  proof -
    have "list_ex (\<lambda>e. bad (ne_event_id e)) (map qe_event qs) \<longleftrightarrow> (\<exists>i \<in> set (map queued_id qs). bad i)"
      by (auto simp: list_ex_iff queued_id_def)
    then show ?thesis by (simp add: qs(2))
  qed
  have len: "length qs = length ?rs" using arg_cong [OF qs(2), of length] by simp
  let ?res = "if \<exists>r \<in> set ?rs. bad (sr_event_id r) then plain_result cl
     else \<lparr>tr_classification = Class_Success, tr_accepted = int (length (map qe_event qs)), tr_existing = 0, tr_retry_after_seconds = None\<rparr>"
  have run: "deliver_once c (judging_server bad cl) jitter t t (m, sp) = settle_batch qs ?res jitter t (m, sp)"
    using qs(1) \<open>qs \<noteq> []\<close> bad by (simp add: deliver_once_def judging_server_def)
  show ?thesis
  proof (cases "\<exists>r \<in> set ?rs. bad (sr_event_id r)")
    case False
    let ?m = "m\<lparr>dm_current_batch_size := dm_configured_batch_size m\<rparr>" let ?sp = "acknowledge (map sr_event_id ?rs) sp"
    have ack: "final_view bad ?st ?sp = final_view bad ?st sp" "pending_count ?sp < pending_count sp"
      using acknowledge_pending [OF assms(2) rs, of bad] sub False by blast+
    have m: "manager_ok ?m" "dm_configured_batch_size ?m = dm_configured_batch_size m" using assms(3) by (auto simp: manager_ok_def)
    have due: "all_due t ?sp" using assms(4) by (auto simp: all_due_def acknowledge_def)
    from run False qs(2) obtain out where "deliver_once c (judging_server bad cl) jitter t t (m, sp) = Inr ((?m, ?sp), out)"
      by (auto simp: settle_batch_def Let_def)
    then show ?thesis
      by (rule that) (use ack m due rounds_less [OF assms(3) m(2,1) ack(2)] acknowledge_facts(1) [OF assms(2)] in simp_all)
  next
    case True
    then have split: "settle_batch qs ?res jitter t (m, sp) = handle_splittable_failure (map queued_id qs) (plain_result cl) ?st t (m, sp)"
      using assms(6) by (auto simp: settle_batch_def Let_def plain_result_def terminal_status_def)
    show ?thesis
    proof (cases "1 < length qs")
      case True
      let ?m = "m\<lparr>dm_current_batch_size := max 1 (int (length qs) div 2)\<rparr>"
      let ?sp = "defer_events (map queued_id qs) 0 (class_value cl) t sp"
      have le: "length qs \<le> nat (dm_current_batch_size m)" by (simp add: len)
      have m: "manager_ok ?m" using assms(3) le by (auto simp: manager_ok_def)
      have "rounds_left (?m, ?sp) < rounds_left (m, sp)"
        using floorlog_half [of "length qs" "nat (dm_current_batch_size m)"] True le assms(5)
        by (simp add: rounds_left_def defer_pending(2) nat_div_distrib)
      moreover from run split True obtain out where
        "deliver_once c (judging_server bad cl) jitter t t (m, sp) = Inr ((?m, ?sp), out)"
        by (auto simp: handle_splittable_failure_def defer_batch_def plain_result_def)
      ultimately show ?thesis
        using that [of ?m ?sp out] m defer_pending(1,3) assms(4) defer_facts(1) [OF assms(2)] by simp
    next
      case False
      with \<open>qs \<noteq> []\<close> obtain q where q: "qs = [q]" by (cases qs; cases "tl qs") auto
      with len obtain r where r: "?rs = [r]" by (cases ?rs) auto
      from qs(2) have id: "queued_id q = sr_event_id r" by (simp add: q r)
      have rp: "r \<in> set (sp_events sp)" "is_pending r" "bad (sr_event_id r)" using sub \<open>\<exists>r \<in> set ?rs. bad (sr_event_id r)\<close> by (auto simp: r)
      obtain sp' where sp': "quarantine (sr_event_id r) ?st (class_value cl) sp = Inr sp'"
        by (simp add: quarantine_def)
      note qf = quarantine_pending [where bad = bad, OF sp' assms(2) rp(1) refl rp(2,3)]
      from run split q id sp' obtain out where "deliver_once c (judging_server bad cl) jitter t t (m, sp) = Inr ((m, sp'), out)"
        by (auto simp: handle_splittable_failure_def plain_result_def)
      then show ?thesis
        by (rule that) (use qf assms(3,4) rounds_less [OF assms(3) refl assms(3) qf(2)] quarantine_facts(1) [OF sp' assms(2)] in simp_all)
    qed
  qed
qed

lemma no_pending_view:
  "pending_count sp = 0 \<Longrightarrow> final_view bad st sp = map (\<lambda>r. (sr_event_id r, sr_status r)) (sp_events sp)"
proof -
  assume "pending_count sp = 0"
  then have "\<forall>r \<in> set (sp_events sp). \<not> is_pending r" by (auto simp: pending_count_def filter_empty_conv)
  then have "filter (\<lambda>r. is_pending r \<longrightarrow> bad (sr_event_id r)) (sp_events sp) = sp_events sp" by (simp add: filter_id_conv)
  with \<open>\<forall>r \<in> set (sp_events sp). \<not> is_pending r\<close> show ?thesis by (simp add: final_view_def)
qed

lemma all_due_mono: "all_due t sp \<Longrightarrow> t \<le> t' \<Longrightarrow> all_due t' sp"
  by (auto simp: all_due_def)

lemma idle_round:
  assumes "codec_ok c" "spool_inv c sp" "manager_ok m" "pending_count sp = 0"
  shows "deliver_once c send jitter t t (m, sp) = Inr ((m, sp), outcome_of Action_Idle 0)"
proof -
  have size: "1 \<le> dm_current_batch_size m" "dm_current_batch_size m \<le> 100" using assms(3) by (auto simp: manager_ok_def)
  have "filter (\<lambda>r. sr_status r = Spool_Pending \<and> sr_next_attempt_at r \<le> t) (sp_events sp) = []"
    using assms(4) by (auto simp: pending_count_def filter_empty_conv is_pending_def)
  then have "due_rows t sp = []" by (simp add: due_rows_def)
  with size show ?thesis by (simp add: deliver_once_def ready_batch_def)
qed

lemma judged_rounds:
  assumes "codec_ok c" "cl = Class_Payload_Too_Large \<or> cl = Class_Unprocessable"
  shows "spool_inv c sp \<Longrightarrow> manager_ok m \<Longrightarrow> sorted ts \<Longrightarrow> (\<forall>t \<in> set ts. all_due t sp) \<Longrightarrow> rounds_left (m, sp) \<le> length ts \<Longrightarrow>
    \<exists>m' sp'. deliver_rounds c (judging_server bad cl) jitter ts (m, sp) = Inr (m', sp') \<and> pending_count sp' = 0 \<and> spool_inv c sp'
      \<and> final_view bad (terminal_status cl) sp' = final_view bad (terminal_status cl) sp"
proof (induction ts arbitrary: m sp)
  case Nil
  have "pending_count sp = 0"
  proof (rule ccontr)
    assume "pending_count sp \<noteq> 0"
    moreover have "0 < floorlog 2 (nat (dm_current_batch_size m))"
      using Nil(2) by (intro floorlog_pos) (simp add: manager_ok_def)
    ultimately show False using Nil(5) by (simp add: rounds_left_def)
  qed
  with Nil show ?case by simp
next
  case (Cons t ts)
  show ?case
  proof (cases "pending_count sp = 0")
    case True
    then have "rounds_left (m, sp) = 0" by (simp add: rounds_left_def)
    with Cons True show ?thesis by (simp add: idle_round [OF assms(1)])
  next
    case False
    have due: "all_due t sp" using Cons.prems(4) by simp
    obtain m' sp' out where round: "deliver_once c (judging_server bad cl) jitter t t (m, sp) = Inr ((m', sp'), out)"
      "spool_inv c sp'" "manager_ok m'" "dm_configured_batch_size m' = dm_configured_batch_size m" "all_due t sp'"
      "final_view bad (terminal_status cl) sp' = final_view bad (terminal_status cl) sp"
      "rounds_left (m', sp') < rounds_left (m, sp)"
      by (rule judged_round [OF assms(1) Cons.prems(1,2) due False assms(2)])
    have "\<forall>u \<in> set ts. all_due u sp'" using Cons.prems(3) round(5) by (auto intro: all_due_mono)
    moreover have "sorted ts" "rounds_left (m', sp') \<le> length ts" using Cons.prems(3,5) round(7) by auto
    ultimately show ?thesis using Cons.IH [OF round(2,3)] round(1,6) by simp
  qed
qed

section \<open>Properties\<close>

text \<open>C35: Delivery never raises and never loses an event. On a consistent queue every attempt ends
  normally, whatever the server or the network does; it keeps the queue consistent and the batch size
  between 1 and the configured one, adds nothing, and removes an event only when it was part of a batch
  that was sent and that the server confirmed as a whole with status 200 and counts that add up.\<close>

theorem delivery_keeps_unconfirmed_events:
  assumes "codec_ok c" "spool_inv c sp" "manager_ok m"
  shows "\<exists>m' sp' out. deliver_once c (transport_send hp post bid sent_at tnow) jitter now now' (m, sp) = Inr ((m', sp'), out)
    \<and> spool_inv c sp' \<and> manager_ok m' \<and> dm_configured_batch_size m' = dm_configured_batch_size m
    \<and> (\<forall>eid. spool_contains eid sp' \<longrightarrow> spool_contains eid sp)
    \<and> (\<forall>eid. spool_contains eid sp \<and> \<not> spool_contains eid sp' \<longrightarrow>
        (\<exists>es. length es \<le> nat (dm_current_batch_size m) \<and> eid \<in> ne_event_id ` set es
          \<and> batch_contract_ok (make_batch bid sent_at es) \<and> confirms (post (make_batch bid sent_at es)) (length es)))"
proof -
  have size: "1 \<le> dm_current_batch_size m" "dm_current_batch_size m \<le> 100" using assms(3) by (auto simp: manager_ok_def)
  obtain qs where qs: "ready_batch c (dm_current_batch_size m) now sp = Inr qs"
    "distinct (map queued_id qs)" "\<forall>q \<in> set qs. event_contract_ok (qe_event q)"
    "length qs \<le> nat (dm_current_batch_size m)"
    by (rule ready_batch_ok [OF assms(1,2) size])
  show ?thesis
  proof (cases "qs = []")
    case True
    with qs(1) assms show ?thesis by (simp add: deliver_once_def)
  next
    case False
    let ?es = "map qe_event qs" let ?b = "make_batch bid sent_at ?es"
    let ?res = "classify_reply hp tnow (post ?b) (int (length ?es))"
    have ids: "map ne_event_id ?es = map queued_id qs" by (simp add: queued_id_def)
    have "length qs \<le> 100" "length qs \<noteq> 0" using qs(4) size False by auto
    have dist: "distinct (map ne_event_id ?es)" using qs(2) by (simp only: ids)
    have ok: "batch_contract_ok ?b"
      using qs(3) dist \<open>length qs \<le> 100\<close> \<open>length qs \<noteq> 0\<close>
      by (simp add: batch_contract_ok_def make_batch_def list_all_iff Suc_le_eq del: map_map)
    with \<open>length qs \<le> 100\<close> \<open>length qs \<noteq> 0\<close>
    have send: "transport_send hp post bid sent_at tnow ?es = Inr ?res" by (simp add: transport_send_def Suc_le_eq)
    have "int (length qs) \<le> dm_current_batch_size m" using qs(4) size by linarith
    from settle_batch_facts [OF this assms(3), of ?res jitter now' sp c] obtain m' sp' out where
      settle: "settle_batch qs ?res jitter now' (m, sp) = Inr ((m', sp'), out)" "manager_ok m'"
        "dm_configured_batch_size m' = dm_configured_batch_size m" "spool_inv c sp \<longrightarrow> spool_inv c sp'"
        "\<forall>eid. spool_contains eid sp' \<longleftrightarrow> spool_contains eid sp
           \<and> \<not> (tr_classification ?res = Class_Success \<and> eid \<in> queued_id ` set qs)" by blast
    have "queued_id ` set qs = ne_event_id ` set ?es" by (simp add: image_image queued_id_def)
    with settle(5) qs(4) ok have "\<forall>eid. spool_contains eid sp \<and> \<not> spool_contains eid sp' \<longrightarrow>
        (\<exists>es. length es \<le> nat (dm_current_batch_size m) \<and> eid \<in> ne_event_id ` set es
          \<and> batch_contract_ok (make_batch bid sent_at es) \<and> confirms (post (make_batch bid sent_at es)) (length es))"
      by (intro allI impI exI [of _ ?es]) (simp add: classify_reply_Success)
    with settle assms(2) send qs(1) False show ?thesis by (simp add: deliver_once_def)
  qed
qed

text \<open>C0: One bad event never blocks the queue. Against a server that refuses every batch holding an event
  of some set and stores all others, a queue whose pending events are due is worked off completely: with
  \<open>p\<close> pending events and a configured batch of \<open>K\<close>, after \<open>p\<close> times (the binary logarithm of \<open>K\<close> plus one)
  attempts nothing is pending, every refused event, and no other, has been set aside under its terminal
  status, every other pending event has been delivered, and the events set aside before are untouched.\<close>

theorem bad_events_are_isolated:
  assumes "codec_ok c" "spool_inv c sp" "manager_ok m" "cl = Class_Payload_Too_Large \<or> cl = Class_Unprocessable"
    "sorted ts" "\<forall>t \<in> set ts. \<forall>r \<in> set (sp_events sp). sr_status r = Spool_Pending \<longrightarrow> sr_next_attempt_at r \<le> t"
    "count_spool_status Spool_Pending sp * floorlog 2 (nat (dm_configured_batch_size m)) \<le> length ts"
  shows "\<exists>m' sp'. deliver_rounds c (judging_server bad cl) jitter ts (m, sp) = Inr (m', sp')
    \<and> map (\<lambda>r. (sr_event_id r, sr_status r)) (sp_events sp')
      = map (\<lambda>r. (sr_event_id r, if sr_status r = Spool_Pending then terminal_status cl else sr_status r))
          (filter (\<lambda>r. sr_status r = Spool_Pending \<longrightarrow> bad (sr_event_id r)) (sp_events sp))"
proof -
  let ?K = "floorlog 2 (nat (dm_configured_batch_size m))"
  have pend: "pending_count sp = count_spool_status Spool_Pending sp" by (simp add: pending_count_def count_spool_status_def is_pending_def [abs_def])
  have cur: "floorlog 2 (nat (dm_current_batch_size m)) \<le> floorlog 2 (nat (dm_configured_batch_size m))"
    using assms(3) by (intro floorlog_mono nat_mono) (simp add: manager_ok_def)
  have "rounds_left (m, sp) \<le> pending_count sp * ?K"
  proof (cases "pending_count sp")
    case (Suc p)
    with cur show ?thesis by (simp add: rounds_left_def)
  qed (simp add: rounds_left_def)
  with assms(7) pend have "rounds_left (m, sp) \<le> length ts" by simp
  moreover have "\<forall>t \<in> set ts. all_due t sp" using assms(6) by (simp add: all_due_def is_pending_def)
  ultimately obtain m' sp' where "deliver_rounds c (judging_server bad cl) jitter ts (m, sp) = Inr (m', sp')"
    "pending_count sp' = 0" "final_view bad (terminal_status cl) sp' = final_view bad (terminal_status cl) sp"
    using judged_rounds [OF assms(1,4,2,3,5), of bad jitter] by blast
  then show ?thesis using no_pending_view [of sp' bad "terminal_status cl"] by (auto simp: final_view_def is_pending_def)
qed

definition sample_agent_event :: "uuid \<Rightarrow> normalized_event" where
  "sample_agent_event n = \<lparr>ne_event_id = n, ne_occurred_at = 0, ne_collected_at = 0, ne_source = Journald,
     ne_event_type = ''linux.ssh.authentication_failed'', ne_actor = None, ne_source_ip = None, ne_summary = None,
     ne_attributes = []\<rparr>"

definition sample_spool :: spool where
  "sample_spool = \<lparr>sp_max_events = 10, sp_events = map (\<lambda>n. new_spool_row sample_event_codec (sample_agent_event n) (of_nat n)) [1, 2, 3],
     sp_cursors = [], sp_diagnostics = []\<rparr>"

lemma sample_agent_event_ok: "event_contract_ok (sample_agent_event n)"
proof -
  have "event_type_ok ''linux.ssh.authentication_failed''" by code_simp
  then show ?thesis by (simp add: event_contract_ok_def sample_agent_event_def text_field_ok_def)
qed

lemma sample_spool_inv: "spool_inv sample_event_codec sample_spool"
proof -
  have "spool_row_ok sample_event_codec (new_spool_row sample_event_codec (sample_agent_event n) t)" for n t
    unfolding spool_row_ok_def
    by (rule exI [of _ "sample_agent_event n"]) (simp add: sample_agent_event_ok new_spool_row_def)
  moreover have "sr_event_id (new_spool_row sample_event_codec (sample_agent_event n) t) = n" for n t
    by (simp add: new_spool_row_def sample_agent_event_def)
  ultimately show ?thesis by (simp add: spool_inv_def sample_spool_def)
qed

theorem delivery_keeps_unconfirmed_events_witness:
  "\<exists>m' sp' out. deliver_once sample_event_codec
      (transport_send \<lparr>hp_float = (\<lambda>_. None), hp_date = (\<lambda>_. None)\<rparr> (\<lambda>_. Reply 500 None None) 9 0 0) 0 5 5
      (make_manager 2 1 60 300, sample_spool) = Inr ((m', sp'), out) \<and> spool_contains 2 sp'"
proof -
  have "manager_ok (make_manager 2 1 60 300)" by (simp add: manager_ok_def make_manager_def)
  from delivery_keeps_unconfirmed_events [OF sample_codec_ok sample_spool_inv this,
      of "\<lparr>hp_float = (\<lambda>_. None), hp_date = (\<lambda>_. None)\<rparr>" "\<lambda>_. Reply 500 None None" 9 0 0 0 5 5]
  obtain m' sp' out where "deliver_once sample_event_codec
      (transport_send \<lparr>hp_float = (\<lambda>_. None), hp_date = (\<lambda>_. None)\<rparr> (\<lambda>_. Reply 500 None None) 9 0 0) 0 5 5
      (make_manager 2 1 60 300, sample_spool) = Inr ((m', sp'), out)"
    "spool_contains 2 sample_spool \<and> \<not> spool_contains 2 sp' \<longrightarrow> False"
    by (auto simp: confirms_def)
  moreover have "spool_contains 2 sample_spool"
    by (simp add: spool_contains_def sample_spool_def new_spool_row_def sample_agent_event_def)
  ultimately show ?thesis by blast
qed

theorem bad_events_are_isolated_witness:
  "\<exists>m' sp'. deliver_rounds sample_event_codec (judging_server (\<lambda>n. n = 2) Class_Unprocessable) 0 [5, 5, 5, 5, 5, 5]
      (make_manager 2 1 60 300, sample_spool) = Inr (m', sp')
    \<and> map (\<lambda>r. (sr_event_id r, sr_status r)) (sp_events sp') = [(2, Spool_Quarantined)]"
proof -
  have m: "manager_ok (make_manager 2 1 60 300)" by (simp add: manager_ok_def make_manager_def)
  have ts: "sorted [5 :: rat, 5, 5, 5, 5, 5]" by simp
  have due: "\<forall>t \<in> set [5 :: rat, 5, 5, 5, 5, 5]. \<forall>r \<in> set (sp_events sample_spool).
      sr_status r = Spool_Pending \<longrightarrow> sr_next_attempt_at r \<le> t"
    by (simp add: sample_spool_def new_spool_row_def)
  have "count_spool_status Spool_Pending sample_spool = 3" by (simp add: count_spool_status_def sample_spool_def new_spool_row_def)
  moreover have "floorlog 2 (nat 2) = 2" by (simp add: compute_floorlog)
  ultimately have n: "count_spool_status Spool_Pending sample_spool * floorlog 2 (nat (dm_configured_batch_size (make_manager 2 1 60 300)))
      \<le> length [5 :: rat, 5, 5, 5, 5, 5]" by (simp add: make_manager_def)
  from bad_events_are_isolated [OF sample_codec_ok sample_spool_inv m _ ts due n, of Class_Unprocessable "\<lambda>n. n = 2" 0]
  show ?thesis by (simp add: sample_spool_def new_spool_row_def sample_agent_event_def terminal_status_def)
qed

end
