(* ===== verification/Agent_Service.thy ===== *)
theory Agent_Service
  imports Agent_Delivery
begin

text \<open>
  \<open>woland_guard_agent/service.py\<close> and the source interface \<open>sources/base.py\<close>: how records of the sources
  become events of the queue. A source is a function from the committed cursor to the records it yields and
  the way the iteration ends; \<open>normalize_record\<close> is an argument, so what is proved holds for every parser.
  Threads interleave whole operations on the queue, each a transaction of its own; one pass of a collector
  is a function here, and the interleavings are the steps of the system theory.
\<close>

section \<open>Sources\<close>

record journal_record =
  jr_cursor :: string
  jr_fields :: "(string \<times> json) list"

text \<open>A source runs dry, finds its cursor gone, or cannot be read.\<close>

datatype source_end = Source_Drained | Source_Cursor_Gone | Source_Unavailable

record journal_source =
  so_name :: string
  so_event_source :: event_source
  so_backlog :: "string option \<Rightarrow> int option \<Rightarrow> journal_record list \<times> source_end"
  so_follow :: "string option \<Rightarrow> journal_record list \<times> source_end"

type_synonym normalizer = "journal_record \<Rightarrow> event_source \<Rightarrow> normalized_event option result"

text \<open>
  Constructing \<open>NormalizedEventV1\<close> validates: what the normalizer returns satisfies the contract; and it
  knows nothing of the queue.
\<close>

definition normalizer_ok :: "normalizer \<Rightarrow> bool" where
  "normalizer_ok f \<longleftrightarrow> (\<forall>r src e. f r src = Inr (Some e) \<longrightarrow> event_contract_ok e)
     \<and> (\<forall>r src m. f r src \<noteq> Inl (SpoolFullError m))"

section \<open>Collection\<close>

definition persist_record ::
  "event_codec \<Rightarrow> normalizer \<Rightarrow> journal_source \<Rightarrow> rat \<Rightarrow> journal_record \<Rightarrow> spool \<Rightarrow> (spool \<times> enqueue_result option) result" where
  "persist_record c nf source now r sp =
     bind_r (nf r (so_event_source source)) (\<lambda>event.
     (case event of
        None \<Rightarrow> bind_r (advance_cursor (so_name source) (jr_cursor r) now sp) (\<lambda>sp'. Inr (sp', None))
      | Some e \<Rightarrow> bind_r (enqueue_with_cursor c (so_name source) (jr_cursor r) e now sp) (\<lambda>(sp', res). Inr (sp', Some res))))"

text \<open>
  \<open>_drain\<close>: a full queue ends it quietly, any other exception passes on, and what was stored stays. The
  result says whether the iterator was exhausted, so that its own end counts.
\<close>

fun drain_records ::
  "event_codec \<Rightarrow> normalizer \<Rightarrow> journal_source \<Rightarrow> rat \<Rightarrow> journal_record list \<Rightarrow> spool \<Rightarrow> spool \<times> bool result" where
  "drain_records c nf source now [] sp = (sp, Inr True)"
| "drain_records c nf source now (r # rs) sp =
     (case persist_record c nf source now r sp of
        Inr (sp', _) \<Rightarrow> drain_records c nf source now rs sp'
      | Inl e \<Rightarrow> (sp, case e of SpoolFullError _ \<Rightarrow> Inr False | _ \<Rightarrow> Inl e))"

definition drain_source ::
  "event_codec \<Rightarrow> normalizer \<Rightarrow> journal_source \<Rightarrow> rat \<Rightarrow> journal_record list \<times> source_end \<Rightarrow> spool \<Rightarrow> spool \<times> source_end result" where
  "drain_source c nf source now = (\<lambda>(rs, fin) sp.
     let (sp', res) = drain_records c nf source now rs sp in
     (sp', bind_r res (\<lambda>exhausted. Inr (if exhausted then fin else Source_Drained))))"

definition record_journal_gap :: "journal_source \<Rightarrow> rat \<Rightarrow> spool \<Rightarrow> spool result" where
  "record_journal_gap source now sp =
     bind_r (record_diagnostic ''journal_gap'' now sp) (\<lambda>sp'. Inr (clear_cursor (so_name source) sp'))"

text \<open>The backlog and then the live records, each after the cursor committed by then.\<close>

definition collect_cycle ::
  "event_codec \<Rightarrow> normalizer \<Rightarrow> journal_source \<Rightarrow> rat \<Rightarrow> spool \<Rightarrow> spool \<times> source_end result" where
  "collect_cycle c nf source now sp =
     (let (sp1, res) = drain_source c nf source now (so_backlog source (spool_cursor (so_name source) sp) None) sp in
      (case res of
         Inr Source_Drained \<Rightarrow> drain_source c nf source now (so_follow source (spool_cursor (so_name source) sp1)) sp1
       | _ \<Rightarrow> (sp1, res)))"

text \<open>
  One turn of \<open>_collect_forever\<close>: nothing while the queue is full; an unreadable source is retried later, a
  lost cursor is recorded and cleared; any other exception ends the collector.
\<close>

definition collect_turn ::
  "event_codec \<Rightarrow> normalizer \<Rightarrow> journal_source \<Rightarrow> rat \<Rightarrow> spool \<Rightarrow> spool \<times> unit result" where
  "collect_turn c nf source now sp =
     (if sp_max_events sp \<le> int (ss_total (spool_statistics_of sp)) then (sp, Inr ())
      else case collect_cycle c nf source now sp of
        (sp', Inl e) \<Rightarrow> (sp', Inl e)
      | (sp', Inr Source_Cursor_Gone) \<Rightarrow>
        (case record_journal_gap source now sp' of Inl e \<Rightarrow> (sp', Inl e) | Inr sp'' \<Rightarrow> (sp'', Inr ()))
      | (sp', Inr _) \<Rightarrow> (sp', Inr ()))"

section \<open>One pass\<close>

record run_once_result =
  ro_collected :: nat
  ro_duplicates :: nat
  ro_skipped :: nat
  ro_delivery :: delivery_outcome

text \<open>The records of one source, counted; here a full queue is an error as well.\<close>

fun persist_counted ::
  "event_codec \<Rightarrow> normalizer \<Rightarrow> journal_source \<Rightarrow> rat \<Rightarrow> journal_record list \<Rightarrow> spool \<times> nat \<times> nat \<times> nat
    \<Rightarrow> (spool \<times> nat \<times> nat \<times> nat) \<times> unit result" where
  "persist_counted c nf source now [] st = (st, Inr ())"
| "persist_counted c nf source now (r # rs) (sp, collected, duplicates, skipped) =
     (case persist_record c nf source now r sp of
        Inl e \<Rightarrow> ((sp, collected, duplicates, skipped), Inl e)
      | Inr (sp', None) \<Rightarrow> persist_counted c nf source now rs (sp', collected, duplicates, skipped + 1)
      | Inr (sp', Some Inserted) \<Rightarrow> persist_counted c nf source now rs (sp', collected + 1, duplicates, skipped)
      | Inr (sp', Some Duplicate) \<Rightarrow> persist_counted c nf source now rs (sp', collected, duplicates + 1, skipped))"

fun collect_sources ::
  "event_codec \<Rightarrow> normalizer \<Rightarrow> int \<Rightarrow> rat \<Rightarrow> journal_source list \<Rightarrow> spool \<times> nat \<times> nat \<times> nat
    \<Rightarrow> (spool \<times> nat \<times> nat \<times> nat) \<times> unit result" where
  "collect_sources c nf limit now [] st = (st, Inr ())"
| "collect_sources c nf limit now (source # sources) st =
     (let (rs, fin) = so_backlog source (spool_cursor (so_name source) (fst st)) (Some limit);
          (st1, res) = persist_counted c nf source now rs st in
      (case (res, fin) of
         (Inl e, _) \<Rightarrow> (st1, Inl e)
       | (Inr _, Source_Drained) \<Rightarrow> collect_sources c nf limit now sources st1
       | (Inr _, Source_Unavailable) \<Rightarrow> (st1, Inl (RuntimeError ''source unavailable''))
       | (Inr _, Source_Cursor_Gone) \<Rightarrow>
         (case record_journal_gap source now (fst st1) of
            Inl e \<Rightarrow> (st1, Inl e)
          | Inr sp \<Rightarrow> collect_sources c nf limit now sources (sp, snd st1))))"

definition agent_run_once ::
  "event_codec \<Rightarrow> normalizer \<Rightarrow> (normalized_event list \<Rightarrow> transport_result result) \<Rightarrow> rat \<Rightarrow> int \<Rightarrow> rat \<Rightarrow> journal_source list
    \<Rightarrow> delivery_manager \<times> spool \<Rightarrow> (delivery_manager \<times> spool) \<times> run_once_result result" where
  "agent_run_once c nf send jitter limit now sources = (\<lambda>(m, sp).
     let ((sp1, collected, duplicates, skipped), res) = collect_sources c nf limit now sources (sp, 0, 0, 0) in
     (case res of
        Inl e \<Rightarrow> ((m, sp1), Inl e)
      | Inr _ \<Rightarrow>
        (case deliver_once c send jitter now now (m, sp1) of
           Inl e \<Rightarrow> ((m, sp1), Inl e)
         | Inr (st, out) \<Rightarrow> (st, Inr \<lparr>ro_collected = collected, ro_duplicates = duplicates, ro_skipped = skipped,
             ro_delivery = out\<rparr>))))"

section \<open>Committed prefixes\<close>

lemma persist_record_Inr:
  assumes "persist_record c nf source now r sp = Inr (sp', res)"
  shows "spool_cursor (so_name source) sp' = Some (jr_cursor r)" "set (sp_events sp) \<subseteq> set (sp_events sp')"
    "\<exists>event. nf r (so_event_source source) = Inr event \<and> (\<forall>e. event = Some e \<longrightarrow> spool_contains (ne_event_id e) sp')"
    "sp_max_events sp' = sp_max_events sp" "length (sp_events sp) \<le> length (sp_events sp')"
    "normalizer_ok nf \<Longrightarrow> spool_inv c sp \<Longrightarrow> spool_inv c sp'"
    "\<And>other. other \<noteq> so_name source \<Longrightarrow> spool_cursor other sp' = spool_cursor other sp"
proof -
  from assms obtain event where event: "nf r (so_event_source source) = Inr event"
    and step: "(event = None \<and> upsert_cursor (so_name source) (jr_cursor r) now sp = Inr sp')
      \<or> (\<exists>e x. event = Some e \<and> enqueue_with_cursor c (so_name source) (jr_cursor r) e now sp = Inr (sp', x))"
    by (auto simp: persist_record_def advance_cursor_def bind_r_eq_Inr split: option.splits)
  from step show "spool_cursor (so_name source) sp' = Some (jr_cursor r)" by (auto dest: upsert_cursor_Inr(4) spool_enqueue_Inr(5))
  from step show "set (sp_events sp) \<subseteq> set (sp_events sp')" by (auto dest: upsert_cursor_Inr(1) spool_enqueue_Inr(2))
  from step show "sp_max_events sp' = sp_max_events sp" by (auto dest: upsert_cursor_Inr(2) spool_enqueue_Inr(3))
  from step show "length (sp_events sp) \<le> length (sp_events sp')" by (auto dest: upsert_cursor_Inr(1) spool_enqueue_Inr(2))
  from step event show "\<exists>event. nf r (so_event_source source) = Inr event \<and> (\<forall>e. event = Some e \<longrightarrow> spool_contains (ne_event_id e) sp')"
    by (auto dest: spool_enqueue_Inr(7))
  show "spool_cursor other sp' = spool_cursor other sp" if "other \<noteq> so_name source" for other
    using step upsert_cursor_Inr(5) [OF _ that] spool_enqueue_Inr(6) [OF _ that] by blast
  show "spool_inv c sp'" if "normalizer_ok nf" "spool_inv c sp"
    using step event that upsert_cursor_Inr(6) spool_enqueue_Inr(8) unfolding normalizer_ok_def by blast
qed

lemma persist_record_full:
  assumes "persist_record c nf source now r sp = Inl (SpoolFullError msg)" "normalizer_ok nf"
  shows "sp_max_events sp \<le> int (length (sp_events sp))"
  using assms by (auto simp: persist_record_def enqueue_with_cursor_def advance_cursor_def upsert_cursor_def
      bind_r_eq_Inl normalizer_ok_def split: option.splits if_splits)

text \<open>
  The first \<open>k\<close> records are committed: each is stored or was recognised as no event, and the cursor of the
  source is that of the last of them; nothing else has moved.
\<close>

definition committed_prefix :: "normalizer \<Rightarrow> journal_source \<Rightarrow> journal_record list \<Rightarrow> nat \<Rightarrow> spool \<Rightarrow> spool \<Rightarrow> bool" where
  "committed_prefix nf source rs k sp sp' \<longleftrightarrow> k \<le> length rs
     \<and> spool_cursor (so_name source) sp' = (if k = 0 then spool_cursor (so_name source) sp else Some (jr_cursor (rs ! (k - 1))))
     \<and> (\<forall>other. other \<noteq> so_name source \<longrightarrow> spool_cursor other sp' = spool_cursor other sp)
     \<and> set (sp_events sp) \<subseteq> set (sp_events sp') \<and> sp_max_events sp' = sp_max_events sp
     \<and> (\<forall>i < k. \<exists>event. nf (rs ! i) (so_event_source source) = Inr event
          \<and> (\<forall>e. event = Some e \<longrightarrow> spool_contains (ne_event_id e) sp'))"

lemma committed_prefix_0: "committed_prefix nf source rs 0 sp sp"
  by (simp add: committed_prefix_def)

lemma committed_prefix_Suc:
  assumes "persist_record c nf source now r sp = Inr (sp1, x)" "committed_prefix nf source rs k sp1 sp'"
  shows "committed_prefix nf source (r # rs) (Suc k) sp sp'"
proof -
  note p = persist_record_Inr [OF assms(1)]
  have mono: "spool_contains eid sp'" if "spool_contains eid sp1" for eid
    using that assms(2) by (auto simp: committed_prefix_def spool_contains_def)
  have "\<exists>event. nf ((r # rs) ! i) (so_event_source source) = Inr event
      \<and> (\<forall>e. event = Some e \<longrightarrow> spool_contains (ne_event_id e) sp')" if "i < Suc k" for i
  proof (cases i)
    case 0
    with p(3) mono show ?thesis by auto
  next
    case (Suc j)
    with that assms(2) show ?thesis by (simp add: committed_prefix_def)
  qed
  moreover have "spool_cursor (so_name source) sp' = Some (jr_cursor ((r # rs) ! k))"
    using assms(2) p(1) by (cases k) (auto simp: committed_prefix_def)
  ultimately show ?thesis using assms(2) p(2,4,7) by (auto simp: committed_prefix_def)
qed

lemma drain_records_prefix:
  "drain_records c nf source now rs sp = (sp', res) \<Longrightarrow> normalizer_ok nf \<Longrightarrow> spool_inv c sp \<Longrightarrow>
    \<exists>k. committed_prefix nf source rs k sp sp' \<and> spool_inv c sp' \<and> (res = Inr True \<longleftrightarrow> k = length rs)
      \<and> (res = Inr False \<longrightarrow> sp_max_events sp' = int (length (sp_events sp')))"
proof (induction rs arbitrary: sp)
  case Nil
  then show ?case by (auto intro!: exI [of _ 0] simp: committed_prefix_0)
next
  case (Cons r rs)
  show ?case
  proof (cases "persist_record c nf source now r sp")
    case (Inl e)
    with Cons.prems(1) have sp': "sp' = sp" and res: "res = (case e of SpoolFullError _ \<Rightarrow> Inr False | _ \<Rightarrow> Inl e)" by auto
    have "sp_max_events sp = int (length (sp_events sp))" if "e = SpoolFullError m" for m
      using persist_record_full [OF Inl [unfolded that] Cons.prems(2)] Cons.prems(3) by (simp add: spool_inv_def)
    with res sp' Cons.prems(3) committed_prefix_0 show ?thesis
      by (intro exI [of _ 0]) (auto split: exn.splits)
  next
    case (Inr p)
    obtain sp1 x where p: "p = (sp1, x)" by (cases p)
    have inv: "spool_inv c sp1" by (rule persist_record_Inr(6) [OF Inr [unfolded p] Cons.prems(2,3)])
    from Cons.prems(1) Inr p have "drain_records c nf source now rs sp1 = (sp', res)" by simp
    from Cons.IH [OF this Cons.prems(2) inv] obtain k where "committed_prefix nf source rs k sp1 sp'" "spool_inv c sp'"
      "res = Inr True \<longleftrightarrow> k = length rs" "res = Inr False \<longrightarrow> sp_max_events sp' = int (length (sp_events sp'))" by blast
    with committed_prefix_Suc [OF Inr [unfolded p]] show ?thesis by (intro exI [of _ "Suc k"]) simp
  qed
qed

section \<open>Properties\<close>

text \<open>C34: Collection commits exactly a prefix. Draining the records of a source on a consistent queue
  processes a prefix of them in order: each of its records is in the queue, or was no security event, and the
  committed cursor is that of its last record, so what follows the cursor is what was not processed; other
  sources' cursors and the events already queued are untouched, the capacity is never exceeded, all records
  are processed unless the queue is exactly full or an exception passes on.\<close>

theorem collection_commits_a_prefix:
  assumes "spool_inv c sp" "normalizer_ok nf" "drain_records c nf source now rs sp = (sp', res)"
  shows "\<exists>k. committed_prefix nf source rs k sp sp' \<and> spool_inv c sp' \<and> (res = Inr True \<longleftrightarrow> k = length rs)
    \<and> (res = Inr False \<longrightarrow> int (length (sp_events sp')) = sp_max_events sp')"
  using drain_records_prefix [OF assms(3,2,1)] by auto

definition sample_normalizer :: normalizer where
  "sample_normalizer r src = Inr (if jr_fields r = [] then None else Some (sample_agent_event (length (jr_cursor r) + 10)))"

definition sample_source :: journal_source where
  "sample_source = \<lparr>so_name = ''journald'', so_event_source = Journald, so_backlog = (\<lambda>_ _. ([], Source_Drained)),
     so_follow = (\<lambda>_. ([], Source_Drained))\<rparr>"

lemma sample_normalizer_ok: "normalizer_ok sample_normalizer"
  by (auto simp: normalizer_ok_def sample_normalizer_def sample_agent_event_ok split: if_splits)

theorem collection_commits_a_prefix_witness:
  "\<exists>sp'. drain_records sample_event_codec sample_normalizer sample_source 9
      [\<lparr>jr_cursor = ''c1'', jr_fields = []\<rparr>, \<lparr>jr_cursor = ''c-2'', jr_fields = [(''MESSAGE'', JNull)]\<rparr>] sample_spool = (sp', Inr True)
    \<and> spool_cursor ''journald'' sp' = Some ''c-2'' \<and> spool_contains 13 sp'"
proof -
  let ?rs = "[\<lparr>jr_cursor = ''c1'', jr_fields = []\<rparr>, \<lparr>jr_cursor = ''c-2'', jr_fields = [(''MESSAGE'', JNull)]\<rparr>]"
  obtain sp' where run: "drain_records sample_event_codec sample_normalizer sample_source 9 ?rs sample_spool = (sp', Inr True)"
    by (simp add: persist_record_def sample_normalizer_def advance_cursor_def upsert_cursor_def cursor_length_ok_def
        enqueue_with_cursor_def sample_spool_def new_spool_row_def sample_agent_event_def sample_source_def)
  from collection_commits_a_prefix [OF sample_spool_inv sample_normalizer_ok run]
  have pre: "committed_prefix sample_normalizer sample_source ?rs 2 sample_spool sp'"
    by (auto simp: numeral_2_eq_2)
  have "spool_cursor ''journald'' sp' = Some ''c-2''" using pre by (simp add: committed_prefix_def sample_source_def)
  moreover have "\<forall>i < 2. \<exists>event. sample_normalizer (?rs ! i) (so_event_source sample_source) = Inr event
      \<and> (\<forall>e. event = Some e \<longrightarrow> spool_contains (ne_event_id e) sp')"
    using pre unfolding committed_prefix_def by blast
  from this [rule_format, of 1] have "\<exists>event. sample_normalizer (?rs ! 1) Journald = Inr event
      \<and> (\<forall>e. event = Some e \<longrightarrow> spool_contains (ne_event_id e) sp')"
    by (simp add: sample_normalizer_def)
  then have "spool_contains 13 sp'" by (simp add: sample_normalizer_def sample_agent_event_def)
  ultimately show ?thesis using run by blast
qed

end
