(* ===== verification/Agent_Access.thy ===== *)
theory Agent_Access
  imports Unicode_Text Database
begin

text \<open>
  \<open>application/agent_keys.py\<close>, \<open>authentication.py\<close> and \<open>provisioning.py\<close>: agent credentials, their
  verification against the tables of servers and keys, and the provisioning of a server with its
  first key. SHA-256 is an argument (bytes to bytes); the random parts of a new token are arguments
  of its generation. A token is a header value, so its code points are below 256: a \<open>string\<close>.
\<close>

section \<open>Tokens\<close>

definition agent_token_prefix :: string where
  "agent_token_prefix = ''wgak_''"

definition secret_hash_size :: nat where
  "secret_hash_size = 32"

text \<open>The public identifier and the secret of a structurally valid token.\<close>

definition split_agent_token :: "string \<Rightarrow> (string \<times> string) option" where
  "split_agent_token token =
     (if take 5 token \<noteq> agent_token_prefix then None
      else case split_on (CHR ''.'') (drop 5 token) of
        [public_id, secret] \<Rightarrow> if public_id = [] \<or> secret = [] then None else Some (public_id, secret)
      | _ \<Rightarrow> None)"

definition parse_agent_api_key_public_id :: "string \<Rightarrow> string option" where
  "parse_agent_api_key_public_id token = map_option fst (split_agent_token token)"

definition hash_secret :: "(string \<Rightarrow> string) \<Rightarrow> string \<Rightarrow> string" where
  "hash_secret sha256 secret = sha256 (utf8 (ascii secret))"

text \<open>\<open>hmac.compare_digest\<close> on \<open>str\<close> arguments, which raises on characters outside ASCII.\<close>

definition is_ascii :: "string \<Rightarrow> bool" where
  "is_ascii s \<longleftrightarrow> list_all (\<lambda>c. (of_char c :: nat) < 128) s"

definition compare_text :: "string \<Rightarrow> string \<Rightarrow> bool result" where
  "compare_text a b = bind_r (guard_r (is_ascii a \<and> is_ascii b)
     (TypeError ''comparing strings with non-ASCII characters is not supported'')) (\<lambda>_. Inr (a = b))"

definition verify_agent_api_key :: "(string \<Rightarrow> string) \<Rightarrow> string \<Rightarrow> string \<Rightarrow> string \<Rightarrow> bool result" where
  "verify_agent_api_key sha256 token expected_public_id expected_secret_hash =
     (if length expected_secret_hash \<noteq> secret_hash_size then Inr False
      else case split_agent_token token of
        None \<Rightarrow> Inr False
      | Some (public_id, secret) \<Rightarrow>
        bind_r (compare_text public_id expected_public_id) (\<lambda>public_id_matches.
        Inr (public_id_matches \<and> hash_secret sha256 secret = expected_secret_hash)))"

record agent_key_material =
  km_public_id :: string
  km_token :: string
  km_secret_hash :: string

text \<open>\<open>generate_agent_api_key\<close>, given the two values of \<open>token_urlsafe\<close>.\<close>

definition generate_agent_api_key :: "(string \<Rightarrow> string) \<Rightarrow> string \<Rightarrow> string \<Rightarrow> agent_key_material" where
  "generate_agent_api_key sha256 public_id secret =
     \<lparr>km_public_id = public_id, km_token = agent_token_prefix @ public_id @ ''.'' @ secret,
      km_secret_hash = hash_secret sha256 secret\<rparr>"

section \<open>Servers and keys\<close>

record server_row =
  sv_id :: uuid
  sv_name :: ustring
  sv_hostname :: ustring
  sv_is_active :: bool
  sv_created_at :: time

record agent_key_row =
  ak_id :: uuid
  ak_server_id :: uuid
  ak_public_id :: string
  ak_secret_hash :: string
  ak_label :: "ustring option"
  ak_created_at :: time
  ak_last_used_at :: "time option"
  ak_expires_at :: "time option"
  ak_revoked_at :: "time option"

text \<open>The control plane's database with the tables of agents.\<close>

record site =
  st_servers :: "server_row list"
  st_agent_keys :: "agent_key_row list"
  st_main :: db

record authenticated_agent =
  aa_key_id :: uuid
  aa_server_id :: uuid
  aa_public_id :: string

definition key_usable :: "time \<Rightarrow> agent_key_row \<Rightarrow> bool" where
  "key_usable now k \<longleftrightarrow> ak_revoked_at k = None
     \<and> (case ak_expires_at k of None \<Rightarrow> True | Some t \<Rightarrow> now < t)"

definition authenticate_agent ::
  "(string \<Rightarrow> string) \<Rightarrow> site \<Rightarrow> string \<Rightarrow> time \<Rightarrow> authenticated_agent result" where
  "authenticate_agent sha256 s token now =
     (case parse_agent_api_key_public_id token of
        None \<Rightarrow> Inl InvalidCredentialsError
      | Some public_id \<Rightarrow>
        (case find_row ak_public_id public_id (st_agent_keys s) of
           None \<Rightarrow> bind_r (verify_agent_api_key sha256 token public_id (replicate 32 (CHR 0x00)))
             (\<lambda>_. Inl InvalidCredentialsError)
         | Some key \<Rightarrow>
           (case find_row sv_id (ak_server_id key) (st_servers s) of
              None \<Rightarrow> bind_r (verify_agent_api_key sha256 token public_id (replicate 32 (CHR 0x00)))
                (\<lambda>_. Inl InvalidCredentialsError)
            | Some server \<Rightarrow>
              bind_r (verify_agent_api_key sha256 token (ak_public_id key) (ak_secret_hash key)) (\<lambda>credentials_match.
              bind_r (guard_r (credentials_match \<and> key_usable now key) InvalidCredentialsError) (\<lambda>_.
              bind_r (guard_r (sv_is_active server) InactiveServerError) (\<lambda>_.
              Inr \<lparr>aa_key_id = ak_id key, aa_server_id = sv_id server, aa_public_id = ak_public_id key\<rparr>))))))"

section \<open>Provisioning\<close>

record provisioned_agent =
  pa_server_id :: uuid
  pa_key_id :: uuid
  pa_public_id :: string
  pa_token :: string

text \<open>The constraints of the two tables.\<close>

definition insert_server :: "site \<Rightarrow> server_row \<Rightarrow> site result" where
  "insert_server s v =
     (if sv_name v \<in> sv_name ` set (st_servers s) then Inl (IntegrityError ''uq_servers_name'')
      else Inr (s\<lparr>st_servers := st_servers s @ [v]\<rparr>))"

definition insert_agent_key :: "site \<Rightarrow> agent_key_row \<Rightarrow> site result" where
  "insert_agent_key s k =
     (if length (ak_secret_hash k) \<noteq> 32 then Inl (IntegrityError ''secret_hash_length'')
      else if ak_public_id k \<in> ak_public_id ` set (st_agent_keys s)
        then Inl (IntegrityError ''uq_agent_api_keys_public_id'')
      else Inr (s\<lparr>st_agent_keys := st_agent_keys s @ [k]\<rparr>))"

definition new_agent_key :: "uuid \<Rightarrow> uuid \<Rightarrow> time \<Rightarrow> agent_key_material \<Rightarrow> ustring option \<Rightarrow> agent_key_row" where
  "new_agent_key kid sid now m label = \<lparr>ak_id = kid, ak_server_id = sid, ak_public_id = km_public_id m,
     ak_secret_hash = km_secret_hash m, ak_label = label, ak_created_at = now, ak_last_used_at = None,
     ak_expires_at = None, ak_revoked_at = None\<rparr>"

definition provision_test_server ::
  "(string \<Rightarrow> string) \<Rightarrow> site \<Rightarrow> time \<Rightarrow> ustring \<Rightarrow> ustring \<Rightarrow> ustring option \<Rightarrow> string \<Rightarrow> string
    \<Rightarrow> (site \<times> provisioned_agent) result" where
  "provision_test_server sha256 s now name hostname label public_id secret =
     (let normalized_name = strip_of is_space name; normalized_hostname = strip_of is_space hostname in
      bind_r (guard_r (normalized_name \<noteq> [] \<and> length normalized_name \<le> 100)
        (ValueError ''server name must contain 1 to 100 characters'')) (\<lambda>_.
      bind_r (guard_r (normalized_hostname \<noteq> [] \<and> length normalized_hostname \<le> 253)
        (ValueError ''hostname must contain 1 to 253 characters'')) (\<lambda>_.
      bind_r (guard_r (case label of None \<Rightarrow> True | Some l \<Rightarrow> length l \<le> 100)
        (ValueError ''label must not exceed 100 characters'')) (\<lambda>_.
      let (sid, d1) = uuid4 (st_main s) in
      bind_r (insert_server (s\<lparr>st_main := d1\<rparr>) \<lparr>sv_id = sid, sv_name = normalized_name,
        sv_hostname = normalized_hostname, sv_is_active = True, sv_created_at = now\<rparr>) (\<lambda>s1.
      let material = generate_agent_api_key sha256 public_id secret; (kid, d2) = uuid4 (st_main s1) in
      bind_r (insert_agent_key (s1\<lparr>st_main := d2\<rparr>) (new_agent_key kid sid now material label)) (\<lambda>s2.
      Inr (s2, \<lparr>pa_server_id = sid, pa_key_id = kid, pa_public_id = km_public_id material,
        pa_token = km_token material\<rparr>)))))))"

section \<open>The shape of tokens\<close>

definition plain_part :: "string \<Rightarrow> bool" where
  "plain_part p \<longleftrightarrow> p \<noteq> [] \<and> CHR ''.'' \<notin> set p"

definition agent_token :: "string \<Rightarrow> string \<Rightarrow> string" where
  "agent_token public_id secret = agent_token_prefix @ public_id @ ''.'' @ secret"

lemma split_on_two:
  "split_on c s = [a, b] \<longleftrightarrow> s = a @ c # b \<and> c \<notin> set a \<and> c \<notin> set b"
proof
  assume split: "split_on c s = [a, b]"
  then have "c \<in> set s" using split_on_none [of c s] by auto
  then obtain x y where s: "s = x @ c # y" "c \<notin> set x" using split_list_first by metis
  with split have y: "x = a" "split_on c y = [b]" by (simp_all add: split_on_append)
  have "c \<notin> set y"
  proof
    assume "c \<in> set y"
    then obtain u v where "y = u @ c # v" "c \<notin> set u" using split_list_first by metis
    with y(2) show False using split_on_nonempty [of c v] by (simp add: split_on_append)
  qed
  with s y split_on_none [of c y] show "s = a @ c # b \<and> c \<notin> set a \<and> c \<notin> set b" by simp
qed (simp add: split_on_append split_on_none)

lemma split_agent_token_iff:
  "split_agent_token token = Some (p, s) \<longleftrightarrow> token = agent_token p s \<and> plain_part p \<and> plain_part s"
proof -
  have "split_agent_token token = Some (p, s) \<longleftrightarrow> take 5 token = agent_token_prefix
      \<and> split_on (CHR ''.'') (drop 5 token) = [p, s] \<and> p \<noteq> [] \<and> s \<noteq> []"
    by (auto simp: split_agent_token_def split: list.splits if_splits)
  also have "\<dots> \<longleftrightarrow> token = agent_token p s \<and> plain_part p \<and> plain_part s"
  proof -
    have len: "length agent_token_prefix = 5" by (simp add: agent_token_prefix_def)
    have "take 5 token = agent_token_prefix \<and> drop 5 token = p @ CHR ''.'' # s \<longleftrightarrow> token = agent_token p s"
      by (auto simp: agent_token_def len) (metis append_take_drop_id)
    then show ?thesis by (auto simp: split_on_two plain_part_def)
  qed
  finally show ?thesis .
qed

lemma parse_public_id_iff:
  "parse_agent_api_key_public_id token = Some p \<longleftrightarrow> (\<exists>s. token = agent_token p s \<and> plain_part p \<and> plain_part s)"
  by (auto simp: parse_agent_api_key_public_id_def split_agent_token_iff)

lemma verify_token:
  "plain_part p \<Longrightarrow> plain_part s \<Longrightarrow> length h = 32 \<Longrightarrow> is_ascii p \<Longrightarrow>
    verify_agent_api_key sha256 (agent_token p s) p h = Inr (hash_secret sha256 s = h)"
  by (simp add: verify_agent_api_key_def split_agent_token_iff [THEN iffD2] secret_hash_size_def compare_text_def)

section \<open>The constraints of the tables\<close>

definition access_inv :: "site \<Rightarrow> bool" where
  "access_inv s \<longleftrightarrow> distinct (map sv_id (st_servers s)) \<and> distinct (map sv_name (st_servers s))
     \<and> distinct (map ak_public_id (st_agent_keys s)) \<and> distinct (map ak_id (st_agent_keys s))
     \<and> (\<forall>v \<in> set (st_servers s). sv_id v < next_uuid (st_main s))
     \<and> (\<forall>k \<in> set (st_agent_keys s). length (ak_secret_hash k) = 32 \<and> ak_id k < next_uuid (st_main s)
          \<and> ak_server_id k \<in> sv_id ` set (st_servers s))"

lemma find_row_iff:
  "distinct (map key rows) \<Longrightarrow> find_row key k rows = Some r \<longleftrightarrow> r \<in> set rows \<and> key r = k"
  using find_row_distinct [of key rows r] find_row_SomeD [of key k rows r] by auto

text \<open>What makes a credential valid, in terms of the stored rows.\<close>

definition valid_credential ::
  "(string \<Rightarrow> string) \<Rightarrow> site \<Rightarrow> string \<Rightarrow> time \<Rightarrow> agent_key_row \<Rightarrow> server_row \<Rightarrow> bool" where
  "valid_credential sha256 s token now k v \<longleftrightarrow> k \<in> set (st_agent_keys s) \<and> v \<in> set (st_servers s)
     \<and> sv_id v = ak_server_id k \<and> is_ascii (ak_public_id k)
     \<and> (\<exists>secret. token = agent_token (ak_public_id k) secret \<and> plain_part (ak_public_id k) \<and> plain_part secret
          \<and> hash_secret sha256 secret = ak_secret_hash k)
     \<and> key_usable now k"

lemma authenticate_agent_iff:
  assumes "access_inv s"
  shows "authenticate_agent sha256 s token now = Inr a \<longleftrightarrow>
    (\<exists>k v. valid_credential sha256 s token now k v \<and> sv_is_active v
       \<and> a = \<lparr>aa_key_id = ak_id k, aa_server_id = sv_id v, aa_public_id = ak_public_id k\<rparr>)"
proof -
  have keys: "distinct (map ak_public_id (st_agent_keys s))" and servers: "distinct (map sv_id (st_servers s))"
    and len: "\<forall>k \<in> set (st_agent_keys s). length (ak_secret_hash k) = 32"
    using assms by (simp_all add: access_inv_def)
  show ?thesis
  proof (cases "\<exists>p secret k v. token = agent_token p secret \<and> plain_part p \<and> plain_part secret
      \<and> k \<in> set (st_agent_keys s) \<and> ak_public_id k = p \<and> v \<in> set (st_servers s) \<and> sv_id v = ak_server_id k")
    case True
    then obtain secret k v where *: "token = agent_token (ak_public_id k) secret" "plain_part (ak_public_id k)"
      "plain_part secret" "k \<in> set (st_agent_keys s)" "v \<in> set (st_servers s)" "sv_id v = ak_server_id k" by blast
    have parse: "parse_agent_api_key_public_id token = Some (ak_public_id k)"
      using * by (auto simp: parse_public_id_iff)
    have fk: "find_row ak_public_id (ak_public_id k) (st_agent_keys s) = Some k"
      and fv: "find_row sv_id (ak_server_id k) (st_servers s) = Some v"
      using * keys servers by (simp_all add: find_row_iff)
    have split: "split_agent_token token = Some (ak_public_id k, secret)" using * by (simp add: split_agent_token_iff)
    have uniq: "k' = k \<and> v' = v \<and> sec = secret" if "valid_credential sha256 s token now k' v'"
      "token = agent_token (ak_public_id k') sec" "plain_part (ak_public_id k')" "plain_part sec" for k' v' sec
    proof -
      from that(2-4) split have eq: "ak_public_id k' = ak_public_id k" "sec = secret"
        using split_agent_token_iff [of token "ak_public_id k'" sec] by simp_all
      moreover have "k' = k" using that(1) eq(1) * key_inj_rows [OF keys] by (auto simp: valid_credential_def)
      moreover have "v' = v" using that(1) * \<open>k' = k\<close> key_inj_rows [OF servers] by (auto simp: valid_credential_def)
      ultimately show ?thesis by blast
    qed
    have auth: "authenticate_agent sha256 s token now = Inr a \<longleftrightarrow>
        is_ascii (ak_public_id k) \<and> hash_secret sha256 secret = ak_secret_hash k \<and> key_usable now k \<and> sv_is_active v
        \<and> a = \<lparr>aa_key_id = ak_id k, aa_server_id = sv_id v, aa_public_id = ak_public_id k\<rparr>"
      using len *(4) by (auto simp: authenticate_agent_def parse fk fv verify_agent_api_key_def split
          secret_hash_size_def compare_text_def bind_r_eq_Inr)
    show ?thesis
    proof
      assume "authenticate_agent sha256 s token now = Inr a"
      with auth * show "\<exists>k v. valid_credential sha256 s token now k v \<and> sv_is_active v
         \<and> a = \<lparr>aa_key_id = ak_id k, aa_server_id = sv_id v, aa_public_id = ak_public_id k\<rparr>"
        by (intro exI [of _ k] exI [of _ v]) (auto simp: valid_credential_def)
    next
      assume "\<exists>k v. valid_credential sha256 s token now k v \<and> sv_is_active v
         \<and> a = \<lparr>aa_key_id = ak_id k, aa_server_id = sv_id v, aa_public_id = ak_public_id k\<rparr>"
      then obtain k' v' where v: "valid_credential sha256 s token now k' v'" "sv_is_active v'"
        "a = \<lparr>aa_key_id = ak_id k', aa_server_id = sv_id v', aa_public_id = ak_public_id k'\<rparr>" by blast
      then obtain sec where "token = agent_token (ak_public_id k') sec" "plain_part (ak_public_id k')" "plain_part sec"
        "hash_secret sha256 sec = ak_secret_hash k'" by (auto simp: valid_credential_def)
      with uniq [OF v(1)] v auth show "authenticate_agent sha256 s token now = Inr a"
        by (auto simp: valid_credential_def)
    qed
  next
    case False
    then have "\<not> valid_credential sha256 s token now k v" for k v by (auto simp: valid_credential_def)
    moreover have "authenticate_agent sha256 s token now \<noteq> Inr a"
    proof
      assume "authenticate_agent sha256 s token now = Inr a"
      then obtain p k v where "parse_agent_api_key_public_id token = Some p"
        "find_row ak_public_id p (st_agent_keys s) = Some k" "find_row sv_id (ak_server_id k) (st_servers s) = Some v"
        by (auto simp: authenticate_agent_def bind_r_eq_Inr split: option.splits)
      with False show False by (auto simp: parse_public_id_iff dest!: find_row_SomeD)
    qed
    ultimately show ?thesis by simp
  qed
qed

lemma strip_bounds: "length (strip_of P s) \<le> length s"
  unfolding strip_of_def length_rev by (metis length_dropWhile_le length_rev order_trans)

text \<open>What \<open>token_urlsafe\<close> promises of its values.\<close>

definition urlsafe :: "string \<Rightarrow> bool" where
  "urlsafe s \<longleftrightarrow> s \<noteq> [] \<and> list_all (\<lambda>c. is_alnum c \<or> c = CHR ''-'' \<or> c = CHR ''_'') s"

lemma urlsafe_parts: "urlsafe s \<Longrightarrow> plain_part s \<and> is_ascii s"
proof
  assume s: "urlsafe s"
  have "c \<noteq> CHR ''.'' \<and> (of_char c :: nat) < 128" if "c \<in> set s" for c
    using s that by (auto simp: urlsafe_def list_all_iff is_alnum_def is_digit_def is_lower_def is_upper_def)
  with s show "plain_part s" "is_ascii s" by (auto simp: plain_part_def is_ascii_def list_all_iff urlsafe_def)
qed

definition digest_bytes :: "(string \<Rightarrow> string) \<Rightarrow> bool" where
  "digest_bytes sha256 \<longleftrightarrow> (\<forall>s. length (sha256 s) = 32)"

lemma provision_Inr:
  assumes "provision_test_server sha256 s now name hostname label p secret = Inr (s', pa)"
  obtains v k where "s' = s\<lparr>st_servers := st_servers s @ [v], st_agent_keys := st_agent_keys s @ [k],
      st_main := (st_main s)\<lparr>next_uuid := next_uuid (st_main s) + 2\<rparr>\<rparr>"
    "sv_id v = next_uuid (st_main s)" "sv_is_active v" "sv_name v = strip_of is_space name" "sv_name v \<noteq> []"
    "length (sv_name v) \<le> 100" "sv_name v \<notin> sv_name ` set (st_servers s)"
    "k = new_agent_key (Suc (next_uuid (st_main s))) (sv_id v) now (generate_agent_api_key sha256 p secret) label"
    "length (hash_secret sha256 secret) = 32" "p \<notin> ak_public_id ` set (st_agent_keys s)"
    "pa = \<lparr>pa_server_id = sv_id v, pa_key_id = ak_id k, pa_public_id = p, pa_token = agent_token p secret\<rparr>"
proof -
  let ?n = "next_uuid (st_main s)"
  let ?v = "\<lparr>sv_id = ?n, sv_name = strip_of is_space name, sv_hostname = strip_of is_space hostname,
      sv_is_active = True, sv_created_at = now\<rparr>"
  let ?k = "new_agent_key (Suc ?n) ?n now (generate_agent_api_key sha256 p secret) label"
  from assms have *: "sv_name ?v \<notin> sv_name ` set (st_servers s)" "sv_name ?v \<noteq> []" "length (sv_name ?v) \<le> 100"
    "length (hash_secret sha256 secret) = 32" "p \<notin> ak_public_id ` set (st_agent_keys s)"
    "pa = \<lparr>pa_server_id = ?n, pa_key_id = Suc ?n, pa_public_id = p, pa_token = agent_token p secret\<rparr>"
    "s' = s\<lparr>st_servers := st_servers s @ [?v], st_main := (st_main s)\<lparr>next_uuid := Suc (Suc ?n)\<rparr>,
      st_agent_keys := st_agent_keys s @ [?k]\<rparr>"
    by (simp_all add: provision_test_server_def bind_r_eq_Inr uuid4_def Let_def insert_server_def insert_agent_key_def
        new_agent_key_def generate_agent_api_key_def agent_token_def split: if_splits)
  have "s' = s\<lparr>st_servers := st_servers s @ [?v], st_agent_keys := st_agent_keys s @ [?k],
      st_main := (st_main s)\<lparr>next_uuid := ?n + 2\<rparr>\<rparr>"
    unfolding *(7) by (rule site.equality) simp_all
  with *(1-6) show thesis by (intro that [of ?k ?v]) (simp_all add: new_agent_key_def)
qed

lemma provision_inv:
  assumes "access_inv s" "provision_test_server sha256 s now name hostname label p secret = Inr (s', pa)"
  shows "access_inv s'"
proof -
  from assms(2) obtain v k where *: "s' = s\<lparr>st_servers := st_servers s @ [v], st_agent_keys := st_agent_keys s @ [k],
      st_main := (st_main s)\<lparr>next_uuid := next_uuid (st_main s) + 2\<rparr>\<rparr>"
    "sv_id v = next_uuid (st_main s)" "sv_name v \<notin> sv_name ` set (st_servers s)"
    "k = new_agent_key (Suc (next_uuid (st_main s))) (sv_id v) now (generate_agent_api_key sha256 p secret) label"
    "length (hash_secret sha256 secret) = 32" "p \<notin> ak_public_id ` set (st_agent_keys s)"
    by (rule provision_Inr) blast
  have k: "ak_id k = Suc (next_uuid (st_main s))" "ak_server_id k = next_uuid (st_main s)" "ak_public_id k = p"
    "length (ak_secret_hash k) = 32" using *(2,4,5) by (simp_all add: new_agent_key_def generate_agent_api_key_def)
  have "next_uuid (st_main s) \<notin> sv_id ` set (st_servers s)" "Suc (next_uuid (st_main s)) \<notin> ak_id ` set (st_agent_keys s)"
    using assms(1) by (fastforce simp: access_inv_def)+
  with assms(1) *(2,3,6) k show ?thesis by (auto simp: access_inv_def *(1) less_Suc_eq)
qed

section \<open>Properties\<close>

text \<open>C30: Agent authentication accepts exactly the valid credentials. On tables that satisfy their
  constraints, a token authenticates as an agent precisely when it is the token of a stored key,
  with a secret whose digest is the stored one, the key neither revoked nor expired, and its server
  active; the identity is that key's, never anything the client states. A valid credential of an
  inactive server is told apart, every other ASCII token gets the one indistinguishable refusal.\<close>

theorem agent_authentication_is_exact:
  assumes "access_inv s"
  shows "(\<forall>a. authenticate_agent sha256 s token now = Inr a \<longleftrightarrow>
      (\<exists>k v. valid_credential sha256 s token now k v \<and> sv_is_active v
         \<and> a = \<lparr>aa_key_id = ak_id k, aa_server_id = sv_id v, aa_public_id = ak_public_id k\<rparr>))
    \<and> (\<forall>e. is_ascii token \<and> authenticate_agent sha256 s token now = Inl e \<longrightarrow>
         e = (if \<exists>k v. valid_credential sha256 s token now k v \<and> \<not> sv_is_active v
              then InactiveServerError else InvalidCredentialsError))"
proof (intro conjI allI impI)
  show "authenticate_agent sha256 s token now = Inr a \<longleftrightarrow>
      (\<exists>k v. valid_credential sha256 s token now k v \<and> sv_is_active v
         \<and> a = \<lparr>aa_key_id = ak_id k, aa_server_id = sv_id v, aa_public_id = ak_public_id k\<rparr>)" for a
    using assms by (rule authenticate_agent_iff)
  fix e assume e: "is_ascii token \<and> authenticate_agent sha256 s token now = Inl e"
  have keys: "distinct (map ak_public_id (st_agent_keys s))" and servers: "distinct (map sv_id (st_servers s))"
    using assms by (simp_all add: access_inv_def)
  have ascii: "is_ascii p" if "split_agent_token token = Some (p, sec)" for p sec
    using e that by (auto simp: split_agent_token_iff agent_token_def is_ascii_def)
  have ver: "\<exists>b. verify_agent_api_key sha256 token p h = Inr b" if "parse_agent_api_key_public_id token = Some p" for p h
    using that ascii by (auto simp: parse_agent_api_key_public_id_def verify_agent_api_key_def compare_text_def)
  have valid: "valid_credential sha256 s token now k v \<longleftrightarrow> verify_agent_api_key sha256 token (ak_public_id k) (ak_secret_hash k) = Inr True
      \<and> key_usable now k" if "parse_agent_api_key_public_id token = Some (ak_public_id k)" "k \<in> set (st_agent_keys s)"
      "v \<in> set (st_servers s)" "sv_id v = ak_server_id k" for k v
  proof -
    from that(1) obtain sec where sp: "split_agent_token token = Some (ak_public_id k, sec)"
      by (auto simp: parse_agent_api_key_public_id_def)
    have "length (ak_secret_hash k) = 32" using assms that(2) by (simp add: access_inv_def)
    then have "verify_agent_api_key sha256 token (ak_public_id k) (ak_secret_hash k) = Inr (hash_secret sha256 sec = ak_secret_hash k)"
      using ascii [OF sp] by (simp add: verify_agent_api_key_def sp secret_hash_size_def compare_text_def)
    moreover have "valid_credential sha256 s token now k v \<longleftrightarrow> hash_secret sha256 sec = ak_secret_hash k \<and> key_usable now k"
    proof -
      have "sec' = sec" if "token = agent_token (ak_public_id k) sec'" "plain_part (ak_public_id k)" "plain_part sec'" for sec'
        using that sp split_agent_token_iff [of token "ak_public_id k" sec'] by simp
      with that(2-4) ascii [OF sp] sp show ?thesis unfolding valid_credential_def split_agent_token_iff by metis
    qed
    ultimately show ?thesis by simp
  qed
  show "e = (if \<exists>k v. valid_credential sha256 s token now k v \<and> \<not> sv_is_active v
      then InactiveServerError else InvalidCredentialsError)"
  proof (cases "\<exists>k v. parse_agent_api_key_public_id token = Some (ak_public_id k)
      \<and> k \<in> set (st_agent_keys s) \<and> v \<in> set (st_servers s) \<and> sv_id v = ak_server_id k")
    case True
    then obtain k v where kv: "parse_agent_api_key_public_id token = Some (ak_public_id k)" "k \<in> set (st_agent_keys s)"
      "v \<in> set (st_servers s)" "sv_id v = ak_server_id k" by blast
    have fk: "find_row ak_public_id (ak_public_id k) (st_agent_keys s) = Some k"
      and fv: "find_row sv_id (ak_server_id k) (st_servers s) = Some v"
      using kv keys servers by (simp_all add: find_row_iff)
    obtain b where b: "verify_agent_api_key sha256 token (ak_public_id k) (ak_secret_hash k) = Inr b"
      using ver [OF kv(1)] by blast
    have uniq: "k' = k \<and> v' = v" if "valid_credential sha256 s token now k' v'" for k' v'
    proof -
      from that have "parse_agent_api_key_public_id token = Some (ak_public_id k')"
        by (auto simp: valid_credential_def parse_public_id_iff)
      with kv(1) that kv(2) have "k' = k" using key_inj_rows [OF keys, of k' k] by (simp add: valid_credential_def)
      with that kv(3,4) show ?thesis using key_inj_rows [OF servers, of v' v] by (simp add: valid_credential_def)
    qed
    then have "(\<exists>k v. valid_credential sha256 s token now k v \<and> \<not> sv_is_active v) \<longleftrightarrow>
        valid_credential sha256 s token now k v \<and> \<not> sv_is_active v" by blast
    with e valid [OF kv] b show ?thesis
      by (auto simp: authenticate_agent_def kv(1) fk fv bind_r_eq_Inl)
  next
    case False
    then have "\<not> valid_credential sha256 s token now k v" for k v
      by (auto simp: valid_credential_def parse_public_id_iff)
    moreover have "e = InvalidCredentialsError"
    proof (cases "parse_agent_api_key_public_id token")
      case None
      with e show ?thesis by (simp add: authenticate_agent_def)
    next
      case (Some p)
      obtain b where "verify_agent_api_key sha256 token p (replicate 32 (CHR 0x00)) = Inr b" using ver [OF Some] by blast
      with e False Some show ?thesis
        by (auto simp: authenticate_agent_def split: option.splits dest!: find_row_SomeD)
    qed
    ultimately show ?thesis by simp
  qed
qed

definition site_empty :: site where
  "site_empty = \<lparr>st_servers = [], st_agent_keys = [], st_main = db_empty\<rparr>"

definition sample_sha256 :: "string \<Rightarrow> string" where
  "sample_sha256 s = take 32 (s @ replicate 32 (CHR ''0''))"

definition sample_site :: site where
  "sample_site = \<lparr>st_servers = [\<lparr>sv_id = 1, sv_name = [97], sv_hostname = [98], sv_is_active = True, sv_created_at = 0\<rparr>],
     st_agent_keys = [\<lparr>ak_id = 2, ak_server_id = 1, ak_public_id = ''pub'', ak_secret_hash = sample_sha256 ''sec'',
       ak_label = None, ak_created_at = 0, ak_last_used_at = None, ak_expires_at = Some 100, ak_revoked_at = None\<rparr>],
     st_main = db_empty\<lparr>next_uuid := 20\<rparr>\<rparr>"

lemma sample_site_inv: "access_inv sample_site"
  by (simp add: access_inv_def sample_site_def sample_sha256_def db_empty_def)

lemma sample_hash: "hash_secret sample_sha256 ''sec'' = sample_sha256 ''sec''"
  by code_simp

lemma sample_valid: "valid_credential sample_sha256 sample_site (agent_token ''pub'' ''sec'') 50
    (hd (st_agent_keys sample_site)) (hd (st_servers sample_site))"
  using sample_hash
  by (auto simp: valid_credential_def sample_site_def is_ascii_def plain_part_def key_usable_def
      intro!: exI [of _ "''sec''"])

theorem agent_authentication_is_exact_witness:
  "\<exists>a. authenticate_agent sample_sha256 sample_site (agent_token ''pub'' ''sec'') 50 = Inr a \<and> aa_server_id a = 1"
proof -
  have "sv_is_active (hd (st_servers sample_site))" "sv_id (hd (st_servers sample_site)) = 1"
    by (simp_all add: sample_site_def)
  moreover define a where "a = \<lparr>aa_key_id = 2, aa_server_id = 1, aa_public_id = ''pub''\<rparr>"
  moreover have "ak_id (hd (st_agent_keys sample_site)) = 2" "ak_public_id (hd (st_agent_keys sample_site)) = ''pub''"
    by (simp_all add: sample_site_def)
  ultimately have "authenticate_agent sample_sha256 sample_site (agent_token ''pub'' ''sec'') 50 = Inr a"
    using sample_valid
    by (intro iffD2 [OF spec [OF conjunct1 [OF agent_authentication_is_exact [OF sample_site_inv]]]]) force
  then show ?thesis by (auto simp: a_def)
qed

text \<open>Provisioning and authentication fit together: the token a successful provisioning returns
  authenticates as the new server under the new key from then on, every token that was accepted
  before is accepted as the same agent, and the constraints of the tables keep holding.\<close>

theorem provisioned_agent_authenticates:
  assumes "access_inv s" "urlsafe p" "urlsafe secret"
    "provision_test_server sha256 s now name hostname label p secret = Inr (s', pa)"
  shows "access_inv s'
    \<and> authenticate_agent sha256 s' (pa_token pa) later
        = Inr \<lparr>aa_key_id = pa_key_id pa, aa_server_id = pa_server_id pa, aa_public_id = pa_public_id pa\<rparr>
    \<and> (\<forall>token a. authenticate_agent sha256 s token later = Inr a
         \<longrightarrow> authenticate_agent sha256 s' token later = Inr a)"
proof -
  note inv' = provision_inv [OF assms(1,4)]
  from assms(4) obtain v k where *: "s' = s\<lparr>st_servers := st_servers s @ [v], st_agent_keys := st_agent_keys s @ [k],
      st_main := (st_main s)\<lparr>next_uuid := next_uuid (st_main s) + 2\<rparr>\<rparr>" "sv_is_active v"
    "k = new_agent_key (Suc (next_uuid (st_main s))) (sv_id v) now (generate_agent_api_key sha256 p secret) label"
    "pa = \<lparr>pa_server_id = sv_id v, pa_key_id = ak_id k, pa_public_id = p, pa_token = agent_token p secret\<rparr>"
    by (rule provision_Inr) blast
  have k: "ak_server_id k = sv_id v" "ak_public_id k = p" "ak_secret_hash k = hash_secret sha256 secret"
    "key_usable later k" by (simp_all add: *(3) new_agent_key_def generate_agent_api_key_def key_usable_def)
  have "valid_credential sha256 s' (pa_token pa) later k v"
    using k urlsafe_parts [OF assms(2)] urlsafe_parts [OF assms(3)]
    by (auto simp: valid_credential_def *(1,4))
  with *(2,4) k have "authenticate_agent sha256 s' (pa_token pa) later
      = Inr \<lparr>aa_key_id = pa_key_id pa, aa_server_id = pa_server_id pa, aa_public_id = pa_public_id pa\<rparr>"
    unfolding authenticate_agent_iff [OF inv'] by (intro exI [of _ k] exI [of _ v]) simp
  moreover have "valid_credential sha256 s' token later k0 v0" if "valid_credential sha256 s token later k0 v0" for token k0 v0
    using that by (auto simp: valid_credential_def *(1))
  then have "authenticate_agent sha256 s' token later = Inr a" if "authenticate_agent sha256 s token later = Inr a" for token a
    using that unfolding authenticate_agent_iff [OF inv'] authenticate_agent_iff [OF assms(1)] by blast
  ultimately show ?thesis using inv' by blast
qed

theorem provisioned_agent_authenticates_witness:
  "\<exists>s' pa. provision_test_server sample_sha256 sample_site 0 [99] [100] None ''new-id'' ''s3cret'' = Inr (s', pa)
     \<and> authenticate_agent sample_sha256 s' (pa_token pa) 7 = Inr \<lparr>aa_key_id = 21, aa_server_id = 20, aa_public_id = ''new-id''\<rparr>"
proof -
  have sp: "\<not> is_space 99" "\<not> is_space 100" by (simp_all add: is_space_def)
  have len: "length (hash_secret sample_sha256 x) = 32" for x by (simp add: hash_secret_def sample_sha256_def)
  have "\<exists>s'. provision_test_server sample_sha256 sample_site 0 [99] [100] None ''new-id'' ''s3cret'' = Inr (s',
      \<lparr>pa_server_id = 20, pa_key_id = 21, pa_public_id = ''new-id'', pa_token = agent_token ''new-id'' ''s3cret''\<rparr>)"
    by (simp add: provision_test_server_def strip_of_def sp uuid4_def Let_def insert_server_def insert_agent_key_def
        sample_site_def generate_agent_api_key_def new_agent_key_def db_empty_def len agent_token_def)
  then obtain s' pa where run:
    "provision_test_server sample_sha256 sample_site 0 [99] [100] None ''new-id'' ''s3cret'' = Inr (s', pa)"
    "pa_key_id pa = 21" "pa_server_id pa = 20" "pa_public_id pa = ''new-id''" by force
  have "urlsafe ''new-id''" "urlsafe ''s3cret''" by code_simp+
  from provisioned_agent_authenticates [OF sample_site_inv this run(1)] run show ?thesis by auto
qed

text \<open>C0: A token whose public part has a character outside ASCII is not refused: whatever the tables
  hold, the comparison raises \<open>TypeError\<close>, an exception the ingestion handler does not translate into a
  refusal, although nothing about the request was authenticated.\<close>

theorem non_ascii_token_raises:
  assumes "access_inv s" "split_agent_token token = Some (p, secret)" "\<not> is_ascii p"
  shows "authenticate_agent sha256 s token now
    = Inl (TypeError ''comparing strings with non-ASCII characters is not supported'')"
proof -
  have "\<forall>k \<in> set (st_agent_keys s). length (ak_secret_hash k) = 32" using assms(1) by (simp add: access_inv_def)
  then show ?thesis using assms(2,3)
    by (auto simp: authenticate_agent_def parse_agent_api_key_public_id_def verify_agent_api_key_def
        secret_hash_size_def compare_text_def split: option.split dest!: find_row_SomeD)
qed

theorem non_ascii_token_raises_witness:
  "authenticate_agent sample_sha256 sample_site (agent_token [CHR 0xE9] ''x'') 50
    = Inl (TypeError ''comparing strings with non-ASCII characters is not supported'')"
proof (rule non_ascii_token_raises [OF sample_site_inv, where p = "[CHR 0xE9]" and secret = "''x''"])
  show "split_agent_token (agent_token [CHR 0xE9] ''x'') = Some ([CHR 0xE9], ''x'')"
    unfolding split_agent_token_iff by (simp add: plain_part_def)
  show "\<not> is_ascii [CHR 0xE9]" by (simp add: is_ascii_def)
qed

end
