(* ===== verification/Rate_Limit.thy ===== *)
theory Rate_Limit
  imports Guard_Prelude "HOL-Library.Sublist"
begin

text \<open>
  \<open>application/rate_limit.py\<close> and \<open>application/login_rate_limit.py\<close>: process-local limiters over
  queues of request times. The clock's readings (seconds of a monotonic clock, rational) are
  arguments of the operations; the lock has no effect in a model that runs one call at a time. A
  \<open>defaultdict(deque)\<close> is a function to lists, an \<open>OrderedDict\<close> an association list.
\<close>

section \<open>One window\<close>

text \<open>\<open>max(1, ceil(x))\<close>.\<close>

definition retry_seconds :: "rat \<Rightarrow> int" where
  "retry_seconds x = max 1 \<lceil>x\<rceil>"

text \<open>
  \<open>_consume_window\<close>, and the body of \<open>FixedWindowRateLimiter.consume\<close>: entries that left the window
  are popped from the left, then the request is either refused with a delay or recorded.
\<close>

definition consume_window :: "rat \<Rightarrow> int \<Rightarrow> int \<Rightarrow> rat list \<Rightarrow> (rat list \<times> int option) result" where
  "consume_window now limit window requests =
     (let live = dropWhile (\<lambda>t. t \<le> now - of_int window) requests in
      if limit \<le> int (length live)
      then (case live of
              [] \<Rightarrow> Inl (IndexError ''deque index out of range'')
            | t # _ \<Rightarrow> Inr (live, Some (retry_seconds (t + of_int window - now))))
      else Inr (live @ [now], None))"

section \<open>Limiters by key\<close>

record rate_limiter =
  rl_max_requests :: int
  rl_window_seconds :: int
  rl_requests :: "string \<Rightarrow> rat list"

definition make_limiter :: "int \<Rightarrow> int \<Rightarrow> rate_limiter" where
  "make_limiter max_requests window_seconds =
     \<lparr>rl_max_requests = max_requests, rl_window_seconds = window_seconds, rl_requests = (\<lambda>_. [])\<rparr>"

definition consume :: "rat \<Rightarrow> string \<Rightarrow> rate_limiter \<Rightarrow> (rate_limiter \<times> int option) result" where
  "consume now k l = bind_r (consume_window now (rl_max_requests l) (rl_window_seconds l) (rl_requests l k))
     (\<lambda>(q, retry). Inr (l\<lparr>rl_requests := (rl_requests l)(k := q)\<rparr>, retry))"

definition reset_limiter :: "rate_limiter \<Rightarrow> rate_limiter" where
  "reset_limiter l = l\<lparr>rl_requests := (\<lambda>_. [])\<rparr>"

section \<open>The limiter of log-in attempts\<close>

record login_limiter =
  ll_global_limit :: int
  ll_global_window :: int
  ll_subject_limit :: int
  ll_subject_window :: int
  ll_malformed_limit :: int
  ll_malformed_window :: int
  ll_max_subject_buckets :: int
  ll_process_key :: string
  ll_global_requests :: "rat list"
  ll_malformed_requests :: "rat list"
  ll_subject_requests :: "(string \<times> rat list) list"

datatype login_scope = Global_Scope | Malformed_Scope | Capacity_Scope | Subject_Scope

type_synonym login_decision = "(int \<times> login_scope) option"

definition make_login_limiter ::
  "int \<Rightarrow> int \<Rightarrow> int \<Rightarrow> int \<Rightarrow> int \<Rightarrow> int \<Rightarrow> int \<Rightarrow> string \<Rightarrow> login_limiter result" where
  "make_login_limiter gl gw sl sw ml mw buckets k =
     bind_r (guard_r (list_all (\<lambda>v. 0 < v) [gl, gw, sl, sw, ml, mw, buckets])
       (ValueError ''login limiter values must be positive integers'')) (\<lambda>_.
     bind_r (guard_r (32 \<le> length k) (ValueError ''login limiter process key is too short'')) (\<lambda>_.
     Inr \<lparr>ll_global_limit = gl, ll_global_window = gw, ll_subject_limit = sl, ll_subject_window = sw,
       ll_malformed_limit = ml, ll_malformed_window = mw, ll_max_subject_buckets = buckets,
       ll_process_key = k, ll_global_requests = [], ll_malformed_requests = [], ll_subject_requests = []\<rparr>))"

text \<open>\<open>_cleanup_subjects\<close>: expired entries leave every bucket and empty buckets leave the table.\<close>

definition cleanup_subjects :: "rat \<Rightarrow> int \<Rightarrow> (string \<times> rat list) list \<Rightarrow> (string \<times> rat list) list" where
  "cleanup_subjects now window buckets =
     filter (\<lambda>(_, q). q \<noteq> []) (map (\<lambda>(k, q). (k, dropWhile (\<lambda>t. t \<le> now - of_int window) q)) buckets)"

text \<open>The bucket becomes the most recent one with its new queue (\<open>move_to_end\<close>, or a new entry).\<close>

definition put_last :: "string \<Rightarrow> rat list \<Rightarrow> (string \<times> rat list) list \<Rightarrow> (string \<times> rat list) list" where
  "put_last k q buckets = filter (\<lambda>(j, _). j \<noteq> k) buckets @ [(k, q)]"

definition scoped :: "login_scope \<Rightarrow> int option \<Rightarrow> login_decision" where
  "scoped sc retry = map_option (\<lambda>n. (n, sc)) retry"

text \<open>
  \<open>LoginRateLimiter.consume\<close>; \<open>public_id\<close> is \<open>parse_operator_api_key_public_id(credential)\<close> and
  \<open>hmac\<close> the keyed digest.
\<close>

definition login_consume ::
  "(string \<Rightarrow> string \<Rightarrow> string) \<Rightarrow> (string \<Rightarrow> string option) \<Rightarrow> rat \<Rightarrow> string \<Rightarrow> login_limiter
    \<Rightarrow> (login_limiter \<times> login_decision) result" where
  "login_consume hmac public_id now credential l =
     bind_r (consume_window now (ll_global_limit l) (ll_global_window l) (ll_global_requests l)) (\<lambda>(g, retry).
     let l1 = l\<lparr>ll_global_requests := g\<rparr> in
     if retry \<noteq> None then Inr (l1, scoped Global_Scope retry)
     else case public_id credential of
       None \<Rightarrow>
         bind_r (consume_window now (ll_malformed_limit l) (ll_malformed_window l) (ll_malformed_requests l)) (\<lambda>(m, retry).
         Inr (l1\<lparr>ll_malformed_requests := m\<rparr>, scoped Malformed_Scope retry))
     | Some pid \<Rightarrow>
       let buckets = cleanup_subjects now (ll_subject_window l) (ll_subject_requests l);
           k = hmac (ll_process_key l) pid in
       if map_of buckets k = None \<and> ll_max_subject_buckets l \<le> int (length buckets)
       then Inr (l1\<lparr>ll_subject_requests := buckets\<rparr>, Some (ll_subject_window l, Capacity_Scope))
       else bind_r (consume_window now (ll_subject_limit l) (ll_subject_window l)
           (case map_of buckets k of None \<Rightarrow> [] | Some q \<Rightarrow> q)) (\<lambda>(q, retry).
         Inr (l1\<lparr>ll_subject_requests := put_last k q buckets\<rparr>, scoped Subject_Scope retry)))"

section \<open>Any number of requests\<close>

text \<open>The decisions of a limiter on a series of requests, in order; an exception ends the series.\<close>

fun run_limiter :: "rate_limiter \<Rightarrow> (rat \<times> string) list \<Rightarrow> (rate_limiter \<times> int option list) result" where
  "run_limiter l [] = Inr (l, [])"
| "run_limiter l ((now, k) # rs) =
     bind_r (consume now k l) (\<lambda>(l1, d). bind_r (run_limiter l1 rs) (\<lambda>(l2, ds). Inr (l2, d # ds)))"

text \<open>The times at which requests of a key were let through.\<close>

definition granted :: "string \<Rightarrow> (rat \<times> string) list \<Rightarrow> int option list \<Rightarrow> rat list" where
  "granted k rs ds = map (fst \<circ> fst) (filter (\<lambda>((_, j), d). j = k \<and> d = None) (zip rs ds))"

definition in_span :: "rat \<Rightarrow> rat \<Rightarrow> rat list \<Rightarrow> nat" where
  "in_span from til ts = length (filter (\<lambda>t. from < t \<and> t \<le> til) ts)"

text \<open>
  The specification of one decision, given the times granted before: let through when fewer than the
  limit lie in the window that ends now; otherwise refused with the least whole number of seconds, at
  least one, after which a request is let through if nothing else is granted meanwhile.
\<close>

definition decision_ok :: "int \<Rightarrow> int \<Rightarrow> rat list \<Rightarrow> rat \<Rightarrow> int option \<Rightarrow> bool" where
  "decision_ok limit window ts now d \<longleftrightarrow> (case d of
     None \<Rightarrow> int (in_span (now - of_int window) now ts) < limit
   | Some n \<Rightarrow> limit \<le> int (in_span (now - of_int window) now ts) \<and> 1 \<le> n
       \<and> int (in_span (now + of_int n - of_int window) (now + of_int n) ts) < limit
       \<and> (\<forall>m. 1 \<le> m \<and> m < n \<longrightarrow> limit \<le> int (in_span (now + of_int m - of_int window) (now + of_int m) ts)))"

section \<open>The queue holds what the window needs\<close>

definition tracks :: "rat \<Rightarrow> int \<Rightarrow> rat list \<Rightarrow> rat list \<Rightarrow> bool" where
  "tracks now window q ts \<longleftrightarrow> sorted ts \<and> (\<forall>t \<in> set ts. t \<le> now)
     \<and> (\<exists>p. ts = p @ q \<and> (\<forall>t \<in> set p. t \<le> now - of_int window))"

lemma dropWhile_sorted: "sorted xs \<Longrightarrow> dropWhile (\<lambda>t. t \<le> c) xs = filter (\<lambda>t. c < t) xs"
  for c :: rat
proof (induction xs)
  case (Cons x xs)
  then show ?case by (cases "x \<le> c") (auto intro!: filter_True [symmetric])
qed simp

lemma tracks_live:
  assumes "tracks now window q ts" "now \<le> now'"
  shows "dropWhile (\<lambda>t. t \<le> now' - of_int window) q = filter (\<lambda>t. now' - of_int window < t) ts"
proof -
  from assms(1) obtain p where p: "ts = p @ q" "\<forall>t \<in> set p. t \<le> now - of_int window" "sorted ts"
    by (auto simp: tracks_def)
  then have "filter (\<lambda>t. now' - of_int window < t) p = []"
    using assms(2) by (auto simp: filter_empty_conv not_less intro: order_trans)
  moreover have "sorted q" using p(1,3) by (simp add: sorted_append)
  ultimately show ?thesis by (simp add: p(1) dropWhile_sorted)
qed

lemma tracks_step:
  assumes "tracks now window q ts" "now \<le> now'"
  shows "tracks now' window (filter (\<lambda>t. now' - of_int window < t) ts) ts"
proof -
  have srt: "sorted ts" and le: "\<forall>t \<in> set ts. t \<le> now" using assms(1) by (simp_all add: tracks_def)
  have "ts = takeWhile (\<lambda>t. t \<le> now' - of_int window) ts @ filter (\<lambda>t. now' - of_int window < t) ts"
    using takeWhile_dropWhile_id [of "\<lambda>t. t \<le> now' - of_int window" ts] by (simp add: dropWhile_sorted [OF srt])
  moreover have "\<forall>t \<in> set (takeWhile (\<lambda>t. t \<le> now' - of_int window) ts). t \<le> now' - of_int window"
    by (auto dest: set_takeWhileD)
  ultimately show ?thesis using srt le assms(2) unfolding tracks_def by fastforce
qed

lemma tracks_snoc:
  assumes "tracks now window q ts"
  shows "tracks now window (q @ [now]) (ts @ [now])"
  using assms by (auto simp: tracks_def sorted_append)

lemma in_span_all: "\<forall>t \<in> set ts. t \<le> til \<Longrightarrow> in_span from til ts = length (filter (\<lambda>t. from < t) ts)"
  unfolding in_span_def by (intro arg_cong [of _ _ length] filter_cong) auto

lemma in_span_mono:
  assumes "\<forall>t \<in> set ts. t \<le> til" "from \<le> from'"
  shows "in_span from' til' ts \<le> in_span from til ts"
proof -
  have "filter (\<lambda>t. from' < t \<and> t \<le> til') ts = filter (\<lambda>t. from' < t \<and> t \<le> til') (filter (\<lambda>t. from < t \<and> t \<le> til) ts)"
    using assms unfolding filter_filter by (intro filter_cong) auto
  then show ?thesis unfolding in_span_def by (metis length_filter_le)
qed

lemma retry_bounds: "1 \<le> retry_seconds x" "x \<le> of_int (retry_seconds x)"
    "1 \<le> m \<Longrightarrow> m < retry_seconds x \<Longrightarrow> of_int m < x"
  by (auto simp: retry_seconds_def max_def le_of_int_ceiling less_ceiling_iff split: if_splits)

text \<open>No window of the given length, wherever it ends, holds more than the limit.\<close>

definition bounded_rate :: "int \<Rightarrow> int \<Rightarrow> rat list \<Rightarrow> bool" where
  "bounded_rate limit window ts \<longleftrightarrow> (\<forall>t. int (in_span (t - of_int window) t ts) \<le> limit)"

lemma bounded_rate_snoc:
  assumes "bounded_rate limit window ts" "\<forall>t \<in> set ts. t \<le> now"
    "int (in_span (now - of_int window) now ts) < limit"
  shows "bounded_rate limit window (ts @ [now])"
  unfolding bounded_rate_def
proof
  fix t :: rat
  show "int (in_span (t - of_int window) t (ts @ [now])) \<le> limit"
  proof (cases "t - of_int window < now \<and> now \<le> t")
    case True
    then have "in_span (t - of_int window) t ts \<le> in_span (now - of_int window) now ts"
      using assms(2) by (intro in_span_mono) auto
    then show ?thesis using assms(3) True by (simp add: in_span_def)
  next
    case False
    then have "in_span (t - of_int window) t (ts @ [now]) = in_span (t - of_int window) t ts"
      by (auto simp: in_span_def)
    with assms(1) show ?thesis by (simp add: bounded_rate_def)
  qed
qed

text \<open>The delay of a refusal: the first entry of a full window leaves it.\<close>

lemma refusal_delay:
  assumes le: "\<forall>t \<in> set ts. t \<le> now" and srt: "sorted ts"
    and live: "filter (\<lambda>t. now - of_int window < t) ts = t # ts'" "int (length (t # ts')) = limit"
  shows "decision_ok limit window ts now (Some (retry_seconds (t + of_int window - now)))"
proof -
  let ?w = "of_int window :: rat"
  define n where "n = retry_seconds (t + ?w - now)"
  have n: "1 \<le> n" "t + ?w - now \<le> of_int n" "\<And>m. 1 \<le> m \<Longrightarrow> m < n \<Longrightarrow> of_int m < t + ?w - now"
    using retry_bounds by (simp_all add: n_def)
  have late: "in_span (now + of_int m - ?w) (now + of_int m) ts = length (filter (\<lambda>t. now + of_int m - ?w < t) (t # ts'))"
    if "0 \<le> m" for m
  proof -
    have m: "(0::rat) \<le> of_int m" using that by simp
    then have "\<forall>t \<in> set ts. t \<le> now + of_int m" using le by fastforce
    then have "in_span (now + of_int m - ?w) (now + of_int m) ts = length (filter (\<lambda>t. now + of_int m - ?w < t) ts)"
      by (rule in_span_all)
    also have "filter (\<lambda>t. now + of_int m - ?w < t) ts
        = filter (\<lambda>t. now + of_int m - ?w < t) (filter (\<lambda>t. now - ?w < t) ts)"
      unfolding filter_filter using m by (intro filter_cong) auto
    finally show ?thesis by (simp only: live(1))
  qed
  have slt: "sorted (t # ts')" unfolding live(1) [symmetric] using srt by (rule sorted_filter [of id, simplified])
  have now: "in_span (now - ?w) now ts = length (t # ts')" using late [of 0] live(1)
    by (metis (no_types, lifting) add.right_neutral in_span_all le of_int_0 order_refl)
  have "\<not> now + of_int n - ?w < t" using n(2) by simp
  then have "filter (\<lambda>t. now + of_int n - ?w < t) (t # ts') = filter (\<lambda>t. now + of_int n - ?w < t) ts'" by simp
  then have "in_span (now + of_int n - ?w) (now + of_int n) ts \<le> length ts'" using late [of n] n(1) by simp
  then have free: "int (in_span (now + of_int n - ?w) (now + of_int n) ts) < limit" using live(2) by simp
  have "limit \<le> int (in_span (now + of_int m - ?w) (now + of_int m) ts)" if "1 \<le> m" "m < n" for m
  proof -
    have "now + of_int m - ?w < t" using n(3) [OF that] by simp
    then have "filter (\<lambda>t. now + of_int m - ?w < t) (t # ts') = t # ts'"
      using slt by (intro filter_True) auto
    then show ?thesis using late [of m] that(1) live(2) by simp
  qed
  with free n(1) now live(2) show ?thesis by (simp add: decision_ok_def n_def [symmetric])
qed

lemma consume_window_decides:
  assumes tr: "tracks now window q ts" "bounded_rate limit window ts" and now: "now \<le> now'" and pos: "0 < limit"
  obtains q' d where "consume_window now' limit window q = Inr (q', d)" "decision_ok limit window ts now' d"
    "tracks now' window q' (ts @ (if d = None then [now'] else []))"
    "bounded_rate limit window (ts @ (if d = None then [now'] else []))"
proof -
  let ?w = "of_int window :: rat"
  let ?live = "filter (\<lambda>t. now' - ?w < t) ts"
  note live = tracks_live [OF tr(1) now]
  have le: "\<forall>t \<in> set ts. t \<le> now'" and srt: "sorted ts" using tr(1) now by (auto simp: tracks_def)
  have span: "in_span (now' - ?w) now' ts = length ?live" using le by (rule in_span_all)
  show thesis
  proof (cases "limit \<le> int (length ?live)")
    case False
    then have ok: "decision_ok limit window ts now' None" by (simp add: decision_ok_def span)
    from False have "consume_window now' limit window q = Inr (?live @ [now'], None)"
      by (simp add: consume_window_def live Let_def)
    moreover note ok tracks_snoc [OF tracks_step [OF tr(1) now]]
    moreover have "bounded_rate limit window (ts @ [now'])"
      using tr(2) le False span by (intro bounded_rate_snoc) simp_all
    ultimately show thesis by (intro that [of "?live @ [now']" None]) simp_all
  next
    case True
    with pos obtain t ts' where t: "?live = t # ts'" by (cases ?live) auto
    have "int (length (t # ts')) = limit"
      using True tr(2) span unfolding bounded_rate_def t [symmetric] by (metis order_antisym)
    from refusal_delay [OF le srt t this]
    have "decision_ok limit window ts now' (Some (retry_seconds (t + ?w - now')))" .
    moreover have "consume_window now' limit window q = Inr (?live, Some (retry_seconds (t + ?w - now')))"
      using True by (simp add: consume_window_def live Let_def t)
    ultimately show thesis using tracks_step [OF tr(1) now] tr(2)
      by (intro that [of ?live "Some (retry_seconds (t + ?w - now'))"]) simp_all
  qed
qed

section \<open>Limiters over series of requests\<close>

definition limiter_tracks :: "rat \<Rightarrow> rate_limiter \<Rightarrow> (string \<Rightarrow> rat list) \<Rightarrow> bool" where
  "limiter_tracks now l h \<longleftrightarrow> (\<forall>k. tracks now (rl_window_seconds l) (rl_requests l k) (h k)
     \<and> bounded_rate (rl_max_requests l) (rl_window_seconds l) (h k))"

lemma tracks_mono: "tracks now window q ts \<Longrightarrow> now \<le> now' \<Longrightarrow> tracks now' window q ts"
  unfolding tracks_def by fastforce

lemma granted_Cons: "granted k ((now, j) # rs) (d # ds) = (if j = k \<and> d = None then [now] else []) @ granted k rs ds"
  by (simp add: granted_def)

lemma granted_Nil [simp]: "granted k [] ds = []"
  by (simp add: granted_def)

lemma run_limiter_decides:
  assumes "limiter_tracks now l h" "0 < rl_max_requests l" "sorted (now # map fst rs)"
  shows "\<exists>l' ds. run_limiter l rs = Inr (l', ds) \<and> length ds = length rs
    \<and> (\<forall>i < length rs. decision_ok (rl_max_requests l) (rl_window_seconds l)
          (h (snd (rs ! i)) @ granted (snd (rs ! i)) (take i rs) (take i ds)) (fst (rs ! i)) (ds ! i))
    \<and> (\<forall>k. bounded_rate (rl_max_requests l) (rl_window_seconds l) (h k @ granted k rs ds))"
  using assms
proof (induction rs arbitrary: now l h)
  case Nil
  then show ?case by (simp add: limiter_tracks_def)
next
  case (Cons r rs)
  obtain t k where r: "r = (t, k)" by (cases r)
  have t: "now \<le> t" "sorted (t # map fst rs)" using Cons.prems(3) by (simp_all add: r)
  from Cons.prems(1) have tr: "tracks now (rl_window_seconds l) (rl_requests l j) (h j)"
    "bounded_rate (rl_max_requests l) (rl_window_seconds l) (h j)" for j by (simp_all add: limiter_tracks_def)
  from consume_window_decides [OF tr [of k] t(1) Cons.prems(2)] obtain q d where
    q: "consume_window t (rl_max_requests l) (rl_window_seconds l) (rl_requests l k) = Inr (q, d)"
      "decision_ok (rl_max_requests l) (rl_window_seconds l) (h k) t d"
      "tracks t (rl_window_seconds l) q (h k @ (if d = None then [t] else []))"
      "bounded_rate (rl_max_requests l) (rl_window_seconds l) (h k @ (if d = None then [t] else []))" by blast
  let ?l = "l\<lparr>rl_requests := (rl_requests l)(k := q)\<rparr>"
  let ?h = "\<lambda>j. h j @ (if k = j \<and> d = None then [t] else [])"
  have "limiter_tracks t ?l ?h"
    unfolding limiter_tracks_def using q(3,4) tracks_mono [OF tr(1) t(1)] tr(2) by auto
  from Cons.IH [OF this _ t(2)] Cons.prems(2) obtain l' ds where IH: "run_limiter ?l rs = Inr (l', ds)" "length ds = length rs"
    "\<forall>i < length rs. decision_ok (rl_max_requests l) (rl_window_seconds l)
       (?h (snd (rs ! i)) @ granted (snd (rs ! i)) (take i rs) (take i ds)) (fst (rs ! i)) (ds ! i)"
    "\<forall>j. bounded_rate (rl_max_requests l) (rl_window_seconds l) (?h j @ granted j rs ds)" by auto
  have "run_limiter l (r # rs) = Inr (l', d # ds)" using q(1) IH(1) by (simp add: r consume_def)
  moreover have "decision_ok (rl_max_requests l) (rl_window_seconds l)
      (h (snd ((r # rs) ! i)) @ granted (snd ((r # rs) ! i)) (take i (r # rs)) (take i (d # ds)))
      (fst ((r # rs) ! i)) ((d # ds) ! i)" if "i < length (r # rs)" for i
    using that q(2) IH(3) by (cases i) (simp_all add: r granted_Cons)
  moreover have "bounded_rate (rl_max_requests l) (rl_window_seconds l) (h j @ granted j (r # rs) (d # ds))" for j
    using IH(4) by (simp add: r granted_Cons)
  ultimately show ?case using IH(2) by (intro exI [of _ l'] exI [of _ "d # ds"]) simp
qed

section \<open>Series of log-in attempts\<close>

fun run_login ::
  "(string \<Rightarrow> string \<Rightarrow> string) \<Rightarrow> (string \<Rightarrow> string option) \<Rightarrow> login_limiter \<Rightarrow> (rat \<times> string) list
    \<Rightarrow> (login_limiter \<times> login_decision list) result" where
  "run_login hmac pid l [] = Inr (l, [])"
| "run_login hmac pid l ((now, c) # rs) = bind_r (login_consume hmac pid now c l) (\<lambda>(l1, d).
     bind_r (run_login hmac pid l1 rs) (\<lambda>(l2, ds). Inr (l2, d # ds)))"

text \<open>The times of the attempts let through whose credential satisfies a condition.\<close>

definition attempts :: "(string \<Rightarrow> bool) \<Rightarrow> (rat \<times> string) list \<Rightarrow> login_decision list \<Rightarrow> rat list" where
  "attempts P rs ds = map (fst \<circ> fst) (filter (\<lambda>((_, c), d). P c \<and> d = None) (zip rs ds))"

lemma attempts_Cons: "attempts P ((now, c) # rs) (d # ds) = (if P c \<and> d = None then [now] else []) @ attempts P rs ds"
  by (simp add: attempts_def)

lemma attempts_Nil [simp]: "attempts P [] ds = []"
  by (simp add: attempts_def)

definition bucket_of :: "(string \<times> rat list) list \<Rightarrow> string \<Rightarrow> rat list" where
  "bucket_of b k = (case map_of b k of None \<Rightarrow> [] | Some q \<Rightarrow> q)"

lemma cleanup_keys: "set (map fst (cleanup_subjects now w b)) \<subseteq> set (map fst b)"
  by (force simp: cleanup_subjects_def)

lemma cleanup_distinct: "distinct (map fst b) \<Longrightarrow> distinct (map fst (cleanup_subjects now w b))"
  unfolding cleanup_subjects_def by (rule distinct_map_filter) (simp add: comp_def case_prod_beta)

lemma cleanup_length: "length (cleanup_subjects now w b) \<le> length b"
  unfolding cleanup_subjects_def by (metis length_filter_le length_map)

lemma cleanup_Cons: "cleanup_subjects now w ((j, q) # b) =
    (let q' = dropWhile (\<lambda>t. t \<le> now - of_int w) q in
     if q' = [] then cleanup_subjects now w b else (j, q') # cleanup_subjects now w b)"
  by (simp add: cleanup_subjects_def Let_def)

lemma bucket_of_Cons [simp]: "bucket_of ((j, q) # b) k = (if j = k then q else bucket_of b k)"
  by (simp add: bucket_of_def)

lemma bucket_of_out: "k \<notin> set (map fst b) \<Longrightarrow> bucket_of b k = []"
  by (simp add: bucket_of_def map_of_eq_None_iff [THEN iffD2])

lemma bucket_cleanup:
  "distinct (map fst b) \<Longrightarrow> bucket_of (cleanup_subjects now w b) k = dropWhile (\<lambda>t. t \<le> now - of_int w) (bucket_of b k)"
proof (induction b)
  case (Cons x b)
  obtain j q where x: "x = (j, q)" by (cases x)
  have "bucket_of (cleanup_subjects now w b) j = []"
    using Cons.prems cleanup_keys [of now w b] by (intro bucket_of_out) (auto simp: x)
  moreover have "bucket_of b j = []" using Cons.prems by (intro bucket_of_out) (simp add: x)
  moreover obtain q' where "dropWhile (\<lambda>t. t \<le> now - of_int w) q = q'" by blast
  moreover have "bucket_of (cleanup_subjects now w b) k = dropWhile (\<lambda>t. t \<le> now - of_int w) (bucket_of b k)"
    using Cons by (simp add: x)
  ultimately show ?case
    by (cases "j = k"; cases "q' = []") (simp_all add: x cleanup_Cons Let_def del: dropWhile_eq_Nil_conv)
qed (simp add: bucket_of_def cleanup_subjects_def)

lemma put_last_map_of: "map_of (put_last k q b) j = (if j = k then Some q else map_of b j)"
  by (induction b) (auto simp: put_last_def map_add_def split: option.split if_splits)

lemma put_last_distinct: "distinct (map fst b) \<Longrightarrow> distinct (map fst (put_last k q b))"
  by (auto simp: put_last_def distinct_map_filter)

lemma put_last_length:
  "distinct (map fst b) \<Longrightarrow> length (put_last k q b) = length b + (case map_of b k of None \<Rightarrow> 1 | Some _ \<Rightarrow> 0)"
proof (induction b)
  case (Cons x b)
  obtain j q' where x: "x = (j, q')" by (cases x)
  show ?case
  proof (cases "j = k")
    case True
    with Cons.prems have "filter (\<lambda>(j, _). j \<noteq> k) b = b" by (intro filter_True) (force simp: x)
    with True show ?thesis by (simp add: put_last_def x)
  next
    case False
    with Cons show ?thesis by (simp add: put_last_def x split: option.splits)
  qed
qed (simp add: put_last_def)

text \<open>The limiter's tables against the attempts that passed each of its counters.\<close>

definition login_tracks ::
  "rat \<Rightarrow> login_limiter \<Rightarrow> rat list \<Rightarrow> rat list \<Rightarrow> (string \<Rightarrow> rat list) \<Rightarrow> bool" where
  "login_tracks now l g m s \<longleftrightarrow>
     tracks now (ll_global_window l) (ll_global_requests l) g
     \<and> bounded_rate (ll_global_limit l) (ll_global_window l) g
     \<and> tracks now (ll_malformed_window l) (ll_malformed_requests l) m
     \<and> bounded_rate (ll_malformed_limit l) (ll_malformed_window l) m
     \<and> (\<forall>k. tracks now (ll_subject_window l) (bucket_of (ll_subject_requests l) k) (s k)
          \<and> bounded_rate (ll_subject_limit l) (ll_subject_window l) (s k))
     \<and> distinct (map fst (ll_subject_requests l))
     \<and> int (length (ll_subject_requests l)) \<le> ll_max_subject_buckets l"

definition login_limits_ok :: "login_limiter \<Rightarrow> bool" where
  "login_limits_ok l \<longleftrightarrow> 0 < ll_global_limit l \<and> 0 < ll_subject_limit l \<and> 0 < ll_malformed_limit l
     \<and> 0 < ll_max_subject_buckets l"

definition same_limits :: "login_limiter \<Rightarrow> login_limiter \<Rightarrow> bool" where
  "same_limits l l' \<longleftrightarrow> l' = l\<lparr>ll_global_requests := ll_global_requests l',
     ll_malformed_requests := ll_malformed_requests l', ll_subject_requests := ll_subject_requests l'\<rparr>"

lemma same_limitsD:
  "same_limits l l' \<Longrightarrow> ll_global_limit l' = ll_global_limit l \<and> ll_global_window l' = ll_global_window l
    \<and> ll_subject_limit l' = ll_subject_limit l \<and> ll_subject_window l' = ll_subject_window l
    \<and> ll_malformed_limit l' = ll_malformed_limit l \<and> ll_malformed_window l' = ll_malformed_window l
    \<and> ll_max_subject_buckets l' = ll_max_subject_buckets l \<and> ll_process_key l' = ll_process_key l"
  by (cases l; cases l') (simp add: same_limits_def)

lemma tracks_cleanup:
  assumes "distinct (map fst b)" "\<forall>k. tracks now w (bucket_of b k) (s k)" "now \<le> now'"
  shows "tracks now' w (bucket_of (cleanup_subjects now' w b) k) (s k)"
  unfolding bucket_cleanup [OF assms(1)] tracks_live [OF spec [OF assms(2)] assms(3)]
  by (rule tracks_step [OF spec [OF assms(2)] assms(3)])

lemma bucket_put_last: "bucket_of (put_last k q b) j = (if j = k then q else bucket_of b j)"
  by (simp add: bucket_of_def put_last_map_of)

lemma login_consume_tracks:
  assumes tr: "login_tracks now l g m s" and ok: "login_limits_ok l" and now: "now \<le> now'"
  shows "\<exists>l' d G. login_consume hmac pid now' c l = Inr (l', d) \<and> same_limits l l'
    \<and> (G = [now'] \<or> G = [] \<and> d \<noteq> None)
    \<and> login_tracks now' l' (g @ G) (m @ (if pid c = None \<and> d = None then [now'] else []))
        (\<lambda>k. s k @ (if (\<exists>p. pid c = Some p \<and> hmac (ll_process_key l) p = k) \<and> d = None then [now'] else []))"
proof -
  have pos: "0 < ll_global_limit l" "0 < ll_subject_limit l" "0 < ll_malformed_limit l"
    using ok by (simp_all add: login_limits_ok_def)
  have G: "tracks now (ll_global_window l) (ll_global_requests l) g" "bounded_rate (ll_global_limit l) (ll_global_window l) g"
    and M: "tracks now (ll_malformed_window l) (ll_malformed_requests l) m"
      "bounded_rate (ll_malformed_limit l) (ll_malformed_window l) m"
    and S: "\<forall>k. tracks now (ll_subject_window l) (bucket_of (ll_subject_requests l) k) (s k)"
      "\<forall>k. bounded_rate (ll_subject_limit l) (ll_subject_window l) (s k)"
    and B: "distinct (map fst (ll_subject_requests l))" "int (length (ll_subject_requests l)) \<le> ll_max_subject_buckets l"
    using tr by (simp_all add: login_tracks_def)
  have S': "\<forall>k. tracks now' (ll_subject_window l) (bucket_of (ll_subject_requests l) k) (s k)"
    using S(1) tracks_mono now by blast
  have M': "tracks now' (ll_malformed_window l) (ll_malformed_requests l) m" using M(1) now by (rule tracks_mono)
  obtain gq gd where g: "consume_window now' (ll_global_limit l) (ll_global_window l) (ll_global_requests l) = Inr (gq, gd)"
    "tracks now' (ll_global_window l) gq (g @ (if gd = None then [now'] else []))"
    "bounded_rate (ll_global_limit l) (ll_global_window l) (g @ (if gd = None then [now'] else []))"
    using consume_window_decides [OF G now pos(1)] by blast
  show ?thesis
  proof (cases gd)
    case (Some n)
    let ?l = "l\<lparr>ll_global_requests := gq\<rparr>"
    have "login_consume hmac pid now' c l = Inr (?l, Some (n, Global_Scope))"
      by (simp add: login_consume_def g(1) Some scoped_def)
    moreover have "login_tracks now' ?l g m s"
      using g(2,3) M(2) M' S(2) S' B by (simp add: login_tracks_def Some)
    ultimately show ?thesis
      by (intro exI [of _ ?l] exI [of _ "Some (n, Global_Scope)"] exI [of _ "[]"]) (simp add: same_limits_def)
  next
    case None
    note g = g [unfolded None, simplified]
    show ?thesis
    proof (cases "pid c")
      case pn: None
      obtain mq md where m: "consume_window now' (ll_malformed_limit l) (ll_malformed_window l) (ll_malformed_requests l) = Inr (mq, md)"
        "tracks now' (ll_malformed_window l) mq (m @ (if md = None then [now'] else []))"
        "bounded_rate (ll_malformed_limit l) (ll_malformed_window l) (m @ (if md = None then [now'] else []))"
        using consume_window_decides [OF M now pos(3)] by blast
      let ?l = "l\<lparr>ll_global_requests := gq, ll_malformed_requests := mq\<rparr>" and ?d = "scoped Malformed_Scope md"
      have d: "?d = None \<longleftrightarrow> md = None" by (simp add: scoped_def)
      have "login_consume hmac pid now' c l = Inr (?l, ?d)"
        by (simp add: login_consume_def g(1) m(1) pn)
      moreover have "login_tracks now' ?l (g @ [now']) (m @ (if ?d = None then [now'] else [])) s"
        unfolding d using g(2,3) m(2,3) S(2) S' B by (simp add: login_tracks_def)
      ultimately show ?thesis
        by (intro exI [of _ ?l] exI [of _ ?d] exI [of _ "[now']"]) (simp add: same_limits_def pn)
    next
      case (Some p)
      let ?b = "cleanup_subjects now' (ll_subject_window l) (ll_subject_requests l)"
      let ?k = "hmac (ll_process_key l) p"
      have b: "distinct (map fst ?b)" "int (length ?b) \<le> ll_max_subject_buckets l"
        using cleanup_distinct [OF B(1)] cleanup_length [of now' "ll_subject_window l" "ll_subject_requests l"] B(2) by simp_all
      have tb: "tracks now' (ll_subject_window l) (bucket_of ?b k) (s k)" for k
        using B(1) S(1) now by (rule tracks_cleanup)
      show ?thesis
      proof (cases "map_of ?b ?k = None \<and> ll_max_subject_buckets l \<le> int (length ?b)")
        case True
        let ?l = "l\<lparr>ll_global_requests := gq, ll_subject_requests := ?b\<rparr>" and ?d = "Some (ll_subject_window l, Capacity_Scope)"
        have "login_consume hmac pid now' c l = Inr (?l, ?d)"
          using True by (simp add: login_consume_def g(1) Some Let_def)
        moreover have "login_tracks now' ?l (g @ [now']) m s"
          using g(2,3) M(2) M' S(2) tb b by (simp add: login_tracks_def)
        ultimately show ?thesis
          by (intro exI [of _ ?l] exI [of _ ?d] exI [of _ "[now']"]) (simp add: same_limits_def)
      next
        case False
        obtain q d where q: "consume_window now' (ll_subject_limit l) (ll_subject_window l) (bucket_of ?b ?k) = Inr (q, d)"
          "tracks now' (ll_subject_window l) q (s ?k @ (if d = None then [now'] else []))"
          "bounded_rate (ll_subject_limit l) (ll_subject_window l) (s ?k @ (if d = None then [now'] else []))"
          using consume_window_decides [OF tb spec [OF S(2)] order_refl pos(2)] by blast
        let ?l = "l\<lparr>ll_global_requests := gq, ll_subject_requests := put_last ?k q ?b\<rparr>" and ?d = "scoped Subject_Scope d"
        have d: "?d = None \<longleftrightarrow> d = None" by (simp add: scoped_def)
        have "login_consume hmac pid now' c l = Inr (?l, ?d)"
          using False q(1) by (auto simp: login_consume_def g(1) Some Let_def bucket_of_def)
        moreover have "login_tracks now' ?l (g @ [now']) m (\<lambda>k. s k @ (if ?k = k \<and> ?d = None then [now'] else []))"
          unfolding d using g(2,3) M(2) M' S(2) tb q(2,3) b False
          by (auto simp: login_tracks_def bucket_put_last put_last_distinct put_last_length split: option.split)
        ultimately show ?thesis
          by (intro exI [of _ ?l] exI [of _ ?d] exI [of _ "[now']"]) (simp add: same_limits_def Some)
      qed
    qed
  qed
qed

lemma run_login_tracks:
  assumes "login_tracks now l g m s" "login_limits_ok l" "sorted (now # map fst rs)"
  shows "\<exists>l' ds G now'. run_login hmac pid l rs = Inr (l', ds) \<and> length ds = length rs \<and> same_limits l l'
    \<and> subseq (attempts (\<lambda>_. True) rs ds) G
    \<and> login_tracks now' l' (g @ G) (m @ attempts (\<lambda>c. pid c = None) rs ds)
        (\<lambda>k. s k @ attempts (\<lambda>c. \<exists>p. pid c = Some p \<and> hmac (ll_process_key l) p = k) rs ds)"
  using assms
proof (induction rs arbitrary: now l g m s)
  case Nil
  then show ?case by (intro exI [of _ l] exI [of _ "[]"] exI [of _ now]) (simp add: same_limits_def)
next
  case (Cons r rs)
  obtain t c where r: "r = (t, c)" by (cases r)
  have t: "now \<le> t" "sorted (t # map fst rs)" using Cons.prems(3) by (simp_all add: r)
  from login_consume_tracks [OF Cons.prems(1,2) t(1), of hmac pid c] obtain l1 d G1 where
    one: "login_consume hmac pid t c l = Inr (l1, d)" "same_limits l l1" "G1 = [t] \<or> G1 = [] \<and> d \<noteq> None"
      "login_tracks t l1 (g @ G1) (m @ (if pid c = None \<and> d = None then [t] else []))
        (\<lambda>k. s k @ (if (\<exists>p. pid c = Some p \<and> hmac (ll_process_key l) p = k) \<and> d = None then [t] else []))"
    by blast
  note lim = same_limitsD [OF one(2)]
  have "login_limits_ok l1" using Cons.prems(2) lim by (simp add: login_limits_ok_def)
  from Cons.IH [OF one(4) this t(2)] obtain l' ds G now' where
    IH: "run_login hmac pid l1 rs = Inr (l', ds)" "length ds = length rs" "same_limits l1 l'"
      "subseq (attempts (\<lambda>_. True) rs ds) G"
      "login_tracks now' l' ((g @ G1) @ G) ((m @ (if pid c = None \<and> d = None then [t] else [])) @ attempts (\<lambda>c. pid c = None) rs ds)
        (\<lambda>k. (s k @ (if (\<exists>p. pid c = Some p \<and> hmac (ll_process_key l) p = k) \<and> d = None then [t] else []))
          @ attempts (\<lambda>c. \<exists>p. pid c = Some p \<and> hmac (ll_process_key l) p = k) rs ds)"
    using lim by auto
  have "run_login hmac pid l (r # rs) = Inr (l', d # ds)" using one(1) IH(1) by (simp add: r)
  moreover have "same_limits l l'"
    using one(2) IH(3) by (cases l; cases l1; cases l') (simp add: same_limits_def)
  moreover have "subseq (attempts (\<lambda>_. True) (r # rs) (d # ds)) (G1 @ G)"
    using one(3) IH(4) by (auto simp: r attempts_Cons)
  ultimately show ?case using IH(2,5)
    by (intro exI [of _ l'] exI [of _ "d # ds"] exI [of _ "G1 @ G"] exI [of _ now']) (simp add: r attempts_Cons)
qed

lemma bounded_rate_subseq: "subseq xs ys \<Longrightarrow> bounded_rate limit window ys \<Longrightarrow> bounded_rate limit window xs"
  unfolding bounded_rate_def in_span_def
  by (meson list_emb_length of_nat_mono order_trans subseq_filter)

lemma attempts_subseq: "(\<And>c. P c \<Longrightarrow> Q c) \<Longrightarrow> subseq (attempts P rs ds) (attempts Q rs ds)"
proof (induction rs arbitrary: ds)
  case (Cons r rs)
  then show ?case by (cases r; cases ds) (auto simp: attempts_Cons attempts_def)
qed simp

section \<open>Properties\<close>

lemma empty_tracks [simp]: "tracks now window [] []"
  by (simp add: tracks_def)

lemma empty_bounded [simp]: "0 \<le> limit \<Longrightarrow> bounded_rate limit window []"
  by (simp add: bounded_rate_def in_span_def)

text \<open>C32: The request limiter is an exact sliding window per key. For any series of requests with a
  clock that does not run backwards, every request is answered; it is let through exactly when fewer
  than the maximum of the key's earlier requests were let through in the window that ends now, and
  a refusal carries the least whole number of seconds (at least one) after which the key would be let
  through again. Requests of other keys have no influence, and no window, wherever it ends, ever
  contains more than the maximum.\<close>

theorem limiter_is_exact_sliding_window:
  assumes "0 < maximum" "sorted (map fst rs)"
  shows "\<exists>l' ds. run_limiter (make_limiter maximum window) rs = Inr (l', ds) \<and> length ds = length rs
    \<and> (\<forall>i < length rs. decision_ok maximum window
          (granted (snd (rs ! i)) (take i rs) (take i ds)) (fst (rs ! i)) (ds ! i))
    \<and> (\<forall>k. bounded_rate maximum window (granted k rs ds))"
proof (cases rs)
  case Nil
  then show ?thesis using assms(1) by simp
next
  case (Cons r rs')
  have "limiter_tracks (fst r) (make_limiter maximum window) (\<lambda>_. [])"
    using assms(1) by (simp add: limiter_tracks_def make_limiter_def)
  from run_limiter_decides [OF this, of rs] assms Cons show ?thesis by (simp add: make_limiter_def)
qed

theorem limiter_is_exact_sliding_window_witness:
  "\<exists>l' d1 d2. run_limiter (make_limiter 1 60) [(0, ''a''), (30, ''a'')] = Inr (l', [d1, d2])
     \<and> decision_ok 1 60 (granted ''a'' [(0, ''a'')] [d1]) 30 d2"
proof -
  let ?rs = "[(0 :: rat, ''a''), (30, ''a'')]"
  have srt: "sorted (map fst ?rs)" by simp
  from limiter_is_exact_sliding_window [OF zero_less_one srt, of 60] obtain l' ds where
    *: "run_limiter (make_limiter 1 60) ?rs = Inr (l', ds)" "length ds = length ?rs"
      "\<forall>i < length ?rs. decision_ok 1 60 (granted (snd (?rs ! i)) (take i ?rs) (take i ds)) (fst (?rs ! i)) (ds ! i)"
    by blast
  from *(2) obtain d1 d2 where ds: "ds = [d1, d2]" by (cases ds; cases "tl ds") auto
  from *(3)[rule_format, of 1] have "decision_ok 1 60 (granted ''a'' [(0, ''a'')] [d1]) 30 d2" by (simp add: ds)
  with *(1) show ?thesis unfolding ds by blast
qed

text \<open>C33: Log-in attempts are bounded in rate and memory. A limiter with accepted settings answers every
  series of attempts without an error; the attempts let through never exceed the global limit in any
  global window, attempts without a well-formed credential never exceed the malformed limit in any
  malformed window, and for every public identifier the attempts never exceed the subject limit in any
  subject window, although idle buckets are dropped; the table of subjects never outgrows its capacity.\<close>

theorem login_attempts_are_bounded:
  assumes "make_login_limiter gl gw sl sw ml mw buckets key = Inr l" "sorted (map fst rs)"
  shows "\<exists>l' ds. run_login hmac pid l rs = Inr (l', ds) \<and> length ds = length rs
    \<and> bounded_rate gl gw (attempts (\<lambda>_. True) rs ds)
    \<and> bounded_rate ml mw (attempts (\<lambda>c. pid c = None) rs ds)
    \<and> (\<forall>p. bounded_rate sl sw (attempts (\<lambda>c. pid c = Some p) rs ds))
    \<and> int (length (ll_subject_requests l')) \<le> buckets"
proof -
  have pos: "0 < gl" "0 < sl" "0 < ml" "0 < buckets"
    and l: "l = \<lparr>ll_global_limit = gl, ll_global_window = gw, ll_subject_limit = sl, ll_subject_window = sw,
       ll_malformed_limit = ml, ll_malformed_window = mw, ll_max_subject_buckets = buckets,
       ll_process_key = key, ll_global_requests = [], ll_malformed_requests = [], ll_subject_requests = []\<rparr>"
    using assms(1) by (auto simp: make_login_limiter_def bind_r_eq_Inr)
  define now where "now = (case rs of [] \<Rightarrow> 0 | r # _ \<Rightarrow> fst r)"
  have srt: "sorted (now # map fst rs)" using assms(2) by (cases rs) (simp_all add: now_def)
  have "login_tracks now l [] [] (\<lambda>_. [])" "login_limits_ok l"
    using pos by (simp_all add: login_tracks_def login_limits_ok_def l bucket_of_def)
  from run_login_tracks [OF this srt, of hmac pid] obtain l' ds G now' where
    run: "run_login hmac pid l rs = Inr (l', ds)" "length ds = length rs" "same_limits l l'"
      "subseq (attempts (\<lambda>_. True) rs ds) G"
    and tr: "login_tracks now' l' G (attempts (\<lambda>c. pid c = None) rs ds)
      (\<lambda>k. attempts (\<lambda>c. \<exists>p. pid c = Some p \<and> hmac (ll_process_key l) p = k) rs ds)" by auto
  have lim: "ll_global_limit l' = gl" "ll_global_window l' = gw" "ll_subject_limit l' = sl"
    "ll_subject_window l' = sw" "ll_malformed_limit l' = ml" "ll_malformed_window l' = mw"
    "ll_max_subject_buckets l' = buckets" using same_limitsD [OF run(3)] by (simp_all add: l)
  have subj: "bounded_rate sl sw (attempts (\<lambda>c. pid c = Some p) rs ds)" for p
  proof (rule bounded_rate_subseq)
    show "subseq (attempts (\<lambda>c. pid c = Some p) rs ds)
        (attempts (\<lambda>c. \<exists>q. pid c = Some q \<and> hmac (ll_process_key l) q = hmac (ll_process_key l) p) rs ds)"
      by (rule attempts_subseq) simp
  qed (use tr lim in \<open>simp add: login_tracks_def\<close>)
  show ?thesis using run(1,2) bounded_rate_subseq [OF run(4)] tr subj lim
    by (intro exI [of _ l'] exI [of _ ds]) (simp add: login_tracks_def)
qed

theorem login_attempts_are_bounded_witness:
  "\<exists>l l' ds. make_login_limiter 60 60 5 300 10 60 2 (replicate 32 (CHR ''k'')) = Inr l
     \<and> run_login (\<lambda>k p. p) (\<lambda>c. Some c) l [(0, ''a''), (1, ''b''), (2, ''c'')] = Inr (l', ds)
     \<and> length (ll_subject_requests l') \<le> 2"
proof -
  obtain l where l: "make_login_limiter 60 60 5 300 10 60 2 (replicate 32 (CHR ''k'')) = Inr l"
    by (simp add: make_login_limiter_def)
  have srt: "sorted (map fst [(0 :: rat, ''a''), (1, ''b''), (2, ''c'')])" by simp
  from login_attempts_are_bounded [OF l srt, of "\<lambda>k p. p" "\<lambda>c. Some c"] l show ?thesis by fastforce
qed

end
