(* ===== verification/Ingest.thy ===== *)
theory Ingest
  imports Event_Contract Agent_Access Rate_Limit Detection
begin

text \<open>
  The ingestion of agent events: the insertion of a
  batch (\<open>event_repository.py\<close>) and the request handler (\<open>api/routes/events.py\<close>) that authenticates,
  limits, validates, stores and detects in one transaction. Parsing the request body and dumping an
  event to JSON is done by pydantic; the dump is an argument.
\<close>

section \<open>Insertion\<close>

definition new_event_row ::
  "(normalized_event \<Rightarrow> json) \<Rightarrow> uuid \<Rightarrow> uuid \<Rightarrow> time \<Rightarrow> normalized_event \<Rightarrow> event_row" where
  "new_event_row dump eid server now e = \<lparr>ev_id = eid, ev_server_id = server,
     ev_agent_event_id = ne_event_id e, ev_schema_version = 1, ev_source = source_value (ne_source e),
     ev_event_type = ne_event_type e, ev_occurred_at = ne_occurred_at e,
     ev_collected_at = ne_collected_at e, ev_persisted_at = now, ev_payload = dump e\<rparr>"

definition event_key :: "event_row \<Rightarrow> uuid \<times> uuid" where
  "event_key e = (ev_server_id e, ev_agent_event_id e)"

text \<open>
  One statement: an identifier is drawn for every event of the batch, the rows whose server and
  agent event identifier are already stored are skipped, the others are stored and returned.
\<close>

fun insert_new_events :: "event_row list \<Rightarrow> event_row list \<Rightarrow> event_row list \<times> event_row list" where
  "insert_new_events table [] = (table, [])"
| "insert_new_events table (r # rs) =
     (if event_key r \<in> event_key ` set table then insert_new_events table rs
      else let (table', stored) = insert_new_events (table @ [r]) rs in (table', r # stored))"

definition batch_rows ::
  "(normalized_event \<Rightarrow> json) \<Rightarrow> nat \<Rightarrow> uuid \<Rightarrow> time \<Rightarrow> normalized_event list \<Rightarrow> event_row list" where
  "batch_rows dump n server now es = map (\<lambda>(i, e). new_event_row dump (n + i) server now e) (zip [0..<length es] es)"

definition insert_event_batch ::
  "(normalized_event \<Rightarrow> json) \<Rightarrow> db \<Rightarrow> uuid \<Rightarrow> normalized_event list \<Rightarrow> time \<Rightarrow> db \<times> event_row list" where
  "insert_event_batch dump d server es persisted_at =
     (let (table, stored) = insert_new_events (events d) (batch_rows dump (next_uuid d) server persisted_at es)
      in (d\<lparr>events := table, next_uuid := next_uuid d + length es\<rparr>, stored))"

section \<open>The handler\<close>

record ingest_env =
  ie_sha256 :: "string \<Rightarrow> string"
  ie_dump :: "normalized_event \<Rightarrow> json"
  ie_detection :: detection_env
  ie_max_clock_skew_seconds :: int
  ie_outbox_default_max_attempts :: int

record ingest_response =
  ir_batch_id :: uuid
  ir_accepted :: nat
  ir_existing :: nat

definition invalid_agent_credentials :: exn where
  "invalid_agent_credentials = ApiError 401 ''invalid agent credentials''"

definition ascii_lower :: "string \<Rightarrow> string" where
  "ascii_lower = map (\<lambda>c. if is_upper c then char_of (of_char c + 32 :: nat) else c)"

definition bearer_token :: "string option \<Rightarrow> string result" where
  "bearer_token authorization = (case authorization of
     None \<Rightarrow> Inl invalid_agent_credentials
   | Some h \<Rightarrow>
     let scheme = takeWhile (\<lambda>c. c \<noteq> CHR '' '') h; rest = dropWhile (\<lambda>c. c \<noteq> CHR '' '') h; token = drop 1 rest in
     if ascii_lower scheme \<noteq> ''bearer'' \<or> rest = [] \<or> token = [] \<or> CHR '' '' \<in> set token
     then Inl invalid_agent_credentials else Inr token)"

definition validate_timestamps :: "event_batch \<Rightarrow> time \<Rightarrow> int \<Rightarrow> unit result" where
  "validate_timestamps b now skew_seconds =
     (let maximum_skew = skew_seconds * 1000000 in
      bind_r (guard_r (\<bar>now - eb_sent_at b\<bar> \<le> maximum_skew)
        (ApiError 422 ''sent_at is outside allowed clock skew'')) (\<lambda>_.
      guard_r (\<not> list_ex (\<lambda>e. now + maximum_skew < ne_collected_at e) (eb_events b))
        (ApiError 422 ''event collected_at is outside allowed clock skew'')))"

definition touch_key :: "uuid \<Rightarrow> time \<Rightarrow> site \<Rightarrow> site" where
  "touch_key kid now s = s\<lparr>st_agent_keys :=
     update_where (\<lambda>k. ak_id k = kid) (\<lambda>k. k\<lparr>ak_last_used_at := Some now\<rparr>) (st_agent_keys s)\<rparr>"

text \<open>Detection, with every unexpected exception turned into a safe one.\<close>

definition safe_detection ::
  "ingest_env \<Rightarrow> db \<Rightarrow> time \<Rightarrow> event_row list \<Rightarrow> (db \<times> detection_result) result" where
  "safe_detection env d now new_events =
     (case run_detection (ie_detection env) d now new_events (ie_outbox_default_max_attempts env) of
        Inr r \<Rightarrow> Inr r
      | Inl (DetectionEngineError m) \<Rightarrow> Inl (DetectionEngineError m)
      | Inl (IntegrityError m) \<Rightarrow> Inl (IntegrityError m)
      | Inl _ \<Rightarrow> Inl (DetectionEngineError ''unexpected detection failure''))"

text \<open>The part of the transaction after authentication and rate limiting.\<close>

definition store_and_detect ::
  "ingest_env \<Rightarrow> time \<Rightarrow> event_batch \<Rightarrow> authenticated_agent \<Rightarrow> site \<Rightarrow> (site \<times> nat \<times> detection_result) result" where
  "store_and_detect env now b agent s =
     bind_r (validate_timestamps b now (ie_max_clock_skew_seconds env)) (\<lambda>_.
     let s1 = touch_key (aa_key_id agent) now s;
         (d1, new_events) = insert_event_batch (ie_dump env) (st_main s1) (aa_server_id agent) (eb_events b) now in
     bind_r (safe_detection env d1 now new_events) (\<lambda>(d2, res).
     Inr (s1\<lparr>st_main := d2\<rparr>, length new_events, res)))"

text \<open>
  The transaction; the limiter lives in the process, so what it counted stays counted when the
  database rolls back.
\<close>

definition ingest_transaction ::
  "ingest_env \<Rightarrow> time \<Rightarrow> rat \<Rightarrow> event_batch \<Rightarrow> string \<Rightarrow> site \<Rightarrow> rate_limiter
    \<Rightarrow> rate_limiter \<times> (site \<times> nat \<times> detection_result) result" where
  "ingest_transaction env now clock b token s l =
     (case authenticate_agent (ie_sha256 env) s token now of
        Inl e \<Rightarrow> (l, Inl e)
      | Inr agent \<Rightarrow>
        (case consume clock (aa_public_id agent) l of
           Inl e \<Rightarrow> (l, Inl e)
         | Inr (l', Some _) \<Rightarrow> (l', Inl (ApiError 429 ''agent request rate exceeded''))
         | Inr (l', None) \<Rightarrow> (l', store_and_detect env now b agent s)))"

definition translate_error :: "exn \<Rightarrow> exn" where
  "translate_error e = (case e of
     InvalidCredentialsError \<Rightarrow> invalid_agent_credentials
   | InactiveServerError \<Rightarrow> ApiError 403 ''server is inactive''
   | DetectionEngineError _ \<Rightarrow> ApiError 503 ''event ingestion unavailable''
   | IntegrityError _ \<Rightarrow> ApiError 503 ''event ingestion unavailable''
   | _ \<Rightarrow> e)"

definition ingest_events ::
  "ingest_env \<Rightarrow> time \<Rightarrow> rat \<Rightarrow> event_batch \<Rightarrow> string option \<Rightarrow> site \<times> rate_limiter
    \<Rightarrow> (site \<times> rate_limiter) \<times> ingest_response result" where
  "ingest_events env now clock b authorization = (\<lambda>(s, l).
     (case bearer_token authorization of
        Inl e \<Rightarrow> ((s, l), Inl e)
      | Inr token \<Rightarrow>
        let (l', r) = ingest_transaction env now clock b token s l in
        (case r of
           Inl e \<Rightarrow> ((s, l'), Inl (translate_error e))
         | Inr (s', accepted, _) \<Rightarrow> ((s', l'), Inr \<lparr>ir_batch_id = eb_batch_id b, ir_accepted = accepted,
             ir_existing = length (eb_events b) - accepted\<rparr>))))"

text \<open>The endpoint: a body outside the contract is refused before the handler runs.\<close>

definition post_events ::
  "ingest_env \<Rightarrow> time \<Rightarrow> rat \<Rightarrow> event_batch \<Rightarrow> string option \<Rightarrow> site \<times> rate_limiter
    \<Rightarrow> (site \<times> rate_limiter) \<times> ingest_response result" where
  "post_events env now clock b authorization st =
     (if batch_contract_ok b then ingest_events env now clock b authorization st
      else (st, Inl (ApiError 422 ''request validation failed'')))"

section \<open>What an insertion does\<close>

lemma insert_new_events_eq:
  "distinct (map event_key rs) \<Longrightarrow> insert_new_events table rs =
    (table @ filter (\<lambda>r. event_key r \<notin> event_key ` set table) rs, filter (\<lambda>r. event_key r \<notin> event_key ` set table) rs)"
proof (induction rs arbitrary: table)
  case (Cons r rs)
  have "filter (\<lambda>x. event_key x \<notin> event_key ` set (table @ [r])) rs = filter (\<lambda>x. event_key x \<notin> event_key ` set table) rs"
  proof (rule filter_cong [OF refl])
    fix x assume "x \<in> set rs"
    then have "event_key x \<in> event_key ` set rs" by (rule imageI)
    with Cons.prems have "event_key x \<noteq> event_key r" by auto
    then show "(event_key x \<notin> event_key ` set (table @ [r])) = (event_key x \<notin> event_key ` set table)" by simp
  qed
  with Cons show ?case by simp
qed simp

lemma batch_rows_nth:
  "i < length es \<Longrightarrow> batch_rows dump n server now es ! i = new_event_row dump (n + i) server now (es ! i)"
  by (simp add: batch_rows_def)

lemma length_batch_rows [simp]: "length (batch_rows dump n server now es) = length es"
  by (simp add: batch_rows_def)

lemma batch_rows_keys: "map event_key (batch_rows dump n server now es) = map (\<lambda>e. (server, ne_event_id e)) es"
  by (rule nth_equalityI) (simp_all add: batch_rows_nth event_key_def new_event_row_def)

lemma batch_rows_agent_ids: "map ev_agent_event_id (batch_rows dump n server now es) = map ne_event_id es"
  by (rule nth_equalityI) (simp_all add: batch_rows_nth new_event_row_def)

lemma batch_rows_ids: "map ev_id (batch_rows dump n server now es) = map (\<lambda>i. n + i) [0..<length es]"
  by (rule nth_equalityI) (simp_all add: batch_rows_nth new_event_row_def)

lemma batch_rows_mem:
  "r \<in> set (batch_rows dump n server now es) \<Longrightarrow> \<exists>i e. i < length es \<and> e \<in> set es \<and> r = new_event_row dump (n + i) server now e"
  by (metis batch_rows_nth in_set_conv_nth length_batch_rows nth_mem)

text \<open>The events of a batch that are not stored yet.\<close>

definition fresh_events :: "db \<Rightarrow> uuid \<Rightarrow> normalized_event list \<Rightarrow> normalized_event list" where
  "fresh_events d server es = filter (\<lambda>e. (server, ne_event_id e) \<notin> event_key ` set (events d)) es"

definition events_inv :: "db \<Rightarrow> bool" where
  "events_inv d \<longleftrightarrow> events_unique (events d) \<and> (\<forall>e \<in> set (events d). ev_id e < next_uuid d)"

lemma events_unique_key: "events_unique es \<longleftrightarrow> distinct (map ev_id es) \<and> distinct (map event_key es)"
  by (simp add: events_unique_def event_key_def [abs_def])

lemma map_filter_key:
  "map f rs = map g es \<Longrightarrow> map h rs = map k es \<Longrightarrow>
    map h (filter (\<lambda>r. P (f r)) rs) = map k (filter (\<lambda>e. P (g e)) es)"
proof (induction rs arbitrary: es)
  case (Cons r rs)
  then show ?case by (cases es) auto
qed simp

lemma insert_event_batch_spec:
  assumes "distinct (map ne_event_id es)" "events_inv d" "insert_event_batch dump d server es now = (d', new)"
  shows "d' = d\<lparr>events := events d @ new, next_uuid := next_uuid d + length es\<rparr>" "events_inv d'"
    "map ev_agent_event_id new = map ne_event_id (fresh_events d server es)"
    "set new \<subseteq> set (batch_rows dump (next_uuid d) server now es)"
    "\<forall>e \<in> set es. (server, ne_event_id e) \<in> event_key ` set (events d')"
proof -
  let ?rows = "batch_rows dump (next_uuid d) server now es"
  let ?new = "filter (\<lambda>r. event_key r \<notin> event_key ` set (events d)) ?rows"
  have keys: "distinct (map event_key ?rows)"
    unfolding batch_rows_keys using assms(1) by (auto simp: distinct_map inj_on_def)
  have new: "new = ?new" and d': "d' = d\<lparr>events := events d @ ?new, next_uuid := next_uuid d + length es\<rparr>"
    using assms(3) by (auto simp: insert_event_batch_def insert_new_events_eq [OF keys])
  show "d' = d\<lparr>events := events d @ new, next_uuid := next_uuid d + length es\<rparr>" by (simp add: d' new)
  show "set new \<subseteq> set ?rows" by (auto simp: new)
  show "map ev_agent_event_id new = map ne_event_id (fresh_events d server es)"
    unfolding new fresh_events_def
    by (rule map_filter_key [OF batch_rows_keys batch_rows_agent_ids])
  have ids: "distinct (map ev_id ?rows)" "\<forall>r \<in> set ?rows. next_uuid d \<le> ev_id r \<and> ev_id r < next_uuid d + length es"
    using batch_rows_ids [of dump "next_uuid d" server now es]
    by (simp_all add: distinct_map inj_on_def) (auto dest!: batch_rows_mem simp: new_event_row_def)
  have "distinct (map ev_id (events d @ ?new))"
    using assms(2) ids distinct_map_filter [OF ids(1)] by (fastforce simp: events_inv_def events_unique_def)
  moreover have "distinct (map event_key (events d @ ?new))"
    using assms(2) distinct_map_filter [OF keys] by (auto simp: events_inv_def events_unique_key)
  moreover have "ev_id e < next_uuid d'" if "e \<in> set (events d @ ?new)" for e
    using that assms(2) ids(2) by (auto simp: events_inv_def d')
  ultimately show "events_inv d'" by (simp add: events_inv_def events_unique_key d')
  show "\<forall>e \<in> set es. (server, ne_event_id e) \<in> event_key ` set (events d')"
  proof
    fix e assume "e \<in> set es"
    then have "(server, ne_event_id e) \<in> event_key ` set ?rows"
      using arg_cong [OF batch_rows_keys, of set, of dump "next_uuid d" server now es] by auto
    then obtain r where r: "r \<in> set ?rows" "event_key r = (server, ne_event_id e)" by auto
    show "(server, ne_event_id e) \<in> event_key ` set (events d')"
    proof (cases "event_key r \<in> event_key ` set (events d)")
      case True
      then show ?thesis by (simp add: d' r(2) image_Un)
    next
      case False
      with r(1) have "r \<in> set ?new" by simp
      then have "event_key r \<in> event_key ` set (events d @ ?new)" by (simp del: set_filter)
      then show ?thesis by (simp add: d' r(2))
    qed
  qed
qed

lemma detection_inv_more_events:
  assumes "detection_inv d" "events_inv d'" "events d' = events d @ new"
    "incidents d' = incidents d" "incident_events d' = incident_events d" "next_uuid d \<le> next_uuid d'"
  shows "detection_inv d'"
proof -
  have dist: "distinct (map ev_id (events d @ new))"
    using assms(2,3) by (simp add: events_inv_def events_unique_def)
  have links: "\<forall>l \<in> set (incident_events d). lk_event_id l \<in> ev_id ` set (events d)"
    using assms(1) by (simp add: detection_inv_def)
  have "(k, ev_id e) \<notin> link_ids (incident_events d)" if "e \<in> set new" for k e
  proof
    assume "(k, ev_id e) \<in> link_ids (incident_events d)"
    then obtain l where "l \<in> set (incident_events d)" "lk_event_id l = ev_id e" by (auto simp: link_ids_def)
    with links have "ev_id e \<in> ev_id ` set (events d)" by metis
    with dist that show False by auto
  qed
  then have "evidence_of d' k = evidence_of d k" for k
    by (simp add: evidence_of_def assms(3,5))
  then have "incident_evidence_ok d' i = incident_evidence_ok d i" for i by (simp add: incident_evidence_ok_def)
  with assms(1,4-6) dist show ?thesis
    by (auto simp: detection_inv_def assms(3) intro: less_le_trans)
qed

section \<open>What a request does\<close>

definition ingest_inv :: "site \<Rightarrow> bool" where
  "ingest_inv s \<longleftrightarrow> access_inv s \<and> events_inv (st_main s) \<and> detection_inv (st_main s)
     \<and> history_inv (st_main s) \<and> outbox_inv (st_main s)"

text \<open>The credentials and servers a request leaves as they are: all but the time of last use.\<close>

definition key_identity :: "agent_key_row \<Rightarrow> agent_key_row" where
  "key_identity k = k\<lparr>ak_last_used_at := None\<rparr>"

definition same_access :: "site \<Rightarrow> site \<Rightarrow> bool" where
  "same_access s s' \<longleftrightarrow> st_servers s' = st_servers s
     \<and> map key_identity (st_agent_keys s') = map key_identity (st_agent_keys s)"

text \<open>
  The batch is stored exactly once: the rows appended are those of the events not stored before, under
  the authenticated server and the transaction's time, and every event of the batch is now stored.
\<close>

definition stored_batch ::
  "(normalized_event \<Rightarrow> json) \<Rightarrow> time \<Rightarrow> event_batch \<Rightarrow> uuid \<Rightarrow> db \<Rightarrow> event_row list \<Rightarrow> bool" where
  "stored_batch dump now b server d new \<longleftrightarrow>
     map ev_agent_event_id new = map ne_event_id (fresh_events d server (eb_events b))
     \<and> (\<forall>r \<in> set new. \<exists>eid e. e \<in> set (eb_events b) \<and> next_uuid d \<le> eid \<and> r = new_event_row dump eid server now e)
     \<and> (\<forall>e \<in> set (eb_events b). (server, ne_event_id e) \<in> event_key ` set (events d @ new))"

lemma key_identity_columns:
  "ak_id (key_identity k) = ak_id k" "ak_server_id (key_identity k) = ak_server_id k"
  "ak_public_id (key_identity k) = ak_public_id k" "ak_secret_hash (key_identity k) = ak_secret_hash k"
  by (simp_all add: key_identity_def)

lemma touch_key_same: "same_access s (touch_key kid now s)" "st_main (touch_key kid now s) = st_main s"
  by (auto simp: same_access_def touch_key_def update_where_def key_identity_def)

lemma same_access_key:
  assumes "same_access s s'" "k \<in> set (st_agent_keys s)"
  obtains k' where "k' \<in> set (st_agent_keys s')" "ak_id k' = ak_id k" "ak_server_id k' = ak_server_id k"
    "ak_public_id k' = ak_public_id k" "ak_secret_hash k' = ak_secret_hash k"
proof -
  have "key_identity ` set (st_agent_keys s') = key_identity ` set (st_agent_keys s)"
    using assms(1) by (metis same_access_def set_map)
  with assms(2) have "key_identity k \<in> key_identity ` set (st_agent_keys s')" by simp
  then obtain k' where k': "k' \<in> set (st_agent_keys s')" "key_identity k' = key_identity k" by force
  then show ?thesis using that [of k'] by (metis key_identity_columns)
qed

lemma same_access_sym: "same_access s s' \<Longrightarrow> same_access s' s"
  by (simp add: same_access_def)

lemma map_key_identity:
  "map key_identity ks = map key_identity ks' \<Longrightarrow>
    (\<And>k. f (key_identity k) = f k) \<Longrightarrow> map f ks = map f ks'"
  by (metis (mono_tags, lifting) list.map_comp map_eq_conv o_apply)

lemma access_inv_same:
  assumes "access_inv s" "same_access s s'" "next_uuid (st_main s) \<le> next_uuid (st_main s')"
  shows "access_inv s'"
proof -
  have keys: "map key_identity (st_agent_keys s') = map key_identity (st_agent_keys s)"
    and servers: "st_servers s' = st_servers s" using assms(2) by (simp_all add: same_access_def)
  have m: "map ak_public_id (st_agent_keys s') = map ak_public_id (st_agent_keys s)"
    "map ak_id (st_agent_keys s') = map ak_id (st_agent_keys s)"
    by (rule map_key_identity [OF keys]; simp add: key_identity_columns)+
  have "length (ak_secret_hash k) = 32 \<and> ak_id k < next_uuid (st_main s') \<and> ak_server_id k \<in> sv_id ` set (st_servers s)"
    if k: "k \<in> set (st_agent_keys s')" for k
  proof -
    obtain k' where k': "k' \<in> set (st_agent_keys s)" "ak_id k' = ak_id k" "ak_server_id k' = ak_server_id k"
      "ak_public_id k' = ak_public_id k" "ak_secret_hash k' = ak_secret_hash k"
      by (rule same_access_key [OF same_access_sym [OF assms(2)] k])
    moreover have "length (ak_secret_hash k') = 32 \<and> ak_id k' < next_uuid (st_main s)
        \<and> ak_server_id k' \<in> sv_id ` set (st_servers s)"
      using k'(1) assms(1) unfolding access_inv_def by blast
    ultimately show ?thesis using assms(3) k' by (auto intro: less_le_trans)
  qed
  moreover have "sv_id v < next_uuid (st_main s')" if "v \<in> set (st_servers s)" for v
    using that assms(1,3) by (auto simp: access_inv_def intro: less_le_trans)
  ultimately show ?thesis using assms(1) by (simp add: access_inv_def m servers)
qed

lemma safe_detection_Inr:
  "safe_detection env d now new = Inr r \<Longrightarrow> run_detection (ie_detection env) d now new (ie_outbox_default_max_attempts env) = Inr r"
  by (auto simp: safe_detection_def split: sum.splits exn.splits)

lemma store_and_detect_Inr:
  assumes "store_and_detect env now b a s = Inr (s', n, res)" "ingest_inv s" "batch_contract_ok b"
  obtains new where "ingest_inv s'" "same_access s s'" "stored_batch (ie_dump env) now b (aa_server_id a) (st_main s) new"
    "n = length new" "validate_timestamps b now (ie_max_clock_skew_seconds env) = Inr ()"
    "run_detection (ie_detection env) ((st_main s)\<lparr>events := events (st_main s) @ new,
        next_uuid := next_uuid (st_main s) + length (eb_events b)\<rparr>) now new (ie_outbox_default_max_attempts env)
      = Inr (st_main s', res)"
    "detected ((st_main s)\<lparr>events := events (st_main s) @ new, next_uuid := next_uuid (st_main s) + length (eb_events b)\<rparr>)
       (st_main s') (dr_created_incidents res)"
proof -
  let ?d = "st_main s"
  obtain d1 new where ins: "insert_event_batch (ie_dump env) ?d (aa_server_id a) (eb_events b) now = (d1, new)"
    by fastforce
  from assms(1) obtain d2 where ts: "validate_timestamps b now (ie_max_clock_skew_seconds env) = Inr ()"
    and det: "safe_detection env d1 now new = Inr (d2, res)" and s': "s' = (touch_key (aa_key_id a) now s)\<lparr>st_main := d2\<rparr>"
    and n: "n = length new"
    by (auto simp: store_and_detect_def touch_key_same ins bind_r_eq_Inr)
  have ids: "distinct (map ne_event_id (eb_events b))" using assms(3) by (simp add: batch_contract_ok_def)
  have inv: "events_inv ?d" "detection_inv ?d" "history_inv ?d" "outbox_inv ?d" "access_inv s"
    using assms(2) by (simp_all add: ingest_inv_def)
  note spec = insert_event_batch_spec [OF ids inv(1) ins]
  have "detection_inv d1"
    by (rule detection_inv_more_events [OF inv(2) spec(2), of new]) (simp_all add: spec(1))
  moreover have "history_inv d1" by (rule history_inv_cong [OF inv(3)]) (simp_all add: spec(1))
  moreover have "outbox_inv d1" by (rule outbox_inv_cong [OF inv(4)]) (simp_all add: spec(1))
  moreover have "set new \<subseteq> set (events d1)" by (simp add: spec(1))
  ultimately have post: "detection_inv d2 \<and> history_inv d2 \<and> outbox_inv d2 \<and> detected d1 d2 (dr_created_incidents res)"
    using run_detection_inv [OF safe_detection_Inr [OF det]] by blast
  then have "events d2 = events d1" "next_uuid d1 \<le> next_uuid d2" by (simp_all add: detected_def)
  with spec(2) have "events_inv d2" by (auto simp: events_inv_def intro: less_le_trans)
  moreover have same: "same_access s s'"
    using touch_key_same(1) [of s "aa_key_id a" now] by (simp add: same_access_def s')
  moreover have "access_inv s'"
    by (rule access_inv_same [OF inv(5) same]) (use \<open>next_uuid d1 \<le> next_uuid d2\<close> in \<open>simp add: s' spec(1)\<close>)
  ultimately have "ingest_inv s'" using post by (simp add: ingest_inv_def s')
  moreover have "stored_batch (ie_dump env) now b (aa_server_id a) ?d new"
  proof -
    have "\<exists>eid e. e \<in> set (eb_events b) \<and> next_uuid ?d \<le> eid \<and> r = new_event_row (ie_dump env) eid (aa_server_id a) now e"
      if "r \<in> set new" for r
      using batch_rows_mem [OF subsetD [OF spec(4) that]] by (metis le_add1)
    then show ?thesis using spec(1,3,5) by (simp add: stored_batch_def)
  qed
  ultimately show ?thesis using that [of new] same n ts post safe_detection_Inr [OF det] by (simp add: s' spec(1))
qed

text \<open>The outcome of an accepted request.\<close>

definition ingested ::
  "ingest_env \<Rightarrow> time \<Rightarrow> rat \<Rightarrow> event_batch \<Rightarrow> string option \<Rightarrow> site \<times> rate_limiter \<Rightarrow> site \<times> rate_limiter
    \<Rightarrow> ingest_response \<Rightarrow> bool" where
  "ingested env now clock b authorization st st' r \<longleftrightarrow> (\<exists>token a new d res.
     bearer_token authorization = Inr token
     \<and> authenticate_agent (ie_sha256 env) (fst st) token now = Inr a
     \<and> consume clock (aa_public_id a) (snd st) = Inr (snd st', None)
     \<and> validate_timestamps b now (ie_max_clock_skew_seconds env) = Inr ()
     \<and> ingest_inv (fst st') \<and> same_access (fst st) (fst st')
     \<and> stored_batch (ie_dump env) now b (aa_server_id a) (st_main (fst st)) new
     \<and> d = (st_main (fst st))\<lparr>events := events (st_main (fst st)) @ new,
           next_uuid := next_uuid (st_main (fst st)) + length (eb_events b)\<rparr>
     \<and> run_detection (ie_detection env) d now new (ie_outbox_default_max_attempts env) = Inr (st_main (fst st'), res)
     \<and> detected d (st_main (fst st')) (dr_created_incidents res)
     \<and> r = \<lparr>ir_batch_id = eb_batch_id b, ir_accepted = length new, ir_existing = length (eb_events b) - length new\<rparr>)"

lemma post_events_Inr:
  assumes "post_events env now clock b authorization st = (st', Inr r)" "ingest_inv (fst st)"
  shows "ingested env now clock b authorization st st' r"
proof -
  obtain s l where st: "st = (s, l)" by (cases st)
  obtain s' l' where st': "st' = (s', l')" by (cases st')
  from assms(1) have ok: "batch_contract_ok b" and "ingest_events env now clock b authorization (s, l) = ((s', l'), Inr r)"
    by (simp_all add: post_events_def st st' split: if_splits)
  then obtain token n res where token: "bearer_token authorization = Inr token"
    and tx: "ingest_transaction env now clock b token s l = (l', Inr (s', n, res))"
    and r: "r = \<lparr>ir_batch_id = eb_batch_id b, ir_accepted = n, ir_existing = length (eb_events b) - n\<rparr>"
    by (auto simp: ingest_events_def split: sum.splits prod.splits)
  from tx obtain a where auth: "authenticate_agent (ie_sha256 env) s token now = Inr a"
    and lim: "consume clock (aa_public_id a) l = Inr (l', None)"
    and store: "store_and_detect env now b a s = Inr (s', n, res)"
    by (auto simp: ingest_transaction_def split: sum.splits prod.splits option.splits)
  have inv: "ingest_inv s" using assms(2) by (simp add: st)
  obtain new where new: "ingest_inv s'" "same_access s s'"
    "stored_batch (ie_dump env) now b (aa_server_id a) (st_main s) new" "n = length new"
    "validate_timestamps b now (ie_max_clock_skew_seconds env) = Inr ()"
    "run_detection (ie_detection env) ((st_main s)\<lparr>events := events (st_main s) @ new,
        next_uuid := next_uuid (st_main s) + length (eb_events b)\<rparr>) now new (ie_outbox_default_max_attempts env)
      = Inr (st_main s', res)"
    "detected ((st_main s)\<lparr>events := events (st_main s) @ new, next_uuid := next_uuid (st_main s) + length (eb_events b)\<rparr>)
       (st_main s') (dr_created_incidents res)"
    by (rule store_and_detect_Inr [OF store inv ok])
  show ?thesis unfolding ingested_def st st' fst_conv snd_conv
    using token auth lim new r
    by (intro exI [of _ token] exI [of _ a] exI [of _ new] exI [of _ "(st_main s)\<lparr>events := events (st_main s) @ new,
        next_uuid := next_uuid (st_main s) + length (eb_events b)\<rparr>"] exI [of _ res]) simp
qed

lemma post_events_Inl:
  "post_events env now clock b authorization st = (st', Inl e) \<Longrightarrow> fst st' = fst st"
  by (auto simp: post_events_def ingest_events_def split: if_splits sum.splits prod.splits)

section \<open>Any number of requests\<close>

record post_request =
  pr_now :: time
  pr_clock :: rat
  pr_batch :: event_batch
  pr_authorization :: "string option"

definition serve_post :: "ingest_env \<Rightarrow> post_request \<Rightarrow> site \<times> rate_limiter \<Rightarrow> site \<times> rate_limiter" where
  "serve_post env q st = fst (post_events env (pr_now q) (pr_clock q) (pr_batch q) (pr_authorization q) st)"

text \<open>What no request ever undoes: identities of credentials, and which events are stored.\<close>

definition grown :: "site \<Rightarrow> site \<Rightarrow> bool" where
  "grown s s' \<longleftrightarrow> same_access s s' \<and> event_key ` set (events (st_main s)) \<subseteq> event_key ` set (events (st_main s'))"

lemma grown_refl: "grown s s"
  by (simp add: grown_def same_access_def)

lemma grown_trans: "grown s s1 \<Longrightarrow> grown s1 s2 \<Longrightarrow> grown s s2"
  by (auto simp: grown_def same_access_def)

lemma ingested_grown:
  assumes "ingested env now clock b authorization st st' r"
  shows "grown (fst st) (fst st')" "ingest_inv (fst st')"
  using assms by (auto simp: ingested_def grown_def detected_def)

lemma serve_post_grown:
  assumes "ingest_inv (fst st)"
  shows "ingest_inv (fst (serve_post env q st)) \<and> grown (fst st) (fst (serve_post env q st))"
proof (cases "post_events env (pr_now q) (pr_clock q) (pr_batch q) (pr_authorization q) st")
  case (Pair st' res)
  show ?thesis
  proof (cases res)
    case (Inl e)
    with Pair post_events_Inl assms grown_refl show ?thesis by (simp add: serve_post_def)
  next
    case (Inr r)
    from ingested_grown [OF post_events_Inr [OF Pair [unfolded Inr] assms]] show ?thesis by (simp add: serve_post_def Pair)
  qed
qed

lemma serve_posts_grown:
  "ingest_inv (fst st) \<Longrightarrow>
    ingest_inv (fst (fold (serve_post env) qs st)) \<and> grown (fst st) (fst (fold (serve_post env) qs st))"
proof (induction qs arbitrary: st)
  case (Cons q qs)
  from serve_post_grown [OF Cons.prems, of env q] Cons.IH [of "serve_post env q st"] show ?case
    by (auto intro: grown_trans)
qed (simp add: grown_refl)

text \<open>A token names the same server for good.\<close>

lemma same_server:
  assumes "access_inv s" "access_inv s'" "same_access s s'"
    "authenticate_agent sha256 s token now = Inr a" "authenticate_agent sha256 s' token later = Inr a'"
  shows "aa_server_id a' = aa_server_id a"
proof -
  from assms(4) authenticate_agent_iff [OF assms(1)] obtain k v where k: "valid_credential sha256 s token now k v"
    "aa_server_id a = sv_id v" by auto
  from assms(5) authenticate_agent_iff [OF assms(2)] obtain k' v' where k': "valid_credential sha256 s' token later k' v'"
    "aa_server_id a' = sv_id v'" by auto
  have pid: "parse_agent_api_key_public_id token = Some (ak_public_id k)"
    "parse_agent_api_key_public_id token = Some (ak_public_id k')"
    using k(1) k'(1) by (auto simp: valid_credential_def parse_public_id_iff)
  have "k' \<in> set (st_agent_keys s')" using k'(1) by (simp add: valid_credential_def)
  then obtain k0 where k0: "k0 \<in> set (st_agent_keys s)" and cols: "ak_server_id k0 = ak_server_id k'"
    "ak_public_id k0 = ak_public_id k'"
    by (rule same_access_key [OF same_access_sym [OF assms(3)]])
  have "distinct (map ak_public_id (st_agent_keys s))" using assms(1) by (simp add: access_inv_def)
  from key_inj_rows [OF this] have "k0 = k"
    using k0 k(1) pid cols(2) by (auto simp: valid_credential_def)
  with cols(1) k k' show ?thesis by (simp add: valid_credential_def)
qed

section \<open>Properties\<close>

text \<open>C2: Ingestion is atomic. Whatever the request, either it fails and the database is exactly as
  before, or it was authenticated, let through by the limiter and within the clock skew, and then every
  event of the batch is stored exactly once under the authenticated server: rows are appended for the
  events not stored before and for no others, they are what the response counts as accepted, detection
  has run on them, and every invariant of tables, histories, incidents and queue still holds.\<close>

theorem ingestion_is_atomic_and_exact:
  assumes "ingest_inv (fst st)"
  shows "case post_events env now clock b authorization st of
      (st', Inl e) \<Rightarrow> fst st' = fst st
    | (st', Inr r) \<Rightarrow> ingested env now clock b authorization st st' r"
  using post_events_Inl [of env now clock b authorization st] post_events_Inr [OF _ assms, of env now clock b authorization]
  by (cases "post_events env now clock b authorization st") (auto split: sum.split)

definition sample_ingest_env :: ingest_env where
  "sample_ingest_env = \<lparr>ie_sha256 = sample_sha256, ie_dump = (\<lambda>_. JNull), ie_detection = sample_env,
     ie_max_clock_skew_seconds = 300, ie_outbox_default_max_attempts = 5\<rparr>"

definition sample_ingest_site :: site where
  "sample_ingest_site = sample_site\<lparr>st_main := db_empty\<lparr>next_uuid := 20\<rparr>\<rparr>"

definition sample_batch :: event_batch where
  "sample_batch = \<lparr>eb_batch_id = 1, eb_sent_at = 60, eb_events =
     [\<lparr>ne_event_id = 7, ne_occurred_at = 40, ne_collected_at = 50, ne_source = Journald,
       ne_event_type = ''ssh.login_failed'', ne_actor = None, ne_source_ip = None, ne_summary = None, ne_attributes = []\<rparr>]\<rparr>"

lemma sample_ingest_inv: "ingest_inv (fst (sample_ingest_site, make_limiter 5 60))"
  using sample_site_inv
  by (simp add: ingest_inv_def sample_ingest_site_def access_inv_def sample_site_def events_inv_def events_unique_def
      detection_inv_def history_inv_def outbox_inv_def outbox_unique_def tokens_apart_def history_unique_def
      links_unique_def incidents_unique_def db_empty_def)

lemma sample_post:
  "case post_events sample_ingest_env 50 0 sample_batch (Some (''Bearer '' @ agent_token ''pub'' ''sec''))
     (sample_ingest_site, make_limiter 5 60) of
     (_, Inl _) \<Rightarrow> False | (_, Inr r) \<Rightarrow> ir_accepted r = 1"
  by code_simp

theorem ingestion_is_atomic_and_exact_witness:
  "\<exists>st' r. post_events sample_ingest_env 50 0 sample_batch (Some (''Bearer '' @ agent_token ''pub'' ''sec''))
     (sample_ingest_site, make_limiter 5 60) = (st', Inr r) \<and> ir_accepted r = 1
     \<and> ingest_inv (fst st')"
  using ingestion_is_atomic_and_exact [OF sample_ingest_inv, of sample_ingest_env 50 0 sample_batch
      "Some (''Bearer '' @ agent_token ''pub'' ''sec'')"] sample_post
  by (auto simp: ingested_def split: prod.splits sum.splits)

text \<open>C29: Redelivery is harmless, however late. Once a batch was accepted, then after any number of other
  requests a delivery of the same events under the same credential that is accepted again stores no
  event and reports all of them as existing; no table changes, only the key's time of last use and the
  supply of identifiers move on.\<close>

theorem redelivery_stores_nothing:
  assumes "ingest_inv (fst st)" "post_events env now clock b authorization st = (st1, Inr r1)"
    "eb_events b' = eb_events b"
    "post_events env now' clock' b' authorization (fold (serve_post env) qs st1) = (st3, Inr r3)"
  shows "ir_accepted r3 = 0 \<and> ir_existing r3 = length (eb_events b)
    \<and> (\<exists>n. st_main (fst st3) = (st_main (fst (fold (serve_post env) qs st1)))\<lparr>next_uuid := n\<rparr>)
    \<and> same_access (fst st) (fst st3)"
proof -
  let ?st2 = "fold (serve_post env) qs st1"
  note in1 = post_events_Inr [OF assms(2,1)]
  have inv2: "ingest_inv (fst ?st2)" and g2: "grown (fst st1) (fst ?st2)"
    using serve_posts_grown [OF ingested_grown(2) [OF in1]] by blast+
  note in3 = post_events_Inr [OF assms(4) inv2]
  note g02 = grown_trans [OF ingested_grown(1) [OF in1] g2]
  from in1 obtain token a new n where 1: "bearer_token authorization = Inr token"
    "authenticate_agent (ie_sha256 env) (fst st) token now = Inr a"
    "stored_batch (ie_dump env) now b (aa_server_id a) (st_main (fst st)) new"
    "events (st_main (fst st1)) = events (st_main (fst st)) @ new"
    unfolding ingested_def by (auto simp: detected_def)
  from in3 obtain a' new' d res where 3: "authenticate_agent (ie_sha256 env) (fst ?st2) token now' = Inr a'"
    "stored_batch (ie_dump env) now' b' (aa_server_id a') (st_main (fst ?st2)) new'"
    "r3 = \<lparr>ir_batch_id = eb_batch_id b', ir_accepted = length new', ir_existing = length (eb_events b') - length new'\<rparr>"
    "d = (st_main (fst ?st2))\<lparr>events := events (st_main (fst ?st2)) @ new',
       next_uuid := next_uuid (st_main (fst ?st2)) + length (eb_events b')\<rparr>"
    "run_detection (ie_detection env) d now' new' (ie_outbox_default_max_attempts env) = Inr (st_main (fst st3), res)"
    "same_access (fst ?st2) (fst st3)"
    unfolding ingested_def using 1(1) by auto
  have "aa_server_id a' = aa_server_id a"
    by (rule same_server [OF _ _ _ 1(2) 3(1)]) (use assms(1) inv2 g02 in \<open>simp_all add: ingest_inv_def grown_def\<close>)
  moreover have "(aa_server_id a, ne_event_id e) \<in> event_key ` set (events (st_main (fst ?st2)))"
    if "e \<in> set (eb_events b)" for e
    using that 1(3,4) g2 by (fastforce simp: stored_batch_def grown_def)
  ultimately have "fresh_events (st_main (fst ?st2)) (aa_server_id a') (eb_events b') = []"
    by (simp add: fresh_events_def assms(3))
  with 3(2) have "new' = []" by (simp add: stored_batch_def)
  have "st_main (fst st3) = (st_main (fst ?st2))\<lparr>next_uuid := next_uuid (st_main (fst ?st2)) + length (eb_events b')\<rparr>"
    using 3(4,5) by (simp add: \<open>new' = []\<close> run_detection_def)
  moreover have "same_access (fst st) (fst st3)"
    using g02 3(6) by (simp add: grown_def same_access_def)
  ultimately show ?thesis by (auto simp: 3(3) \<open>new' = []\<close> assms(3))
qed

definition sample_header :: "string option" where
  "sample_header = Some (''Bearer '' @ agent_token ''pub'' ''sec'')"

definition sample_post_request :: post_request where
  "sample_post_request = \<lparr>pr_now = 60, pr_clock = 10, pr_batch = sample_batch\<lparr>eb_batch_id := 2\<rparr>, pr_authorization = sample_header\<rparr>"

lemma sample_repost:
  "case post_events sample_ingest_env 50 0 sample_batch sample_header (sample_ingest_site, make_limiter 5 60) of
     (_, Inl _) \<Rightarrow> False
   | (st1, Inr _) \<Rightarrow>
     (case post_events sample_ingest_env 70 20 sample_batch sample_header
         (fold (serve_post sample_ingest_env) [sample_post_request] st1) of
        (_, Inl _) \<Rightarrow> False | (_, Inr _) \<Rightarrow> True)"
  by code_simp

theorem redelivery_stores_nothing_witness:
  "\<exists>st1 r1 st3 r3. post_events sample_ingest_env 50 0 sample_batch sample_header
       (sample_ingest_site, make_limiter 5 60) = (st1, Inr r1)
     \<and> post_events sample_ingest_env 70 20 sample_batch sample_header
         (fold (serve_post sample_ingest_env) [sample_post_request] st1) = (st3, Inr r3)
     \<and> ir_accepted r3 = 0 \<and> ir_existing r3 = 1"
proof -
  obtain st1 r1 st3 r3 where run: "post_events sample_ingest_env 50 0 sample_batch sample_header
       (sample_ingest_site, make_limiter 5 60) = (st1, Inr r1)"
    "post_events sample_ingest_env 70 20 sample_batch sample_header
       (fold (serve_post sample_ingest_env) [sample_post_request] st1) = (st3, Inr r3)"
    using sample_repost by (auto split: prod.splits sum.splits)
  from redelivery_stores_nothing [OF sample_ingest_inv run(1) refl run(2)] run show ?thesis
    by (auto simp: sample_batch_def)
qed

end
