(* ===== verification/Delivery_System.thy ===== *)
theory Delivery_System
  imports Agent_Service Ingest Step_Systems
begin

text \<open>
  An agent and the control plane together. A step is one transaction or one message: a collector persists a
  record, the delivery thread selects a batch, the request reaches the control plane or does not, its answer
  arrives or is lost, the batch is settled, the agent crashes and restarts, any other client posts anything,
  an operator requeues or deletes queued events. The set of identifiers collected and of those deleted by an
  operator are history variables that no operation reads. The HTTP hop is the contract's: the batch the
  control plane parses is the batch the agent dumped.
\<close>

section \<open>The system\<close>

record system_env =
  se_codec :: event_codec
  se_normalizer :: normalizer
  se_parsers :: header_parsers
  se_ingest :: ingest_env
  se_authorization :: string

record system =
  sy_spool :: spool
  sy_manager :: delivery_manager
  sy_flight :: "(queued_event list \<times> http_reply option) option"
  sy_control :: "site \<times> rate_limiter"
  sy_collected :: "uuid set"
  sy_deleted :: "uuid set"

text \<open>The answer of the control plane as the client sees it; what the handler does not translate is a 500.\<close>

definition http_reply_of :: "string \<Rightarrow> string option \<Rightarrow> ingest_response result \<Rightarrow> http_reply" where
  "http_reply_of request_id retry_after res = (case res of
     Inr r \<Rightarrow> Reply 200 None (Some (JObj [(''request_id'', JStr request_id), (''batch_id'', JStr (uuid_str (ir_batch_id r))),
       (''accepted'', JInt (int (ir_accepted r))), (''existing'', JInt (int (ir_existing r)))]))
   | Inl (ApiError status _) \<Rightarrow> Reply status retry_after None
   | Inl _ \<Rightarrow> Reply 500 None None)"

definition event_ids :: "normalized_event option \<Rightarrow> uuid set" where
  "event_ids event = (case event of None \<Rightarrow> {} | Some e \<Rightarrow> {ne_event_id e})"

inductive system_step :: "system_env \<Rightarrow> system \<Rightarrow> system \<Rightarrow> bool" for env where
  collect: "persist_record (se_codec env) (se_normalizer env) source now r (sy_spool s) = Inr (sp', x) \<Longrightarrow>
    se_normalizer env r (so_event_source source) = Inr event \<Longrightarrow>
    system_step env s (s\<lparr>sy_spool := sp', sy_collected := sy_collected s \<union> event_ids event\<rparr>)"
| gap: "record_journal_gap source now (sy_spool s) = Inr sp' \<Longrightarrow> system_step env s (s\<lparr>sy_spool := sp'\<rparr>)"
| select: "sy_flight s = None \<Longrightarrow>
    ready_batch (se_codec env) (dm_current_batch_size (sy_manager s)) now (sy_spool s) = Inr qs \<Longrightarrow> qs \<noteq> [] \<Longrightarrow>
    system_step env s (s\<lparr>sy_flight := Some (qs, None)\<rparr>)"
| answered: "sy_flight s = Some (qs, None) \<Longrightarrow>
    post_events (se_ingest env) now clock (make_batch bid sent_at (map qe_event qs)) (Some (se_authorization env))
      (sy_control s) = (control', res) \<Longrightarrow>
    reply = http_reply_of request_id retry_after res \<or> reply = No_Reply \<Longrightarrow>
    system_step env s (s\<lparr>sy_control := control', sy_flight := Some (qs, Some reply)\<rparr>)"
| not_reached: "sy_flight s = Some (qs, None) \<Longrightarrow> reply = No_Reply \<or> (\<exists>status h b. reply = Reply status h b \<and> status \<noteq> 200) \<Longrightarrow>
    system_step env s (s\<lparr>sy_flight := Some (qs, Some reply)\<rparr>)"
| settle: "sy_flight s = Some (qs, Some reply) \<Longrightarrow>
    settle_batch qs (classify_reply (se_parsers env) tnow reply (int (length qs))) jitter now (sy_manager s, sy_spool s)
      = Inr ((m', sp'), out) \<Longrightarrow>
    system_step env s (s\<lparr>sy_manager := m', sy_spool := sp', sy_flight := None\<rparr>)"
| crash: "system_step env s (s\<lparr>sy_flight := None,
    sy_manager := (sy_manager s)\<lparr>dm_current_batch_size := dm_configured_batch_size (sy_manager s)\<rparr>\<rparr>)"
| other_client: "system_step env s (s\<lparr>sy_control := serve_post (se_ingest env) q (sy_control s)\<rparr>)"
| operator_requeues: "system_step env s (s\<lparr>sy_spool := fst (spool_requeue eid (sy_spool s))\<rparr>)"
| operator_deletes: "system_step env s (s\<lparr>sy_spool := fst (spool_delete eid (sy_spool s)),
    sy_deleted := insert eid (sy_deleted s)\<rparr>)"

section \<open>What is stored for the agent\<close>

text \<open>The event is stored under the server whose key the agent's header names.\<close>

definition stored_for :: "string \<Rightarrow> site \<Rightarrow> uuid \<Rightarrow> bool" where
  "stored_for authorization s eid \<longleftrightarrow> (\<exists>token k. bearer_token (Some authorization) = Inr token
     \<and> k \<in> set (st_agent_keys s) \<and> parse_agent_api_key_public_id token = Some (ak_public_id k)
     \<and> (ak_server_id k, eid) \<in> event_key ` set (events (st_main s)))"

lemma stored_for_grown:
  assumes "stored_for authorization s eid" "grown s s'"
  shows "stored_for authorization s' eid"
proof -
  from assms(1) obtain token k where k: "bearer_token (Some authorization) = Inr token" "k \<in> set (st_agent_keys s)"
    "parse_agent_api_key_public_id token = Some (ak_public_id k)" "(ak_server_id k, eid) \<in> event_key ` set (events (st_main s))"
    unfolding stored_for_def by blast
  have "same_access s s'" using assms(2) by (simp add: grown_def)
  then obtain k' where "k' \<in> set (st_agent_keys s')" "ak_server_id k' = ak_server_id k" "ak_public_id k' = ak_public_id k"
    by (rule same_access_key [OF _ k(2)])
  moreover have "(ak_server_id k, eid) \<in> event_key ` set (events (st_main s'))"
    using k(4) assms(2) unfolding grown_def by blast
  ultimately show ?thesis using k(1,3) unfolding stored_for_def by metis
qed

lemma ingested_stored_for:
  assumes "ingested env now clock b (Some authorization) st st' r" "access_inv (fst st)" "e \<in> set (eb_events b)"
  shows "stored_for authorization (fst st') (ne_event_id e)"
proof -
  from assms(1) obtain token a new where 1: "bearer_token (Some authorization) = Inr token"
    "authenticate_agent (ie_sha256 env) (fst st) token now = Inr a" "same_access (fst st) (fst st')"
    "stored_batch (ie_dump env) now b (aa_server_id a) (st_main (fst st)) new"
    "events (st_main (fst st')) = events (st_main (fst st)) @ new"
    unfolding ingested_def by (auto simp: detected_def)
  from 1(2) authenticate_agent_iff [OF assms(2)] obtain k v where k: "valid_credential (ie_sha256 env) (fst st) token now k v"
    "aa_server_id a = sv_id v" by auto
  then have k_in: "k \<in> set (st_agent_keys (fst st))" "aa_server_id a = ak_server_id k"
    "parse_agent_api_key_public_id token = Some (ak_public_id k)"
    by (auto simp: valid_credential_def parse_public_id_iff)
  obtain k' where "k' \<in> set (st_agent_keys (fst st'))" "ak_server_id k' = ak_server_id k" "ak_public_id k' = ak_public_id k"
    by (rule same_access_key [OF 1(3) k_in(1)])
  moreover have "(ak_server_id k, ne_event_id e) \<in> event_key ` set (events (st_main (fst st')))"
    using 1(4,5) assms(3) by (simp add: stored_batch_def k_in(2))
  ultimately show ?thesis using 1(1) k_in(3) unfolding stored_for_def by metis
qed

lemma no_reply_confirms [simp]: "\<not> confirms No_Reply n"
  by (simp add: confirms_def)

lemma confirming_reply:
  "confirms (http_reply_of request_id retry_after res) n \<Longrightarrow> \<exists>r. res = Inr r"
  by (auto simp: confirms_def http_reply_of_def split: sum.splits exn.splits)

section \<open>The invariant\<close>

definition flight_ok :: "system_env \<Rightarrow> system \<Rightarrow> bool" where
  "flight_ok env s \<longleftrightarrow> (case sy_flight s of
     None \<Rightarrow> True
   | Some (qs, reply) \<Rightarrow> int (length qs) \<le> dm_current_batch_size (sy_manager s)
       \<and> (\<forall>answer. reply = Some answer \<and> confirms answer (length qs) \<longrightarrow>
            (\<forall>q \<in> set qs. stored_for (se_authorization env) (fst (sy_control s)) (queued_id q))))"

definition accounted_for :: "system_env \<Rightarrow> system \<Rightarrow> uuid \<Rightarrow> bool" where
  "accounted_for env s eid \<longleftrightarrow> spool_contains eid (sy_spool s) \<or> eid \<in> sy_deleted s
     \<or> stored_for (se_authorization env) (fst (sy_control s)) eid"

definition system_inv :: "system_env \<Rightarrow> system \<Rightarrow> bool" where
  "system_inv env s \<longleftrightarrow> spool_inv (se_codec env) (sy_spool s) \<and> manager_ok (sy_manager s)
     \<and> ingest_inv (fst (sy_control s)) \<and> flight_ok env s \<and> (\<forall>eid \<in> sy_collected s. accounted_for env s eid)"

text \<open>What a step may change without losing an event: the queue may only grow, and so may what is stored.\<close>

lemma accounted_for_mono:
  assumes "accounted_for env s eid" "grown (fst (sy_control s)) (fst (sy_control s'))" "sy_deleted s \<subseteq> sy_deleted s'"
    "spool_contains eid (sy_spool s) \<Longrightarrow> accounted_for env s' eid"
  shows "accounted_for env s' eid"
  using assms stored_for_grown by (auto simp: accounted_for_def)

lemma flight_ok_mono:
  assumes "flight_ok env s" "grown (fst (sy_control s)) (fst (sy_control s'))" "sy_flight s' = sy_flight s" "sy_manager s' = sy_manager s"
  shows "flight_ok env s'"
  using assms stored_for_grown by (fastforce simp: flight_ok_def split: option.splits)

lemma grown_self [simp]: "grown s s" by (rule grown_refl)

text \<open>Steps of the agent that keep the flight and do not touch the control plane.\<close>

lemma queue_step_inv:
  assumes "system_inv env s" "spool_inv (se_codec env) sp'" "sy_deleted s \<subseteq> D"
    "\<And>eid. spool_contains eid (sy_spool s) \<Longrightarrow> spool_contains eid sp' \<or> eid \<in> D"
    "\<And>eid. eid \<in> C \<Longrightarrow> eid \<in> sy_collected s \<or> spool_contains eid sp'"
  shows "system_inv env (s\<lparr>sy_spool := sp', sy_collected := C, sy_deleted := D\<rparr>)"
proof -
  let ?s = "s\<lparr>sy_spool := sp', sy_collected := C, sy_deleted := D\<rparr>"
  have "accounted_for env ?s eid" if "accounted_for env s eid" for eid
    by (rule accounted_for_mono [OF that]) (use assms(3,4) in \<open>auto simp: accounted_for_def\<close>)
  then have "accounted_for env ?s eid" if "eid \<in> C" for eid
    using assms(5) [OF that] assms(1) by (auto simp: system_inv_def accounted_for_def)
  moreover have "flight_ok env ?s" by (rule flight_ok_mono [of env s]) (use assms(1) in \<open>simp_all add: system_inv_def\<close>)
  ultimately show ?thesis using assms(1,2) by (simp add: system_inv_def)
qed

text \<open>Steps that change the flight or the control plane, but not the queue.\<close>

lemma control_step_inv:
  assumes "system_inv env s" "grown (fst (sy_control s)) (fst control')" "ingest_inv (fst control')" "manager_ok m'"
    "flight_ok env (s\<lparr>sy_control := control', sy_flight := f, sy_manager := m'\<rparr>)"
  shows "system_inv env (s\<lparr>sy_control := control', sy_flight := f, sy_manager := m'\<rparr>)"
proof -
  have "accounted_for env (s\<lparr>sy_control := control', sy_flight := f, sy_manager := m'\<rparr>) eid" if "accounted_for env s eid" for eid
    by (rule accounted_for_mono [OF that]) (use assms(2) in \<open>auto simp: accounted_for_def\<close>)
  with assms show ?thesis by (simp add: system_inv_def)
qed

lemma answered_stored:
  assumes "system_inv env s" "sy_flight s = Some (qs, None)"
    "post_events (se_ingest env) now clock (make_batch bid sent_at (map qe_event qs)) (Some (se_authorization env))
      (sy_control s) = (control', res)"
  shows "ingest_inv (fst control') \<and> grown (fst (sy_control s)) (fst control')
    \<and> (\<forall>r. res = Inr r \<longrightarrow> (\<forall>q \<in> set qs. stored_for (se_authorization env) (fst control') (queued_id q)))"
proof -
  have inv: "ingest_inv (fst (sy_control s))" using assms(1) by (simp add: system_inv_def)
  show ?thesis
  proof (cases res)
    case (Inl e)
    with assms(3) have "fst control' = fst (sy_control s)" by (auto dest: post_events_Inl)
    with inv Inl show ?thesis by simp
  next
    case (Inr r)
    note in1 = post_events_Inr [OF assms(3) [unfolded Inr] inv]
    have "stored_for (se_authorization env) (fst control') (queued_id q)" if "q \<in> set qs" for q
      using ingested_stored_for [OF in1, of "qe_event q"] inv that
      by (simp add: make_batch_def ingest_inv_def queued_id_def)
    with ingested_grown [OF in1] show ?thesis by blast
  qed
qed

lemma flight_settled_inv:
  assumes "system_inv env s" "sy_flight s = Some (qs, Some reply)"
    "settle_batch qs (classify_reply (se_parsers env) tnow reply (int (length qs))) jitter now (sy_manager s, sy_spool s)
      = Inr ((m', sp'), out)"
  shows "system_inv env (s\<lparr>sy_manager := m', sy_spool := sp', sy_flight := None\<rparr>)"
proof -
  let ?res = "classify_reply (se_parsers env) tnow reply (int (length qs))"
    and ?s = "s\<lparr>sy_manager := m', sy_spool := sp', sy_flight := None\<rparr>"
  have m: "manager_ok (sy_manager s)" "int (length qs) \<le> dm_current_batch_size (sy_manager s)"
    using assms(1,2) by (simp_all add: system_inv_def flight_ok_def)
  from settle_batch_facts [OF m(2,1), of ?res jitter now "sy_spool s" "se_codec env"] assms(3)
  have 1: "manager_ok m'" "spool_inv (se_codec env) (sy_spool s) \<longrightarrow> spool_inv (se_codec env) sp'"
    "\<forall>eid. spool_contains eid sp' \<longleftrightarrow> spool_contains eid (sy_spool s)
       \<and> \<not> (tr_classification ?res = Class_Success \<and> eid \<in> queued_id ` set qs)" by (metis Inr_inject Pair_inject)+
  have stored: "stored_for (se_authorization env) (fst (sy_control s)) eid"
    if "tr_classification ?res = Class_Success" "eid \<in> queued_id ` set qs" for eid
    using that assms(1,2) by (auto simp: system_inv_def flight_ok_def classify_reply_Success)
  have "accounted_for env ?s eid" if "accounted_for env s eid" for eid
    by (rule accounted_for_mono [OF that]) (use 1(3) stored in \<open>auto simp: accounted_for_def\<close>)
  with 1 assms(1) show ?thesis by (simp add: system_inv_def flight_ok_def)
qed

definition env_ok :: "system_env \<Rightarrow> bool" where
  "env_ok env \<longleftrightarrow> codec_ok (se_codec env) \<and> normalizer_ok (se_normalizer env)"

lemma system_step_inv:
  assumes "system_step env s s'" "env_ok env" "system_inv env s"
  shows "system_inv env s'"
  using assms
proof (induction rule: system_step.induct)
  case (collect source now r s sp' x event)
  have f: "codec_ok (se_codec env)" "normalizer_ok (se_normalizer env)" using collect.prems(1) by (simp_all add: env_ok_def)
  note p = persist_record_Inr [OF collect.hyps(1)]
  have "spool_inv (se_codec env) sp'" using p(6) [OF f(2)] collect.prems(2) by (simp add: system_inv_def)
  moreover have old: "spool_contains eid sp'" if "spool_contains eid (sy_spool s)" for eid
    using that p(2) by (auto simp: spool_contains_def)
  moreover have new: "spool_contains eid sp'" if "eid \<in> event_ids event" for eid
    using that p(3) collect.hyps(2) by (auto simp: event_ids_def split: option.splits)
  ultimately have "system_inv env (s\<lparr>sy_spool := sp', sy_collected := sy_collected s \<union> event_ids event, sy_deleted := sy_deleted s\<rparr>)"
    by (intro queue_step_inv [OF collect.prems(2)]) auto
  then show ?case by simp
next
  case (gap source now s sp')
  then obtain sp1 where sp1: "record_diagnostic ''journal_gap'' now (sy_spool s) = Inr sp1" "sp' = clear_cursor (so_name source) sp1"
    by (auto simp: record_journal_gap_def bind_r_eq_Inr)
  have "spool_inv (se_codec env) sp'" "sp_events sp' = sp_events (sy_spool s)"
    using gap.prems(2) record_diagnostic_Inr [OF sp1(1)] clear_cursor_facts by (auto simp: sp1(2) system_inv_def)
  from queue_step_inv [OF gap.prems(2) this(1) order_refl, of "sy_collected s"] this(2)
  show ?case by (simp add: spool_contains_def)
next
  case (select s now qs)
  have size: "1 \<le> dm_current_batch_size (sy_manager s)" "dm_current_batch_size (sy_manager s) \<le> 100"
    using select.prems(2) by (auto simp: system_inv_def manager_ok_def)
  have f: "codec_ok (se_codec env)" "spool_inv (se_codec env) (sy_spool s)"
    using select.prems by (simp_all add: env_ok_def system_inv_def)
  obtain qs' where "ready_batch (se_codec env) (dm_current_batch_size (sy_manager s)) now (sy_spool s) = Inr qs'"
    "length qs' \<le> nat (dm_current_batch_size (sy_manager s))"
    by (rule ready_batch_ok [OF f size])
  with select.hyps(2) size have "flight_ok env (s\<lparr>sy_control := sy_control s, sy_flight := Some (qs, None), sy_manager := sy_manager s\<rparr>)"
    by (simp add: flight_ok_def)
  from control_step_inv [OF select.prems(2) _ _ _ this] select.prems(2) show ?case by (simp add: system_inv_def)
next
  case (answered s qs now clock bid sent_at control' res reply request_id retry_after)
  note st = answered_stored [OF answered.prems(2) answered.hyps(1,2)]
  have m: "manager_ok (sy_manager s)" "int (length qs) \<le> dm_current_batch_size (sy_manager s)"
    using answered.prems(2) answered.hyps(1) by (simp_all add: system_inv_def flight_ok_def)
  have "\<exists>r. res = Inr r" if "confirms reply (length qs)"
    using that answered.hyps(3) by (auto dest: confirming_reply)
  with st m have "flight_ok env (s\<lparr>sy_control := control', sy_flight := Some (qs, Some reply), sy_manager := sy_manager s\<rparr>)"
    by (auto simp: flight_ok_def)
  from control_step_inv [OF answered.prems(2) _ _ m(1) this] st show ?case by simp
next
  case (not_reached s qs reply)
  have "\<not> confirms reply (length qs)" using not_reached.hyps(2) by (auto simp: confirms_def)
  with not_reached have "flight_ok env (s\<lparr>sy_control := sy_control s, sy_flight := Some (qs, Some reply), sy_manager := sy_manager s\<rparr>)"
    by (simp add: flight_ok_def system_inv_def)
  from control_step_inv [OF not_reached.prems(2) _ _ _ this] not_reached.prems(2) show ?case by (simp add: system_inv_def)
next
  case (settle s qs reply tnow jitter now m' sp' out)
  then show ?case by (intro flight_settled_inv)
next
  case (crash s)
  let ?m = "(sy_manager s)\<lparr>dm_current_batch_size := dm_configured_batch_size (sy_manager s)\<rparr>"
  have "manager_ok ?m" using crash.prems(2) by (auto simp: system_inv_def manager_ok_def)
  moreover have "flight_ok env (s\<lparr>sy_control := sy_control s, sy_flight := None, sy_manager := ?m\<rparr>)" by (simp add: flight_ok_def)
  ultimately show ?case using control_step_inv [OF crash.prems(2), of "sy_control s" ?m None] crash.prems(2)
    by (simp add: system_inv_def)
next
  case (other_client s q)
  have "ingest_inv (fst (sy_control s))" using other_client.prems(2) by (simp add: system_inv_def)
  note g = serve_post_grown [OF this, of "se_ingest env" q]
  have "flight_ok env (s\<lparr>sy_control := serve_post (se_ingest env) q (sy_control s), sy_flight := sy_flight s, sy_manager := sy_manager s\<rparr>)"
    by (rule flight_ok_mono [of env s]) (use g other_client.prems(2) in \<open>simp_all add: system_inv_def\<close>)
  from control_step_inv [OF other_client.prems(2) _ _ _ this] g other_client.prems(2) show ?case by (simp add: system_inv_def)
next
  case (operator_requeues s eid)
  let ?sp = "fst (spool_requeue eid (sy_spool s))"
  have "system_inv env (s\<lparr>sy_spool := ?sp, sy_collected := sy_collected s, sy_deleted := sy_deleted s\<rparr>)"
    by (intro queue_step_inv [OF operator_requeues.prems(2)])
      (use operator_requeues.prems(2) in \<open>simp_all add: system_inv_def spool_requeue_facts\<close>)
  then show ?case by simp
next
  case (operator_deletes s eid)
  let ?sp = "fst (spool_delete eid (sy_spool s))"
  have "system_inv env (s\<lparr>sy_spool := ?sp, sy_collected := sy_collected s, sy_deleted := insert eid (sy_deleted s)\<rparr>)"
    by (intro queue_step_inv [OF operator_deletes.prems(2)])
      (use operator_deletes.prems(2) in \<open>auto simp: system_inv_def spool_delete_facts\<close>)
  then show ?case by simp
qed

interpretation deliveries: step_system "system_step env" "\<lambda>s. env_ok env \<and> system_inv env s" for env
  by unfold_locales (auto intro: system_step_inv)

section \<open>Properties\<close>

text \<open>A fresh agent next to a control plane in any consistent state.\<close>

definition system_start :: "system \<Rightarrow> bool" where
  "system_start s \<longleftrightarrow> sp_events (sy_spool s) = [] \<and> sp_cursors (sy_spool s) = [] \<and> sp_diagnostics (sy_spool s) = []
     \<and> 1 \<le> sp_max_events (sy_spool s) \<and> manager_ok (sy_manager s) \<and> sy_flight s = None
     \<and> ingest_inv (fst (sy_control s)) \<and> sy_collected s = {} \<and> sy_deleted s = {}"

definition stored_once :: "string \<Rightarrow> site \<Rightarrow> uuid \<Rightarrow> bool" where
  "stored_once authorization s eid \<longleftrightarrow> (\<exists>token k. bearer_token (Some authorization) = Inr token
     \<and> k \<in> set (st_agent_keys s) \<and> parse_agent_api_key_public_id token = Some (ak_public_id k)
     \<and> length (filter (\<lambda>r. ev_server_id r = ak_server_id k \<and> ev_agent_event_id r = eid) (events (st_main s))) = 1)"

lemma length_filter_key: "distinct (map f xs) \<Longrightarrow> k \<in> f ` set xs \<Longrightarrow> length (filter (\<lambda>x. f x = k) xs) = 1"
proof (induction xs)
  case (Cons x xs)
  show ?case
  proof (cases "f x = k")
    case True
    with Cons.prems(1) have "filter (\<lambda>x. f x = k) xs = []" by (simp add: filter_empty_conv) (metis imageI)
    with True show ?thesis by simp
  next
    case False
    with Cons show ?thesis by auto
  qed
qed simp

lemma stored_for_once: "stored_for authorization s eid \<Longrightarrow> ingest_inv s \<Longrightarrow> stored_once authorization s eid"
proof -
  assume "stored_for authorization s eid" "ingest_inv s"
  then obtain token k where k: "bearer_token (Some authorization) = Inr token" "k \<in> set (st_agent_keys s)"
    "parse_agent_api_key_public_id token = Some (ak_public_id k)" "(ak_server_id k, eid) \<in> event_key ` set (events (st_main s))"
    unfolding stored_for_def by blast
  have "distinct (map event_key (events (st_main s)))"
    using \<open>ingest_inv s\<close> by (simp add: ingest_inv_def events_inv_def events_unique_key)
  from length_filter_key [OF this k(4)]
  have "length (filter (\<lambda>r. ev_server_id r = ak_server_id k \<and> ev_agent_event_id r = eid) (events (st_main s))) = 1"
    by (simp add: event_key_def)
  with k show ?thesis unfolding stored_once_def by blast
qed

text \<open>C1: No security event is lost or stored twice on its way. Start an agent with an empty queue next to a
  control plane in a consistent state, and let collectors, the delivery thread, lost requests, lost answers,
  outages, crashes, other clients and operators act in any order and any number of times: then every event
  the agent ever collected is still in its queue, or an operator deleted it, or it is stored at the control
  plane exactly once, under the server the agent's key belongs to. Queue and database stay consistent.\<close>

theorem collected_events_are_never_lost:
  assumes "env_ok env" "system_start s0" "(system_step env)\<^sup>*\<^sup>* s0 s"
  shows "spool_inv (se_codec env) (sy_spool s) \<and> ingest_inv (fst (sy_control s))
    \<and> (\<forall>eid \<in> sy_collected s. spool_contains eid (sy_spool s) \<or> eid \<in> sy_deleted s
         \<or> stored_once (se_authorization env) (fst (sy_control s)) eid)"
proof -
  have "system_inv env s0" using assms(2) by (simp add: system_inv_def system_start_def spool_inv_def flight_ok_def)
  from deliveries.ok_steps [OF assms(3)] assms(1) this have "system_inv env s" by blast
  then show ?thesis
    by (auto simp: system_inv_def accounted_for_def intro: stored_for_once)
qed

definition sample_system_env :: system_env where
  "sample_system_env = \<lparr>se_codec = sample_event_codec, se_normalizer = sample_normalizer,
     se_parsers = \<lparr>hp_float = (\<lambda>_. None), hp_date = (\<lambda>_. None)\<rparr>, se_ingest = sample_ingest_env,
     se_authorization = ''Bearer '' @ agent_token ''pub'' ''sec''\<rparr>"

definition sample_system :: system where
  "sample_system = \<lparr>sy_spool = sample_spool\<lparr>sp_events := []\<rparr>, sy_manager = make_manager 2 1 60 300, sy_flight = None,
     sy_control = (sample_ingest_site, make_limiter 5 60), sy_collected = {}, sy_deleted = {}\<rparr>"

definition sample_record :: journal_record where
  "sample_record = \<lparr>jr_cursor = ''c-2'', jr_fields = [(''MESSAGE'', JNull)]\<rparr>"

theorem collected_events_are_never_lost_witness:
  "\<exists>s. (system_step sample_system_env)\<^sup>*\<^sup>* sample_system s \<and> 13 \<in> sy_collected s \<and> sy_flight s \<noteq> None
     \<and> (spool_contains 13 (sy_spool s) \<or> 13 \<in> sy_deleted s
         \<or> stored_once (se_authorization sample_system_env) (fst (sy_control s)) 13)"
proof -
  let ?env = sample_system_env
  have env: "env_ok ?env" by (simp add: env_ok_def sample_system_env_def sample_codec_ok sample_normalizer_ok)
  have start: "system_start sample_system"
    using sample_ingest_inv by (simp add: system_start_def sample_system_def sample_spool_def manager_ok_def make_manager_def)
  have event: "sample_normalizer sample_record Journald = Inr (Some (sample_agent_event 13))"
    by (simp add: sample_normalizer_def sample_record_def)
  obtain sp x where p: "persist_record sample_event_codec sample_normalizer sample_source 5 sample_record (sy_spool sample_system)
      = Inr (sp, x)" "sp_events sp = [new_spool_row sample_event_codec (sample_agent_event 13) 5]"
    using event by (simp add: persist_record_def enqueue_with_cursor_def upsert_cursor_def cursor_length_ok_def
        sample_system_def sample_spool_def sample_source_def sample_record_def)
  let ?s1 = "sample_system\<lparr>sy_spool := sp, sy_collected := {13}\<rparr>"
  have "system_step ?env sample_system (sample_system\<lparr>sy_spool := sp,
      sy_collected := sy_collected sample_system \<union> event_ids (Some (sample_agent_event 13))\<rparr>)"
    by (rule collect [where source = sample_source and r = sample_record])
      (use p event in \<open>simp_all add: sample_system_env_def sample_source_def\<close>)
  then have step1: "system_step ?env sample_system ?s1"
    by (simp add: event_ids_def sample_agent_event_def sample_system_def)
  have "system_inv ?env ?s1"
    using system_step_inv [OF step1 env] start by (simp add: system_inv_def system_start_def spool_inv_def flight_ok_def)
  then have inv: "spool_inv sample_event_codec sp" by (simp add: system_inv_def sample_system_env_def)
  obtain qs where qs: "ready_batch sample_event_codec 2 9 sp = Inr qs" "map queued_id qs = map sr_event_id (take (nat 2) (due_rows 9 sp))"
    by (rule ready_batch_ok [OF sample_codec_ok inv, of 2 9]) simp_all
  have "qs \<noteq> []" using qs(2) p(2) by (auto simp: due_rows_def new_spool_row_def)
  then have "system_step ?env ?s1 (?s1\<lparr>sy_flight := Some (qs, None)\<rparr>)"
    by (intro select) (use qs in \<open>simp_all add: sample_system_def sample_system_env_def make_manager_def\<close>)
  with step1 have run: "(system_step ?env)\<^sup>*\<^sup>* sample_system (?s1\<lparr>sy_flight := Some (qs, None)\<rparr>)"
    by (meson converse_rtranclp_into_rtranclp r_into_rtranclp)
  from collected_events_are_never_lost [OF env start run] run show ?thesis
    by (intro exI [of _ "?s1\<lparr>sy_flight := Some (qs, None)\<rparr>"]) simp
qed

end
