(* ===== verification/Web_Tokens.thy ===== *)
theory Web_Tokens
  imports Agent_Access
begin

text \<open>
  The two shapes of operator credentials: API keys (\<open>application/operator_keys.py\<close>) and the opaque tokens
  of browser sessions (\<open>application/web_sessions.py\<close>, canonical unpadded base64url of 32 bytes). Bytes are
  characters; SHA-256 and the random bytes are arguments.
\<close>

section \<open>Base64url\<close>

definition is_urlsafe :: "char \<Rightarrow> bool" where
  "is_urlsafe c \<longleftrightarrow> is_alnum c \<or> c = CHR ''-'' \<or> c = CHR ''_''"

definition b64_alphabet :: string where
  "b64_alphabet = ''ABCDEFGHIJKLMNOPQRSTUVWXYZabcdefghijklmnopqrstuvwxyz0123456789-_''"

definition sextet :: "char \<Rightarrow> nat" where
  "sextet c = (let n = (of_char c :: nat) in
     if is_upper c then n - 65 else if is_lower c then n - 71 else if is_digit c then n + 4
     else if c = CHR ''-'' then 62 else 63)"

definition b64_char :: "nat \<Rightarrow> char" where
  "b64_char n = b64_alphabet ! n"

text \<open>The value of a big-endian sequence of digits, and the digits of a value.\<close>

definition be_value :: "nat \<Rightarrow> nat list \<Rightarrow> nat" where
  "be_value b ds = foldl (\<lambda>n d. b * n + d) 0 ds"

fun be_digits :: "nat \<Rightarrow> nat \<Rightarrow> nat \<Rightarrow> nat list" where
  "be_digits b 0 n = []"
| "be_digits b (Suc k) n = be_digits b k (n div b) @ [n mod b]"

lemma length_be_digits [simp]: "length (be_digits b k n) = k"
  by (induction k arbitrary: n) simp_all

lemma be_value_snoc [simp]: "be_value b (ds @ [d]) = b * be_value b ds + d"
  by (simp add: be_value_def)

lemma be_value_Nil [simp]: "be_value b [] = 0"
  by (simp add: be_value_def)

lemma be_value_digits: "n < b ^ k \<Longrightarrow> be_value b (be_digits b k n) = n"
proof (induction k arbitrary: n)
  case (Suc k)
  then have "n div b < b ^ k" by (simp add: less_mult_imp_div_less mult.commute)
  with Suc.IH show ?case by simp
qed simp

lemma be_digits_value: "\<forall>d \<in> set ds. d < b \<Longrightarrow> be_digits b (length ds) (be_value b ds) = ds"
  by (induction ds rule: rev_induct) simp_all

lemma be_value_bound: "\<forall>d \<in> set ds. d < b \<Longrightarrow> be_value b ds < b ^ length ds"
proof (induction ds rule: rev_induct)
  case (snoc d ds)
  then have "be_value b ds + 1 \<le> b ^ length ds" by simp
  then have "b * (be_value b ds + 1) \<le> b * b ^ length ds" by (rule mult_left_mono) simp
  moreover have "b * be_value b ds + d < b * (be_value b ds + 1)" using snoc.prems by simp
  ultimately show ?case by simp
qed simp

lemma be_digits_bound: "0 < b \<Longrightarrow> d \<in> set (be_digits b k n) \<Longrightarrow> d < b"
  by (induction k arbitrary: n) auto

lemma alphabet_codes:
  "map of_char b64_alphabet = [65 ..< 91] @ [97 ..< 123] @ [48 ..< 58] @ [45 :: nat, 95]"
  by (simp add: b64_alphabet_def upt_rec)

lemma alphabet_sextets: "map sextet b64_alphabet = [0 ..< 64]"
  by (simp add: b64_alphabet_def upt_rec sextet_def Let_def is_upper_def is_lower_def is_digit_def)

lemma length_alphabet: "length b64_alphabet = 64"
  by (simp add: b64_alphabet_def)

lemma urlsafe_iff: "is_urlsafe c \<longleftrightarrow> c \<in> set b64_alphabet"
proof -
  have "c \<in> set b64_alphabet \<longleftrightarrow> (of_char c :: nat) \<in> set (map of_char b64_alphabet)"
    by (auto simp: image_iff)
  also have "\<dots> \<longleftrightarrow> is_urlsafe c"
  proof -
    have "of_char (CHR ''-'') = (45 :: nat)" "of_char (CHR ''_'') = (95 :: nat)" by simp_all
    then have "(of_char c :: nat) = 45 \<longleftrightarrow> c = CHR ''-''" "(of_char c :: nat) = 95 \<longleftrightarrow> c = CHR ''_''"
      by (metis of_char_eq_iff)+
    then show ?thesis
      unfolding alphabet_codes set_append set_upt is_urlsafe_def is_alnum_def is_upper_def is_lower_def is_digit_def
      by auto
  qed
  finally show ?thesis by simp
qed

lemma sextet_char: "n < 64 \<Longrightarrow> sextet (b64_char n) = n"
  using arg_cong [OF alphabet_sextets, of "\<lambda>xs. xs ! n"] by (simp add: b64_char_def length_alphabet)

lemma urlsafe_char: "n < 64 \<Longrightarrow> is_urlsafe (b64_char n)"
  by (simp add: urlsafe_iff b64_char_def length_alphabet)

lemma char_sextet:
  assumes "is_urlsafe c"
  shows "sextet c < 64" "b64_char (sextet c) = c"
proof -
  from assms obtain n where "n < 64" "c = b64_char n"
    by (auto simp: urlsafe_iff in_set_conv_nth length_alphabet b64_char_def)
  then show "sextet c < 64" "b64_char (sextet c) = c" by (simp_all add: sextet_char)
qed

section \<open>Session tokens\<close>

definition token_bytes :: nat where
  "token_bytes = 32"

text \<open>
  \<open>token_urlsafe(32)\<close> for given random bytes: 43 digits for 258 bits, the last two of them zero.
\<close>

definition encode_token :: "string \<Rightarrow> string" where
  "encode_token raw = map b64_char (be_digits 64 43 (4 * be_value 256 (map of_char raw)))"

text \<open>
  \<open>_decode_token\<close>: the 43 characters decode to 32 bytes, and encoding those gives the token back exactly
  when the two surplus bits are zero.
\<close>

definition decode_token :: "string \<Rightarrow> string option" where
  "decode_token token =
     (if length token \<noteq> 43 \<or> \<not> list_all is_urlsafe token then None
      else let raw = map char_of (be_digits 256 32 (be_value 64 (map sextet token) div 4)) in
        if encode_token raw = token then Some raw else None)"

definition generate_web_token :: "string \<Rightarrow> string result" where
  "generate_web_token random =
     (let token = encode_token random in
      bind_r (guard_r (length token = 43 \<and> decode_token token \<noteq> None)
        (RuntimeError ''secure token generator returned an invalid token'')) (\<lambda>_. Inr token))"

definition web_token_digest :: "(string \<Rightarrow> string) \<Rightarrow> string \<Rightarrow> string option" where
  "web_token_digest sha256 token = map_option sha256 (decode_token token)"

definition verify_csrf_tokens :: "(string \<Rightarrow> string) \<Rightarrow> string \<Rightarrow> string \<Rightarrow> string option \<Rightarrow> bool" where
  "verify_csrf_tokens sha256 cookie_token form_token expected_digest =
     (case (decode_token cookie_token, decode_token form_token) of
        (Some cookie_raw, Some form_raw) \<Rightarrow>
          (case expected_digest of
             None \<Rightarrow> cookie_raw = form_raw
           | Some d \<Rightarrow> length d = 32 \<and> cookie_raw = form_raw \<and> sha256 form_raw = d)
      | _ \<Rightarrow> False)"

lemma bytes_value: "length raw = 32 \<Longrightarrow> be_value 256 (map (of_char :: char \<Rightarrow> nat) raw) < 256 ^ 32"
  using be_value_bound [of "map of_char raw" 256] by auto

lemma decode_encode:
  assumes "length raw = 32"
  shows "decode_token (encode_token raw) = Some raw"
proof -
  let ?v = "be_value 256 (map (of_char :: char \<Rightarrow> nat) raw)"
  let ?ds = "be_digits 64 43 (4 * ?v)"
  have v: "?v < 256 ^ 32" by (rule bytes_value [OF assms])
  then have v4: "4 * ?v < 64 ^ 43" by simp
  have "map sextet (encode_token raw) = ?ds"
    unfolding encode_token_def map_map by (rule map_idI) (auto simp: sextet_char dest: be_digits_bound [rotated])
  then have "be_value 64 (map sextet (encode_token raw)) = 4 * ?v" using be_value_digits [OF v4] by simp
  moreover have "map char_of (be_digits 256 32 ?v) = raw"
    using be_digits_value [of "map (of_char :: char \<Rightarrow> nat) raw" 256] assms by (auto simp: o_def)
  moreover have "list_all is_urlsafe (encode_token raw)"
    by (auto simp: encode_token_def list_all_iff urlsafe_char dest: be_digits_bound [rotated])
  moreover have "length (encode_token raw) = 43" by (simp add: encode_token_def)
  ultimately show ?thesis by (simp add: decode_token_def)
qed

lemma decode_token_Some:
  "decode_token token = Some raw \<Longrightarrow> length raw = 32 \<and> token = encode_token raw"
proof -
  assume "decode_token token = Some raw"
  then have token: "encode_token raw = token"
    and raw: "raw = map char_of (be_digits 256 32 (be_value 64 (map sextet token) div 4))"
    unfolding decode_token_def Let_def by (metis option.distinct(1) option.inject)+
  from raw have "length raw = 32" by (metis length_map length_be_digits)
  with token show ?thesis by simp
qed

lemma decode_token_iff: "decode_token token = Some raw \<longleftrightarrow> length raw = 32 \<and> token = encode_token raw"
  using decode_token_Some decode_encode by metis

lemma generate_web_token_ok: "length random = 32 \<Longrightarrow> generate_web_token random = Inr (encode_token random)"
  by (simp add: generate_web_token_def decode_encode Let_def) (simp add: encode_token_def)

end
