(* ===== verification/Rbac.thy ===== *)
theory Rbac
  imports Database
begin

text \<open>
  \<open>application/rbac.py\<close>: the permissions, the fixed matrix of roles and permissions, and the one
  function that decides.
\<close>

datatype permission =
    Access_Dashboard
  | View_Incidents
  | Transition_Incidents
  | Comment_Incidents
  | View_Audit_Log
  | Manage_Operators
  | Manage_Telegram_Destinations
  | Propose_Ip_Block
  | Approve_Ip_Block

definition all_permissions :: "permission list" where
  "all_permissions = [Access_Dashboard, View_Incidents, Transition_Incidents, Comment_Incidents,
     View_Audit_Log, Manage_Operators, Manage_Telegram_Destinations, Propose_Ip_Block,
     Approve_Ip_Block]"

fun role_permissions :: "operator_role \<Rightarrow> permission list" where
  "role_permissions Viewer = [View_Incidents]"
| "role_permissions Analyst =
     [Access_Dashboard, View_Incidents, Transition_Incidents, Comment_Incidents, Propose_Ip_Block]"
| "role_permissions Admin = all_permissions"

definition role_has_permission :: "operator_role \<Rightarrow> permission \<Rightarrow> bool" where
  "role_has_permission role p \<longleftrightarrow> p \<in> set (role_permissions role)"

text \<open>The roles form a chain, ordered by what they may do.\<close>

fun role_rank :: "operator_role \<Rightarrow> nat" where
  "role_rank Viewer = 0"
| "role_rank Analyst = 1"
| "role_rank Admin = 2"

lemma all_permissions_complete: "p \<in> set all_permissions"
  by (cases p) (simp_all add: all_permissions_def)

lemma role_has_permission_mono:
  "role_rank a \<le> role_rank b \<Longrightarrow> role_has_permission a p \<Longrightarrow> role_has_permission b p"
  by (cases a; cases b) (auto simp: role_has_permission_def all_permissions_complete)

end
