(* ===== verification/Operator_Access.thy ===== *)
theory Operator_Access
  imports Web_Tokens Audit_Log Rbac Unicode_Text
begin

text \<open>
  Operators, their API keys and their browser sessions: \<open>application/operator_keys.py\<close>,
  \<open>operator_authentication.py\<close>, \<open>operators.py\<close> and \<open>web_sessions.py\<close> over the tables of
  \<open>models/operator.py\<close> and \<open>models/web_session.py\<close>. Times carry their zone by type, so the branch of
  \<open>_as_utc\<close> that refuses naive times is not reachable here.
\<close>

section \<open>Keys\<close>

definition operator_token_prefix :: string where
  "operator_token_prefix = ''wgok_''"

text \<open>\<open>_parse_token\<close>: a public identifier of 16 and a secret of 43 base64url characters.\<close>

definition parse_operator_token :: "string \<Rightarrow> (string \<times> string) option" where
  "parse_operator_token token =
     (let body = drop 5 token; public_id = take 16 body; secret = drop 17 body in
      if take 5 token = operator_token_prefix \<and> length body = 60 \<and> body ! 16 = CHR ''.''
        \<and> list_all is_urlsafe public_id \<and> list_all is_urlsafe secret
      then Some (public_id, secret) else None)"

definition parse_operator_api_key_public_id :: "string \<Rightarrow> string option" where
  "parse_operator_api_key_public_id token = map_option fst (parse_operator_token token)"

definition verify_operator_api_key :: "(string \<Rightarrow> string) \<Rightarrow> string \<Rightarrow> string \<Rightarrow> string \<Rightarrow> bool result" where
  "verify_operator_api_key sha256 token expected_public_id expected_secret_hash =
     (if length expected_secret_hash \<noteq> 32 then Inr False
      else case parse_operator_token token of
        None \<Rightarrow> Inr False
      | Some (public_id, secret) \<Rightarrow>
        bind_r (compare_text public_id expected_public_id) (\<lambda>public_id_matches.
        Inr (public_id_matches \<and> hash_secret sha256 secret = expected_secret_hash)))"

record operator_key_material =
  om_public_id :: string
  om_token :: string
  om_secret_hash :: string

definition generate_operator_api_key :: "(string \<Rightarrow> string) \<Rightarrow> string \<Rightarrow> string \<Rightarrow> operator_key_material" where
  "generate_operator_api_key sha256 public_id secret =
     \<lparr>om_public_id = public_id, om_token = operator_token_prefix @ public_id @ ''.'' @ secret,
      om_secret_hash = hash_secret sha256 secret\<rparr>"

section \<open>Tables\<close>

record operator_row =
  opr_id :: uuid
  opr_username :: string
  opr_role :: operator_role
  opr_is_active :: bool

record operator_key_row =
  ok_id :: uuid
  ok_operator_id :: uuid
  ok_public_id :: string
  ok_secret_hash :: string
  ok_label :: "ustring option"
  ok_rotated_from_id :: "uuid option"
  ok_created_at :: time
  ok_last_used_at :: "time option"
  ok_expires_at :: "time option"
  ok_revoked_at :: "time option"

record web_session_row =
  ws_id :: uuid
  ws_operator_id :: uuid
  ws_key_id :: uuid
  ws_token_digest :: string
  ws_csrf_token_digest :: string
  ws_created_at :: time
  ws_last_seen_at :: time
  ws_idle_expires_at :: time
  ws_absolute_expires_at :: time
  ws_revoked_at :: "time option"
  ws_updated_at :: time

record staff =
  sf_operators :: "operator_row list"
  sf_keys :: "operator_key_row list"
  sf_sessions :: "web_session_row list"
  sf_main :: db

definition after_opt :: "time \<Rightarrow> time option \<Rightarrow> bool" where
  "after_opt t u \<longleftrightarrow> (case u of None \<Rightarrow> True | Some v \<Rightarrow> t \<le> v)"

definition username_ok :: "string \<Rightarrow> bool" where
  "username_ok = head_run is_lower (\<lambda>c. is_lower c \<or> is_digit c \<or> c = CHR ''_'' \<or> c = CHR ''.'' \<or> c = CHR ''-'') 2 63"

definition operator_key_check :: "operator_key_row \<Rightarrow> bool" where
  "operator_key_check k \<longleftrightarrow> length (ok_secret_hash k) = 32
     \<and> (case ok_expires_at k of None \<Rightarrow> True | Some t \<Rightarrow> ok_created_at k < t) \<and> after_opt (ok_created_at k) (ok_revoked_at k)"

definition web_session_check :: "web_session_row \<Rightarrow> bool" where
  "web_session_check w \<longleftrightarrow> length (ws_token_digest w) = 32 \<and> length (ws_csrf_token_digest w) = 32
     \<and> ws_created_at w \<le> ws_last_seen_at w \<and> ws_last_seen_at w < ws_idle_expires_at w
     \<and> ws_idle_expires_at w \<le> ws_absolute_expires_at w \<and> ws_created_at w < ws_absolute_expires_at w
     \<and> ws_created_at w \<le> ws_updated_at w \<and> after_opt (ws_created_at w) (ws_revoked_at w)"

text \<open>A write is flushed: the constraints of the table decide.\<close>

definition insert_operator :: "staff \<Rightarrow> operator_row \<Rightarrow> staff result" where
  "insert_operator s o1 = bind_r (guard_r (username_ok (opr_username o1)) (IntegrityError ''username_format'')) (\<lambda>_.
     bind_r (guard_r (opr_username o1 \<notin> opr_username ` set (sf_operators s)) (IntegrityError ''uq_operators_username'')) (\<lambda>_.
     Inr (s\<lparr>sf_operators := sf_operators s @ [o1]\<rparr>)))"

definition insert_operator_key :: "staff \<Rightarrow> operator_key_row \<Rightarrow> staff result" where
  "insert_operator_key s k = bind_r (guard_r (operator_key_check k) (IntegrityError ''operator_api_keys'')) (\<lambda>_.
     bind_r (guard_r (ok_public_id k \<notin> ok_public_id ` set (sf_keys s)) (IntegrityError ''uq_operator_api_keys_public_id'')) (\<lambda>_.
     bind_r (guard_r (ok_rotated_from_id k = None \<or> ok_rotated_from_id k \<notin> ok_rotated_from_id ` set (sf_keys s))
       (IntegrityError ''uq_operator_api_keys_rotated_from_id'')) (\<lambda>_.
     Inr (s\<lparr>sf_keys := sf_keys s @ [k]\<rparr>))))"

definition update_operator_keys :: "staff \<Rightarrow> (operator_key_row \<Rightarrow> bool) \<Rightarrow> (operator_key_row \<Rightarrow> operator_key_row) \<Rightarrow> staff result" where
  "update_operator_keys s P f = bind_r (guard_r (\<forall>k \<in> set (sf_keys s). P k \<longrightarrow> operator_key_check (f k))
       (IntegrityError ''operator_api_keys'')) (\<lambda>_. Inr (s\<lparr>sf_keys := update_where P f (sf_keys s)\<rparr>))"

definition insert_web_session :: "staff \<Rightarrow> web_session_row \<Rightarrow> staff result" where
  "insert_web_session s w = bind_r (guard_r (web_session_check w) (IntegrityError ''operator_web_sessions'')) (\<lambda>_.
     bind_r (guard_r (ws_token_digest w \<notin> ws_token_digest ` set (sf_sessions s)) (IntegrityError ''uq_operator_web_sessions_token_digest'')) (\<lambda>_.
     bind_r (guard_r (ws_csrf_token_digest w \<notin> ws_csrf_token_digest ` set (sf_sessions s))
       (IntegrityError ''uq_operator_web_sessions_csrf_token_digest'')) (\<lambda>_.
     bind_r (guard_r (\<exists>k \<in> set (sf_keys s). ok_id k = ws_key_id w \<and> ok_operator_id k = ws_operator_id w)
       (IntegrityError ''fk_operator_web_sessions_key_operator'')) (\<lambda>_.
     Inr (s\<lparr>sf_sessions := sf_sessions s @ [w]\<rparr>)))))"

definition update_web_sessions :: "staff \<Rightarrow> (web_session_row \<Rightarrow> bool) \<Rightarrow> (web_session_row \<Rightarrow> web_session_row) \<Rightarrow> staff result" where
  "update_web_sessions s P f = bind_r (guard_r (\<forall>w \<in> set (sf_sessions s). P w \<longrightarrow> web_session_check (f w))
       (IntegrityError ''operator_web_sessions'')) (\<lambda>_. Inr (s\<lparr>sf_sessions := update_where P f (sf_sessions s)\<rparr>))"

section \<open>Authentication by key\<close>

record authenticated_key =
  ay_principal :: principal
  ay_public_id :: string
  ay_key :: operator_key_row

definition operator_key_usable :: "time \<Rightarrow> operator_key_row \<Rightarrow> bool" where
  "operator_key_usable now k \<longleftrightarrow> ok_revoked_at k = None \<and> (case ok_expires_at k of None \<Rightarrow> True | Some t \<Rightarrow> now < t)"

definition authenticate_operator :: "(string \<Rightarrow> string) \<Rightarrow> staff \<Rightarrow> string \<Rightarrow> time \<Rightarrow> authenticated_key result" where
  "authenticate_operator sha256 s token now =
     (case parse_operator_api_key_public_id token of
        None \<Rightarrow> Inl InvalidOperatorCredentialsError
      | Some public_id \<Rightarrow>
        (case find_row ok_public_id public_id (sf_keys s) of
           None \<Rightarrow> bind_r (verify_operator_api_key sha256 token public_id (replicate 32 (CHR 0x00)))
             (\<lambda>_. Inl InvalidOperatorCredentialsError)
         | Some k \<Rightarrow>
           (case find_row opr_id (ok_operator_id k) (sf_operators s) of
              None \<Rightarrow> bind_r (verify_operator_api_key sha256 token public_id (replicate 32 (CHR 0x00)))
                (\<lambda>_. Inl InvalidOperatorCredentialsError)
            | Some operator \<Rightarrow>
              bind_r (verify_operator_api_key sha256 token (ok_public_id k) (ok_secret_hash k)) (\<lambda>credentials_match.
              bind_r (guard_r (credentials_match \<and> opr_is_active operator \<and> operator_key_usable now k)
                InvalidOperatorCredentialsError) (\<lambda>_.
              Inr \<lparr>ay_principal = \<lparr>op_operator_id = opr_id operator, op_username = opr_username operator, op_role = opr_role operator,
                  op_auth_type = Operator_Api_Key, op_auth_id = ok_id k\<rparr>,
                ay_public_id = ok_public_id k, ay_key = k\<rparr>)))))"

section \<open>Management\<close>

definition log_cli :: "staff \<Rightarrow> time \<Rightarrow> string \<Rightarrow> string \<Rightarrow> uuid \<Rightarrow> (string \<times> json) list \<Rightarrow> staff result" where
  "log_cli s now action target target_id details =
     bind_r (record_local_cli_action (sf_main s) now action target target_id details) (\<lambda>(d, _). Inr (s\<lparr>sf_main := d\<rparr>))"

definition draw_uuid :: "staff \<Rightarrow> uuid \<times> staff" where
  "draw_uuid s = (let (k, d) = uuid4 (sf_main s) in (k, s\<lparr>sf_main := d\<rparr>))"

definition create_operator :: "staff \<Rightarrow> time \<Rightarrow> string \<Rightarrow> operator_role \<Rightarrow> (staff \<times> operator_row) result" where
  "create_operator s now username role =
     bind_r (guard_r (username_ok username) (OperatorManagementError ''username must match ^[a-z][a-z0-9_.-]{2,63}$'')) (\<lambda>_.
     let (k, s1) = draw_uuid s; o1 = \<lparr>opr_id = k, opr_username = username, opr_role = role, opr_is_active = True\<rparr> in
     bind_r (insert_operator s1 o1) (\<lambda>s2.
     bind_r (log_cli s2 now ''operator.created'' ''operator'' k [(''role'', JStr (role_value role))]) (\<lambda>s3.
     Inr (s3, o1))))"

record issued_key =
  ik_operator_id :: uuid
  ik_key_id :: uuid
  ik_public_id :: string
  ik_expires_at :: "time option"
  ik_rotated_from_id :: "uuid option"
  ik_token :: string

definition normalize_label :: "ustring option \<Rightarrow> ustring option result" where
  "normalize_label label = (case label of
     None \<Rightarrow> Inr None
   | Some l \<Rightarrow> let normalized = strip_of is_space l in
     if normalized = [] \<or> 100 < length normalized
     then Inl (OperatorManagementError ''key label must contain 1 to 100 characters'') else Inr (Some normalized))"

definition validate_expiry :: "time option \<Rightarrow> time \<Rightarrow> time option result" where
  "validate_expiry expires_at now = (case expires_at of
     None \<Rightarrow> Inr None
   | Some t \<Rightarrow> if t \<le> now then Inl (OperatorManagementError ''key expiry must be in the future'') else Inr (Some t))"

text \<open>\<open>_create_key\<close>, given the two random parts of the token.\<close>

definition create_key ::
  "(string \<Rightarrow> string) \<Rightarrow> staff \<Rightarrow> operator_row \<Rightarrow> ustring option \<Rightarrow> time option \<Rightarrow> uuid option \<Rightarrow> time \<Rightarrow> string \<Rightarrow> string
    \<Rightarrow> (staff \<times> issued_key) result" where
  "create_key sha256 s operator label expires_at rotated_from created_at public_id secret =
     (let m = generate_operator_api_key sha256 public_id secret; (kid, s1) = draw_uuid s;
          k = \<lparr>ok_id = kid, ok_operator_id = opr_id operator, ok_public_id = om_public_id m, ok_secret_hash = om_secret_hash m,
            ok_label = label, ok_rotated_from_id = rotated_from, ok_created_at = created_at, ok_last_used_at = None,
            ok_expires_at = expires_at, ok_revoked_at = None\<rparr> in
      bind_r (insert_operator_key s1 k) (\<lambda>s2.
      Inr (s2, \<lparr>ik_operator_id = opr_id operator, ik_key_id = kid, ik_public_id = ok_public_id k, ik_expires_at = expires_at,
        ik_rotated_from_id = rotated_from, ik_token = om_token m\<rparr>)))"

definition issue_operator_api_key ::
  "(string \<Rightarrow> string) \<Rightarrow> staff \<Rightarrow> time \<Rightarrow> uuid \<Rightarrow> ustring option \<Rightarrow> time option \<Rightarrow> string \<Rightarrow> string \<Rightarrow> (staff \<times> issued_key) result" where
  "issue_operator_api_key sha256 s now operator_id label expires_at public_id secret =
     bind_r (validate_expiry expires_at now) (\<lambda>normalized_expiry.
     bind_r (normalize_label label) (\<lambda>normalized_label.
     (case find_row opr_id operator_id (sf_operators s) of
        None \<Rightarrow> Inl (OperatorManagementError ''operator does not exist'')
      | Some operator \<Rightarrow>
        bind_r (guard_r (opr_is_active operator) (OperatorManagementError ''operator is inactive'')) (\<lambda>_.
        bind_r (create_key sha256 s operator normalized_label normalized_expiry None now public_id secret) (\<lambda>(s1, issued).
        bind_r (log_cli s1 now ''operator_api_key.issued'' ''operator_api_key'' (ik_key_id issued)
          [(''operator_id'', JStr (uuid_str (opr_id operator)))]) (\<lambda>s2.
        Inr (s2, issued)))))))"

text \<open>\<open>revoke_sessions_authenticated_by_key\<close>, with the number of rows it touched.\<close>

definition revoke_sessions_authenticated_by_key :: "staff \<Rightarrow> uuid \<Rightarrow> time \<Rightarrow> (staff \<times> nat) result" where
  "revoke_sessions_authenticated_by_key s key_id now =
     bind_r (update_web_sessions s (\<lambda>w. ws_key_id w = key_id \<and> ws_revoked_at w = None)
       (\<lambda>w. w\<lparr>ws_revoked_at := Some now, ws_updated_at := now\<rparr>)) (\<lambda>s'.
     Inr (s', length (filter (\<lambda>w. ws_key_id w = key_id \<and> ws_revoked_at w = None) (sf_sessions s))))"

definition revoke_key_row :: "staff \<Rightarrow> uuid \<Rightarrow> time \<Rightarrow> staff result" where
  "revoke_key_row s key_id now =
     bind_r (update_operator_keys s (\<lambda>k. ok_id k = key_id) (\<lambda>k. k\<lparr>ok_revoked_at := Some now\<rparr>)) (\<lambda>s1.
     bind_r (revoke_sessions_authenticated_by_key s1 key_id now) (\<lambda>(s2, _). Inr s2))"

definition rotate_operator_api_key ::
  "(string \<Rightarrow> string) \<Rightarrow> staff \<Rightarrow> time \<Rightarrow> uuid \<Rightarrow> ustring option \<Rightarrow> time option \<Rightarrow> string \<Rightarrow> string \<Rightarrow> (staff \<times> issued_key) result" where
  "rotate_operator_api_key sha256 s now key_id label expires_at public_id secret =
     (case find_row ok_id key_id (sf_keys s) of
        None \<Rightarrow> Inl (OperatorManagementError ''operator API key does not exist'')
      | Some k \<Rightarrow>
        bind_r (guard_r (ok_revoked_at k = None) (OperatorManagementError ''operator API key is already revoked'')) (\<lambda>_.
        bind_r (validate_expiry (if expires_at \<noteq> None then expires_at else ok_expires_at k) now) (\<lambda>normalized_expiry.
        (case find_row opr_id (ok_operator_id k) (sf_operators s) of
           None \<Rightarrow> Inl (OperatorManagementError ''operator is unavailable'')
         | Some operator \<Rightarrow>
           bind_r (guard_r (opr_is_active operator) (OperatorManagementError ''operator is unavailable'')) (\<lambda>_.
           bind_r (if label \<noteq> None then normalize_label label else Inr (ok_label k)) (\<lambda>new_label.
           bind_r (create_key sha256 s operator new_label normalized_expiry (Some (ok_id k)) now public_id secret) (\<lambda>(s1, replacement).
           bind_r (revoke_key_row s1 (ok_id k) now) (\<lambda>s2.
           bind_r (log_cli s2 now ''operator_api_key.rotated'' ''operator_api_key'' (ik_key_id replacement)
             [(''operator_id'', JStr (uuid_str (opr_id operator))), (''replaced_key_id'', JStr (uuid_str (ok_id k)))]) (\<lambda>s3.
           Inr (s3, replacement))))))))))"

definition revoke_operator_api_key :: "staff \<Rightarrow> time \<Rightarrow> uuid \<Rightarrow> (staff \<times> bool) result" where
  "revoke_operator_api_key s now key_id =
     (case find_row ok_id key_id (sf_keys s) of
        None \<Rightarrow> Inl (OperatorManagementError ''operator API key does not exist'')
      | Some k \<Rightarrow>
        if ok_revoked_at k \<noteq> None then Inr (s, False)
        else bind_r (revoke_key_row s (ok_id k) now) (\<lambda>s1.
          bind_r (log_cli s1 now ''operator_api_key.revoked'' ''operator_api_key'' (ok_id k)
            [(''operator_id'', JStr (uuid_str (ok_operator_id k)))]) (\<lambda>s2. Inr (s2, True))))"

section \<open>Browser sessions\<close>

record issued_web_session =
  iw_session_id :: uuid
  iw_absolute_expires_at :: time
  iw_session_token :: string
  iw_csrf_token :: string

record authenticated_session =
  as_principal :: principal
  as_session_id :: uuid
  as_csrf_token_digest :: string

text \<open>\<open>create_operator_web_session\<close>, given the random bytes of the two tokens.\<close>

definition create_operator_web_session ::
  "(string \<Rightarrow> string) \<Rightarrow> staff \<Rightarrow> authenticated_key \<Rightarrow> time \<Rightarrow> int \<Rightarrow> int \<Rightarrow> string \<Rightarrow> string \<Rightarrow> string
    \<Rightarrow> (staff \<times> issued_web_session) result" where
  "create_operator_web_session sha256 s a now idle_seconds absolute_seconds request_id random random' =
     bind_r (guard_r (0 < idle_seconds \<and> 0 < absolute_seconds) (WebSessionError ''web session lifetime is invalid'')) (\<lambda>_.
     let limit = now + absolute_seconds * 1000000;
         absolute_expires_at = (case ok_expires_at (ay_key a) of None \<Rightarrow> limit | Some t \<Rightarrow> min limit t) in
     bind_r (guard_r (now < absolute_expires_at) InvalidWebSessionError) (\<lambda>_.
     let idle_expires_at = min (now + idle_seconds * 1000000) absolute_expires_at in
     bind_r (generate_web_token random) (\<lambda>session_token.
     bind_r (generate_web_token random') (\<lambda>csrf_token.
     (case (web_token_digest sha256 session_token, web_token_digest sha256 csrf_token) of
        (Some token_digest, Some csrf_digest) \<Rightarrow>
          let (wid, s1) = draw_uuid s in
          bind_r (insert_web_session s1 \<lparr>ws_id = wid, ws_operator_id = op_operator_id (ay_principal a),
            ws_key_id = op_auth_id (ay_principal a), ws_token_digest = token_digest, ws_csrf_token_digest = csrf_digest,
            ws_created_at = now, ws_last_seen_at = now, ws_idle_expires_at = idle_expires_at,
            ws_absolute_expires_at = absolute_expires_at, ws_revoked_at = None, ws_updated_at = now\<rparr>) (\<lambda>s2.
          bind_r (record_operator_action (sf_main s2) now (ay_principal a) ''operator_web_session.started''
            ''operator_web_session'' wid request_id None []) (\<lambda>(d, _).
          Inr (s2\<lparr>sf_main := d\<rparr>, \<lparr>iw_session_id = wid, iw_absolute_expires_at = absolute_expires_at,
            iw_session_token = session_token, iw_csrf_token = csrf_token\<rparr>)))
      | _ \<Rightarrow> Inl (RuntimeError ''secure token generation failed validation''))))))"

text \<open>The transaction of the login route: key, permission, session, time of last use.\<close>

definition login_exchange ::
  "(string \<Rightarrow> string) \<Rightarrow> staff \<Rightarrow> string \<Rightarrow> time \<Rightarrow> int \<Rightarrow> int \<Rightarrow> string \<Rightarrow> string \<Rightarrow> string
    \<Rightarrow> (staff \<times> issued_web_session) result" where
  "login_exchange sha256 s credential now idle_seconds absolute_seconds request_id random random' =
     bind_r (authenticate_operator sha256 s credential now) (\<lambda>a.
     bind_r (guard_r (role_has_permission (op_role (ay_principal a)) Access_Dashboard) (ApiError 403 ''insufficient permissions'')) (\<lambda>_.
     bind_r (create_operator_web_session sha256 s a now idle_seconds absolute_seconds request_id random random') (\<lambda>(s1, issued).
     bind_r (update_operator_keys s1 (\<lambda>k. ok_id k = ok_id (ay_key a)) (\<lambda>k. k\<lparr>ok_last_used_at := Some now\<rparr>)) (\<lambda>s2.
     Inr (s2, issued)))))"

definition web_session_live :: "time \<Rightarrow> web_session_row \<Rightarrow> bool" where
  "web_session_live now w \<longleftrightarrow> ws_revoked_at w = None \<and> now < ws_idle_expires_at w \<and> now < ws_absolute_expires_at w"

definition touch_session :: "time \<Rightarrow> int \<Rightarrow> web_session_row \<Rightarrow> web_session_row" where
  "touch_session now idle_seconds w = w\<lparr>ws_last_seen_at := max (ws_last_seen_at w) now,
     ws_idle_expires_at := min (ws_absolute_expires_at w) (max (ws_idle_expires_at w) (now + idle_seconds * 1000000)),
     ws_updated_at := max (ws_updated_at w) now\<rparr>"

definition session_principal :: "operator_row \<Rightarrow> web_session_row \<Rightarrow> principal" where
  "session_principal operator w = \<lparr>op_operator_id = opr_id operator, op_username = opr_username operator,
     op_role = opr_role operator, op_auth_type = Web_Session, op_auth_id = ws_id w\<rparr>"

text \<open>\<open>_authenticate_web_session\<close>; the last argument tells whether the session may be touched.\<close>

definition authenticate_web_session ::
  "(string \<Rightarrow> string) \<Rightarrow> staff \<Rightarrow> string \<Rightarrow> time \<Rightarrow> int \<Rightarrow> int \<Rightarrow> bool \<Rightarrow> (staff \<times> authenticated_session) result" where
  "authenticate_web_session sha256 s token now idle_seconds touch_interval_seconds touch =
     (case web_token_digest sha256 token of
        None \<Rightarrow> Inl InvalidWebSessionError
      | Some digest \<Rightarrow>
        (case find_row ws_token_digest digest (sf_sessions s) of
           None \<Rightarrow> Inl InvalidWebSessionError
         | Some w \<Rightarrow>
           (case find_row opr_id (ws_operator_id w) (sf_operators s) of
              None \<Rightarrow> Inl InvalidWebSessionError
            | Some operator \<Rightarrow>
              bind_r (guard_r (ws_token_digest w = digest \<and> web_session_live now w \<and> opr_is_active operator)
                InvalidWebSessionError) (\<lambda>_.
              bind_r (guard_r (0 < idle_seconds \<and> 0 < touch_interval_seconds)
                (WebSessionError ''web session timing is invalid'')) (\<lambda>_.
              let stale = (\<lambda>x. ws_last_seen_at x \<le> now - touch_interval_seconds * 1000000) in
              bind_r (if touch \<and> stale w
                  then update_web_sessions s (\<lambda>x. ws_id x = ws_id w \<and> web_session_live now x \<and> stale x) (touch_session now idle_seconds)
                  else Inr s) (\<lambda>s1.
              Inr (s1, \<lparr>as_principal = session_principal operator w, as_session_id = ws_id w,
                as_csrf_token_digest = ws_csrf_token_digest w\<rparr>)))))))"

definition lock_web_session_for_mutation ::
  "(string \<Rightarrow> string) \<Rightarrow> staff \<Rightarrow> authenticated_session \<Rightarrow> string \<Rightarrow> permission \<Rightarrow> time \<Rightarrow> principal result" where
  "lock_web_session_for_mutation sha256 s a session_token required now =
     (case web_token_digest sha256 session_token of
        None \<Rightarrow> Inl InvalidWebSessionError
      | Some digest \<Rightarrow>
        (case find_row ws_id (as_session_id a) (sf_sessions s) of
           None \<Rightarrow> Inl InvalidWebSessionError
         | Some w \<Rightarrow>
           (case find_row opr_id (ws_operator_id w) (sf_operators s) of
              None \<Rightarrow> Inl InvalidWebSessionError
            | Some operator \<Rightarrow>
              bind_r (guard_r (ws_token_digest w = digest \<and> ws_csrf_token_digest w = as_csrf_token_digest a
                  \<and> ws_id w = as_session_id a \<and> ws_operator_id w = op_operator_id (as_principal a)
                  \<and> op_auth_type (as_principal a) = Web_Session \<and> op_auth_id (as_principal a) = ws_id w
                  \<and> web_session_live now w \<and> opr_id operator = ws_operator_id w \<and> opr_is_active operator)
                InvalidWebSessionError) (\<lambda>_.
              bind_r (guard_r (role_has_permission (opr_role operator) required) WebSessionPermissionError) (\<lambda>_.
              Inr (session_principal operator w))))))"

definition revoke_operator_web_session :: "staff \<Rightarrow> authenticated_session \<Rightarrow> string \<Rightarrow> time \<Rightarrow> staff result" where
  "revoke_operator_web_session s a request_id now =
     (case find_row ws_id (as_session_id a) (sf_sessions s) of
        None \<Rightarrow> Inl InvalidWebSessionError
      | Some w \<Rightarrow>
        bind_r (guard_r (ws_revoked_at w = None) InvalidWebSessionError) (\<lambda>_.
        bind_r (update_web_sessions s (\<lambda>x. ws_id x = ws_id w) (\<lambda>x. x\<lparr>ws_revoked_at := Some now, ws_updated_at := now\<rparr>)) (\<lambda>s1.
        bind_r (record_operator_action (sf_main s1) now (as_principal a) ''operator_web_session.ended''
          ''operator_web_session'' (ws_id w) request_id None []) (\<lambda>(d, _).
        Inr (s1\<lparr>sf_main := d\<rparr>)))))"

end
