(* ===== verification/Operator_Sessions.thy ===== *)
theory Operator_Sessions
  imports Operator_Access Step_Systems
begin

text \<open>
  The life cycles of operator keys and browser sessions as one state machine, its invariant, and what it
  guarantees: whoever acts through a session still holds a usable key, a revoked key or a closed session
  never works again, and what the control plane hands out works.
\<close>

section \<open>What every operation keeps\<close>

definition same_key :: "operator_key_row \<Rightarrow> operator_key_row \<Rightarrow> bool" where
  "same_key k k' \<longleftrightarrow> ok_id k' = ok_id k \<and> ok_operator_id k' = ok_operator_id k \<and> ok_public_id k' = ok_public_id k
     \<and> ok_secret_hash k' = ok_secret_hash k \<and> ok_created_at k' = ok_created_at k \<and> ok_expires_at k' = ok_expires_at k
     \<and> (ok_revoked_at k \<noteq> None \<longrightarrow> ok_revoked_at k' \<noteq> None)"

definition same_session :: "web_session_row \<Rightarrow> web_session_row \<Rightarrow> bool" where
  "same_session w w' \<longleftrightarrow> ws_id w' = ws_id w \<and> ws_operator_id w' = ws_operator_id w \<and> ws_key_id w' = ws_key_id w
     \<and> ws_token_digest w' = ws_token_digest w \<and> ws_csrf_token_digest w' = ws_csrf_token_digest w
     \<and> ws_absolute_expires_at w' = ws_absolute_expires_at w \<and> (ws_revoked_at w \<noteq> None \<longrightarrow> ws_revoked_at w' \<noteq> None)"

text \<open>The key of a session: as long as the session is open the key is, and it lives at least as long.\<close>

definition session_backed :: "operator_key_row list \<Rightarrow> web_session_row \<Rightarrow> bool" where
  "session_backed ks w \<longleftrightarrow> (\<exists>k \<in> set ks. ok_id k = ws_key_id w \<and> ok_operator_id k = ws_operator_id w
     \<and> (ok_revoked_at k \<noteq> None \<longrightarrow> ws_revoked_at w \<noteq> None)
     \<and> (\<forall>t \<in> set_option (ok_expires_at k). ws_absolute_expires_at w \<le> t))"

definition staff_inv :: "staff \<Rightarrow> bool" where
  "staff_inv s \<longleftrightarrow> audit_inv (sf_main s)
     \<and> distinct (map opr_id (sf_operators s)) \<and> distinct (map ok_id (sf_keys s)) \<and> distinct (map ok_public_id (sf_keys s))
     \<and> distinct (map ws_id (sf_sessions s)) \<and> distinct (map ws_token_digest (sf_sessions s))
     \<and> (\<forall>x \<in> opr_id ` set (sf_operators s) \<union> ok_id ` set (sf_keys s) \<union> ws_id ` set (sf_sessions s). x < next_uuid (sf_main s))
     \<and> (\<forall>k \<in> set (sf_keys s). operator_key_check k \<and> ok_operator_id k \<in> opr_id ` set (sf_operators s))
     \<and> (\<forall>w \<in> set (sf_sessions s). web_session_check w \<and> session_backed (sf_keys s) w)"

definition staff_later :: "staff \<Rightarrow> staff \<Rightarrow> bool" where
  "staff_later s s' \<longleftrightarrow> (\<forall>k \<in> set (sf_keys s). \<exists>k' \<in> set (sf_keys s'). same_key k k')
     \<and> (\<forall>w \<in> set (sf_sessions s). \<exists>w' \<in> set (sf_sessions s'). same_session w w')"

lemma same_key_refl [simp]: "same_key k k"
  by (simp add: same_key_def)

lemma same_session_refl [simp]: "same_session w w"
  by (simp add: same_session_def)

lemma staff_later_refl [simp]: "staff_later s s"
  unfolding staff_later_def using same_key_refl same_session_refl by blast

lemma same_key_trans: "same_key a b \<Longrightarrow> same_key b c \<Longrightarrow> same_key a c"
  by (simp add: same_key_def)

lemma same_session_trans: "same_session a b \<Longrightarrow> same_session b c \<Longrightarrow> same_session a c"
  by (simp add: same_session_def)

lemma staff_later_trans: "staff_later s t \<Longrightarrow> staff_later t u \<Longrightarrow> staff_later s u"
  unfolding staff_later_def by (meson same_key_trans same_session_trans)

text \<open>A step of the machine: the invariant holds after it and nothing is undone.\<close>

definition staff_change :: "staff \<Rightarrow> staff \<Rightarrow> bool" where
  "staff_change s s' \<longleftrightarrow> staff_inv s' \<and> staff_later s s'"

lemma staff_change_trans: "staff_change s t \<Longrightarrow> staff_change t u \<Longrightarrow> staff_change s u"
  unfolding staff_change_def by (blast intro: staff_later_trans)

lemma main_change:
  assumes "staff_inv s" "audit_inv d" "next_uuid (sf_main s) \<le> next_uuid d"
  shows "staff_change s (s\<lparr>sf_main := d\<rparr>)"
  using assms by (auto simp: staff_change_def staff_inv_def staff_later_def same_key_def same_session_def intro: less_le_trans)

lemma log_cli_change:
  assumes "log_cli s now action target target_id details = Inr s'" "staff_inv s"
  shows "staff_change s s'" "sf_keys s' = sf_keys s" "sf_sessions s' = sf_sessions s" "sf_operators s' = sf_operators s"
proof -
  from assms(1) obtain d e where r: "record_local_cli_action (sf_main s) now action target target_id details = Inr (d, e)"
    "s' = s\<lparr>sf_main := d\<rparr>" by (auto simp: log_cli_def bind_r_eq_Inr)
  note l = record_local_cli_action_Inr [OF r(1)]
  have "audit_inv (logged (sf_main s) e)"
    using assms(2) l by (intro audit_inv_logged) (auto simp: staff_inv_def)
  with main_change [OF assms(2), of d] l(1) show "staff_change s s'" by (simp add: r(2))
qed (use assms(1) in \<open>auto simp: log_cli_def bind_r_eq_Inr\<close>)

lemma operator_log_change:
  assumes "record_operator_action (sf_main s) now actor action target target_id request_id None details = Inr (d, e)" "staff_inv s"
  shows "staff_change s (s\<lparr>sf_main := d\<rparr>)"
proof -
  note l = record_operator_action_Inr [OF assms(1)]
  have "audit_inv (logged (sf_main s) e)"
    using assms(2) l by (intro audit_inv_logged) (auto simp: staff_inv_def)
  with main_change [OF assms(2), of d] l(1) show ?thesis by simp
qed

lemma draw_uuid_change:
  assumes "draw_uuid s = (k, s')" "staff_inv s"
  shows "staff_change s s'" "k = next_uuid (sf_main s)" "next_uuid (sf_main s) < next_uuid (sf_main s')" "sf_keys s' = sf_keys s"
    "sf_sessions s' = sf_sessions s" "sf_operators s' = sf_operators s"
proof -
  from assms(1) have s': "s' = s\<lparr>sf_main := (sf_main s)\<lparr>next_uuid := Suc (next_uuid (sf_main s))\<rparr>\<rparr>" and k: "k = next_uuid (sf_main s)"
    by (auto simp: draw_uuid_def uuid4_def Let_def)
  have "audit_inv (sf_main s)" using assms(2) by (simp only: staff_inv_def)
  then have "audit_inv ((sf_main s)\<lparr>next_uuid := Suc (next_uuid (sf_main s))\<rparr>)"
    by (rule audit_inv_cong [rotated 3]) simp_all
  from main_change [OF assms(2) this] show "staff_change s s'" by (simp add: s')
qed (use assms(1) in \<open>auto simp: draw_uuid_def uuid4_def Let_def\<close>)

text \<open>An identifier drawn in \<open>s\<close> is not in use there.\<close>

lemma fresh_id:
  assumes "staff_inv s"
  shows "next_uuid (sf_main s) \<notin> opr_id ` set (sf_operators s)" "next_uuid (sf_main s) \<notin> ok_id ` set (sf_keys s)"
    "next_uuid (sf_main s) \<notin> ws_id ` set (sf_sessions s)"
  using assms unfolding staff_inv_def by blast+

section \<open>The tables\<close>

lemma insert_operator_change:
  assumes "insert_operator s o1 = Inr s'" "staff_inv s" "opr_id o1 < next_uuid (sf_main s)" "opr_id o1 \<notin> opr_id ` set (sf_operators s)"
  shows "staff_change s s'"
  using assms by (auto simp: insert_operator_def bind_r_eq_Inr staff_change_def staff_inv_def staff_later_def same_key_def same_session_def)

lemma session_backed_mono: "session_backed ks w \<Longrightarrow> set ks \<subseteq> set ks' \<Longrightarrow> session_backed ks' w"
  unfolding session_backed_def by blast

lemma insert_operator_key_change:
  assumes "insert_operator_key s k = Inr s'" "staff_inv s" "ok_id k < next_uuid (sf_main s)" "ok_id k \<notin> ok_id ` set (sf_keys s)"
    "ok_operator_id k \<in> opr_id ` set (sf_operators s)"
  shows "staff_change s s'"
proof -
  from assms(1) have 1: "operator_key_check k" "ok_public_id k \<notin> ok_public_id ` set (sf_keys s)" "s' = s\<lparr>sf_keys := sf_keys s @ [k]\<rparr>"
    by (auto simp: insert_operator_key_def bind_r_eq_Inr)
  have "session_backed (sf_keys s @ [k]) w" if "w \<in> set (sf_sessions s)" for w
    using assms(2) that by (auto simp: staff_inv_def intro: session_backed_mono)
  with assms(2-5) 1 show ?thesis
    by (auto simp: staff_change_def staff_inv_def staff_later_def same_key_def same_session_def)
qed

lemma insert_web_session_change:
  assumes "insert_web_session s w = Inr s'" "staff_inv s" "ws_id w < next_uuid (sf_main s)" "ws_id w \<notin> ws_id ` set (sf_sessions s)"
    "session_backed (sf_keys s) w"
  shows "staff_change s s'" "s' = s\<lparr>sf_sessions := sf_sessions s @ [w]\<rparr>"
proof -
  from assms(1) have 1: "web_session_check w" "ws_token_digest w \<notin> ws_token_digest ` set (sf_sessions s)" "s' = s\<lparr>sf_sessions := sf_sessions s @ [w]\<rparr>"
    by (auto simp: insert_web_session_def bind_r_eq_Inr)
  with assms(2-5) show "staff_change s s'"
    by (auto simp: staff_change_def staff_inv_def staff_later_def same_key_def same_session_def)
  show "s' = s\<lparr>sf_sessions := sf_sessions s @ [w]\<rparr>" by (rule 1(3))
qed

text \<open>An update of sessions that closes or extends them.\<close>

lemma session_backed_same: "same_session w w' \<Longrightarrow> session_backed ks w \<Longrightarrow> session_backed ks w'"
  by (auto simp: same_session_def session_backed_def)

lemma update_web_sessions_change:
  assumes "update_web_sessions s P f = Inr s'" "staff_inv s" "\<And>w. P w \<Longrightarrow> same_session w (f w)"
  shows "staff_change s s'" "s' = s\<lparr>sf_sessions := update_where P f (sf_sessions s)\<rparr>"
proof -
  let ?ws = "update_where P f (sf_sessions s)"
  from assms(1) have 1: "\<forall>w \<in> set (sf_sessions s). P w \<longrightarrow> web_session_check (f w)" "s' = s\<lparr>sf_sessions := ?ws\<rparr>"
    by (auto simp: update_web_sessions_def bind_r_eq_Inr)
  have same: "ws_id (f w) = ws_id w" "ws_token_digest (f w) = ws_token_digest w" if "P w" for w
    using assms(3) [OF that] by (simp_all add: same_session_def)
  have "map ws_id ?ws = map ws_id (sf_sessions s)" "map ws_token_digest ?ws = map ws_token_digest (sf_sessions s)"
    by (simp_all add: same map_update_where)
  moreover have "ws_id ` set ?ws = ws_id ` set (sf_sessions s)" using calculation(1) by (metis set_map)
  moreover have "\<forall>w \<in> set ?ws. web_session_check w \<and> session_backed (sf_keys s) w"
    using assms(2) 1(1) session_backed_same [OF assms(3)] by (auto simp: set_update_where staff_inv_def)
  moreover have "staff_later s s'"
    unfolding staff_later_def 1(2)
    using update_where_related [of P _ same_session f] assms(3) same_session_refl same_key_refl
    by simp (meson same_key_refl)
  ultimately show "staff_change s s'" using assms(2) by (simp add: staff_change_def staff_inv_def 1(2))
  show "s' = s\<lparr>sf_sessions := ?ws\<rparr>" by (rule 1(2))
qed

text \<open>Revoking a key closes its sessions in the same transaction.\<close>

lemma revoke_sessions_Inr:
  assumes "revoke_sessions_authenticated_by_key s key_id now = Inr (s', n)"
  shows "s' = s\<lparr>sf_sessions := update_where (\<lambda>w. ws_key_id w = key_id \<and> ws_revoked_at w = None)
      (\<lambda>w. w\<lparr>ws_revoked_at := Some now, ws_updated_at := now\<rparr>) (sf_sessions s)\<rparr>"
    "\<forall>w \<in> set (sf_sessions s'). ws_key_id w = key_id \<longrightarrow> ws_revoked_at w \<noteq> None"
proof -
  let ?P = "\<lambda>w. ws_key_id w = key_id \<and> ws_revoked_at w = None" and ?f = "\<lambda>w. w\<lparr>ws_revoked_at := Some now, ws_updated_at := now\<rparr>"
  from assms show s': "s' = s\<lparr>sf_sessions := update_where ?P ?f (sf_sessions s)\<rparr>"
    unfolding revoke_sessions_authenticated_by_key_def update_web_sessions_def bind_r_eq_Inr by blast
  show "\<forall>w \<in> set (sf_sessions s'). ws_key_id w = key_id \<longrightarrow> ws_revoked_at w \<noteq> None"
  proof
    fix w
    assume "w \<in> set (sf_sessions s')"
    then have "w \<in> set (update_where ?P ?f (sf_sessions s))" by (simp add: s')
    then show "ws_key_id w = key_id \<longrightarrow> ws_revoked_at w \<noteq> None" by (rule update_where_all) simp
  qed
qed

lemma session_backed_keys:
  assumes "session_backed ks w"
    "\<And>k. k \<in> set ks \<Longrightarrow> ok_id k = ws_key_id w \<Longrightarrow> \<exists>k' \<in> set ks'. ok_id k' = ok_id k \<and> ok_operator_id k' = ok_operator_id k
       \<and> ok_expires_at k' = ok_expires_at k \<and> (ok_revoked_at k' \<noteq> None \<longrightarrow> ok_revoked_at k \<noteq> None \<or> ws_revoked_at w \<noteq> None)"
  shows "session_backed ks' w"
proof -
  from assms(1) obtain k where k: "k \<in> set ks" "ok_id k = ws_key_id w" "ok_operator_id k = ws_operator_id w"
    "ok_revoked_at k \<noteq> None \<longrightarrow> ws_revoked_at w \<noteq> None" "\<forall>t \<in> set_option (ok_expires_at k). ws_absolute_expires_at w \<le> t"
    unfolding session_backed_def by blast
  from assms(2) [OF k(1,2)] obtain k' where "k' \<in> set ks'" "ok_id k' = ok_id k" "ok_operator_id k' = ok_operator_id k"
    "ok_expires_at k' = ok_expires_at k" "ok_revoked_at k' \<noteq> None \<longrightarrow> ok_revoked_at k \<noteq> None \<or> ws_revoked_at w \<noteq> None" by blast
  with k show ?thesis unfolding session_backed_def by metis
qed

lemma revoke_key_row_change:
  assumes "revoke_key_row s key_id now = Inr s'" "staff_inv s"
  shows "staff_change s s'" "sf_operators s' = sf_operators s" "sf_main s' = sf_main s"
    "\<And>k. k \<in> set (sf_keys s') \<Longrightarrow> ok_id k = key_id \<Longrightarrow> ok_revoked_at k \<noteq> None"
    "\<And>k. k \<in> set (sf_keys s) \<Longrightarrow> ok_id k \<noteq> key_id \<Longrightarrow> k \<in> set (sf_keys s')"
proof -
  let ?g = "\<lambda>k. k\<lparr>ok_revoked_at := Some now\<rparr>" and ?P = "\<lambda>k. ok_id k = key_id"
  let ?ks = "update_where ?P ?g (sf_keys s)"
  from assms(1) obtain s1 n where 1: "update_operator_keys s ?P ?g = Inr s1"
    "revoke_sessions_authenticated_by_key s1 key_id now = Inr (s', n)" by (auto simp: revoke_key_row_def bind_r_eq_Inr)
  from 1(1) have check: "\<forall>k \<in> set ?ks. operator_key_check k" and s1: "s1 = s\<lparr>sf_keys := ?ks\<rparr>"
    using assms(2) by (auto simp: update_operator_keys_def bind_r_eq_Inr staff_inv_def set_update_where)
  let ?h = "\<lambda>w. w\<lparr>ws_revoked_at := Some now, ws_updated_at := now\<rparr>" and ?Q = "\<lambda>w. ws_key_id w = key_id \<and> ws_revoked_at w = None"
  let ?ws = "update_where ?Q ?h (sf_sessions s)"
  from 1(2) have wcheck: "\<forall>w \<in> set ?ws. web_session_check w"
    using assms(2) by (auto simp: revoke_sessions_authenticated_by_key_def update_web_sessions_def bind_r_eq_Inr staff_inv_def set_update_where s1)
  have s': "s' = s\<lparr>sf_keys := ?ks, sf_sessions := ?ws\<rparr>" using revoke_sessions_Inr(1) [OF 1(2)] by (simp add: s1)
  have closed: "ws_revoked_at w \<noteq> None" if "w \<in> set ?ws" "ws_key_id w = key_id" for w
    using revoke_sessions_Inr(2) [OF 1(2)] that by (simp add: s')
  have backed: "session_backed ?ks w" if "w \<in> set ?ws" for w
  proof -
    from that obtain w0 where w0: "w0 \<in> set (sf_sessions s)" "same_session w0 w" by (auto simp: set_update_where same_session_def split: if_splits)
    then have "session_backed (sf_keys s) w" using assms(2) session_backed_same by (auto simp: staff_inv_def)
    then show ?thesis
    proof (rule session_backed_keys)
      fix k
      assume k: "k \<in> set (sf_keys s)" "ok_id k = ws_key_id w"
      show "\<exists>k' \<in> set ?ks. ok_id k' = ok_id k \<and> ok_operator_id k' = ok_operator_id k \<and> ok_expires_at k' = ok_expires_at k
          \<and> (ok_revoked_at k' \<noteq> None \<longrightarrow> ok_revoked_at k \<noteq> None \<or> ws_revoked_at w \<noteq> None)"
        by (rule update_where_related [OF _ _ k(1)]) (use closed [OF that] k(2) in simp_all)
    qed
  qed
  have "\<forall>k \<in> set ?ks. ok_operator_id k \<in> opr_id ` set (sf_operators s)"
    using assms(2) unfolding staff_inv_def by (auto simp: set_update_where)
  moreover have "map ok_id ?ks = map ok_id (sf_keys s)" "map ok_public_id ?ks = map ok_public_id (sf_keys s)"
    "map ws_id ?ws = map ws_id (sf_sessions s)" "map ws_token_digest ?ws = map ws_token_digest (sf_sessions s)"
    by (simp_all add: map_update_where)
  moreover from this have "ok_id ` set ?ks = ok_id ` set (sf_keys s)" "ws_id ` set ?ws = ws_id ` set (sf_sessions s)"
    by (metis set_map)+
  ultimately have "staff_inv s'" using assms(2) check wcheck backed by (simp add: staff_inv_def s')
  moreover have "staff_later s s'"
    unfolding staff_later_def s' using update_where_related [of ?P _ same_key ?g] update_where_related [of ?Q _ same_session ?h]
    by (simp add: same_key_def same_session_def)
  ultimately show "staff_change s s'" by (simp add: staff_change_def)
  show "sf_operators s' = sf_operators s" "sf_main s' = sf_main s" by (simp_all add: s')
  show "ok_revoked_at k \<noteq> None" if "k \<in> set (sf_keys s')" "ok_id k = key_id" for k
  proof -
    have "k \<in> set ?ks" using that(1) by (simp add: s')
    then have "ok_id k = key_id \<longrightarrow> ok_revoked_at k \<noteq> None" by (rule update_where_all) simp
    with that(2) show ?thesis by simp
  qed
  show "k \<in> set (sf_keys s')" if "k \<in> set (sf_keys s)" "ok_id k \<noteq> key_id" for k
    unfolding s' using that by (auto simp: set_update_where)
qed

section \<open>The operations\<close>

lemma create_operator_change:
  assumes "create_operator s now username role = Inr (s', o1)" "staff_inv s"
  shows "staff_change s s'"
proof -
  from assms(1) obtain k s1 s2 where 1: "draw_uuid s = (k, s1)" "insert_operator s1 o1 = Inr s2" "opr_id o1 = k"
    "log_cli s2 now ''operator.created'' ''operator'' k [(''role'', JStr (role_value role))] = Inr s'"
    by (auto simp: create_operator_def bind_r_eq_Inr Let_def split: prod.splits)
  note d = draw_uuid_change [OF 1(1) assms(2)]
  have "staff_inv s1" using d(1) by (simp add: staff_change_def)
  from insert_operator_change [OF 1(2) this] fresh_id(1) [OF assms(2)] have "staff_change s1 s2" by (simp add: d 1(3))
  moreover from this log_cli_change(1) [OF 1(4)] have "staff_change s2 s'" by (simp add: staff_change_def)
  ultimately show ?thesis using d(1) by (blast intro: staff_change_trans)
qed

lemma create_key_Inr:
  assumes "create_key sha256 s operator label expires_at rotated now public_id secret = Inr (s', ik)" "staff_inv s"
    "opr_id operator \<in> opr_id ` set (sf_operators s)"
  obtains k where "staff_change s s'" "sf_keys s' = sf_keys s @ [k]" "sf_sessions s' = sf_sessions s" "sf_operators s' = sf_operators s"
    "ok_id k = ik_key_id ik" "ik_key_id ik \<notin> ok_id ` set (sf_keys s)" "ok_operator_id k = opr_id operator"
    "ok_public_id k = public_id" "ok_secret_hash k = hash_secret sha256 secret" "ok_expires_at k = expires_at" "ok_revoked_at k = None"
    "ik_token ik = operator_token_prefix @ public_id @ ''.'' @ secret" "ik_expires_at ik = expires_at"
proof -
  let ?k = "\<lambda>kid. \<lparr>ok_id = kid, ok_operator_id = opr_id operator, ok_public_id = public_id, ok_secret_hash = hash_secret sha256 secret,
      ok_label = label, ok_rotated_from_id = rotated, ok_created_at = now, ok_last_used_at = None, ok_expires_at = expires_at, ok_revoked_at = None\<rparr>"
  obtain kid s1 where d: "draw_uuid s = (kid, s1)" by (cases "draw_uuid s")
  with assms(1) have i: "insert_operator_key s1 (?k kid) = Inr s'"
    and ik: "ik = \<lparr>ik_operator_id = opr_id operator, ik_key_id = kid, ik_public_id = public_id, ik_expires_at = expires_at,
      ik_rotated_from_id = rotated, ik_token = operator_token_prefix @ public_id @ ''.'' @ secret\<rparr>"
    by (auto simp: create_key_def generate_operator_api_key_def bind_r_eq_Inr Let_def)
  note dc = draw_uuid_change [OF d assms(2)]
  have "staff_inv s1" using dc(1) by (simp add: staff_change_def)
  from insert_operator_key_change [OF i this] fresh_id(2) [OF assms(2)] assms(3)
  have "staff_change s s'" using staff_change_trans [OF dc(1)] by (simp add: dc)
  moreover from i have "s' = s1\<lparr>sf_keys := sf_keys s @ [?k kid]\<rparr>"
    by (auto simp: insert_operator_key_def bind_r_eq_Inr dc)
  ultimately show ?thesis
    using that [of "?k kid"] fresh_id(2) [OF assms(2)] by (simp add: ik dc)
qed

lemma find_operator: "find_row opr_id x (sf_operators s) = Some operator \<Longrightarrow> operator \<in> set (sf_operators s) \<and> opr_id operator = x"
  by (rule find_row_SomeD)

lemma issue_Inr:
  assumes "issue_operator_api_key sha256 s now operator_id label expires_at public_id secret = Inr (s', ik)" "staff_inv s"
  obtains k operator where "staff_change s s'" "k \<in> set (sf_keys s')" "ok_id k = ik_key_id ik" "ok_operator_id k = operator_id"
    "ok_public_id k = public_id" "ok_secret_hash k = hash_secret sha256 secret" "ok_expires_at k = expires_at" "ok_revoked_at k = None"
    "ik_token ik = operator_token_prefix @ public_id @ ''.'' @ secret" "sf_operators s' = sf_operators s"
    "find_row opr_id operator_id (sf_operators s) = Some operator" "opr_is_active operator"
proof -
  from assms(1) obtain e l operator s1 where 1: "validate_expiry expires_at now = Inr e" "find_row opr_id operator_id (sf_operators s) = Some operator"
    "opr_is_active operator" "create_key sha256 s operator l e None now public_id secret = Inr (s1, ik)"
    "log_cli s1 now ''operator_api_key.issued'' ''operator_api_key'' (ik_key_id ik) [(''operator_id'', JStr (uuid_str (opr_id operator)))] = Inr s'"
    by (auto simp: issue_operator_api_key_def bind_r_eq_Inr split: option.splits)
  have e: "e = expires_at" using 1(1) by (auto simp: validate_expiry_def split: option.splits if_splits)
  have id: "operator \<in> set (sf_operators s)" "opr_id operator = operator_id" using 1(2) find_operator by blast+
  then have "opr_id operator \<in> opr_id ` set (sf_operators s)" by blast
  then obtain k where k: "staff_change s s1" "sf_keys s1 = sf_keys s @ [k]" "sf_operators s1 = sf_operators s"
    "ok_id k = ik_key_id ik" "ok_operator_id k = opr_id operator" "ok_public_id k = public_id" "ok_secret_hash k = hash_secret sha256 secret"
    "ok_expires_at k = e" "ok_revoked_at k = None" "ik_token ik = operator_token_prefix @ public_id @ ''.'' @ secret"
    by (rule create_key_Inr [OF 1(4) assms(2)])
  then have "staff_inv s1" by (simp add: staff_change_def)
  note l = log_cli_change [OF 1(5) this]
  show ?thesis by (rule that [of k operator]) (use k l id 1 e staff_change_trans [OF k(1) l(1)] in simp_all)
qed

lemma rotate_Inr:
  assumes "rotate_operator_api_key sha256 s now key_id label expires_at public_id secret = Inr (s', ik)" "staff_inv s"
  obtains k k0 operator where "staff_change s s'" "k \<in> set (sf_keys s')" "ok_id k = ik_key_id ik" "ik_key_id ik \<noteq> key_id"
    "ok_public_id k = public_id" "ok_secret_hash k = hash_secret sha256 secret" "ok_revoked_at k = None"
    "ik_token ik = operator_token_prefix @ public_id @ ''.'' @ secret" "sf_operators s' = sf_operators s"
    "find_row opr_id (ok_operator_id k) (sf_operators s) = Some operator" "opr_is_active operator" "ok_expires_at k = ik_expires_at ik"
    "k0 \<in> set (sf_keys s)" "ok_id k0 = key_id" "ok_operator_id k = ok_operator_id k0"
    "\<And>x. x \<in> set (sf_keys s') \<Longrightarrow> ok_id x = key_id \<Longrightarrow> ok_revoked_at x \<noteq> None"
proof -
  from assms(1) obtain k0 e l operator s1 s2 where 1: "find_row ok_id key_id (sf_keys s) = Some k0"
    "find_row opr_id (ok_operator_id k0) (sf_operators s) = Some operator" "opr_is_active operator"
    "create_key sha256 s operator l e (Some (ok_id k0)) now public_id secret = Inr (s1, ik)" "revoke_key_row s1 (ok_id k0) now = Inr s2"
    "log_cli s2 now ''operator_api_key.rotated'' ''operator_api_key'' (ik_key_id ik)
       [(''operator_id'', JStr (uuid_str (opr_id operator))), (''replaced_key_id'', JStr (uuid_str (ok_id k0)))] = Inr s'"
    by (auto simp: rotate_operator_api_key_def bind_r_eq_Inr split: option.splits)
  have k0: "k0 \<in> set (sf_keys s)" "ok_id k0 = key_id" using find_row_SomeD [OF 1(1)] by simp_all
  have op: "operator \<in> set (sf_operators s)" "opr_id operator = ok_operator_id k0" using find_operator [OF 1(2)] by simp_all
  then have "opr_id operator \<in> opr_id ` set (sf_operators s)" by blast
  then obtain k where k: "staff_change s s1" "sf_keys s1 = sf_keys s @ [k]" "sf_operators s1 = sf_operators s"
    "ok_id k = ik_key_id ik" "ik_key_id ik \<notin> ok_id ` set (sf_keys s)" "ok_operator_id k = opr_id operator"
    "ok_public_id k = public_id" "ok_secret_hash k = hash_secret sha256 secret"
    "ok_expires_at k = e" "ok_revoked_at k = None" "ik_token ik = operator_token_prefix @ public_id @ ''.'' @ secret" "ik_expires_at ik = e"
    by (rule create_key_Inr [OF 1(4) assms(2)])
  then have "staff_inv s1" by (simp add: staff_change_def)
  note r = revoke_key_row_change [OF 1(5) this]
  then have "staff_inv s2" by (simp add: staff_change_def)
  note l = log_cli_change [OF 1(6) this]
  have other: "ik_key_id ik \<noteq> key_id" using k(5) k0 by auto
  have "k \<in> set (sf_keys s')" using r(5) [of k] k(2,4) other k0(2) by (simp add: l)
  moreover have "staff_change s s'" using k(1) r(1) l(1) by (blast intro: staff_change_trans)
  moreover have "find_row opr_id (ok_operator_id k) (sf_operators s) = Some operator" using 1(2) op(2) k(6) by simp
  moreover have "ok_revoked_at x \<noteq> None" if "x \<in> set (sf_keys s')" "ok_id x = key_id" for x
    using r(4) [of x] that by (simp add: l k0(2))
  ultimately show ?thesis using k l r k0 op other 1(3) by (intro that [of k operator k0]) simp_all
qed

lemma revoke_Inr:
  assumes "revoke_operator_api_key s now key_id = Inr (s', b)" "staff_inv s"
  shows "staff_change s s'" "\<And>x. x \<in> set (sf_keys s') \<Longrightarrow> ok_id x = key_id \<Longrightarrow> ok_revoked_at x \<noteq> None"
proof -
  from assms(1) obtain k where k: "find_row ok_id key_id (sf_keys s) = Some k"
    by (auto simp: revoke_operator_api_key_def split: option.splits)
  then have k1: "k \<in> set (sf_keys s)" "ok_id k = key_id" by (auto dest: find_row_SomeD)
  have "staff_change s s' \<and> (\<forall>x \<in> set (sf_keys s'). ok_id x = key_id \<longrightarrow> ok_revoked_at x \<noteq> None)"
  proof (cases "ok_revoked_at k = None")
    case False
    moreover from False have "s' = s" using assms(1) k by (simp add: revoke_operator_api_key_def)
    moreover have "x = k" if "x \<in> set (sf_keys s)" "ok_id x = key_id" for x
      using key_inj_rows [of ok_id "sf_keys s" x k] that k1 assms(2) by (simp add: staff_inv_def)
    ultimately show ?thesis using assms(2) by (auto simp: staff_change_def)
  next
    case True
    with assms(1) k obtain s1 where 1: "revoke_key_row s key_id now = Inr s1"
      "log_cli s1 now ''operator_api_key.revoked'' ''operator_api_key'' key_id [(''operator_id'', JStr (uuid_str (ok_operator_id k)))] = Inr s'"
      using k1(2) by (auto simp: revoke_operator_api_key_def bind_r_eq_Inr)
    note r = revoke_key_row_change [OF 1(1) assms(2)]
    then have "staff_inv s1" by (simp add: staff_change_def)
    note l = log_cli_change [OF 1(2) this]
    show ?thesis using staff_change_trans [OF r(1) l(1)] r(4) by (simp add: l)
  qed
  then show "staff_change s s'" "\<And>x. x \<in> set (sf_keys s') \<Longrightarrow> ok_id x = key_id \<Longrightarrow> ok_revoked_at x \<noteq> None" by blast+
qed

lemma authenticate_operator_Inr:
  assumes "authenticate_operator sha256 s token now = Inr a"
  obtains k operator where "k \<in> set (sf_keys s)" "ay_key a = k" "operator \<in> set (sf_operators s)" "opr_id operator = ok_operator_id k"
    "opr_is_active operator" "operator_key_usable now k"
    "ay_principal a = \<lparr>op_operator_id = opr_id operator, op_username = opr_username operator, op_role = opr_role operator,
       op_auth_type = Operator_Api_Key, op_auth_id = ok_id k\<rparr>"
  using assms
  by (auto simp: authenticate_operator_def bind_r_eq_Inr split: option.splits dest!: find_row_SomeD)

lemma create_web_session_Inr:
  assumes "create_operator_web_session sha256 s a now idle absolute request_id random random' = Inr (s', iw)" "staff_inv s"
    "k \<in> set (sf_keys s)" "ay_key a = k" "op_auth_id (ay_principal a) = ok_id k" "op_operator_id (ay_principal a) = ok_operator_id k"
    "ok_revoked_at k = None"
  obtains w where "staff_change s s'" "w \<in> set (sf_sessions s')" "sf_keys s' = sf_keys s" "sf_operators s' = sf_operators s"
    "ws_id w = iw_session_id iw" "ws_operator_id w = ok_operator_id k" "ws_revoked_at w = None"
    "web_token_digest sha256 (iw_session_token iw) = Some (ws_token_digest w)"
    "web_token_digest sha256 (iw_csrf_token iw) = Some (ws_csrf_token_digest w)" "ws_last_seen_at w = now"
    "ws_idle_expires_at w = min (now + idle * 1000000) (ws_absolute_expires_at w)" "0 < idle"
    "ws_absolute_expires_at w = iw_absolute_expires_at iw"
    "web_session_check w"
proof -
  define limit where "limit = (case ok_expires_at (ay_key a) of None \<Rightarrow> now + absolute * 1000000 | Some t \<Rightarrow> min (now + absolute * 1000000) t)"
  let ?w = "\<lambda>wid td cd. \<lparr>ws_id = wid, ws_operator_id = op_operator_id (ay_principal a), ws_key_id = op_auth_id (ay_principal a),
      ws_token_digest = td, ws_csrf_token_digest = cd, ws_created_at = now, ws_last_seen_at = now,
      ws_idle_expires_at = min (now + idle * 1000000) limit, ws_absolute_expires_at = limit, ws_revoked_at = None, ws_updated_at = now\<rparr>"
  from assms(1) obtain t1 t2 td cd wid s1 s2 d e where 1: "0 < idle" "web_token_digest sha256 t1 = Some td"
    "web_token_digest sha256 t2 = Some cd" "draw_uuid s = (wid, s1)" "insert_web_session s1 (?w wid td cd) = Inr s2"
    "record_operator_action (sf_main s2) now (ay_principal a) ''operator_web_session.started'' ''operator_web_session'' wid request_id None [] = Inr (d, e)"
    "s' = s2\<lparr>sf_main := d\<rparr>" "iw = \<lparr>iw_session_id = wid, iw_absolute_expires_at = limit, iw_session_token = t1, iw_csrf_token = t2\<rparr>"
    unfolding create_operator_web_session_def Let_def bind_r_eq_Inr guard_r_eq_Inr limit_def [symmetric]
    by (elim exE conjE) (auto simp: bind_r_eq_Inr split: option.split_asm prod.split_asm)
  note dc = draw_uuid_change [OF 1(4) assms(2)]
  have inv1: "staff_inv s1" using dc(1) by (simp add: staff_change_def)
  have "\<forall>t \<in> set_option (ok_expires_at k). limit \<le> t" using assms(4) by (auto simp: limit_def)
  then have "session_backed (sf_keys s1) (?w wid td cd)"
    unfolding session_backed_def using assms(3-7) by (intro bexI [of _ k]) (simp_all add: dc)
  from insert_web_session_change [OF 1(5) inv1 _ _ this] fresh_id(3) [OF assms(2)]
  have c2: "staff_change s1 s2" "s2 = s1\<lparr>sf_sessions := sf_sessions s1 @ [?w wid td cd]\<rparr>" by (simp_all add: dc)
  then have "staff_inv s2" by (simp add: staff_change_def)
  from operator_log_change [OF 1(6) this] have c3: "staff_change s2 s'" by (simp add: 1(7))
  have "web_session_check (?w wid td cd)" using 1(5) by (auto simp: insert_web_session_def bind_r_eq_Inr)
  moreover have "staff_change s s'" using dc(1) c2(1) c3 by (blast intro: staff_change_trans)
  ultimately show ?thesis
    by (intro that [of "?w wid td cd"]) (use assms(3-7) 1 c2(2) dc in simp_all)
qed

lemma touch_key_change:
  assumes "update_operator_keys s P (\<lambda>k. k\<lparr>ok_last_used_at := u\<rparr>) = Inr s'" "staff_inv s"
  shows "staff_change s s'" "sf_sessions s' = sf_sessions s" "sf_operators s' = sf_operators s"
proof -
  let ?f = "\<lambda>k :: operator_key_row. k\<lparr>ok_last_used_at := u\<rparr>"
  let ?ks = "update_where P ?f (sf_keys s)"
  from assms(1) have s': "s' = s\<lparr>sf_keys := ?ks\<rparr>" by (auto simp: update_operator_keys_def bind_r_eq_Inr)
  have backed: "session_backed ?ks w" if "session_backed (sf_keys s) w" for w
    using that
  proof (rule session_backed_keys)
    fix k
    assume k: "k \<in> set (sf_keys s)" "ok_id k = ws_key_id w"
    show "\<exists>k' \<in> set ?ks. ok_id k' = ok_id k \<and> ok_operator_id k' = ok_operator_id k \<and> ok_expires_at k' = ok_expires_at k
        \<and> (ok_revoked_at k' \<noteq> None \<longrightarrow> ok_revoked_at k \<noteq> None \<or> ws_revoked_at w \<noteq> None)"
      by (rule update_where_related [OF _ _ k(1)]) simp_all
  qed
  have "\<forall>k \<in> set ?ks. operator_key_check k \<and> ok_operator_id k \<in> opr_id ` set (sf_operators s)"
    using assms(2) unfolding staff_inv_def by (auto simp: set_update_where operator_key_check_def split: option.splits)
  moreover have "map ok_id ?ks = map ok_id (sf_keys s)" "map ok_public_id ?ks = map ok_public_id (sf_keys s)"
    by (simp_all add: map_update_where)
  moreover from this have "ok_id ` set ?ks = ok_id ` set (sf_keys s)" by (metis set_map)
  ultimately have "staff_inv s'" using assms(2) backed by (simp add: staff_inv_def s')
  moreover have "staff_later s s'"
    unfolding staff_later_def s' using update_where_related [of P _ same_key ?f]
    by (simp add: same_key_def) (meson same_session_refl)
  ultimately show "staff_change s s'" by (simp add: staff_change_def)
qed (use assms(1) in \<open>auto simp: update_operator_keys_def bind_r_eq_Inr\<close>)

lemma login_Inr:
  assumes "login_exchange sha256 s credential now idle absolute request_id random random' = Inr (s', iw)" "staff_inv s"
  obtains w k operator where "staff_change s s'" "w \<in> set (sf_sessions s')" "sf_operators s' = sf_operators s"
    "ws_id w = iw_session_id iw" "ws_operator_id w = ok_operator_id k" "ws_revoked_at w = None"
    "web_token_digest sha256 (iw_session_token iw) = Some (ws_token_digest w)"
    "web_token_digest sha256 (iw_csrf_token iw) = Some (ws_csrf_token_digest w)" "ws_last_seen_at w = now"
    "ws_idle_expires_at w = min (now + idle * 1000000) (ws_absolute_expires_at w)" "0 < idle"
    "ws_absolute_expires_at w = iw_absolute_expires_at iw" "web_session_check w"
    "operator \<in> set (sf_operators s)" "opr_id operator = ok_operator_id k" "opr_is_active operator"
    "role_has_permission (opr_role operator) Access_Dashboard" "k \<in> set (sf_keys s)"
proof -
  from assms(1) obtain a s1 where 1: "authenticate_operator sha256 s credential now = Inr a"
    "role_has_permission (op_role (ay_principal a)) Access_Dashboard"
    "create_operator_web_session sha256 s a now idle absolute request_id random random' = Inr (s1, iw)"
    "update_operator_keys s1 (\<lambda>k. ok_id k = ok_id (ay_key a)) (\<lambda>k. k\<lparr>ok_last_used_at := Some now\<rparr>) = Inr s'"
    by (auto simp: login_exchange_def bind_r_eq_Inr)
  obtain k operator where k: "k \<in> set (sf_keys s)" "ay_key a = k" "operator \<in> set (sf_operators s)" "opr_id operator = ok_operator_id k"
    "opr_is_active operator" "operator_key_usable now k"
    "ay_principal a = \<lparr>op_operator_id = opr_id operator, op_username = opr_username operator, op_role = opr_role operator,
       op_auth_type = Operator_Api_Key, op_auth_id = ok_id k\<rparr>" by (rule authenticate_operator_Inr [OF 1(1)])
  have "op_auth_id (ay_principal a) = ok_id k" "op_operator_id (ay_principal a) = ok_operator_id k" "ok_revoked_at k = None"
    using k(4,6,7) by (simp_all add: operator_key_usable_def)
  then obtain w where w: "staff_change s s1" "w \<in> set (sf_sessions s1)" "sf_keys s1 = sf_keys s" "sf_operators s1 = sf_operators s"
    "ws_id w = iw_session_id iw" "ws_operator_id w = ok_operator_id k" "ws_revoked_at w = None"
    "web_token_digest sha256 (iw_session_token iw) = Some (ws_token_digest w)"
    "web_token_digest sha256 (iw_csrf_token iw) = Some (ws_csrf_token_digest w)" "ws_last_seen_at w = now"
    "ws_idle_expires_at w = min (now + idle * 1000000) (ws_absolute_expires_at w)" "0 < idle"
    "ws_absolute_expires_at w = iw_absolute_expires_at iw" "web_session_check w"
    by (rule create_web_session_Inr [OF 1(3) assms(2) k(1,2)])
  then have "staff_inv s1" by (simp add: staff_change_def)
  note t = touch_key_change [OF 1(4) this]
  show ?thesis using w k t 1(2) staff_change_trans [OF w(1) t(1)] by (intro that [of w k operator]) simp_all
qed

lemma authenticate_web_session_Inr:
  assumes "authenticate_web_session sha256 s token now idle interval touch = Inr (s', a)" "staff_inv s"
  obtains w operator where "staff_change s s'" "w \<in> set (sf_sessions s)" "web_token_digest sha256 token = Some (ws_token_digest w)"
    "web_session_live now w" "operator \<in> set (sf_operators s)" "opr_id operator = ws_operator_id w" "opr_is_active operator"
    "a = \<lparr>as_principal = session_principal operator w, as_session_id = ws_id w, as_csrf_token_digest = ws_csrf_token_digest w\<rparr>"
proof -
  let ?stale = "\<lambda>x. ws_last_seen_at x \<le> now - interval * 1000000"
  from assms(1) obtain w operator where 1: "web_token_digest sha256 token = Some (ws_token_digest w)"
    "find_row ws_token_digest (ws_token_digest w) (sf_sessions s) = Some w"
    "find_row opr_id (ws_operator_id w) (sf_operators s) = Some operator" "web_session_live now w" "opr_is_active operator"
    "(if touch \<and> ?stale w then update_web_sessions s (\<lambda>x. ws_id x = ws_id w \<and> web_session_live now x \<and> ?stale x) (touch_session now idle)
      else Inr s) = Inr s'"
    "a = \<lparr>as_principal = session_principal operator w, as_session_id = ws_id w, as_csrf_token_digest = ws_csrf_token_digest w\<rparr>"
    by (auto simp: authenticate_web_session_def bind_r_eq_Inr Let_def split: option.split_asm)
  have "same_session x (touch_session now idle x)" for x by (simp add: same_session_def touch_session_def)
  then have "staff_change s s'"
    using 1(6) assms(2) update_web_sessions_change(1) by (auto simp: staff_change_def split: if_splits)
  then show ?thesis
    using find_row_SomeD [OF 1(2)] find_row_SomeD [OF 1(3)] 1 by (intro that [of w operator]) simp_all
qed

lemma end_session_change:
  assumes "revoke_operator_web_session s a request_id now = Inr s'" "staff_inv s"
  shows "staff_change s s'" "\<And>w. w \<in> set (sf_sessions s') \<Longrightarrow> ws_id w = as_session_id a \<Longrightarrow> ws_revoked_at w \<noteq> None"
proof -
  let ?P = "\<lambda>x. ws_id x = as_session_id a" and ?f = "\<lambda>x. x\<lparr>ws_revoked_at := Some now, ws_updated_at := now\<rparr>"
  from assms(1) obtain w s1 d e where 1: "find_row ws_id (as_session_id a) (sf_sessions s) = Some w"
    "update_web_sessions s ?P ?f = Inr s1" "s' = s1\<lparr>sf_main := d\<rparr>"
    "record_operator_action (sf_main s1) now (as_principal a) ''operator_web_session.ended'' ''operator_web_session''
       (ws_id w) request_id None [] = Inr (d, e)"
    by (auto simp: revoke_operator_web_session_def bind_r_eq_Inr split: option.split_asm dest: find_row_SomeD)
  have "same_session x (?f x)" for x by (simp add: same_session_def)
  note u = update_web_sessions_change [OF 1(2) assms(2) this]
  then have "staff_inv s1" by (simp add: staff_change_def)
  from operator_log_change [OF 1(4) this] u(1) show "staff_change s s'" by (auto simp: 1(3) intro: staff_change_trans)
  show "ws_revoked_at x \<noteq> None" if "x \<in> set (sf_sessions s')" "ws_id x = as_session_id a" for x
  proof -
    have "x \<in> set (update_where ?P ?f (sf_sessions s))" using that(1) by (simp add: 1(3) u(2))
    then have "?P x \<longrightarrow> ws_revoked_at x \<noteq> None" by (rule update_where_all) simp
    with that(2) show ?thesis by simp
  qed
qed

section \<open>The state machine\<close>

text \<open>
  One step is one committed transaction. Activity and role of an operator have no operation of their own in
  the program and are columns an administrator changes in SQL; that is the last step.
\<close>

inductive staff_step :: "(string \<Rightarrow> string) \<Rightarrow> staff \<Rightarrow> staff \<Rightarrow> bool" for sha256 where
  step_create: "create_operator s now username role = Inr (s', o1) \<Longrightarrow> staff_step sha256 s s'"
| step_issue: "issue_operator_api_key sha256 s now operator_id label expires_at public_id secret = Inr (s', ik) \<Longrightarrow> staff_step sha256 s s'"
| step_rotate: "rotate_operator_api_key sha256 s now key_id label expires_at public_id secret = Inr (s', ik) \<Longrightarrow> staff_step sha256 s s'"
| step_revoke: "revoke_operator_api_key s now key_id = Inr (s', b) \<Longrightarrow> staff_step sha256 s s'"
| step_login: "login_exchange sha256 s credential now idle absolute request_id random random' = Inr (s', iw) \<Longrightarrow> staff_step sha256 s s'"
| step_request: "authenticate_web_session sha256 s token now idle interval touch = Inr (s', a) \<Longrightarrow> staff_step sha256 s s'"
| step_logout: "revoke_operator_web_session s a request_id now = Inr s' \<Longrightarrow> staff_step sha256 s s'"
| step_administer: "staff_step sha256 s (s\<lparr>sf_operators := update_where (\<lambda>x. opr_id x = k)
    (\<lambda>x. x\<lparr>opr_is_active := active, opr_role := role\<rparr>) (sf_operators s)\<rparr>)"

inductive_cases staff_stepE: "staff_step sha256 s s'"

lemma administer_change:
  assumes "staff_inv s"
  shows "staff_change s (s\<lparr>sf_operators := update_where P (\<lambda>x. x\<lparr>opr_is_active := active, opr_role := role\<rparr>) (sf_operators s)\<rparr>)"
proof -
  let ?os = "update_where P (\<lambda>x. x\<lparr>opr_is_active := active, opr_role := role\<rparr>) (sf_operators s)"
  have "map opr_id ?os = map opr_id (sf_operators s)" by (simp add: map_update_where)
  moreover from this have "opr_id ` set ?os = opr_id ` set (sf_operators s)" by (metis set_map)
  ultimately show ?thesis using assms unfolding staff_change_def staff_later_def staff_inv_def
    by simp (meson same_key_refl same_session_refl)
qed

lemma staff_step_change: "staff_step sha256 s s' \<Longrightarrow> staff_inv s \<Longrightarrow> staff_change s s'"
  by (erule staff_stepE)
    (blast intro: create_operator_change administer_change revoke_Inr(1) end_session_change(1)
      elim: issue_Inr rotate_Inr login_Inr authenticate_web_session_Inr)+

interpretation staff_machine: forward_system "staff_step sha256" staff_inv staff_later for sha256
proof unfold_locales
  fix s s'
  assume "staff_inv s" "staff_step sha256 s s'"
  then have "staff_change s s'" by (blast intro: staff_step_change)
  then show "staff_inv s'" "staff_later s s'" by (simp_all add: staff_change_def)
qed (auto intro: staff_later_trans)

lemma revoked_key_stays:
  assumes "(staff_step sha256)\<^sup>*\<^sup>* s t" "staff_inv s" "k \<in> set (sf_keys s)" "ok_revoked_at k \<noteq> None"
    "x \<in> set (sf_keys t)" "ok_id x = ok_id k"
  shows "ok_revoked_at x \<noteq> None"
proof -
  from staff_machine.later_steps [OF assms(1,2)] assms(3) obtain k' where k': "k' \<in> set (sf_keys t)" "same_key k k'"
    by (auto simp: staff_later_def)
  have "staff_inv t" using staff_machine.ok_steps [OF assms(1,2)] .
  then have "x = k'" using key_inj_rows [of ok_id "sf_keys t" x k'] assms(5,6) k' by (simp add: staff_inv_def same_key_def)
  with k'(2) assms(4) show ?thesis by (simp add: same_key_def)
qed

lemma session_key:
  assumes "staff_inv s" "w \<in> set (sf_sessions s)" "web_session_live now w"
  obtains k where "k \<in> set (sf_keys s)" "ok_id k = ws_key_id w" "ok_operator_id k = ws_operator_id w" "operator_key_usable now k"
proof -
  from assms(1,2) have "session_backed (sf_keys s) w" by (simp add: staff_inv_def)
  then obtain k where k: "k \<in> set (sf_keys s)" "ok_id k = ws_key_id w" "ok_operator_id k = ws_operator_id w"
    "ok_revoked_at k \<noteq> None \<longrightarrow> ws_revoked_at w \<noteq> None" "\<forall>t \<in> set_option (ok_expires_at k). ws_absolute_expires_at w \<le> t"
    unfolding session_backed_def by blast
  with assms(3) have "operator_key_usable now k"
    by (auto simp: operator_key_usable_def web_session_live_def split: option.splits)
  with k that show ?thesis by blast
qed

lemma lock_web_session_Inr:
  assumes "lock_web_session_for_mutation sha256 s a token required now = Inr p"
  obtains w operator where "w \<in> set (sf_sessions s)" "web_token_digest sha256 token = Some (ws_token_digest w)" "web_session_live now w"
    "operator \<in> set (sf_operators s)" "opr_id operator = ws_operator_id w" "opr_is_active operator"
    "role_has_permission (opr_role operator) required" "p = session_principal operator w"
  using assms by (auto simp: lock_web_session_for_mutation_def bind_r_eq_Inr split: option.split_asm dest!: find_row_SomeD)

text \<open>A revocation, by either operation, leaves the key behind as a revoked row.\<close>

lemma revoked_row:
  assumes "staff_change s s1" "\<And>x. x \<in> set (sf_keys s1) \<Longrightarrow> ok_id x = key_id \<Longrightarrow> ok_revoked_at x \<noteq> None"
    "k \<in> set (sf_keys s)" "ok_id k = key_id"
  shows "\<exists>x \<in> set (sf_keys s1). ok_id x = key_id \<and> ok_revoked_at x \<noteq> None"
proof -
  from assms(1,3) obtain x where "x \<in> set (sf_keys s1)" "same_key k x" by (auto simp: staff_change_def staff_later_def)
  with assms(2,4) show ?thesis by (auto simp: same_key_def)
qed

lemma revoke_leaves_revoked:
  assumes "revoke_operator_api_key s now key_id = Inr (s1, b)" "staff_inv s"
  shows "staff_change s s1 \<and> (\<exists>x \<in> set (sf_keys s1). ok_id x = key_id \<and> ok_revoked_at x \<noteq> None)"
proof -
  from assms(1) obtain k where "find_row ok_id key_id (sf_keys s) = Some k"
    by (auto simp: revoke_operator_api_key_def split: option.splits)
  then have "k \<in> set (sf_keys s)" "ok_id k = key_id" by (auto dest: find_row_SomeD)
  from revoked_row [OF revoke_Inr(1) revoke_Inr(2) this, OF assms assms] revoke_Inr(1) [OF assms] show ?thesis by blast
qed

lemma rotate_leaves_revoked:
  assumes "rotate_operator_api_key sha256 s now key_id label expires public_id secret = Inr (s1, ik)" "staff_inv s"
  shows "staff_change s s1 \<and> (\<exists>x \<in> set (sf_keys s1). ok_id x = key_id \<and> ok_revoked_at x \<noteq> None)"
  by (rule rotate_Inr [OF assms]) (blast intro: revoked_row)

text \<open>The token of a key row authenticates as its operator for as long as the row is usable.\<close>

definition operator_token_ok :: "string \<Rightarrow> string \<Rightarrow> bool" where
  "operator_token_ok public_id secret \<longleftrightarrow> length public_id = 16 \<and> length secret = 43
     \<and> list_all is_urlsafe public_id \<and> list_all is_urlsafe secret"

lemma parse_operator_token_made:
  "operator_token_ok public_id secret \<Longrightarrow>
    parse_operator_token (operator_token_prefix @ public_id @ ''.'' @ secret) = Some (public_id, secret)"
  by (simp add: operator_token_ok_def parse_operator_token_def operator_token_prefix_def nth_append)

lemma urlsafe_ascii: "list_all is_urlsafe t \<Longrightarrow> is_ascii t"
  by (auto simp: is_ascii_def list_all_iff is_urlsafe_def is_alnum_def is_digit_def is_lower_def is_upper_def)

lemma key_token_authenticates:
  assumes "staff_inv s" "k \<in> set (sf_keys s)" "ok_public_id k = public_id" "ok_secret_hash k = hash_secret sha256 secret"
    "operator_token_ok public_id secret" "find_row opr_id (ok_operator_id k) (sf_operators s) = Some operator" "opr_is_active operator"
    "operator_key_usable now k"
  shows "\<exists>a. authenticate_operator sha256 s (operator_token_prefix @ public_id @ ''.'' @ secret) now = Inr a
    \<and> op_auth_id (ay_principal a) = ok_id k \<and> op_operator_id (ay_principal a) = ok_operator_id k"
proof -
  note p = parse_operator_token_made [OF assms(5)]
  have "find_row ok_public_id public_id (sf_keys s) = Some k"
    using find_row_distinct [of ok_public_id "sf_keys s" k] assms(1-3) by (simp add: staff_inv_def)
  moreover have "length (ok_secret_hash k) = 32" using assms(1,2) by (simp add: staff_inv_def operator_key_check_def)
  moreover have "is_ascii public_id" using assms(5) by (simp add: operator_token_ok_def urlsafe_ascii)
  ultimately show ?thesis
    using assms p find_row_SomeD [OF assms(6)]
    by (simp add: authenticate_operator_def parse_operator_api_key_public_id_def verify_operator_api_key_def compare_text_def)
qed

text \<open>A live session may be touched: its new times satisfy the constraints of the table.\<close>

lemma touch_session_check:
  "web_session_check w \<Longrightarrow> web_session_live now w \<Longrightarrow> 0 < idle \<Longrightarrow> web_session_check (touch_session now idle w)"
  by (auto simp: web_session_check_def web_session_live_def touch_session_def after_opt_def split: option.splits)

lemma session_token_authenticates:
  assumes "staff_inv s" "w \<in> set (sf_sessions s)" "web_token_digest sha256 token = Some (ws_token_digest w)" "web_session_live now w"
    "find_row opr_id (ws_operator_id w) (sf_operators s) = Some operator" "opr_is_active operator" "0 < idle" "0 < interval"
  shows "\<exists>s'. authenticate_web_session sha256 s token now idle interval touch
    = Inr (s', \<lparr>as_principal = session_principal operator w, as_session_id = ws_id w, as_csrf_token_digest = ws_csrf_token_digest w\<rparr>)"
proof -
  let ?Q = "\<lambda>x. ws_id x = ws_id w \<and> web_session_live now x \<and> ws_last_seen_at x \<le> now - interval * 1000000"
  have "find_row ws_token_digest (ws_token_digest w) (sf_sessions s) = Some w"
    using find_row_distinct [of ws_token_digest "sf_sessions s" w] assms(1,2) by (simp add: staff_inv_def)
  moreover have "\<forall>x \<in> set (sf_sessions s). ?Q x \<longrightarrow> web_session_check (touch_session now idle x)"
    using assms(1,7) touch_session_check by (simp add: staff_inv_def)
  then have "update_web_sessions s ?Q (touch_session now idle) = Inr (s\<lparr>sf_sessions := update_where ?Q (touch_session now idle) (sf_sessions s)\<rparr>)"
    by (simp add: update_web_sessions_def)
  ultimately show ?thesis
    using assms(3-8) by (simp add: authenticate_web_session_def Let_def)
qed

lemma session_token_locks:
  assumes "staff_inv s" "w \<in> set (sf_sessions s)" "web_token_digest sha256 token = Some (ws_token_digest w)" "web_session_live now w"
    "find_row opr_id (ws_operator_id w) (sf_operators s) = Some operator" "opr_is_active operator"
    "role_has_permission (opr_role operator) required"
  shows "lock_web_session_for_mutation sha256 s
      \<lparr>as_principal = session_principal operator w, as_session_id = ws_id w, as_csrf_token_digest = ws_csrf_token_digest w\<rparr> token required now
    = Inr (session_principal operator w)"
proof -
  have "find_row ws_id (ws_id w) (sf_sessions s) = Some w"
    using find_row_distinct [of ws_id "sf_sessions s" w] assms(1,2) by (simp add: staff_inv_def)
  with assms(3-7) find_row_SomeD [OF assms(5)] show ?thesis
    by (simp add: lock_web_session_for_mutation_def session_principal_def)
qed

lemma csrf_accepts_only:
  assumes "web_token_digest sha256 token = Some digest" "length digest = 32"
  shows "verify_csrf_tokens sha256 token form (Some digest) \<longleftrightarrow> form = token"
proof -
  from assms(1) obtain raw where raw: "decode_token token = Some raw" "digest = sha256 raw" by (auto simp: web_token_digest_def)
  then have t: "length raw = 32" "token = encode_token raw" by (simp_all add: decode_token_iff)
  show ?thesis
  proof (cases "decode_token form")
    case None
    with raw show ?thesis by (auto simp: verify_csrf_tokens_def)
  next
    case (Some r)
    then have "form = encode_token r" by (simp add: decode_token_iff)
    moreover have "encode_token r = encode_token raw \<longleftrightarrow> r = raw"
      using Some raw(1) calculation t(2) by (metis option.inject)
    ultimately show ?thesis using Some raw t(2) assms(2) by (auto simp: verify_csrf_tokens_def)
  qed
qed

section \<open>Properties\<close>

text \<open>C4: Whoever changes something from the dashboard still holds a working API key. Start from consistent
  tables and let operators be created and changed, keys be issued, rotated and revoked, sessions be opened,
  used and closed in any order: whenever the locked check before a mutation lets a request through, the
  session token is that of an open session, the key the session was opened with is neither revoked nor
  expired and belongs to the same operator, and this operator is active and has, at this moment, the
  permission the mutation requires; the principal names them.\<close>

theorem mutations_need_a_usable_key:
  assumes "staff_inv s0" "(staff_step sha256)\<^sup>*\<^sup>* s0 s"
    "lock_web_session_for_mutation sha256 s a token required now = Inr p"
  shows "\<exists>w \<in> set (sf_sessions s). \<exists>k \<in> set (sf_keys s). \<exists>operator \<in> set (sf_operators s).
    web_token_digest sha256 token = Some (ws_token_digest w) \<and> web_session_live now w
    \<and> ok_id k = ws_key_id w \<and> operator_key_usable now k \<and> ok_operator_id k = opr_id operator
    \<and> opr_is_active operator \<and> role_has_permission (opr_role operator) required \<and> p = session_principal operator w"
proof -
  have inv: "staff_inv s" using staff_machine.ok_steps [OF assms(2,1)] .
  obtain w operator where w: "w \<in> set (sf_sessions s)" "web_token_digest sha256 token = Some (ws_token_digest w)" "web_session_live now w"
    "operator \<in> set (sf_operators s)" "opr_id operator = ws_operator_id w" "opr_is_active operator"
    "role_has_permission (opr_role operator) required" "p = session_principal operator w"
    by (rule lock_web_session_Inr [OF assms(3)])
  obtain k where "k \<in> set (sf_keys s)" "ok_id k = ws_key_id w" "ok_operator_id k = ws_operator_id w" "operator_key_usable now k"
    by (rule session_key [OF inv w(1,3)])
  with w show ?thesis by metis
qed

text \<open>C12: Revoking or rotating a key takes effect at once, everywhere and for ever. Whatever happens
  afterwards, no token authenticates with that key again and no session opened with it is accepted, neither
  for reading nor for a mutation.\<close>

theorem revoked_key_is_dead:
  assumes "staff_inv s"
    "(\<exists>b. revoke_operator_api_key s now key_id = Inr (s1, b))
      \<or> (\<exists>label expires public_id secret ik.
           rotate_operator_api_key sha256 s now key_id label expires public_id secret = Inr (s1, ik))"
    "(staff_step sha256)\<^sup>*\<^sup>* s1 t"
  shows "(authenticate_operator sha256 t token now' = Inr k \<longrightarrow> op_auth_id (ay_principal k) \<noteq> key_id)
    \<and> (authenticate_web_session sha256 t token now' idle interval touch = Inr (t', a) \<longrightarrow>
         (\<forall>w \<in> set (sf_sessions t). ws_id w = as_session_id a \<longrightarrow> ws_key_id w \<noteq> key_id))
    \<and> (lock_web_session_for_mutation sha256 t a' token required now' = Inr p \<longrightarrow>
         (\<forall>w \<in> set (sf_sessions t). ws_id w = op_auth_id p \<longrightarrow> ws_key_id w \<noteq> key_id))"
proof -
  from assms(2) have "staff_change s s1 \<and> (\<exists>x \<in> set (sf_keys s1). ok_id x = key_id \<and> ok_revoked_at x \<noteq> None)"
    using revoke_leaves_revoked rotate_leaves_revoked assms(1) by blast
  then obtain k0 where 1: "staff_inv s1" "k0 \<in> set (sf_keys s1)" "ok_id k0 = key_id" "ok_revoked_at k0 \<noteq> None"
    unfolding staff_change_def by blast
  have inv: "staff_inv t" using staff_machine.ok_steps [OF assms(3) 1(1)] .
  have dead: "\<not> operator_key_usable u x" if "x \<in> set (sf_keys t)" "ok_id x = key_id" for x u
    using revoked_key_stays [OF assms(3) 1(1,2,4) that(1)] that(2) 1(3) by (simp add: operator_key_usable_def)
  have closed: "ws_key_id w \<noteq> key_id" if "w' \<in> set (sf_sessions t)" "web_session_live now' w'" "w \<in> set (sf_sessions t)" "ws_id w = ws_id w'" for w w'
  proof -
    have "w = w'" using key_inj_rows [of ws_id "sf_sessions t" w w'] that inv by (simp add: staff_inv_def)
    with session_key [OF inv that(1,2)] dead show ?thesis by metis
  qed
  have "op_auth_id (ay_principal k) \<noteq> key_id" if "authenticate_operator sha256 t token now' = Inr k"
    by (rule authenticate_operator_Inr [OF that]) (use dead in auto)
  moreover have "\<forall>w \<in> set (sf_sessions t). ws_id w = as_session_id a \<longrightarrow> ws_key_id w \<noteq> key_id"
    if "authenticate_web_session sha256 t token now' idle interval touch = Inr (t', a)"
    by (rule authenticate_web_session_Inr [OF that inv]) (use closed in simp)
  moreover have "\<forall>w \<in> set (sf_sessions t). ws_id w = op_auth_id p \<longrightarrow> ws_key_id w \<noteq> key_id"
    if "lock_web_session_for_mutation sha256 t a' token required now' = Inr p"
    by (rule lock_web_session_Inr [OF that]) (use closed in \<open>simp add: session_principal_def\<close>)
  ultimately show ?thesis by blast
qed

text \<open>C36: A token that was issued works. The token an operator is given authenticates as that operator and
  as exactly that key, until the key expires; if it is then exchanged for a browser session, the session
  token is accepted until the idle limit or the absolute limit, whichever is first, and among all texts the
  only one the CSRF check accepts beside the CSRF token handed out is that token itself.\<close>

theorem issued_credentials_work:
  assumes "staff_inv s" "issue_operator_api_key sha256 s now operator_id label expires_at public_id secret = Inr (s1, ik)"
    "operator_token_ok public_id secret" "\<forall>t \<in> set_option expires_at. now' < t"
    "login_exchange sha256 s1 credential now' idle absolute request_id random random' = Inr (s2, iw)"
    "now' \<le> now''" "now'' < now' + idle * 1000000" "now'' < iw_absolute_expires_at iw" "0 < interval"
  shows "\<exists>k t a. authenticate_operator sha256 s1 (ik_token ik) now' = Inr k
    \<and> op_auth_id (ay_principal k) = ik_key_id ik \<and> op_operator_id (ay_principal k) = operator_id
    \<and> authenticate_web_session sha256 s2 (iw_session_token iw) now'' idle interval touch = Inr (t, a)
    \<and> as_session_id a = iw_session_id iw \<and> op_auth_id (as_principal a) = iw_session_id iw
    \<and> (\<forall>form. verify_csrf_tokens sha256 (iw_csrf_token iw) form (Some (as_csrf_token_digest a)) \<longleftrightarrow> form = iw_csrf_token iw)"
proof -
  obtain k operator where k: "staff_change s s1" "k \<in> set (sf_keys s1)" "ok_id k = ik_key_id ik" "ok_operator_id k = operator_id"
    "ok_public_id k = public_id" "ok_secret_hash k = hash_secret sha256 secret" "ok_expires_at k = expires_at" "ok_revoked_at k = None"
    "ik_token ik = operator_token_prefix @ public_id @ ''.'' @ secret" "sf_operators s1 = sf_operators s"
    "find_row opr_id operator_id (sf_operators s) = Some operator" "opr_is_active operator"
    by (rule issue_Inr [OF assms(2,1)])
  have inv1: "staff_inv s1" using k(1) by (simp add: staff_change_def)
  have "operator_key_usable now' k" using k(7,8) assms(4) by (auto simp: operator_key_usable_def split: option.splits)
  with key_token_authenticates [OF inv1 k(2,5,6) assms(3), of operator now'] k obtain a1 where
    a1: "authenticate_operator sha256 s1 (ik_token ik) now' = Inr a1" "op_auth_id (ay_principal a1) = ik_key_id ik"
      "op_operator_id (ay_principal a1) = operator_id" by auto
  obtain w kl op where w: "staff_change s1 s2" "w \<in> set (sf_sessions s2)" "sf_operators s2 = sf_operators s1"
    "ws_id w = iw_session_id iw" "ws_operator_id w = ok_operator_id kl" "ws_revoked_at w = None"
    "web_token_digest sha256 (iw_session_token iw) = Some (ws_token_digest w)"
    "web_token_digest sha256 (iw_csrf_token iw) = Some (ws_csrf_token_digest w)"
    "ws_idle_expires_at w = min (now' + idle * 1000000) (ws_absolute_expires_at w)" "0 < idle"
    "ws_absolute_expires_at w = iw_absolute_expires_at iw" "web_session_check w"
    "op \<in> set (sf_operators s1)" "opr_id op = ok_operator_id (kl :: operator_key_row)" "opr_is_active op"
    by (rule login_Inr [OF assms(5) inv1])
  have inv2: "staff_inv s2" using w(1) by (simp add: staff_change_def)
  have "web_session_live now'' w" using w assms(7,8) by (simp add: web_session_live_def)
  moreover have "find_row opr_id (ws_operator_id w) (sf_operators s2) = Some op"
    using find_row_distinct [of opr_id "sf_operators s2" op] inv2 w by (simp add: staff_inv_def)
  ultimately obtain t where "authenticate_web_session sha256 s2 (iw_session_token iw) now'' idle interval touch
    = Inr (t, \<lparr>as_principal = session_principal op w, as_session_id = ws_id w, as_csrf_token_digest = ws_csrf_token_digest w\<rparr>)"
    using session_token_authenticates [OF inv2 w(2,7)] w(10,15) assms(9) by blast
  moreover have "length (ws_csrf_token_digest w) = 32" using w(12) by (simp add: web_session_check_def)
  ultimately show ?thesis using a1 csrf_accepts_only [OF w(8)] w(4)
    by (intro exI [of _ a1] exI [of _ t] exI
        [of _ "\<lparr>as_principal = session_principal op w, as_session_id = ws_id w, as_csrf_token_digest = ws_csrf_token_digest w\<rparr>"])
      (simp add: session_principal_def)
qed

subsection \<open>A concrete run\<close>

definition sample_public_id :: string where "sample_public_id = replicate 16 (CHR ''p'')"

definition sample_secret :: string where "sample_secret = replicate 43 (CHR ''s'')"

definition sample_staff :: staff where
  "sample_staff = \<lparr>sf_operators = [\<lparr>opr_id = 1, opr_username = ''anna'', opr_role = Analyst, opr_is_active = True\<rparr>],
     sf_keys = [], sf_sessions = [], sf_main = db_empty\<lparr>next_uuid := 5\<rparr>\<rparr>"

definition sample_issue :: "(staff \<times> issued_key) result" where
  "sample_issue = issue_operator_api_key sample_sha256 sample_staff 10 1 None None sample_public_id sample_secret"

lemma sample_staff_inv: "staff_inv sample_staff"
  by (simp add: staff_inv_def sample_staff_def db_empty_def audit_inv_def audit_unique_def)

lemma sample_token_ok: "operator_token_ok sample_public_id sample_secret"
  by (simp add: operator_token_ok_def sample_public_id_def sample_secret_def list_all_iff is_urlsafe_def is_alnum_def is_lower_def)

lemma sample_secret_hash: "length (hash_secret sample_sha256 sample_secret) = 32"
  by (simp add: hash_secret_def sample_sha256_def)

lemma registry_key_issued:
  "map_of audit_registry ''operator_api_key.issued'' = Some (cli_spec ''operator_api_key'' [(''operator_id'', T_Uuid)])"
  by (simp add: audit_registry_def)

lemma registry_key_revoked:
  "map_of audit_registry ''operator_api_key.revoked'' = Some (cli_spec ''operator_api_key'' [(''operator_id'', T_Uuid)])"
  by (simp add: audit_registry_def)

lemma registry_session_started:
  "map_of audit_registry ''operator_web_session.started'' = Some (operator_spec ''operator_web_session'' [] [Operator_Api_Key])"
  by (simp add: audit_registry_def)

lemma sample_issue_done:
  obtains s1 ik k where "sample_issue = Inr (s1, ik)" "sf_sessions s1 = []" "sf_operators s1 = sf_operators sample_staff"
    "sf_keys s1 = [k]" "ok_id k = ik_key_id ik" "ok_created_at k = 10" "ok_revoked_at k = None"
proof -
  have "\<exists>s1 ik k. sample_issue = Inr (s1, ik) \<and> sf_sessions s1 = [] \<and> sf_operators s1 = sf_operators sample_staff
      \<and> sf_keys s1 = [k] \<and> ok_id k = ik_key_id ik \<and> ok_created_at k = 10 \<and> ok_revoked_at k = None"
    using sample_secret_hash
    by (simp add: sample_issue_def issue_operator_api_key_def validate_expiry_def normalize_label_def sample_staff_def create_key_def
        generate_operator_api_key_def draw_uuid_def insert_operator_key_def operator_key_check_def after_opt_def log_cli_def
        record_local_cli_action_def validate_audit_action_def registry_key_issued cli_spec_def obj_get_def checked_text_def
        forbidden_fields_def casefold_def is_upper_def uuid4_def Let_def)
  with that show ?thesis by blast
qed

lemma sample_login_done:
  assumes "sample_issue = Inr (s1, ik)" "sf_sessions s1 = []" "sf_operators s1 = sf_operators sample_staff"
  shows "\<exists>s2 iw. login_exchange sample_sha256 s1 (ik_token ik) 20 600 3600 ''r'' (replicate 32 (CHR ''a'')) (replicate 32 (CHR ''b''))
    = Inr (s2, iw) \<and> iw_absolute_expires_at iw = 20 + 3600 * 1000000"
proof -
  note s1 = assms(2,3)
  obtain k operator where k: "staff_change sample_staff s1" "k \<in> set (sf_keys s1)" "ok_id k = ik_key_id ik" "ok_operator_id k = 1"
    "ok_public_id k = sample_public_id" "ok_secret_hash k = hash_secret sample_sha256 sample_secret" "ok_expires_at k = None"
    "ok_revoked_at k = None" "ik_token ik = operator_token_prefix @ sample_public_id @ ''.'' @ sample_secret"
    "find_row opr_id 1 (sf_operators sample_staff) = Some operator" "opr_is_active operator"
    by (rule issue_Inr [OF assms(1) [unfolded sample_issue_def] sample_staff_inv])
  have inv: "staff_inv s1" using k(1) by (simp add: staff_change_def)
  have "operator_key_usable 20 k" using k(7,8) by (simp add: operator_key_usable_def)
  with key_token_authenticates [OF inv k(2,5,6) sample_token_ok, of operator 20] k s1(2) obtain a where
    a: "authenticate_operator sample_sha256 s1 (ik_token ik) 20 = Inr a" "op_auth_id (ay_principal a) = ok_id k" by auto
  obtain k' operator' where k': "k' \<in> set (sf_keys s1)" "ay_key a = k'" "operator' \<in> set (sf_operators s1)" "opr_id operator' = ok_operator_id k'"
    "ay_principal a = \<lparr>op_operator_id = opr_id operator', op_username = opr_username operator', op_role = opr_role operator',
       op_auth_type = Operator_Api_Key, op_auth_id = ok_id k'\<rparr>" by (rule authenticate_operator_Inr [OF a(1)])
  have "k' = k" using key_inj_rows [of ok_id "sf_keys s1" k' k] inv k(2) k' a(2) by (simp add: staff_inv_def)
  moreover have "operator' = \<lparr>opr_id = 1, opr_username = ''anna'', opr_role = Analyst, opr_is_active = True\<rparr>"
    using k'(3) s1(2) by (simp add: sample_staff_def)
  ultimately have p: "ay_key a = k" "ay_principal a = \<lparr>op_operator_id = 1, op_username = ''anna'', op_role = Analyst,
      op_auth_type = Operator_Api_Key, op_auth_id = ok_id k\<rparr>" using k' by simp_all
  have check: "operator_key_check (x\<lparr>ok_last_used_at := Some 20\<rparr>)" if "x \<in> set (sf_keys s1)" for x
    using inv that by (auto simp: staff_inv_def operator_key_check_def split: option.splits)
  have digest: "web_token_digest sample_sha256 (encode_token r) = Some r" if "length r = 32" for r
    using that by (simp add: web_token_digest_def decode_encode sample_sha256_def)
  have fk: "\<exists>x \<in> set (sf_keys s1). ok_id x = ok_id k \<and> ok_operator_id x = 1" using k(2,4) by blast
  show ?thesis
    using a(1) p k(7) s1(1) check fk
    by (simp add: login_exchange_def role_has_permission_def create_operator_web_session_def generate_web_token_ok digest
        draw_uuid_def uuid4_def insert_web_session_def web_session_check_def after_opt_def record_operator_action_def
        validate_audit_action_def registry_session_started operator_spec_def history_reference_ok_def
        update_operator_keys_def Let_def)
qed

lemma sample_login:
  obtains s1 ik s2 iw where "sample_issue = Inr (s1, ik)" "staff_inv s1"
    "login_exchange sample_sha256 s1 (ik_token ik) 20 600 3600 ''r'' (replicate 32 (CHR ''a'')) (replicate 32 (CHR ''b'')) = Inr (s2, iw)"
    "iw_absolute_expires_at iw = 20 + 3600 * 1000000" "sf_operators s1 = sf_operators sample_staff" "sf_sessions s1 = []"
proof -
  obtain s1 ik k where 1: "sample_issue = Inr (s1, ik)" "sf_sessions s1 = []" "sf_operators s1 = sf_operators sample_staff"
    by (rule sample_issue_done)
  have "staff_inv s1" using issue_Inr [OF 1(1) [unfolded sample_issue_def] sample_staff_inv] by (metis staff_change_def)
  with sample_login_done [OF 1] 1 that show ?thesis by blast
qed

theorem issued_credentials_work_witness:
  "\<exists>s1 ik s2 iw t a. sample_issue = Inr (s1, ik)
    \<and> login_exchange sample_sha256 s1 (ik_token ik) 20 600 3600 ''r'' (replicate 32 (CHR ''a'')) (replicate 32 (CHR ''b'')) = Inr (s2, iw)
    \<and> authenticate_web_session sample_sha256 s2 (iw_session_token iw) 30 600 60 True = Inr (t, a)
    \<and> as_session_id a = iw_session_id iw"
proof -
  obtain s1 ik s2 iw where 1: "sample_issue = Inr (s1, ik)" "staff_inv s1"
    "login_exchange sample_sha256 s1 (ik_token ik) 20 600 3600 ''r'' (replicate 32 (CHR ''a'')) (replicate 32 (CHR ''b'')) = Inr (s2, iw)"
    "iw_absolute_expires_at iw = 20 + 3600 * 1000000" by (rule sample_login)
  have "30 < iw_absolute_expires_at iw" by (simp add: 1(4))
  note r = issued_credentials_work [OF sample_staff_inv 1(1) [unfolded sample_issue_def] sample_token_ok _ 1(3) _ _ this,
      where interval = 60 and touch = True]
  obtain t a where "authenticate_web_session sample_sha256 s2 (iw_session_token iw) 30 600 60 True = Inr (t, a)"
    "as_session_id a = iw_session_id iw" by (insert r, simp) (elim exE conjE, rule that)
  with 1(1,3) show ?thesis by blast
qed

theorem revoked_key_is_dead_witness:
  "\<exists>s1 ik t. sample_issue = Inr (s1, ik) \<and> revoke_operator_api_key s1 40 (ik_key_id ik) = Inr (t, True)
    \<and> (\<forall>k. authenticate_operator sample_sha256 t (ik_token ik) 50 = Inr k \<longrightarrow> op_auth_id (ay_principal k) \<noteq> ik_key_id ik)"
proof -
  obtain s1 ik k where 1: "sample_issue = Inr (s1, ik)" "sf_sessions s1 = []" "sf_operators s1 = sf_operators sample_staff"
    "sf_keys s1 = [k]" "ok_id k = ik_key_id ik" "ok_created_at k = 10" "ok_revoked_at k = None" by (rule sample_issue_done)
  have inv: "staff_inv s1" using issue_Inr [OF 1(1) [unfolded sample_issue_def] sample_staff_inv] by (metis staff_change_def)
  then have "operator_key_check k" using 1(4) by (simp add: staff_inv_def)
  then have "operator_key_check (k\<lparr>ok_revoked_at := Some 40\<rparr>)" using 1(6) by (auto simp: operator_key_check_def after_opt_def split: option.splits)
  then obtain t where t: "revoke_operator_api_key s1 40 (ik_key_id ik) = Inr (t, True)"
    using 1(2,4,5,7) by (simp add: revoke_operator_api_key_def revoke_key_row_def update_operator_keys_def
        revoke_sessions_authenticated_by_key_def update_web_sessions_def log_cli_def record_local_cli_action_def
        validate_audit_action_def registry_key_revoked cli_spec_def obj_get_def checked_text_def forbidden_fields_def
        casefold_def is_upper_def uuid4_def Let_def)
  have "op_auth_id (ay_principal x) \<noteq> ik_key_id ik" if "authenticate_operator sample_sha256 t (ik_token ik) 50 = Inr x" for x
    using revoked_key_is_dead [OF inv _ rtranclp.rtrancl_refl, of 40 "ik_key_id ik" t sample_sha256] t that by blast
  with 1(1) t show ?thesis by blast
qed

theorem mutations_need_a_usable_key_witness:
  "\<exists>s0 s a token p. staff_inv s0 \<and> (staff_step sample_sha256)\<^sup>*\<^sup>* s0 s \<and> sf_sessions s0 = [] \<and> sf_sessions s \<noteq> []
    \<and> lock_web_session_for_mutation sample_sha256 s a token Transition_Incidents 30 = Inr p
    \<and> (\<exists>k \<in> set (sf_keys s). operator_key_usable 30 k)"
proof -
  obtain s1 ik s2 iw where 1: "sample_issue = Inr (s1, ik)" "staff_inv s1"
    "login_exchange sample_sha256 s1 (ik_token ik) 20 600 3600 ''r'' (replicate 32 (CHR ''a'')) (replicate 32 (CHR ''b'')) = Inr (s2, iw)"
    "iw_absolute_expires_at iw = 20 + 3600 * 1000000" "sf_operators s1 = sf_operators sample_staff" "sf_sessions s1 = []" by (rule sample_login)
  obtain w kl op where w: "staff_change s1 s2" "w \<in> set (sf_sessions s2)" "sf_operators s2 = sf_operators s1"
    "ws_operator_id w = ok_operator_id kl" "ws_revoked_at w = None"
    "web_token_digest sample_sha256 (iw_session_token iw) = Some (ws_token_digest w)"
    "ws_idle_expires_at w = min (20 + 600 * 1000000) (ws_absolute_expires_at w)"
    "ws_absolute_expires_at w = iw_absolute_expires_at iw"
    "op \<in> set (sf_operators s1)" "opr_id op = ok_operator_id (kl :: operator_key_row)" "opr_is_active op"
    by (rule login_Inr [OF 1(3,2)])
  have inv2: "staff_inv s2" using w(1) by (simp add: staff_change_def)
  have "web_session_live 30 w" using w 1(4) by (simp add: web_session_live_def)
  moreover have "find_row opr_id (ws_operator_id w) (sf_operators s2) = Some op"
    using find_row_distinct [of opr_id "sf_operators s2" op] inv2 w by (simp add: staff_inv_def)
  moreover have "role_has_permission (opr_role op) Transition_Incidents"
    using w(9) 1(5) by (simp add: sample_staff_def role_has_permission_def)
  ultimately have lock: "lock_web_session_for_mutation sample_sha256 s2
      \<lparr>as_principal = session_principal op w, as_session_id = ws_id w, as_csrf_token_digest = ws_csrf_token_digest w\<rparr>
      (iw_session_token iw) Transition_Incidents 30 = Inr (session_principal op w)"
    by (intro session_token_locks) (use inv2 w(2,6,11) in auto)
  have run: "(staff_step sample_sha256)\<^sup>*\<^sup>* s1 s2" using step_login [OF 1(3)] by blast
  have "\<exists>k \<in> set (sf_keys s2). operator_key_usable 30 k"
    using mutations_need_a_usable_key [OF 1(2) run lock] by blast
  moreover have "sf_sessions s2 \<noteq> []" using w(2) by auto
  ultimately show ?thesis using 1(2,6) run lock by blast
qed

end
