(* ===== verification/Ip_Blocks.thy ===== *)
theory Ip_Blocks
  imports Audit_Log Step_Systems
begin

text \<open>
  Dry-run IP blocks: the closed policy of \<open>application/ip_block_policy.py\<close> and the plans and allowlist of
  \<open>application/ip_blocks.py\<close> over the tables of \<open>models/ip_block.py\<close>. The program never runs a command; a
  plan records what one operator proposed and what a second one decided. The summaries handed back have the
  columns of the row and are modelled by it. The properties \<open>is_loopback\<close> to \<open>is_private\<close> of Python's
  \<open>ipaddress\<close> are those of Python 3.12, the version the project requires.
\<close>

section \<open>Which addresses may be blocked\<close>

definition in_networks :: "ip \<Rightarrow> ip_net list \<Rightarrow> bool" where
  "in_networks a nets \<longleftrightarrow> list_ex (in_net a) nets"

text \<open>\<open>_NEVER_BLOCK_NETWORKS\<close>, in the order of the source.\<close>

definition never_block_networks :: "ip_net list" where
  "never_block_networks =
     [N4 0x00000000 8, N4 0x0a000000 8, N4 0x64400000 10, N4 0x7f000000 8, N4 0xa9fe0000 16,
      N4 0xac100000 12, N4 0xc0000000 24, N4 0xc0000200 24, N4 0xc0a80000 16, N4 0xc6120000 15,
      N4 0xc6336400 24, N4 0xcb007100 24, N4 0xe0000000 4, N4 0xf0000000 4, N4 0xffffffff 32,
      N6 0x00000000000000000000000000000000 128, N6 0x00000000000000000000000000000001 128,
      N6 0xfc000000000000000000000000000000 7, N6 0xfe800000000000000000000000000000 10,
      N6 0xff000000000000000000000000000000 8, N6 0x20010000000000000000000000000000 32,
      N6 0x20020000000000000000000000000000 16, N6 0x20010db8000000000000000000000000 32]"

text \<open>Loopback, link-local, multicast, unspecified and reserved addresses, then private ones and their exceptions.\<close>

definition py_special_networks :: "ip_net list" where
  "py_special_networks =
     [N4 0x7f000000 8, N6 0x00000000000000000000000000000001 128, N4 0xa9fe0000 16,
      N6 0xfe800000000000000000000000000000 10, N4 0xe0000000 4, N6 0xff000000000000000000000000000000 8,
      N4 0x00000000 32, N6 0x00000000000000000000000000000000 128, N4 0xf0000000 4,
      N6 0x00000000000000000000000000000000 8, N6 0x01000000000000000000000000000000 8,
      N6 0x02000000000000000000000000000000 7, N6 0x04000000000000000000000000000000 6,
      N6 0x08000000000000000000000000000000 5, N6 0x10000000000000000000000000000000 4,
      N6 0x40000000000000000000000000000000 3, N6 0x60000000000000000000000000000000 3,
      N6 0x80000000000000000000000000000000 3, N6 0xa0000000000000000000000000000000 3,
      N6 0xc0000000000000000000000000000000 3, N6 0xe0000000000000000000000000000000 4,
      N6 0xf0000000000000000000000000000000 5, N6 0xf8000000000000000000000000000000 6,
      N6 0xfe000000000000000000000000000000 9]"

definition py_private_networks :: "ip_net list" where
  "py_private_networks =
     [N4 0x00000000 8, N4 0x0a000000 8, N4 0x7f000000 8, N4 0xa9fe0000 16, N4 0xac100000 12,
      N4 0xc0000000 24, N4 0xc00000aa 31, N4 0xc0000200 24, N4 0xc0a80000 16, N4 0xc6120000 15,
      N4 0xc6336400 24, N4 0xcb007100 24, N4 0xf0000000 4, N4 0xffffffff 32,
      N6 0x00000000000000000000000000000001 128, N6 0x00000000000000000000000000000000 128,
      N6 0x00000000000000000000ffff00000000 96, N6 0x0064ff9b000100000000000000000000 48,
      N6 0x01000000000000000000000000000000 64, N6 0x20010000000000000000000000000000 23,
      N6 0x20010db8000000000000000000000000 32, N6 0x20020000000000000000000000000000 16,
      N6 0xfc000000000000000000000000000000 7, N6 0xfe800000000000000000000000000000 10]"

definition py_private_exceptions :: "ip_net list" where
  "py_private_exceptions = [N4 0xc0000009 32, N4 0xc000000a 32, N6 0x20010001000000000000000000000001 128,
      N6 0x20010001000000000000000000000002 128, N6 0x20010003000000000000000000000000 32,
      N6 0x20010004011200000000000000000000 48, N6 0x20010020000000000000000000000000 28,
      N6 0x20010030000000000000000000000000 28]"

definition is_never_block :: "ip \<Rightarrow> bool" where
  "is_never_block a \<longleftrightarrow> in_networks a py_special_networks
     \<or> (in_networks a py_private_networks \<and> \<not> in_networks a py_private_exceptions)
     \<or> in_networks a never_block_networks"

datatype rejection = Not_An_Address | Not_Canonical | Never_Block | Allowlisted

record target_decision =
  td_allowed :: bool
  td_address :: "ip option"
  td_rejection_reason :: "rejection option"

record allow_row =
  al_id :: uuid
  al_cidr :: string
  al_label :: ustring
  al_reason :: ustring
  al_created_at :: time
  al_revoked_at :: "time option"

definition parse_canonical_address :: "string \<Rightarrow> ip option" where
  "parse_canonical_address raw = (if 1 \<le> length raw \<and> length raw \<le> 45 then read_ip raw else None)"

definition is_allowlisted :: "allow_row list \<Rightarrow> ip \<Rightarrow> bool" where
  "is_allowlisted entries a \<longleftrightarrow> list_ex (\<lambda>e. al_revoked_at e = None
     \<and> (case read_net (al_cidr e) of None \<Rightarrow> False | Some n \<Rightarrow> in_net a n)) entries"

definition classify_block_target :: "allow_row list \<Rightarrow> string \<Rightarrow> target_decision" where
  "classify_block_target entries raw =
     (case parse_canonical_address raw of
        None \<Rightarrow> \<lparr>td_allowed = False, td_address = None, td_rejection_reason = Some Not_An_Address\<rparr>
      | Some a \<Rightarrow>
          if has_scope_id a \<or> is_ipv4_mapped a \<or> show_ip a \<noteq> raw
          then \<lparr>td_allowed = False, td_address = None, td_rejection_reason = Some Not_Canonical\<rparr>
          else if is_never_block a then \<lparr>td_allowed = False, td_address = Some a, td_rejection_reason = Some Never_Block\<rparr>
          else if is_allowlisted entries a then \<lparr>td_allowed = False, td_address = Some a, td_rejection_reason = Some Allowlisted\<rparr>
          else \<lparr>td_allowed = True, td_address = Some a, td_rejection_reason = None\<rparr>)"

definition nft_identifier :: "string \<Rightarrow> bool" where
  "nft_identifier = head_run is_lower (\<lambda>c. is_lower c \<or> is_digit c \<or> c = CHR ''_'') 0 31"

record nft_names =
  nf_table :: string
  nf_set_v4 :: string
  nf_set_v6 :: string

definition build_nft_block_command :: "nft_names \<Rightarrow> ip \<Rightarrow> string list result" where
  "build_nft_block_command n a =
     bind_r (guard_r (nft_identifier (nf_table n) \<and> nft_identifier (nf_set_v4 n) \<and> nft_identifier (nf_set_v6 n))
       (ValueError ''nftables identifier is outside the allowed pattern'')) (\<lambda>_.
     Inr [''nft'', ''add'', ''element'', ''inet'', nf_table n,
       (case a of V4 _ \<Rightarrow> nf_set_v4 n | V6 _ _ \<Rightarrow> nf_set_v6 n), ''{'', show_ip a, ''}''])"

section \<open>Tables\<close>

datatype plan_status = Proposed | Approved | Rejected

record plan_row =
  pl_id :: uuid
  pl_incident_id :: uuid
  pl_server_id :: uuid
  pl_ip_address :: string
  pl_status :: plan_status
  pl_command_argv :: "string list"
  pl_proposed_by :: uuid
  pl_proposed_at :: time
  pl_expires_at :: time
  pl_proposal_request_id :: string
  pl_decided_by :: "uuid option"
  pl_decided_at :: "time option"

record block_tables =
  bt_plans :: "plan_row list"
  bt_allowlist :: "allow_row list"
  bt_main :: db

definition plan_check :: "plan_row \<Rightarrow> bool" where
  "plan_check p \<longleftrightarrow> (case read_ip (pl_ip_address p) of None \<Rightarrow> False | Some a \<Rightarrow> \<not> has_scope_id a)
     \<and> pl_proposed_at p < pl_expires_at p
     \<and> (if pl_status p = Proposed then pl_decided_by p = None \<and> pl_decided_at p = None
        else pl_decided_by p \<noteq> None \<and> pl_decided_at p \<noteq> None)"

definition plan_key :: "plan_row \<Rightarrow> uuid \<times> string \<times> plan_status" where
  "plan_key p = (pl_incident_id p, pl_ip_address p, pl_status p)"

definition insert_plan :: "block_tables \<Rightarrow> plan_row \<Rightarrow> block_tables result" where
  "insert_plan t p = bind_r (guard_r (plan_check p) (IntegrityError ''ip_block_plans'')) (\<lambda>_.
     bind_r (guard_r (pl_status p = Proposed \<longrightarrow> plan_key p \<notin> plan_key ` set (bt_plans t))
       (IntegrityError ''uq_ip_block_plans_active_incident_ip'')) (\<lambda>_.
     Inr (t\<lparr>bt_plans := bt_plans t @ [p]\<rparr>)))"

definition update_plan :: "block_tables \<Rightarrow> plan_row \<Rightarrow> block_tables result" where
  "update_plan t p = bind_r (guard_r (plan_check p) (IntegrityError ''ip_block_plans'')) (\<lambda>_.
     Inr (t\<lparr>bt_plans := update_where (\<lambda>q. pl_id q = pl_id p) (\<lambda>_. p) (bt_plans t)\<rparr>))"

definition insert_allow_row :: "block_tables \<Rightarrow> allow_row \<Rightarrow> block_tables result" where
  "insert_allow_row t e = bind_r (guard_r (read_net (al_cidr e) \<noteq> None) (IntegrityError ''cidr'')) (\<lambda>_.
     bind_r (guard_r (\<forall>f \<in> set (bt_allowlist t). al_revoked_at f = None \<longrightarrow> al_cidr f \<noteq> al_cidr e)
       (IntegrityError ''uq_ip_block_allowlist_entries_active_cidr'')) (\<lambda>_.
     Inr (t\<lparr>bt_allowlist := bt_allowlist t @ [e]\<rparr>)))"

section \<open>Operations\<close>

datatype propose_status = Created | Reused | Incident_Not_Found | No_Source_Address | Propose_Rejected

datatype decide_status = Decided_Approved | Decided_Rejected | Plan_Not_Found | Already_Decided | Plan_Expired | Same_Operator | Now_Blocked

record propose_result =
  pr_status :: propose_status
  pr_plan :: "plan_row option"
  pr_rejection_reason :: "rejection option"

record decide_result =
  dr_status :: decide_status
  dr_plan :: "plan_row option"
  dr_rejection_reason :: "rejection option"

definition extract_source_ip :: "(string \<times> json) list \<Rightarrow> string option" where
  "extract_source_ip correlation = (case obj_get correlation ''source_ip'' of
     Some (JStr v) \<Rightarrow> if v \<noteq> [] then Some v else None
   | _ \<Rightarrow> None)"

definition log_block_action ::
  "block_tables \<Rightarrow> time \<Rightarrow> principal \<Rightarrow> string \<Rightarrow> uuid \<Rightarrow> string \<Rightarrow> (string \<times> json) list \<Rightarrow> block_tables result" where
  "log_block_action t now actor action target_id request_id details =
     bind_r (record_operator_action (bt_main t) now actor action ''ip_block_plan'' target_id request_id None details)
       (\<lambda>(d, _). Inr (t\<lparr>bt_main := d\<rparr>))"

text \<open>The two ways a proposal is written: over an expired plan, or as a new row.\<close>

definition refresh_plan :: "block_tables \<Rightarrow> time \<Rightarrow> principal \<Rightarrow> string \<Rightarrow> int \<Rightarrow> string list \<Rightarrow> plan_row \<Rightarrow> (block_tables \<times> plan_row) result" where
  "refresh_plan t now actor request_id plan_ttl_seconds argv plan =
     (let p = plan\<lparr>pl_command_argv := argv, pl_proposed_by := op_operator_id actor, pl_proposed_at := now,
            pl_expires_at := now + plan_ttl_seconds * 1000000, pl_proposal_request_id := request_id\<rparr> in
      bind_r (update_plan t p) (\<lambda>t1. Inr (t1, p)))"

definition create_plan ::
  "block_tables \<Rightarrow> time \<Rightarrow> principal \<Rightarrow> string \<Rightarrow> int \<Rightarrow> string list \<Rightarrow> incident_row \<Rightarrow> string \<Rightarrow> (block_tables \<times> plan_row) result" where
  "create_plan t now actor request_id plan_ttl_seconds argv incident address =
     (let (pid, d) = uuid4 (bt_main t);
          p = \<lparr>pl_id = pid, pl_incident_id = inc_id incident, pl_server_id = inc_server_id incident, pl_ip_address = address,
            pl_status = Proposed, pl_command_argv = argv, pl_proposed_by = op_operator_id actor, pl_proposed_at = now,
            pl_expires_at = now + plan_ttl_seconds * 1000000, pl_proposal_request_id = request_id,
            pl_decided_by = None, pl_decided_at = None\<rparr> in
      bind_r (insert_plan (t\<lparr>bt_main := d\<rparr>) p) (\<lambda>t1. Inr (t1, p)))"

definition write_proposal ::
  "block_tables \<Rightarrow> time \<Rightarrow> principal \<Rightarrow> string \<Rightarrow> int \<Rightarrow> string list \<Rightarrow> incident_row \<Rightarrow> string \<Rightarrow> plan_row option
    \<Rightarrow> (block_tables \<times> plan_row) result" where
  "write_proposal t now actor request_id plan_ttl_seconds argv incident address existing = (case existing of
     Some plan \<Rightarrow> refresh_plan t now actor request_id plan_ttl_seconds argv plan
   | None \<Rightarrow> create_plan t now actor request_id plan_ttl_seconds argv incident address)"

definition plan_expired :: "time \<Rightarrow> plan_row \<Rightarrow> bool" where
  "plan_expired now plan \<longleftrightarrow> pl_expires_at plan \<le> now"

definition propose_ip_block ::
  "block_tables \<Rightarrow> time \<Rightarrow> principal \<Rightarrow> uuid \<Rightarrow> string \<Rightarrow> int \<Rightarrow> nft_names \<Rightarrow> (block_tables \<times> propose_result) result" where
  "propose_ip_block t now actor incident_id request_id plan_ttl_seconds names =
     bind_r (guard_r (1 \<le> plan_ttl_seconds) (IpBlockError ''plan TTL must be positive'')) (\<lambda>_.
     (case find_row inc_id incident_id (incidents (bt_main t)) of
        None \<Rightarrow> Inr (t, \<lparr>pr_status = Incident_Not_Found, pr_plan = None, pr_rejection_reason = None\<rparr>)
      | Some incident \<Rightarrow>
        (case extract_source_ip (inc_correlation incident) of
           None \<Rightarrow> Inr (t, \<lparr>pr_status = No_Source_Address, pr_plan = None, pr_rejection_reason = None\<rparr>)
         | Some raw \<Rightarrow>
           let decision = classify_block_target (bt_allowlist t) raw in
           (case (if td_allowed decision then td_address decision else None) of
              None \<Rightarrow> Inr (t, \<lparr>pr_status = Propose_Rejected, pr_plan = None, pr_rejection_reason = td_rejection_reason decision\<rparr>)
            | Some a \<Rightarrow>
                bind_r (build_nft_block_command names a) (\<lambda>argv.
                let existing = find_row plan_key (incident_id, show_ip a, Proposed) (bt_plans t) in
                if existing \<noteq> None \<and> \<not> plan_expired now (the existing)
                then Inr (t, \<lparr>pr_status = Reused, pr_plan = existing, pr_rejection_reason = None\<rparr>)
                else bind_r (write_proposal t now actor request_id plan_ttl_seconds argv incident (show_ip a) existing) (\<lambda>(t1, p).
                  bind_r (log_block_action t1 now actor ''ip_block_plan.proposed'' (pl_id p) request_id
                    [(''incident_id'', JStr (uuid_str incident_id)), (''ip_address'', JStr (show_ip a))]) (\<lambda>t2.
                  Inr (t2, \<lparr>pr_status = Created, pr_plan = Some p, pr_rejection_reason = None\<rparr>)))))))) "

text \<open>\<open>_decide\<close>, the flush and \<open>_record_decision_action\<close>.\<close>

definition decide_plan ::
  "block_tables \<Rightarrow> time \<Rightarrow> principal \<Rightarrow> string \<Rightarrow> plan_status \<Rightarrow> string \<Rightarrow> plan_row \<Rightarrow> (block_tables \<times> plan_row) result" where
  "decide_plan t now actor request_id status action plan =
     (let p = plan\<lparr>pl_status := status, pl_decided_by := Some (op_operator_id actor), pl_decided_at := Some now\<rparr> in
      bind_r (update_plan t p) (\<lambda>t1.
      bind_r (log_block_action t1 now actor action (pl_id p) request_id
        [(''ip_address'', JStr (pl_ip_address p)), (''proposed_by_operator_id'', JStr (uuid_str (pl_proposed_by p)))]) (\<lambda>t2.
      Inr (t2, p))))"

text \<open>The checks both decisions begin with; the plan is the one to decide.\<close>

definition live_plan :: "block_tables \<Rightarrow> time \<Rightarrow> uuid \<Rightarrow> decide_result + plan_row" where
  "live_plan t now plan_id =
     (case find_row pl_id plan_id (bt_plans t) of
        None \<Rightarrow> Inl \<lparr>dr_status = Plan_Not_Found, dr_plan = None, dr_rejection_reason = None\<rparr>
      | Some plan \<Rightarrow>
        if pl_status plan \<noteq> Proposed then Inl \<lparr>dr_status = Already_Decided, dr_plan = Some plan, dr_rejection_reason = None\<rparr>
        else if pl_expires_at plan \<le> now then Inl \<lparr>dr_status = Plan_Expired, dr_plan = Some plan, dr_rejection_reason = None\<rparr>
        else Inr plan)"

definition approve_ip_block ::
  "block_tables \<Rightarrow> time \<Rightarrow> principal \<Rightarrow> uuid \<Rightarrow> string \<Rightarrow> bool \<Rightarrow> (block_tables \<times> decide_result) result" where
  "approve_ip_block t now actor plan_id request_id require_second_operator =
     (case live_plan t now plan_id of
        Inl r \<Rightarrow> Inr (t, r)
      | Inr plan \<Rightarrow>
        if require_second_operator \<and> pl_proposed_by plan = op_operator_id actor
        then Inr (t, \<lparr>dr_status = Same_Operator, dr_plan = Some plan, dr_rejection_reason = None\<rparr>)
        else let decision = classify_block_target (bt_allowlist t) (pl_ip_address plan) in
          if \<not> td_allowed decision
          then bind_r (decide_plan t now actor request_id Rejected ''ip_block_plan.rejected'' plan) (\<lambda>(t1, p).
            Inr (t1, \<lparr>dr_status = Now_Blocked, dr_plan = Some p, dr_rejection_reason = td_rejection_reason decision\<rparr>))
          else bind_r (decide_plan t now actor request_id Approved ''ip_block_plan.approved'' plan) (\<lambda>(t1, p).
            Inr (t1, \<lparr>dr_status = Decided_Approved, dr_plan = Some p, dr_rejection_reason = None\<rparr>)))"

definition reject_ip_block ::
  "block_tables \<Rightarrow> time \<Rightarrow> principal \<Rightarrow> uuid \<Rightarrow> string \<Rightarrow> (block_tables \<times> decide_result) result" where
  "reject_ip_block t now actor plan_id request_id =
     (case live_plan t now plan_id of
        Inl r \<Rightarrow> Inr (t, r)
      | Inr plan \<Rightarrow> bind_r (decide_plan t now actor request_id Rejected ''ip_block_plan.rejected'' plan) (\<lambda>(t1, p).
          Inr (t1, \<lparr>dr_status = Decided_Rejected, dr_plan = Some p, dr_rejection_reason = None\<rparr>)))"

definition log_allowlist :: "block_tables \<Rightarrow> time \<Rightarrow> string \<Rightarrow> allow_row \<Rightarrow> block_tables result" where
  "log_allowlist t now action e =
     bind_r (record_local_cli_action (bt_main t) now action ''ip_block_allowlist_entry'' (al_id e) [(''cidr'', JStr (al_cidr e))])
       (\<lambda>(d, _). Inr (t\<lparr>bt_main := d\<rparr>))"

definition validate_cidr :: "string \<Rightarrow> string result" where
  "validate_cidr cidr = (if canonical_net cidr then Inr cidr
     else Inl (IpBlockError ''CIDR is not a valid network in strict canonical form''))"

definition add_allowlist_entry :: "block_tables \<Rightarrow> time \<Rightarrow> string \<Rightarrow> ustring \<Rightarrow> ustring \<Rightarrow> (block_tables \<times> allow_row) result" where
  "add_allowlist_entry t now cidr label reason =
     bind_r (validate_cidr cidr) (\<lambda>normalized.
     bind_r (guard_r (1 \<le> length label \<and> length label \<le> 100) (IpBlockError ''label must contain 1 to 100 characters'')) (\<lambda>_.
     bind_r (guard_r (1 \<le> length reason \<and> length reason \<le> 500) (IpBlockError ''reason must contain 1 to 500 characters'')) (\<lambda>_.
     bind_r (guard_r (\<not> list_ex (\<lambda>f. al_cidr f = normalized \<and> al_revoked_at f = None) (bt_allowlist t))
       (IpBlockError ''an active allowlist entry already covers this network'')) (\<lambda>_.
     let (eid, d) = uuid4 (bt_main t);
         e = \<lparr>al_id = eid, al_cidr = normalized, al_label = label, al_reason = reason, al_created_at = now, al_revoked_at = None\<rparr> in
     bind_r (insert_allow_row (t\<lparr>bt_main := d\<rparr>) e) (\<lambda>t1.
     bind_r (log_allowlist t1 now ''ip_block_allowlist.created'' e) (\<lambda>t2.
     Inr (t2, e)))))))"

definition revoke_allowlist_entry :: "block_tables \<Rightarrow> time \<Rightarrow> uuid \<Rightarrow> (block_tables \<times> allow_row) result" where
  "revoke_allowlist_entry t now entry_id =
     (case find_row al_id entry_id (bt_allowlist t) of
        None \<Rightarrow> Inl (IpBlockError ''allowlist entry does not exist'')
      | Some e \<Rightarrow>
        bind_r (guard_r (al_revoked_at e = None) (IpBlockError ''allowlist entry is already revoked'')) (\<lambda>_.
        let e' = e\<lparr>al_revoked_at := Some now\<rparr>;
            t1 = t\<lparr>bt_allowlist := update_where (\<lambda>f. al_id f = entry_id) (\<lambda>_. e') (bt_allowlist t)\<rparr> in
        bind_r (log_allowlist t1 now ''ip_block_allowlist.revoked'' e') (\<lambda>t2. Inr (t2, e'))))"

definition list_allowlist_entries :: "block_tables \<Rightarrow> allow_row list" where
  "list_allowlist_entries t = sort_key al_created_at (filter (\<lambda>e. al_revoked_at e = None) (bt_allowlist t))"

section \<open>The invariant\<close>

text \<open>A well-formed plan: its target passed the policy, and its decision, if any, was made in time by the right person.\<close>

definition block_target :: "ip \<Rightarrow> string \<Rightarrow> bool" where
  "block_target a raw \<longleftrightarrow> parse_canonical_address raw = Some a \<and> show_ip a = raw \<and> \<not> has_scope_id a \<and> \<not> is_ipv4_mapped a \<and> \<not> is_never_block a"

definition plan_ok :: "bool \<Rightarrow> plan_row \<Rightarrow> bool" where
  "plan_ok second p \<longleftrightarrow> plan_check p
     \<and> (\<exists>a names. block_target a (pl_ip_address p) \<and> build_nft_block_command names a = Inr (pl_command_argv p))
     \<and> (\<forall>d \<in> set_option (pl_decided_at p). d < pl_expires_at p)
     \<and> (second \<and> pl_status p = Approved \<longrightarrow> pl_decided_by p \<noteq> Some (pl_proposed_by p))"

definition open_keys :: "plan_row list \<Rightarrow> (uuid \<times> string \<times> plan_status) list" where
  "open_keys ps = map plan_key (filter (\<lambda>p. pl_status p = Proposed) ps)"

definition block_inv :: "bool \<Rightarrow> block_tables \<Rightarrow> bool" where
  "block_inv second t \<longleftrightarrow> audit_inv (bt_main t) \<and> distinct (map pl_id (bt_plans t)) \<and> distinct (open_keys (bt_plans t))
     \<and> (\<forall>p \<in> set (bt_plans t). pl_id p < next_uuid (bt_main t) \<and> plan_ok second p)"

text \<open>What never changes: a plan that was decided.\<close>

definition decisions_kept :: "block_tables \<Rightarrow> block_tables \<Rightarrow> bool" where
  "decisions_kept t t' \<longleftrightarrow> (\<forall>p \<in> set (bt_plans t). pl_status p \<noteq> Proposed \<longrightarrow> p \<in> set (bt_plans t'))"

definition block_change :: "bool \<Rightarrow> block_tables \<Rightarrow> block_tables \<Rightarrow> bool" where
  "block_change second t t' \<longleftrightarrow> block_inv second t' \<and> decisions_kept t t'"

lemma decisions_kept_refl [simp]: "decisions_kept t t"
  by (simp add: decisions_kept_def)

lemma decisions_kept_trans: "decisions_kept a b \<Longrightarrow> decisions_kept b c \<Longrightarrow> decisions_kept a c"
  by (simp add: decisions_kept_def)

lemma block_change_trans: "block_change second a b \<Longrightarrow> block_change second b c \<Longrightarrow> block_change second a c"
  unfolding block_change_def by (blast intro: decisions_kept_trans)

lemma block_main_change:
  assumes "block_inv second t" "audit_inv d" "next_uuid (bt_main t) \<le> next_uuid d" "bt_plans t' = bt_plans t" "bt_main t' = d"
  shows "block_change second t t'"
  using assms by (auto simp: block_change_def block_inv_def decisions_kept_def intro: less_le_trans)

lemma log_block_action_change:
  assumes "log_block_action t now actor action target_id request_id details = Inr t'" "block_inv second t"
  shows "block_change second t t'" "bt_plans t' = bt_plans t" "bt_allowlist t' = bt_allowlist t"
proof -
  from assms(1) obtain d e where r: "record_operator_action (bt_main t) now actor action ''ip_block_plan'' target_id request_id None details = Inr (d, e)"
    "t' = t\<lparr>bt_main := d\<rparr>" by (auto simp: log_block_action_def bind_r_eq_Inr)
  note l = record_operator_action_Inr [OF r(1)]
  have "audit_inv (logged (bt_main t) e)" using assms(2) l by (intro audit_inv_logged) (auto simp: block_inv_def)
  with block_main_change [OF assms(2), of d t'] l(1) show "block_change second t t'" by (simp add: r(2))
qed (use assms(1) in \<open>auto simp: log_block_action_def bind_r_eq_Inr\<close>)

lemma log_allowlist_change:
  assumes "log_allowlist t now action e = Inr t'" "block_inv second t"
  shows "block_change second t t'"
proof -
  from assms(1) obtain d x where r: "record_local_cli_action (bt_main t) now action ''ip_block_allowlist_entry'' (al_id e)
      [(''cidr'', JStr (al_cidr e))] = Inr (d, x)" "t' = t\<lparr>bt_main := d\<rparr>"
    by (auto simp: log_allowlist_def bind_r_eq_Inr)
  note l = record_local_cli_action_Inr [OF r(1)]
  have "audit_inv (logged (bt_main t) x)" using assms(2) l by (intro audit_inv_logged) (auto simp: block_inv_def)
  with block_main_change [OF assms(2), of d t'] l(1) show ?thesis by (simp add: r(2))
qed

lemma insert_plan_change:
  assumes "insert_plan t p = Inr t'" "block_inv second t" "plan_ok second p" "pl_status p = Proposed"
    "pl_id p < next_uuid (bt_main t)" "pl_id p \<notin> pl_id ` set (bt_plans t)"
  shows "block_change second t t'" "t' = t\<lparr>bt_plans := bt_plans t @ [p]\<rparr>"
proof -
  from assms(1,4) have 1: "plan_key p \<notin> plan_key ` set (bt_plans t)" "t' = t\<lparr>bt_plans := bt_plans t @ [p]\<rparr>"
    by (auto simp: insert_plan_def bind_r_eq_Inr)
  then have "plan_key p \<notin> set (open_keys (bt_plans t))" by (auto simp: open_keys_def)
  with assms 1(2) show "block_change second t t'"
    by (auto simp: block_change_def block_inv_def decisions_kept_def open_keys_def)
  show "t' = t\<lparr>bt_plans := bt_plans t @ [p]\<rparr>" by (rule 1(2))
qed

text \<open>Replacing an open plan by a refreshed or decided version of it.\<close>

lemma open_keys_Cons: "open_keys (q # qs) = (if pl_status q = Proposed then [plan_key q] else []) @ open_keys qs"
  by (simp add: open_keys_def)

lemma open_keys_replace:
  assumes "distinct (map pl_id ps)" "distinct (open_keys ps)" "plan \<in> set ps" "pl_status plan = Proposed" "pl_id p = pl_id plan"
    "pl_status p = Proposed \<longrightarrow> plan_key p = plan_key plan"
  shows "distinct (open_keys (update_where (\<lambda>q. pl_id q = pl_id p) (\<lambda>_. p) ps))
    \<and> set (open_keys (update_where (\<lambda>q. pl_id q = pl_id p) (\<lambda>_. p) ps)) \<subseteq> set (open_keys ps)"
  using assms(1-3)
proof (induction ps)
  case (Cons q qs)
  let ?u = "update_where (\<lambda>q. pl_id q = pl_id p) (\<lambda>_. p)"
  show ?case
  proof (cases "q = plan")
    case True
    with Cons.prems assms(5) have "?u qs = qs" by (intro update_where_none) (auto simp: rev_image_eqI)
    with True Cons.prems assms(4-6) show ?thesis by (auto simp: open_keys_Cons)
  next
    case False
    with Cons.prems assms(5) have q: "plan \<in> set qs" "pl_id q \<noteq> pl_id p" by (auto simp: image_iff)
    have "distinct (map pl_id qs)" "distinct (open_keys qs)" using Cons.prems by (simp_all add: open_keys_Cons split: if_splits)
    note IH = Cons.IH [OF this q(1)]
    have "plan_key q \<notin> set (open_keys qs)" if "pl_status q = Proposed" using Cons.prems(2) that by (simp add: open_keys_Cons)
    with IH q(2) show ?thesis by (auto simp: open_keys_Cons)
  qed
qed simp

lemma update_plan_change:
  assumes "update_plan t p = Inr t'" "block_inv second t" "plan_ok second p" "plan \<in> set (bt_plans t)" "pl_status plan = Proposed"
    "pl_id p = pl_id plan" "pl_status p = Proposed \<longrightarrow> plan_key p = plan_key plan"
  shows "block_change second t t'" "t' = t\<lparr>bt_plans := update_where (\<lambda>q. pl_id q = pl_id p) (\<lambda>_. p) (bt_plans t)\<rparr>"
proof -
  let ?ps = "update_where (\<lambda>q. pl_id q = pl_id p) (\<lambda>_. p) (bt_plans t)"
  from assms(1) show t': "t' = t\<lparr>bt_plans := ?ps\<rparr>" by (auto simp: update_plan_def bind_r_eq_Inr)
  have d: "distinct (map pl_id (bt_plans t))" "distinct (open_keys (bt_plans t))" using assms(2) by (simp_all add: block_inv_def)
  have "map pl_id ?ps = map pl_id (bt_plans t)" by (rule map_update_where) simp
  moreover have "distinct (open_keys ?ps)" using open_keys_replace [OF d assms(4-7)] by simp
  moreover have "\<forall>q \<in> set ?ps. pl_id q < next_uuid (bt_main t) \<and> plan_ok second q"
    using assms(2,3,4,6) by (auto simp: set_update_where block_inv_def)
  ultimately have "block_inv second t'" using assms(2) by (simp add: block_inv_def t')
  moreover have "q \<in> set ?ps" if "q \<in> set (bt_plans t)" "pl_status q \<noteq> Proposed" for q
  proof -
    have "q \<noteq> plan" using that(2) assms(5) by auto
    then have "pl_id q \<noteq> pl_id p" using key_inj_rows [OF d(1) that(1) assms(4)] assms(6) by auto
    with that(1) show ?thesis by (auto simp: set_update_where)
  qed
  ultimately show "block_change second t t'" by (simp add: block_change_def decisions_kept_def t')
qed

section \<open>The operations\<close>

lemma classify_allowed:
  assumes "td_allowed (classify_block_target entries raw)"
  shows "\<exists>a. td_address (classify_block_target entries raw) = Some a \<and> block_target a raw \<and> \<not> is_allowlisted entries a"
  using assms
  by (auto simp: classify_block_target_def block_target_def parse_canonical_address_def split: option.splits if_splits)

lemma build_command_refl: "build_nft_block_command names a = Inr argv \<Longrightarrow> \<exists>names. build_nft_block_command names a = Inr argv"
  by blast

lemma refresh_plan_change:
  assumes "refresh_plan t now actor request_id ttl argv plan = Inr (t', p)" "block_inv second t"
    "find_row plan_key (incident_id, address, Proposed) (bt_plans t) = Some plan"
    "block_target a address" "build_nft_block_command names a = Inr argv"
  shows "block_change second t t'"
proof -
  from assms(1) have p: "update_plan t p = Inr t'" "p = plan\<lparr>pl_command_argv := argv, pl_proposed_by := op_operator_id actor,
      pl_proposed_at := now, pl_expires_at := now + ttl * 1000000, pl_proposal_request_id := request_id\<rparr>"
    by (auto simp: refresh_plan_def bind_r_eq_Inr Let_def)
  from find_row_SomeD [OF assms(3)] have plan: "plan \<in> set (bt_plans t)" "pl_status plan = Proposed" "pl_ip_address plan = address"
    by (auto simp: plan_key_def)
  then have "plan_check plan" using assms(2) by (auto simp: block_inv_def plan_ok_def)
  moreover have "plan_check p" using p(1) by (simp add: update_plan_def bind_r_eq_Inr)
  ultimately have "plan_ok second p" using plan assms(4,5) by (auto simp: plan_ok_def p(2) plan_check_def)
  then show ?thesis by (rule update_plan_change [OF p(1) assms(2) _ plan(1,2)]) (simp_all add: p(2) plan_key_def)
qed

lemma create_plan_change:
  assumes "create_plan t now actor request_id ttl argv incident address = Inr (t', p)" "block_inv second t"
    "block_target a address" "build_nft_block_command names a = Inr argv"
  shows "block_change second t t'"
proof -
  let ?t0 = "t\<lparr>bt_main := (bt_main t)\<lparr>next_uuid := Suc (next_uuid (bt_main t))\<rparr>\<rparr>"
  from assms(1) have p: "insert_plan ?t0 p = Inr t'" "p = \<lparr>pl_id = next_uuid (bt_main t), pl_incident_id = inc_id incident,
      pl_server_id = inc_server_id incident, pl_ip_address = address, pl_status = Proposed, pl_command_argv = argv,
      pl_proposed_by = op_operator_id actor, pl_proposed_at = now, pl_expires_at = now + ttl * 1000000,
      pl_proposal_request_id = request_id, pl_decided_by = None, pl_decided_at = None\<rparr>"
    by (auto simp: create_plan_def bind_r_eq_Inr Let_def uuid4_def)
  have "audit_inv (bt_main t)" using assms(2) by (simp only: block_inv_def)
  then have "audit_inv ((bt_main t)\<lparr>next_uuid := Suc (next_uuid (bt_main t))\<rparr>)" by (rule audit_inv_cong [rotated 3]) simp_all
  then have c0: "block_change second t ?t0" by (rule block_main_change [OF assms(2)]) simp_all
  have "plan_check p" using p(1) by (auto simp: insert_plan_def bind_r_eq_Inr)
  then have "plan_ok second p" using assms(3,4) by (auto simp: plan_ok_def p(2))
  moreover have "pl_id p \<notin> pl_id ` set (bt_plans ?t0)" using assms(2) by (auto simp: p(2) block_inv_def)
  ultimately have "block_change second ?t0 t'"
    using insert_plan_change(1) [OF p(1), of second] c0 by (simp add: block_change_def p(2))
  with c0 show ?thesis by (rule block_change_trans)
qed

lemma propose_change:
  assumes "propose_ip_block t now actor incident_id request_id ttl names = Inr (t', r)" "block_inv second t"
  shows "block_change second t t'"
proof (cases "t' = t")
  case True
  with assms(2) show ?thesis by (simp add: block_change_def)
next
  case False
  let ?existing = "\<lambda>a. find_row plan_key (incident_id, show_ip a, Proposed) (bt_plans t)"
  from assms(1) False obtain incident raw a argv t1 p where
    1: "td_allowed (classify_block_target (bt_allowlist t) raw)" "td_address (classify_block_target (bt_allowlist t) raw) = Some a"
      "build_nft_block_command names a = Inr argv"
      "write_proposal t now actor request_id ttl argv incident (show_ip a) (?existing a) = Inr (t1, p)"
      "log_block_action t1 now actor ''ip_block_plan.proposed'' (pl_id p) request_id
         [(''incident_id'', JStr (uuid_str incident_id)), (''ip_address'', JStr (show_ip a))] = Inr t'"
    unfolding propose_ip_block_def Let_def bind_r_eq_Inr guard_r_eq_Inr
    by (elim exE conjE) (auto simp: bind_r_eq_Inr split: option.split_asm if_split_asm)
  obtain "raw = show_ip a" "block_target a raw" using classify_allowed [OF 1(1)] 1(2) by (auto simp: block_target_def)
  then have target: "block_target a (show_ip a)" by simp
  have "block_change second t t1"
  proof (cases "?existing a")
    case None
    with 1(4) create_plan_change [OF _ assms(2) target 1(3)] show ?thesis by (simp add: write_proposal_def)
  next
    case (Some plan)
    with 1(4) refresh_plan_change [OF _ assms(2) Some target 1(3)] show ?thesis by (simp add: write_proposal_def)
  qed
  moreover from this log_block_action_change(1) [OF 1(5), of second] have "block_change second t1 t'" by (simp add: block_change_def)
  ultimately show ?thesis by (rule block_change_trans)
qed

lemma live_plan_Inr:
  "live_plan t now plan_id = Inr plan \<longleftrightarrow> find_row pl_id plan_id (bt_plans t) = Some plan \<and> pl_status plan = Proposed \<and> now < pl_expires_at plan"
  by (auto simp: live_plan_def split: option.splits)

lemma decide_plan_change:
  assumes "decide_plan t now actor request_id status action plan = Inr (t', p)" "block_inv second t" "live_plan t now plan_id = Inr plan"
    "status \<noteq> Proposed" "second \<and> status = Approved \<longrightarrow> pl_proposed_by plan \<noteq> op_operator_id actor"
  shows "block_change second t t'"
    "p = plan\<lparr>pl_status := status, pl_decided_by := Some (op_operator_id actor), pl_decided_at := Some now\<rparr>"
    "bt_plans t' = update_where (\<lambda>q. pl_id q = plan_id) (\<lambda>_. p) (bt_plans t)" "bt_allowlist t' = bt_allowlist t"
proof -
  from assms(1) show p: "p = plan\<lparr>pl_status := status, pl_decided_by := Some (op_operator_id actor), pl_decided_at := Some now\<rparr>"
    by (auto simp: decide_plan_def bind_r_eq_Inr Let_def)
  from assms(1) obtain t1 where 1: "update_plan t p = Inr t1"
    "log_block_action t1 now actor action (pl_id p) request_id
        [(''ip_address'', JStr (pl_ip_address p)), (''proposed_by_operator_id'', JStr (uuid_str (pl_proposed_by p)))] = Inr t'"
    by (auto simp: decide_plan_def bind_r_eq_Inr Let_def)
  from assms(3) have plan: "plan \<in> set (bt_plans t)" "pl_id plan = plan_id" "pl_status plan = Proposed" "now < pl_expires_at plan"
    by (auto simp: live_plan_Inr dest: find_row_SomeD)
  have "plan_ok second plan" using assms(2) plan(1) by (simp add: block_inv_def)
  then have "plan_ok second p" using plan assms(4,5) by (auto simp: plan_ok_def plan_check_def p)
  note u = update_plan_change [OF 1(1) assms(2) this plan(1,3)]
  have c: "block_change second t t1" "t1 = t\<lparr>bt_plans := update_where (\<lambda>q. pl_id q = pl_id p) (\<lambda>_. p) (bt_plans t)\<rparr>"
    using u assms(4) by (simp_all add: p)
  then have "block_inv second t1" by (simp add: block_change_def)
  note l = log_block_action_change [OF 1(2) this]
  show "block_change second t t'" using c(1) l(1) by (rule block_change_trans)
  show "bt_plans t' = update_where (\<lambda>q. pl_id q = plan_id) (\<lambda>_. p) (bt_plans t)" "bt_allowlist t' = bt_allowlist t"
    using c(2) plan(2) by (simp_all add: l) (simp add: p)
qed

lemma approve_change:
  assumes "approve_ip_block t now actor plan_id request_id second = Inr (t', r)" "block_inv second t"
  shows "block_change second t t'"
proof (cases "t' = t")
  case True
  with assms(2) show ?thesis by (simp add: block_change_def)
next
  case False
  with assms(1) obtain plan p status action where 1: "live_plan t now plan_id = Inr plan" "\<not> (second \<and> pl_proposed_by plan = op_operator_id actor)"
    "decide_plan t now actor request_id status action plan = Inr (t', p)" "status = Approved \<or> status = Rejected"
    by (auto simp: approve_ip_block_def bind_r_eq_Inr Let_def split: sum.split_asm if_split_asm)
  show ?thesis by (rule decide_plan_change(1) [OF 1(3) assms(2) 1(1)]) (use 1 in auto)
qed

lemma reject_change:
  assumes "reject_ip_block t now actor plan_id request_id = Inr (t', r)" "block_inv second t"
  shows "block_change second t t'"
proof (cases "t' = t")
  case True
  with assms(2) show ?thesis by (simp add: block_change_def)
next
  case False
  with assms(1) obtain plan p where 1: "live_plan t now plan_id = Inr plan"
    "decide_plan t now actor request_id Rejected ''ip_block_plan.rejected'' plan = Inr (t', p)"
    by (auto simp: reject_ip_block_def bind_r_eq_Inr split: sum.split_asm)
  show ?thesis by (rule decide_plan_change(1) [OF 1(2) assms(2) 1(1)]) simp_all
qed

lemma add_allowlist_change:
  assumes "add_allowlist_entry t now cidr label reason = Inr (t', e)" "block_inv second t"
  shows "block_change second t t'"
proof -
  let ?d = "(bt_main t)\<lparr>next_uuid := Suc (next_uuid (bt_main t))\<rparr>"
  from assms(1) obtain t1 where 1: "insert_allow_row (t\<lparr>bt_main := ?d\<rparr>) e = Inr t1"
    "log_allowlist t1 now ''ip_block_allowlist.created'' e = Inr t'"
    by (auto simp: add_allowlist_entry_def bind_r_eq_Inr Let_def uuid4_def)
  have "audit_inv (bt_main t)" using assms(2) by (simp only: block_inv_def)
  then have "audit_inv ?d" by (rule audit_inv_cong [rotated 3]) simp_all
  then have c: "block_change second t t1"
    by (rule block_main_change [OF assms(2)]) (use 1(1) in \<open>auto simp: insert_allow_row_def bind_r_eq_Inr\<close>)
  moreover from this have "block_change second t1 t'" using log_allowlist_change [OF 1(2), of second] by (simp add: block_change_def)
  ultimately show ?thesis by (rule block_change_trans)
qed

lemma revoke_allowlist_change:
  assumes "revoke_allowlist_entry t now entry_id = Inr (t', e)" "block_inv second t"
  shows "block_change second t t'"
proof -
  from assms(1) obtain as x where "log_allowlist (t\<lparr>bt_allowlist := as\<rparr>) now ''ip_block_allowlist.revoked'' x = Inr t'"
    by (auto simp: revoke_allowlist_entry_def bind_r_eq_Inr Let_def split: option.split_asm)
  moreover have "block_inv second (t\<lparr>bt_allowlist := as\<rparr>)" using assms(2) by (simp add: block_inv_def)
  ultimately have "block_change second (t\<lparr>bt_allowlist := as\<rparr>) t'" by (rule log_allowlist_change)
  then show ?thesis by (simp add: block_change_def decisions_kept_def)
qed

inductive block_step :: "bool \<Rightarrow> block_tables \<Rightarrow> block_tables \<Rightarrow> bool" for second where
  step_propose: "propose_ip_block t now actor incident_id request_id ttl names = Inr (t', r) \<Longrightarrow> block_step second t t'"
| step_approve: "approve_ip_block t now actor plan_id request_id second = Inr (t', r') \<Longrightarrow> block_step second t t'"
| step_reject: "reject_ip_block t now actor plan_id request_id = Inr (t', r') \<Longrightarrow> block_step second t t'"
| step_allow: "add_allowlist_entry t now cidr label reason = Inr (t', e) \<Longrightarrow> block_step second t t'"
| step_disallow: "revoke_allowlist_entry t now entry_id = Inr (t', e) \<Longrightarrow> block_step second t t'"
| step_other: "audit_inv d \<Longrightarrow> next_uuid (bt_main t) \<le> next_uuid d \<Longrightarrow> block_step second t (t\<lparr>bt_main := d\<rparr>)"

inductive_cases block_stepE: "block_step second t t'"

interpretation blocks: forward_system "block_step second" "block_inv second" decisions_kept for second
proof unfold_locales
  fix t t'
  assume *: "block_inv second t" "block_step second t t'"
  from *(2) have "block_change second t t'"
    by (cases rule: block_stepE)
      (auto intro: propose_change approve_change reject_change add_allowlist_change revoke_allowlist_change block_main_change *(1))
  then show "block_inv second t'" "decisions_kept t t'" by (simp_all add: block_change_def)
qed (auto intro: decisions_kept_trans)

lemma registry_plan_decided:
  "map_of audit_registry ''ip_block_plan.approved'' = Some (operator_spec ''ip_block_plan''
     [(''ip_address'', T_Ip_Address), (''proposed_by_operator_id'', T_Uuid)] all_auth_methods)"
  "map_of audit_registry ''ip_block_plan.rejected'' = Some (operator_spec ''ip_block_plan''
     [(''ip_address'', T_Ip_Address), (''proposed_by_operator_id'', T_Uuid)] all_auth_methods)"
  by (simp_all add: audit_registry_def)

text \<open>A decision on a live plan always goes through.\<close>

lemma block_target_read: "block_target a raw \<Longrightarrow> read_ip raw = Some a"
  by (auto simp: block_target_def parse_canonical_address_def split: if_splits)

lemma decide_plan_succeeds:
  assumes "block_inv second t" "live_plan t now plan_id = Inr plan" "status \<noteq> Proposed"
    "action = ''ip_block_plan.approved'' \<or> action = ''ip_block_plan.rejected''"
  shows "\<exists>t' p e. decide_plan t now actor request_id status action plan = Inr (t', p)
    \<and> p = plan\<lparr>pl_status := status, pl_decided_by := Some (op_operator_id actor), pl_decided_at := Some now\<rparr>
    \<and> t' = t\<lparr>bt_plans := update_where (\<lambda>q. pl_id q = plan_id) (\<lambda>_. p) (bt_plans t), bt_main := logged (bt_main t) e\<rparr>
    \<and> au_action e = action \<and> au_target_id e = plan_id \<and> au_operator_id e = Some (op_operator_id actor)"
proof -
  let ?p = "plan\<lparr>pl_status := status, pl_decided_by := Some (op_operator_id actor), pl_decided_at := Some now\<rparr>"
  let ?t1 = "t\<lparr>bt_plans := update_where (\<lambda>q. pl_id q = plan_id) (\<lambda>_. ?p) (bt_plans t)\<rparr>"
  from assms(2) have plan: "plan \<in> set (bt_plans t)" "pl_id plan = plan_id" by (auto simp: live_plan_Inr dest: find_row_SomeD)
  have ok: "plan_ok second plan" using assms(1) plan(1) by (simp add: block_inv_def)
  then have "plan_check ?p" using assms(3) by (auto simp: plan_ok_def plan_check_def split: if_splits)
  then have up: "update_plan t ?p = Inr ?t1" using plan(2) by (simp add: update_plan_def)
  from ok obtain a where a: "block_target a (pl_ip_address plan)" by (auto simp: plan_ok_def)
  from block_target_read [OF a] a have ip: "canonical_audit_ip (pl_ip_address plan)" by (simp add: canonical_audit_ip_def block_target_def)
  obtain d e where rec: "record_operator_action (bt_main t) now actor action ''ip_block_plan'' plan_id request_id None
      [(''ip_address'', JStr (pl_ip_address plan)), (''proposed_by_operator_id'', JStr (uuid_str (pl_proposed_by plan)))] = Inr (d, e)"
    using assms(4) ip
    by (auto simp: record_operator_action_def validate_audit_action_def registry_plan_decided operator_spec_def obj_get_def
        checked_text_def history_reference_ok_def forbidden_fields_def casefold_def is_upper_def uuid4_def Let_def)
  note l = record_operator_action_Inr [OF rec]
  have "decide_plan t now actor request_id status action plan = Inr (?t1\<lparr>bt_main := d\<rparr>, ?p)"
    using up rec plan(2) by (simp add: decide_plan_def log_block_action_def Let_def)
  with l show ?thesis by (intro exI [of _ "?t1\<lparr>bt_main := d\<rparr>"] exI [of _ ?p] exI [of _ e]) simp
qed

text \<open>The approval of a live plan by somebody who may approve it.\<close>

lemma approve_live_plan:
  assumes "block_inv second t" "live_plan t now plan_id = Inr plan" "\<not> (second \<and> pl_proposed_by plan = op_operator_id actor)"
  shows "\<exists>a p e. block_target a (pl_ip_address plan)
    \<and> p = plan\<lparr>pl_status := (if is_allowlisted (bt_allowlist t) a then Rejected else Approved),
        pl_decided_by := Some (op_operator_id actor), pl_decided_at := Some now\<rparr>
    \<and> au_action e = (if is_allowlisted (bt_allowlist t) a then ''ip_block_plan.rejected'' else ''ip_block_plan.approved'')
    \<and> au_target_id e = plan_id \<and> au_operator_id e = Some (op_operator_id actor)
    \<and> approve_ip_block t now actor plan_id request_id second
      = Inr (t\<lparr>bt_plans := update_where (\<lambda>q. pl_id q = plan_id) (\<lambda>_. p) (bt_plans t), bt_main := logged (bt_main t) e\<rparr>,
          if is_allowlisted (bt_allowlist t) a
          then \<lparr>dr_status = Now_Blocked, dr_plan = Some p, dr_rejection_reason = Some Allowlisted\<rparr>
          else \<lparr>dr_status = Decided_Approved, dr_plan = Some p, dr_rejection_reason = None\<rparr>)"
proof -
  have "plan_ok second plan" using assms(1,2) by (auto simp: block_inv_def live_plan_Inr dest: find_row_SomeD)
  then obtain a where a: "block_target a (pl_ip_address plan)" by (auto simp: plan_ok_def)
  have verdict: "classify_block_target (bt_allowlist t) (pl_ip_address plan) = (if is_allowlisted (bt_allowlist t) a
      then \<lparr>td_allowed = False, td_address = Some a, td_rejection_reason = Some Allowlisted\<rparr>
      else \<lparr>td_allowed = True, td_address = Some a, td_rejection_reason = None\<rparr>)"
    using a by (simp add: classify_block_target_def block_target_def)
  let ?b = "is_allowlisted (bt_allowlist t) a"
  let ?st = "if ?b then Rejected else Approved" and ?act = "if ?b then ''ip_block_plan.rejected'' else ''ip_block_plan.approved''"
  have st: "?st \<noteq> Proposed" "?act = ''ip_block_plan.approved'' \<or> ?act = ''ip_block_plan.rejected''" by simp_all
  obtain t' p e where d: "decide_plan t now actor request_id ?st ?act plan = Inr (t', p)"
    "p = plan\<lparr>pl_status := ?st, pl_decided_by := Some (op_operator_id actor), pl_decided_at := Some now\<rparr>"
    "t' = t\<lparr>bt_plans := update_where (\<lambda>q. pl_id q = plan_id) (\<lambda>_. p) (bt_plans t), bt_main := logged (bt_main t) e\<rparr>"
    "au_action e = ?act" "au_target_id e = plan_id" "au_operator_id e = Some (op_operator_id actor)"
    using decide_plan_succeeds [OF assms(1,2) st, of actor request_id] by blast
  have "approve_ip_block t now actor plan_id request_id second = Inr (t',
      if ?b then \<lparr>dr_status = Now_Blocked, dr_plan = Some p, dr_rejection_reason = Some Allowlisted\<rparr>
      else \<lparr>dr_status = Decided_Approved, dr_plan = Some p, dr_rejection_reason = None\<rparr>)"
    using assms(2,3) verdict d(1) by (cases ?b) (simp_all add: approve_ip_block_def)
  with a d(2-6) show ?thesis by (intro exI [of _ a] exI [of _ p] exI [of _ e]) simp
qed

section \<open>Properties\<close>

text \<open>C3: No operator alone can approve a block, and nothing that must never be blocked is ever approved. Start
  without plans and let proposals, approvals, rejections and allowlist changes happen in any order, with the
  second operator required: every approved plan was decided by somebody other than its proposer, before it
  expired; its address is in canonical form, unscoped, not IPv4-mapped and outside every never-block range;
  and the command it shows is the fixed nft command for exactly that address. A decided plan never changes
  again.\<close>

theorem approved_blocks_are_safe:
  assumes "bt_plans t0 = []" "audit_inv (bt_main t0)" "(block_step True)\<^sup>*\<^sup>* t0 t" "p \<in> set (bt_plans t)"
  shows "(pl_status p = Approved \<longrightarrow> (\<exists>o1 d a names. pl_decided_by p = Some o1 \<and> o1 \<noteq> pl_proposed_by p
      \<and> pl_decided_at p = Some d \<and> d < pl_expires_at p
      \<and> read_ip (pl_ip_address p) = Some a \<and> show_ip a = pl_ip_address p \<and> \<not> has_scope_id a \<and> \<not> is_ipv4_mapped a
      \<and> \<not> is_never_block a \<and> build_nft_block_command names a = Inr (pl_command_argv p)))
    \<and> (pl_status p \<noteq> Proposed \<longrightarrow> (\<forall>t'. (block_step True)\<^sup>*\<^sup>* t t' \<longrightarrow> p \<in> set (bt_plans t')))"
proof -
  have "block_inv True t0" using assms(1,2) by (simp add: block_inv_def open_keys_def)
  from blocks.ok_steps [OF assms(3) this] have inv: "block_inv True t" .
  with assms(4) have ok: "plan_ok True p" by (simp add: block_inv_def)
  then obtain a names where a: "block_target a (pl_ip_address p)" "build_nft_block_command names a = Inr (pl_command_argv p)"
    by (auto simp: plan_ok_def)
  have "\<exists>o1 d. pl_decided_by p = Some o1 \<and> o1 \<noteq> pl_proposed_by p \<and> pl_decided_at p = Some d \<and> d < pl_expires_at p"
    if "pl_status p = Approved"
    using ok that by (auto simp: plan_ok_def plan_check_def)
  with a block_target_read [OF a(1)] have "pl_status p = Approved \<longrightarrow> (\<exists>o1 d a names. pl_decided_by p = Some o1 \<and> o1 \<noteq> pl_proposed_by p
      \<and> pl_decided_at p = Some d \<and> d < pl_expires_at p
      \<and> read_ip (pl_ip_address p) = Some a \<and> show_ip a = pl_ip_address p \<and> \<not> has_scope_id a \<and> \<not> is_ipv4_mapped a
      \<and> \<not> is_never_block a \<and> build_nft_block_command names a = Inr (pl_command_argv p))"
    unfolding block_target_def by metis
  moreover have "p \<in> set (bt_plans t')" if "(block_step True)\<^sup>*\<^sup>* t t'" "pl_status p \<noteq> Proposed" for t'
    using blocks.later_steps [OF that(1) inv] that(2) assms(4) by (simp add: decisions_kept_def)
  ultimately show ?thesis by blast
qed

text \<open>C37: An approval re-checks everything at the moment it is made. An unknown, decided or expired plan and,
  where a second operator is required, an approval by the proposer are answered as such and change nothing.
  Every other approval decides the plan and writes one audit record: it is approved, unless the allowlist by
  now covers the address, in which case it is rejected for that reason. No other outcome exists.\<close>

theorem approval_rechecks_the_allowlist:
  assumes "block_inv second t"
  shows "case find_row pl_id plan_id (bt_plans t) of
      None \<Rightarrow> approve_ip_block t now actor plan_id request_id second
        = Inr (t, \<lparr>dr_status = Plan_Not_Found, dr_plan = None, dr_rejection_reason = None\<rparr>)
    | Some plan \<Rightarrow>
        if pl_status plan \<noteq> Proposed then approve_ip_block t now actor plan_id request_id second
          = Inr (t, \<lparr>dr_status = Already_Decided, dr_plan = Some plan, dr_rejection_reason = None\<rparr>)
        else if pl_expires_at plan \<le> now then approve_ip_block t now actor plan_id request_id second
          = Inr (t, \<lparr>dr_status = Plan_Expired, dr_plan = Some plan, dr_rejection_reason = None\<rparr>)
        else if second \<and> pl_proposed_by plan = op_operator_id actor then approve_ip_block t now actor plan_id request_id second
          = Inr (t, \<lparr>dr_status = Same_Operator, dr_plan = Some plan, dr_rejection_reason = None\<rparr>)
        else (\<exists>a p e. read_ip (pl_ip_address plan) = Some a
          \<and> p = plan\<lparr>pl_status := (if is_allowlisted (bt_allowlist t) a then Rejected else Approved),
              pl_decided_by := Some (op_operator_id actor), pl_decided_at := Some now\<rparr>
          \<and> au_action e = (if is_allowlisted (bt_allowlist t) a then ''ip_block_plan.rejected'' else ''ip_block_plan.approved'')
          \<and> au_target_id e = plan_id \<and> au_operator_id e = Some (op_operator_id actor)
          \<and> approve_ip_block t now actor plan_id request_id second
            = Inr (t\<lparr>bt_plans := update_where (\<lambda>q. pl_id q = plan_id) (\<lambda>_. p) (bt_plans t), bt_main := logged (bt_main t) e\<rparr>,
                if is_allowlisted (bt_allowlist t) a
                then \<lparr>dr_status = Now_Blocked, dr_plan = Some p, dr_rejection_reason = Some Allowlisted\<rparr>
                else \<lparr>dr_status = Decided_Approved, dr_plan = Some p, dr_rejection_reason = None\<rparr>))"
proof (cases "live_plan t now plan_id")
  case (Inl r)
  then have "approve_ip_block t now actor plan_id request_id second = Inr (t, r)" by (simp add: approve_ip_block_def)
  with Inl show ?thesis by (auto simp: live_plan_def split: option.splits if_splits)
next
  case (Inr plan)
  then have plan: "find_row pl_id plan_id (bt_plans t) = Some plan" "pl_status plan = Proposed" "now < pl_expires_at plan"
    by (simp_all add: live_plan_Inr)
  show ?thesis
  proof (cases "second \<and> pl_proposed_by plan = op_operator_id actor")
    case True
    with plan Inr show ?thesis by (simp add: approve_ip_block_def)
  next
    case False
    have *: "(pl_expires_at plan \<le> now) = False" "(second \<and> pl_proposed_by plan = op_operator_id actor) = False"
      using plan(3) False by simp_all
    from approve_live_plan [OF assms Inr False, of request_id] obtain a p e where r: "block_target a (pl_ip_address plan)"
      "p = plan\<lparr>pl_status := (if is_allowlisted (bt_allowlist t) a then Rejected else Approved),
          pl_decided_by := Some (op_operator_id actor), pl_decided_at := Some now\<rparr>"
      "au_action e = (if is_allowlisted (bt_allowlist t) a then ''ip_block_plan.rejected'' else ''ip_block_plan.approved'')"
      "au_target_id e = plan_id" "au_operator_id e = Some (op_operator_id actor)"
      "approve_ip_block t now actor plan_id request_id second
        = Inr (t\<lparr>bt_plans := update_where (\<lambda>q. pl_id q = plan_id) (\<lambda>_. p) (bt_plans t), bt_main := logged (bt_main t) e\<rparr>,
            if is_allowlisted (bt_allowlist t) a
            then \<lparr>dr_status = Now_Blocked, dr_plan = Some p, dr_rejection_reason = Some Allowlisted\<rparr>
            else \<lparr>dr_status = Decided_Approved, dr_plan = Some p, dr_rejection_reason = None\<rparr>)" by blast
    show ?thesis
      by (simp only: plan option.case * simp_thms if_False, intro exI conjI)
        (rule block_target_read [OF r(1)] r(2-6))+
  qed
qed

subsection \<open>A concrete run\<close>

definition attack_ip :: ip where
  "attack_ip = V4 0x5db8d822"

definition attack_incident :: incident_row where
  "attack_incident = \<lparr>inc_id = 7, inc_server_id = 2, inc_rule_version_id = 3, inc_rule_key = ''ssh_bruteforce'', inc_rule_version = 1,
     inc_severity = High, inc_status = New, inc_title = [116], inc_explanation = [101], inc_recommendation = [114],
     inc_title_en = None, inc_explanation_en = None, inc_recommendation_en = None,
     inc_correlation = [(''source_ip'', JStr (show_ip attack_ip))], inc_correlation_hash = [], inc_rule_snapshot = JNull,
     inc_first_seen_at = 0, inc_last_seen_at = 0, inc_event_count = 5, inc_lock_version = 1, inc_created_at = 0, inc_updated_at = 0\<rparr>"

definition sample_tables :: block_tables where
  "sample_tables = \<lparr>bt_plans = [], bt_allowlist = [], bt_main = db_empty\<lparr>incidents := [attack_incident], next_uuid := 20\<rparr>\<rparr>"

definition sample_admin :: "uuid \<Rightarrow> principal" where
  "sample_admin k = \<lparr>op_operator_id = k, op_username = ''anna'', op_role = Admin, op_auth_type = Telegram_Link, op_auth_id = 5\<rparr>"

definition sample_nft :: nft_names where
  "sample_nft = \<lparr>nf_table = ''woland'', nf_set_v4 = ''block4'', nf_set_v6 = ''block6''\<rparr>"

lemma attack_length: "1 \<le> length (show_ip attack_ip) \<and> length (show_ip attack_ip) \<le> 45"
  by (simp add: attack_ip_def show_v4_def octet_def show_nat_def nat_digits.simps)

lemma attack_target: "block_target attack_ip (show_ip attack_ip)"
proof -
  have "\<not> is_never_block attack_ip"
    by (simp add: is_never_block_def in_networks_def attack_ip_def py_special_networks_def py_private_networks_def
        never_block_networks_def mask4_def mask_eq_exp_minus_1)
  then show ?thesis
    using attack_length by (simp add: block_target_def parse_canonical_address_def read_ip_def attack_ip_def)
qed

lemma sample_proposal:
  obtains t p where "propose_ip_block sample_tables 0 (sample_admin 4) 7 ''r'' 600 sample_nft
      = Inr (t, \<lparr>pr_status = Created, pr_plan = Some p, pr_rejection_reason = None\<rparr>)"
    "live_plan t 10 20 = Inr p" "pl_proposed_by p = 4" "bt_allowlist t = []" "block_inv True sample_tables"
proof -
  let ?a = "show_ip attack_ip"
  have nft: "build_nft_block_command sample_nft attack_ip
      = Inr [''nft'', ''add'', ''element'', ''inet'', ''woland'', ''block4'', ''{'', ?a, ''}'']"
    by (simp add: build_nft_block_command_def sample_nft_def nft_identifier_def head_run_def is_lower_def is_digit_def attack_ip_def)
  have target: "parse_canonical_address ?a = Some attack_ip" "\<not> has_scope_id attack_ip" "\<not> is_ipv4_mapped attack_ip"
    "\<not> is_never_block attack_ip" "read_ip ?a = Some attack_ip"
    using attack_target block_target_read by (auto simp: block_target_def)
  then have verdict: "classify_block_target [] ?a = \<lparr>td_allowed = True, td_address = Some attack_ip, td_rejection_reason = None\<rparr>"
    by (simp add: classify_block_target_def is_allowlisted_def)
  have ip: "canonical_audit_ip ?a" using target by (simp add: canonical_audit_ip_def)
  have source: "extract_source_ip [(''source_ip'', JStr ?a)] = Some ?a"
    using attack_length by (auto simp: extract_source_ip_def obj_get_def)
  have log: "map_of audit_registry ''ip_block_plan.proposed'' = Some (operator_spec ''ip_block_plan''
     [(''incident_id'', T_Uuid), (''ip_address'', T_Ip_Address)] all_auth_methods)" by (simp add: audit_registry_def)
  have "block_inv True sample_tables"
    by (simp add: block_inv_def sample_tables_def open_keys_def audit_inv_def audit_unique_def db_empty_def)
  moreover have "\<exists>t p. propose_ip_block sample_tables 0 (sample_admin 4) 7 ''r'' 600 sample_nft
      = Inr (t, \<lparr>pr_status = Created, pr_plan = Some p, pr_rejection_reason = None\<rparr>)
    \<and> live_plan t 10 20 = Inr p \<and> pl_proposed_by p = 4 \<and> bt_allowlist t = []"
    using source verdict nft ip target(2,5) log
    by (simp add: propose_ip_block_def sample_tables_def attack_incident_def sample_admin_def write_proposal_def create_plan_def
        insert_plan_def plan_check_def log_block_action_def record_operator_action_def validate_audit_action_def operator_spec_def
        obj_get_def checked_text_def history_reference_ok_def forbidden_fields_def casefold_def is_upper_def uuid4_def live_plan_def Let_def)
  ultimately show ?thesis using that by blast
qed

theorem approved_blocks_are_safe_witness:
  "\<exists>t p. (block_step True)\<^sup>*\<^sup>* sample_tables t \<and> p \<in> set (bt_plans t) \<and> pl_status p = Approved
    \<and> pl_decided_by p \<noteq> Some (pl_proposed_by p)"
proof -
  obtain t p where 1: "propose_ip_block sample_tables 0 (sample_admin 4) 7 ''r'' 600 sample_nft
      = Inr (t, \<lparr>pr_status = Created, pr_plan = Some p, pr_rejection_reason = None\<rparr>)"
    "live_plan t 10 20 = Inr p" "pl_proposed_by p = 4" "bt_allowlist t = []" "block_inv True sample_tables" by (rule sample_proposal)
  have s1: "block_step True sample_tables t" using 1(1) by (rule step_propose)
  have inv: "block_inv True t" using propose_change [OF 1(1,5)] by (simp add: block_change_def)
  from approve_live_plan [OF inv 1(2), of "sample_admin 5" "''q''"] 1(3,4) obtain p' e t' r where
    2: "approve_ip_block t 10 (sample_admin 5) 20 ''q'' True = Inr (t', r)" "p' = p\<lparr>pl_status := Approved, pl_decided_by := Some 5, pl_decided_at := Some 10\<rparr>"
      "bt_plans t' = update_where (\<lambda>q. pl_id q = 20) (\<lambda>_. p') (bt_plans t)"
    by (auto simp: sample_admin_def is_allowlisted_def)
  have "block_step True t t'" using 2(1) by (rule step_approve)
  with s1 have run: "(block_step True)\<^sup>*\<^sup>* sample_tables t'" by (meson r_into_rtranclp rtranclp.rtrancl_into_rtrancl)
  have "p \<in> set (bt_plans t)" "pl_id p = 20" using 1(2) by (auto simp: live_plan_Inr dest: find_row_SomeD)
  then have p': "p' \<in> set (bt_plans t')" "pl_status p' = Approved" by (auto simp: 2(2,3) set_update_where)
  have start: "bt_plans sample_tables = []" "audit_inv (bt_main sample_tables)" using 1(5) by (simp_all add: sample_tables_def block_inv_def)
  from approved_blocks_are_safe [OF start run p'(1)] run p' show ?thesis by fastforce
qed

theorem approval_rechecks_the_allowlist_witness:
  "\<exists>t t' r. block_inv True t \<and> approve_ip_block t 10 (sample_admin 5) 20 ''q'' True = Inr (t', r) \<and> dr_status r = Decided_Approved"
proof -
  obtain t p where 1: "propose_ip_block sample_tables 0 (sample_admin 4) 7 ''r'' 600 sample_nft
      = Inr (t, \<lparr>pr_status = Created, pr_plan = Some p, pr_rejection_reason = None\<rparr>)"
    "live_plan t 10 20 = Inr p" "pl_proposed_by p = 4" "bt_allowlist t = []" "block_inv True sample_tables" by (rule sample_proposal)
  have inv: "block_inv True t" using propose_change [OF 1(1,5)] by (simp add: block_change_def)
  have "find_row pl_id 20 (bt_plans t) = Some p" "pl_status p = Proposed" "10 < pl_expires_at p" using 1(2) by (simp_all add: live_plan_Inr)
  with approval_rechecks_the_allowlist [OF inv, where plan_id = 20 and now = 10 and actor = "sample_admin 5" and request_id = "''q''"] 1(3,4)
  have "\<exists>t' r. approve_ip_block t 10 (sample_admin 5) 20 ''q'' True = Inr (t', r) \<and> dr_status r = Decided_Approved"
    by (auto simp: sample_admin_def is_allowlisted_def)
  with inv show ?thesis by blast
qed

end
