(* ===== verification/Telegram_Identity.thy ===== *)
theory Telegram_Identity
  imports Operator_Access Ip_Blocks
begin

text \<open>
  The Telegram accounts of operators and the dialogue that asks for a reason: \<open>application/telegram_identity.py\<close>,
  \<open>telegram_bot/pending_actions.py\<close> and \<open>telegram_bot/offsets.py\<close> over the tables of \<open>models/telegram_identity.py\<close>
  and \<open>models/telegram_pending_action.py\<close>, and \<open>language.py\<close>. The tables of the other components stand in
  \<open>tg_blocks\<close> and its \<open>bt_main\<close>. A linked account returned to the command line is the row and the operator's name.
\<close>

section \<open>Languages\<close>

datatype language = Russian | English

definition default_language :: language where
  "default_language = Russian"

definition normalize_language :: "string option \<Rightarrow> language" where
  "normalize_language v = (if v = Some ''ru'' then Russian else if v = Some ''en'' then English else default_language)"

definition supported_language :: "ustring \<Rightarrow> language option" where
  "supported_language v = (if v = ascii ''ru'' then Some Russian else if v = ascii ''en'' then Some English else None)"

text \<open>\<open>casefold\<close> of the client's tag is a parameter: it is Unicode's.\<close>

definition language_from_client_tag :: "(ustring \<Rightarrow> ustring) \<Rightarrow> ustring option \<Rightarrow> language option" where
  "language_from_client_tag casefolded v = (case v of
     None \<Rightarrow> None
   | Some tag \<Rightarrow> if tag = [] then None else supported_language (casefolded (takeWhile (\<lambda>c. c \<noteq> 45) tag)))"

section \<open>Tables\<close>

record telegram_link_row =
  tl_id :: uuid
  tl_operator_id :: uuid
  tl_user_id :: int
  tl_language :: "language option"
  tl_created_at :: time
  tl_last_used_at :: "time option"
  tl_revoked_at :: "time option"

record pending_row =
  pd_user_id :: int
  pd_incident_id :: uuid
  pd_target_status :: incident_status
  pd_expected_version :: int
  pd_created_at :: time
  pd_expires_at :: time

record telegram =
  tg_operators :: "operator_row list"
  tg_links :: "telegram_link_row list"
  tg_pending :: "pending_row list"
  tg_offset :: "int option"
  tg_blocks :: block_tables

abbreviation tg_main :: "telegram \<Rightarrow> db" where
  "tg_main s \<equiv> bt_main (tg_blocks s)"

definition set_main :: "telegram \<Rightarrow> db \<Rightarrow> telegram" where
  "set_main s d = s\<lparr>tg_blocks := (tg_blocks s)\<lparr>bt_main := d\<rparr>\<rparr>"

definition link_check :: "telegram_link_row \<Rightarrow> bool" where
  "link_check l \<longleftrightarrow> 0 < tl_user_id l \<and> after_opt (tl_created_at l) (tl_revoked_at l)"

definition live_link :: "telegram_link_row \<Rightarrow> bool" where
  "live_link l \<longleftrightarrow> tl_revoked_at l = None"

definition insert_link :: "telegram \<Rightarrow> telegram_link_row \<Rightarrow> telegram result" where
  "insert_link s l = bind_r (guard_r (link_check l) (IntegrityError ''operator_telegram_links'')) (\<lambda>_.
     bind_r (guard_r (\<forall>m \<in> set (tg_links s). live_link m \<longrightarrow> tl_user_id m \<noteq> tl_user_id l \<and> tl_operator_id m \<noteq> tl_operator_id l)
       (IntegrityError ''uq_operator_telegram_links_active'')) (\<lambda>_.
     Inr (s\<lparr>tg_links := tg_links s @ [l]\<rparr>)))"

definition update_link :: "telegram \<Rightarrow> uuid \<Rightarrow> (telegram_link_row \<Rightarrow> telegram_link_row) \<Rightarrow> telegram" where
  "update_link s link_id f = s\<lparr>tg_links := update_where (\<lambda>l. tl_id l = link_id) f (tg_links s)\<rparr>"

definition pending_check :: "pending_row \<Rightarrow> bool" where
  "pending_check p \<longleftrightarrow> 0 < pd_user_id p \<and> is_terminal (pd_target_status p) \<and> 0 < pd_expected_version p \<and> pd_created_at p < pd_expires_at p"

section \<open>Links\<close>

definition telegram_user_id_max :: int where
  "telegram_user_id_max = 2 ^ 53 - 1"

definition validate_telegram_user_id :: "int \<Rightarrow> int result" where
  "validate_telegram_user_id v = bind_r (guard_r (1 \<le> v \<and> v \<le> telegram_user_id_max)
     (TelegramIdentityError ''telegram user id must be a positive integer'')) (\<lambda>_. Inr v)"

definition active_link_for_operator :: "telegram \<Rightarrow> uuid \<Rightarrow> telegram_link_row option" where
  "active_link_for_operator s operator_id = List.find (\<lambda>l. tl_operator_id l = operator_id \<and> live_link l) (tg_links s)"

definition active_link_for_user :: "telegram \<Rightarrow> int \<Rightarrow> telegram_link_row option" where
  "active_link_for_user s user_id = List.find (\<lambda>l. tl_user_id l = user_id \<and> live_link l) (tg_links s)"

definition log_link :: "telegram \<Rightarrow> time \<Rightarrow> string \<Rightarrow> telegram_link_row \<Rightarrow> telegram result" where
  "log_link s now action l = bind_r (record_local_cli_action (tg_main s) now action ''operator_telegram_link'' (tl_id l)
       [(''operator_id'', JStr (uuid_str (tl_operator_id l)))]) (\<lambda>(d, _). Inr (set_main s d))"

definition link_telegram_user :: "telegram \<Rightarrow> time \<Rightarrow> uuid \<Rightarrow> int \<Rightarrow> (telegram \<times> telegram_link_row \<times> string) result" where
  "link_telegram_user s now operator_id user_id =
     bind_r (validate_telegram_user_id user_id) (\<lambda>identifier.
     (case find_row opr_id operator_id (tg_operators s) of
        None \<Rightarrow> Inl (TelegramIdentityError ''operator does not exist'')
      | Some operator \<Rightarrow>
        bind_r (guard_r (opr_is_active operator) (TelegramIdentityError ''operator is inactive'')) (\<lambda>_.
        bind_r (guard_r (active_link_for_operator s (opr_id operator) = None)
          (TelegramIdentityError ''operator already has an active telegram link'')) (\<lambda>_.
        bind_r (guard_r (active_link_for_user s identifier = None)
          (TelegramIdentityError ''telegram account is already linked'')) (\<lambda>_.
        let (lid, d) = uuid4 (tg_main s);
            l = \<lparr>tl_id = lid, tl_operator_id = opr_id operator, tl_user_id = identifier, tl_language = None,
              tl_created_at = now, tl_last_used_at = None, tl_revoked_at = None\<rparr> in
        bind_r (insert_link (set_main s d) l) (\<lambda>s1.
        bind_r (log_link s1 now ''operator_telegram_link.created'' l) (\<lambda>s2.
        Inr (s2, l, opr_username operator))))))))"

definition revoke_telegram_link :: "telegram \<Rightarrow> time \<Rightarrow> uuid \<Rightarrow> (telegram \<times> telegram_link_row \<times> string) result" where
  "revoke_telegram_link s now link_id =
     (case find_row tl_id link_id (tg_links s) of
        None \<Rightarrow> Inl (TelegramIdentityError ''telegram link does not exist'')
      | Some l \<Rightarrow>
        bind_r (guard_r (live_link l) (TelegramIdentityError ''telegram link is already revoked'')) (\<lambda>_.
        (case find_row opr_id (tl_operator_id l) (tg_operators s) of
           None \<Rightarrow> Inl (TelegramIdentityError ''operator does not exist'')
         | Some operator \<Rightarrow>
           let l' = l\<lparr>tl_revoked_at := Some (max now (tl_created_at l))\<rparr> in
           bind_r (log_link (update_link s link_id (\<lambda>_. l')) now ''operator_telegram_link.revoked'' l') (\<lambda>s1.
           Inr (s1, l', opr_username operator)))))"

definition list_telegram_links :: "telegram \<Rightarrow> (telegram_link_row \<times> string) list" where
  "list_telegram_links s = sort_key snd (List.map_filter (\<lambda>l.
     if live_link l then map_option (\<lambda>operator. (l, opr_username operator)) (find_row opr_id (tl_operator_id l) (tg_operators s))
     else None) (tg_links s))"

text \<open>The account behind a message: \<open>authenticate_telegram_user\<close> records the use of the link.\<close>

definition telegram_principal :: "operator_row \<Rightarrow> telegram_link_row \<Rightarrow> principal" where
  "telegram_principal operator l = \<lparr>op_operator_id = opr_id operator, op_username = opr_username operator,
     op_role = opr_role operator, op_auth_type = Telegram_Link, op_auth_id = tl_id l\<rparr>"

definition authenticate_telegram_user :: "telegram \<Rightarrow> time \<Rightarrow> int \<Rightarrow> telegram \<times> principal option" where
  "authenticate_telegram_user s now user_id =
     (case validate_telegram_user_id user_id of
        Inl _ \<Rightarrow> (s, None)
      | Inr identifier \<Rightarrow>
        (case active_link_for_user s identifier of
           None \<Rightarrow> (s, None)
         | Some l \<Rightarrow>
           (case find_row opr_id (tl_operator_id l) (tg_operators s) of
              None \<Rightarrow> (s, None)
            | Some operator \<Rightarrow>
              if \<not> opr_is_active operator then (s, None)
              else (update_link s (tl_id l) (\<lambda>l. l\<lparr>tl_last_used_at := Some now\<rparr>), Some (telegram_principal operator l)))))"

definition stored_telegram_language :: "telegram \<Rightarrow> int \<Rightarrow> language option" where
  "stored_telegram_language s user_id =
     (case validate_telegram_user_id user_id of
        Inl _ \<Rightarrow> None
      | Inr identifier \<Rightarrow> Option.bind (active_link_for_user s identifier) tl_language)"

definition set_telegram_language :: "telegram \<Rightarrow> int \<Rightarrow> language \<Rightarrow> telegram \<times> bool" where
  "set_telegram_language s user_id language =
     (case validate_telegram_user_id user_id of
        Inl _ \<Rightarrow> (s, False)
      | Inr identifier \<Rightarrow>
        (case active_link_for_user s identifier of
           None \<Rightarrow> (s, False)
         | Some l \<Rightarrow> (update_link s (tl_id l) (\<lambda>l. l\<lparr>tl_language := Some language\<rparr>), True)))"

section \<open>Pending reasons\<close>

definition delete_pending_action :: "telegram \<Rightarrow> int \<Rightarrow> telegram" where
  "delete_pending_action s user_id = s\<lparr>tg_pending := filter (\<lambda>p. pd_user_id p \<noteq> user_id) (tg_pending s)\<rparr>"

definition store_pending_action ::
  "telegram \<Rightarrow> time \<Rightarrow> int \<Rightarrow> uuid \<Rightarrow> incident_status \<Rightarrow> int \<Rightarrow> int \<Rightarrow> telegram result" where
  "store_pending_action s now user_id incident_id target_status expected_version ttl_seconds =
     bind_r (guard_r (is_terminal target_status) (ValueError ''pending actions only exist for terminal-status transitions'')) (\<lambda>_.
     bind_r (guard_r (1 \<le> ttl_seconds) (ValueError ''pending action TTL must be positive'')) (\<lambda>_.
     let p = \<lparr>pd_user_id = user_id, pd_incident_id = incident_id, pd_target_status = target_status,
           pd_expected_version = expected_version, pd_created_at = now, pd_expires_at = now + ttl_seconds * 1000000\<rparr> in
     bind_r (guard_r (pending_check p) (IntegrityError ''telegram_pending_actions'')) (\<lambda>_.
     bind_r (guard_r (find_row inc_id incident_id (incidents (tg_main s)) \<noteq> None) (IntegrityError ''fk_telegram_pending_actions_incident'')) (\<lambda>_.
     Inr (s\<lparr>tg_pending := (if find_row pd_user_id user_id (tg_pending s) = None then tg_pending s @ [p]
       else update_where (\<lambda>q. pd_user_id q = user_id) (\<lambda>_. p) (tg_pending s))\<rparr>)))))"

text \<open>\<open>load_pending_action\<close>: the live action, and whether an expired one was just removed.\<close>

definition load_pending_action :: "telegram \<Rightarrow> time \<Rightarrow> int \<Rightarrow> telegram \<times> pending_row option \<times> bool" where
  "load_pending_action s now user_id =
     (case find_row pd_user_id user_id (tg_pending s) of
        None \<Rightarrow> (s, None, False)
      | Some p \<Rightarrow> if pd_expires_at p \<le> now then (delete_pending_action s user_id, None, True) else (s, Some p, False))"

section \<open>The confirmed offset\<close>

definition load_next_update_id :: "telegram \<Rightarrow> int" where
  "load_next_update_id s = (case tg_offset s of None \<Rightarrow> 0 | Some n \<Rightarrow> n)"

definition confirm_next_update_id :: "telegram \<Rightarrow> int \<Rightarrow> telegram result" where
  "confirm_next_update_id s n =
     bind_r (guard_r (0 \<le> n) (ValueError ''telegram offset must not be negative'')) (\<lambda>_.
     Inr (s\<lparr>tg_offset := (case tg_offset s of None \<Rightarrow> Some n | Some old \<Rightarrow> if old < n then Some n else Some old)\<rparr>))"

end
