(* ===== verification/Uuid_Text.thy ===== *)
theory Uuid_Text
  imports Guard_Prelude
begin

text \<open>
  Reading the texts \<open>uuid_str\<close>, \<open>hex_text\<close> and \<open>show_nat\<close> write. \<open>read_uuid\<close> is the check of the source
  that a text is the canonical form of a UUID, \<open>str(UUID(text)) == text\<close>, together with the UUID: the other
  spellings \<open>UUID()\<close> accepts (upper case, braces, no hyphens) differ from their canonical form.
\<close>

definition hex_value :: "char \<Rightarrow> nat" where
  "hex_value c = (let n = of_char c in if n < 58 then n - 48 else n - 87)"

definition read_hex :: "string \<Rightarrow> nat" where
  "read_hex s = foldl (\<lambda>n c. 16 * n + hex_value c) 0 s"

definition read_uuid :: "string \<Rightarrow> uuid option" where
  "read_uuid s = (if canonical_uuid_text s then Some (read_hex (filter (\<lambda>c. c \<noteq> CHR ''-'') s)) else None)"

section \<open>Hexadecimal text\<close>

lemma hex_digit_value: "is_lower_hex c \<Longrightarrow> hex_digit (hex_value c) = c \<and> hex_value c < 16"
  by (auto simp: hex_digit_def hex_value_def is_lower_hex_def Let_def)

lemma hex_text_Suc: "hex_text (Suc w) n = hex_text w (n div 16) @ [hex_digit (n mod 16)]"
proof -
  have "rev [0..<Suc w] = map Suc (rev [0..<w]) @ [0]"
    by (simp add: rev_map [symmetric] map_Suc_upt upt_conv_Cons del: upt_Suc)
  then show ?thesis by (simp add: hex_text_def div_mult2_eq del: upt_Suc)
qed

lemma read_hex_snoc: "read_hex (s @ [c]) = 16 * read_hex s + hex_value c"
  by (simp add: read_hex_def)

lemma hex_text_read_hex: "list_all is_lower_hex s \<Longrightarrow> hex_text (length s) (read_hex s) = s"
proof (induction s rule: rev_induct)
  case (snoc c s)
  then have "hex_digit (hex_value c) = c" "hex_value c < 16" using hex_digit_value by auto
  with snoc show ?case by (simp add: read_hex_snoc hex_text_Suc)
qed (simp add: hex_text_def)

lemma read_hex_bound: "list_all is_lower_hex s \<Longrightarrow> read_hex s < 16 ^ length s"
proof (induction s rule: rev_induct)
  case (snoc c s)
  then have "hex_value c < 16" "read_hex s < 16 ^ length s" using hex_digit_value by auto
  then show ?case by (simp add: read_hex_snoc)
qed (simp add: read_hex_def)

lemma read_hex_hex_text: "n < 16 ^ w \<Longrightarrow> read_hex (hex_text w n) = n"
proof (rule hex_text_inj [of _ w])
  have h: "list_all is_lower_hex (hex_text w n)" by (simp add: list_all_iff set_hex_text)
  show "read_hex (hex_text w n) < 16 ^ w" using read_hex_bound [OF h] by simp
  show "hex_text w (read_hex (hex_text w n)) = hex_text w n" using hex_text_read_hex [OF h] by simp
qed

section \<open>UUIDs\<close>

lemma no_hyphen: "list_all is_lower_hex s \<Longrightarrow> filter (\<lambda>c. c \<noteq> CHR ''-'') s = s"
  by (rule filter_True) (auto simp: list_all_iff is_lower_hex_def)

lemma uuid_str_plain: "filter (\<lambda>c. c \<noteq> CHR ''-'') (uuid_str u) = hex_text 32 u"
proof -
  let ?h = "hex_text 32 u"
  have hex: "list_all is_lower_hex ?h" by (simp add: list_all_iff set_hex_text)
  have parts: "list_all is_lower_hex (take a (drop b ?h))" "list_all is_lower_hex (drop b ?h)" "list_all is_lower_hex (take a ?h)" for a b
    using hex by (auto simp: list_all_iff dest: in_set_takeD in_set_dropD)
  show ?thesis
    using append_take_drop_id [of 8 ?h] append_take_drop_id [of 4 "drop 8 ?h"]
      append_take_drop_id [of 4 "drop 12 ?h"] append_take_drop_id [of 4 "drop 16 ?h"]
    by (simp add: uuid_str_def Let_def no_hyphen [OF parts(1)] no_hyphen [OF parts(2)] no_hyphen [OF parts(3)])
qed

lemma read_uuid_str [simp]: "u < 2 ^ 128 \<Longrightarrow> read_uuid (uuid_str u) = Some u"
  using read_hex_hex_text [of u 32] by (simp add: read_uuid_def uuid_str_plain)

lemma canonical_parts:
  assumes "canonical_uuid_text s"
  obtains a b c d e where "s = a @ ''-'' @ b @ ''-'' @ c @ ''-'' @ d @ ''-'' @ e"
    "length a = 8" "length b = 4" "length c = 4" "length d = 4" "length e = 12"
    "list_all is_lower_hex (a @ b @ c @ d @ e)"
proof
  let ?p = "\<lambda>n k. take k (drop n s)"
  have len: "length s = 36" and at: "\<And>i. i < 36 \<Longrightarrow> if i \<in> {8, 13, 18, 23} then s ! i = CHR ''-'' else is_lower_hex (s ! i)"
    using assms by (auto simp: canonical_uuid_text_def list_all_iff)
  have split: "drop n s = ?p n k @ s ! (n + k) # drop (n + k + 1) s" if "n + k < 36" for n k
    using that len id_take_nth_drop [of k "drop n s"] by (simp add: add.commute)
  have "s = ?p 0 8 @ s ! 8 # drop 9 s" using split [of 0 8] by simp
  also have "drop 9 s = ?p 9 4 @ s ! 13 # drop 14 s" using split [of 9 4] by simp
  also have "drop 14 s = ?p 14 4 @ s ! 18 # drop 19 s" using split [of 14 4] by simp
  also have "drop 19 s = ?p 19 4 @ s ! 23 # drop 24 s" using split [of 19 4] by simp
  also have "drop 24 s = ?p 24 12" using len by simp
  finally show "s = ?p 0 8 @ ''-'' @ ?p 9 4 @ ''-'' @ ?p 14 4 @ ''-'' @ ?p 19 4 @ ''-'' @ ?p 24 12"
    using at [of 8] at [of 13] at [of 18] at [of 23] by simp
  have "list_all is_lower_hex (?p n k)" if "\<And>i. n \<le> i \<Longrightarrow> i < n + k \<Longrightarrow> i < 36 \<and> i \<notin> {8, 13, 18, 23}" for n k
  proof -
    have "is_lower_hex (s ! (n + i))" if "i < k" for i
      using at [of "n + i"] \<open>\<And>i. n \<le> i \<Longrightarrow> i < n + k \<Longrightarrow> i < 36 \<and> i \<notin> {8, 13, 18, 23}\<close> [of "n + i"] that by simp
    then show ?thesis using len by (auto simp: list_all_length)
  qed
  from this [of 0 8] this [of 9 4] this [of 14 4] this [of 19 4] this [of 24 12]
  show "list_all is_lower_hex (?p 0 8 @ ?p 9 4 @ ?p 14 4 @ ?p 19 4 @ ?p 24 12)" by simp
qed (use assms in \<open>simp_all add: canonical_uuid_text_def\<close>)

lemma uuid_str_read_uuid:
  assumes "read_uuid s = Some u"
  shows "uuid_str u = s \<and> u < 2 ^ 128"
proof -
  from assms have c: "canonical_uuid_text s" and u: "u = read_hex (filter (\<lambda>c. c \<noteq> CHR ''-'') s)"
    by (auto simp: read_uuid_def split: if_splits)
  obtain a b c d e where s: "s = a @ ''-'' @ b @ ''-'' @ c @ ''-'' @ d @ ''-'' @ e"
    and len: "length a = 8" "length b = 4" "length c = 4" "length d = 4" "length e = 12"
    and hex: "list_all is_lower_hex (a @ b @ c @ d @ e)"
    by (rule canonical_parts [OF c])
  have "filter (\<lambda>c. c \<noteq> CHR ''-'') s = a @ b @ c @ d @ e"
    using hex by (simp add: s no_hyphen)
  then have "hex_text 32 u = a @ b @ c @ d @ e" "u < 2 ^ 128"
    using hex_text_read_hex [OF hex] read_hex_bound [OF hex] len by (simp_all add: u)
  then show ?thesis using len by (simp add: uuid_str_def s)
qed

lemma read_uuid_iff: "read_uuid s = Some u \<longleftrightarrow> u < 2 ^ 128 \<and> s = uuid_str u"
  using uuid_str_read_uuid by auto

lemma uuid_str_no_colon: "CHR '':'' \<notin> set (uuid_str u)"
proof
  assume "CHR '':'' \<in> set (uuid_str u)"
  then have "CHR '':'' \<in> set (filter (\<lambda>c. c \<noteq> CHR ''-'') (uuid_str u))" by simp
  then have "is_lower_hex (CHR '':'')" unfolding uuid_str_plain by (rule set_hex_text)
  then show False by (simp add: is_lower_hex_def)
qed

section \<open>Decimal text\<close>

lemma show_nat_length: "n < 10 ^ k \<Longrightarrow> 0 < k \<Longrightarrow> length (show_nat n) \<le> k"
proof (induction k arbitrary: n)
  case (Suc k)
  show ?case
  proof (cases "n < 10")
    case True
    then show ?thesis by (simp add: show_nat_def nat_digits.simps [of n])
  next
    case False
    then have "0 < k" using Suc.prems(1) by (cases k) auto
    moreover have "n div 10 < 10 ^ k" using Suc.prems(1) by (simp add: less_mult_imp_div_less mult.commute)
    ultimately show ?thesis using Suc.IH [of "n div 10"] False by (simp add: show_nat_def nat_digits.simps [of n])
  qed
qed simp

lemma show_nat_snoc: "0 < n \<Longrightarrow> d < 10 \<Longrightarrow> show_nat (10 * n + d) = show_nat n @ [char_of (48 + d)]"
  by (simp add: show_nat_def) (subst nat_digits.simps, simp)

lemma show_nat_read_dec:
  "list_all is_digit s \<Longrightarrow> s \<noteq> [] \<Longrightarrow> hd s \<noteq> CHR ''0'' \<Longrightarrow> show_nat (read_dec s) = s \<and> 0 < read_dec s"
proof (induction s rule: rev_induct)
  case (snoc c s)
  then have c: "is_digit c" by simp
  then have cv: "char_of (48 + (of_char c - (48 :: nat))) = c" "of_char c - (48 :: nat) < 10"
    by (auto simp: is_digit_def)
  show ?case
  proof (cases "s = []")
    case True
    have "of_char (CHR ''0'') = (48 :: nat)" by simp
    with True snoc.prems have "of_char c \<noteq> (48 :: nat)" by (metis append_Nil of_char_eq_iff list.sel(1))
    with True c cv show ?thesis
      by (simp add: read_dec_def show_nat_def nat_digits.simps is_digit_def)
  next
    case False
    with snoc have "show_nat (read_dec s) = s" "0 < read_dec s" by simp_all
    with cv show ?thesis by (simp add: read_dec_snoc show_nat_snoc)
  qed
qed simp

end
