(* ===== verification/Telegram_Callbacks.thy ===== *)
theory Telegram_Callbacks
  imports Uuid_Text Unicode_Text Database
begin

text \<open>
  \<open>infrastructure/telegram/callbacks.py\<close>: the data of the inline buttons. What a client sends back is untrusted
  text, a list of code points; what the program puts on a button is ASCII. Every rejection is one
  \<open>CallbackDataError\<close> whose message no caller reads, so a parser returns an option. \<open>str.isdecimal\<close> and \<open>int\<close>
  read the decimal digits of the whole of Unicode: the digit value of a code point, \<open>None\<close> for the others, is
  the parameter \<open>decimal\<close>.
\<close>

section \<open>Encoding and parsing\<close>

datatype callback_action =
    Incident_Action uuid incident_status int
  | Propose_Block uuid
  | Decide_Block uuid bool

definition callback_data_max_bytes :: nat where
  "callback_data_max_bytes = 64"

definition max_expected_version :: int where
  "max_expected_version = 2147483647"

fun action_code :: "incident_status \<Rightarrow> string option" where
  "action_code Investigating = Some ''iv''"
| "action_code Resolved = Some ''rs''"
| "action_code False_Positive = Some ''fp''"
| "action_code New = None"

definition status_by_code :: "ustring \<Rightarrow> incident_status option" where
  "status_by_code code = List.find (\<lambda>s. map_option ascii (action_code s) = Some code) all_statuses"

definition bounded_callback :: "string \<Rightarrow> string option" where
  "bounded_callback v = (if callback_data_max_bytes < length v then None else Some v)"

definition encode_incident_action :: "uuid \<Rightarrow> incident_status \<Rightarrow> int \<Rightarrow> string option" where
  "encode_incident_action incident_id target_status expected_version =
     (case action_code target_status of
        None \<Rightarrow> None
      | Some code \<Rightarrow>
        if \<not> (1 \<le> expected_version \<and> expected_version \<le> max_expected_version) then None
        else bounded_callback (''1:'' @ code @ '':'' @ uuid_str incident_id @ '':'' @ show_int expected_version))"

definition encode_propose_block :: "uuid \<Rightarrow> string option" where
  "encode_propose_block incident_id = bounded_callback (''1:bp:'' @ uuid_str incident_id)"

definition encode_decide_block :: "uuid \<Rightarrow> bool \<Rightarrow> string option" where
  "encode_decide_block plan_id approve =
     bounded_callback (''1:'' @ (if approve then ''ba'' else ''br'') @ '':'' @ uuid_str plan_id)"

text \<open>\<open>UUID(raw)\<close> and the comparison with its canonical text: only ASCII text passes both.\<close>

definition read_canonical_uuid :: "ustring \<Rightarrow> uuid option" where
  "read_canonical_uuid raw = (if list_all (\<lambda>c. c < 128) raw then read_uuid (map char_of raw) else None)"

definition decimal_value :: "(codepoint \<Rightarrow> nat option) \<Rightarrow> ustring \<Rightarrow> int" where
  "decimal_value decimal s = foldl (\<lambda>n c. 10 * n + int (the (decimal c))) 0 s"

definition version_text_ok :: "(codepoint \<Rightarrow> nat option) \<Rightarrow> ustring \<Rightarrow> bool" where
  "version_text_ok decimal s \<longleftrightarrow> s \<noteq> [] \<and> list_all (\<lambda>c. decimal c \<noteq> None) s \<and> hd s \<noteq> 48 \<and> length s \<le> 10"

definition parse_incident_action :: "(codepoint \<Rightarrow> nat option) \<Rightarrow> ustring \<Rightarrow> callback_action option" where
  "parse_incident_action decimal value =
     (if callback_data_max_bytes < length (utf8 value) then None
      else case split_on 58 value of
        [schema_version, code, raw_incident_id, raw_expected_version] \<Rightarrow>
          if schema_version \<noteq> ascii ''1'' then None
          else (case (status_by_code code, read_canonical_uuid raw_incident_id) of
            (Some target_status, Some incident_id) \<Rightarrow>
              if version_text_ok decimal raw_expected_version then
                let expected_version = decimal_value decimal raw_expected_version in
                if 1 \<le> expected_version \<and> expected_version \<le> max_expected_version
                then Some (Incident_Action incident_id target_status expected_version) else None
              else None
          | _ \<Rightarrow> None)
      | _ \<Rightarrow> None)"

definition parse_block_action :: "ustring \<Rightarrow> callback_action option" where
  "parse_block_action value =
     (if callback_data_max_bytes < length (utf8 value) then None
      else case split_on 58 value of
        [schema_version, code, raw_id] \<Rightarrow>
          if schema_version \<noteq> ascii ''1'' then None
          else (case read_canonical_uuid raw_id of
            None \<Rightarrow> None
          | Some parsed_id \<Rightarrow>
              if code = ascii ''bp'' then Some (Propose_Block parsed_id)
              else if code = ascii ''ba'' then Some (Decide_Block parsed_id True)
              else if code = ascii ''br'' then Some (Decide_Block parsed_id False)
              else None)
      | _ \<Rightarrow> None)"

definition parse_callback_data :: "(codepoint \<Rightarrow> nat option) \<Rightarrow> ustring \<Rightarrow> callback_action option" where
  "parse_callback_data decimal value =
     (let parts = split_on 58 value; code = (if 2 \<le> length parts then parts ! 1 else []) in
      if status_by_code code \<noteq> None then parse_incident_action decimal value
      else if code \<in> set (map ascii [''bp'', ''ba'', ''br'']) then parse_block_action value
      else None)"

section \<open>ASCII text\<close>

text \<open>The Unicode digits below 128 are the ten ASCII ones.\<close>

definition ascii_decimals :: "(codepoint \<Rightarrow> nat option) \<Rightarrow> bool" where
  "ascii_decimals decimal \<longleftrightarrow> (\<forall>c < 128. decimal c = (if 48 \<le> c \<and> c \<le> 57 then Some (c - 48) else None))"

definition is_ascii :: "string \<Rightarrow> bool" where
  "is_ascii s \<longleftrightarrow> list_all (\<lambda>c. of_char c < (128 :: nat)) s"

lemma ascii_inj [simp]: "ascii s = ascii t \<longleftrightarrow> s = t"
  unfolding ascii_def by (rule inj_map_eq_map) (simp add: inj_on_def)

lemma ascii_append [simp]: "ascii (s @ t) = ascii s @ ascii t"
  by (simp add: ascii_def)

lemma ascii_Nil [simp]: "ascii [] = []" "ascii s = [] \<longleftrightarrow> s = []" "[] = ascii s \<longleftrightarrow> s = []"
  by (auto simp: ascii_def)

lemma length_ascii [simp]: "length (ascii s) = length s"
  by (simp add: ascii_def)

lemma map_char_of_ascii [simp]: "map char_of (ascii s) = s"
  by (simp add: ascii_def comp_def)

lemma split_on_ascii: "split_on (of_char c) (ascii s) = map ascii (split_on c s)"
  unfolding ascii_def by (induction s) (auto split: list.splits)

lemma utf8_ascii: "is_ascii s \<Longrightarrow> utf8 (ascii s) = s"
  by (induction s) (simp_all add: utf8_def utf8_char_def ascii_def is_ascii_def)

lemma read_canonical_uuid_ascii: "is_ascii s \<Longrightarrow> read_canonical_uuid (ascii s) = read_uuid s"
  by (simp add: read_canonical_uuid_def list_all_iff is_ascii_def) (auto simp: ascii_def)

lemma status_by_code_ascii: "status_by_code (ascii code) = Some st \<longleftrightarrow> action_code st = Some code"
  by (cases st) (auto simp: status_by_code_def all_statuses_def)

lemma decimal_value_ascii:
  "ascii_decimals decimal \<Longrightarrow> list_all is_digit s \<Longrightarrow> decimal_value decimal (ascii s) = int (read_dec s)"
proof (induction s rule: rev_induct)
  case (snoc c s)
  then have "decimal (of_char c) = Some (of_char c - 48)" by (simp add: ascii_decimals_def is_digit_def)
  with snoc show ?case by (simp add: decimal_value_def read_dec_snoc ascii_def)
qed (simp add: decimal_value_def read_dec_def ascii_def)

lemma ascii_digits:
  "ascii_decimals decimal \<Longrightarrow> is_ascii s \<Longrightarrow> list_all (\<lambda>c. decimal c \<noteq> None) (ascii s) \<longleftrightarrow> list_all is_digit s"
  by (induction s) (auto simp: ascii_def is_ascii_def ascii_decimals_def is_digit_def)

lemma show_int_pos: "1 \<le> i \<Longrightarrow> show_int i = show_nat (nat i)"
  by (simp add: show_int_def)

lemma show_nat_no_zero: "0 < n \<Longrightarrow> hd (show_nat n) \<noteq> CHR ''0''"
proof (induction n rule: nat_digits.induct)
  case (1 n)
  show ?case
  proof (cases "n < 10")
    case True
    have "of_char (char_of (48 + n) :: char) \<noteq> (of_char (CHR ''0'') :: nat)" using True "1.prems" by (simp add: of_char_of)
    then have "char_of (48 + n) \<noteq> CHR ''0''" by metis
    with True show ?thesis by (simp add: show_nat_def nat_digits.simps [of n])
  next
    case False
    with 1 show ?thesis by (simp add: show_nat_def nat_digits.simps [of n] hd_append nat_digits_nonempty)
  qed
qed

lemma join_split_on: "join_with [sep] (split_on sep s) = s"
proof (induction s)
  case (Cons c s)
  obtain p ps where "split_on sep s = p # ps" using split_on_nonempty list.exhaust by metis
  with Cons show ?case by (cases ps) auto
qed simp

lemma is_ascii_simps [simp]:
  "is_ascii []" "is_ascii (c # s) \<longleftrightarrow> of_char c < (128 :: nat) \<and> is_ascii s" "is_ascii (s @ t) \<longleftrightarrow> is_ascii s \<and> is_ascii t"
  by (simp_all add: is_ascii_def)

lemma is_ascii_parts: "is_ascii s \<Longrightarrow> p \<in> set (split_on c s) \<Longrightarrow> is_ascii p"
  by (induction s arbitrary: p) (auto split: if_splits list.splits)

section \<open>The two directions\<close>

definition encode_callback :: "callback_action \<Rightarrow> string option" where
  "encode_callback a = (case a of
     Incident_Action i st v \<Rightarrow> encode_incident_action i st v
   | Propose_Block i \<Rightarrow> encode_propose_block i
   | Decide_Block p approve \<Rightarrow> encode_decide_block p approve)"

fun callback_id :: "callback_action \<Rightarrow> uuid" where
  "callback_id (Incident_Action i st v) = i"
| "callback_id (Propose_Block i) = i"
| "callback_id (Decide_Block p approve) = p"

fun is_button :: "callback_action \<Rightarrow> bool" where
  "is_button (Incident_Action i st v) \<longleftrightarrow> st \<noteq> New \<and> 1 \<le> v \<and> v \<le> max_expected_version"
| "is_button _ \<longleftrightarrow> True"

text \<open>The parts of a button's text.\<close>

fun button_parts :: "callback_action \<Rightarrow> string list" where
  "button_parts (Incident_Action i st v) =
     [''1'', (case action_code st of None \<Rightarrow> [] | Some c \<Rightarrow> c), uuid_str i, show_nat (nat v)]"
| "button_parts (Propose_Block i) = [''1'', ''bp'', uuid_str i]"
| "button_parts (Decide_Block p approve) = [''1'', (if approve then ''ba'' else ''br''), uuid_str p]"

lemma action_code_Some: "st \<noteq> New \<Longrightarrow> \<exists>c. action_code st = Some c \<and> length c = 2 \<and> is_ascii c \<and> CHR '':'' \<notin> set c
    \<and> c \<notin> set [''bp'', ''ba'', ''br'']"
  by (cases st) auto

lemma show_nat_chars: "is_ascii (show_nat n)" "CHR '':'' \<notin> set (show_nat n)" "list_all is_digit (show_nat n)"
  using show_nat_digits [of _ n] by (force simp: is_ascii_def list_all_iff is_digit_def)+

lemma uuid_str_ascii: "is_ascii (uuid_str u)"
proof -
  have "of_char c < (128 :: nat)" if "c \<in> set (uuid_str u)" for c
  proof (cases "c = CHR ''-''")
    case False
    with that have "c \<in> set (filter (\<lambda>c. c \<noteq> CHR ''-'') (uuid_str u))" by simp
    then have "is_lower_hex c" unfolding uuid_str_plain by (rule set_hex_text)
    then show ?thesis by (auto simp: is_lower_hex_def)
  qed simp
  then show ?thesis by (simp add: is_ascii_def list_all_iff)
qed

lemma uuid_text_length [simp]: "length (uuid_str u) = 36"
  using uuid_str_canonical [of u] by (simp add: canonical_uuid_text_def)

lemma version_length: "v \<le> max_expected_version \<Longrightarrow> length (show_nat (nat v)) \<le> 10"
  by (rule show_nat_length) (simp_all add: max_expected_version_def)

lemma encode_callback_eq:
  "encode_callback a = (if is_button a then Some (join_with '':'' (button_parts a)) else None)"
proof (cases a)
  case (Incident_Action i st v)
  show ?thesis
  proof (cases "is_button a")
    case True
    with Incident_Action obtain c where c: "action_code st = Some c" "length c = 2" using action_code_Some by auto
    have "length (show_nat (nat v)) \<le> 10" using True Incident_Action version_length by simp
    with True c show ?thesis
      by (simp add: Incident_Action encode_callback_def encode_incident_action_def bounded_callback_def
          callback_data_max_bytes_def show_int_pos)
  qed (auto simp: Incident_Action encode_callback_def encode_incident_action_def split: option.split)
qed (simp_all add: encode_callback_def encode_propose_block_def encode_decide_block_def bounded_callback_def callback_data_max_bytes_def)

lemma button_text:
  assumes "is_button a"
  shows "is_ascii (join_with '':'' (button_parts a))" "length (join_with '':'' (button_parts a)) \<le> callback_data_max_bytes"
    "split_on CHR '':'' (join_with '':'' (button_parts a)) = button_parts a"
proof -
  have "is_ascii (join_with '':'' (button_parts a)) \<and> length (join_with '':'' (button_parts a)) \<le> callback_data_max_bytes
    \<and> (\<forall>p \<in> set (button_parts a). CHR '':'' \<notin> set p)"
  proof (cases a)
    case (Incident_Action i st v)
    with assms obtain c where c: "action_code st = Some c" "length c = 2" "is_ascii c" "CHR '':'' \<notin> set c"
      using action_code_Some by auto
    have "length (show_nat (nat v)) \<le> 10" using assms Incident_Action version_length by simp
    with c show ?thesis
      by (simp add: Incident_Action uuid_str_ascii uuid_str_no_colon show_nat_chars callback_data_max_bytes_def)
  qed (auto simp: uuid_str_ascii uuid_str_no_colon callback_data_max_bytes_def)
  moreover have "button_parts a \<noteq> []" by (cases a) simp_all
  ultimately show "is_ascii (join_with '':'' (button_parts a))" "length (join_with '':'' (button_parts a)) \<le> callback_data_max_bytes"
    "split_on CHR '':'' (join_with '':'' (button_parts a)) = button_parts a"
    by (simp_all add: split_on_join)
qed

lemma split_ascii_58: "split_on 58 (ascii t) = map ascii (split_on CHR '':'' t)"
proof -
  have "of_char (CHR '':'') = (58 :: nat)" by simp
  then show ?thesis by (metis split_on_ascii)
qed

lemma version_text_ascii:
  assumes "ascii_decimals decimal" "is_ascii w"
  shows "version_text_ok decimal (ascii w) \<and> 1 \<le> decimal_value decimal (ascii w) \<and> decimal_value decimal (ascii w) \<le> max_expected_version
      \<and> v = decimal_value decimal (ascii w)
    \<longleftrightarrow> 1 \<le> v \<and> v \<le> max_expected_version \<and> w = show_nat (nat v)"
proof
  assume l: "version_text_ok decimal (ascii w) \<and> 1 \<le> decimal_value decimal (ascii w) \<and> decimal_value decimal (ascii w) \<le> max_expected_version
      \<and> v = decimal_value decimal (ascii w)"
  then have w: "list_all is_digit w" "w \<noteq> []" using ascii_digits [OF assms] by (auto simp: version_text_ok_def ascii_def)
  then have "hd (ascii w) = of_char (hd w)" by (simp add: ascii_def hd_map)
  with l have "hd w \<noteq> CHR ''0''" by (auto simp: version_text_ok_def)
  with w have "show_nat (read_dec w) = w" by (simp add: show_nat_read_dec)
  with l w show "1 \<le> v \<and> v \<le> max_expected_version \<and> w = show_nat (nat v)" by (simp add: decimal_value_ascii [OF assms(1)])
next
  assume r: "1 \<le> v \<and> v \<le> max_expected_version \<and> w = show_nat (nat v)"
  then have d: "decimal_value decimal (ascii w) = v" by (simp add: decimal_value_ascii [OF assms(1)] show_nat_chars)
  have "hd (ascii w) = of_char (hd w)" using r by (simp add: ascii_def hd_map)
  moreover have "hd w \<noteq> CHR ''0''" using r show_nat_no_zero by simp
  moreover have "of_char (CHR ''0'') = (48 :: nat)" by simp
  then have "of_char (hd w) = (48 :: nat) \<Longrightarrow> hd w = CHR ''0''" by (metis of_char_eq_iff)
  moreover have "list_all (\<lambda>c. decimal c \<noteq> None) (ascii w)" using ascii_digits [OF assms] show_nat_chars(3) r by simp
  ultimately show "version_text_ok decimal (ascii w) \<and> 1 \<le> decimal_value decimal (ascii w) \<and> decimal_value decimal (ascii w) \<le> max_expected_version
      \<and> v = decimal_value decimal (ascii w)"
    using r d version_length [of v] by (auto simp: version_text_ok_def ascii_def)
qed

lemma parse_incident_parts:
  assumes "ascii_decimals decimal" "is_ascii t"
  shows "parse_incident_action decimal (ascii t) = Some a \<longleftrightarrow>
    length t \<le> callback_data_max_bytes \<and> (\<exists>i st v. a = Incident_Action i st v \<and> is_button a \<and> i < 2 ^ 128 \<and> split_on CHR '':'' t = button_parts a)"
proof (cases "\<exists>sv code raw w. split_on CHR '':'' t = [sv, code, raw, w]")
  case True
  then obtain sv code raw w where sp: "split_on CHR '':'' t = [sv, code, raw, w]" by blast
  then have "is_ascii raw" "is_ascii w" using is_ascii_parts [OF assms(2), of _ "CHR '':''"] by auto
  note version = version_text_ascii [OF assms(1) \<open>is_ascii w\<close>]
  have "parse_incident_action decimal (ascii t) = Some a \<longleftrightarrow> length t \<le> callback_data_max_bytes \<and> sv = ''1'' \<and>
      (\<exists>i st v. a = Incident_Action i st v \<and> action_code st = Some code \<and> read_uuid raw = Some i
        \<and> version_text_ok decimal (ascii w) \<and> 1 \<le> decimal_value decimal (ascii w) \<and> decimal_value decimal (ascii w) \<le> max_expected_version
        \<and> v = decimal_value decimal (ascii w))"
    by (auto simp: parse_incident_action_def split_ascii_58 sp utf8_ascii [OF assms(2)] read_canonical_uuid_ascii [OF \<open>is_ascii raw\<close>]
        status_by_code_ascii [symmetric] Let_def not_less split: option.splits if_splits)
  also have "\<dots> \<longleftrightarrow> length t \<le> callback_data_max_bytes \<and> sv = ''1'' \<and>
      (\<exists>i st v. a = Incident_Action i st v \<and> action_code st = Some code \<and> (i < 2 ^ 128 \<and> raw = uuid_str i)
        \<and> 1 \<le> v \<and> v \<le> max_expected_version \<and> w = show_nat (nat v))"
    unfolding version read_uuid_iff ..
  also have "\<dots> \<longleftrightarrow> length t \<le> callback_data_max_bytes \<and>
      (\<exists>i st v. a = Incident_Action i st v \<and> is_button a \<and> i < 2 ^ 128 \<and> split_on CHR '':'' t = button_parts a)"
    using action_code_Some by (fastforce simp: sp)
  finally show ?thesis .
next
  case False
  then have "parse_incident_action decimal (ascii t) = None"
    by (auto simp: parse_incident_action_def split_ascii_58 split: list.split)
  with False show ?thesis by fastforce
qed

lemma parse_block_parts:
  assumes "is_ascii t"
  shows "parse_block_action (ascii t) = Some a \<longleftrightarrow>
    length t \<le> callback_data_max_bytes \<and> (\<forall>i st v. a \<noteq> Incident_Action i st v) \<and> callback_id a < 2 ^ 128 \<and> split_on CHR '':'' t = button_parts a"
proof (cases "\<exists>sv code raw. split_on CHR '':'' t = [sv, code, raw]")
  case True
  then obtain sv code raw where sp: "split_on CHR '':'' t = [sv, code, raw]" by blast
  then have "is_ascii raw" using is_ascii_parts [OF assms, of _ "CHR '':''"] by auto
  have "parse_block_action (ascii t) = Some a \<longleftrightarrow> length t \<le> callback_data_max_bytes \<and> sv = ''1'' \<and>
      (\<exists>i. read_uuid raw = Some i \<and> (a = Propose_Block i \<and> code = ''bp'' \<or> a = Decide_Block i True \<and> code = ''ba''
        \<or> a = Decide_Block i False \<and> code = ''br''))"
    by (auto simp: parse_block_action_def split_ascii_58 sp utf8_ascii [OF assms] read_canonical_uuid_ascii [OF \<open>is_ascii raw\<close>]
        not_less split: option.splits if_splits)
  also have "\<dots> \<longleftrightarrow> length t \<le> callback_data_max_bytes \<and> (\<forall>i st v. a \<noteq> Incident_Action i st v) \<and> callback_id a < 2 ^ 128
      \<and> split_on CHR '':'' t = button_parts a"
    unfolding read_uuid_iff sp by (cases a) auto
  finally show ?thesis .
next
  case False
  then have "parse_block_action (ascii t) = None" by (auto simp: parse_block_action_def split_ascii_58 split: list.split)
  with False show ?thesis by (cases a) auto
qed

lemma button_parts_code: "is_button a \<Longrightarrow> 2 \<le> length (button_parts a) \<and> (case a of
      Incident_Action i st v \<Rightarrow> action_code st = Some (button_parts a ! 1)
    | _ \<Rightarrow> button_parts a ! 1 \<in> set [''bp'', ''ba'', ''br''])"
  using action_code_Some by (cases a) fastforce+

lemma status_code_not_block: "c \<in> set [''bp'', ''ba'', ''br''] \<Longrightarrow> status_by_code (ascii c) = None"
  by (auto simp: status_by_code_def all_statuses_def)

lemma parse_callback_parts:
  assumes "ascii_decimals decimal" "is_ascii t"
  shows "parse_callback_data decimal (ascii t) = Some a \<longleftrightarrow>
    length t \<le> callback_data_max_bytes \<and> is_button a \<and> callback_id a < 2 ^ 128 \<and> split_on CHR '':'' t = button_parts a"
proof (cases "2 \<le> length (split_on CHR '':'' t)")
  case True
  let ?c = "split_on CHR '':'' t ! 1"
  have code: "parse_callback_data decimal (ascii t) = (if status_by_code (ascii ?c) \<noteq> None then parse_incident_action decimal (ascii t)
      else if ?c \<in> set [''bp'', ''ba'', ''br''] then parse_block_action (ascii t) else None)"
    using True by (simp add: parse_callback_data_def split_ascii_58)
  have incident: "status_by_code (ascii ?c) \<noteq> None" if "is_button a" "split_on CHR '':'' t = button_parts a" "a = Incident_Action i st v" for i st v
    using button_parts_code [OF that(1)] that(2) status_by_code_ascii [of ?c st] by (simp add: that(3))
  have block: "?c \<in> set [''bp'', ''ba'', ''br'']" if "split_on CHR '':'' t = button_parts a" "\<And>i st v. a \<noteq> Incident_Action i st v"
    using button_parts_code [of a] that by (cases a) auto
  have button: "is_button a" if "\<And>i st v. a \<noteq> Incident_Action i st v" using that by (cases a) auto
  let ?R = "length t \<le> callback_data_max_bytes \<and> is_button a \<and> callback_id a < 2 ^ 128 \<and> split_on CHR '':'' t = button_parts a"
  show ?thesis
  proof (cases "status_by_code (ascii ?c) \<noteq> None")
    case True
    then have "parse_callback_data decimal (ascii t) = parse_incident_action decimal (ascii t)" unfolding code by (rule if_P)
    moreover have "\<exists>i st v. a = Incident_Action i st v" if ?R
      using that block True status_code_not_block by metis
    ultimately show ?thesis unfolding parse_incident_parts [OF assms]
      by (metis (no_types) parse_incident_parts [OF assms] callback_id.simps(1))
  next
    case False
    then have rest: "parse_callback_data decimal (ascii t) = (if ?c \<in> set [''bp'', ''ba'', ''br''] then parse_block_action (ascii t) else None)"
      unfolding code by (metis (no_types))
    have not_incident: "\<forall>i st v. a \<noteq> Incident_Action i st v" if ?R using that incident False by metis
    show ?thesis
    proof (cases "?c \<in> set [''bp'', ''ba'', ''br'']")
      case True
      then have "parse_callback_data decimal (ascii t) = parse_block_action (ascii t)" unfolding rest by (rule if_P)
      with parse_block_parts [OF assms(2), of a] not_incident button show ?thesis by metis
    next
      case no: False
      then have "parse_callback_data decimal (ascii t) = None" unfolding rest by (rule if_not_P)
      moreover have "\<not> ?R" using no block not_incident by metis
      ultimately show ?thesis by simp
    qed
  qed
next
  case False
  have "status_by_code [] = None" by (simp add: status_by_code_def all_statuses_def ascii_def)
  with False have "parse_callback_data decimal (ascii t) = None"
    by (simp add: parse_callback_data_def split_ascii_58 Let_def)
  with False button_parts_code [of a] show ?thesis by auto
qed

section \<open>Properties\<close>

text \<open>C38: The data of the buttons is read back exactly. Every action a button can carry is encoded in ASCII within
  the 64 bytes Telegram allows; of all ASCII texts the parser accepts exactly the encodings, each as the action
  it encodes, and nothing else.\<close>

theorem buttons_read_back_exactly:
  assumes "ascii_decimals decimal"
  shows "(is_button a \<longrightarrow> (\<exists>t. encode_callback a = Some t \<and> is_ascii t \<and> length t \<le> callback_data_max_bytes))
    \<and> (is_ascii t \<longrightarrow> (parse_callback_data decimal (ascii t) = Some a
      \<longleftrightarrow> callback_id a < 2 ^ 128 \<and> encode_callback a = Some t))"
  using parse_callback_parts [OF assms, of t a] button_text [of a] join_split_on [of "CHR '':''" t]
  by (auto simp: encode_callback_eq)

definition latin_decimal :: "codepoint \<Rightarrow> nat option" where
  "latin_decimal c = (if 48 \<le> c \<and> c \<le> 57 then Some (c - 48) else if 1632 \<le> c \<and> c \<le> 1641 then Some (c - 1632) else None)"

theorem buttons_read_back_exactly_witness:
  "\<exists>t. parse_callback_data latin_decimal (ascii t) = Some (Incident_Action 7 Resolved 1)"
proof -
  have d: "ascii_decimals latin_decimal" by (simp add: ascii_decimals_def latin_decimal_def)
  let ?a = "Incident_Action 7 Resolved 1"
  obtain t where "encode_callback ?a = Some t" "is_ascii t"
    using buttons_read_back_exactly [OF d, of ?a] by (auto simp: max_expected_version_def)
  with buttons_read_back_exactly [OF d, of ?a t] show ?thesis by auto
qed

text \<open>
  Beyond ASCII the parser accepts more: a version written in other decimal digits of Unicode, a text no
  button carries.
\<close>

lemma foreign_digits_are_accepted:
  "parse_callback_data latin_decimal (ascii (''1:rs:'' @ uuid_str 7 @ '':'') @ [1633]) = Some (Incident_Action 7 Resolved 1)"
proof -
  define v where "v = ascii (''1:rs:'' @ uuid_str 7 @ '':'') @ [1633]"
  have no: "58 \<notin> set (ascii (uuid_str 7))" using uuid_str_no_colon [of 7] by (auto simp: ascii_def of_char_eq_iff [of _ "CHR '':''", simplified])
  have sp: "split_on 58 v = [ascii ''1'', ascii ''rs'', ascii (uuid_str 7), [1633]]"
    using split_on_append [OF no, of "[1633]"] by (simp add: ascii_def v_def)
  have u: "length (utf8 v) \<le> callback_data_max_bytes"
    using arg_cong [OF utf8_ascii [OF uuid_str_ascii [of 7]], of length]
    by (simp add: utf8_def utf8_char_def callback_data_max_bytes_def ascii_def v_def)
  have st: "status_by_code (ascii ''rs'') = Some Resolved" by (simp add: status_by_code_ascii)
  have id: "read_canonical_uuid (ascii (uuid_str 7)) = Some 7" by (simp add: read_canonical_uuid_ascii uuid_str_ascii)
  have "parse_incident_action latin_decimal v = Some (Incident_Action 7 Resolved 1)"
    using u by (simp add: parse_incident_action_def sp st id version_text_ok_def latin_decimal_def decimal_value_def max_expected_version_def)
  then show ?thesis unfolding v_def [symmetric] by (simp add: parse_callback_data_def sp st)
qed

end
