(* ===== verification/Telegram_Router.thy ===== *)
theory Telegram_Router
  imports Telegram_Identity Telegram_Callbacks Incident_Workflow Rate_Limit
begin

text \<open>
  \<open>telegram_bot/router.py\<close>: from one inbound update to one reply, over the contracts of
  \<open>infrastructure/telegram/updates.py\<close>. A reply is a value with one constructor for each call of
  \<open>formatting.py\<close>, which looks the text up in a catalogue; the four reports of \<open>_dispatch\<close> read the
  database and are represented by their names. Case folding, letters and digits of Unicode, and SHA-256 are
  parameters (\<open>text_env\<close>). The limiter lives in the process, so it stays consumed when a transaction rolls back.
\<close>

section \<open>Updates\<close>

record telegram_sender =
  sn_id :: int
  sn_is_bot :: bool
  sn_language_code :: "ustring option"

record telegram_message =
  ms_sender :: "telegram_sender option"
  ms_chat_id :: int
  ms_chat_type :: string
  ms_text :: "ustring option"

record callback_query =
  cq_id :: ustring
  cq_sender :: "telegram_sender option"
  cq_message :: "telegram_message option"
  cq_data :: "ustring option"

definition is_private :: "telegram_message \<Rightarrow> bool" where
  "is_private m \<longleftrightarrow> ms_chat_type m = ''private''"

record text_env =
  tx_unicode :: unicode
  tx_casefold :: "ustring \<Rightarrow> ustring"
  tx_lower :: "ustring \<Rightarrow> ustring"
  tx_is_alpha :: "codepoint \<Rightarrow> bool"
  tx_decimal :: "codepoint \<Rightarrow> nat option"
  tx_sha256_hex :: "string \<Rightarrow> string"

section \<open>Replies\<close>

datatype reply =
    Help_Text language
  | Unlinked_Text language int
  | Forbidden_Text language
  | Unknown_Command_Text language
  | Language_Usage_Text language
  | Language_Changed_Text language
  | Callback_Unlinked_Text language
  | Callback_Forbidden_Text language
  | Callback_Invalid_Text language
  | Callback_Rate_Limited_Text language
  | Reason_Invalid_Text language
  | Reason_Expired_Text language
  | Reason_Prompt language incident_status
  | Incident_Not_Found_Text language
  | Incident_Stale_Version_Text language
  | Incident_Transition_Not_Allowed_Text language
  | Incident_Already_Applied language incident_status
  | Incident_Status_Changed language incident_status
  | Incident_In_Progress language
  | Incident_Transition_Failed language
  | Ip_Block_Disabled_Text language
  | Ip_Block_No_Source_Address_Text language
  | Ip_Block_Proposed_Text language
  | Ip_Block_Reused_Text language
  | Block_Rejection language rejection
  | Block_Proposal language plan_row
  | Block_Decision language decide_status
  | Overview_Report language
  | Servers_Report language
  | Incidents_Report language
  | Critical_Report language

definition format_transition_outcome :: "language \<Rightarrow> outcome \<Rightarrow> incident_status \<Rightarrow> reply" where
  "format_transition_outcome lang oc target_status =
     (if oc_http_status oc = 200
      then (if oc_replayed oc then Incident_Already_Applied lang target_status else Incident_Status_Changed lang target_status)
      else if oc_http_status oc = 404 then Incident_Not_Found_Text lang
      else if oc_conflict oc = Some ''stale_version'' then Incident_Stale_Version_Text lang
      else if oc_conflict oc = Some ''transition_not_allowed'' then Incident_Transition_Not_Allowed_Text lang
      else if oc_conflict oc = Some ''idempotency_key_reused'' then Incident_In_Progress lang
      else Incident_Transition_Failed lang)"

text \<open>The labels are keys of the catalogue.\<close>

record callback_answer =
  ca_text :: reply
  ca_show_alert :: bool
  ca_follow_up_text :: "reply option"
  ca_follow_up_keyboard :: "(string \<times> string) list"

definition plain_answer :: "reply \<Rightarrow> bool \<Rightarrow> callback_answer" where
  "plain_answer text alert = \<lparr>ca_text = text, ca_show_alert = alert, ca_follow_up_text = None, ca_follow_up_keyboard = []\<rparr>"

definition button :: "string \<Rightarrow> string option \<Rightarrow> (string \<times> string) result" where
  "button label v = (case v of
     None \<Rightarrow> Inl (CallbackDataError ''callback exceeds the Telegram size limit'') | Some t \<Rightarrow> Inr (label, t))"

definition build_block_decision_keyboard :: "uuid \<Rightarrow> (string \<times> string) list result" where
  "build_block_decision_keyboard plan_id =
     bind_r (button ''button.approve'' (encode_decide_block plan_id True)) (\<lambda>a.
     bind_r (button ''button.reject'' (encode_decide_block plan_id False)) (\<lambda>r. Inr [a, r]))"

section \<open>The router\<close>

record ip_block_settings =
  ib_enabled :: bool
  ib_require_second_operator :: bool
  ib_plan_ttl_seconds :: int
  ib_names :: nft_names

record router =
  ro_rate_limiter :: rate_limiter
  ro_result_limit :: int
  ro_pending_action_ttl_seconds :: int
  ro_ip_block :: ip_block_settings

definition make_router :: "rate_limiter \<Rightarrow> int \<Rightarrow> int \<Rightarrow> ip_block_settings \<Rightarrow> router result" where
  "make_router limiter result_limit ttl settings =
     bind_r (guard_r (1 \<le> result_limit \<and> result_limit \<le> 25) (ValueError ''telegram result limit must fit one query page'')) (\<lambda>_.
     bind_r (guard_r (1 \<le> ttl) (ValueError ''telegram pending action TTL must be positive'')) (\<lambda>_.
     Inr \<lparr>ro_rate_limiter = limiter, ro_result_limit = result_limit, ro_pending_action_ttl_seconds = ttl, ro_ip_block = settings\<rparr>))"

definition reply_language :: "telegram \<Rightarrow> int \<Rightarrow> language option \<Rightarrow> language" where
  "reply_language s sender_id client = (case stored_telegram_language s sender_id of
     Some l \<Rightarrow> l
   | None \<Rightarrow> (case client of Some l \<Rightarrow> l | None \<Rightarrow> default_language))"

definition first_word :: "ustring \<Rightarrow> ustring" where
  "first_word = takeWhile (\<lambda>c. \<not> is_space c)"

definition parse_command :: "text_env \<Rightarrow> ustring \<Rightarrow> ustring option" where
  "parse_command env text =
     (let stripped = strip_of is_space text in
      if stripped = [] \<or> hd stripped \<noteq> 47 then None
      else let lowered = tx_lower env (takeWhile (\<lambda>c. c \<noteq> 64) (first_word stripped)); name = drop 1 lowered in
        if 32 < length lowered \<or> name = [] \<or> \<not> list_all (tx_is_alpha env) name then None else Some lowered)"

definition parse_command_argument :: "ustring \<Rightarrow> ustring option" where
  "parse_command_argument text =
     (let rest = dropWhile (\<lambda>c. \<not> is_space c) (strip_of is_space text); argument = first_word (dropWhile is_space rest) in
      if argument = [] \<or> 16 < length argument then None else Some argument)"

definition set_language :: "text_env \<Rightarrow> telegram \<Rightarrow> int \<Rightarrow> ustring option \<Rightarrow> language \<Rightarrow> telegram \<times> reply" where
  "set_language env s sender_id argument current =
     (case Option.bind argument (\<lambda>a. supported_language (tx_casefold env a)) of
        None \<Rightarrow> (s, Language_Usage_Text current)
      | Some chosen \<Rightarrow>
        (case set_telegram_language s sender_id chosen of
           (s', True) \<Rightarrow> (s', Language_Changed_Text chosen)
         | (s', False) \<Rightarrow> (s', Language_Usage_Text current)))"

definition dispatch :: "ustring \<Rightarrow> language \<Rightarrow> reply" where
  "dispatch command lang =
     (if command = ascii ''/status'' then Overview_Report lang
      else if command = ascii ''/servers'' then Servers_Report lang
      else if command = ascii ''/incidents'' then Incidents_Report lang
      else if command = ascii ''/critical'' then Critical_Report lang
      else Unknown_Command_Text lang)"

definition apply_telegram_transition ::
  "text_env \<Rightarrow> telegram \<Rightarrow> time \<Rightarrow> principal \<Rightarrow> uuid \<Rightarrow> incident_status \<Rightarrow> int \<Rightarrow> ustring option \<Rightarrow> string \<Rightarrow> string \<Rightarrow> language
    \<Rightarrow> (telegram \<times> reply) result" where
  "apply_telegram_transition env s now actor incident_id target_status expected_version reason key request_id lang =
     (let t = \<lparr>tr_target = target_status, tr_expected_version = expected_version, tr_reason = reason\<rparr> in
      bind_r (transition_incident (tg_main s) now actor incident_id t key
        (canonical_transition_hash (tx_sha256_hex env) incident_id t) request_id) (\<lambda>(d, oc).
      Inr (set_main s d, format_transition_outcome lang oc target_status)))"

definition precheck_transition :: "telegram \<Rightarrow> uuid \<Rightarrow> incident_status \<Rightarrow> int \<Rightarrow> language \<Rightarrow> reply option" where
  "precheck_transition s incident_id target_status expected_version lang =
     (case find_row inc_id incident_id (incidents (tg_main s)) of
        None \<Rightarrow> Some (Incident_Not_Found_Text lang)
      | Some i \<Rightarrow>
          if inc_lock_version i \<noteq> expected_version then Some (Incident_Stale_Version_Text lang)
          else if \<not> is_transition_allowed (inc_status i) target_status then Some (Incident_Transition_Not_Allowed_Text lang)
          else None)"

section \<open>Messages\<close>

text \<open>The command branch of the transaction.\<close>

definition run_command ::
  "text_env \<Rightarrow> telegram \<Rightarrow> principal \<Rightarrow> int \<Rightarrow> ustring \<Rightarrow> ustring \<Rightarrow> language \<Rightarrow> telegram \<times> reply" where
  "run_command env s actor sender_id command text lang =
     (let s1 = delete_pending_action s sender_id in
      if command = ascii ''/help'' then (s1, Help_Text lang)
      else if command = ascii ''/lang'' then set_language env s1 sender_id (parse_command_argument text) lang
      else if \<not> role_has_permission (op_role actor) View_Incidents then (s1, Forbidden_Text lang)
      else (s1, dispatch command lang))"

text \<open>The other branch: a text may be the reason a pending action waits for.\<close>

definition take_reason ::
  "text_env \<Rightarrow> telegram \<Rightarrow> time \<Rightarrow> principal \<Rightarrow> int \<Rightarrow> ustring \<Rightarrow> int \<Rightarrow> language \<Rightarrow> (telegram \<times> reply option) result" where
  "take_reason env s now actor sender_id text update_id lang =
     (case load_pending_action s now sender_id of
        (s1, None, expired) \<Rightarrow> Inr (s1, if expired then Some (Reason_Expired_Text lang) else None)
      | (s1, Some p, _) \<Rightarrow>
        let s2 = delete_pending_action s1 sender_id in
        (case normalize_reason (tx_unicode env) (Some text) of
           Inl _ \<Rightarrow> Inr (s2, Some (Reason_Invalid_Text lang))
         | Inr reason \<Rightarrow>
           bind_r (apply_telegram_transition env s2 now actor (pd_incident_id p) (pd_target_status p) (pd_expected_version p) reason
             (''tg-msg-'' @ show_int update_id) (''telegram-msg-'' @ show_int update_id) lang) (\<lambda>(s3, r).
           Inr (s3, Some r))))"

definition message_transaction ::
  "text_env \<Rightarrow> telegram \<Rightarrow> time \<Rightarrow> telegram_sender \<Rightarrow> ustring \<Rightarrow> int \<Rightarrow> (telegram \<times> reply option) result" where
  "message_transaction env s now sender text update_id =
     (let client = language_from_client_tag (tx_casefold env) (sn_language_code sender) in
      case authenticate_telegram_user s now (sn_id sender) of
        (s1, None) \<Rightarrow> Inr (s1, Some (Unlinked_Text (case client of Some l \<Rightarrow> l | None \<Rightarrow> default_language) (sn_id sender)))
      | (s1, Some actor) \<Rightarrow>
        let lang = reply_language s1 (sn_id sender) client in
        (case parse_command env text of
           Some command \<Rightarrow> (case run_command env s1 actor (sn_id sender) command text lang of (s2, r) \<Rightarrow> Inr (s2, Some r))
         | None \<Rightarrow> take_reason env s1 now actor (sn_id sender) text update_id lang))"

definition handle_message ::
  "text_env \<Rightarrow> router \<Rightarrow> rat \<Rightarrow> telegram \<Rightarrow> time \<Rightarrow> telegram_message \<Rightarrow> int \<Rightarrow> router \<times> (telegram \<times> reply option) result" where
  "handle_message env r clock s now m update_id =
     (case (ms_sender m, ms_text m) of
        (Some sender, Some text) \<Rightarrow>
          if sn_is_bot sender \<or> \<not> is_private m then (r, Inr (s, None))
          else (case consume clock (show_int (sn_id sender)) (ro_rate_limiter r) of
            Inl e \<Rightarrow> (r, Inl e)
          | Inr (l, retry) \<Rightarrow> let r1 = r\<lparr>ro_rate_limiter := l\<rparr> in
              if retry \<noteq> None then (r1, Inr (s, None)) else (r1, message_transaction env s now sender text update_id))
      | _ \<Rightarrow> (r, Inr (s, None)))"

section \<open>Buttons\<close>

definition callback_request_id :: "text_env \<Rightarrow> ustring \<Rightarrow> string" where
  "callback_request_id env query_id = tx_sha256_hex env (utf8 query_id)"

definition callback_idempotency_key :: "text_env \<Rightarrow> ustring \<Rightarrow> string" where
  "callback_idempotency_key env query_id = ''tg-cb-'' @ tx_sha256_hex env (utf8 query_id)"

text \<open>Every button opens its transaction with the same three steps.\<close>

definition with_operator ::
  "telegram \<Rightarrow> time \<Rightarrow> int \<Rightarrow> language option \<Rightarrow> permission
    \<Rightarrow> (telegram \<Rightarrow> principal \<Rightarrow> language \<Rightarrow> (telegram \<times> callback_answer) result) \<Rightarrow> (telegram \<times> callback_answer) result" where
  "with_operator s now sender_id client required body =
     (case authenticate_telegram_user s now sender_id of
        (s1, None) \<Rightarrow> Inr (s1, plain_answer (Callback_Unlinked_Text (case client of Some l \<Rightarrow> l | None \<Rightarrow> default_language)) True)
      | (s1, Some actor) \<Rightarrow>
        let lang = reply_language s1 sender_id client in
        if \<not> role_has_permission (op_role actor) required then Inr (s1, plain_answer (Callback_Forbidden_Text lang) True)
        else body s1 actor lang)"

definition propose_answer :: "language \<Rightarrow> propose_result \<Rightarrow> callback_answer result" where
  "propose_answer lang result =
     (case (pr_status result, pr_plan result) of
        (Incident_Not_Found, _) \<Rightarrow> Inr (plain_answer (Incident_Not_Found_Text lang) True)
      | (No_Source_Address, _) \<Rightarrow> Inr (plain_answer (Ip_Block_No_Source_Address_Text lang) True)
      | (Propose_Rejected, _) \<Rightarrow> Inr (plain_answer (case pr_rejection_reason result of
            None \<Rightarrow> Callback_Invalid_Text lang | Some reason \<Rightarrow> Block_Rejection lang reason) True)
      | (_, None) \<Rightarrow> Inr (plain_answer (Callback_Invalid_Text lang) True)
      | (status, Some plan) \<Rightarrow>
          bind_r (build_block_decision_keyboard (pl_id plan)) (\<lambda>keyboard.
          Inr \<lparr>ca_text = (if status = Created then Ip_Block_Proposed_Text lang else Ip_Block_Reused_Text lang),
            ca_show_alert = False, ca_follow_up_text = Some (Block_Proposal lang plan), ca_follow_up_keyboard = keyboard\<rparr>))"

definition set_blocks :: "telegram \<Rightarrow> block_tables \<Rightarrow> telegram" where
  "set_blocks s t = s\<lparr>tg_blocks := t\<rparr>"

text \<open>The answer of a proposal is built after the transaction; building it cannot fail, see below.\<close>

definition handle_propose_block ::
  "text_env \<Rightarrow> ip_block_settings \<Rightarrow> telegram \<Rightarrow> time \<Rightarrow> uuid \<Rightarrow> callback_query \<Rightarrow> int \<Rightarrow> language option
    \<Rightarrow> (telegram \<times> callback_answer) result" where
  "handle_propose_block env settings s now incident_id q sender_id client =
     (let early = (case client of Some l \<Rightarrow> l | None \<Rightarrow> default_language) in
      if \<not> ib_enabled settings then Inr (s, plain_answer (Ip_Block_Disabled_Text early) True)
      else if cq_message q = None then Inr (s, plain_answer (Callback_Invalid_Text early) True)
      else with_operator s now sender_id client Propose_Ip_Block (\<lambda>s1 actor lang.
        bind_r (propose_ip_block (tg_blocks s1) now actor incident_id (callback_request_id env (cq_id q))
          (ib_plan_ttl_seconds settings) (ib_names settings)) (\<lambda>(t, result).
        bind_r (propose_answer lang result) (\<lambda>answer. Inr (set_blocks s1 t, answer)))))"

definition handle_decide_block ::
  "text_env \<Rightarrow> ip_block_settings \<Rightarrow> telegram \<Rightarrow> time \<Rightarrow> uuid \<Rightarrow> bool \<Rightarrow> callback_query \<Rightarrow> int \<Rightarrow> language option
    \<Rightarrow> (telegram \<times> callback_answer) result" where
  "handle_decide_block env settings s now plan_id approve q sender_id client =
     (let early = (case client of Some l \<Rightarrow> l | None \<Rightarrow> default_language);
          required = (if approve then Approve_Ip_Block else Propose_Ip_Block); request_id = callback_request_id env (cq_id q) in
      if \<not> ib_enabled settings then Inr (s, plain_answer (Ip_Block_Disabled_Text early) True)
      else with_operator s now sender_id client required (\<lambda>s1 actor lang.
        bind_r (if approve then approve_ip_block (tg_blocks s1) now actor plan_id request_id (ib_require_second_operator settings)
                else reject_ip_block (tg_blocks s1) now actor plan_id request_id) (\<lambda>(t, result).
        Inr (set_blocks s1 t, plain_answer (Block_Decision lang (dr_status result))
          (dr_status result \<notin> {Decided_Approved, Decided_Rejected})))))"

definition handle_incident_action ::
  "text_env \<Rightarrow> int \<Rightarrow> telegram \<Rightarrow> time \<Rightarrow> uuid \<Rightarrow> incident_status \<Rightarrow> int \<Rightarrow> callback_query \<Rightarrow> int \<Rightarrow> language option
    \<Rightarrow> (telegram \<times> callback_answer) result" where
  "handle_incident_action env ttl s now incident_id target_status expected_version q sender_id client =
     with_operator s now sender_id client Transition_Incidents (\<lambda>s1 actor lang.
       if target_status = Investigating
       then bind_r (apply_telegram_transition env s1 now actor incident_id target_status expected_version None
              (callback_idempotency_key env (cq_id q)) (callback_request_id env (cq_id q)) lang) (\<lambda>(s2, text).
            Inr (s2, plain_answer text False))
       else (case precheck_transition s1 incident_id target_status expected_version lang of
            Some err \<Rightarrow> Inr (s1, plain_answer err False)
          | None \<Rightarrow> bind_r (store_pending_action s1 now sender_id incident_id target_status expected_version ttl) (\<lambda>s2.
              Inr (s2, plain_answer (Reason_Prompt lang target_status) True))))"

text \<open>The three kinds of buttons.\<close>

definition press ::
  "text_env \<Rightarrow> router \<Rightarrow> telegram \<Rightarrow> time \<Rightarrow> callback_action \<Rightarrow> callback_query \<Rightarrow> int \<Rightarrow> language option
    \<Rightarrow> (telegram \<times> callback_answer) result" where
  "press env r s now action q sender_id client = (case action of
     Propose_Block i \<Rightarrow> handle_propose_block env (ro_ip_block r) s now i q sender_id client
   | Decide_Block p approve \<Rightarrow> handle_decide_block env (ro_ip_block r) s now p approve q sender_id client
   | Incident_Action i st v \<Rightarrow> handle_incident_action env (ro_pending_action_ttl_seconds r) s now i st v q sender_id client)"

definition handle_callback_query ::
  "text_env \<Rightarrow> router \<Rightarrow> rat \<Rightarrow> telegram \<Rightarrow> time \<Rightarrow> callback_query \<Rightarrow> router \<times> (telegram \<times> callback_answer) result" where
  "handle_callback_query env r clock s now q =
     (let client = Option.bind (cq_sender q) (\<lambda>sender. language_from_client_tag (tx_casefold env) (sn_language_code sender));
          early = (case client of Some l \<Rightarrow> l | None \<Rightarrow> default_language);
          invalid = (r, Inr (s, plain_answer (Callback_Invalid_Text early) True)) in
      case (cq_sender q, cq_data q) of
        (Some sender, Some data) \<Rightarrow>
          if sn_is_bot sender then invalid
          else (case parse_callback_data (tx_decimal env) data of
            None \<Rightarrow> invalid
          | Some action \<Rightarrow>
            (case consume clock (show_int (sn_id sender)) (ro_rate_limiter r) of
               Inl e \<Rightarrow> (r, Inl e)
             | Inr (l, retry) \<Rightarrow> let r1 = r\<lparr>ro_rate_limiter := l\<rparr> in
                 if retry \<noteq> None then (r1, Inr (s, plain_answer (Callback_Rate_Limited_Text early) True))
                 else (r1, press env r s now action q (sn_id sender) client)))
      | _ \<Rightarrow> invalid)"

end
