(* ===== verification/Telegram_Updates.thy ===== *)
theory Telegram_Updates
  imports Telegram_Router
begin

text \<open>
  What one update can do to the tables: everything done through Telegram is done for the active operator behind a
  linked account and attributed to that operator and link in the audit log. A button runs exactly the operation it
  names, with its permission. A message needs no permission of its own: it withdraws or completes what the account's
  own button asked for, or chooses the account's language.
\<close>

section \<open>One update\<close>

record telegram_update =
  up_id :: int
  up_message :: "telegram_message option"
  up_callback_query :: "callback_query option"

datatype outgoing =
    Nothing_To_Send
  | Send_Message int reply
  | Answer_Callback ustring callback_answer

text \<open>\<open>_handle_update\<close> of the poller up to the calls of the Bot API, which change no table.\<close>

definition handle_update ::
  "text_env \<Rightarrow> router \<Rightarrow> rat \<Rightarrow> telegram \<Rightarrow> time \<Rightarrow> telegram_update \<Rightarrow> router \<times> (telegram \<times> outgoing) result" where
  "handle_update env r clock s now u =
     (case up_callback_query u of
        Some q \<Rightarrow> (case handle_callback_query env r clock s now q of
          (r1, res) \<Rightarrow> (r1, bind_r res (\<lambda>(s1, a). Inr (s1, Answer_Callback (cq_id q) a))))
      | None \<Rightarrow>
        (case up_message u of
           None \<Rightarrow> (r, Inr (s, Nothing_To_Send))
         | Some m \<Rightarrow> (case handle_message env r clock s now m (up_id u) of
             (r1, res) \<Rightarrow> (r1, bind_r res (\<lambda>(s1, reply). Inr (s1,
               case reply of None \<Rightarrow> Nothing_To_Send | Some t \<Rightarrow> Send_Message (ms_chat_id m) t))))))"

definition update_sender :: "telegram_update \<Rightarrow> telegram_sender option" where
  "update_sender u = (case up_callback_query u of
     Some q \<Rightarrow> cq_sender q | None \<Rightarrow> Option.bind (up_message u) ms_sender)"

definition update_action :: "text_env \<Rightarrow> telegram_update \<Rightarrow> callback_action option" where
  "update_action env u = Option.bind (up_callback_query u) (\<lambda>q. Option.bind (cq_data q) (parse_callback_data (tx_decimal env)))"

fun required_permission :: "callback_action \<Rightarrow> permission" where
  "required_permission (Incident_Action i st v) = Transition_Incidents"
| "required_permission (Propose_Block i) = Propose_Ip_Block"
| "required_permission (Decide_Block p approve) = (if approve then Approve_Ip_Block else Propose_Ip_Block)"

section \<open>Attribution\<close>

definition performed :: "principal \<Rightarrow> audit_row \<Rightarrow> bool" where
  "performed actor e \<longleftrightarrow> au_actor_type e = Actor_Operator \<and> au_operator_id e = Some (op_operator_id actor)
     \<and> au_auth_type e = Some (op_auth_type actor) \<and> au_auth_id e = Some (op_auth_id actor)"

definition attributed :: "principal \<Rightarrow> db \<Rightarrow> db \<Rightarrow> bool" where
  "attributed actor d d' \<longleftrightarrow> (\<exists>es. audit_log d' = audit_log d @ es \<and> (\<forall>e \<in> set es. performed actor e)
     \<and> (incidents d' \<noteq> incidents d \<or> history d' \<noteq> history d \<longrightarrow> es \<noteq> []))"

lemma attributed_same [intro]:
  "audit_log d' = audit_log d \<Longrightarrow> incidents d' = incidents d \<Longrightarrow> history d' = history d \<Longrightarrow> attributed actor d d'"
  by (simp add: attributed_def)

lemma attributed_logged:
  "performed actor e \<Longrightarrow> audit_log d' = audit_log d @ [e] \<Longrightarrow> attributed actor d d'"
  by (simp add: attributed_def)

lemma transition_attributed:
  assumes "transition_incident d now actor incident_id t key h request_id = Inr (d', oc)"
  shows "attributed actor d d'"
  using assms
proof (cases rule: transition_incident_cases)
  case (applied i)
  from applied(5) show ?thesis
    by (rule apply_transition_Inr) (auto intro!: attributed_logged simp: performed_def)
qed auto

definition block_act :: "principal \<Rightarrow> block_tables \<Rightarrow> block_tables \<Rightarrow> bool" where
  "block_act actor t t' \<longleftrightarrow> attributed actor (bt_main t) (bt_main t') \<and> incidents (bt_main t') = incidents (bt_main t)
     \<and> history (bt_main t') = history (bt_main t) \<and> idempotency (bt_main t') = idempotency (bt_main t)
     \<and> bt_allowlist t' = bt_allowlist t \<and> next_uuid (bt_main t) \<le> next_uuid (bt_main t')"

lemma block_act_refl [simp]: "block_act actor t t"
  by (auto simp: block_act_def)

lemma log_block_action_act:
  assumes "log_block_action t1 now actor action pid request_id details = Inr t'"
    "incidents (bt_main t1) = incidents (bt_main t)" "history (bt_main t1) = history (bt_main t)"
    "idempotency (bt_main t1) = idempotency (bt_main t)" "audit_log (bt_main t1) = audit_log (bt_main t)" "bt_allowlist t1 = bt_allowlist t"
    "next_uuid (bt_main t) \<le> next_uuid (bt_main t1)"
  shows "block_act actor t t'"
proof -
  from assms(1) obtain d e where rec: "record_operator_action (bt_main t1) now actor action ''ip_block_plan'' pid request_id None details = Inr (d, e)"
    and t': "t' = t1\<lparr>bt_main := d\<rparr>" by (auto simp: log_block_action_def bind_r_eq_Inr)
  note r = record_operator_action_Inr [OF rec]
  have "performed actor e" by (simp add: performed_def r(7,9,11,12))
  then have "attributed actor (bt_main t) d" by (rule attributed_logged) (simp add: r(1) assms(5))
  then show ?thesis by (simp add: block_act_def t' assms(2-6)) (simp add: r(1) assms(2-4,7) le_SucI)
qed

lemma decide_plan_act:
  assumes "decide_plan t now actor request_id status action plan = Inr (t', p)"
  shows "block_act actor t t'"
  using assms unfolding decide_plan_def Let_def bind_r_eq_Inr update_plan_def
  by (elim exE conjE) (auto elim!: log_block_action_act simp: bind_r_eq_Inr)

lemma approve_act:
  assumes "approve_ip_block t now actor plan_id request_id second = Inr (t', r)"
  shows "block_act actor t t'"
  using assms by (auto simp: approve_ip_block_def bind_r_eq_Inr Let_def split: sum.split_asm if_split_asm intro: decide_plan_act)

lemma reject_act:
  assumes "reject_ip_block t now actor plan_id request_id = Inr (t', r)"
  shows "block_act actor t t'"
  using assms by (auto simp: reject_ip_block_def bind_r_eq_Inr split: sum.split_asm intro: decide_plan_act)

lemma write_proposal_frame:
  assumes "write_proposal t now actor request_id ttl argv incident address existing = Inr (t1, p)"
  shows "incidents (bt_main t1) = incidents (bt_main t)" "history (bt_main t1) = history (bt_main t)"
    "idempotency (bt_main t1) = idempotency (bt_main t)" "audit_log (bt_main t1) = audit_log (bt_main t)" "bt_allowlist t1 = bt_allowlist t"
    "next_uuid (bt_main t) \<le> next_uuid (bt_main t1)"
  using assms
  by (auto simp: write_proposal_def refresh_plan_def create_plan_def insert_plan_def update_plan_def bind_r_eq_Inr Let_def uuid4_def
      split: option.split_asm)

lemma propose_act:
  assumes "propose_ip_block t now actor incident_id request_id ttl names = Inr (t', r)"
  shows "block_act actor t t'"
proof (cases "t' = t")
  case False
  with assms obtain argv incident a existing t1 p where
    1: "write_proposal t now actor request_id ttl argv incident (show_ip a) existing = Inr (t1, p)"
      "log_block_action t1 now actor ''ip_block_plan.proposed'' (pl_id p) request_id
         [(''incident_id'', JStr (uuid_str incident_id)), (''ip_address'', JStr (show_ip a))] = Inr t'"
    unfolding propose_ip_block_def Let_def bind_r_eq_Inr guard_r_eq_Inr
    by (elim exE conjE) (auto simp: bind_r_eq_Inr split: option.split_asm if_split_asm)
  show ?thesis by (rule log_block_action_act [OF 1(2)]) (rule write_proposal_frame [OF 1(1)])+
qed simp

section \<open>Who acts\<close>

text \<open>The operator behind an account, and what of a link an update can never change.\<close>

definition acting :: "telegram \<Rightarrow> int \<Rightarrow> telegram_link_row \<Rightarrow> operator_row \<Rightarrow> bool" where
  "acting s user_id l operator \<longleftrightarrow> active_link_for_user s user_id = Some l
     \<and> find_row opr_id (tl_operator_id l) (tg_operators s) = Some operator \<and> opr_is_active operator"

definition link_core :: "telegram_link_row \<Rightarrow> uuid \<times> uuid \<times> int \<times> time \<times> time option" where
  "link_core l = (tl_id l, tl_operator_id l, tl_user_id l, tl_created_at l, tl_revoked_at l)"

definition frame :: "telegram \<Rightarrow> telegram \<Rightarrow> bool" where
  "frame s s' \<longleftrightarrow> tg_operators s' = tg_operators s \<and> bt_allowlist (tg_blocks s') = bt_allowlist (tg_blocks s)
     \<and> tg_offset s' = tg_offset s \<and> map link_core (tg_links s') = map link_core (tg_links s)"

lemma frame_refl [simp]: "frame s s"
  by (simp add: frame_def)

lemma frame_trans: "frame s t \<Longrightarrow> frame t u \<Longrightarrow> frame s u"
  by (simp add: frame_def)

lemma update_link_frame:
  assumes "\<And>l. link_core (f l) = link_core l"
  shows "frame s (update_link s k f)" "tg_blocks (update_link s k f) = tg_blocks s" "tg_pending (update_link s k f) = tg_pending s"
  using assms by (simp_all add: frame_def update_link_def map_update_where)

lemma set_main_simps [simp]:
  "tg_main (set_main s d) = d" "bt_plans (tg_blocks (set_main s d)) = bt_plans (tg_blocks s)"
  "bt_allowlist (tg_blocks (set_main s d)) = bt_allowlist (tg_blocks s)" "tg_pending (set_main s d) = tg_pending s"
  "tg_links (set_main s d) = tg_links s" "tg_operators (set_main s d) = tg_operators s" "tg_offset (set_main s d) = tg_offset s"
  by (simp_all add: set_main_def)

lemma set_main_frame [simp]: "frame s (set_main s d)"
  by (simp add: frame_def)

lemma set_blocks_simps [simp]:
  "tg_blocks (set_blocks s t) = t" "tg_pending (set_blocks s t) = tg_pending s" "tg_links (set_blocks s t) = tg_links s"
  "tg_operators (set_blocks s t) = tg_operators s" "tg_offset (set_blocks s t) = tg_offset s"
  by (simp_all add: set_blocks_def)

lemma delete_pending_simps [simp]:
  "tg_blocks (delete_pending_action s k) = tg_blocks s" "tg_links (delete_pending_action s k) = tg_links s"
  "tg_operators (delete_pending_action s k) = tg_operators s" "tg_offset (delete_pending_action s k) = tg_offset s"
  "set (tg_pending (delete_pending_action s k)) = {p \<in> set (tg_pending s). pd_user_id p \<noteq> k}"
  by (simp_all add: delete_pending_action_def)

lemma delete_pending_frame [simp]: "frame s (delete_pending_action s k)"
  by (simp add: frame_def)

lemma authenticate_cases:
  assumes "authenticate_telegram_user s now user_id = (s1, who)"
  obtains (nobody) "who = None" "s1 = s"
  | (somebody) l operator where "acting s user_id l operator" "who = Some (telegram_principal operator l)"
      "s1 = update_link s (tl_id l) (\<lambda>l. l\<lparr>tl_last_used_at := Some now\<rparr>)" "1 \<le> user_id" "user_id \<le> telegram_user_id_max"
proof (cases who)
  case None
  with assms have "s1 = s"
    by (auto simp: authenticate_telegram_user_def split: sum.split_asm option.split_asm if_split_asm)
  with None nobody show ?thesis by simp
next
  case (Some actor)
  with assms obtain l operator where "active_link_for_user s user_id = Some l" "1 \<le> user_id \<and> user_id \<le> telegram_user_id_max"
    "find_row opr_id (tl_operator_id l) (tg_operators s) = Some operator" "opr_is_active operator"
    "actor = telegram_principal operator l" "s1 = update_link s (tl_id l) (\<lambda>l. l\<lparr>tl_last_used_at := Some now\<rparr>)"
    by (auto simp: authenticate_telegram_user_def validate_telegram_user_id_def bind_r_eq_Inr
        split: sum.split_asm option.split_asm if_split_asm)
  with Some show ?thesis by (intro somebody [of l operator]) (simp_all add: acting_def)
qed

lemma touched_frame:
  "frame s (update_link s k (\<lambda>l. l\<lparr>tl_last_used_at := t\<rparr>))" "frame s (update_link s k (\<lambda>l. l\<lparr>tl_language := v\<rparr>))"
  "tg_blocks (update_link s k f) = tg_blocks s" "tg_pending (update_link s k f) = tg_pending s"
proof -
  show "frame s (update_link s k (\<lambda>l. l\<lparr>tl_last_used_at := t\<rparr>))" by (rule update_link_frame(1)) (simp add: link_core_def)
  show "frame s (update_link s k (\<lambda>l. l\<lparr>tl_language := v\<rparr>))" by (rule update_link_frame(1)) (simp add: link_core_def)
qed (simp_all add: update_link_def)

text \<open>The state after authentication, and a handling that comes to no more than it.\<close>

definition touch :: "telegram \<Rightarrow> time \<Rightarrow> telegram_link_row \<Rightarrow> telegram" where
  "touch s now l = update_link s (tl_id l) (\<lambda>l. l\<lparr>tl_last_used_at := Some now\<rparr>)"

lemma touch_simps [simp]:
  "frame s (touch s now l)" "tg_blocks (touch s now l) = tg_blocks s" "tg_pending (touch s now l) = tg_pending s"
  unfolding touch_def by (rule touched_frame)+

definition rested :: "telegram \<Rightarrow> time \<Rightarrow> int \<Rightarrow> telegram \<Rightarrow> bool" where
  "rested s now user_id s' \<longleftrightarrow> s' = s \<or> (\<exists>l operator. acting s user_id l operator \<and> s' = touch s now l)"

lemma rested_refl [simp]: "rested s now user_id s"
  by (simp add: rested_def)

lemma rested_touch: "acting s user_id l operator \<Longrightarrow> rested s now user_id (touch s now l)"
  by (auto simp: rested_def)

text \<open>A button either changes nothing but the time of the last use, or runs for an operator with the permission.\<close>

lemma with_operator_cases:
  assumes "with_operator s now user_id client required body = Inr (s', a)"
  obtains (denied) "frame s s'" "tg_blocks s' = tg_blocks s" "tg_pending s' = tg_pending s" "rested s now user_id s'"
  | (acts) l operator s1 lang where "acting s user_id l operator" "role_has_permission (opr_role operator) required"
      "frame s s1" "tg_blocks s1 = tg_blocks s" "tg_pending s1 = tg_pending s" "1 \<le> user_id" "user_id \<le> telegram_user_id_max"
      "s1 = update_link s (tl_id l) (\<lambda>l. l\<lparr>tl_last_used_at := Some now\<rparr>)"
      "body s1 (telegram_principal operator l) lang = Inr (s', a)"
proof -
  obtain s1 who where auth: "authenticate_telegram_user s now user_id = (s1, who)" by fastforce
  then show ?thesis
  proof (cases rule: authenticate_cases)
    case nobody
    with assms auth denied show ?thesis by (simp add: with_operator_def)
  next
    case (somebody l operator)
    have f: "frame s s1" "tg_blocks s1 = tg_blocks s" "tg_pending s1 = tg_pending s" unfolding somebody(3) by (rule touched_frame)+
    show ?thesis
    proof (cases "role_has_permission (opr_role operator) required")
      case True
      with assms auth somebody f show ?thesis
        by (intro acts) (auto simp: with_operator_def Let_def telegram_principal_def)
    next
      case False
      with assms auth somebody have "s' = s1" by (auto simp: with_operator_def Let_def telegram_principal_def)
      with f denied rested_touch [OF somebody(1)] somebody(3) show ?thesis by (simp add: touch_def)
    qed
  qed
qed

definition button_effect :: "telegram \<Rightarrow> int \<Rightarrow> permission \<Rightarrow> telegram \<Rightarrow> bool" where
  "button_effect s user_id required s' \<longleftrightarrow> frame s s' \<and> (tg_blocks s' = tg_blocks s \<and> tg_pending s' = tg_pending s
     \<or> (\<exists>l operator. acting s user_id l operator \<and> role_has_permission (opr_role operator) required
         \<and> attributed (telegram_principal operator l) (tg_main s) (tg_main s')
         \<and> (\<forall>p \<in> set (tg_pending s') - set (tg_pending s). pd_user_id p = user_id \<and> required = Transition_Incidents)))"

lemma button_effect_refl [simp]: "button_effect s user_id required s"
  by (simp add: button_effect_def)

text \<open>The three kinds of buttons, each with the one operation it runs.\<close>

definition quiet :: "telegram \<Rightarrow> telegram \<Rightarrow> bool" where
  "quiet s s' \<longleftrightarrow> frame s s' \<and> tg_blocks s' = tg_blocks s \<and> tg_pending s' = tg_pending s"

lemma quiet_refl [simp]: "quiet s s"
  by (simp add: quiet_def)

lemma quietI: "frame s s' \<Longrightarrow> tg_blocks s' = tg_blocks s \<Longrightarrow> tg_pending s' = tg_pending s \<Longrightarrow> quiet s s'"
  by (simp add: quiet_def)

lemma quiet_touch [simp]: "quiet s (touch s now l)"
  by (simp add: quiet_def)

lemma quiet_effect: "quiet s s' \<Longrightarrow> button_effect s user_id required s'"
  by (simp add: quiet_def button_effect_def)

lemma propose_cases:
  assumes "handle_propose_block env settings s now incident_id q user_id client = Inr (s', a)"
  obtains (idle) "quiet s s'" "rested s now user_id s'"
  | (ran) l operator t result where "acting s user_id l operator" "role_has_permission (opr_role operator) Propose_Ip_Block"
      "s' = set_blocks (touch s now l) t" "propose_ip_block (tg_blocks s) now (telegram_principal operator l) incident_id
         (callback_request_id env (cq_id q)) (ib_plan_ttl_seconds settings) (ib_names settings) = Inr (t, result)"
proof (cases "ib_enabled settings \<and> cq_message q \<noteq> None")
  case True
  with assms have "with_operator s now user_id client Propose_Ip_Block (\<lambda>s1 actor lang.
        bind_r (propose_ip_block (tg_blocks s1) now actor incident_id (callback_request_id env (cq_id q))
          (ib_plan_ttl_seconds settings) (ib_names settings)) (\<lambda>(t, result).
        bind_r (propose_answer lang result) (\<lambda>answer. Inr (set_blocks s1 t, answer)))) = Inr (s', a)"
    by (simp add: handle_propose_block_def)
  then show ?thesis
  proof (cases rule: with_operator_cases)
    case denied
    then show ?thesis by (intro idle quietI)
  next
    case (acts l operator s1 lang)
    from acts(9) obtain t result where "s' = set_blocks s1 t" "propose_ip_block (tg_blocks s1) now (telegram_principal operator l) incident_id
        (callback_request_id env (cq_id q)) (ib_plan_ttl_seconds settings) (ib_names settings) = Inr (t, result)"
      by (auto simp: bind_r_eq_Inr)
    with ran [OF acts(1,2), of t result] acts(4,8) show ?thesis by (simp only: touch_def)
  qed
next
  case False
  with assms have "s' = s" by (auto simp: handle_propose_block_def Let_def split: if_splits)
  then show ?thesis by (intro idle) simp_all
qed

lemma decide_cases:
  assumes "handle_decide_block env settings s now plan_id approve q user_id client = Inr (s', a)"
  obtains (idle) "quiet s s'" "rested s now user_id s'"
  | (ran) l operator t result where "acting s user_id l operator"
      "role_has_permission (opr_role operator) (if approve then Approve_Ip_Block else Propose_Ip_Block)"
      "s' = set_blocks (touch s now l) t" "(if approve then approve_ip_block (tg_blocks s) now (telegram_principal operator l) plan_id
           (callback_request_id env (cq_id q)) (ib_require_second_operator settings)
         else reject_ip_block (tg_blocks s) now (telegram_principal operator l) plan_id (callback_request_id env (cq_id q))) = Inr (t, result)"
proof (cases "ib_enabled settings")
  case True
  let ?body = "\<lambda>s1 actor lang.
        bind_r (if approve then approve_ip_block (tg_blocks s1) now actor plan_id (callback_request_id env (cq_id q)) (ib_require_second_operator settings)
                else reject_ip_block (tg_blocks s1) now actor plan_id (callback_request_id env (cq_id q))) (\<lambda>(t, result).
        Inr (set_blocks s1 t, plain_answer (Block_Decision lang (dr_status result))
          (dr_status result \<notin> {Decided_Approved, Decided_Rejected})))"
  from True assms have "with_operator s now user_id client (if approve then Approve_Ip_Block else Propose_Ip_Block) ?body = Inr (s', a)"
    by (simp add: handle_decide_block_def Let_def)
  then show ?thesis
  proof (cases rule: with_operator_cases)
    case denied
    then show ?thesis by (intro idle quietI)
  next
    case (acts l operator s1 lang)
    from acts(9) obtain t result where "s' = set_blocks s1 t" "(if approve then approve_ip_block (tg_blocks s1) now (telegram_principal operator l) plan_id
           (callback_request_id env (cq_id q)) (ib_require_second_operator settings)
         else reject_ip_block (tg_blocks s1) now (telegram_principal operator l) plan_id (callback_request_id env (cq_id q))) = Inr (t, result)"
      by (auto simp: bind_r_eq_Inr)
    with ran [OF acts(1,2), of t result] acts(4,8) show ?thesis by (simp only: touch_def)
  qed
next
  case False
  with assms have "s' = s" by (auto simp: handle_decide_block_def Let_def split: if_splits)
  then show ?thesis by (intro idle) simp_all
qed

lemma apply_telegram_Inr:
  assumes "apply_telegram_transition env s now actor incident_id target v reason key request_id lang = Inr (s', r)"
  obtains d oc t where "s' = set_main s d" "r = format_transition_outcome lang oc target"
    "t = \<lparr>tr_target = target, tr_expected_version = v, tr_reason = reason\<rparr>"
    "transition_incident (tg_main s) now actor incident_id t key (canonical_transition_hash (tx_sha256_hex env) incident_id t) request_id = Inr (d, oc)"
  using assms by (auto simp: apply_telegram_transition_def bind_r_eq_Inr Let_def)

lemma incident_action_cases:
  assumes "handle_incident_action env ttl s now incident_id target v q user_id client = Inr (s', a)"
  obtains (idle) "quiet s s'" "rested s now user_id s'"
  | (moved) l operator d oc t h where "acting s user_id l operator" "role_has_permission (opr_role operator) Transition_Incidents"
      "s' = set_main (touch s now l) d" "transition_incident (tg_main s) now (telegram_principal operator l) incident_id t
         (callback_idempotency_key env (cq_id q)) h (callback_request_id env (cq_id q)) = Inr (d, oc)"
      "target = Investigating" "t = \<lparr>tr_target = target, tr_expected_version = v, tr_reason = None\<rparr>"
      "h = canonical_transition_hash (tx_sha256_hex env) incident_id t"
  | (asked) l operator where "acting s user_id l operator" "role_has_permission (opr_role operator) Transition_Incidents"
      "store_pending_action (touch s now l) now user_id incident_id target v ttl = Inr s'" "target \<noteq> Investigating"
  using assms unfolding handle_incident_action_def
proof (cases rule: with_operator_cases)
  case denied
  then show ?thesis by (intro idle quietI)
next
  case (acts l operator s1 lang)
  have s1: "s1 = touch s now l" using acts(8) by (simp add: touch_def)
  show ?thesis
  proof (cases "target = Investigating")
    case True
    with acts(9) obtain reply where "apply_telegram_transition env s1 now (telegram_principal operator l) incident_id target v None
        (callback_idempotency_key env (cq_id q)) (callback_request_id env (cq_id q)) lang = Inr (s', reply)"
      by (auto simp: bind_r_eq_Inr)
    then show ?thesis by (rule apply_telegram_Inr) (use moved [OF acts(1,2)] s1 True in simp)
  next
    case False
    with acts(9) s1 have "s' = touch s now l \<or> store_pending_action (touch s now l) now user_id incident_id target v ttl = Inr s'"
      by (cases "precheck_transition s1 incident_id target v lang") (auto simp: bind_r_eq_Inr)
    with idle asked [OF acts(1,2) _ False] quiet_touch rested_touch [OF acts(1)] show ?thesis by blast
  qed
qed

lemma store_pending_Inr:
  assumes "store_pending_action s now user_id incident_id target v ttl = Inr s'"
  obtains p ps where "s' = s\<lparr>tg_pending := ps\<rparr>" "pending_check p" "pd_user_id p = user_id"
    "ps = (if find_row pd_user_id user_id (tg_pending s) = None then tg_pending s @ [p]
       else update_where (\<lambda>q. pd_user_id q = user_id) (\<lambda>_. p) (tg_pending s))" "set ps \<subseteq> insert p (set (tg_pending s))"
proof -
  let ?p = "\<lparr>pd_user_id = user_id, pd_incident_id = incident_id,
      pd_target_status = target, pd_expected_version = v, pd_created_at = now, pd_expires_at = now + ttl * 1000000\<rparr>"
  let ?ps = "if find_row pd_user_id user_id (tg_pending s) = None then tg_pending s @ [?p]
       else update_where (\<lambda>q. pd_user_id q = user_id) (\<lambda>_. ?p) (tg_pending s)"
  have "set ?ps \<subseteq> insert ?p (set (tg_pending s))" by (auto simp: set_update_where)
  then show ?thesis using assms
    by (intro that [of ?ps ?p]) (auto simp: store_pending_action_def bind_r_eq_Inr Let_def)
qed

lemma blocks_effect:
  assumes "acting s user_id l operator" "role_has_permission (opr_role operator) required" "block_act (telegram_principal operator l) (tg_blocks s) t"
  shows "button_effect s user_id required (set_blocks (touch s now l) t)"
proof -
  have "frame s (set_blocks (touch s now l) t)"
    using touch_simps(1) [of s now l] assms(3) by (simp add: frame_def block_act_def)
  with assms show ?thesis by (auto simp: button_effect_def block_act_def)
qed

lemma press_effect:
  assumes "press env r s now action q user_id client = Inr (s', a)"
  shows "button_effect s user_id (required_permission action) s'"
proof (cases action)
  case (Propose_Block i)
  with assms have "handle_propose_block env (ro_ip_block r) s now i q user_id client = Inr (s', a)" by (simp add: press_def)
  then show ?thesis
    by (cases rule: propose_cases) (auto simp: Propose_Block quiet_effect intro!: blocks_effect propose_act)
next
  case (Decide_Block p approve)
  with assms have "handle_decide_block env (ro_ip_block r) s now p approve q user_id client = Inr (s', a)" by (simp add: press_def)
  then show ?thesis
  proof (cases rule: decide_cases)
    case (ran l operator t result)
    then have "block_act (telegram_principal operator l) (tg_blocks s) t" by (auto split: if_splits intro: approve_act reject_act)
    with ran show ?thesis by (simp add: Decide_Block blocks_effect)
  qed (rule quiet_effect)
next
  case (Incident_Action i st v)
  with assms have "handle_incident_action env (ro_pending_action_ttl_seconds r) s now i st v q user_id client = Inr (s', a)" by (simp add: press_def)
  then show ?thesis
  proof (cases rule: incident_action_cases)
    case (moved l operator d oc t h)
    have "attributed (telegram_principal operator l) (tg_main s) d" by (rule transition_attributed [OF moved(4)])
    moreover have "frame s s'" unfolding moved(3) using touch_simps(1) set_main_frame by (rule frame_trans)
    ultimately show ?thesis using moved by (auto simp: Incident_Action button_effect_def)
  next
    case (asked l operator)
    from asked(3) obtain p ps where p: "s' = (touch s now l)\<lparr>tg_pending := ps\<rparr>" "pd_user_id p = user_id" "set ps \<subseteq> insert p (set (tg_pending s))"
      by (rule store_pending_Inr) simp
    have "frame s s'" using touch_simps(1) [of s now l] by (simp add: p(1) frame_def)
    with asked p show ?thesis by (auto simp: Incident_Action button_effect_def)
  qed (rule quiet_effect)
qed

text \<open>What a message can do: cancel or complete a pending action of its account.\<close>

lemma run_command_effect:
  assumes "run_command env s actor user_id command text lang = (s', r)"
  shows "frame s s' \<and> tg_blocks s' = tg_blocks s \<and> set (tg_pending s') \<subseteq> set (tg_pending s)"
proof -
  let ?s1 = "delete_pending_action s user_id"
  have "s' = ?s1 \<or> (\<exists>k f. s' = update_link ?s1 k f \<and> frame ?s1 s')"
    using assms
    by (auto simp: run_command_def Let_def set_language_def set_telegram_language_def touched_frame
        split: if_splits option.splits sum.splits bool.splits prod.splits)
  then show ?thesis using frame_trans [OF delete_pending_frame [of s user_id]] by (auto simp: touched_frame)
qed

lemma load_pending_cases:
  assumes "load_pending_action s now user_id = (s1, live, expired)"
  obtains (none) "live = None" "frame s s1" "tg_blocks s1 = tg_blocks s" "set (tg_pending s1) \<subseteq> set (tg_pending s)"
  | (live) p where "live = Some p" "s1 = s" "find_row pd_user_id user_id (tg_pending s) = Some p" "now < pd_expires_at p"
proof (cases "live = None")
  case True
  with assms show ?thesis by (intro none) (auto simp: load_pending_action_def split: option.split_asm if_split_asm)
next
  case False
  with assms obtain p where "live = Some p \<and> s1 = s \<and> find_row pd_user_id user_id (tg_pending s) = Some p \<and> now < pd_expires_at p"
    by (auto simp: load_pending_action_def split: option.split_asm if_split_asm)
  with live show ?thesis by blast
qed

definition reason_effect :: "telegram \<Rightarrow> time \<Rightarrow> int \<Rightarrow> telegram \<Rightarrow> principal \<Rightarrow> bool" where
  "reason_effect s now user_id s' actor \<longleftrightarrow> frame s s' \<and> set (tg_pending s') \<subseteq> set (tg_pending s)
     \<and> attributed actor (tg_main s) (tg_main s') \<and> bt_plans (tg_blocks s') = bt_plans (tg_blocks s)
     \<and> (tg_blocks s' \<noteq> tg_blocks s \<longrightarrow> (\<exists>p. find_row pd_user_id user_id (tg_pending s) = Some p \<and> now < pd_expires_at p
         \<and> p \<notin> set (tg_pending s')))"

lemma take_reason_cases:
  assumes "take_reason env s now actor user_id body update_id lang = Inr (s', r)"
  obtains (idle) "frame s s'" "tg_blocks s' = tg_blocks s" "set (tg_pending s') \<subseteq> set (tg_pending s)"
      "s' = s \<or> s' = delete_pending_action s user_id"
  | (completed) p reason d oc tr where "find_row pd_user_id user_id (tg_pending s) = Some p" "now < pd_expires_at p"
      "normalize_reason (tx_unicode env) (Some body) = Inr reason"
      "s' = set_main (delete_pending_action s user_id) d"
      "tr = \<lparr>tr_target = pd_target_status p, tr_expected_version = pd_expected_version p, tr_reason = reason\<rparr>"
      "transition_incident (tg_main s) now actor (pd_incident_id p) tr
          (''tg-msg-'' @ show_int update_id) (canonical_transition_hash (tx_sha256_hex env) (pd_incident_id p) tr)
          (''telegram-msg-'' @ show_int update_id) = Inr (d, oc)"
proof -
  obtain s1 live expired where load: "load_pending_action s now user_id = (s1, live, expired)" by (metis prod_cases3)
  then show ?thesis
  proof (cases rule: load_pending_cases)
    case none
    with assms load have "s' = s1" by (simp add: take_reason_def)
    moreover from load none have "s1 = s \<or> s1 = delete_pending_action s user_id"
      by (auto simp: load_pending_action_def split: option.split_asm if_split_asm)
    ultimately show ?thesis using none by (intro idle) simp_all
  next
    case (live p)
    let ?s2 = "delete_pending_action s user_id"
    show ?thesis
    proof (cases "normalize_reason (tx_unicode env) (Some body)")
      case (Inl e)
      with assms load live have "s' = ?s2" by (simp add: take_reason_def Let_def)
      then show ?thesis by (intro idle) auto
    next
      case (Inr reason)
      with assms load live obtain t where "apply_telegram_transition env ?s2 now actor (pd_incident_id p) (pd_target_status p)
          (pd_expected_version p) reason (''tg-msg-'' @ show_int update_id) (''telegram-msg-'' @ show_int update_id) lang = Inr (s', t)"
        by (auto simp: take_reason_def Let_def bind_r_eq_Inr)
      then show ?thesis by (rule apply_telegram_Inr) (use completed [OF live(3,4) Inr] in simp)
    qed
  qed
qed

lemma take_reason_effect:
  assumes "take_reason env s now actor user_id body update_id lang = Inr (s', r)"
  shows "reason_effect s now user_id s' actor"
  using assms
proof (cases rule: take_reason_cases)
  case idle
  then show ?thesis by (auto simp: reason_effect_def)
next
  case (completed p reason d oc tr)
  let ?s2 = "delete_pending_action s user_id"
  have "p \<notin> set (tg_pending ?s2)" using find_row_SomeD [OF completed(1)] by simp
  moreover have "attributed actor (tg_main s) d" using transition_attributed [OF completed(6)] .
  moreover have "frame s s'" unfolding completed(4) by (rule frame_trans [OF delete_pending_frame set_main_frame])
  ultimately show ?thesis using completed(1,2) by (auto simp: reason_effect_def completed(4))
qed

lemma message_effect:
  assumes "message_transaction env s now sender text update_id = Inr (s', r)"
  obtains (idle) "frame s s'" "tg_blocks s' = tg_blocks s" "tg_pending s' = tg_pending s"
  | (acts) l operator where "acting s (sn_id sender) l operator" "reason_effect s now (sn_id sender) s' (telegram_principal operator l)"
proof -
  obtain s1 who where auth: "authenticate_telegram_user s now (sn_id sender) = (s1, who)" by fastforce
  then show ?thesis
  proof (cases rule: authenticate_cases)
    case nobody
    with assms auth have "s' = s" by (simp add: message_transaction_def)
    show ?thesis by (rule idle) (simp_all add: \<open>s' = s\<close>)
  next
    case (somebody l operator)
    let ?actor = "telegram_principal operator l"
    have f: "frame s s1" "tg_blocks s1 = tg_blocks s" "tg_pending s1 = tg_pending s" unfolding somebody(3) by (rule touched_frame)+
    have "reason_effect s1 now (sn_id sender) s' ?actor"
    proof (cases "parse_command env text")
      case None
      with assms auth somebody obtain lang where "take_reason env s1 now ?actor (sn_id sender) text update_id lang = Inr (s', r)"
        by (auto simp: message_transaction_def Let_def)
      then show ?thesis by (rule take_reason_effect)
    next
      case (Some command)
      with assms auth somebody obtain lang t where "run_command env s1 ?actor (sn_id sender) command text lang = (s', t)"
        by (auto simp: message_transaction_def Let_def split: prod.split_asm)
      from run_command_effect [OF this] show ?thesis by (auto simp: reason_effect_def)
    qed
    with f have "reason_effect s now (sn_id sender) s' ?actor" by (auto simp: reason_effect_def intro: frame_trans)
    with somebody(1) show ?thesis by (rule acts)
  qed
qed

section \<open>Exactly what one update does\<close>

text \<open>What a button does for an operator with its permission: the one operation it names, on what it names.\<close>

definition button_did ::
  "text_env \<Rightarrow> router \<Rightarrow> telegram \<Rightarrow> time \<Rightarrow> telegram_link_row \<Rightarrow> principal \<Rightarrow> callback_query \<Rightarrow> int \<Rightarrow> callback_action \<Rightarrow> telegram \<Rightarrow> bool" where
  "button_did env r s now l actor q user_id action s' \<longleftrightarrow> (case action of
     Incident_Action i st v \<Rightarrow>
       (if st = Investigating
        then \<exists>t d oc. t = \<lparr>tr_target = st, tr_expected_version = v, tr_reason = None\<rparr>
          \<and> transition_incident (tg_main s) now actor i t (callback_idempotency_key env (cq_id q))
              (canonical_transition_hash (tx_sha256_hex env) i t) (callback_request_id env (cq_id q)) = Inr (d, oc)
          \<and> s' = set_main (touch s now l) d
        else store_pending_action (touch s now l) now user_id i st v (ro_pending_action_ttl_seconds r) = Inr s')
   | Propose_Block i \<Rightarrow> \<exists>t result. propose_ip_block (tg_blocks s) now actor i (callback_request_id env (cq_id q))
         (ib_plan_ttl_seconds (ro_ip_block r)) (ib_names (ro_ip_block r)) = Inr (t, result) \<and> s' = set_blocks (touch s now l) t
   | Decide_Block p approve \<Rightarrow> \<exists>t result.
       (if approve then approve_ip_block (tg_blocks s) now actor p (callback_request_id env (cq_id q)) (ib_require_second_operator (ro_ip_block r))
        else reject_ip_block (tg_blocks s) now actor p (callback_request_id env (cq_id q))) = Inr (t, result)
       \<and> s' = set_blocks (touch s now l) t)"

text \<open>What a message does: a command withdraws the pending action and \<open>/lang\<close> sets the language of the account's own
  link; another text completes the unexpired pending action of the account, once, or is no reason.\<close>

definition message_did ::
  "text_env \<Rightarrow> telegram \<Rightarrow> time \<Rightarrow> telegram_link_row \<Rightarrow> principal \<Rightarrow> int \<Rightarrow> ustring \<Rightarrow> int \<Rightarrow> telegram \<Rightarrow> bool" where
  "message_did env s now l actor user_id body update_id s' \<longleftrightarrow>
     (let withdrawn = delete_pending_action (touch s now l) user_id in
      case parse_command env body of
        Some command \<Rightarrow> s' = withdrawn
          \<or> command = ascii ''/lang'' \<and> (\<exists>v. s' = update_link withdrawn (tl_id l) (\<lambda>l. l\<lparr>tl_language := Some v\<rparr>))
      | None \<Rightarrow> s' = touch s now l \<or> s' = withdrawn
          \<or> (\<exists>p reason t d oc. find_row pd_user_id user_id (tg_pending s) = Some p \<and> now < pd_expires_at p
              \<and> normalize_reason (tx_unicode env) (Some body) = Inr reason
              \<and> t = \<lparr>tr_target = pd_target_status p, tr_expected_version = pd_expected_version p, tr_reason = reason\<rparr>
              \<and> transition_incident (tg_main s) now actor (pd_incident_id p) t (''tg-msg-'' @ show_int update_id)
                  (canonical_transition_hash (tx_sha256_hex env) (pd_incident_id p) t) (''telegram-msg-'' @ show_int update_id) = Inr (d, oc)
              \<and> s' = set_main withdrawn d))"

lemma press_did:
  assumes "press env r s now action q user_id client = Inr (s', a)"
  obtains (rest) "rested s now user_id s'"
  | (did) l operator where "acting s user_id l operator" "role_has_permission (opr_role operator) (required_permission action)"
      "button_did env r s now l (telegram_principal operator l) q user_id action s'"
proof (cases action)
  case (Propose_Block i)
  with assms have "handle_propose_block env (ro_ip_block r) s now i q user_id client = Inr (s', a)" by (simp add: press_def)
  then show ?thesis
  proof (cases rule: propose_cases)
    case (ran l operator t result)
    then have "button_did env r s now l (telegram_principal operator l) q user_id action s'" by (simp add: button_did_def Propose_Block)
    with did [OF ran(1)] ran(2) show ?thesis by (simp add: Propose_Block)
  qed (rule rest)
next
  case (Decide_Block p approve)
  with assms have "handle_decide_block env (ro_ip_block r) s now p approve q user_id client = Inr (s', a)" by (simp add: press_def)
  then show ?thesis
  proof (cases rule: decide_cases)
    case (ran l operator t result)
    then have "button_did env r s now l (telegram_principal operator l) q user_id action s'" by (simp add: button_did_def Decide_Block)
    with did [OF ran(1)] ran(2) show ?thesis by (simp add: Decide_Block)
  qed (rule rest)
next
  case (Incident_Action i st v)
  with assms have "handle_incident_action env (ro_pending_action_ttl_seconds r) s now i st v q user_id client = Inr (s', a)" by (simp add: press_def)
  then show ?thesis
  proof (cases rule: incident_action_cases)
    case (moved l operator d oc t h)
    then have "button_did env r s now l (telegram_principal operator l) q user_id action s'" by (simp add: button_did_def Incident_Action)
    with did [OF moved(1)] moved(2) show ?thesis by (simp add: Incident_Action)
  next
    case (asked l operator)
    then have "button_did env r s now l (telegram_principal operator l) q user_id action s'" by (simp add: button_did_def Incident_Action)
    with did [OF asked(1)] asked(2) show ?thesis by (simp add: Incident_Action)
  qed (rule rest)
qed

lemma find_map_kept:
  assumes "\<And>x. P (f x) = P x"
  shows "List.find P (map f xs) = map_option f (List.find P xs)"
  by (induction xs) (simp_all add: assms)

text \<open>Touching an account's link leaves it the live link of the account.\<close>

lemma active_link_touch:
  assumes "active_link_for_user s user_id = Some l"
  shows "\<exists>m. active_link_for_user (delete_pending_action (touch s now l) k) user_id = Some m \<and> tl_id m = tl_id l"
proof -
  let ?P = "\<lambda>m. tl_user_id m = user_id \<and> live_link m"
  let ?f = "\<lambda>m. if tl_id m = tl_id l then m\<lparr>tl_last_used_at := Some now\<rparr> else m"
  have "tg_links (delete_pending_action (touch s now l) k) = map ?f (tg_links s)"
    by (simp add: touch_def update_link_def update_where_def)
  moreover have "List.find ?P (map ?f (tg_links s)) = map_option ?f (List.find ?P (tg_links s))"
    by (rule find_map_kept) (simp add: live_link_def)
  ultimately show ?thesis using assms by (simp add: active_link_for_user_def)
qed

lemma command_did:
  assumes "run_command env (touch s now l) actor user_id command body lang = (s', r)" "active_link_for_user s user_id = Some l"
    "parse_command env body = Some command"
  shows "message_did env s now l actor user_id body update_id s'"
proof -
  let ?w = "delete_pending_action (touch s now l) user_id"
  obtain m where m: "active_link_for_user ?w user_id = Some m" "tl_id m = tl_id l" using active_link_touch [OF assms(2)] by blast
  have "s' = ?w \<or> command = ascii ''/lang'' \<and> (\<exists>v. s' = update_link ?w (tl_id l) (\<lambda>l. l\<lparr>tl_language := Some v\<rparr>))"
    using assms(1) m
    by (auto simp: run_command_def Let_def set_language_def set_telegram_language_def validate_telegram_user_id_def bind_r_eq_Inr
        split: if_splits option.splits sum.splits bool.splits prod.splits)
  with assms(3) show ?thesis by (simp add: message_did_def Let_def)
qed

lemma touch_delete [simp]:
  "find_row pd_user_id k (tg_pending (touch s now l)) = find_row pd_user_id k (tg_pending s)" by simp

lemma message_did_cases:
  assumes "message_transaction env s now sender body update_id = Inr (s', r)"
  obtains (nobody) "s' = s"
  | (did) l operator where "acting s (sn_id sender) l operator"
      "message_did env s now l (telegram_principal operator l) (sn_id sender) body update_id s'"
proof -
  obtain s1 who where auth: "authenticate_telegram_user s now (sn_id sender) = (s1, who)" by fastforce
  then show ?thesis
  proof (cases rule: authenticate_cases)
    case nobody
    with assms auth that(1) show ?thesis by (simp add: message_transaction_def)
  next
    case (somebody l operator)
    let ?actor = "telegram_principal operator l"
    have s1: "s1 = touch s now l" by (simp add: somebody(3) touch_def)
    have "message_did env s now l ?actor (sn_id sender) body update_id s'"
    proof (cases "parse_command env body")
      case None
      with assms auth somebody(2) s1 obtain lang where "take_reason env (touch s now l) now ?actor (sn_id sender) body update_id lang = Inr (s', r)"
        by (auto simp: message_transaction_def Let_def)
      then show ?thesis
      proof (cases rule: take_reason_cases)
        case idle
        from idle(4) None show ?thesis by (auto simp: message_did_def Let_def)
      next
        case (completed p reason d oc tr)
        then have "find_row pd_user_id (sn_id sender) (tg_pending s) = Some p"
          "transition_incident (tg_main s) now ?actor (pd_incident_id p) tr (''tg-msg-'' @ show_int update_id)
            (canonical_transition_hash (tx_sha256_hex env) (pd_incident_id p) tr) (''telegram-msg-'' @ show_int update_id) = Inr (d, oc)"
          by simp_all
        with completed(2-5) None show ?thesis unfolding message_did_def Let_def
          by (simp only: option.case) blast
      qed
    next
      case (Some command)
      with assms auth somebody(2) s1 obtain lang t where "run_command env (touch s now l) ?actor (sn_id sender) command body lang = (s', t)"
        by (auto simp: message_transaction_def Let_def split: prod.split_asm)
      then show ?thesis by (rule command_did) (use somebody(1) Some in \<open>simp_all add: acting_def\<close>)
    qed
    with somebody(1) show ?thesis by (rule did)
  qed
qed

section \<open>The properties of one update\<close>

lemma handle_message_cases:
  assumes "handle_message env r clock s now m update_id = (r', Inr (s', reply))"
  obtains (ignored) "s' = s" | (handled) sender body where "ms_sender m = Some sender" "ms_text m = Some body" "\<not> sn_is_bot sender"
      "message_transaction env s now sender body update_id = Inr (s', reply)"
  using assms that
  by (auto simp: handle_message_def Let_def split: option.split_asm if_split_asm sum.split_asm)

lemma handle_callback_cases:
  assumes "handle_callback_query env r clock s now q = (r', Inr (s', a))"
  obtains (ignored) "s' = s" | (handled) sender data action client where "cq_sender q = Some sender" "cq_data q = Some data" "\<not> sn_is_bot sender"
      "parse_callback_data (tx_decimal env) data = Some action" "press env r s now action q (sn_id sender) client = Inr (s', a)"
  using assms that
  by (auto simp: handle_callback_query_def Let_def split: option.split_asm if_split_asm sum.split_asm)

lemma handle_update_cases:
  assumes "handle_update env r clock s now u = (r', Inr (s', out))"
  obtains (ignored) "s' = s"
  | (pressed) q sender data action client a where "up_callback_query u = Some q" "cq_sender q = Some sender" "cq_data q = Some data"
      "parse_callback_data (tx_decimal env) data = Some action" "\<not> sn_is_bot sender" "press env r s now action q (sn_id sender) client = Inr (s', a)"
  | (written) m sender body reply where "up_callback_query u = None" "up_message u = Some m" "ms_sender m = Some sender" "ms_text m = Some body"
      "\<not> sn_is_bot sender" "message_transaction env s now sender body (up_id u) = Inr (s', reply)"
proof (cases "up_callback_query u")
  case (Some q)
  with assms obtain a where "handle_callback_query env r clock s now q = (r', Inr (s', a))"
    by (auto simp: handle_update_def bind_r_eq_Inr split: prod.split_asm)
  then show ?thesis by (cases rule: handle_callback_cases) (auto intro: ignored pressed [OF Some])
next
  case None
  show ?thesis
  proof (cases "up_message u")
    case m: (Some m)
    with assms None obtain reply where "handle_message env r clock s now m (up_id u) = (r', Inr (s', reply))"
      by (auto simp: handle_update_def bind_r_eq_Inr split: prod.split_asm)
    then show ?thesis by (cases rule: handle_message_cases) (auto intro: ignored written [OF None m])
  qed (use assms None in \<open>auto intro: ignored simp: handle_update_def\<close>)
qed

lemma update_did:
  assumes "handle_update env r clock s now u = (r', Inr (s', out))"
  obtains (nothing_done) "s' = s"
  | (used) sender l operator where "update_sender u = Some sender" "\<not> sn_is_bot sender" "acting s (sn_id sender) l operator" "s' = touch s now l"
  | (pressed) q sender action l operator where "update_sender u = Some sender" "\<not> sn_is_bot sender" "acting s (sn_id sender) l operator"
      "up_callback_query u = Some q" "update_action env u = Some action" "role_has_permission (opr_role operator) (required_permission action)"
      "button_did env r s now l (telegram_principal operator l) q (sn_id sender) action s'"
  | (written) m sender body l operator where "update_sender u = Some sender" "\<not> sn_is_bot sender" "acting s (sn_id sender) l operator"
      "up_callback_query u = None" "update_action env u = None" "up_message u = Some m" "ms_text m = Some body"
      "message_did env s now l (telegram_principal operator l) (sn_id sender) body (up_id u) s'"
  using assms
proof (cases rule: handle_update_cases)
  case ignored
  then show ?thesis by (rule nothing_done)
next
  case (pressed q sender data action client a)
  then have u: "update_sender u = Some sender" "update_action env u = Some action" by (simp_all add: update_sender_def update_action_def)
  from pressed(6) show ?thesis
  proof (cases rule: press_did)
    case rest
    with nothing_done used [OF u(1) pressed(5)] show ?thesis by (auto simp: rested_def)
  next
    case (did l operator)
    with that(3) [OF u(1) pressed(5) did(1) pressed(1) u(2)] show ?thesis by simp
  qed
next
  case (written m sender body reply)
  then have u: "update_sender u = Some sender" "update_action env u = None" by (simp_all add: update_sender_def update_action_def)
  from written(6) show ?thesis
  proof (cases rule: message_did_cases)
    case nobody
    then show ?thesis by (rule nothing_done)
  next
    case (did l operator)
    with that(4) [OF u(1) written(5) did(1) written(1) u(2) written(2,4)] show ?thesis by simp
  qed
qed

text \<open>What these effects have in common.\<close>

lemma block_act_attributed:
  "block_act actor t t' \<Longrightarrow> attributed actor (bt_main t) (bt_main t')"
  by (auto simp: block_act_def)

lemma button_did_attributed:
  assumes "button_did env r s now l actor q user_id action s'"
  shows "attributed actor (tg_main s) (tg_main s')"
proof (cases action)
  case (Incident_Action i st v)
  show ?thesis
  proof (cases "st = Investigating")
    case True
    with assms Incident_Action show ?thesis by (auto simp: button_did_def dest: transition_attributed)
  next
    case False
    with assms Incident_Action have "store_pending_action (touch s now l) now user_id i st v (ro_pending_action_ttl_seconds r) = Inr s'"
      by (simp add: button_did_def)
    then have "tg_blocks s' = tg_blocks s" by (rule store_pending_Inr) simp
    then show ?thesis by auto
  qed
next
  case (Propose_Block i)
  with assms show ?thesis by (auto simp: button_did_def intro!: block_act_attributed dest: propose_act)
next
  case (Decide_Block p approve)
  with assms show ?thesis by (cases approve) (auto simp: button_did_def intro!: block_act_attributed dest: approve_act reject_act)
qed

lemma message_did_attributed:
  assumes "message_did env s now l actor user_id body update_id s'"
  shows "attributed actor (tg_main s) (tg_main s') \<and> set (tg_pending s') \<subseteq> set (tg_pending s)"
proof (cases "parse_command env body")
  case None
  with assms show ?thesis by (auto simp: message_did_def Let_def dest: transition_attributed)
next
  case (Some command)
  with assms show ?thesis by (auto simp: message_did_def Let_def touched_frame)
qed

lemma button_did_pending:
  assumes "button_did env r s now l actor q user_id action s'" "p \<in> set (tg_pending s')" "p \<notin> set (tg_pending s)"
  shows "pd_user_id p = user_id \<and> action = Incident_Action (pd_incident_id p) (pd_target_status p) (pd_expected_version p)
    \<and> pd_created_at p = now \<and> pd_expires_at p = now + ro_pending_action_ttl_seconds r * 1000000"
proof (cases action)
  case (Incident_Action i st v)
  with assms show ?thesis
    by (auto simp: button_did_def store_pending_action_def bind_r_eq_Inr Let_def set_update_where split: if_splits)
qed (use assms in \<open>auto simp: button_did_def\<close>)

lemma handle_update_frame:
  assumes "handle_update env r clock s now u = (r', Inr (s', out))"
  shows "frame s s'"
  using assms
proof (cases rule: handle_update_cases)
  case (pressed q sender data action client a)
  from press_effect [OF pressed(6)] show ?thesis by (simp add: button_effect_def)
next
  case (written m sender body reply)
  from written(6) show ?thesis by (cases rule: message_effect) (simp_all add: reason_effect_def)
qed simp

section \<open>A concrete conversation\<close>

definition sample_env :: text_env where
  "sample_env = \<lparr>tx_unicode = \<lparr>ucategory = (\<lambda>_. ''Ll''), nfc = (\<lambda>s. s)\<rparr>, tx_casefold = (\<lambda>s. s), tx_lower = (\<lambda>s. s),
     tx_is_alpha = (\<lambda>_. True), tx_decimal = (\<lambda>_. None), tx_sha256_hex = (\<lambda>_. replicate 64 (CHR ''a''))\<rparr>"

definition sample_router :: router where
  "sample_router = \<lparr>ro_rate_limiter = make_limiter 5 60, ro_result_limit = 10, ro_pending_action_ttl_seconds = 300,
     ro_ip_block = \<lparr>ib_enabled = False, ib_require_second_operator = True, ib_plan_ttl_seconds = 600, ib_names = sample_nft\<rparr>\<rparr>"

text \<open>Anna, in any role, has linked her account; the account waits for a reason.\<close>

definition sample_link :: telegram_link_row where
  "sample_link = \<lparr>tl_id = 5, tl_operator_id = 4, tl_user_id = 77, tl_language = None, tl_created_at = 0,
     tl_last_used_at = None, tl_revoked_at = None\<rparr>"

definition sample_anna :: "operator_role \<Rightarrow> operator_row" where
  "sample_anna role = \<lparr>opr_id = 4, opr_username = ''anna'', opr_role = role, opr_is_active = True\<rparr>"

definition sample_telegram :: "operator_role \<Rightarrow> telegram" where
  "sample_telegram role = \<lparr>tg_operators = [sample_anna role], tg_links = [sample_link],
     tg_pending = [\<lparr>pd_user_id = 77, pd_incident_id = 7, pd_target_status = Resolved, pd_expected_version = 1,
       pd_created_at = 0, pd_expires_at = 100\<rparr>],
     tg_offset = None, tg_blocks = \<lparr>bt_plans = [], bt_allowlist = [], bt_main = sample_db\<rparr>\<rparr>"

definition sample_update :: telegram_update where
  "sample_update = \<lparr>up_id = 3, up_message = Some \<lparr>ms_sender = Some \<lparr>sn_id = 77, sn_is_bot = False, sn_language_code = None\<rparr>,
     ms_chat_id = 77, ms_chat_type = ''private'', ms_text = Some (ascii ''noise'')\<rparr>, up_callback_query = None\<rparr>"

lemma sample_acting: "acting (sample_telegram role) 77 sample_link (sample_anna role)"
  by (simp add: acting_def active_link_for_user_def sample_telegram_def sample_link_def sample_anna_def live_link_def)

lemma sample_transition:
  assumes "op_operator_id actor = 4"
  shows "\<exists>d oc. transition_incident sample_db 10 actor 7 (rq_transition (sample_request Resolved 1)) ''tg-msg-3''
      (replicate 64 (CHR ''a'')) ''telegram-msg-3'' = Inr (d, oc) \<and> map inc_status (incidents d) = [Resolved]"
proof -
  have "reason_ok (rq_transition (sample_request Resolved 1))" by (simp add: reason_ok_def sample_request_def ascii_def)
  moreover have "idempotency_key_ok ''tg-msg-3''"
    by (simp add: idempotency_key_ok_def head_run_def is_alnum_def is_lower_def is_digit_def list_all_iff)
  ultimately obtain d oc where run: "transition_incident sample_db 10 actor 7 (rq_transition (sample_request Resolved 1)) ''tg-msg-3''
      (replicate 64 (CHR ''a'')) ''telegram-msg-3'' = Inr (d, oc)"
    using transition_incident_defined [OF sample_db_inv(1) _ _ sample_key_ok(2)] by blast
  then have "map inc_status (incidents d) = [Resolved]"
  proof (cases rule: transition_incident_cases)
    case (applied i)
    have i: "i = sample_incident" using applied sample_row by simp
    from applied(5) show ?thesis
      by (rule apply_transition_Inr) (simp add: i sample_db_def transitioned_def sample_incident_def update_where_def sample_request_def)
  qed (use sample_row sample_fresh [of "(4, ''tg-msg-3'')"] assms in
      \<open>auto simp: sample_request_def is_transition_allowed_def idem_lookup_def\<close>)
  with run show ?thesis by metis
qed

lemma sample_authenticated:
  assumes "tg_operators s = [sample_anna role]" "active_link_for_user s 77 = Some l" "tl_operator_id l = 4"
  shows "authenticate_telegram_user s now 77
    = (update_link s (tl_id l) (\<lambda>l. l\<lparr>tl_last_used_at := Some now\<rparr>), Some (telegram_principal (sample_anna role) l))"
  using assms by (simp add: authenticate_telegram_user_def validate_telegram_user_id_def telegram_user_id_max_def sample_anna_def)

lemma sample_no_command: "parse_command sample_env (ascii ''noise'') = None"
  by (simp add: parse_command_def strip_of_def is_space_def ascii_def Let_def)

lemma sample_delivered:
  assumes "message_transaction sample_env s now \<lparr>sn_id = 77, sn_is_bot = False, sn_language_code = None\<rparr> (ascii ''noise'') 3 = Inr (s', reply)"
  shows "\<exists>r' out. handle_update sample_env sample_router 0 s now sample_update = (r', Inr (s', out))"
  using assms
  by (simp add: handle_update_def sample_update_def handle_message_def is_private_def sample_router_def consume_def make_limiter_def
      consume_window_def Let_def)

lemma sample_handled:
  "\<exists>r' d out. handle_update sample_env sample_router 0 (sample_telegram role) 10 sample_update
      = (r', Inr (set_main (delete_pending_action (touch (sample_telegram role) 10 sample_link) 77) d, out))
    \<and> map inc_status (incidents d) = [Resolved]"
proof -
  let ?s = "sample_telegram role"
  let ?actor = "telegram_principal (sample_anna role) sample_link"
  let ?s1 = "touch ?s 10 sample_link"
  obtain d oc where d: "transition_incident sample_db 10 ?actor 7 (rq_transition (sample_request Resolved 1)) ''tg-msg-3''
      (replicate 64 (CHR ''a'')) ''telegram-msg-3'' = Inr (d, oc)" "map inc_status (incidents d) = [Resolved]"
    using sample_transition [of ?actor] by (auto simp: telegram_principal_def sample_anna_def)
  have three: "show_int 3 = ''3''" by code_simp
  have auth: "authenticate_telegram_user ?s 10 77 = (?s1, Some ?actor)"
    using sample_authenticated [of ?s role sample_link 10] sample_acting [of role]
    by (simp add: acting_def touch_def sample_telegram_def sample_link_def)
  have reason: "normalize_reason (tx_unicode sample_env) (Some (ascii ''noise'')) = Inr (Some (ascii ''noise''))"
    by (simp add: normalize_reason_def reject_reason_characters_def ascii_def prohibited_def prohibited_categories_def strip_of_def sample_env_def)
  have "take_reason sample_env ?s1 10 ?actor 77 (ascii ''noise'') 3 lang
      = Inr (set_main (delete_pending_action ?s1 77) d, Some (format_transition_outcome lang oc Resolved))" for lang
    using d(1) reason
    by (simp add: take_reason_def load_pending_action_def apply_telegram_transition_def sample_telegram_def sample_env_def
        canonical_transition_hash_def sample_request_def three touch_def update_link_def delete_pending_action_def)
  then obtain reply where "message_transaction sample_env ?s 10 \<lparr>sn_id = 77, sn_is_bot = False, sn_language_code = None\<rparr> (ascii ''noise'') 3
      = Inr (set_main (delete_pending_action ?s1 77) d, reply)"
    by (simp add: message_transaction_def auth sample_no_command Let_def)
  with sample_delivered d(2) show ?thesis by metis
qed

text \<open>The same update once more, now that nothing is pending.\<close>

lemma sample_again:
  "\<exists>r' s' out. handle_update sample_env sample_router 0
      (set_main (delete_pending_action (touch (sample_telegram role) 10 sample_link) 77) d) 20 sample_update = (r', Inr (s', out))"
proof -
  let ?s = "set_main (delete_pending_action (touch (sample_telegram role) 10 sample_link) 77) d"
  have "authenticate_telegram_user ?s 20 77 = (update_link ?s 5 (\<lambda>l. l\<lparr>tl_last_used_at := Some 20\<rparr>),
      Some (telegram_principal (sample_anna role) (sample_link\<lparr>tl_last_used_at := Some 10\<rparr>)))"
    using sample_authenticated [of ?s role "sample_link\<lparr>tl_last_used_at := Some 10\<rparr>" 20]
    by (simp add: active_link_for_user_def live_link_def sample_telegram_def sample_link_def touch_def update_link_def delete_pending_action_def)
  then have "\<exists>s' reply. message_transaction sample_env ?s 20 \<lparr>sn_id = 77, sn_is_bot = False, sn_language_code = None\<rparr> (ascii ''noise'') 3 = Inr (s', reply)"
    by (simp add: message_transaction_def sample_no_command Let_def take_reason_def load_pending_action_def update_link_def set_main_def
        delete_pending_action_def touch_def sample_telegram_def)
  then show ?thesis using sample_delivered by metis
qed

section \<open>Properties\<close>

text \<open>C0: Whatever a Telegram update changes, it changes for a person whose account has an active link to an active
  operator, and every audit record it writes names that operator and that link. Operators, the allowlist, the
  confirmed offset and the identity of the links always stay as they are. Beyond the time of the last use of the
  link, an update does exactly one of two things. A pressed button runs the one operation it names, on the incident
  or plan it names, and only for a role with the permission of that button. A message needs no permission of its
  own: it withdraws the pending action of its account, sets the language of its account's link by \<open>/lang\<close>, or
  completes the unexpired pending action of its account with a valid reason, which uses the action up and attempts
  exactly the stored transition. A pending action comes only from a button of that account for exactly this
  incident, status and version, pressed with the permission to change incidents.\<close>

theorem updates_act_for_linked_operators:
  assumes "handle_update env r clock s now u = (r', Inr (s', out))"
  shows "frame s s' \<and> (s' \<noteq> s \<longrightarrow>
    (\<exists>sender l operator. update_sender u = Some sender \<and> \<not> sn_is_bot sender \<and> acting s (sn_id sender) l operator
      \<and> attributed (telegram_principal operator l) (tg_main s) (tg_main s')
      \<and> (s' = touch s now l
        \<or> (\<exists>q action. up_callback_query u = Some q \<and> update_action env u = Some action
            \<and> role_has_permission (opr_role operator) (required_permission action)
            \<and> button_did env r s now l (telegram_principal operator l) q (sn_id sender) action s')
        \<or> (\<exists>m body. up_callback_query u = None \<and> up_message u = Some m \<and> ms_text m = Some body
            \<and> message_did env s now l (telegram_principal operator l) (sn_id sender) body (up_id u) s'))
      \<and> (\<forall>p \<in> set (tg_pending s') - set (tg_pending s). pd_user_id p = sn_id sender
          \<and> update_action env u = Some (Incident_Action (pd_incident_id p) (pd_target_status p) (pd_expected_version p))
          \<and> role_has_permission (opr_role operator) Transition_Incidents)))"
proof (rule conjI [OF handle_update_frame [OF assms]], rule impI)
  assume "s' \<noteq> s"
  from assms show "\<exists>sender l operator. update_sender u = Some sender \<and> \<not> sn_is_bot sender \<and> acting s (sn_id sender) l operator
      \<and> attributed (telegram_principal operator l) (tg_main s) (tg_main s')
      \<and> (s' = touch s now l
        \<or> (\<exists>q action. up_callback_query u = Some q \<and> update_action env u = Some action
            \<and> role_has_permission (opr_role operator) (required_permission action)
            \<and> button_did env r s now l (telegram_principal operator l) q (sn_id sender) action s')
        \<or> (\<exists>m body. up_callback_query u = None \<and> up_message u = Some m \<and> ms_text m = Some body
            \<and> message_did env s now l (telegram_principal operator l) (sn_id sender) body (up_id u) s'))
      \<and> (\<forall>p \<in> set (tg_pending s') - set (tg_pending s). pd_user_id p = sn_id sender
          \<and> update_action env u = Some (Incident_Action (pd_incident_id p) (pd_target_status p) (pd_expected_version p))
          \<and> role_has_permission (opr_role operator) Transition_Incidents)"
  proof (cases rule: update_did)
    case (used sender l operator)
    then show ?thesis by (intro exI [of _ sender] exI [of _ l] exI [of _ operator]) auto
  next
    case (pressed q sender action l operator)
    with button_did_attributed [OF pressed(7)] button_did_pending [OF pressed(7)] show ?thesis
      by (intro exI [of _ sender] exI [of _ l] exI [of _ operator]) fastforce
  next
    case (written m sender body l operator)
    with message_did_attributed [OF written(8)] show ?thesis
      by (intro exI [of _ sender] exI [of _ l] exI [of _ operator]) blast
  qed (use \<open>s' \<noteq> s\<close> in simp)
qed

theorem updates_act_for_linked_operators_witness:
  "\<exists>r' s' out l operator. handle_update sample_env sample_router 0 (sample_telegram Analyst) 10 sample_update = (r', Inr (s', out))
    \<and> frame (sample_telegram Analyst) s' \<and> map inc_status (incidents (tg_main s')) = [Resolved]
    \<and> acting (sample_telegram Analyst) 77 l operator
    \<and> message_did sample_env (sample_telegram Analyst) 10 l (telegram_principal operator l) 77 (ascii ''noise'') 3 s'"
proof -
  obtain r' d out where 1: "handle_update sample_env sample_router 0 (sample_telegram Analyst) 10 sample_update
      = (r', Inr (set_main (delete_pending_action (touch (sample_telegram Analyst) 10 sample_link) 77) d, out))"
    "map inc_status (incidents d) = [Resolved]" using sample_handled by metis
  let ?s' = "set_main (delete_pending_action (touch (sample_telegram Analyst) 10 sample_link) 77) d"
  have changed: "incidents (tg_main ?s') \<noteq> incidents (tg_main (sample_telegram Analyst))"
    using 1(2) by (auto simp: sample_telegram_def sample_db_def sample_incident_def)
  then have "?s' \<noteq> sample_telegram Analyst" by metis
  moreover have touched: "?s' \<noteq> touch (sample_telegram Analyst) 10 l" for l using changed touch_simps(2) by metis
  moreover have u: "update_sender sample_update = Some \<lparr>sn_id = 77, sn_is_bot = False, sn_language_code = None\<rparr>"
    "up_callback_query sample_update = None" "up_id sample_update = 3"
    "\<And>m body. up_message sample_update = Some m \<Longrightarrow> ms_text m = Some body \<Longrightarrow> body = ascii ''noise''"
    by (auto simp: update_sender_def sample_update_def)
  moreover note updates_act_for_linked_operators [OF 1(1)]
  ultimately obtain sender l operator m body where "frame (sample_telegram Analyst) ?s'"
    "update_sender sample_update = Some sender" "acting (sample_telegram Analyst) (sn_id sender) l operator"
    "up_message sample_update = Some m" "ms_text m = Some body"
    "message_did sample_env (sample_telegram Analyst) 10 l (telegram_principal operator l) (sn_id sender) body (up_id sample_update) ?s'"
    by (elim conjE) (simp only: u(2) option.distinct simp_thms, elim exE conjE, metis)
  with u have "frame (sample_telegram Analyst) ?s'" "acting (sample_telegram Analyst) 77 l operator"
    "message_did sample_env (sample_telegram Analyst) 10 l (telegram_principal operator l) 77 (ascii ''noise'') 3 ?s'"
    by auto
  with 1 show ?thesis by (metis set_main_simps(1))
qed

text \<open>The permission of a transition is checked when its button is pressed. The reason that completes it is
  taken from whoever the account belongs to by then: a viewer, who may not change incidents, resolves one.\<close>

lemma reason_needs_no_permission:
  "\<not> role_has_permission Viewer Transition_Incidents"
  "acting (sample_telegram Viewer) 77 sample_link (sample_anna Viewer)"
  "\<exists>r' s' out. handle_update sample_env sample_router 0 (sample_telegram Viewer) 10 sample_update = (r', Inr (s', out))
    \<and> map inc_status (incidents (tg_main s')) = [Resolved]"
proof -
  show "acting (sample_telegram Viewer) 77 sample_link (sample_anna Viewer)" by (rule sample_acting)
  show "\<exists>r' s' out. handle_update sample_env sample_router 0 (sample_telegram Viewer) 10 sample_update = (r', Inr (s', out))
    \<and> map inc_status (incidents (tg_main s')) = [Resolved]" using sample_handled by (metis set_main_simps(1))
qed (simp add: role_has_permission_def)

text \<open>A message is answered in a private chat only; a button is answered in whatever chat its message stands, and the
  follow-up of a proposal, which shows the address, goes to that chat.\<close>

lemma press_ignores_the_chat:
  "press env r s now a (q\<lparr>cq_message := Some (m\<lparr>ms_chat_type := ty\<rparr>)\<rparr>) k client = press env r s now a (q\<lparr>cq_message := Some m\<rparr>) k client"
  by (cases a) (simp_all add: press_def handle_propose_block_def handle_decide_block_def handle_incident_action_def cong: if_cong)

lemma buttons_ignore_the_chat:
  "handle_callback_query env r clock s now (q\<lparr>cq_message := Some (m\<lparr>ms_chat_type := ty\<rparr>)\<rparr>)
    = handle_callback_query env r clock s now (q\<lparr>cq_message := Some m\<rparr>)"
  by (simp add: handle_callback_query_def press_ignores_the_chat Let_def cong: if_cong option.case_cong sum.case_cong prod.case_cong)

end
