(* ===== verification/Telegram_Inbox.thy ===== *)
theory Telegram_Inbox
  imports Telegram_Updates Step_Systems
begin

text \<open>
  The tables of the Telegram service over time: updates, links, the confirmed offset and the work of the other
  parts of the system in any order keep them consistent, and an update handled a second time, as happens after
  a crash before the offset was confirmed, changes nothing.
\<close>

section \<open>The invariant\<close>

definition tables_inv :: "bool \<Rightarrow> telegram \<Rightarrow> bool" where
  "tables_inv second s \<longleftrightarrow> history_inv (tg_main s) \<and> idem_inv (tg_main s) \<and> block_inv second (tg_blocks s)"

text \<open>An account has at most one live link and so has an operator; an account has at most one pending action.\<close>

definition links_ok :: "telegram_link_row list \<Rightarrow> nat \<Rightarrow> bool" where
  "links_ok ls n \<longleftrightarrow> distinct (map tl_id ls) \<and> (\<forall>l \<in> set ls. tl_id l < n \<and> link_check l)
     \<and> distinct (map tl_user_id (filter live_link ls)) \<and> distinct (map tl_operator_id (filter live_link ls))"

definition pending_ok :: "pending_row list \<Rightarrow> bool" where
  "pending_ok ps \<longleftrightarrow> distinct (map pd_user_id ps) \<and> (\<forall>p \<in> set ps. pending_check p)"

definition telegram_inv :: "bool \<Rightarrow> telegram \<Rightarrow> bool" where
  "telegram_inv second s \<longleftrightarrow> tables_inv second s \<and> links_ok (tg_links s) (next_uuid (tg_main s)) \<and> pending_ok (tg_pending s)
     \<and> 0 \<le> load_next_update_id s"

text \<open>What stays for ever: recorded outcomes, decided plans; the offset only grows.\<close>

definition records_kept :: "db \<Rightarrow> db \<Rightarrow> bool" where
  "records_kept d d' \<longleftrightarrow> (\<forall>k row. idem_lookup d k = Some row \<longrightarrow> idem_lookup d' k = Some row)"

definition telegram_later :: "telegram \<Rightarrow> telegram \<Rightarrow> bool" where
  "telegram_later s t \<longleftrightarrow> records_kept (tg_main s) (tg_main t) \<and> decisions_kept (tg_blocks s) (tg_blocks t)
     \<and> load_next_update_id s \<le> load_next_update_id t"

lemma records_kept_refl [simp]: "records_kept d d"
  by (simp add: records_kept_def)

lemma records_kept_same: "idempotency d' = idempotency d \<Longrightarrow> records_kept d d'"
  unfolding records_kept_def by (metis idem_lookup_cong)

lemma links_ok_cong:
  assumes "map link_core ls' = map link_core ls"
  shows "links_ok ls' n = links_ok ls n"
proof -
  have live: "live_link = (\<lambda>l. tl_revoked_at l = None)" by (rule ext) (simp add: live_link_def)
  have shape: "links_ok ks n \<longleftrightarrow> distinct (map fst cs) \<and> (\<forall>(k, o1, u, c, r) \<in> set cs. k < n \<and> 0 < u \<and> after_opt c r)
      \<and> distinct (map (fst \<circ> snd \<circ> snd) (filter (\<lambda>c. snd (snd (snd (snd c))) = None) cs))
      \<and> distinct (map (fst \<circ> snd) (filter (\<lambda>c. snd (snd (snd (snd c))) = None) cs))" if "cs = map link_core ks" for ks cs
    using live by (simp add: that links_ok_def filter_map comp_def link_core_def link_check_def split_beta)
  show ?thesis using shape [OF refl, of ls'] shape [OF refl, of ls] unfolding assms by simp
qed

lemma links_ok_mono: "links_ok ls n \<Longrightarrow> n \<le> m \<Longrightarrow> links_ok ls m"
  by (auto simp: links_ok_def)

lemma transition_next_uuid:
  assumes "transition_incident d now actor incident_id t key h request_id = Inr (d', oc)"
  shows "next_uuid d \<le> next_uuid d'"
  using assms
proof (cases rule: transition_incident_cases)
  case (applied i)
  from applied(5) show ?thesis by (rule apply_transition_Inr) simp
qed auto

text \<open>A transition as one run of the idempotent operation, with what that gives.\<close>

lemma transition_as_run:
  "transition_incident d now actor incident_id t key h request_id =
    transition_run d (op_operator_id actor, key) \<lparr>rq_now = now, rq_actor = actor, rq_incident = incident_id, rq_transition = t,
      rq_hash = h, rq_request_id = request_id\<rparr>"
  by (cases actor) (simp add: transition_run_def)

lemma transition_records:
  assumes "transition_incident d now actor incident_id t key h request_id = Inr (d', oc)"
  shows "records_kept d d'" "idem_lookup d' (op_operator_id actor, key) \<noteq> None"
    "idem_lookup d (op_operator_id actor, key) \<noteq> None \<Longrightarrow> d' = d"
proof -
  note run = assms [unfolded transition_as_run]
  let ?k = "(op_operator_id actor, key)"
  let ?rq = "\<lparr>rq_now = now, rq_actor = actor, rq_incident = incident_id, rq_transition = t, rq_hash = h, rq_request_id = request_id\<rparr>"
  have "workflow.next_state d (?k, ?rq) = d'" using run by (simp add: workflow.next_state_def)
  with workflow.recorded_next [of d _ _ ?k ?rq] show kept: "records_kept d d'" by (simp add: records_kept_def)
  show "idem_lookup d (op_operator_id actor, key) \<noteq> None \<Longrightarrow> d' = d"
    using assms by (auto simp: transition_incident_def idem_lookup_def split: if_splits)
  show "idem_lookup d' ?k \<noteq> None"
  proof (cases "idem_lookup d ?k")
    case None
    from workflow.first_run [OF this run] show ?thesis by auto
  qed (use kept in \<open>auto simp: records_kept_def\<close>)
qed

lemma transition_tables_inv:
  assumes "tables_inv second s" "transition_incident (tg_main s) now actor incident_id t key h request_id = Inr (d, oc)"
  shows "tables_inv second (set_main s d)"
proof -
  have a: "audit_inv (tg_main s)" using assms(1) by (simp add: tables_inv_def block_inv_def)
  have "audit_inv d" using transition_incident_audit_inv [OF _ a assms(2)] assms(1) by (simp add: tables_inv_def)
  then have "block_change second (tg_blocks s) (tg_blocks (set_main s d))"
    using assms(1) transition_next_uuid [OF assms(2)] by (intro block_main_change) (auto simp: tables_inv_def set_main_def)
  then show ?thesis
    using assms transition_incident_history_inv [OF _ assms(2)] transition_incident_idem_inv [OF _ assms(2)]
    by (simp add: tables_inv_def block_change_def)
qed

lemma block_tables_inv:
  assumes "tables_inv second s" "block_change second (tg_blocks s) t" "block_act actor (tg_blocks s) t"
  shows "tables_inv second (set_blocks s t)"
proof -
  have "history_inv (bt_main t)" by (rule history_inv_cong [of "tg_main s"]) (use assms in \<open>simp_all add: tables_inv_def block_act_def\<close>)
  moreover have "idem_inv (bt_main t)" using assms idem_inv_cong [of "bt_main t" "tg_main s"] by (auto simp: tables_inv_def block_act_def)
  ultimately show ?thesis using assms(2) by (simp add: tables_inv_def block_change_def)
qed

section \<open>Every update keeps the invariant\<close>

definition tables_change :: "bool \<Rightarrow> telegram \<Rightarrow> telegram \<Rightarrow> bool" where
  "tables_change second s s' \<longleftrightarrow> tables_inv second s' \<and> pending_ok (tg_pending s') \<and> records_kept (tg_main s) (tg_main s')
     \<and> decisions_kept (tg_blocks s) (tg_blocks s') \<and> next_uuid (tg_main s) \<le> next_uuid (tg_main s')"

lemma tables_change_cong:
  "tg_blocks s1 = tg_blocks s \<Longrightarrow> tables_change second s1 s' = tables_change second s s'"
  "tg_blocks s1 = tg_blocks s \<Longrightarrow> tables_inv second s1 = tables_inv second s"
  by (simp_all add: tables_change_def tables_inv_def)

lemma quiet_change:
  "tables_inv second s \<Longrightarrow> tg_blocks s' = tg_blocks s \<Longrightarrow> pending_ok (tg_pending s') \<Longrightarrow> tables_change second s s'"
  by (simp add: tables_change_def tables_inv_def)

lemma transition_change:
  assumes "tables_inv second s" "pending_ok (tg_pending s)"
    "transition_incident (tg_main s) now actor incident_id t key h request_id = Inr (d, oc)"
  shows "tables_change second s (set_main s d)"
  using transition_tables_inv [OF assms(1,3)] transition_records(1) [OF assms(3)] transition_next_uuid [OF assms(3)] assms(2)
  by (simp add: tables_change_def decisions_kept_def)

lemma blocks_change:
  assumes "tables_inv second s" "pending_ok (tg_pending s)" "block_change second (tg_blocks s) t" "block_act actor (tg_blocks s) t"
  shows "tables_change second s (set_blocks s t)"
  using block_tables_inv [OF assms(1,3,4)] assms(2-4) records_kept_same [of "bt_main t" "tg_main s"]
  by (simp add: tables_change_def block_change_def block_act_def)

lemma store_pending_ok:
  assumes "store_pending_action s now user_id incident_id target v ttl = Inr s'" "pending_ok (tg_pending s)"
  shows "pending_ok (tg_pending s') \<and> tg_blocks s' = tg_blocks s"
  using assms(1)
proof (rule store_pending_Inr)
  fix p ps assume p: "s' = s\<lparr>tg_pending := ps\<rparr>" "pending_check p" "pd_user_id p = user_id" "set ps \<subseteq> insert p (set (tg_pending s))"
    "ps = (if find_row pd_user_id user_id (tg_pending s) = None then tg_pending s @ [p]
       else update_where (\<lambda>q. pd_user_id q = user_id) (\<lambda>_. p) (tg_pending s))"
  have "map pd_user_id (update_where (\<lambda>q. pd_user_id q = user_id) (\<lambda>_. p) (tg_pending s)) = map pd_user_id (tg_pending s)"
    by (rule map_update_where) (simp add: p(3))
  then have "distinct (map pd_user_id ps)"
    using assms(2) p(3) unfolding p(5) pending_ok_def by (auto simp: find_row_None_iff)
  with p assms(2) show ?thesis by (auto simp: pending_ok_def)
qed

lemma delete_pending_ok: "pending_ok (tg_pending s) \<Longrightarrow> pending_ok (tg_pending (delete_pending_action s k))"
  by (auto simp: pending_ok_def delete_pending_action_def distinct_map_filter)

lemma press_change:
  assumes "press env r s now action q user_id client = Inr (s', a)" "second = ib_require_second_operator (ro_ip_block r)"
    "tables_inv second s" "pending_ok (tg_pending s)"
  shows "tables_change second s s'"
proof -
  have inv: "block_inv second (tg_blocks s)" using assms(3) by (simp add: tables_inv_def)
  have quiet: "tables_change second s s'" if "quiet s s'" using that assms(3,4) by (auto simp: quiet_def intro: quiet_change)
  have blocks: "tables_change second s (set_blocks (touch s now l) t)"
    if "block_change second (tg_blocks s) t" "block_act actor (tg_blocks s) t" for actor l t
    using blocks_change [OF assms(3,4) that] by (simp add: tables_change_def tables_inv_def)
  show ?thesis
  proof (cases action)
    case (Incident_Action i st v)
    with assms(1) have "handle_incident_action env (ro_pending_action_ttl_seconds r) s now i st v q user_id client = Inr (s', a)" by (simp add: press_def)
    then show ?thesis
    proof (cases rule: incident_action_cases)
      case (moved l operator d oc t h)
      from transition_change [OF assms(3,4) moved(4)] show ?thesis by (simp add: moved(3) tables_change_def tables_inv_def set_main_def)
    next
      case (asked l operator)
      from store_pending_ok [OF this(3)] assms(4) show ?thesis by (intro quiet_change [OF assms(3)]) simp_all
    qed (rule quiet)
  next
    case (Propose_Block i)
    with assms(1) have "handle_propose_block env (ro_ip_block r) s now i q user_id client = Inr (s', a)" by (simp add: press_def)
    then show ?thesis by (cases rule: propose_cases) (auto intro: quiet blocks propose_change [OF _ inv] propose_act)
  next
    case (Decide_Block p approve)
    with assms(1) have "handle_decide_block env (ro_ip_block r) s now p approve q user_id client = Inr (s', a)" by (simp add: press_def)
    then show ?thesis
    proof (cases rule: decide_cases)
      case (ran l operator t result)
      then have "block_change second (tg_blocks s) t" "block_act (telegram_principal operator l) (tg_blocks s) t"
        by (auto simp: assms(2) [symmetric] split: if_splits intro: approve_act reject_act approve_change [OF _ inv] reject_change [OF _ inv])
      then show ?thesis unfolding ran(3) by (rule blocks)
    qed (rule quiet)
  qed
qed

lemma tables_change_trans: "tables_change second s t \<Longrightarrow> tables_change second t u \<Longrightarrow> tables_change second s u"
  by (auto simp: tables_change_def records_kept_def intro: decisions_kept_trans)

lemma pending_subset_ok: "pending_ok ps \<Longrightarrow> pending_ok (filter P ps)"
  by (auto simp: pending_ok_def distinct_map_filter)

lemma run_command_change:
  assumes "run_command env s actor user_id command body lang = (s', r)" "tables_inv second s" "pending_ok (tg_pending s)"
  shows "tables_change second s s'"
proof -
  let ?s1 = "delete_pending_action s user_id"
  have "s' = ?s1 \<or> (\<exists>k f. s' = update_link ?s1 k f)"
    using assms(1)
    by (auto simp: run_command_def Let_def set_language_def set_telegram_language_def
        split: if_splits option.splits sum.splits bool.splits prod.splits)
  then have "tg_blocks s' = tg_blocks s" "tg_pending s' = tg_pending ?s1" by (auto simp: touched_frame)
  with assms(2,3) show ?thesis by (intro quiet_change) (simp_all add: delete_pending_ok)
qed

lemma take_reason_change:
  assumes "take_reason env s now actor user_id body update_id lang = Inr (s', r)" "tables_inv second s" "pending_ok (tg_pending s)"
  shows "tables_change second s s'"
  using assms(1)
proof (cases rule: take_reason_cases)
  case idle
  then have "pending_ok (tg_pending s')" using assms(3) by (auto simp: delete_pending_ok)
  with idle(2) assms(2) show ?thesis by (intro quiet_change)
next
  case (completed p reason d oc tr)
  let ?s2 = "delete_pending_action s user_id"
  have "tables_inv second ?s2" "pending_ok (tg_pending ?s2)" using assms(2,3) by (simp_all add: tables_inv_def delete_pending_ok)
  from transition_change [OF this, of now actor "pd_incident_id p" tr] completed(6)
  have "tables_change second ?s2 (set_main ?s2 d)" by simp
  then show ?thesis by (simp add: completed(4) tables_change_def)
qed

lemma message_change:
  assumes "message_transaction env s now sender body update_id = Inr (s', r)" "tables_inv second s" "pending_ok (tg_pending s)"
  shows "tables_change second s s'"
proof -
  obtain s1 who where auth: "authenticate_telegram_user s now (sn_id sender) = (s1, who)" by fastforce
  then have s1: "tg_blocks s1 = tg_blocks s" "tg_pending s1 = tg_pending s"
    by (cases rule: authenticate_cases, simp_all add: touched_frame)+
  then have inv: "tables_inv second s1" "pending_ok (tg_pending s1)" using assms(2,3) by (simp_all add: tables_inv_def)
  have "tables_change second s1 s'"
  proof (cases who)
    case None
    with assms(1) auth inv show ?thesis by (simp add: message_transaction_def quiet_change)
  next
    case (Some actor)
    with assms(1) auth have "(\<exists>lang command t. run_command env s1 actor (sn_id sender) command body lang = (s', t))
        \<or> (\<exists>lang. take_reason env s1 now actor (sn_id sender) body update_id lang = Inr (s', r))"
      by (cases "parse_command env body") (auto simp: message_transaction_def Let_def split: prod.split_asm)
    with inv show ?thesis by (auto intro: run_command_change take_reason_change)
  qed
  then show ?thesis using s1 by (simp add: tables_change_def)
qed

lemma update_change:
  assumes "handle_update env r clock s now u = (r', Inr (s', out))" "second = ib_require_second_operator (ro_ip_block r)"
    "tables_inv second s" "pending_ok (tg_pending s)"
  shows "tables_change second s s'"
  using assms(1)
proof (cases rule: handle_update_cases)
  case ignored
  with assms(3,4) show ?thesis by (simp add: quiet_change)
next
  case (pressed q sender data action client a)
  from press_change [OF pressed(6) assms(2-4)] show ?thesis .
next
  case (written m sender body reply)
  from message_change [OF written(6) assms(3,4)] show ?thesis .
qed

section \<open>Everything else that happens to these tables\<close>

lemma telegram_main_change:
  assumes "tables_inv second s" "pending_ok (tg_pending s)" "history_inv d" "idem_inv d" "audit_inv d"
    "next_uuid (tg_main s) \<le> next_uuid d" "records_kept (tg_main s) d"
  shows "tables_change second s (set_main s d)"
proof -
  have "block_change second (tg_blocks s) (tg_blocks (set_main s d))"
    using assms(1,5,6) by (intro block_main_change) (auto simp: tables_inv_def set_main_def)
  then show ?thesis using assms by (simp add: tables_change_def tables_inv_def block_change_def)
qed

lemma logged_fields:
  "incidents (logged d e) = incidents d" "history (logged d e) = history d" "idempotency (logged d e) = idempotency d"
  "next_uuid (logged d e) = Suc (next_uuid d)" "audit_log (logged d e) = audit_log d @ [e]"
  by (simp_all add: logged_def)

text \<open>A record of a local administrator is one more row.\<close>

lemma log_link_Inr:
  assumes "log_link s now action l = Inr s'"
  obtains d e where "s' = set_main s (logged (tg_main s) e)" "audit_check e" "au_id e = next_uuid (tg_main s)" "au_history_id e = None"
proof -
  from assms obtain d e where "record_local_cli_action (tg_main s) now action ''operator_telegram_link'' (tl_id l)
      [(''operator_id'', JStr (uuid_str (tl_operator_id l)))] = Inr (d, e)" "s' = set_main s d"
    by (auto simp: log_link_def bind_r_eq_Inr)
  with record_local_cli_action_Inr [OF this(1)] show ?thesis by (intro that [of e]) simp_all
qed

lemma log_link_change:
  assumes "log_link s now action l = Inr s'" "tables_inv second s" "pending_ok (tg_pending s)"
  shows "tables_change second s s'" "tg_links s' = tg_links s" "tg_pending s' = tg_pending s" "tg_offset s' = tg_offset s"
proof -
  from assms(1) obtain d e where e: "s' = set_main s (logged (tg_main s) e)" "audit_check e" "au_id e = next_uuid (tg_main s)"
    "au_history_id e = None" by (rule log_link_Inr)
  let ?d = "logged (tg_main s) e"
  have inv: "history_inv (tg_main s)" "idem_inv (tg_main s)" "audit_inv (tg_main s)"
    using assms(2) by (simp_all add: tables_inv_def block_inv_def)
  have "history_inv ?d" by (rule history_inv_cong [OF inv(1)]) (simp_all add: logged_fields)
  moreover have "idem_inv ?d" using inv(2) idem_inv_cong [of ?d "tg_main s"] by (simp add: logged_fields)
  moreover have "audit_inv ?d" by (rule audit_inv_logged [OF inv(3) e(2,3)]) (simp add: e(4))
  moreover have "records_kept (tg_main s) ?d" by (rule records_kept_same) (simp add: logged_fields)
  ultimately show "tables_change second s s'" unfolding e(1)
    by (intro telegram_main_change [OF assms(2,3)]) (simp_all add: logged_fields)
qed (use assms(1) in \<open>auto elim!: log_link_Inr\<close>)

text \<open>Linking and revoking keep one live link per account and per operator.\<close>

lemma distinct_live_filter:
  "distinct (map g (filter live_link ls)) \<Longrightarrow> distinct (map g (filter live_link (filter P ls)))"
  using distinct_map_filter [of g "filter live_link ls" P] by (simp add: conj_commute)

lemma links_ok_revoke:
  assumes "links_ok ls n" "find_row tl_id k ls = Some l" "tl_created_at l \<le> t"
  shows "links_ok (update_where (\<lambda>m. tl_id m = k) (\<lambda>_. l\<lparr>tl_revoked_at := Some t\<rparr>) ls) n"
proof -
  let ?l = "l\<lparr>tl_revoked_at := Some t\<rparr>"
  let ?ls = "update_where (\<lambda>m. tl_id m = k) (\<lambda>_. ?l) ls"
  have l: "l \<in> set ls" "tl_id l = k" using find_row_SomeD [OF assms(2)] by simp_all
  have "map tl_id ?ls = map tl_id ls" by (rule map_update_where) (simp add: l(2))
  moreover have "filter live_link ?ls = filter live_link (filter (\<lambda>m. tl_id m \<noteq> k) ls)"
    by (induction ls) (auto simp: update_where_def live_link_def)
  moreover have "\<forall>m \<in> set ?ls. tl_id m < n \<and> link_check m"
    using assms(1,3) l by (auto simp: set_update_where links_ok_def link_check_def after_opt_def)
  ultimately show ?thesis using assms(1) by (simp add: links_ok_def distinct_live_filter del: filter_filter)
qed

lemma links_ok_snoc:
  assumes "links_ok ls n" "n \<le> tl_id l" "link_check l" "tl_revoked_at l = None"
    "\<forall>m \<in> set ls. live_link m \<longrightarrow> tl_user_id m \<noteq> tl_user_id l \<and> tl_operator_id m \<noteq> tl_operator_id l"
  shows "links_ok (ls @ [l]) (Suc (tl_id l))"
  using assms by (force simp: links_ok_def live_link_def)

lemma link_user_change:
  assumes "link_telegram_user s now operator_id user_id = Inr (s', l, name)" "telegram_inv second s"
  shows "tables_change second s s' \<and> links_ok (tg_links s') (next_uuid (tg_main s')) \<and> tg_offset s' = tg_offset s"
proof -
  let ?d = "(tg_main s)\<lparr>next_uuid := Suc (next_uuid (tg_main s))\<rparr>"
  have inv: "tables_inv second s" "pending_ok (tg_pending s)" "links_ok (tg_links s) (next_uuid (tg_main s))"
    using assms(2) by (simp_all add: telegram_inv_def)
  from assms(1) obtain s1 where 1: "insert_link (set_main s ?d) l = Inr s1" "log_link s1 now ''operator_telegram_link.created'' l = Inr s'"
    "tl_id l = next_uuid (tg_main s)" "tl_revoked_at l = None"
    by (auto simp: link_telegram_user_def bind_r_eq_Inr Let_def uuid4_def split: option.split_asm)
  have main: "tables_inv second (set_main s ?d)" "next_uuid (tg_main s) \<le> next_uuid ?d"
  proof -
    have "history_inv (tg_main s)" "idem_inv (tg_main s)" "audit_inv (tg_main s)" using inv(1) by (simp_all add: tables_inv_def block_inv_def)
    then have "history_inv ?d" "idem_inv ?d" "audit_inv ?d"
      using history_inv_cong [of "tg_main s" ?d] idem_inv_cong [of ?d "tg_main s"] audit_inv_cong [of ?d "tg_main s"] by simp_all
    then show "tables_inv second (set_main s ?d)"
      using telegram_main_change [OF inv(1,2), of ?d] records_kept_same [of ?d "tg_main s"] by (simp add: tables_change_def)
  qed simp
  from 1(1) have s1: "s1 = (set_main s ?d)\<lparr>tg_links := tg_links s @ [l]\<rparr>" "link_check l"
    "\<forall>m \<in> set (tg_links s). live_link m \<longrightarrow> tl_user_id m \<noteq> tl_user_id l \<and> tl_operator_id m \<noteq> tl_operator_id l"
    by (auto simp: insert_link_def bind_r_eq_Inr)
  have t1: "tables_inv second s1" "pending_ok (tg_pending s1)" "tg_main s1 = ?d" using main inv(2) by (simp_all add: s1(1) tables_inv_def)
  note log = log_link_change [OF 1(2) t1(1,2)]
  have "tables_change second s s'"
    using log(1) records_kept_same [of ?d "tg_main s"] t1(3) by (auto simp: tables_change_def s1(1) records_kept_def decisions_kept_def set_main_def)
  moreover have "links_ok (tg_links s') (Suc (tl_id l))" using links_ok_snoc [OF inv(3) _ s1(2) 1(4) s1(3)] by (simp add: log(2) s1(1) 1(3))
  moreover have "Suc (tl_id l) \<le> next_uuid (tg_main s')" using log(1) t1(3) 1(3) by (simp add: tables_change_def)
  ultimately show ?thesis using log(4) by (auto simp: s1(1) intro: links_ok_mono)
qed

lemma revoke_link_change:
  assumes "revoke_telegram_link s now link_id = Inr (s', l, name)" "telegram_inv second s"
  shows "tables_change second s s' \<and> links_ok (tg_links s') (next_uuid (tg_main s')) \<and> tg_offset s' = tg_offset s"
proof -
  from assms(1) obtain m where m: "find_row tl_id link_id (tg_links s) = Some m" "l = m\<lparr>tl_revoked_at := Some (max now (tl_created_at m))\<rparr>"
    "log_link (update_link s link_id (\<lambda>_. l)) now ''operator_telegram_link.revoked'' l = Inr s'"
    by (auto simp: revoke_telegram_link_def bind_r_eq_Inr Let_def split: option.split_asm)
  let ?s1 = "update_link s link_id (\<lambda>_. l)"
  have same: "tg_blocks ?s1 = tg_blocks s" "tg_pending ?s1 = tg_pending s" "tg_offset ?s1 = tg_offset s" by (simp_all add: update_link_def)
  have inv: "tables_inv second ?s1" "pending_ok (tg_pending ?s1)" using assms(2) same by (simp_all add: telegram_inv_def tables_inv_def)
  note log = log_link_change [OF m(3) inv]
  have "links_ok (tg_links ?s1) (next_uuid (tg_main s))"
    using assms(2) links_ok_revoke [OF _ m(1)] by (simp add: update_link_def m(2) telegram_inv_def)
  moreover have "next_uuid (tg_main s) \<le> next_uuid (tg_main s')" using log(1) same by (simp add: tables_change_def)
  ultimately show ?thesis using log same by (auto simp: tables_change_def intro: links_ok_mono)
qed

section \<open>Runs\<close>

text \<open>The inbox handles updates and confirms them, administrators link accounts and change operators, and the rest
  of the system works on the shared tables, of which nothing is assumed but that it keeps their invariants.\<close>

inductive telegram_step :: "text_env \<Rightarrow> bool \<Rightarrow> telegram \<Rightarrow> telegram \<Rightarrow> bool" for env second where
  step_update: "handle_update env r clock s now u = (r', Inr (s', out)) \<Longrightarrow> ib_require_second_operator (ro_ip_block r) = second
    \<Longrightarrow> telegram_step env second s s'"
| step_confirm: "confirm_next_update_id s n = Inr s' \<Longrightarrow> telegram_step env second s s'"
| step_link: "link_telegram_user s now operator_id user_id = Inr (s', l, name) \<Longrightarrow> telegram_step env second s s'"
| step_unlink: "revoke_telegram_link s now link_id = Inr (s', l, name) \<Longrightarrow> telegram_step env second s s'"
| step_operators: "telegram_step env second s (s\<lparr>tg_operators := os\<rparr>)"
| step_rest: "block_step second (tg_blocks s) t \<Longrightarrow> history_inv (bt_main t) \<Longrightarrow> idem_inv (bt_main t)
    \<Longrightarrow> records_kept (tg_main s) (bt_main t) \<Longrightarrow> next_uuid (tg_main s) \<le> next_uuid (bt_main t)
    \<Longrightarrow> telegram_step env second s (set_blocks s t)"

lemma tables_change_inv:
  assumes "tables_change second s s'" "links_ok (tg_links s') (next_uuid (tg_main s'))" "tg_offset s' = tg_offset s" "telegram_inv second s"
  shows "telegram_inv second s' \<and> telegram_later s s'"
  using assms by (simp add: tables_change_def telegram_inv_def telegram_later_def load_next_update_id_def)

lemma update_inv:
  assumes "handle_update env r clock s now u = (r', Inr (s', out))" "ib_require_second_operator (ro_ip_block r) = second" "telegram_inv second s"
  shows "telegram_inv second s' \<and> telegram_later s s'"
proof -
  have c: "tables_change second s s'"
    using update_change [OF assms(1) assms(2) [symmetric]] assms(3) by (simp add: telegram_inv_def)
  have f: "frame s s'" by (rule handle_update_frame [OF assms(1)])
  have "links_ok (tg_links s') (next_uuid (tg_main s))"
    using assms(3) links_ok_cong [of "tg_links s'" "tg_links s" "next_uuid (tg_main s)"] f by (simp add: frame_def telegram_inv_def)
  then have "links_ok (tg_links s') (next_uuid (tg_main s'))" using c by (auto simp: tables_change_def intro: links_ok_mono)
  with c f assms(3) show ?thesis by (intro tables_change_inv) (simp_all add: frame_def)
qed

lemma rest_inv:
  assumes "block_step second (tg_blocks s) t" "history_inv (bt_main t)" "idem_inv (bt_main t)"
    "records_kept (tg_main s) (bt_main t)" "next_uuid (tg_main s) \<le> next_uuid (bt_main t)" "telegram_inv second s"
  shows "telegram_inv second (set_blocks s t) \<and> telegram_later s (set_blocks s t)"
proof (rule tables_change_inv)
  have b: "block_inv second (tg_blocks s)" using assms(6) by (simp add: telegram_inv_def tables_inv_def)
  show "tables_change second s (set_blocks s t)"
    using blocks.ok_step [OF b assms(1)] blocks.later_step [OF b assms(1)] assms by (simp add: tables_change_def tables_inv_def telegram_inv_def)
  show "links_ok (tg_links (set_blocks s t)) (next_uuid (tg_main (set_blocks s t)))"
    using assms(5,6) by (auto simp: telegram_inv_def intro: links_ok_mono)
qed (use assms(6) in simp_all)

interpretation inbox: forward_system "telegram_step env second" "telegram_inv second" telegram_later for env second
proof unfold_locales
  fix s s'
  assume inv: "telegram_inv second s" and step: "telegram_step env second s s'"
  from step have "telegram_inv second s' \<and> telegram_later s s'"
  proof (cases rule: telegram_step.cases)
    case step_confirm
    with inv show ?thesis
      by (auto simp: confirm_next_update_id_def bind_r_eq_Inr telegram_inv_def tables_inv_def telegram_later_def load_next_update_id_def
          split: option.splits if_splits)
  next
    case step_link
    with link_user_change [OF step_link(1) inv] inv show ?thesis by (intro tables_change_inv) simp_all
  next
    case step_unlink
    with revoke_link_change [OF step_unlink(1) inv] inv show ?thesis by (intro tables_change_inv) simp_all
  next
    case step_operators
    with inv show ?thesis by (simp add: telegram_inv_def tables_inv_def telegram_later_def load_next_update_id_def)
  next
    case step_rest
    with inv show ?thesis by (simp add: rest_inv)
  next
    case (step_update r clock now u r' out)
    then show ?thesis using inv by (intro update_inv)
  qed
  then show "telegram_inv second s'" "telegram_later s s'" by simp_all
next
  fix s t u
  show "telegram_later s t \<Longrightarrow> telegram_later t u \<Longrightarrow> telegram_later s u"
    by (auto simp: telegram_later_def records_kept_def intro: decisions_kept_trans)
qed (simp add: telegram_later_def)

section \<open>Handling an update again\<close>

definition update_key :: "text_env \<Rightarrow> telegram_update \<Rightarrow> string" where
  "update_key env u = (case up_callback_query u of
     Some q \<Rightarrow> callback_idempotency_key env (cq_id q) | None \<Rightarrow> ''tg-msg-'' @ show_int (up_id u))"

text \<open>The updates that may run a transition: a text that is no command, or the button for \<open>investigating\<close>.\<close>

definition runs_transition :: "text_env \<Rightarrow> telegram_update \<Rightarrow> bool" where
  "runs_transition env u \<longleftrightarrow> (case update_action env u of
     Some action \<Rightarrow> (\<exists>i v. action = Incident_Action i Investigating v)
   | None \<Rightarrow> (\<forall>m body. up_message u = Some m \<longrightarrow> ms_text m = Some body \<longrightarrow> parse_command env body = None))"

lemma decision_recorded:
  assumes "(if approve then approve_ip_block t now actor p rid second else reject_ip_block t now actor p rid) = Inr (t', result)"
    "block_inv second t" "t' \<noteq> t"
  shows "\<exists>plan \<in> set (bt_plans t'). pl_id plan = p \<and> pl_status plan \<noteq> Proposed"
proof -
  from assms(1,3) obtain plan plan' status action where 1: "live_plan t now p = Inr plan" "status = Approved \<or> status = Rejected"
    "decide_plan t now actor rid status action plan = Inr (t', plan')" "\<not> (second \<and> status = Approved \<and> pl_proposed_by plan = op_operator_id actor)"
    by (auto simp: approve_ip_block_def reject_ip_block_def bind_r_eq_Inr Let_def split: sum.split_asm if_split_asm)
  note d = decide_plan_change [OF 1(3) assms(2) 1(1)]
  have "plan \<in> set (bt_plans t)" "pl_id plan = p" using 1(1) by (auto simp: live_plan_Inr dest: find_row_SomeD)
  then have "plan' \<in> set (bt_plans t')" using d(3) 1(2,4) by (auto simp: set_update_where)
  moreover have "pl_id plan' = p" "pl_status plan' \<noteq> Proposed" using d(2) 1(2,4) \<open>pl_id plan = p\<close> by auto
  ultimately show ?thesis by blast
qed

lemma decided_stays:
  assumes "(if approve then approve_ip_block t now actor p rid second else reject_ip_block t now actor p rid) = Inr (t', result)"
    "block_inv second t" "plan \<in> set (bt_plans t)" "pl_id plan = p" "pl_status plan \<noteq> Proposed"
  shows "t' = t"
proof -
  have "find_row pl_id p (bt_plans t) = Some plan" using assms(2-4) find_row_distinct by (auto simp: block_inv_def)
  then have "\<exists>d. live_plan t now p = Inl d" using assms(5) by (simp add: live_plan_def)
  with assms(1) show ?thesis by (auto simp: approve_ip_block_def reject_ip_block_def split: if_splits)
qed

lemma acting_unique: "acting s k l operator \<Longrightarrow> acting s k l2 operator2 \<Longrightarrow> l2 = l \<and> operator2 = operator"
  by (simp add: acting_def)

lemma set_main_same: "set_main s (tg_main s) = s" "set_blocks s (tg_blocks s) = s"
  by (simp_all add: set_main_def set_blocks_def)

text \<open>What a handling that changed the tables leaves behind, unless it was a proposal: an outcome under the key of the
  update, or a decided plan.\<close>

lemma change_leaves_record:
  assumes "handle_update env r clock s now u = (r', Inr (s', out))" "tg_blocks s' \<noteq> tg_blocks s"
    "\<And>i. update_action env u \<noteq> Some (Propose_Block i)" "block_inv second (tg_blocks s)" "ib_require_second_operator (ro_ip_block r) = second"
  obtains (outcome) sender l operator where "update_sender u = Some sender" "acting s (sn_id sender) l operator" "runs_transition env u"
      "idem_lookup (tg_main s') (opr_id operator, update_key env u) \<noteq> None"
  | (decision) p approve plan where "update_action env u = Some (Decide_Block p approve)"
      "plan \<in> set (bt_plans (tg_blocks s'))" "pl_id plan = p" "pl_status plan \<noteq> Proposed"
  using assms(1)
proof (cases rule: update_did)
  case (pressed q sender action l operator)
  let ?actor = "telegram_principal operator l"
  show ?thesis
  proof (cases action)
    case (Propose_Block i)
    with assms(3) [of i] pressed(5) show ?thesis by simp
  next
    case (Decide_Block p approve)
    with pressed(7) assms(5) obtain t result where t: "(if approve then approve_ip_block (tg_blocks s) now ?actor p (callback_request_id env (cq_id q)) second
        else reject_ip_block (tg_blocks s) now ?actor p (callback_request_id env (cq_id q))) = Inr (t, result)" "s' = set_blocks (touch s now l) t"
      by (auto simp: button_did_def)
    with decision_recorded [OF t(1) assms(4)] assms(2) decision [of p approve] pressed(5) Decide_Block show ?thesis by auto
  next
    case (Incident_Action i st v)
    show ?thesis
    proof (cases "st = Investigating")
      case True
      with pressed(7) Incident_Action obtain t d oc where "transition_incident (tg_main s) now ?actor i t (callback_idempotency_key env (cq_id q))
          (canonical_transition_hash (tx_sha256_hex env) i t) (callback_request_id env (cq_id q)) = Inr (d, oc)" "s' = set_main (touch s now l) d"
        by (auto simp: button_did_def)
      with transition_records(2) [OF this(1)] pressed(4)
      have "idem_lookup (tg_main s') (opr_id operator, update_key env u) \<noteq> None" by (simp add: telegram_principal_def update_key_def)
      moreover have "runs_transition env u" using pressed(5) Incident_Action True by (simp add: runs_transition_def)
      ultimately show ?thesis using outcome [OF pressed(1,3)] by simp
    next
      case False
      with pressed(7) Incident_Action have "store_pending_action (touch s now l) now (sn_id sender) i st v (ro_pending_action_ttl_seconds r) = Inr s'"
        by (simp add: button_did_def)
      then have "tg_blocks s' = tg_blocks s" by (rule store_pending_Inr) simp
      with assms(2) show ?thesis by simp
    qed
  qed
next
  case (written m sender body l operator)
  let ?actor = "telegram_principal operator l"
  have no: "parse_command env body = None"
    using written(8) assms(2) by (cases "parse_command env body") (auto simp: message_did_def Let_def touched_frame)
  with written(8) assms(2) obtain i t d oc h rid where "transition_incident (tg_main s) now ?actor i t (''tg-msg-'' @ show_int (up_id u)) h rid = Inr (d, oc)"
    "tg_main s' = d" by (auto simp: message_did_def Let_def)
  with transition_records(2) [OF this(1)] written(4)
  have "idem_lookup (tg_main s') (opr_id operator, update_key env u) \<noteq> None" by (simp add: telegram_principal_def update_key_def)
  moreover have "runs_transition env u" using written(5-7) no by (simp add: runs_transition_def)
  ultimately show ?thesis using outcome [OF written(1,3)] by simp
qed (use assms(2) in simp_all)

text \<open>What is left to do once that record is there.\<close>

definition replay_effect :: "text_env \<Rightarrow> telegram_update \<Rightarrow> int \<Rightarrow> time \<Rightarrow> telegram \<Rightarrow> telegram \<Rightarrow> bool" where
  "replay_effect env u user_id now t t' \<longleftrightarrow> t' = t \<or> (\<exists>l operator. acting t user_id l operator
     \<and> (t' = touch t now l \<or> update_action env u = None \<and> t' = delete_pending_action (touch t now l) user_id))"

lemma recorded_transition_rests:
  assumes "handle_update env r clock t now u = (r', Inr (t', out))" "update_sender u = Some sender" "runs_transition env u"
    "\<And>l operator. acting t (sn_id sender) l operator \<Longrightarrow> idem_lookup (tg_main t) (opr_id operator, update_key env u) \<noteq> None"
  shows "replay_effect env u (sn_id sender) now t t'"
  using assms(1)
proof (cases rule: update_did)
  case (pressed q sender2 action l operator)
  let ?actor = "telegram_principal operator l"
  have s: "sender2 = sender" using pressed(1) assms(2) by simp
  from assms(3) pressed(5) obtain i v where "action = Incident_Action i Investigating v" by (auto simp: runs_transition_def)
  with pressed(7) obtain tr d oc where run: "transition_incident (tg_main t) now ?actor i tr (callback_idempotency_key env (cq_id q))
      (canonical_transition_hash (tx_sha256_hex env) i tr) (callback_request_id env (cq_id q)) = Inr (d, oc)" "t' = set_main (touch t now l) d"
    by (auto simp: button_did_def)
  have "d = tg_main t"
    using assms(4) [of l operator] pressed(3,4)
    by (intro transition_records(3) [OF run(1)]) (simp add: s telegram_principal_def update_key_def)
  with run(2) have "t' = touch t now l" using set_main_same(1) [of "touch t now l"] by simp
  with pressed(3) s show ?thesis by (auto simp: replay_effect_def)
next
  case (written m sender2 body l operator)
  let ?actor = "telegram_principal operator l"
  have s: "sender2 = sender" using written(1) assms(2) by simp
  have no: "parse_command env body = None" using assms(3) written(5-7) by (simp add: runs_transition_def)
  let ?w = "delete_pending_action (touch t now l) (sn_id sender)"
  have same: "d = tg_main t" if "transition_incident (tg_main t) now ?actor i tr (''tg-msg-'' @ show_int (up_id u)) h rid = Inr (d, oc)" for i tr h rid d oc
    using that assms(4) [of l operator] written(3,4)
    by (intro transition_records(3) [OF that]) (simp add: s telegram_principal_def update_key_def)
  have "t' = touch t now l \<or> t' = ?w \<or> (\<exists>d. t' = set_main ?w d \<and> d = tg_main t)"
    using written(8) no same by (auto simp: message_did_def Let_def s)
  then have "t' = touch t now l \<or> t' = ?w" using set_main_same(1) [of ?w] by auto
  with written(3,5) s show ?thesis by (auto simp: replay_effect_def)
qed (use assms(2) in \<open>auto simp: replay_effect_def\<close>)

lemma decided_plan_rests:
  assumes "handle_update env r clock t now u = (r', Inr (t', out))" "update_sender u = Some sender"
    "update_action env u = Some (Decide_Block p approve)" "block_inv second (tg_blocks t)" "ib_require_second_operator (ro_ip_block r) = second"
    "plan \<in> set (bt_plans (tg_blocks t))" "pl_id plan = p" "pl_status plan \<noteq> Proposed"
  shows "replay_effect env u (sn_id sender) now t t'"
  using assms(1)
proof (cases rule: update_did)
  case (pressed q sender2 action l operator)
  have s: "sender2 = sender" using pressed(1) assms(2) by simp
  let ?actor = "telegram_principal operator l" and ?rid = "callback_request_id env (cq_id q)"
  from pressed(5,7) assms(3,5) obtain b result where b: "(if approve then approve_ip_block (tg_blocks t) now ?actor p ?rid second
      else reject_ip_block (tg_blocks t) now ?actor p ?rid) = Inr (b, result)" "t' = set_blocks (touch t now l) b"
    by (auto simp: button_did_def)
  from decided_stays [OF b(1) assms(4,6-8)] b(2) have "t' = touch t now l"
    using set_main_same(2) [of "touch t now l"] by simp
  with pressed(3) s show ?thesis by (auto simp: replay_effect_def)
qed (use assms(2,3) in \<open>auto simp: replay_effect_def\<close>)

lemma replay_effect_blocks: "replay_effect env u user_id now t t' \<Longrightarrow> tg_blocks t' = tg_blocks t"
  by (auto simp: replay_effect_def)

text \<open>Every pending action goes back to a button its account pressed with the permission to change incidents.\<close>

lemma pending_was_asked_for:
  assumes "(telegram_step env second)\<^sup>*\<^sup>* s t" "p \<in> set (tg_pending t)" "p \<notin> set (tg_pending s)"
  shows "\<exists>a b r clock u r' out q sender l operator. (telegram_step env second)\<^sup>*\<^sup>* s a \<and> (telegram_step env second)\<^sup>*\<^sup>* b t
    \<and> handle_update env r clock a (pd_created_at p) u = (r', Inr (b, out)) \<and> up_callback_query u = Some q
    \<and> update_sender u = Some sender \<and> sn_id sender = pd_user_id p \<and> acting a (sn_id sender) l operator
    \<and> role_has_permission (opr_role operator) Transition_Incidents
    \<and> update_action env u = Some (Incident_Action (pd_incident_id p) (pd_target_status p) (pd_expected_version p))"
  using assms
proof (induction rule: rtranclp_induct)
  case (step t t')
  note whole = rtranclp.rtrancl_into_rtrancl
  show ?case
  proof (cases "p \<in> set (tg_pending t)")
    case True
    from step.IH [OF this step.prems(2)] step.hyps(2) show ?thesis
      by (elim exE conjE) (intro exI conjI, (assumption | erule whole)+)
  next
    case False
    from step.hyps(2) show ?thesis
    proof (cases rule: telegram_step.cases)
      case (step_update r clock now u r' out)
      from step_update(1) show ?thesis
      proof (cases rule: update_did)
        case (pressed q sender action l operator)
        with button_did_pending [OF pressed(7) step.prems(1) False] step_update(1) step.hyps(1) show ?thesis
          by (intro exI conjI) (assumption | rule rtranclp.rtrancl_refl | simp)+
      next
        case (written m sender body l operator)
        with message_did_attributed [OF written(8)] step.prems(1) False show ?thesis by blast
      qed (use step.prems(1) False in auto)
    next
      case step_link
      with step.prems(1) False show ?thesis
        by (auto simp: link_telegram_user_def bind_r_eq_Inr Let_def insert_link_def uuid4_def log_link_def split: option.split_asm)
    next
      case step_unlink
      with step.prems(1) False show ?thesis
        by (auto simp: revoke_telegram_link_def bind_r_eq_Inr Let_def log_link_def touched_frame split: option.split_asm)
    next
      case step_confirm
      with step.prems(1) False show ?thesis by (auto simp: confirm_next_update_id_def bind_r_eq_Inr)
    qed (use step.prems(1) False in simp_all)
  qed
qed simp

section \<open>Properties\<close>

text \<open>C11: Telegram delivers an update again when the process stopped after handling it and before confirming the
  offset. Take an update whose first handling changed the shared tables (ran a transition, answered or refused, or
  decided a plan) and that is no proposal of a block. Whatever else happens to the tables in between, other updates,
  new links, other services and administrators included, handling it again at any later time leaves incidents,
  histories, plans, allowlist, audit log and recorded outcomes exactly as they are. All it can still do is to record
  the use of the account's link and, for a message, to withdraw what is pending for its account by then. This holds
  when the account is no longer linked and when it is linked to the same operator, not after it was linked to
  another one. A proposal repeated after its plan was decided is a new proposal, so proposals are left out.\<close>

theorem replayed_updates_act_once:
  assumes "telegram_inv second s" "ib_require_second_operator (ro_ip_block r) = second"
    and first: "handle_update env r clock s now u = (r', Inr (s', out))" "update_sender u = Some sender"
      "acting s (sn_id sender) l operator" "tg_blocks s' \<noteq> tg_blocks s" "\<And>i. update_action env u \<noteq> Some (Propose_Block i)"
    and between: "(telegram_step env second)\<^sup>*\<^sup>* s' t"
    and again: "handle_update env r2 clock2 t now2 u = (r2', Inr (t', out2))" "ib_require_second_operator (ro_ip_block r2) = second"
      "\<And>l2 operator2. acting t (sn_id sender) l2 operator2 \<Longrightarrow> opr_id operator2 = opr_id operator"
  shows "tg_blocks t' = tg_blocks t \<and> (t' = t \<or> (\<exists>l2 operator2. acting t (sn_id sender) l2 operator2
    \<and> (t' = touch t now2 l2 \<or> update_action env u = None \<and> t' = delete_pending_action (touch t now2 l2) (sn_id sender))))"
proof -
  have inv': "telegram_inv second s'" using update_inv [OF first(1) assms(2,1)] by simp
  then have inv_t: "telegram_inv second t" using inbox.ok_steps [OF between] by simp
  have later: "telegram_later s' t" by (rule inbox.later_steps [OF between inv'])
  have b: "block_inv second (tg_blocks s)" "block_inv second (tg_blocks t)"
    using assms(1) inv_t by (simp_all add: telegram_inv_def tables_inv_def)
  from first(1,4,5) b(1) assms(2) have "replay_effect env u (sn_id sender) now2 t t'"
  proof (cases rule: change_leaves_record)
    case (outcome sender2 l2 operator2)
    have "operator2 = operator" using outcome(1,2) first(2,3) acting_unique by auto
    with outcome(4) later have "idem_lookup (tg_main t) (opr_id operator, update_key env u) \<noteq> None"
      by (auto simp: telegram_later_def records_kept_def)
    with again(3) show ?thesis by (intro recorded_transition_rests [OF again(1) first(2) outcome(3)]) metis
  next
    case (decision p approve plan)
    from decision(2-4) later have "plan \<in> set (bt_plans (tg_blocks t))" by (auto simp: telegram_later_def decisions_kept_def)
    with decision show ?thesis by (intro decided_plan_rests [OF again(1) first(2) decision(1) b(2) again(2)])
  qed
  with replay_effect_blocks [OF this] show ?thesis by (simp only: replay_effect_def simp_thms)
qed

lemma sample_telegram_inv: "telegram_inv True (sample_telegram role)"
  using sample_db_inv
  by (simp add: telegram_inv_def tables_inv_def block_inv_def open_keys_def links_ok_def pending_ok_def load_next_update_id_def
      sample_telegram_def sample_link_def link_check_def live_link_def after_opt_def pending_check_def)
    (simp add: sample_db_def is_terminal_def)

theorem replayed_updates_act_once_witness:
  "\<exists>r' s' out r2' t' out2. handle_update sample_env sample_router 0 (sample_telegram Analyst) 10 sample_update = (r', Inr (s', out))
    \<and> map inc_status (incidents (tg_main s')) = [Resolved]
    \<and> handle_update sample_env sample_router 0 s' 20 sample_update = (r2', Inr (t', out2)) \<and> tg_blocks t' = tg_blocks s'"
proof -
  obtain r' d out where 1: "handle_update sample_env sample_router 0 (sample_telegram Analyst) 10 sample_update
      = (r', Inr (set_main (delete_pending_action (touch (sample_telegram Analyst) 10 sample_link) 77) d, out))"
    "map inc_status (incidents d) = [Resolved]" using sample_handled by metis
  let ?s' = "set_main (delete_pending_action (touch (sample_telegram Analyst) 10 sample_link) 77) d"
  have "\<exists>r2' t' out2. handle_update sample_env sample_router 0 ?s' 20 sample_update = (r2', Inr (t', out2))"
    using sample_again by blast
  then obtain r2' t' out2 where 2: "handle_update sample_env sample_router 0 ?s' 20 sample_update = (r2', Inr (t', out2))" by blast
  have "incidents (tg_main ?s') \<noteq> incidents (tg_main (sample_telegram Analyst))"
    using 1(2) by (auto simp: sample_telegram_def sample_db_def sample_incident_def)
  then have changed: "tg_blocks ?s' \<noteq> tg_blocks (sample_telegram Analyst)" by metis
  have sender: "update_sender sample_update = Some \<lparr>sn_id = 77, sn_is_bot = False, sn_language_code = None\<rparr>"
    "update_action sample_env sample_update = None" by (simp_all add: update_sender_def update_action_def sample_update_def)
  have second: "ib_require_second_operator (ro_ip_block sample_router) = True" by (simp add: sample_router_def)
  have "tg_blocks t' = tg_blocks ?s'"
  proof (rule conjunct1 [OF replayed_updates_act_once [OF sample_telegram_inv second 1(1) sender(1) _ changed _ rtranclp.rtrancl_refl 2 second]])
    show "acting (sample_telegram Analyst) (sn_id \<lparr>sn_id = 77, sn_is_bot = False, sn_language_code = None\<rparr>) sample_link (sample_anna Analyst)"
      using sample_acting by simp
    show "opr_id operator2 = opr_id (sample_anna Analyst)"
      if "acting ?s' (sn_id \<lparr>sn_id = 77, sn_is_bot = False, sn_language_code = None\<rparr>) l2 operator2" for l2 operator2
      using that by (auto simp: acting_def sample_telegram_def sample_anna_def touch_def update_link_def split: if_splits)
  qed (simp add: sender(2))
  with 1 2 show ?thesis by (metis set_main_simps(1))
qed

end
