(* ===== verification/Telegram_Poller.thy ===== *)
theory Telegram_Poller
  imports Telegram_Inbox
begin

text \<open>
  \<open>telegram_bot/poller.py\<close> and the response contract of \<open>infrastructure/telegram/updates.py\<close>: one cycle of the
  single consumer. The Bot API answers, the reading of JSON and the two clocks are parameters. Every update is
  handled in a transaction of its own, so a cycle that fails keeps what it handled before.
\<close>

section \<open>The response contract\<close>

definition sender_contract_ok :: "telegram_sender \<Rightarrow> bool" where
  "sender_contract_ok s \<longleftrightarrow> 0 < sn_id s \<and> sn_id s \<le> telegram_user_id_max
     \<and> (case sn_language_code s of None \<Rightarrow> True | Some tag \<Rightarrow> length tag \<le> 35)"

definition message_contract_ok :: "telegram_message \<Rightarrow> bool" where
  "message_contract_ok m \<longleftrightarrow> (case ms_sender m of None \<Rightarrow> True | Some s \<Rightarrow> sender_contract_ok s)
     \<and> length (ms_chat_type m) \<le> 32 \<and> (case ms_text m of None \<Rightarrow> True | Some t \<Rightarrow> length t \<le> 4096)"

definition callback_contract_ok :: "callback_query \<Rightarrow> bool" where
  "callback_contract_ok q \<longleftrightarrow> 1 \<le> length (cq_id q) \<and> length (cq_id q) \<le> 128
     \<and> (case cq_sender q of None \<Rightarrow> True | Some s \<Rightarrow> sender_contract_ok s)
     \<and> (case cq_message q of None \<Rightarrow> True | Some m \<Rightarrow> message_contract_ok m)
     \<and> (case cq_data q of None \<Rightarrow> True | Some d \<Rightarrow> length d \<le> 256)"

definition update_contract_ok :: "telegram_update \<Rightarrow> bool" where
  "update_contract_ok u \<longleftrightarrow> 0 \<le> up_id u \<and> (case up_message u of None \<Rightarrow> True | Some m \<Rightarrow> message_contract_ok m)
     \<and> (case up_callback_query u of None \<Rightarrow> True | Some q \<Rightarrow> callback_contract_ok q)"

record update_response =
  rs_ok :: bool
  rs_result :: "telegram_update list"

definition response_contract_ok :: "update_response \<Rightarrow> bool" where
  "response_contract_ok rs \<longleftrightarrow> length (rs_result rs) \<le> 100 \<and> list_all update_contract_ok (rs_result rs)"

text \<open>\<open>read\<close> reads the JSON text into the fields of the contract, or fails.\<close>

definition parse_update_response :: "(string \<Rightarrow> update_response option) \<Rightarrow> string \<Rightarrow> telegram_update list result" where
  "parse_update_response read body = (case read body of
     None \<Rightarrow> Inl (TelegramUpdateError ''response was rejected safely'')
   | Some rs \<Rightarrow>
       if \<not> response_contract_ok rs then Inl (TelegramUpdateError ''response was rejected safely'')
       else if \<not> rs_ok rs then Inl (TelegramUpdateError ''response was not successful'')
       else Inr (sort_key up_id (rs_result rs)))"

section \<open>One cycle\<close>

datatype bot_call =
    Send_Call int reply "(string \<times> string) list"
  | Answer_Call ustring reply bool

record poll_result =
  pc_received :: nat
  pc_replied :: nat
  pc_ignored :: nat

text \<open>What the Bot API is asked to send, and whether the update counts as replied; \<open>api\<close> tells which calls get
  through. A failed call is logged and changes nothing.\<close>

definition send_outgoing :: "(bot_call \<Rightarrow> bool) \<Rightarrow> telegram_update \<Rightarrow> outgoing \<Rightarrow> bool" where
  "send_outgoing api u out = (case out of
     Nothing_To_Send \<Rightarrow> False
   | Send_Message chat t \<Rightarrow> api (Send_Call chat t [])
   | Answer_Callback query_id a \<Rightarrow>
       api (Answer_Call query_id (ca_text a) (ca_show_alert a))
       \<and> (case ca_follow_up_text a of
            None \<Rightarrow> True
          | Some t \<Rightarrow> (case Option.bind (up_callback_query u) cq_message of
              None \<Rightarrow> False
            | Some m \<Rightarrow> api (Send_Call (ms_chat_id m) t (ca_follow_up_keyboard a)))))"

text \<open>The loop over the batch, up to the first update that raises; \<open>ticks\<close> are the two clocks at each update.\<close>

fun handle_batch ::
  "text_env \<Rightarrow> (bot_call \<Rightarrow> bool) \<Rightarrow> (nat \<Rightarrow> rat \<times> time) \<Rightarrow> nat \<Rightarrow> router \<Rightarrow> telegram \<Rightarrow> telegram_update list
    \<Rightarrow> router \<times> telegram \<times> (nat \<times> nat) result" where
  "handle_batch env api ticks n r s [] = (r, s, Inr (0, 0))"
| "handle_batch env api ticks n r s (u # us) =
     (case handle_update env r (fst (ticks n)) s (snd (ticks n)) u of
        (r1, Inl e) \<Rightarrow> (r1, s, Inl e)
      | (r1, Inr (s1, out)) \<Rightarrow>
          (case handle_batch env api ticks (Suc n) r1 s1 us of
             (r2, s2, res) \<Rightarrow> (r2, s2, bind_r res (\<lambda>(replied, ignored).
               Inr (if send_outgoing api u out then (Suc replied, ignored) else (replied, Suc ignored))))))"

definition poll_once ::
  "text_env \<Rightarrow> (string \<Rightarrow> update_response option) \<Rightarrow> string result \<Rightarrow> (int \<Rightarrow> (int \<times> string) result) \<Rightarrow> (bot_call \<Rightarrow> bool)
    \<Rightarrow> (nat \<Rightarrow> rat \<times> time) \<Rightarrow> router \<Rightarrow> telegram \<Rightarrow> router \<times> telegram \<times> poll_result result" where
  "poll_once env read token get_updates api ticks r s =
     (case bind_r token (\<lambda>_. bind_r (get_updates (load_next_update_id s)) (\<lambda>(status, body).
         bind_r (guard_r (status = 200) (TelegramTransportError ''update request was rejected safely'')) (\<lambda>_.
         parse_update_response read body))) of
        Inl e \<Rightarrow> (r, s, Inl e)
      | Inr [] \<Rightarrow> (r, s, Inr \<lparr>pc_received = 0, pc_replied = 0, pc_ignored = 0\<rparr>)
      | Inr us \<Rightarrow>
          (case handle_batch env api ticks 0 r s us of
             (r1, s1, Inl e) \<Rightarrow> (r1, s1, Inl e)
           | (r1, s1, Inr (replied, ignored)) \<Rightarrow>
               (case confirm_next_update_id s1 (up_id (last us) + 1) of
                  Inl e \<Rightarrow> (r1, s1, Inl e)
                | Inr s2 \<Rightarrow> (r1, s2, Inr \<lparr>pc_received = length us, pc_replied = replied, pc_ignored = ignored\<rparr>))))"

section \<open>A cycle as a run of the inbox\<close>

lemma handle_update_router:
  assumes "handle_update env r clock s now u = (r', res)"
  shows "ro_ip_block r' = ro_ip_block r"
proof (cases "up_callback_query u")
  case None
  with assms show ?thesis
    by (auto simp: handle_update_def handle_message_def Let_def split: option.split_asm if_split_asm sum.split_asm prod.split_asm)
next
  case (Some q)
  with assms show ?thesis
    by (auto simp: handle_update_def handle_callback_query_def Let_def split: option.split_asm if_split_asm sum.split_asm prod.split_asm)
qed

lemma handle_batch_Cons:
  assumes "handle_batch env api ticks n r s (u # us) = (r', s', res)"
  obtains (raised) e where "handle_update env r (fst (ticks n)) s (snd (ticks n)) u = (r', Inl e)" "s' = s" "res = Inl e"
  | (done_one) r1 s1 out rest where "handle_update env r (fst (ticks n)) s (snd (ticks n)) u = (r1, Inr (s1, out))"
      "handle_batch env api ticks (Suc n) r1 s1 us = (r', s', rest)"
      "res = bind_r rest (\<lambda>(replied, ignored).
         Inr (if send_outgoing api u out then (Suc replied, ignored) else (replied, Suc ignored)))"
  using assms that by (auto split: prod.split_asm sum.split_asm)

lemma handle_batch_steps:
  assumes "handle_batch env api ticks n r s us = (r', s', res)" "ib_require_second_operator (ro_ip_block r) = second"
  shows "(telegram_step env second)\<^sup>*\<^sup>* s s' \<and> tg_offset s' = tg_offset s"
  using assms
proof (induction us arbitrary: n r s res)
  case (Cons u us)
  from Cons.prems(1) show ?case
  proof (cases rule: handle_batch_Cons)
    case (done_one r1 s1 out rest)
    have "telegram_step env second s s1" using done_one(1) Cons.prems(2) by (rule step_update)
    moreover have "(telegram_step env second)\<^sup>*\<^sup>* s1 s' \<and> tg_offset s' = tg_offset s1"
      using Cons.IH [OF done_one(2)] handle_update_router [OF done_one(1)] Cons.prems(2) by simp
    moreover have "tg_offset s1 = tg_offset s" using handle_update_frame [OF done_one(1)] by (simp add: frame_def)
    ultimately show ?thesis by (auto intro: converse_rtranclp_into_rtranclp)
  qed simp
qed simp

lemma handle_batch_counts:
  "handle_batch env api ticks n r s us = (r', s', Inr (replied, ignored)) \<Longrightarrow> replied + ignored = length us"
proof (induction us arbitrary: n r s replied ignored)
  case (Cons u us)
  from Cons.prems show ?case
  proof (cases rule: handle_batch_Cons)
    case (done_one r1 s1 out rest)
    from done_one(3) [symmetric] obtain p i where rest: "rest = Inr (p, i)"
      "(if send_outgoing api u out then (Suc p, i) else (p, Suc i)) = (replied, ignored)" by (auto simp: bind_r_eq_Inr)
    then have "p + i = length us" using Cons.IH done_one(2) by simp
    with rest(2) show ?thesis by (auto split: if_splits)
  qed simp
qed simp

text \<open>A failing batch stops at the update that raised; the updates before it were handled.\<close>

lemma handle_batch_stops:
  assumes "handle_batch env api ticks n r s us = (r', s', Inl e)"
  shows "\<exists>k r1 counts. k < length us \<and> handle_batch env api ticks n r s (take k us) = (r1, s', Inr counts)
    \<and> handle_update env r1 (fst (ticks (n + k))) s' (snd (ticks (n + k))) (us ! k) = (r', Inl e)"
  using assms
proof (induction us arbitrary: n r s)
  case (Cons u us)
  from Cons.prems show ?case
  proof (cases rule: handle_batch_Cons)
    case (raised e')
    then show ?thesis by (intro exI [of _ 0]) simp
  next
    case (done_one r1 s1 out rest)
    from done_one(3) have "rest = Inl e" by (cases rest) (auto split: prod.split_asm)
    with Cons.IH done_one(2) obtain k r2 counts where k: "k < length us" "handle_batch env api ticks (Suc n) r1 s1 (take k us) = (r2, s', Inr counts)"
      "handle_update env r2 (fst (ticks (Suc n + k))) s' (snd (ticks (Suc n + k))) (us ! k) = (r', Inl e)" by blast
    then show ?thesis using done_one(1) by (intro exI [of _ "Suc k"]) (auto split: prod.split)
  qed
qed simp

lemma parse_update_sorted: "parse_update_response read body = Inr us \<Longrightarrow> sorted (map up_id us) \<and> list_all (\<lambda>u. 0 \<le> up_id u) us"
  by (auto simp: parse_update_response_def response_contract_ok_def update_contract_ok_def list_all_iff split: option.split_asm if_split_asm)

lemma sorted_le_last: "sorted (map f xs) \<Longrightarrow> x \<in> set xs \<Longrightarrow> f x \<le> f (last xs)"
  by (induction xs rule: rev_induct) (auto simp: sorted_append)

lemma confirm_next: "0 \<le> n \<Longrightarrow> confirm_next_update_id s n = Inr (s\<lparr>tg_offset := Some (case tg_offset s of None \<Rightarrow> n | Some old \<Rightarrow> max old n)\<rparr>)"
  by (auto simp: confirm_next_update_id_def split: option.split)

section \<open>Properties\<close>

text \<open>C39: The offset is confirmed only after handling. A cycle that ends well got one response for the confirmed
  offset, handled every update of it in order of its identifiers, each in one step of the inbox, counted each as
  replied or ignored, and left an offset beyond all of them. A cycle that fails leaves the offset as it was:
  either it did nothing, or it handled a prefix of the response, up to the update that raised, so that all of
  these come again. Either way the tables stay consistent, recorded outcomes and decided plans stay, and the
  offset never goes back.\<close>

theorem offset_confirmed_after_handling:
  assumes "telegram_inv second s" "ib_require_second_operator (ro_ip_block r) = second"
    "poll_once env read token get_updates api ticks r s = (r', s', res)"
  shows "telegram_inv second s' \<and> telegram_later s s' \<and> (telegram_step env second)\<^sup>*\<^sup>* s s' \<and> (case res of
      Inr c \<Rightarrow> \<exists>body us s1. get_updates (load_next_update_id s) = Inr (200, body) \<and> parse_update_response read body = Inr us
        \<and> handle_batch env api ticks 0 r s us = (r', s1, Inr (pc_replied c, pc_ignored c)) \<and> s' = s1\<lparr>tg_offset := tg_offset s'\<rparr>
        \<and> pc_received c = length us \<and> pc_replied c + pc_ignored c = length us \<and> (\<forall>u \<in> set us. up_id u < load_next_update_id s')
    | Inl e \<Rightarrow> tg_offset s' = tg_offset s \<and> (s' = s \<or> (\<exists>body us k r1 counts. get_updates (load_next_update_id s) = Inr (200, body)
        \<and> parse_update_response read body = Inr us \<and> k < length us
        \<and> handle_batch env api ticks 0 r s (take k us) = (r1, s', Inr counts)
        \<and> handle_update env r1 (fst (ticks k)) s' (snd (ticks k)) (us ! k) = (r', Inl e))))"
proof -
  let ?got = "bind_r token (\<lambda>_. bind_r (get_updates (load_next_update_id s)) (\<lambda>(status, body).
         bind_r (guard_r (status = 200) (TelegramTransportError ''update request was rejected safely'')) (\<lambda>_.
         parse_update_response read body)))"
  have kept: "telegram_inv second t \<and> telegram_later s t" if "(telegram_step env second)\<^sup>*\<^sup>* s t" for t
    using inbox.ok_steps [OF that assms(1)] inbox.later_steps [OF that assms(1)] by simp
  show ?thesis
  proof (cases ?got)
    case (Inl e)
    with assms(3) kept [of s] show ?thesis by (auto simp: poll_once_def)
  next
    case (Inr us)
    then obtain body where got: "get_updates (load_next_update_id s) = Inr (200, body)" "parse_update_response read body = Inr us"
      by (auto simp: bind_r_eq_Inr)
    show ?thesis
    proof (cases us)
      case Nil
      with assms(3) Inr got kept [of s] show ?thesis by (auto simp: poll_once_def)
    next
      case (Cons u0 us0)
      obtain r1 s1 out where batch: "handle_batch env api ticks 0 r s us = (r1, s1, out)" by (metis prod_cases3)
      note run = handle_batch_steps [OF batch assms(2)]
      show ?thesis
      proof (cases out)
        case (Inl e)
        with assms(3) Inr batch Cons have "r' = r1" "s' = s1" "res = Inl e" by (auto simp: poll_once_def)
        with handle_batch_stops [of env api ticks 0 r s us] batch Inl run kept got show ?thesis by fastforce
      next
        case out: (Inr counts)
        have last: "up_id u \<le> up_id (last us)" "0 \<le> up_id (last us)" if "u \<in> set us" for u
          using parse_update_sorted [OF got(2)] that last_in_set [of us] Cons by (auto simp: list_all_iff intro: sorted_le_last)
        obtain s2 where s2: "confirm_next_update_id s1 (up_id (last us) + 1) = Inr s2"
          "s2 = s1\<lparr>tg_offset := tg_offset s2\<rparr>" "up_id (last us) < load_next_update_id s2"
          using confirm_next [of "up_id (last us) + 1" s1] last(2) [of u0] Cons by (auto simp: load_next_update_id_def split: option.splits)
        obtain p i where pi: "counts = (p, i)" by fastforce
        have eqs: "r' = r1" "s' = s2" "res = Inr \<lparr>pc_received = length us, pc_replied = p, pc_ignored = i\<rparr>"
          using assms(3) Inr batch Cons out pi s2(1) by (auto simp: poll_once_def)
        have "(telegram_step env second)\<^sup>*\<^sup>* s s2" using run step_confirm [OF s2(1)] by (auto intro: rtranclp.rtrancl_into_rtrancl)
        with kept [OF this] got batch out pi handle_batch_counts [of env api ticks 0 r s us] s2 last(1) show ?thesis
          unfolding eqs by (fastforce intro: le_less_trans)
      qed
    qed
  qed
qed

theorem offset_confirmed_after_handling_witness:
  "\<exists>r' s' c. poll_once sample_env (\<lambda>_. Some \<lparr>rs_ok = True, rs_result = [sample_update]\<rparr>) (Inr ''token'') (\<lambda>_. Inr (200, ''{}'')) (\<lambda>_. True)
      (\<lambda>_. (0, 10)) sample_router (sample_telegram Analyst) = (r', s', Inr c)
    \<and> telegram_inv True s' \<and> pc_received c = 1 \<and> 3 < load_next_update_id s'"
proof -
  let ?s = "sample_telegram Analyst"
  let ?read = "\<lambda>_ :: string. Some \<lparr>rs_ok = True, rs_result = [sample_update]\<rparr>"
  have "update_contract_ok sample_update"
    by (simp add: update_contract_ok_def message_contract_ok_def sender_contract_ok_def telegram_user_id_max_def sample_update_def ascii_def)
  then have us: "parse_update_response ?read body = Inr [sample_update]" for body
    by (simp add: parse_update_response_def response_contract_ok_def)
  obtain r' d out where "handle_update sample_env sample_router 0 ?s 10 sample_update
      = (r', Inr (set_main (delete_pending_action (touch ?s 10 sample_link) 77) d, out))" using sample_handled by metis
  moreover have "up_id sample_update = 3" by (simp add: sample_update_def)
  ultimately obtain s' c where run: "poll_once sample_env ?read (Inr ''token'') (\<lambda>_. Inr (200, ''{}'')) (\<lambda>_. True) (\<lambda>_. (0, 10)) sample_router ?s
      = (r', s', Inr c)"
    by (cases "send_outgoing (\<lambda>_. True) sample_update out") (simp_all add: poll_once_def us confirm_next guard_r_def)
  have "ib_require_second_operator (ro_ip_block sample_router) = True" by (simp add: sample_router_def)
  from offset_confirmed_after_handling [OF sample_telegram_inv this run] us
  have "telegram_inv True s' \<and> pc_received c = 1 \<and> up_id sample_update < load_next_update_id s'" by auto
  with run \<open>up_id sample_update = 3\<close> show ?thesis by auto
qed

end
