(* ===== verification/File_Integrity.thy ===== *)
theory File_Integrity
  imports Agent_Service Unicode_Text "HOL-Library.AList"
begin

text \<open>
  \<open>sources/file_integrity.py\<close>, with the normalization of its records: a scan compares what can be observed of each
  watched path with the baseline in the cursor. What the operating system answers about a path is a \<open>probe\<close>;
  SHA-256 as hexadecimal text, UUID 5 and the printable characters are parameters. A dictionary is an
  association list in the order of insertion.
\<close>

section \<open>Observing a path\<close>

record file_info =
  fi_regular :: bool
  fi_size :: nat
  fi_mtime_ns :: int
  fi_mode :: nat
  fi_uid :: nat
  fi_gid :: nat

text \<open>\<open>os.open\<close> with \<open>os.fstat\<close>, \<open>os.read\<close> to the end, \<open>os.stat\<close>; \<open>None\<close> is an \<open>OSError\<close>.\<close>

record probe =
  pb_open :: "file_info option"
  pb_content :: "string option"
  pb_stat :: "file_info option"

record file_state =
  fs_state_digest :: string
  fs_permission_digest :: string
  fs_present :: bool
  fs_readable :: bool

definition observable :: "file_state \<Rightarrow> string" where
  "observable st = fs_state_digest st @ fs_permission_digest st"

definition max_hashed_bytes :: nat where "max_hashed_bytes = 8 * 1024 * 1024"

definition max_watched_paths :: nat where "max_watched_paths = 64"

definition missing_state :: string where "missing_state = replicate 16 (CHR ''0'')"

definition missing_permissions :: string where "missing_permissions = replicate 8 (CHR ''0'')"

fun oct_digits :: "nat \<Rightarrow> string" where
  "oct_digits n = (if n < 8 then [char_of (48 + n)] else oct_digits (n div 8) @ [char_of (48 + n mod 8)])"

declare oct_digits.simps [simp del]

text \<open>\<open>f"{mode:04o}"\<close>\<close>

definition oct_mode :: "nat \<Rightarrow> string" where
  "oct_mode n = replicate (4 - length (oct_digits n)) (CHR ''0'') @ oct_digits n"

definition state_from_stat :: "(string \<Rightarrow> string) \<Rightarrow> file_info \<Rightarrow> string option \<Rightarrow> file_state" where
  "state_from_stat sha info content =
     (let permissions = oct_mode (fi_mode info) @ '':'' @ show_nat (fi_uid info) @ '':'' @ show_nat (fi_gid info);
          material = (case content of Some digest \<Rightarrow> digest
            | None \<Rightarrow> ''meta|'' @ show_nat (fi_size info) @ ''|'' @ show_int (fi_mtime_ns info)) in
      \<lparr>fs_state_digest = take 16 (sha material), fs_permission_digest = take 8 (sha permissions),
       fs_present = True, fs_readable = (content \<noteq> None)\<rparr>)"

definition state_without_reading :: "(string \<Rightarrow> string) \<Rightarrow> probe \<Rightarrow> file_state" where
  "state_without_reading sha p = (case pb_stat p of
     None \<Rightarrow> \<lparr>fs_state_digest = missing_state, fs_permission_digest = missing_permissions, fs_present = False, fs_readable = False\<rparr>
   | Some info \<Rightarrow> state_from_stat sha info None)"

definition read_state :: "(string \<Rightarrow> string) \<Rightarrow> probe \<Rightarrow> file_state" where
  "read_state sha p = (case pb_open p of
     None \<Rightarrow> state_without_reading sha p
   | Some info \<Rightarrow>
       if \<not> fi_regular info \<or> max_hashed_bytes < fi_size info then state_from_stat sha info None
       else (case pb_content p of
          None \<Rightarrow> state_without_reading sha p
        | Some bytes \<Rightarrow> state_from_stat sha info (Some (sha bytes))))"

section \<open>The baseline in the cursor\<close>

type_synonym baseline = "(string \<times> string) list"

definition path_key :: "(string \<Rightarrow> string) \<Rightarrow> string \<Rightarrow> string" where
  "path_key sha path = take 8 (sha path)"

text \<open>The keys of a dictionary are distinct, so sorting its items is sorting by the keys.\<close>

definition serialize_baseline :: "baseline \<Rightarrow> string" where
  "serialize_baseline entries = join_with '','' (map (\<lambda>(name, v). name @ '':'' @ v) (sort_key fst entries))"

fun parse_entries :: "string list \<Rightarrow> baseline \<Rightarrow> baseline option" where
  "parse_entries [] entries = Some entries"
| "parse_entries (item # items) entries =
     (let name = takeWhile (\<lambda>c. c \<noteq> CHR '':'') item; v = drop (length name + 1) item in
      if CHR '':'' \<notin> set item \<or> \<not> (name \<noteq> [] \<and> list_all is_alnum name) \<or> \<not> (v \<noteq> [] \<and> list_all is_alnum v) then None
      else if length v \<noteq> 24 then None
      else parse_entries items (AList.update name v entries))"

definition parse_baseline :: "string option \<Rightarrow> baseline" where
  "parse_baseline cursor = (case cursor of
     None \<Rightarrow> []
   | Some c \<Rightarrow> if c = [] then [] else (case parse_entries (split_on (CHR '','') c) [] of None \<Rightarrow> [] | Some b \<Rightarrow> b))"

section \<open>The scan\<close>

definition classify_change :: "string \<Rightarrow> file_state \<Rightarrow> string" where
  "classify_change previous st =
     (if \<not> fs_present st then ''disappeared''
      else if take 16 previous = missing_state then ''appeared''
      else if take 16 previous \<noteq> fs_state_digest st then (if fs_readable st then ''content'' else ''metadata'')
      else ''permissions'')"

definition baseline_record :: "baseline \<Rightarrow> journal_record" where
  "baseline_record entries = \<lparr>jr_cursor = serialize_baseline entries, jr_fields = [(''FILE_INTEGRITY_BASELINE'', JBool True)]\<rparr>"

definition change_record :: "baseline \<Rightarrow> string \<Rightarrow> string \<Rightarrow> file_state \<Rightarrow> journal_record" where
  "change_record committed path previous st = \<lparr>jr_cursor = serialize_baseline committed,
     jr_fields = [(''FILE_INTEGRITY_PATH'', JStr path), (''FILE_INTEGRITY_CHANGE'', JStr (classify_change previous st)),
       (''FILE_INTEGRITY_MONITORING'', JStr (if fs_readable st then ''content'' else ''metadata''))]\<rparr>"

text \<open>The loop over \<open>current\<close>; a stop between two paths leaves a prefix of its records.\<close>

fun scan_loop :: "baseline \<Rightarrow> baseline \<Rightarrow> (string \<times> string \<times> file_state) list \<Rightarrow> baseline \<times> journal_record list" where
  "scan_loop b committed [] = (committed, [])"
| "scan_loop b committed ((name, path, st) # rest) =
     (let committed' = AList.update name (observable st) committed; (final, rs) = scan_loop b committed' rest in
      (case map_of b name of
         None \<Rightarrow> (final, rs)
       | Some previous \<Rightarrow>
           if previous = observable st then (final, rs)
           else (final, change_record committed' path previous st # rs)))"

definition current_states :: "(string \<Rightarrow> string) \<Rightarrow> (string \<Rightarrow> probe) \<Rightarrow> string list \<Rightarrow> (string \<times> string \<times> file_state) list" where
  "current_states sha os paths = foldl (\<lambda>d path. AList.update (path_key sha path) (path, read_state sha (os path)) d) [] paths"

definition scan_files :: "(string \<Rightarrow> string) \<Rightarrow> (string \<Rightarrow> probe) \<Rightarrow> string list \<Rightarrow> string option \<Rightarrow> journal_record list" where
  "scan_files sha os paths after_cursor =
     (let b = parse_baseline after_cursor; current = current_states sha os paths;
          committed = filter (\<lambda>(name, v). name \<in> fst ` set current) b in
      if b = [] then [baseline_record (map (\<lambda>(name, path, st). (name, observable st)) current)]
      else let (final, rs) = scan_loop b committed current in
        rs @ (if fst ` set final \<noteq> fst ` set b then [baseline_record final] else []))"

text \<open>\<open>follow\<close> scans again and again, what the system answers in each round being \<open>rounds\<close>.\<close>

fun follow_scans :: "(string \<Rightarrow> string) \<Rightarrow> (string \<Rightarrow> probe) list \<Rightarrow> string list \<Rightarrow> string option \<Rightarrow> journal_record list" where
  "follow_scans sha [] paths cursor = []"
| "follow_scans sha (os # rounds) paths cursor =
     (let rs = scan_files sha os paths cursor in
      rs @ follow_scans sha rounds paths (if rs = [] then cursor else Some (jr_cursor (last rs))))"

definition make_file_integrity_source ::
  "(string \<Rightarrow> string) \<Rightarrow> (string \<Rightarrow> probe) \<Rightarrow> (string \<Rightarrow> probe) list \<Rightarrow> string list \<Rightarrow> journal_source result" where
  "make_file_integrity_source sha os rounds paths =
     bind_r (guard_r (paths \<noteq> []) (ValueError ''file integrity source requires at least one path'')) (\<lambda>_.
     bind_r (guard_r (length paths \<le> max_watched_paths) (ValueError ''too many watched paths'')) (\<lambda>_.
     Inr \<lparr>so_name = ''file_integrity'', so_event_source = File_Integrity,
       so_backlog = (\<lambda>cursor _. (scan_files sha os paths cursor, Source_Drained)),
       so_follow = (\<lambda>cursor. (follow_scans sha rounds paths cursor, Source_Drained))\<rparr>))"

section \<open>From records to events\<close>

text \<open>\<open>_parse_file_integrity\<close>, and \<open>normalize_record\<close> on the records of this source, whose fields carry no timestamp,
  so the event occurred when it was collected.\<close>

definition json_text :: "json option \<Rightarrow> string option" where
  "json_text v = (case v of Some (JStr s) \<Rightarrow> Some s | _ \<Rightarrow> None)"

definition file_changes :: "string list" where
  "file_changes = [''content'', ''permissions'', ''metadata'', ''appeared'', ''disappeared'']"

definition parse_file_integrity :: "(string \<Rightarrow> bool) \<Rightarrow> (string \<times> json) list \<Rightarrow> (string \<times> json) list option" where
  "parse_file_integrity printable flds =
     (case (json_text (map_of flds ''FILE_INTEGRITY_PATH''), json_text (map_of flds ''FILE_INTEGRITY_CHANGE''),
            json_text (map_of flds ''FILE_INTEGRITY_MONITORING'')) of
        (Some path, Some change, Some monitoring) \<Rightarrow>
          if CHR 0x00 \<in> set path \<or> \<not> printable path then None
          else if change \<notin> set file_changes \<or> monitoring \<notin> {''content'', ''metadata''} then None
          else Some [(''path'', JStr path), (''change'', JStr change), (''monitoring'', JStr monitoring)]
      | _ \<Rightarrow> None)"

definition normalize_file_record ::
  "(string \<Rightarrow> bool) \<Rightarrow> (string \<Rightarrow> uuid) \<Rightarrow> time \<Rightarrow> journal_record \<Rightarrow> normalized_event option" where
  "normalize_file_record printable event_uuid now r =
     (if map_of (jr_fields r) ''FILE_INTEGRITY_PATH'' = None then None
      else map_option (\<lambda>attributes. \<lparr>ne_event_id = event_uuid (jr_cursor r), ne_occurred_at = now, ne_collected_at = now,
         ne_source = File_Integrity, ne_event_type = ''linux.file.changed'', ne_actor = None, ne_source_ip = None,
         ne_summary = Some (ascii ''Watched system file changed''), ne_attributes = attributes\<rparr>)
       (parse_file_integrity printable (jr_fields r)))"

section \<open>The cursor holds the baseline\<close>

definition entry_ok :: "string \<times> string \<Rightarrow> bool" where
  "entry_ok = (\<lambda>(name, v). name \<noteq> [] \<and> list_all is_alnum name \<and> list_all is_alnum v \<and> length v = 24)"

definition baseline_ok :: "baseline \<Rightarrow> bool" where
  "baseline_ok b \<longleftrightarrow> distinct (map fst b) \<and> list_all entry_ok b"

lemma alnum_plain: "list_all is_alnum s \<Longrightarrow> CHR '','' \<notin> set s \<and> CHR '':'' \<notin> set s"
  by (auto simp: list_all_iff is_alnum_def is_digit_def is_lower_def is_upper_def)

lemma update_fresh: "k \<notin> fst ` set al \<Longrightarrow> AList.update k v al = al @ [(k, v)]"
  by (induction al) auto

lemma serialize_no_nul:
  assumes "baseline_ok b"
  shows "CHR 0x00 \<notin> set (serialize_baseline b)"
proof -
  have join: "CHR 0x00 \<notin> set (join_with '','' xs)" if "\<forall>x \<in> set xs. CHR 0x00 \<notin> set x" for xs
    using that by (induction "'',''" xs rule: join_with.induct) auto
  have "CHR 0x00 \<notin> set (name @ '':'' @ v)" if "(name, v) \<in> set b" for name v
  proof -
    have "\<not> is_alnum (CHR 0x00)" by (simp add: is_alnum_def is_digit_def is_lower_def is_upper_def)
    moreover have "entry_ok (name, v)" using assms that by (simp add: baseline_ok_def list_all_iff)
    ultimately show ?thesis by (auto simp: entry_ok_def list_all_iff)
  qed
  then show ?thesis unfolding serialize_baseline_def by (intro join) auto
qed

lemma parse_entries_items:
  assumes "list_all entry_ok es" "distinct (map fst (acc @ es))"
  shows "parse_entries (map (\<lambda>(name, v). name @ '':'' @ v) es) acc = Some (acc @ es)"
  using assms
proof (induction es arbitrary: acc)
  case (Cons e es)
  obtain name v where e: "e = (name, v)" by fastforce
  then have ok: "name \<noteq> []" "list_all is_alnum name" "list_all is_alnum v" "length v = 24"
    using Cons.prems(1) by (auto simp: entry_ok_def)
  then have "\<forall>c \<in> set name. c \<noteq> CHR '':''" using alnum_plain by auto
  then have "takeWhile (\<lambda>c. c \<noteq> CHR '':'') (name @ '':'' @ v) = name" by (simp add: takeWhile_append2)
  moreover have "name \<notin> fst ` set acc" using Cons.prems(2) by (auto simp: e)
  ultimately show ?case using Cons.IH [of "acc @ [(name, v)]"] Cons.prems ok by (auto simp: e Let_def update_fresh)
qed simp

lemma parse_serialize:
  assumes "baseline_ok b"
  shows "parse_baseline (Some (serialize_baseline b)) = sort_key fst b"
proof (cases "b = []")
  case False
  let ?es = "sort_key fst b"
  let ?items = "map (\<lambda>(name, v). name @ '':'' @ v) ?es"
  have es: "list_all entry_ok ?es" "distinct (map fst ([] @ ?es))" "?es \<noteq> []"
    using assms False by (auto simp: baseline_ok_def list_all_iff distinct_map) (metis length_sort list.size(3) length_0_conv)
  have "CHR '','' \<notin> set x" if "x \<in> set ?items" for x
    using that es(1) alnum_plain by (fastforce simp: list_all_iff entry_ok_def)
  then have "split_on (CHR '','') (join_with '','' ?items) = ?items" using es(3) by (intro split_on_join) auto
  moreover have "join_with '','' ?items \<noteq> []"
  proof -
    obtain e rest where "?items = e # rest" "e \<noteq> []" using es(3) by (cases ?es) auto
    then show ?thesis by (cases rest) auto
  qed
  ultimately show ?thesis using parse_entries_items [OF es(1,2)] by (simp add: parse_baseline_def serialize_baseline_def)
qed (simp add: parse_baseline_def serialize_baseline_def)

lemma map_of_sort_key: "distinct (map fst b) \<Longrightarrow> map_of (sort_key fst b) = map_of b"
  by (rule map_of_inject_set [THEN iffD2]) (auto simp: distinct_map)

lemma set_update_subset: "set (AList.update k v al) \<subseteq> insert (k, v) (set al)"
  by (induction al) auto

lemma baseline_ok_update: "baseline_ok b \<Longrightarrow> entry_ok (k, v) \<Longrightarrow> baseline_ok (AList.update k v b)"
  using set_update_subset [of k v b] by (auto simp: baseline_ok_def list_all_iff intro: distinct_update)

lemma parse_entries_ok:
  "parse_entries items acc = Some b \<Longrightarrow> baseline_ok acc \<Longrightarrow> baseline_ok b"
proof (induction items arbitrary: acc)
  case (Cons item items)
  let ?name = "takeWhile (\<lambda>c. c \<noteq> CHR '':'') item"
  let ?v = "drop (length ?name + 1) item"
  from Cons.prems(1) have "entry_ok (?name, ?v)" "parse_entries items (AList.update ?name ?v acc) = Some b"
    by (auto simp: Let_def entry_ok_def split: if_split_asm)
  then show ?case using Cons.IH baseline_ok_update [OF Cons.prems(2)] by blast
qed simp

lemma parse_baseline_ok: "baseline_ok (parse_baseline c)"
  using parse_entries_ok [of "split_on (CHR '','') (the c)" "[]"]
  by (auto simp: parse_baseline_def baseline_ok_def split: option.split)

text \<open>Equal dictionaries have equal texts.\<close>

lemma serialize_cong:
  assumes "distinct (map fst b)" "distinct (map fst b')" "map_of b = map_of b'"
  shows "serialize_baseline b = serialize_baseline b'"
proof -
  have "set b = set b'" using assms map_of_inject_set by blast
  then have "sort_key fst b = sort_key fst b'"
    using assms(1,2) by (intro map_sorted_distinct_set_unique [of fst]) (auto simp: distinct_map)
  then show ?thesis by (simp add: serialize_baseline_def)
qed

section \<open>What a scan emits\<close>

type_synonym observations = "(string \<times> string \<times> file_state) list"

definition committed_after :: "baseline \<Rightarrow> observations \<Rightarrow> baseline" where
  "committed_after com cs = foldl (\<lambda>d (name, path, st). AList.update name (observable st) d) com cs"

definition changed :: "baseline \<Rightarrow> observations \<Rightarrow> observations" where
  "changed b cs = filter (\<lambda>(name, path, st). map_of b name \<noteq> None \<and> map_of b name \<noteq> Some (observable st)) cs"

lemma committed_after_simps [simp]:
  "committed_after com [] = com"
  "committed_after com ((name, path, st) # cs) = committed_after (AList.update name (observable st) com) cs"
  "committed_after com (cs @ cs') = committed_after (committed_after com cs) cs'"
  by (simp_all add: committed_after_def)

lemma scan_loop_final: "fst (scan_loop b com cs) = committed_after com cs"
  by (induction b com cs rule: scan_loop.induct) (auto simp: Let_def split: prod.split option.split)

lemma committed_after_map:
  "distinct (map fst cs) \<Longrightarrow> map_of (committed_after com cs) name
    = (case map_of cs name of None \<Rightarrow> map_of com name | Some (path, st) \<Rightarrow> Some (observable st))"
proof (induction cs arbitrary: com)
  case (Cons c cs)
  obtain n path st where "c = (n, path, st)" by (cases c) auto
  with Cons show ?case by (auto simp: update_conv' map_of_eq_None_iff [THEN iffD2] split: option.split)
qed simp

lemma committed_after_distinct: "distinct (map fst com) \<Longrightarrow> distinct (map fst (committed_after com cs))"
proof (induction cs arbitrary: com)
  case (Cons c cs)
  then show ?case by (cases c) (simp add: distinct_update)
qed simp

lemma committed_after_keys: "fst ` set (committed_after com cs) = fst ` set cs \<union> fst ` set com"
proof (induction cs arbitrary: com)
  case (Cons c cs)
  have "fst ` set (AList.update k v al) = insert k (fst ` set al)" for k :: string and v :: string and al by (induction al) auto
  with Cons show ?case by (cases c) auto
qed simp

lemma scan_loop_step:
  "snd (scan_loop b com ((name, path, st) # cs)) =
    (let com' = AList.update name (observable st) com in
     (if changed b [(name, path, st)] = [] then [] else [change_record com' path (the (map_of b name)) st]) @ snd (scan_loop b com' cs))"
  by (auto simp: changed_def Let_def split: prod.split option.split)

text \<open>Each record carries everything committed up to its path.\<close>

lemma scan_loop_record:
  assumes "k < length (snd (scan_loop b com cs))"
  shows "\<exists>pre name path st suf. cs = pre @ (name, path, st) # suf
    \<and> snd (scan_loop b com cs) ! k = change_record (committed_after com (pre @ [(name, path, st)])) path (the (map_of b name)) st
    \<and> drop (Suc k) (snd (scan_loop b com cs)) = snd (scan_loop b (committed_after com (pre @ [(name, path, st)])) suf)"
  using assms
proof (induction cs arbitrary: com k)
  case (Cons c cs)
  obtain n p t where c: "c = (n, p, t)" by (cases c) auto
  let ?com = "AList.update n (observable t) com"
  let ?here = "if changed b [c] = [] then [] else [change_record ?com p (the (map_of b n)) t]"
  have step: "snd (scan_loop b com (c # cs)) = ?here @ snd (scan_loop b ?com cs)" unfolding c scan_loop_step by (simp add: Let_def)
  show ?case
  proof (cases "k < length ?here")
    case True
    then have "k = 0" "?here = [change_record ?com p (the (map_of b n)) t]" by (auto split: if_splits)
    then show ?thesis unfolding step by (intro exI [of _ "[]"] exI [of _ n] exI [of _ p] exI [of _ t] exI [of _ cs]) (simp add: c)
  next
    case False
    then obtain m where k: "k = length ?here + m" by (metis le_iff_add not_less)
    then have "m < length (snd (scan_loop b ?com cs))" using Cons.prems unfolding step by simp
    from Cons.IH [OF this] obtain pre name path st suf where ih: "cs = pre @ (name, path, st) # suf"
      "snd (scan_loop b ?com cs) ! m = change_record (committed_after ?com (pre @ [(name, path, st)])) path (the (map_of b name)) st"
      "drop (Suc m) (snd (scan_loop b ?com cs)) = snd (scan_loop b (committed_after ?com (pre @ [(name, path, st)])) suf)" by blast
    have "committed_after com ((c # pre) @ [(name, path, st)]) = committed_after ?com (pre @ [(name, path, st)])" by (simp add: c)
    moreover have "snd (scan_loop b com (c # cs)) ! k = snd (scan_loop b ?com cs) ! m"
      "drop (Suc k) (snd (scan_loop b com (c # cs))) = drop (Suc m) (snd (scan_loop b ?com cs))"
      unfolding step k by (simp_all only: nth_append_length_plus drop_append) simp
    moreover have "c # cs = (c # pre) @ (name, path, st) # suf" by (simp add: ih(1))
    ultimately show ?thesis using ih(2,3) by metis
  qed
qed simp

lemma scan_loop_silent:
  "changed b pre = [] \<Longrightarrow> snd (scan_loop b com (pre @ suf)) = snd (scan_loop b (committed_after com pre) suf)"
proof (induction pre arbitrary: com)
  case (Cons c pre)
  obtain n p t where c: "c = (n, p, t)" by (cases c) auto
  have "changed b [(n, p, t)] = []" "changed b pre = []" using Cons.prems by (auto simp: changed_def c split: if_splits)
  with Cons.IH show ?case unfolding c append_Cons scan_loop_step by (simp add: Let_def)
qed simp

lemma scan_loop_same:
  assumes "distinct (map fst com)" "distinct (map fst com')" "map_of com = map_of com'"
    "\<forall>name \<in> fst ` set cs. map_of b name = map_of b' name"
  shows "snd (scan_loop b com cs) = snd (scan_loop b' com' cs)"
  using assms
proof (induction cs arbitrary: com com')
  case (Cons c cs)
  obtain n p t where c: "c = (n, p, t)" by (cases c) auto
  let ?com = "AList.update n (observable t) com" and ?com' = "AList.update n (observable t) com'"
  have d: "distinct (map fst ?com)" "distinct (map fst ?com')" "map_of ?com = map_of ?com'"
    using Cons.prems(1-3) by (auto simp: update_conv' intro: distinct_update)
  have b: "map_of b n = map_of b' n" using Cons.prems(4) by (simp add: c)
  have "change_record ?com p v t = change_record ?com' p v t" for v by (simp add: change_record_def serialize_cong [OF d])
  moreover have "snd (scan_loop b ?com cs) = snd (scan_loop b' ?com' cs)" using Cons.prems(4) by (intro Cons.IH d) simp
  ultimately show ?case unfolding c scan_loop_step by (simp add: Let_def changed_def b)
qed simp

lemma scan_loop_paths:
  "map (\<lambda>r. map_of (jr_fields r) ''FILE_INTEGRITY_PATH'') (snd (scan_loop b com cs)) = map (\<lambda>(name, path, st). Some (JStr path)) (changed b cs)"
proof (induction cs arbitrary: com)
  case (Cons c cs)
  obtain n p t where c: "c = (n, p, t)" by (cases c) auto
  show ?case unfolding c scan_loop_step using Cons by (simp add: Let_def changed_def change_record_def)
qed (simp add: changed_def)

section \<open>Scanning again from any record\<close>

definition change_records :: "journal_record list \<Rightarrow> journal_record list" where
  "change_records rs = filter (\<lambda>r. map_of (jr_fields r) ''FILE_INTEGRITY_PATH'' \<noteq> None) rs"

lemma change_records_simps [simp]:
  "change_records (rs @ rs') = change_records rs @ change_records rs'"
  "change_records [baseline_record b] = []" "change_records [] = []"
  by (simp_all add: change_records_def baseline_record_def)

lemma change_records_loop [simp]: "change_records (snd (scan_loop b com cs)) = snd (scan_loop b com cs)"
proof -
  have "map_of (jr_fields r) ''FILE_INTEGRITY_PATH'' \<noteq> None" if "r \<in> set (snd (scan_loop b com cs))" for r
    using arg_cong [OF scan_loop_paths [of b com cs], of set] that by (auto simp: image_iff set_eq_iff)
  then show ?thesis by (auto simp: change_records_def filter_id_conv)
qed

lemma current_states_map:
  "distinct (map (path_key sha) paths) \<Longrightarrow> current_states sha os paths = map (\<lambda>p. (path_key sha p, p, read_state sha (os p))) paths"
proof (induction paths rule: rev_induct)
  case (snoc p ps)
  then show ?case by (auto simp: current_states_def update_fresh image_iff)
qed (simp add: current_states_def)

lemma hex_alnum: "list_all is_lower_hex s \<Longrightarrow> list_all is_alnum s"
  by (auto simp: list_all_iff is_lower_hex_def is_alnum_def is_digit_def is_lower_def)

lemma hex_take:
  assumes "is_sha256_hex h" "n \<le> 64"
  shows "list_all is_alnum (take n h)" "length (take n h) = n"
  using assms hex_alnum [of h] by (auto simp: is_sha256_hex_def list_all_iff dest: in_set_takeD)

lemma state_from_stat_ok:
  assumes "\<And>m. is_sha256_hex (sha m)"
  shows "list_all is_alnum (observable (state_from_stat sha info content)) \<and> length (observable (state_from_stat sha info content)) = 24"
  using hex_take [OF assms, of 16] hex_take [OF assms, of 8] by (simp add: state_from_stat_def observable_def Let_def)

lemma observable_ok:
  assumes "\<And>m. is_sha256_hex (sha m)"
  shows "list_all is_alnum (observable (read_state sha p)) \<and> length (observable (read_state sha p)) = 24"
proof -
  have "list_all is_alnum (replicate n (CHR ''0''))" for n by (simp add: list_all_iff is_alnum_def is_digit_def)
  then show ?thesis using state_from_stat_ok [OF assms]
    by (auto simp: read_state_def state_without_reading_def observable_def missing_state_def missing_permissions_def split: option.split)
qed

lemma current_entries_ok:
  assumes "\<And>m. is_sha256_hex (sha m)" "c \<in> set (map (\<lambda>p. (path_key sha p, p, read_state sha (os p))) paths)"
  shows "case c of (name, path, st) \<Rightarrow> entry_ok (name, observable st)"
proof -
  from assms(2) obtain p where c: "c = (path_key sha p, p, read_state sha (os p))" by auto
  have "length (path_key sha p) = 8" "list_all is_alnum (path_key sha p)"
    using hex_take [OF assms(1) [of p], of 8] by (simp_all add: path_key_def)
  then show ?thesis using observable_ok [OF assms(1), where p = "os p"] by (auto simp: c entry_ok_def)
qed

lemma committed_after_ok:
  "baseline_ok com \<Longrightarrow> \<forall>c \<in> set cs. case c of (name, path, st) \<Rightarrow> entry_ok (name, observable st) \<Longrightarrow> baseline_ok (committed_after com cs)"
proof (induction cs arbitrary: com)
  case (Cons c cs)
  then show ?case by (cases c) (simp add: baseline_ok_update)
qed simp

lemma map_of_keep: "map_of (filter (\<lambda>(name, v). name \<in> N) b) n = (if n \<in> N then map_of b n else None)"
  by (induction b) auto

lemma baseline_ok_filter: "baseline_ok b \<Longrightarrow> baseline_ok (filter P b)"
  by (auto simp: baseline_ok_def list_all_iff distinct_map_filter)

lemma parse_serialize_map:
  assumes "baseline_ok b"
  shows "map_of (parse_baseline (Some (serialize_baseline b))) = map_of b"
    "parse_baseline (Some (serialize_baseline b)) = [] \<longleftrightarrow> b = []"
proof -
  show "map_of (parse_baseline (Some (serialize_baseline b))) = map_of b"
    using assms map_of_sort_key [of b] by (simp add: parse_serialize baseline_ok_def)
  show "parse_baseline (Some (serialize_baseline b)) = [] \<longleftrightarrow> b = []"
    using parse_serialize [OF assms] by (metis length_0_conv length_sort)
qed

lemma rescan:
  assumes cs: "cs = pre @ e # suf" "distinct (map fst cs)" "\<forall>c \<in> set cs. case c of (name, path, st) \<Rightarrow> entry_ok (name, observable st)"
    and com: "baseline_ok com" "fst ` set com \<subseteq> fst ` set cs" "\<forall>name \<in> fst ` set cs. map_of com name = map_of b name"
    and k: "comk = committed_after com (pre @ [e])" "b2 = parse_baseline (Some (serialize_baseline comk))"
  shows "b2 \<noteq> []" "snd (scan_loop b2 (filter (\<lambda>(name, v). name \<in> fst ` set cs) b2) cs) = snd (scan_loop b comk suf)"
proof -
  let ?com2 = "filter (\<lambda>(name, v). name \<in> fst ` set cs) b2"
  have ok: "baseline_ok comk" unfolding k(1) by (rule committed_after_ok [OF com(1)]) (use cs in auto)
  have b2: "map_of b2 = map_of comk" unfolding k(2) by (rule parse_serialize_map [OF ok])
  have dpre: "distinct (map fst (pre @ [e]))" using cs(1,2) by simp
  note at = committed_after_map [OF dpre]
  have keys: "map_of comk name = None" if "name \<notin> fst ` set cs" for name
  proof -
    have "map_of (pre @ [e]) name = None" "map_of com name = None" using that cs(1) com(2) by (auto simp: map_of_eq_None_iff simp del: map_of_append)
    then show ?thesis unfolding k(1) at by (simp del: map_of_append)
  qed
  then have com2: "map_of ?com2 = map_of comk" by (auto simp: map_of_keep b2)
  have "map_of comk (fst e) \<noteq> None" unfolding k(1) at using dpre
    by (cases e) (auto simp: map_of_eq_None_iff map_add_def split: option.split)
  then show "b2 \<noteq> []" using b2 by (metis map_of.simps(1))
  have seen: "map_of comk name = Some (observable st)" if "(name, path, st) \<in> set (pre @ [e])" for name path st
    unfolding k(1) at using map_of_is_SomeI [OF dpre that] by simp
  then have "changed b2 (pre @ [e]) = []" by (auto simp: changed_def b2 filter_empty_conv)
  from scan_loop_silent [OF this, of ?com2 suf]
  have "snd (scan_loop b2 ?com2 cs) = snd (scan_loop b2 (committed_after ?com2 (pre @ [e])) suf)" by (simp add: cs(1))
  also have "\<dots> = snd (scan_loop b comk suf)"
  proof (rule scan_loop_same)
    have "map_of (committed_after ?com2 (pre @ [e])) name = map_of comk name" for name
      unfolding at [of ?com2] com2 using at [of com, folded k(1)] by (simp del: map_of_append split: option.split)
    then show "map_of (committed_after ?com2 (pre @ [e])) = map_of comk" by (rule ext)
    have "distinct (map fst b2)" using parse_baseline_ok [of "Some (serialize_baseline comk)"] by (simp add: k(2) baseline_ok_def)
    then show "distinct (map fst (committed_after ?com2 (pre @ [e])))" by (intro committed_after_distinct distinct_map_filter)
    show "distinct (map fst comk)" using ok by (simp add: baseline_ok_def)
    show "\<forall>name \<in> fst ` set suf. map_of b2 name = map_of b name"
    proof
      fix name assume n: "name \<in> fst ` set suf"
      then have "name \<notin> fst ` set (pre @ [e])" using cs(1,2) by force
      then have "map_of (pre @ [e]) name = None" by (simp only: map_of_eq_None_iff not_False_eq_True)
      then have "map_of comk name = map_of com name" unfolding k(1) at by (simp del: map_of_append)
      then show "map_of b2 name = map_of b name" using com(3) n cs(1) b2 by auto
    qed
  qed
  finally show "snd (scan_loop b2 ?com2 cs) = snd (scan_loop b comk suf)" .
qed

text \<open>What holds when the loop of a scan starts: \<open>cs\<close> is what is there now, \<open>com\<close> what the baseline \<open>b\<close> says of it.\<close>

definition scan_starts :: "baseline \<Rightarrow> baseline \<Rightarrow> observations \<Rightarrow> bool" where
  "scan_starts b com cs \<longleftrightarrow> distinct (map fst cs) \<and> (\<forall>c \<in> set cs. case c of (name, path, st) \<Rightarrow> entry_ok (name, observable st))
     \<and> baseline_ok com \<and> fst ` set com \<subseteq> fst ` set cs \<and> (\<forall>name \<in> fst ` set cs. map_of com name = map_of b name)"

lemma scan_startsD:
  assumes "scan_starts b com cs"
  shows "baseline_ok com" "\<forall>c \<in> set cs. case c of (name, path, st) \<Rightarrow> entry_ok (name, observable st)"
    "fst ` set com \<subseteq> fst ` set cs" "\<forall>name \<in> fst ` set cs. map_of com name = map_of b name" "distinct (map fst cs)"
  using assms unfolding scan_starts_def by - (elim conjE, assumption)+

definition kept_entries :: "observations \<Rightarrow> baseline \<Rightarrow> baseline" where
  "kept_entries cs b = filter (\<lambda>(name, v). name \<in> fst ` set cs) b"

lemma rescan_starts:
  assumes "cs = pre @ e # suf" "scan_starts b com cs" "comk = committed_after com (pre @ [e])"
    "b2 = parse_baseline (Some (serialize_baseline comk))"
  shows "b2 \<noteq> [] \<and> snd (scan_loop b2 (kept_entries cs b2) cs) = snd (scan_loop b comk suf)"
  using assms(2) unfolding scan_starts_def kept_entries_def
  by (elim conjE) (rule conjI; rule rescan [OF assms(1) _ _ _ _ _ assms(3,4)]; assumption)

lemma scan_starts_here:
  assumes "\<And>m. is_sha256_hex (sha m)" "distinct (map (path_key sha) paths)" "baseline_ok b"
  shows "scan_starts b (kept_entries (current_states sha os paths) b) (current_states sha os paths)"
proof -
  let ?cs = "current_states sha os paths"
  have cs: "?cs = map (\<lambda>p. (path_key sha p, p, read_state sha (os p))) paths" by (rule current_states_map [OF assms(2)])
  have "\<forall>c \<in> set ?cs. case c of (name, path, st) \<Rightarrow> entry_ok (name, observable st)"
    using current_entries_ok [of sha, OF assms(1)] unfolding cs by blast
  moreover have "distinct (map fst ?cs)" using assms(2) unfolding cs by (simp add: comp_def)
  moreover have "fst ` set (kept_entries ?cs b) \<subseteq> fst ` set ?cs" by (force simp: kept_entries_def)
  moreover have "\<forall>name \<in> fst ` set ?cs. map_of (kept_entries ?cs b) name = map_of b name" by (simp add: kept_entries_def map_of_keep)
  ultimately show ?thesis using baseline_ok_filter [OF assms(3)] by (simp add: scan_starts_def kept_entries_def)
qed

lemma scan_files_eq:
  assumes "parse_baseline cursor = b" "b \<noteq> []" "cs = current_states sha os paths" "com = kept_entries cs b"
  shows "scan_files sha os paths cursor = snd (scan_loop b com cs)
    @ (if fst ` set (committed_after com cs) \<noteq> fst ` set b then [baseline_record (committed_after com cs)] else [])"
proof -
  obtain final rs where loop: "scan_loop b com cs = (final, rs)" by fastforce
  then have "final = committed_after com cs" using scan_loop_final [of b com cs] by simp
  with loop show ?thesis unfolding scan_files_def assms(1) Let_def assms(3) [symmetric] kept_entries_def [symmetric] assms(4) [symmetric]
    using assms(2) by simp
qed

lemma final_map:
  assumes "scan_starts b com cs"
  shows "map_of (committed_after com cs) = map_of (map (\<lambda>(name, path, st). (name, observable st)) cs)"
proof
  fix name
  have d: "distinct (map fst cs)" "fst ` set com \<subseteq> fst ` set cs" using assms by (simp_all add: scan_starts_def)
  have "map_of com name = None" if "map_of cs name = None"
    using that d(2) by (auto simp: map_of_eq_None_iff)
  moreover have "map_of (map (\<lambda>(name, path, st). (name, observable st)) cs) name = map_option (observable \<circ> snd) (map_of cs name)"
    by (induction cs) auto
  ultimately show "map_of (committed_after com cs) name = map_of (map (\<lambda>(name, path, st). (name, observable st)) cs) name"
    by (auto simp: committed_after_map [OF d(1)] split: option.split)
qed

text \<open>When no path is new or gone, the last change leaves nothing to commit after it.\<close>

lemma quiet_suffix:
  assumes "scan_starts b com (pre @ suf)" "changed b suf = []" "fst ` set (committed_after com (pre @ suf)) = fst ` set b"
  shows "map_of (committed_after com pre) = map_of (committed_after com (pre @ suf))"
proof
  fix name
  have d: "distinct (map fst pre)" "distinct (map fst suf)" "fst ` set pre \<inter> fst ` set suf = {}"
    using assms(1) by (simp_all add: scan_starts_def)
  show "map_of (committed_after com pre) name = map_of (committed_after com (pre @ suf)) name"
  proof (cases "map_of suf name")
    case None
    then show ?thesis by (simp add: committed_after_map [OF d(2)])
  next
    case (Some v)
    obtain path st where v: "v = (path, st)" by fastforce
    have mem: "(name, path, st) \<in> set suf" using map_of_SomeD [OF Some] by (simp add: v)
    then have "map_of pre name = None" using d(3) by (force simp: map_of_eq_None_iff)
    then have p: "map_of (committed_after com pre) name = map_of com name" by (simp add: committed_after_map [OF d(1)])
    have "name \<in> fst ` set (pre @ suf)" using mem by force
    then have com: "map_of com name = map_of b name" using assms(1) unfolding scan_starts_def by blast
    have final: "map_of (committed_after com (pre @ suf)) name = Some (observable st)" by (simp add: committed_after_map [OF d(2)] Some v)
    then have "name \<in> fst ` set b" using assms(3) by (metis domI dom_map_of_conv_image_fst)
    then have "map_of b name \<noteq> None" by (simp add: map_of_eq_None_iff)
    then have "map_of b name = Some (observable st)" using assms(2) mem by (auto simp: changed_def filter_empty_conv)
    then show ?thesis unfolding p com final .
  qed
qed

lemma last_cursor:
  assumes "scan_starts b com cs" "b \<noteq> []" "parse_baseline cursor = b" "cs = current_states sha os paths" "com = kept_entries cs b"
  shows "map_of (case scan_files sha os paths cursor of [] \<Rightarrow> b | _ \<Rightarrow> parse_baseline (Some (jr_cursor (last (scan_files sha os paths cursor)))))
    = map_of (map (\<lambda>(name, path, st). (name, observable st)) cs)"
proof -
  let ?final = "committed_after com cs" and ?loop = "snd (scan_loop b com cs)"
  note scan = scan_files_eq [OF assms(3,2,4,5)]
  have entries: "\<forall>c \<in> set cs. case c of (name, path, st) \<Rightarrow> entry_ok (name, observable st)" "baseline_ok com"
    using assms(1) by (simp_all add: scan_starts_def)
  have read_back: "map_of (parse_baseline (Some (serialize_baseline (committed_after com pre)))) = map_of (committed_after com pre)"
    if "cs = pre @ suf" for pre suf
    by (rule parse_serialize_map(1) [OF committed_after_ok [OF entries(2)]]) (use entries(1) that in auto)
  show ?thesis unfolding final_map [OF assms(1), symmetric]
  proof (cases "fst ` set ?final = fst ` set b")
    case False
    then have "scan_files sha os paths cursor = ?loop @ [baseline_record ?final]" using scan by simp
    then show "map_of (case scan_files sha os paths cursor of [] \<Rightarrow> b | _ \<Rightarrow>
        parse_baseline (Some (jr_cursor (last (scan_files sha os paths cursor))))) = map_of ?final"
      using read_back [of cs "[]"] by (cases ?loop) (simp_all add: baseline_record_def)
  next
    case True
    then have rs: "scan_files sha os paths cursor = ?loop" using scan by simp
    show "map_of (case scan_files sha os paths cursor of [] \<Rightarrow> b | _ \<Rightarrow>
        parse_baseline (Some (jr_cursor (last (scan_files sha os paths cursor))))) = map_of ?final"
    proof (cases "?loop = []")
      case None: True
      then have "changed b cs = []" using scan_loop_paths [of b com cs] by simp
      from quiet_suffix [of b com "[]" cs, OF _ this] assms(1) True have final: "map_of com = map_of ?final" by simp
      have "map_of com name = map_of b name" for name
      proof (cases "name \<in> fst ` set cs")
        case True
        then show ?thesis using assms(1) unfolding scan_starts_def by blast
      next
        case name: False
        have "map_of ?final name = None" unfolding final_map [OF assms(1)] using name by (force simp: map_of_eq_None_iff)
        moreover from this have "map_of b name = None" using True by (simp add: map_of_eq_None_iff)
        ultimately show ?thesis by (simp add: final)
      qed
      then have "map_of b = map_of ?final" using final by (simp add: fun_eq_iff)
      then show ?thesis using rs None by simp
    next
      case some: False
      let ?k = "length ?loop - 1"
      obtain pre name path st suf where e: "cs = pre @ (name, path, st) # suf"
        "?loop ! ?k = change_record (committed_after com (pre @ [(name, path, st)])) path (the (map_of b name)) st"
        "drop (Suc ?k) ?loop = snd (scan_loop b (committed_after com (pre @ [(name, path, st)])) suf)"
        using scan_loop_record [of ?k b com cs] some by auto
      let ?pre = "pre @ [(name, path, st)]"
      have "changed b suf = []" using e(3) scan_loop_paths [of b "committed_after com ?pre" suf] some by simp
      then have "map_of (committed_after com ?pre) = map_of ?final"
        using quiet_suffix [of b com ?pre suf] assms(1) True by (simp add: e(1))
      moreover have "jr_cursor (last ?loop) = serialize_baseline (committed_after com ?pre)"
        using e(2) some by (simp add: last_conv_nth change_record_def)
      ultimately show ?thesis using rs some read_back [of ?pre suf] e(1) by (cases ?loop) simp_all
    qed
  qed
qed

section \<open>The length of a cursor\<close>

lemma length_join_comma: "xs \<noteq> [] \<Longrightarrow> length (join_with [c] xs) + 1 = sum_list (map (\<lambda>x. length x + 1) xs)"
  by (induction "[c]" xs rule: join_with.induct) auto

lemma sum_list_const: "(\<And>x. x \<in> set xs \<Longrightarrow> f x = (n :: nat)) \<Longrightarrow> sum_list (map f xs) = n * length xs"
  by (induction xs) simp_all

text \<open>One entry costs 33 characters and a comma.\<close>

lemma serialize_length:
  assumes "baseline_ok b" "\<forall>e \<in> set b. length (fst e) = 8" "b \<noteq> []"
  shows "length (serialize_baseline b) + 1 = 34 * length b"
proof -
  let ?items = "map (\<lambda>(name, v). name @ '':'' @ v) (sort_key fst b)"
  have "length x + 1 = 34" if "x \<in> set ?items" for x
    using that assms(1,2) by (fastforce simp: baseline_ok_def list_all_iff entry_ok_def)
  then have "sum_list (map (\<lambda>x. length x + 1) ?items) = 34 * length ?items" by (rule sum_list_const)
  moreover have "?items \<noteq> []" using assms(3) by (metis length_0_conv length_map length_sort)
  ultimately show ?thesis using length_join_comma [of ?items "CHR '',''"] by (simp add: serialize_baseline_def)
qed

lemma scan_loop_cursors:
  "r \<in> set (snd (scan_loop b com cs)) \<Longrightarrow> \<exists>pre suf. cs = pre @ suf \<and> pre \<noteq> [] \<and> jr_cursor r = serialize_baseline (committed_after com pre)"
proof -
  assume "r \<in> set (snd (scan_loop b com cs))"
  then obtain k where k: "k < length (snd (scan_loop b com cs))" "r = snd (scan_loop b com cs) ! k" by (metis in_set_conv_nth)
  from scan_loop_record [OF k(1)] obtain pre name path st suf where "cs = pre @ (name, path, st) # suf"
    "r = change_record (committed_after com (pre @ [(name, path, st)])) path (the (map_of b name)) st" using k(2) by blast
  then show ?thesis by (intro exI [of _ "pre @ [(name, path, st)]"] exI [of _ suf]) (simp add: change_record_def)
qed

text \<open>Every cursor is the text of some of the current observations and older ones of other watched paths.\<close>

lemma scan_cursor:
  assumes "\<And>m. is_sha256_hex (sha m)" "distinct (map (path_key sha) paths)" "paths \<noteq> []" "r \<in> set (scan_files sha os paths cursor)"
  shows "\<exists>com. jr_cursor r = serialize_baseline com \<and> baseline_ok com \<and> com \<noteq> [] \<and> fst ` set com \<subseteq> path_key sha ` set paths"
proof -
  let ?b = "parse_baseline cursor" and ?cs = "current_states sha os paths"
  let ?com = "kept_entries ?cs ?b"
  have cs: "?cs = map (\<lambda>p. (path_key sha p, p, read_state sha (os p))) paths" by (rule current_states_map [OF assms(2)])
  have start: "scan_starts ?b ?com ?cs" by (rule scan_starts_here [OF assms(1,2) parse_baseline_ok])
  then have ok: "baseline_ok ?com" "\<forall>c \<in> set ?cs. case c of (name, path, st) \<Rightarrow> entry_ok (name, observable st)"
    "fst ` set ?com \<subseteq> fst ` set ?cs" by (rule scan_startsD)+
  have names: "fst ` set ?cs = path_key sha ` set paths" unfolding cs by force
  have com: "baseline_ok (committed_after com pre) \<and> committed_after com pre \<noteq> [] \<and> fst ` set (committed_after com pre) \<subseteq> path_key sha ` set paths"
    if "?cs = pre @ suf" "pre \<noteq> []" "baseline_ok com" "fst ` set com \<subseteq> fst ` set ?cs" for pre suf com
  proof -
    have keys: "fst ` set (committed_after com pre) = fst ` set pre \<union> fst ` set com" by (rule committed_after_keys)
    moreover have "committed_after com pre \<noteq> []" using keys that(2) by force
    moreover have "baseline_ok (committed_after com pre)"
    proof (rule committed_after_ok [OF that(3)])
      show "\<forall>c \<in> set pre. case c of (name, path, st) \<Rightarrow> entry_ok (name, observable st)" using ok(2) unfolding that(1) by simp
    qed
    moreover have "fst ` set pre \<subseteq> fst ` set ?cs" unfolding that(1) by auto
    ultimately show ?thesis using that(4) names by simp
  qed
  have nonempty: "?cs \<noteq> []" using assms(3) by (simp add: cs)
  show ?thesis
  proof (cases "?b = []")
    case True
    have "committed_after [] ?cs = map (\<lambda>(name, path, st). (name, observable st)) ?cs"
      unfolding cs using assms(2) by (induction paths rule: rev_induct) (auto simp: update_fresh image_iff)
    then have "scan_files sha os paths cursor = [baseline_record (committed_after [] ?cs)]" using True by (simp add: scan_files_def Let_def)
    with assms(4) com [of ?cs "[]" "[]"] nonempty show ?thesis by (auto simp: baseline_record_def baseline_ok_def)
  next
    case False
    from assms(4) have "r \<in> set (snd (scan_loop ?b ?com ?cs)) \<or> r = baseline_record (committed_after ?com ?cs)"
      unfolding scan_files_eq [OF refl False refl refl] by (auto split: if_splits)
    then obtain pre suf where "?cs = pre @ suf" "pre \<noteq> []" "jr_cursor r = serialize_baseline (committed_after ?com pre)"
      using scan_loop_cursors [of r ?b ?com ?cs] nonempty by (metis append_Nil2 baseline_record_def journal_record.select_convs(1))
    with com [OF _ _ ok(1,3)] show ?thesis by blast
  qed
qed

section \<open>Properties\<close>

text \<open>C13: A scan reports every change once, whatever the moment the agent stops at. Given a baseline, the change
  records are those of exactly the watched paths whose observation differs from it, in the order of the
  configuration. A scan that resumes from the cursor of any of these records, with the files as they are,
  reports exactly the changes after it. A completed scan leaves a cursor that holds the current observation
  of every watched path and nothing else, so the next scan reports nothing unless something changes.\<close>

theorem scan_reports_each_change_once:
  assumes "\<And>m. is_sha256_hex (sha m)" "distinct (map (path_key sha) paths)" "parse_baseline cursor \<noteq> []"
  shows "let seen = (\<lambda>p. observable (read_state sha (os p))); before = map_of (parse_baseline cursor); rs = scan_files sha os paths cursor in
    map (\<lambda>r. map_of (jr_fields r) ''FILE_INTEGRITY_PATH'') (change_records rs)
      = map (\<lambda>p. Some (JStr p)) (filter (\<lambda>p. before (path_key sha p) \<noteq> None \<and> before (path_key sha p) \<noteq> Some (seen p)) paths)
    \<and> (\<forall>k < length (change_records rs).
         change_records (scan_files sha os paths (Some (jr_cursor (change_records rs ! k)))) = drop (Suc k) (change_records rs))
    \<and> map_of (case rs of [] \<Rightarrow> parse_baseline cursor | _ \<Rightarrow> parse_baseline (Some (jr_cursor (last rs))))
      = map_of (map (\<lambda>p. (path_key sha p, seen p)) paths)"
proof -
  define b cs com where defs: "b = parse_baseline cursor" "cs = current_states sha os paths" "com = kept_entries cs b"
  have cs: "cs = map (\<lambda>p. (path_key sha p, p, read_state sha (os p))) paths" unfolding defs(2) by (rule current_states_map [OF assms(2)])
  have start: "scan_starts b com cs" unfolding defs by (rule scan_starts_here [OF assms(1,2) parse_baseline_ok])
  have b: "parse_baseline cursor = b" "b \<noteq> []" using assms(3) by (simp_all add: defs(1))
  let ?loop = "snd (scan_loop b com cs)"
  have changes: "change_records (scan_files sha os paths cursor) = ?loop"
    unfolding scan_files_eq [OF b defs(2,3)] by simp
  have "change_records (scan_files sha os paths (Some (jr_cursor (?loop ! k)))) = drop (Suc k) ?loop" if k: "k < length ?loop" for k
  proof -
    obtain pre name path st suf where e: "cs = pre @ (name, path, st) # suf"
      "?loop ! k = change_record (committed_after com (pre @ [(name, path, st)])) path (the (map_of b name)) st"
      "drop (Suc k) ?loop = snd (scan_loop b (committed_after com (pre @ [(name, path, st)])) suf)"
      using scan_loop_record [OF k] by blast
    let ?comk = "committed_after com (pre @ [(name, path, st)])"
    let ?b2 = "parse_baseline (Some (serialize_baseline ?comk))"
    have c: "jr_cursor (?loop ! k) = serialize_baseline ?comk" by (simp add: e(2) change_record_def)
    note again = rescan_starts [OF e(1) start refl refl]
    from scan_files_eq [OF refl conjunct1 [OF again] defs(2) refl] conjunct2 [OF again]
    have "change_records (scan_files sha os paths (Some (serialize_baseline ?comk))) = snd (scan_loop b ?comk suf)" by simp
    with c e(3) show ?thesis by simp
  qed
  moreover have "map (\<lambda>(name, path, st). Some (JStr path)) (changed b cs)
      = map (\<lambda>p. Some (JStr p)) (filter (\<lambda>p. map_of b (path_key sha p) \<noteq> None \<and> map_of b (path_key sha p) \<noteq> Some (observable (read_state sha (os p)))) paths)"
    by (simp add: changed_def cs filter_map comp_def)
  moreover have "map_of (map (\<lambda>(name, path, st). (name, observable st)) cs) = map_of (map (\<lambda>p. (path_key sha p, observable (read_state sha (os p)))) paths)"
    by (simp add: cs comp_def)
  ultimately show ?thesis
    using last_cursor [OF start b(2,1) defs(2,3)] scan_loop_paths [of b com cs] unfolding Let_def b(1) changes by simp
qed

text \<open>The witness: one watched path that has vanished.\<close>

definition integrity_sha :: "string \<Rightarrow> string" where
  "integrity_sha m = replicate 64 (CHR ''a'')"

definition vanished :: probe where
  "vanished = \<lparr>pb_open = None, pb_content = None, pb_stat = None\<rparr>"

definition integrity_cursor :: string where
  "integrity_cursor = serialize_baseline [(replicate 8 (CHR ''a''), replicate 24 (CHR ''b''))]"

lemma integrity_baseline: "parse_baseline (Some integrity_cursor) = [(replicate 8 (CHR ''a''), replicate 24 (CHR ''b''))]"
proof -
  have "baseline_ok [(replicate 8 (CHR ''a''), replicate 24 (CHR ''b''))]"
    by (simp add: baseline_ok_def entry_ok_def list_all_iff is_alnum_def is_lower_def)
  from parse_serialize [OF this] show ?thesis by (simp add: integrity_cursor_def)
qed

lemma integrity_sha_hex: "is_sha256_hex (integrity_sha m)"
  by (simp add: integrity_sha_def is_sha256_hex_def list_all_iff is_lower_hex_def)

theorem scan_reports_each_change_once_witness:
  "map (\<lambda>r. map_of (jr_fields r) ''FILE_INTEGRITY_PATH'')
      (change_records (scan_files integrity_sha (\<lambda>_. vanished) [''/etc/passwd''] (Some integrity_cursor))) = [Some (JStr ''/etc/passwd'')]"
proof -
  have "distinct (map (path_key integrity_sha) [''/etc/passwd''])" "parse_baseline (Some integrity_cursor) \<noteq> []"
    by (simp_all add: integrity_baseline)
  note scan = scan_reports_each_change_once [of integrity_sha, OF integrity_sha_hex this, of "\<lambda>_. vanished"]
  have "path_key integrity_sha ''/etc/passwd'' = replicate 8 (CHR ''a'')" by (simp add: path_key_def integrity_sha_def)
  moreover have "observable (read_state integrity_sha vanished) \<noteq> replicate 24 (CHR ''b'')"
    by (simp add: read_state_def state_without_reading_def vanished_def observable_def missing_state_def numeral_eq_Suc)
  ultimately show ?thesis using scan by (auto simp: Let_def integrity_baseline)
qed

text \<open>C40: No cursor of the source can be refused by the queue. Whatever the committed cursor is, well formed or not, every
  record the source yields, in the backlog or while it follows, carries a cursor of 33 to 2175 characters,
  within the 4096 the table admits, that reads back as a baseline of watched paths only.\<close>

theorem integrity_cursors_fit_the_queue:
  assumes "\<And>m. is_sha256_hex (sha m)" "distinct (map (path_key sha) paths)"
    "make_file_integrity_source sha os rounds paths = Inr source"
    "r \<in> set (fst (so_backlog source cursor limit)) \<union> set (fst (so_follow source cursor))"
  shows "33 \<le> length (jr_cursor r) \<and> length (jr_cursor r) \<le> 2175 \<and> cursor_length_ok (jr_cursor r)
    \<and> parse_baseline (Some (jr_cursor r)) \<noteq> [] \<and> fst ` set (parse_baseline (Some (jr_cursor r))) \<subseteq> path_key sha ` set paths"
proof -
  have paths: "paths \<noteq> []" "length paths \<le> 64"
    and source: "so_backlog source = (\<lambda>cursor _. (scan_files sha os paths cursor, Source_Drained))"
      "so_follow source = (\<lambda>cursor. (follow_scans sha rounds paths cursor, Source_Drained))"
    using assms(3) by (auto simp: make_file_integrity_source_def bind_r_eq_Inr max_watched_paths_def)
  have "\<exists>os c. r \<in> set (scan_files sha os paths c)" if "r \<in> set (follow_scans sha rounds paths c)" for c
    using that by (induction sha rounds paths c rule: follow_scans.induct) (auto simp: Let_def)
  then obtain os c where "r \<in> set (scan_files sha os paths c)" using assms(4) by (auto simp: source) blast
  from scan_cursor [OF assms(1,2) paths(1) this] obtain com where com: "jr_cursor r = serialize_baseline com" "baseline_ok com" "com \<noteq> []"
    "fst ` set com \<subseteq> path_key sha ` set paths" by blast
  have "length (path_key sha p) = 8" for p using hex_take [OF assms(1) [of p], of 8] by (simp add: path_key_def)
  then have len: "length (jr_cursor r) + 1 = 34 * length com"
    using com(4) by (subst com(1), intro serialize_length com) auto
  have "length com = card (fst ` set com)" using com(2) distinct_card [of "map fst com"] by (simp add: baseline_ok_def)
  also have "\<dots> \<le> card (path_key sha ` set paths)" using com(4) by (intro card_mono) simp_all
  also have "\<dots> \<le> length paths" using card_image_le [of "set paths" "path_key sha"] card_length [of paths] by simp
  finally have n: "length com \<le> 64" using paths(2) by simp
  have "0 < length com" using com(3) by simp
  with len n have bounds: "33 \<le> length (jr_cursor r)" "length (jr_cursor r) \<le> 2175" by linarith+
  have parse: "parse_baseline (Some (jr_cursor r)) = sort_key fst com" unfolding com(1) by (rule parse_serialize [OF com(2)])
  have "CHR 0x00 \<notin> set (jr_cursor r)" by (simp add: com(1) serialize_no_nul com(2))
  then have no_nul: "takeWhile (\<lambda>x. x \<noteq> CHR 0x00) (jr_cursor r) = jr_cursor r" by (auto simp: takeWhile_eq_all_conv)
  have "cursor_length_ok (jr_cursor r)" unfolding cursor_length_ok_def no_nul Let_def using bounds by simp
  moreover have "sort_key fst com \<noteq> []" using com(3) by (metis length_0_conv length_sort)
  ultimately show ?thesis using bounds com(4) by (simp add: parse)
qed

theorem integrity_cursors_fit_the_queue_witness:
  "\<exists>source r. make_file_integrity_source integrity_sha (\<lambda>_. vanished) [] [''/etc/passwd''] = Inr source
    \<and> r \<in> set (fst (so_backlog source None None)) \<and> cursor_length_ok (jr_cursor r)"
proof -
  obtain source where source: "make_file_integrity_source integrity_sha (\<lambda>_. vanished) [] [''/etc/passwd''] = Inr source"
    "so_backlog source None None = (scan_files integrity_sha (\<lambda>_. vanished) [''/etc/passwd''] None, Source_Drained)"
    by (auto simp: make_file_integrity_source_def bind_r_eq_Inr max_watched_paths_def)
  have "scan_files integrity_sha (\<lambda>_. vanished) [''/etc/passwd''] None \<noteq> []" by (simp add: scan_files_def parse_baseline_def Let_def)
  then obtain r where r: "r \<in> set (fst (so_backlog source None None))" using source(2) by (cases "scan_files integrity_sha (\<lambda>_. vanished) [''/etc/passwd''] None") auto
  have "distinct (map (path_key integrity_sha) [''/etc/passwd''])" by simp
  from integrity_cursors_fit_the_queue [of integrity_sha, OF integrity_sha_hex this source(1), of r None None] r source(1) show ?thesis by blast
qed

text \<open>The identifier of an event is made from the cursor, and the cursor of this source is only what was seen. A file
  that changes, changes back and changes again yields the same identifier for the first and the third change.\<close>

lemma single_path_scan:
  assumes "\<And>m. is_sha256_hex (sha m)" "entry_ok (path_key sha p, v)"
  shows "scan_files sha os [p] (Some (serialize_baseline [(path_key sha p, v)]))
    = (let seen = observable (read_state sha (os p)) in
       if v = seen then [] else [change_record [(path_key sha p, seen)] p v (read_state sha (os p))])"
proof -
  have "parse_baseline (Some (serialize_baseline [(path_key sha p, v)])) = [(path_key sha p, v)]"
    using parse_serialize [of "[(path_key sha p, v)]"] assms(2) by (simp add: baseline_ok_def)
  then show ?thesis by (simp add: scan_files_def current_states_def Let_def)
qed

lemma repeated_change_repeats_event:
  assumes "\<And>m. is_sha256_hex (sha m)" "os1 p = a" "os2 p = b" "observable (read_state sha a) \<noteq> observable (read_state sha b)"
    "c0 = serialize_baseline [(path_key sha p, observable (read_state sha a))]"
  shows "\<exists>r1 r2 r3. scan_files sha os2 [p] (Some c0) = [r1] \<and> scan_files sha os1 [p] (Some (jr_cursor r1)) = [r2]
    \<and> scan_files sha os2 [p] (Some (jr_cursor r2)) = [r3]
    \<and> (\<forall>printable uuid5 t t'. map_option ne_event_id (normalize_file_record printable uuid5 t r1)
        = map_option ne_event_id (normalize_file_record printable uuid5 t' r3))"
proof -
  have ok: "entry_ok (path_key sha p, observable (read_state sha q))" for q
    using observable_ok [OF assms(1), where p = q] hex_take [OF assms(1) [of p], of 8] by (auto simp: entry_ok_def path_key_def)
  let ?r = "\<lambda>x y. change_record [(path_key sha p, observable (read_state sha y))] p (observable (read_state sha x)) (read_state sha y)"
  have "scan_files sha os2 [p] (Some c0) = [?r a b]" "scan_files sha os1 [p] (Some (jr_cursor (?r a b))) = [?r b a]"
    "scan_files sha os2 [p] (Some (jr_cursor (?r b a))) = [?r a b]"
    using assms(2-5) single_path_scan [OF assms(1) ok] by (simp_all add: Let_def change_record_def)
  moreover have "map_option ne_event_id (normalize_file_record printable uuid5 t r)
      = map_option ne_event_id (normalize_file_record printable uuid5 t' r)" for printable uuid5 t t' r
    by (simp add: normalize_file_record_def option.map_comp comp_def)
  ultimately show ?thesis by blast
qed

end
