(* ===== verification/Followed_File.thy ===== *)
theory Followed_File
  imports Agent_Service Unicode_Text Uuid_Text
begin

text \<open>
  \<open>sources/followed_file.py\<close>, the tailer the line sources share. A file is its device, its inode and its bytes; a
  position is an offset, and a read sees the bytes from there to the end. SHA-256 as hexadecimal text and the
  decoding of UTF-8 are parameters. Stopping between two lines leaves a prefix of what is read.
\<close>

section \<open>Reading\<close>

definition max_line_bytes :: nat where "max_line_bytes = 64 * 1024"

definition newline :: char where "newline = CHR 0x0A"

record file_handle =
  fh_device :: nat
  fh_inode :: nat
  fh_bytes :: string

record raw_line =
  rl_text :: ustring
  rl_cursor :: string

text \<open>\<open>handle.readline(MAX_LINE_BYTES)\<close> on what is left of the file.\<close>

definition readline :: "string \<Rightarrow> string" where
  "readline rest = take max_line_bytes (takeWhile (\<lambda>c. c \<noteq> newline) rest @ take 1 (dropWhile (\<lambda>c. c \<noteq> newline) rest))"

definition ends_line :: "string \<Rightarrow> bool" where
  "ends_line chunk \<longleftrightarrow> chunk \<noteq> [] \<and> last chunk = newline"

lemma length_readline: "length (readline rest) \<le> length rest" "rest \<noteq> [] \<Longrightarrow> 0 < length (readline rest)"
proof -
  let ?p = "\<lambda>c. c \<noteq> newline"
  have "length rest = length (takeWhile ?p rest) + length (dropWhile ?p rest)" by (metis length_append takeWhile_dropWhile_id)
  then show "length (readline rest) \<le> length rest" by (simp add: readline_def)
  show "0 < length (readline rest)" if "rest \<noteq> []"
    using that by (cases rest) (auto simp: readline_def max_line_bytes_def)
qed

text \<open>\<open>_discard_overlong\<close>: how far to skip, and whether the end of the line was found.\<close>

function discard_overlong :: "nat \<Rightarrow> string \<Rightarrow> bool \<times> nat" where
  "discard_overlong off rest =
     (let chunk = readline rest in
      if rest = [] then (False, off)
      else if ends_line chunk then (True, off + length chunk)
      else discard_overlong (off + length chunk) (drop (length chunk) rest))"
  by auto
termination
  by (relation "measure (\<lambda>(off, rest). length rest)") (use length_readline(2) in auto)

declare discard_overlong.simps [simp del]

lemma discard_overlong_forward: "off \<le> snd (discard_overlong off rest)"
proof (induction off rest rule: discard_overlong.induct)
  case (1 off rest)
  then show ?case by (subst discard_overlong.simps) (auto simp: Let_def intro: le_trans [of off "off + length (readline rest)"])
qed

definition strip_line_end :: "ustring \<Rightarrow> ustring" where
  "strip_line_end s = rev (dropWhile (\<lambda>c. c = 10 \<or> c = 13) (rev s))"

definition file_line :: "(string \<Rightarrow> string) \<Rightarrow> (string \<Rightarrow> ustring) \<Rightarrow> file_handle \<Rightarrow> string \<Rightarrow> nat \<Rightarrow> raw_line option" where
  "file_line sha decode f raw end_offset =
     (let s = strip_line_end (decode raw) in
      if 0 \<in> set s then None
      else Some \<lparr>rl_text = s, rl_cursor = show_nat (fh_device f) @ '':'' @ show_nat (fh_inode f) @ '':''
        @ show_nat end_offset @ '':'' @ take 12 (sha raw)\<rparr>)"

text \<open>\<open>_read_available\<close> from an offset: the lines, and the offset where the handle stands afterwards.\<close>

function read_available :: "(string \<Rightarrow> string) \<Rightarrow> (string \<Rightarrow> ustring) \<Rightarrow> file_handle \<Rightarrow> nat \<Rightarrow> raw_line list \<times> nat" where
  "read_available sha decode f start =
     (let rest = drop start (fh_bytes f); chunk = readline rest in
      if rest = [] then ([], start)
      else if \<not> ends_line chunk then
        (if max_line_bytes \<le> length chunk
         then (case discard_overlong (start + length chunk) (drop (length chunk) rest) of
             (True, next_line) \<Rightarrow> read_available sha decode f next_line
           | (False, eof) \<Rightarrow> ([], eof))
         else ([], start))
      else let (ls, fin) = read_available sha decode f (start + length chunk) in
        ((case file_line sha decode f chunk (start + length chunk) of None \<Rightarrow> [] | Some l \<Rightarrow> [l]) @ ls, fin))"
  by auto
termination
proof (relation "measure (\<lambda>(sha, decode, f, start). length (fh_bytes f) - start)", goal_cases)
  case (2 sha decode f start rest chunk found next_line)
  then have "start < length (fh_bytes f)" "0 < length chunk" using length_readline(2) [of rest] by auto
  moreover have "start + length chunk \<le> next_line"
    using discard_overlong_forward [of "start + length chunk" "drop (length chunk) rest"] 2 by (metis snd_conv)
  ultimately have "length (fh_bytes f) - next_line < length (fh_bytes f) - start" by linarith
  then show ?case by simp
next
  case (3 sha decode f start rest chunk)
  then have "start < length (fh_bytes f)" "0 < length chunk" using length_readline(2) [of rest] by auto
  then have "length (fh_bytes f) - (start + length chunk) < length (fh_bytes f) - start" by linarith
  then show ?case by simp
qed simp

declare read_available.simps [simp del]

section \<open>Opening and rotation\<close>

text \<open>The path at one moment: \<open>None\<close> is a file that cannot be opened or is not regular.\<close>

definition parse_file_cursor :: "string \<Rightarrow> (nat \<times> nat \<times> nat) option" where
  "parse_file_cursor c = (case split_on (CHR '':'') c of
     [dev, ino, offset, digest] \<Rightarrow>
       if list_all is_digit dev \<and> 1 \<le> length dev \<and> length dev \<le> 20 \<and> list_all is_digit ino \<and> 1 \<le> length ino \<and> length ino \<le> 20
         \<and> list_all is_digit offset \<and> 1 \<le> length offset \<and> length offset \<le> 19 \<and> list_all is_lower_hex digest \<and> length digest = 12
       then Some (read_dec dev, read_dec ino, read_dec offset) else None
   | _ \<Rightarrow> None)"

definition open_at :: "file_handle option \<Rightarrow> string option \<Rightarrow> source_end + file_handle \<times> nat" where
  "open_at path after_cursor = (case after_cursor of
     None \<Rightarrow> (case path of None \<Rightarrow> Inl Source_Unavailable | Some f \<Rightarrow> Inr (f, 0))
   | Some c \<Rightarrow> (case parse_file_cursor c of
       None \<Rightarrow> Inl Source_Cursor_Gone
     | Some (dev, ino, offset) \<Rightarrow> (case path of
         None \<Rightarrow> Inl Source_Unavailable
       | Some f \<Rightarrow>
           if (dev, ino) \<noteq> (fh_device f, fh_inode f) then Inl Source_Cursor_Gone
           else if length (fh_bytes f) < offset then Inr (f, 0)
           else Inr (f, offset))))"

text \<open>\<open>backlog\<close>; after the \<open>n\<close>-th line the limit ends it, so a limit below one still lets one line through.\<close>

definition file_backlog ::
  "(string \<Rightarrow> string) \<Rightarrow> (string \<Rightarrow> ustring) \<Rightarrow> file_handle option \<Rightarrow> string option \<Rightarrow> int option \<Rightarrow> raw_line list \<times> source_end" where
  "file_backlog sha decode path after_cursor limit = (case open_at path after_cursor of
     Inl e \<Rightarrow> ([], e)
   | Inr (f, off) \<Rightarrow> let ls = fst (read_available sha decode f off) in
       (case limit of None \<Rightarrow> ls | Some n \<Rightarrow> take (nat (max 1 n)) ls, Source_Drained))"

text \<open>\<open>follow\<close>, one turn of its loop after another: the bytes of the open file at the first read, what the path names
  then (\<open>None\<close> when \<open>stat\<close> fails), the bytes at the second read, and what can be opened afterwards.\<close>

record file_turn =
  ft_first :: string
  ft_path :: "(nat \<times> nat) option"
  ft_second :: string
  ft_reopened :: "file_handle option"

fun follow_turns ::
  "(string \<Rightarrow> string) \<Rightarrow> (string \<Rightarrow> ustring) \<Rightarrow> file_handle \<Rightarrow> nat \<Rightarrow> file_turn list \<Rightarrow> raw_line list \<times> source_end" where
  "follow_turns sha decode f off [] = ([], Source_Drained)"
| "follow_turns sha decode f off (t # ts) =
     (let (ls, off1) = read_available sha decode (f\<lparr>fh_bytes := ft_first t\<rparr>) off in
      (case ft_path t of
         Some identity \<Rightarrow>
           if identity \<noteq> (fh_device f, fh_inode f) then
             (let ls' = fst (read_available sha decode (f\<lparr>fh_bytes := ft_second t\<rparr>) off1) in
              (case ft_reopened t of
                 None \<Rightarrow> (ls @ ls', Source_Unavailable)
               | Some g \<Rightarrow> (case follow_turns sha decode g 0 ts of (rest, e) \<Rightarrow> (ls @ ls' @ rest, e))))
           else (case follow_turns sha decode f off1 ts of (rest, e) \<Rightarrow> (ls @ rest, e))
       | None \<Rightarrow> (case follow_turns sha decode f off1 ts of (rest, e) \<Rightarrow> (ls @ rest, e))))"

definition file_follow ::
  "(string \<Rightarrow> string) \<Rightarrow> (string \<Rightarrow> ustring) \<Rightarrow> file_handle option \<Rightarrow> string option \<Rightarrow> file_turn list \<Rightarrow> raw_line list \<times> source_end" where
  "file_follow sha decode path after_cursor turns = (case open_at path after_cursor of
     Inl e \<Rightarrow> ([], e) | Inr (f, off) \<Rightarrow> follow_turns sha decode f off turns)"

section \<open>What is read\<close>

definition is_line :: "string \<Rightarrow> bool" where
  "is_line l \<longleftrightarrow> (\<exists>body. l = body @ [newline] \<and> newline \<notin> set body)"

text \<open>The records of complete lines, each with the offset of its end; longer lines and lines with a NUL are left out.\<close>

fun accepted :: "(string \<Rightarrow> string) \<Rightarrow> (string \<Rightarrow> ustring) \<Rightarrow> file_handle \<Rightarrow> nat \<Rightarrow> string list \<Rightarrow> raw_line list" where
  "accepted sha decode f off [] = []"
| "accepted sha decode f off (l # ls) =
     (if length l \<le> max_line_bytes then (case file_line sha decode f l (off + length l) of None \<Rightarrow> [] | Some x \<Rightarrow> [x]) else [])
     @ accepted sha decode f (off + length l) ls"

lemma up_to_newline:
  "newline \<notin> set body \<Longrightarrow> takeWhile (\<lambda>c. c \<noteq> newline) (body @ newline # rest) = body"
  "newline \<notin> set body \<Longrightarrow> dropWhile (\<lambda>c. c \<noteq> newline) (body @ newline # rest) = newline # rest"
  "newline \<notin> set body \<Longrightarrow> takeWhile (\<lambda>c. c \<noteq> newline) body = body"
  "newline \<notin> set body \<Longrightarrow> dropWhile (\<lambda>c. c \<noteq> newline) body = []"
  by (induction body) auto

lemma no_newline_drop: "newline \<notin> set s \<Longrightarrow> newline \<notin> set (drop n s)"
  by (meson in_set_dropD)

lemma no_newline_end: "newline \<notin> set s \<Longrightarrow> \<not> ends_line (take n s)" "newline \<notin> set s \<Longrightarrow> \<not> ends_line s"
proof -
  assume s: "newline \<notin> set s"
  then have "\<not> ends_line t" if "set t \<subseteq> set s" for t
    using that last_in_set [of t] by (auto simp: ends_line_def simp del: last_in_set)
  then show "\<not> ends_line (take n s)" "\<not> ends_line s" by (simp_all add: set_take_subset)
qed

lemma readline_line:
  "newline \<notin> set body \<Longrightarrow> readline (body @ newline # rest) = take max_line_bytes (body @ [newline])"
  by (simp add: readline_def up_to_newline)

lemma readline_tail: "newline \<notin> set tail \<Longrightarrow> readline tail = take max_line_bytes tail"
  by (simp add: readline_def up_to_newline)

lemma discard_to_newline:
  "newline \<notin> set body \<Longrightarrow> discard_overlong off (body @ newline # rest) = (True, off + length body + 1)"
proof (induction body arbitrary: off rule: length_induct)
  case (1 body)
  let ?chunk = "readline (body @ newline # rest)"
  have chunk: "?chunk = take max_line_bytes (body @ [newline])" using 1(2) by (rule readline_line)
  show ?case
  proof (cases "length body < max_line_bytes")
    case True
    then show ?thesis by (subst discard_overlong.simps) (simp add: Let_def chunk ends_line_def)
  next
    case False
    then have c: "?chunk = take max_line_bytes body" by (simp add: chunk)
    have long: "0 < max_line_bytes" "max_line_bytes \<le> length body" using False by (simp_all add: max_line_bytes_def)
    then have n: "length ?chunk = max_line_bytes" by (simp add: c)
    have "length (drop max_line_bytes body) < length body" using long by simp
    from 1(1) [rule_format, OF this no_newline_drop [OF 1(2)], of "off + max_line_bytes"] long
    have "discard_overlong (off + max_line_bytes) (drop max_line_bytes body @ newline # rest) = (True, off + length body + 1)" by simp
    moreover have "drop max_line_bytes (body @ newline # rest) = drop max_line_bytes body @ newline # rest" using long by simp
    ultimately show ?thesis using no_newline_end(1) [OF 1(2), of max_line_bytes]
      by (subst discard_overlong.simps) (simp add: Let_def n c [symmetric] del: drop_append)
  qed
qed

lemma discard_tail:
  "newline \<notin> set tail \<Longrightarrow> discard_overlong off tail = (False, off + length tail)"
proof (induction tail arbitrary: off rule: length_induct)
  case (1 tail)
  have chunk: "readline tail = take max_line_bytes tail" using 1(2) by (rule readline_tail)
  show ?case
  proof (cases "tail = []")
    case False
    then have "length (drop max_line_bytes tail) < length tail" by (cases tail) (simp_all add: max_line_bytes_def)
    from 1(1) [rule_format, OF this no_newline_drop [OF 1(2)], of "off + length (readline tail)"]
    have "discard_overlong (off + length (readline tail)) (drop (length (readline tail)) tail) = (False, off + length tail)"
      by (cases "length tail \<le> max_line_bytes") (simp_all add: chunk)
    with False no_newline_end(1) [OF 1(2), of max_line_bytes] show ?thesis
      by (subst discard_overlong.simps) (simp add: Let_def chunk)
  qed (subst discard_overlong.simps, simp)
qed

text \<open>Reading delivers the accepted lines and stands behind the last complete line.\<close>

lemma read_lines:
  assumes "list_all is_line ls" "newline \<notin> set tail" "length tail < max_line_bytes" "drop start (fh_bytes f) = concat ls @ tail"
  shows "read_available sha decode f start = (accepted sha decode f start ls, start + length (concat ls))"
  using assms
proof (induction ls arbitrary: start)
  case Nil
  then have rest: "drop start (fh_bytes f) = tail" by simp
  have "readline tail = tail" using Nil.prems(2,3) by (simp add: readline_tail)
  moreover have "\<not> ends_line tail" using Nil.prems(2) by (rule no_newline_end(2))
  ultimately show ?case using Nil.prems(3) by (subst read_available.simps) (auto simp: Let_def rest not_le)
next
  case (Cons l ls)
  then obtain body where l: "l = body @ [newline]" "newline \<notin> set body" by (auto simp: is_line_def)
  have rest: "drop start (fh_bytes f) = body @ newline # concat ls @ tail" using Cons.prems(4) by (simp add: l(1))
  have "drop (start + length l) (fh_bytes f) = drop (length l) (drop start (fh_bytes f))" by (simp add: add.commute)
  then have next_rest: "drop (start + length l) (fh_bytes f) = concat ls @ tail" by (simp add: rest l(1))
  have ih: "read_available sha decode f (start + length l) = (accepted sha decode f (start + length l) ls, start + length l + length (concat ls))"
    using Cons.IH [OF _ Cons.prems(2,3) next_rest] Cons.prems(1) by simp
  have chunk: "readline (drop start (fh_bytes f)) = take max_line_bytes l" unfolding rest l(1) by (rule readline_line [OF l(2)])
  show ?case
  proof (cases "length l \<le> max_line_bytes")
    case True
    then have "readline (drop start (fh_bytes f)) = l" "ends_line l" by (simp_all add: chunk ends_line_def l(1))
    with True rest show ?thesis by (subst read_available.simps) (simp add: Let_def ih)
  next
    case False
    then have long: "max_line_bytes \<le> length body" by (simp add: l(1))
    then have c: "readline (drop start (fh_bytes f)) = take max_line_bytes body" by (simp add: chunk l(1))
    have "\<not> ends_line (take max_line_bytes body)" using l(2) by (rule no_newline_end(1))
    moreover have "discard_overlong (start + max_line_bytes) (drop max_line_bytes (drop start (fh_bytes f))) = (True, start + length l)"
      using discard_to_newline [OF no_newline_drop [OF l(2)], of "start + max_line_bytes" max_line_bytes "concat ls @ tail"] l(1) long
      unfolding rest by simp
    ultimately show ?thesis using False long rest 
      by (cases "length body = max_line_bytes"; subst read_available.simps) (simp_all add: Let_def c [unfolded rest] ih min_def)
  qed
qed

lemma read_lines_whole:
  assumes "list_all is_line ls" "newline \<notin> set tail" "length tail < max_line_bytes" "fh_bytes f = concat (pre @ ls) @ tail"
    "start = length (concat pre)"
  shows "read_available sha decode f start = (accepted sha decode f start ls, start + length (concat ls))"
  by (rule read_lines [OF assms(1-3)]) (simp add: assms(4,5))

section \<open>Positions\<close>

definition cursor_text :: "(string \<Rightarrow> string) \<Rightarrow> file_handle \<Rightarrow> nat \<Rightarrow> string \<Rightarrow> string" where
  "cursor_text sha f end_offset raw = show_nat (fh_device f) @ '':'' @ show_nat (fh_inode f) @ '':''
     @ show_nat end_offset @ '':'' @ take 12 (sha raw)"

lemma digits_no_colon: "CHR '':'' \<notin> set (show_nat n)" "list_all is_digit (show_nat n)" "1 \<le> length (show_nat n)"
proof -
  show "CHR '':'' \<notin> set (show_nat n)" using show_nat_digits [of "CHR '':''" n] by (auto simp: is_digit_def)
  show "list_all is_digit (show_nat n)" using show_nat_digits [of _ n] by (simp add: list_all_iff)
  have "show_nat n \<noteq> []" by (simp add: show_nat_def nat_digits_nonempty)
  then show "1 \<le> length (show_nat n)" by (cases "show_nat n") simp_all
qed

lemma parse_cursor_text:
  assumes "fh_device f < 10 ^ 20" "fh_inode f < 10 ^ 20" "off < 10 ^ 19" "is_sha256_hex (sha raw)"
  shows "parse_file_cursor (cursor_text sha f off raw) = Some (fh_device f, fh_inode f, off)"
proof -
  have hex: "list_all is_lower_hex (take 12 (sha raw))" "length (take 12 (sha raw)) = 12"
    using assms(4) by (auto simp: is_sha256_hex_def list_all_iff dest: in_set_takeD)
  then have "CHR '':'' \<notin> set (take 12 (sha raw))" by (auto simp: list_all_iff is_lower_hex_def)
  then have "split_on (CHR '':'') (cursor_text sha f off raw)
      = [show_nat (fh_device f), show_nat (fh_inode f), show_nat off, take 12 (sha raw)]"
    by (simp add: cursor_text_def split_on_append split_on_none digits_no_colon)
  moreover have "length (show_nat (fh_device f)) \<le> 20" "length (show_nat (fh_inode f)) \<le> 20" "length (show_nat off) \<le> 19"
    using assms(1-3) by (simp_all add: show_nat_length)
  ultimately show ?thesis using hex digits_no_colon by (simp add: parse_file_cursor_def)
qed

lemma accepted_append: "accepted sha decode f off (ls @ ls') = accepted sha decode f off ls @ accepted sha decode f (off + length (concat ls)) ls'"
  by (induction ls arbitrary: off) (simp_all add: add.assoc)

lemma accepted_same_file:
  "fh_device g = fh_device f \<Longrightarrow> fh_inode g = fh_inode f \<Longrightarrow> accepted sha decode g off ls = accepted sha decode f off ls"
proof (induction ls arbitrary: off)
  case (Cons l ls)
  then have "file_line sha decode g l (off + length l) = file_line sha decode f l (off + length l)" by (simp add: file_line_def Let_def cong: if_cong)
  with Cons show ?case by simp
qed simp

lemma accepted_record:
  assumes "k < length (accepted sha decode f off ls)"
  shows "\<exists>pre l suf. ls = pre @ l # suf \<and> rl_cursor (accepted sha decode f off ls ! k) = cursor_text sha f (off + length (concat (pre @ [l]))) l
    \<and> drop (Suc k) (accepted sha decode f off ls) = accepted sha decode f (off + length (concat (pre @ [l]))) suf"
  using assms
proof (induction ls arbitrary: off k)
  case (Cons l ls)
  let ?here = "if length l \<le> max_line_bytes then (case file_line sha decode f l (off + length l) of None \<Rightarrow> [] | Some x \<Rightarrow> [x]) else []"
  have step: "accepted sha decode f off (l # ls) = ?here @ accepted sha decode f (off + length l) ls" by simp
  show ?case
  proof (cases "k < length ?here")
    case True
    then obtain x where x: "k = 0" "?here = [x]" "file_line sha decode f l (off + length l) = Some x"
      by (auto split: if_splits option.splits)
    then have "rl_cursor x = cursor_text sha f (off + length l) l"
      by (auto simp: file_line_def cursor_text_def Let_def split: if_splits)
    then show ?thesis unfolding step x(1,2) by (intro exI [of _ "[]"] exI [of _ l] exI [of _ ls]) simp
  next
    case False
    then obtain m where k: "k = length ?here + m" by (metis le_iff_add not_less)
    then have "m < length (accepted sha decode f (off + length l) ls)" using Cons.prems unfolding step by simp
    from Cons.IH [OF this] obtain pre l' suf where ih: "ls = pre @ l' # suf"
      "rl_cursor (accepted sha decode f (off + length l) ls ! m) = cursor_text sha f (off + length l + length (concat (pre @ [l']))) l'"
      "drop (Suc m) (accepted sha decode f (off + length l) ls) = accepted sha decode f (off + length l + length (concat (pre @ [l']))) suf"
      by blast
    have "accepted sha decode f off (l # ls) ! k = accepted sha decode f (off + length l) ls ! m"
      "drop (Suc k) (accepted sha decode f off (l # ls)) = drop (Suc m) (accepted sha decode f (off + length l) ls)"
      unfolding step k by (simp_all only: nth_append_length_plus drop_append) simp
    moreover have "off + length l + length (concat (pre @ [l'])) = off + length (concat ((l # pre) @ [l']))" by simp
    moreover have "l # ls = (l # pre) @ l' # suf" by (simp add: ih(1))
    ultimately show ?thesis using ih(2,3) by metis
  qed
qed simp

section \<open>Properties\<close>

text \<open>C14: Every complete line of a followed file is delivered once and in order, however the reading is cut up. A file that
  holds complete lines and less than a full buffer of an unfinished one yields exactly its accepted lines, those
  of at most 64 KiB without a NUL. When the file has grown, with the same lines first, what was read is a prefix of
  what it yields; resuming from the cursor of any line that was read yields exactly the lines after it; and
  reading on with the open handle yields exactly the lines that are new.\<close>

theorem followed_lines_are_delivered_once:
  assumes f: "fh_bytes f = concat ls @ tail" "list_all is_line ls" "newline \<notin> set tail" "length tail < max_line_bytes"
    and g: "fh_bytes g = concat (ls @ ls') @ tail'" "list_all is_line ls'" "newline \<notin> set tail'" "length tail' < max_line_bytes"
      "fh_device g = fh_device f" "fh_inode g = fh_inode f"
    and sizes: "fh_device f < 10 ^ 20" "fh_inode f < 10 ^ 20" "length (fh_bytes g) < 10 ^ 19" "\<And>m. is_sha256_hex (sha m)"
  shows "let seen = fst (file_backlog sha decode (Some f) None None); all = fst (file_backlog sha decode (Some g) None None) in
    seen = accepted sha decode f 0 ls \<and> all = accepted sha decode f 0 (ls @ ls')
    \<and> (\<forall>k < length seen. file_backlog sha decode (Some g) (Some (rl_cursor (seen ! k))) None = (drop (Suc k) all, Source_Drained))
    \<and> seen @ fst (read_available sha decode g (snd (read_available sha decode f 0))) = all"
proof -
  note same = accepted_same_file [OF g(5,6), of sha decode]
  have lines: "list_all is_line (ls @ ls')" using f(2) g(2) by simp
  have rf: "read_available sha decode f 0 = (accepted sha decode f 0 ls, length (concat ls))"
    using read_lines_whole [OF f(2,3,4), of f "[]" 0] f(1) by simp
  have rg: "read_available sha decode g 0 = (accepted sha decode f 0 (ls @ ls'), length (concat (ls @ ls')))"
    using read_lines_whole [OF lines g(3,4), of g "[]" 0] g(1) by (simp add: same)
  have read_on: "fst (read_available sha decode g (length (concat ls))) = accepted sha decode f (length (concat ls)) ls'"
    using read_lines_whole [OF g(2,3,4), of g ls] g(1) by (simp add: same)
  have resume: "file_backlog sha decode (Some g) (Some (rl_cursor (accepted sha decode f 0 ls ! k))) None
      = (drop (Suc k) (accepted sha decode f 0 (ls @ ls')), Source_Drained)" if k: "k < length (accepted sha decode f 0 ls)" for k
  proof -
    from accepted_record [OF k] obtain pre l suf where r: "ls = pre @ l # suf"
      "rl_cursor (accepted sha decode f 0 ls ! k) = cursor_text sha f (length (concat (pre @ [l]))) l"
      "drop (Suc k) (accepted sha decode f 0 ls) = accepted sha decode f (length (concat (pre @ [l]))) suf" by auto
    let ?off = "length (concat (pre @ [l]))"
    have bytes: "fh_bytes g = concat ((pre @ [l]) @ suf @ ls') @ tail'" using g(1) by (simp add: r(1))
    then have "?off \<le> length (fh_bytes g)" by simp
    then have "open_at (Some g) (Some (cursor_text sha f ?off l)) = Inr (g, ?off)"
      using parse_cursor_text [OF sizes(1,2), of ?off sha l] sizes(4) [of l] sizes(3) g(5,6) by (simp add: open_at_def)
    moreover have "list_all is_line (suf @ ls')" using lines by (simp add: r(1))
    from read_lines_whole [OF this g(3,4) bytes refl]
    have "fst (read_available sha decode g ?off) = accepted sha decode f ?off (suf @ ls')" by (simp add: same)
    moreover have "drop (Suc k) (accepted sha decode f 0 (ls @ ls')) = accepted sha decode f ?off (suf @ ls')"
      using k r(3) by (simp add: accepted_append r(1))
    ultimately show ?thesis by (simp add: file_backlog_def r(2) Let_def)
  qed
  show ?thesis using resume rf rg read_on by (simp add: file_backlog_def open_at_def Let_def accepted_append)
qed

definition sample_log :: "string \<Rightarrow> file_handle" where
  "sample_log bytes = \<lparr>fh_device = 1, fh_inode = 2, fh_bytes = bytes\<rparr>"

theorem followed_lines_are_delivered_once_witness:
  "let decode = map of_char; sha = (\<lambda>_. replicate 64 (CHR ''a'')); f = sample_log (''one'' @ [newline] @ ''tw'');
     g = sample_log (''one'' @ [newline] @ ''two'' @ [newline]) in
   fst (file_backlog sha decode (Some f) None None) = accepted sha decode f 0 [''one'' @ [newline]]
   \<and> fst (file_backlog sha decode (Some g) None None) = accepted sha decode f 0 [''one'' @ [newline], ''two'' @ [newline]]"
proof -
  have lines: "is_line (''one'' @ [newline])" "is_line (''two'' @ [newline])"
    unfolding is_line_def by (rule exI, rule conjI, rule refl, simp add: newline_def)+
  have max: "2 < max_line_bytes" by (simp add: max_line_bytes_def)
  have hex: "is_sha256_hex (replicate 64 (CHR ''a''))" by (simp add: is_sha256_hex_def list_all_iff is_lower_hex_def)
  have 1: "fh_bytes (sample_log (''one'' @ [newline] @ ''tw'')) = concat [''one'' @ [newline]] @ ''tw''"
    "list_all is_line [''one'' @ [newline]]" "newline \<notin> set ''tw''" "length ''tw'' < max_line_bytes"
    using lines max by (simp_all add: sample_log_def newline_def)
  have 2: "fh_bytes (sample_log (''one'' @ [newline] @ ''two'' @ [newline])) = concat ([''one'' @ [newline]] @ [''two'' @ [newline]]) @ []"
    "list_all is_line [''two'' @ [newline]]" "newline \<notin> set []" "length ([] :: string) < max_line_bytes"
    "fh_device (sample_log (''one'' @ [newline] @ ''two'' @ [newline])) = fh_device (sample_log (''one'' @ [newline] @ ''tw''))"
    "fh_inode (sample_log (''one'' @ [newline] @ ''two'' @ [newline])) = fh_inode (sample_log (''one'' @ [newline] @ ''tw''))"
    using lines max by (simp_all add: sample_log_def)
  have 3: "fh_device (sample_log (''one'' @ [newline] @ ''tw'')) < 10 ^ 20" "fh_inode (sample_log (''one'' @ [newline] @ ''tw'')) < 10 ^ 20"
    "length (fh_bytes (sample_log (''one'' @ [newline] @ ''two'' @ [newline]))) < 10 ^ 19" by (simp_all add: sample_log_def)
  from followed_lines_are_delivered_once [OF 1 2 3, of "\<lambda>_. replicate 64 (CHR ''a'')" "map of_char"] hex
  show ?thesis by (simp add: Let_def)
qed

text \<open>A line that is too long is skipped only as far as it has been written. When the end of the file comes before the
  end of the line, the rest that is written later is read as a line of its own.\<close>

lemma rest_of_overlong_line_is_read:
  assumes "newline \<notin> set long" "max_line_bytes \<le> length long" "newline \<notin> set rest" "length rest < max_line_bytes"
    "fh_bytes f = long" "fh_bytes g = long @ rest @ [newline]"
  shows "read_available sha decode f 0 = ([], length long)"
    "fst (read_available sha decode g (length long)) = accepted sha decode g (length long) [rest @ [newline]]"
    "fst (read_available sha decode g 0) = []"
proof -
  have chunk: "readline long = take max_line_bytes long" using assms(1) by (rule readline_tail)
  have n: "length (take max_line_bytes long) = max_line_bytes" "long \<noteq> []" using assms(2) by (auto simp: max_line_bytes_def)
  have "discard_overlong max_line_bytes (drop max_line_bytes long) = (False, length long)"
    using discard_tail [OF no_newline_drop [OF assms(1)], of max_line_bytes max_line_bytes] assms(2) by simp
  then show "read_available sha decode f 0 = ([], length long)"
    using no_newline_end(1) [OF assms(1), of max_line_bytes] n by (subst read_available.simps) (simp add: Let_def assms(5) chunk)
  have line: "is_line (rest @ [newline])" "is_line (long @ rest @ [newline])" using assms(1,3) by (auto simp: is_line_def)
  show "fst (read_available sha decode g (length long)) = accepted sha decode g (length long) [rest @ [newline]]"
    using read_lines [of "[rest @ [newline]]" "[]" "length long" g sha decode] line(1) by (simp add: assms(6) max_line_bytes_def)
  have "read_available sha decode g 0 = (accepted sha decode g 0 [long @ rest @ [newline]], 0 + length (concat [long @ rest @ [newline]]))"
    using line(2) by (intro read_lines [of _ "[]"]) (simp_all add: assms(6) max_line_bytes_def)
  then show "fst (read_available sha decode g 0) = []" using assms(2) by simp
qed

end
