(* ===== verification/Destinations.thy ===== *)
theory Destinations
  imports Audit_Log Step_Systems
begin

text \<open>
  \<open>application/notification_destinations.py\<close>: the administration of notification destinations and of the Telegram
  configuration that belongs to each. Whether a token file is staged is a parameter of the operations, asked of
  the file system at that moment; the dashboard has no access to it and asks nothing.
\<close>

section \<open>Tables\<close>

record config_row =
  cf_destination_id :: uuid
  cf_chat_id :: int
  cf_token_file_name :: string
  cf_created_at :: time
  cf_updated_at :: time

record routing =
  rt_main :: db
  rt_configs :: "config_row list"

abbreviation rt_destinations :: "routing \<Rightarrow> destination_row list" where
  "rt_destinations s \<equiv> destinations (rt_main s)"

definition chat_id_ok :: "int \<Rightarrow> bool" where
  "chat_id_ok v \<longleftrightarrow> v \<noteq> 0 \<and> - (2 ^ 52 - 1) \<le> v \<and> v \<le> 2 ^ 52 - 1"

definition file_name_character :: "char \<Rightarrow> bool" where
  "file_name_character c \<longleftrightarrow> is_alnum c \<or> c \<in> set ''._-''"

definition token_file_name_ok :: "string \<Rightarrow> bool" where
  "token_file_name_ok s \<longleftrightarrow> 1 \<le> length s \<and> length s \<le> 128 \<and> is_alnum (hd s) \<and> list_all file_name_character s"

definition config_check :: "config_row \<Rightarrow> bool" where
  "config_check c \<longleftrightarrow> chat_id_ok (cf_chat_id c) \<and> token_file_name_ok (cf_token_file_name c) \<and> cf_created_at c \<le> cf_updated_at c"

definition config_key :: "config_row \<Rightarrow> int \<times> string" where
  "config_key c = (cf_chat_id c, cf_token_file_name c)"

definition insert_config :: "routing \<Rightarrow> config_row \<Rightarrow> routing result" where
  "insert_config s c = bind_r (guard_r (config_check c) (IntegrityError ''telegram_destination_configs'')) (\<lambda>_.
     bind_r (guard_r (\<forall>x \<in> set (rt_configs s). config_key x \<noteq> config_key c \<and> cf_destination_id x \<noteq> cf_destination_id c)
       (IntegrityError ''uq_telegram_destination_configs_chat_token_file'')) (\<lambda>_.
     Inr (s\<lparr>rt_configs := rt_configs s @ [c]\<rparr>)))"

definition update_config :: "routing \<Rightarrow> config_row \<Rightarrow> routing result" where
  "update_config s c = bind_r (guard_r (config_check c) (IntegrityError ''telegram_destination_configs'')) (\<lambda>_.
     bind_r (guard_r (\<forall>x \<in> set (rt_configs s). cf_destination_id x \<noteq> cf_destination_id c \<longrightarrow> config_key x \<noteq> config_key c)
       (IntegrityError ''uq_telegram_destination_configs_chat_token_file'')) (\<lambda>_.
     Inr (s\<lparr>rt_configs := update_where (\<lambda>x. cf_destination_id x = cf_destination_id c) (\<lambda>_. c) (rt_configs s)\<rparr>)))"

definition update_destination :: "routing \<Rightarrow> destination_row \<Rightarrow> routing" where
  "update_destination s t = s\<lparr>rt_main := (rt_main s)\<lparr>destinations :=
     update_where (\<lambda>x. de_id x = de_id t) (\<lambda>_. t) (rt_destinations s)\<rparr>\<rparr>"

section \<open>Helpers of the module\<close>

record destination_summary =
  ds_destination_id :: uuid
  ds_adapter_kind :: string
  ds_enabled :: bool
  ds_minimum_severity :: severity
  ds_configured :: bool
  ds_staging_file_ready :: bool
  ds_created_at :: time
  ds_updated_at :: time

definition destination_summary_of :: "(string \<Rightarrow> bool) \<Rightarrow> destination_row \<Rightarrow> config_row option \<Rightarrow> destination_summary" where
  "destination_summary_of ready t config = \<lparr>ds_destination_id = de_id t, ds_adapter_kind = de_adapter_kind t, ds_enabled = de_enabled t,
     ds_minimum_severity = de_minimum_severity t, ds_configured = (config \<noteq> None),
     ds_staging_file_ready = (case config of None \<Rightarrow> False | Some c \<Rightarrow> ready (cf_token_file_name c)),
     ds_created_at = de_created_at t, ds_updated_at = de_updated_at t\<rparr>"

definition validate_chat_id :: "int \<Rightarrow> unit result" where
  "validate_chat_id v = guard_r (chat_id_ok v) (DestinationManagementError ''Telegram chat identifier is invalid.'')"

definition validate_token_file_name :: "string \<Rightarrow> string result" where
  "validate_token_file_name s = bind_r (guard_r (token_file_name_ok s) (ValueError ''Telegram token file name is invalid.'')) (\<lambda>_. Inr s)"

definition load_pair :: "routing \<Rightarrow> uuid \<Rightarrow> (destination_row \<times> config_row option) result" where
  "load_pair s destination_id = (case find_row de_id destination_id (rt_destinations s) of
     None \<Rightarrow> Inl (DestinationManagementError ''Notification destination was not found.'')
   | Some t \<Rightarrow> Inr (t, find_row cf_destination_id destination_id (rt_configs s)))"

definition log_destination_cli :: "routing \<Rightarrow> time \<Rightarrow> string \<Rightarrow> uuid \<Rightarrow> (string \<times> json) list \<Rightarrow> routing result" where
  "log_destination_cli s now action destination_id details =
     bind_r (record_local_cli_action (rt_main s) now action ''notification_destination'' destination_id details) (\<lambda>(d, _).
     Inr (s\<lparr>rt_main := d\<rparr>))"

definition log_destination_operator ::
  "routing \<Rightarrow> time \<Rightarrow> principal \<Rightarrow> string \<Rightarrow> uuid \<Rightarrow> string \<Rightarrow> (string \<times> json) list \<Rightarrow> routing result" where
  "log_destination_operator s now actor action destination_id request_id details =
     bind_r (record_operator_action (rt_main s) now actor action ''notification_destination'' destination_id request_id None details) (\<lambda>(d, _).
     Inr (s\<lparr>rt_main := d\<rparr>))"

definition policy_details :: "destination_row \<Rightarrow> (string \<times> json) list" where
  "policy_details t = [(''adapter_kind'', JStr (de_adapter_kind t)), (''minimum_severity'', JStr (severity_value (de_minimum_severity t)))]"

section \<open>Operations of the local command line\<close>

definition create_telegram_destination ::
  "(string \<Rightarrow> bool) \<Rightarrow> routing \<Rightarrow> time \<Rightarrow> int \<Rightarrow> string \<Rightarrow> severity \<Rightarrow> (routing \<times> destination_summary) result" where
  "create_telegram_destination ready s now chat_id token_file_name minimum_severity =
     bind_r (validate_chat_id chat_id) (\<lambda>_.
     bind_r (validate_token_file_name token_file_name) (\<lambda>name.
     let (did, d) = uuid4 (rt_main s);
         t = \<lparr>de_id = did, de_adapter_kind = ''telegram'', de_enabled = False, de_minimum_severity = minimum_severity,
           de_created_at = now, de_updated_at = now\<rparr>;
         c = \<lparr>cf_destination_id = did, cf_chat_id = chat_id, cf_token_file_name = name, cf_created_at = now, cf_updated_at = now\<rparr> in
     bind_r (insert_config (s\<lparr>rt_main := d\<lparr>destinations := destinations d @ [t]\<rparr>\<rparr>) c) (\<lambda>s1.
     bind_r (log_destination_cli s1 now ''notification_destination.created'' did (policy_details t)) (\<lambda>s2.
     Inr (s2, destination_summary_of ready t (Some c))))))"

text \<open>\<open>ORDER BY created_at, id\<close>, by two stable sorts.\<close>

definition list_notification_destinations :: "(string \<Rightarrow> bool) \<Rightarrow> routing \<Rightarrow> destination_summary list" where
  "list_notification_destinations ready s =
     map (\<lambda>t. destination_summary_of ready t (find_row cf_destination_id (de_id t) (rt_configs s)))
       (sort_key de_created_at (sort_key de_id (rt_destinations s)))"

definition get_notification_destination :: "(string \<Rightarrow> bool) \<Rightarrow> routing \<Rightarrow> uuid \<Rightarrow> destination_summary result" where
  "get_notification_destination ready s destination_id =
     bind_r (load_pair s destination_id) (\<lambda>(t, config). Inr (destination_summary_of ready t config))"

definition set_notification_destination_enabled ::
  "(string \<Rightarrow> bool) \<Rightarrow> routing \<Rightarrow> time \<Rightarrow> uuid \<Rightarrow> bool \<Rightarrow> (routing \<times> destination_summary) result" where
  "set_notification_destination_enabled ready s now destination_id enabled =
     bind_r (load_pair s destination_id) (\<lambda>(t, config).
     bind_r (guard_r (\<not> (enabled \<and> (case config of None \<Rightarrow> True | Some c \<Rightarrow> \<not> ready (cf_token_file_name c))))
       (DestinationManagementError ''Telegram destination staging file is not ready.'')) (\<lambda>_.
     if de_enabled t = enabled then Inr (s, destination_summary_of ready t config)
     else let t' = t\<lparr>de_enabled := enabled, de_updated_at := now\<rparr> in
       bind_r (log_destination_cli (update_destination s t') now
         (if enabled then ''notification_destination.enabled'' else ''notification_destination.disabled'') (de_id t) (policy_details t')) (\<lambda>s1.
       Inr (s1, destination_summary_of ready t' config))))"

definition update_telegram_destination ::
  "(string \<Rightarrow> bool) \<Rightarrow> routing \<Rightarrow> time \<Rightarrow> uuid \<Rightarrow> int option \<Rightarrow> string option \<Rightarrow> severity option
    \<Rightarrow> (routing \<times> destination_summary) result" where
  "update_telegram_destination ready s now destination_id chat_id token_file_name minimum_severity =
     bind_r (guard_r (\<not> (chat_id = None \<and> token_file_name = None \<and> minimum_severity = None))
       (DestinationManagementError ''No destination update was requested.'')) (\<lambda>_.
     bind_r (load_pair s destination_id) (\<lambda>(t, config).
     (case config of
        None \<Rightarrow> Inl (DestinationManagementError ''Telegram destination is not configured.'')
      | Some c \<Rightarrow>
        bind_r (guard_r (de_adapter_kind t = ''telegram'') (DestinationManagementError ''Telegram destination is not configured.'')) (\<lambda>_.
        let proposed_chat_id = (case chat_id of None \<Rightarrow> cf_chat_id c | Some v \<Rightarrow> v) in
        bind_r (case token_file_name of None \<Rightarrow> Inr (cf_token_file_name c) | Some v \<Rightarrow> validate_token_file_name v) (\<lambda>proposed_name.
        bind_r (validate_chat_id proposed_chat_id) (\<lambda>_.
        let proposed_severity = (case minimum_severity of None \<Rightarrow> de_minimum_severity t | Some v \<Rightarrow> v) in
        bind_r (guard_r (\<not> (de_enabled t \<and> \<not> ready proposed_name))
          (DestinationManagementError ''Telegram destination staging file is not ready.'')) (\<lambda>_.
        let t' = t\<lparr>de_minimum_severity := proposed_severity, de_updated_at := now\<rparr>;
            c' = c\<lparr>cf_chat_id := proposed_chat_id, cf_token_file_name := proposed_name, cf_updated_at := now\<rparr> in
        bind_r (update_config (update_destination s t') c') (\<lambda>s1.
        bind_r (log_destination_cli s1 now ''notification_destination.updated'' (de_id t)
          [(''adapter_kind'', JStr (de_adapter_kind t)), (''from_minimum_severity'', JStr (severity_value (de_minimum_severity t))),
           (''to_minimum_severity'', JStr (severity_value proposed_severity)), (''chat_id_changed'', JBool (cf_chat_id c \<noteq> proposed_chat_id)),
           (''token_file_changed'', JBool (cf_token_file_name c \<noteq> proposed_name))]) (\<lambda>s2.
        Inr (s2, destination_summary_of ready t' (Some c')))))))))))"

section \<open>Operations of the dashboard\<close>

definition disable_notification_destination_by_operator ::
  "routing \<Rightarrow> time \<Rightarrow> principal \<Rightarrow> uuid \<Rightarrow> string \<Rightarrow> (routing \<times> destination_summary) result" where
  "disable_notification_destination_by_operator s now actor destination_id request_id =
     bind_r (load_pair s destination_id) (\<lambda>(t, config).
     bind_r (guard_r (de_adapter_kind t = ''telegram'') (DestinationManagementError ''Telegram destination is not configured.'')) (\<lambda>_.
     if \<not> de_enabled t then Inr (s, destination_summary_of (\<lambda>_. False) t config)
     else let t' = t\<lparr>de_enabled := False, de_updated_at := now\<rparr> in
       bind_r (log_destination_operator (update_destination s t') now actor ''notification_destination.disabled_by_operator''
         (de_id t) request_id (policy_details t')) (\<lambda>s1.
       Inr (s1, destination_summary_of (\<lambda>_. False) t' config))))"

definition update_notification_destination_severity_by_operator ::
  "routing \<Rightarrow> time \<Rightarrow> principal \<Rightarrow> uuid \<Rightarrow> severity \<Rightarrow> string \<Rightarrow> (routing \<times> destination_summary) result" where
  "update_notification_destination_severity_by_operator s now actor destination_id minimum_severity request_id =
     bind_r (load_pair s destination_id) (\<lambda>(t, config).
     bind_r (guard_r (de_adapter_kind t = ''telegram'') (DestinationManagementError ''Telegram destination is not configured.'')) (\<lambda>_.
     if de_minimum_severity t = minimum_severity then Inr (s, destination_summary_of (\<lambda>_. False) t config)
     else let t' = t\<lparr>de_minimum_severity := minimum_severity, de_updated_at := now\<rparr> in
       bind_r (log_destination_operator (update_destination s t') now actor
         ''notification_destination.minimum_severity_changed_by_operator'' (de_id t) request_id
         [(''adapter_kind'', JStr (de_adapter_kind t)), (''from_minimum_severity'', JStr (severity_value (de_minimum_severity t))),
          (''to_minimum_severity'', JStr (severity_value minimum_severity))]) (\<lambda>s1.
       Inr (s1, destination_summary_of (\<lambda>_. False) t' config))))"

section \<open>The invariant\<close>

definition routing_inv :: "routing \<Rightarrow> bool" where
  "routing_inv s \<longleftrightarrow> audit_inv (rt_main s) \<and> distinct (map de_id (rt_destinations s))
     \<and> (\<forall>t \<in> set (rt_destinations s). de_id t < next_uuid (rt_main s) \<and> de_adapter_kind t = ''telegram''
          \<and> (de_enabled t \<longrightarrow> de_id t \<in> cf_destination_id ` set (rt_configs s)))
     \<and> distinct (map cf_destination_id (rt_configs s)) \<and> distinct (map config_key (rt_configs s))
     \<and> (\<forall>c \<in> set (rt_configs s). config_check c \<and> cf_destination_id c \<in> de_id ` set (rt_destinations s))"

text \<open>What a change of the routing may do, with the staged files it was told of.\<close>

definition enabled_with_file :: "routing \<Rightarrow> uuid \<Rightarrow> string \<Rightarrow> bool" where
  "enabled_with_file s k file \<longleftrightarrow> (\<exists>t \<in> set (rt_destinations s). de_id t = k \<and> de_enabled t)
     \<and> (\<exists>c \<in> set (rt_configs s). cf_destination_id c = k \<and> cf_token_file_name c = file)"

definition routing_change :: "(string \<Rightarrow> bool) \<Rightarrow> routing \<Rightarrow> routing \<Rightarrow> bool" where
  "routing_change ready s s' \<longleftrightarrow> routing_inv s'
     \<and> (\<forall>k file. enabled_with_file s' k file \<longrightarrow> ready file \<or> enabled_with_file s k file)
     \<and> (s' = s \<or> (\<exists>e. audit_log (rt_main s') = audit_log (rt_main s) @ [e]))"

lemma routing_change_refl: "routing_inv s \<Longrightarrow> routing_change ready s s"
  by (simp add: routing_change_def)

lemma routing_logged:
  assumes "routing_inv s1" "audit_check e" "au_id e = next_uuid (rt_main s1)" "au_history_id e = None"
  shows "routing_inv (s1\<lparr>rt_main := logged (rt_main s1) e\<rparr>)"
proof -
  have "audit_inv (logged (rt_main s1) e)"
    by (rule audit_inv_logged) (use assms in \<open>simp_all add: routing_inv_def\<close>)
  then show ?thesis using assms(1) by (auto simp: routing_inv_def logged_def less_Suc_eq)
qed

lemma log_destination_cli_Inr:
  assumes "log_destination_cli s1 now action k details = Inr s'" "routing_inv s1"
  shows "routing_inv s' \<and> rt_configs s' = rt_configs s1 \<and> rt_destinations s' = rt_destinations s1
    \<and> (\<exists>e. audit_log (rt_main s') = audit_log (rt_main s1) @ [e])"
proof -
  from assms(1) obtain d e where r: "record_local_cli_action (rt_main s1) now action ''notification_destination'' k details = Inr (d, e)"
    "s' = s1\<lparr>rt_main := d\<rparr>" by (auto simp: log_destination_cli_def bind_r_eq_Inr)
  note l = record_local_cli_action_Inr [OF r(1)]
  show ?thesis using routing_logged [OF assms(2) l(2,3,6)] by (simp add: r(2) l(1))
qed

lemma log_destination_operator_Inr:
  assumes "log_destination_operator s1 now actor action k request_id details = Inr s'" "routing_inv s1"
  shows "routing_inv s' \<and> rt_configs s' = rt_configs s1 \<and> rt_destinations s' = rt_destinations s1
    \<and> (\<exists>e. audit_log (rt_main s') = audit_log (rt_main s1) @ [e])"
proof -
  from assms(1) obtain d e where r: "record_operator_action (rt_main s1) now actor action ''notification_destination'' k request_id None details = Inr (d, e)"
    "s' = s1\<lparr>rt_main := d\<rparr>" by (auto simp: log_destination_operator_def bind_r_eq_Inr)
  note l = record_operator_action_Inr [OF r(1)]
  show ?thesis using routing_logged [OF assms(2) l(2,3,6)] by (simp add: r(2) l(1))
qed

lemma logged_change:
  assumes "routing_inv s' \<and> rt_configs s' = rt_configs s1 \<and> rt_destinations s' = rt_destinations s1
    \<and> (\<exists>e. audit_log (rt_main s') = audit_log (rt_main s1) @ [e])" "audit_log (rt_main s1) = audit_log (rt_main s)"
    "\<And>k file. enabled_with_file s1 k file \<Longrightarrow> ready file \<or> enabled_with_file s k file"
  shows "routing_change ready s s'"
  using assms by (auto simp: routing_change_def enabled_with_file_def)

lemma load_pair_Inr:
  assumes "load_pair s k = Inr (t, config)" "routing_inv s"
  shows "t \<in> set (rt_destinations s)" "de_id t = k" "de_adapter_kind t = ''telegram''"
    "\<And>c. config = Some c \<Longrightarrow> c \<in> set (rt_configs s) \<and> cf_destination_id c = k"
    "\<And>x. x \<in> set (rt_destinations s) \<Longrightarrow> de_id x = k \<Longrightarrow> x = t"
    "\<And>c x. config = Some c \<Longrightarrow> x \<in> set (rt_configs s) \<Longrightarrow> cf_destination_id x = k \<Longrightarrow> x = c"
proof -
  have t: "find_row de_id k (rt_destinations s) = Some t" "config = find_row cf_destination_id k (rt_configs s)"
    using assms(1) by (auto simp: load_pair_def split: option.split_asm)
  show 1: "t \<in> set (rt_destinations s)" "de_id t = k" using find_row_SomeD [OF t(1)] by simp_all
  then show "de_adapter_kind t = ''telegram''" using assms(2) by (simp add: routing_inv_def)
  show "c \<in> set (rt_configs s) \<and> cf_destination_id c = k" if "config = Some c" for c using find_row_SomeD t(2) that by fastforce
  then show "x = c" if "config = Some c" "x \<in> set (rt_configs s)" "cf_destination_id x = k" for c x
    using that assms(2) key_inj_rows [of cf_destination_id "rt_configs s" x c] by (auto simp: routing_inv_def)
  show "x = t" if "x \<in> set (rt_destinations s)" "de_id x = k" for x
    using that 1 assms(2) key_inj_rows [of de_id "rt_destinations s" x t] by (auto simp: routing_inv_def)
qed

lemma update_destination_inv:
  assumes "routing_inv s" "t \<in> set (rt_destinations s)" "de_id t' = de_id t" "de_adapter_kind t' = ''telegram''"
    "de_enabled t' \<Longrightarrow> de_id t \<in> cf_destination_id ` set (rt_configs s)"
  shows "routing_inv (update_destination s t')"
proof -
  let ?f = "update_where (\<lambda>x. de_id x = de_id t') (\<lambda>_. t') (rt_destinations s)"
  have ids: "map de_id ?f = map de_id (rt_destinations s)" by (rule map_update_where) simp
  have set_ids: "de_id ` set ?f = de_id ` set (rt_destinations s)" using arg_cong [OF ids, of set] by simp
  have rows: "\<forall>x \<in> set ?f. de_id x < next_uuid (rt_main s) \<and> de_adapter_kind x = ''telegram''
      \<and> (de_enabled x \<longrightarrow> de_id x \<in> cf_destination_id ` set (rt_configs s))"
    using assms unfolding set_update_where routing_inv_def by (auto split: if_splits)
  have "audit_inv ((rt_main s)\<lparr>destinations := ?f\<rparr>)"
    using audit_inv_cong [of "(rt_main s)\<lparr>destinations := ?f\<rparr>" "rt_main s"] assms(1) by (simp add: routing_inv_def)
  then show ?thesis using assms(1) ids set_ids rows unfolding routing_inv_def update_destination_def by simp
qed

text \<open>Replacing one row keeps a unique key when no other row has the new one.\<close>

lemma distinct_update_row:
  assumes "distinct (map key rows)" "distinct (map i rows)" "\<And>x. x \<in> set rows \<Longrightarrow> i x \<noteq> i c \<Longrightarrow> key x \<noteq> key c"
  shows "distinct (map key (update_where (\<lambda>x. i x = i c) (\<lambda>_. c) rows))"
  using assms
proof (induction rows)
  case (Cons r rows)
  then show ?case
    by (cases "i r = i c") (auto simp: update_where_def image_iff split: if_splits, blast)
qed (simp add: update_where_def)

lemma update_config_Inr:
  assumes "update_config s c' = Inr s'" "routing_inv s" "c \<in> set (rt_configs s)" "cf_destination_id c' = cf_destination_id c"
  shows "routing_inv s'" "rt_main s' = rt_main s"
    "rt_configs s' = update_where (\<lambda>x. cf_destination_id x = cf_destination_id c) (\<lambda>_. c') (rt_configs s)"
proof -
  let ?f = "update_where (\<lambda>x. cf_destination_id x = cf_destination_id c) (\<lambda>_. c') (rt_configs s)"
  from assms(1,4) have ok: "config_check c'" "s' = s\<lparr>rt_configs := ?f\<rparr>"
    and free: "\<And>x. x \<in> set (rt_configs s) \<Longrightarrow> cf_destination_id x \<noteq> cf_destination_id c' \<Longrightarrow> config_key x \<noteq> config_key c'"
    by (auto simp: update_config_def bind_r_eq_Inr)
  have ids: "map cf_destination_id ?f = map cf_destination_id (rt_configs s)" by (rule map_update_where) (simp add: assms(4))
  have set_ids: "cf_destination_id ` set ?f = cf_destination_id ` set (rt_configs s)" using arg_cong [OF ids, of set] by simp
  have "distinct (map config_key ?f)"
    using distinct_update_row [of config_key "rt_configs s" cf_destination_id c'] assms(2,4) free by (simp add: routing_inv_def)
  moreover have "\<forall>x \<in> set ?f. config_check x \<and> cf_destination_id x \<in> de_id ` set (rt_destinations s)"
    using assms(2-4) ok(1) unfolding set_update_where routing_inv_def by auto
  ultimately show "routing_inv s'" using assms(2) ids set_ids unfolding ok(2) routing_inv_def by simp
  show "rt_main s' = rt_main s" "rt_configs s' = ?f" by (simp_all add: ok(2))
qed

lemma update_destination_simps [simp]:
  "rt_configs (update_destination s t) = rt_configs s" "audit_log (rt_main (update_destination s t)) = audit_log (rt_main s)"
  "rt_destinations (update_destination s t) = update_where (\<lambda>x. de_id x = de_id t) (\<lambda>_. t) (rt_destinations s)"
  by (simp_all add: update_destination_def)

lemma create_telegram_destination_change:
  assumes "create_telegram_destination ready s now chat name sev = Inr (s', r)" "routing_inv s"
  shows "routing_change ready s s'"
proof -
  define t where "t = \<lparr>de_id = next_uuid (rt_main s), de_adapter_kind = ''telegram'', de_enabled = False,
    de_minimum_severity = sev, de_created_at = now, de_updated_at = now\<rparr>"
  define c where "c = \<lparr>cf_destination_id = next_uuid (rt_main s), cf_chat_id = chat, cf_token_file_name = name,
    cf_created_at = now, cf_updated_at = now\<rparr>"
  define d where "d = (rt_main s)\<lparr>next_uuid := Suc (next_uuid (rt_main s)), destinations := rt_destinations s @ [t]\<rparr>"
  from assms(1) obtain s1 where s1: "insert_config (s\<lparr>rt_main := d\<rparr>) c = Inr s1"
    and log: "log_destination_cli s1 now ''notification_destination.created'' (next_uuid (rt_main s)) (policy_details t) = Inr s'"
    by (auto simp: create_telegram_destination_def bind_r_eq_Inr uuid4_def validate_token_file_name_def Let_def t_def c_def d_def)
  from s1 have new: "s1 = s\<lparr>rt_main := d, rt_configs := rt_configs s @ [c]\<rparr>" and ok: "config_check c"
    and fresh: "\<forall>x \<in> set (rt_configs s). config_key x \<noteq> config_key c \<and> cf_destination_id x \<noteq> cf_destination_id c"
    by (auto simp: insert_config_def bind_r_eq_Inr)
  have "audit_inv d" using audit_inv_cong [of d "rt_main s"] assms(2) by (simp add: routing_inv_def d_def)
  moreover have "distinct (map de_id (destinations d))" using assms(2) by (auto simp: routing_inv_def d_def t_def)
  moreover have "distinct (map cf_destination_id (rt_configs s1)) \<and> distinct (map config_key (rt_configs s1))"
    using assms(2) fresh by (auto simp: new routing_inv_def)
  ultimately have "routing_inv s1" using assms(2) ok unfolding routing_inv_def new d_def t_def c_def
    by (simp add: less_Suc_eq)
  moreover have old: "\<forall>x \<in> set (rt_destinations s). de_id x \<noteq> next_uuid (rt_main s)"
    using assms(2) unfolding routing_inv_def by fastforce
  ultimately show ?thesis
    by (intro logged_change [OF log_destination_cli_Inr [OF log]])
      (use old in \<open>auto simp: new d_def enabled_with_file_def t_def c_def\<close>)
qed


lemma enabled_with_file_updatedE:
  assumes "enabled_with_file (update_destination s t') k file" "de_id t' = de_id t"
  obtains x c where "x \<in> set (rt_destinations s)" "de_id x = k" "de_enabled (if de_id x = de_id t then t' else x)"
    "c \<in> set (rt_configs s)" "cf_destination_id c = k" "cf_token_file_name c = file"
  using assms unfolding enabled_with_file_def update_destination_simps set_update_where
  by (auto split: if_split_asm)

lemma set_enabled_change:
  assumes "set_notification_destination_enabled ready s now k enabled = Inr (s', r)" "routing_inv s"
  shows "routing_change ready s s'"
proof -
  from assms(1) obtain t config where l: "load_pair s k = Inr (t, config)"
    and g: "\<not> (enabled \<and> (case config of None \<Rightarrow> True | Some c \<Rightarrow> \<not> ready (cf_token_file_name c)))"
    by (auto simp: set_notification_destination_enabled_def bind_r_eq_Inr)
  note p = load_pair_Inr [OF l assms(2)]
  define t' where "t' = t\<lparr>de_enabled := enabled, de_updated_at := now\<rparr>"
  show ?thesis
  proof (cases "de_enabled t = enabled")
    case True
    then have "s' = s" using assms(1) l g by (simp add: set_notification_destination_enabled_def)
    then show ?thesis using assms(2) by (simp add: routing_change_refl)
  next
    case False
    then obtain action where log: "log_destination_cli (update_destination s t') now action (de_id t) (policy_details t') = Inr s'"
      using assms(1) l g by (auto simp: set_notification_destination_enabled_def bind_r_eq_Inr Let_def t'_def)
    have "de_id t \<in> cf_destination_id ` set (rt_configs s)" if on: "de_enabled t'"
    proof -
      obtain c where "config = Some c" using g on by (cases config) (auto simp: t'_def)
      then show ?thesis using p(4) [of c] p(2) by force
    qed
    then have inv: "routing_inv (update_destination s t')"
      by (intro update_destination_inv [OF assms(2) p(1)]) (simp_all add: t'_def p(3))
    have "ready name \<or> enabled_with_file s k' name" if on: "enabled_with_file (update_destination s t') k' name" for k' name
    proof -
      have t': "de_id t' = de_id t" by (simp add: t'_def)
      from on obtain x c where x: "x \<in> set (rt_destinations s)" "de_id x = k'" "de_enabled (if de_id x = de_id t then t' else x)"
        and c: "c \<in> set (rt_configs s)" "cf_destination_id c = k'" "cf_token_file_name c = name"
        by (rule enabled_with_file_updatedE [OF _ t'])
      show ?thesis
      proof (cases "k' = k")
        case True
        then have "x = t" "de_enabled t'" using x p(2) p(5) [OF x(1)] by simp_all
        then obtain c' where "config = Some c'" "ready (cf_token_file_name c')"
          using g by (auto simp: t'_def split: option.splits)
        moreover from this have "c' = c" using p(6) [of c' c] c True by simp
        ultimately show ?thesis using c(3) by simp
      qed (use x c p(2) in \<open>auto simp: enabled_with_file_def\<close>)
    qed
    then show ?thesis by (intro logged_change [OF log_destination_cli_Inr [OF log inv]]) simp_all
  qed
qed

lemma update_telegram_destination_change:
  assumes "update_telegram_destination ready s now k chat name sev = Inr (s', r)" "routing_inv s"
  shows "routing_change ready s s'"
proof -
  define sev' where "sev' t = (case sev of None \<Rightarrow> de_minimum_severity t | Some v \<Rightarrow> v)" for t :: destination_row
  define chat' where "chat' c = (case chat of None \<Rightarrow> cf_chat_id c | Some v \<Rightarrow> v)" for c :: config_row
  from assms(1) obtain t config where l': "load_pair s k = Inr (t, config)"
    by (auto simp: update_telegram_destination_def bind_r_eq_Inr)
  with assms(1) obtain c where l: "load_pair s k = Inr (t, Some c)"
    by (cases config) (simp_all add: update_telegram_destination_def bind_r_eq_Inr)
  define t' where "t' = t\<lparr>de_minimum_severity := sev' t, de_updated_at := now\<rparr>"
  obtain name' s1 details where kind: "de_adapter_kind t = ''telegram''" and g: "de_enabled t \<longrightarrow> ready name'"
    and s1: "update_config (update_destination s t') (c\<lparr>cf_chat_id := chat' c, cf_token_file_name := name', cf_updated_at := now\<rparr>) = Inr s1"
    and log: "log_destination_cli s1 now ''notification_destination.updated'' (de_id t) details = Inr s'"
    using assms(1) by (simp add: update_telegram_destination_def bind_r_eq_Inr Let_def l t'_def
        flip: sev'_def chat'_def) metis
  define c' where "c' = c\<lparr>cf_chat_id := chat' c, cf_token_file_name := name', cf_updated_at := now\<rparr>"
  have t': "de_id t' = de_id t" "de_enabled t' = de_enabled t" "de_adapter_kind t' = ''telegram''"
    and c': "cf_destination_id c' = cf_destination_id c" "cf_token_file_name c' = name'"
    by (simp_all add: t'_def c'_def kind)
  note s1 = s1 [folded c'_def]
  note p = load_pair_Inr [OF l assms(2)]
  have c: "c \<in> set (rt_configs s)" "cf_destination_id c = k" using p(4) [OF refl] by auto
  have "routing_inv (update_destination s t')"
    by (rule update_destination_inv [OF assms(2) p(1) t'(1,3)]) (use c p(2) in force)
  note u = update_config_Inr [OF s1 this, of c, unfolded update_destination_simps, OF c(1) c'(1)]
  have "ready nm \<or> enabled_with_file s k' nm" if on: "enabled_with_file s1 k' nm" for k' nm
  proof (cases "k' = k")
    case True
    with on c c' have "name' = nm"
      unfolding enabled_with_file_def u(3) set_update_where by (auto split: if_split_asm)
    moreover have "de_enabled t"
    proof -
      from on obtain x where "x \<in> set (rt_destinations (update_destination s t'))" "de_id x = k" "de_enabled x"
        using True u(2) by (auto simp: enabled_with_file_def)
      then show ?thesis using p(2) p(5) t' by (auto simp: set_update_where split: if_split_asm)
    qed
    ultimately show ?thesis using g by simp
  next
    case False
    with on c c' p(2) t' have "enabled_with_file s k' nm"
      unfolding enabled_with_file_def u(2,3) update_destination_simps set_update_where by (auto split: if_split_asm)
    then show ?thesis by simp
  qed
  then show ?thesis by (intro logged_change [OF log_destination_cli_Inr [OF log u(1)]]) (simp_all add: u(2))
qed

text \<open>The two operations of the dashboard keep the configurations and enable nothing.\<close>

lemma update_enables_nothing:
  assumes "t \<in> set (rt_destinations s)" "de_id t' = de_id t" "de_enabled t' \<Longrightarrow> de_enabled t"
    "enabled_with_file (update_destination s t') k file"
  shows "enabled_with_file s k file"
  using assms unfolding enabled_with_file_def by (auto simp: set_update_where split: if_splits)

lemma operator_change:
  assumes l: "load_pair s k = Inr (t, config)" and inv: "routing_inv s"
    and t': "de_id t' = de_id t" "de_adapter_kind t' = de_adapter_kind t" "de_enabled t' \<Longrightarrow> de_enabled t"
    and log: "log_destination_operator (update_destination s t') now actor action k' request_id details = Inr s'"
  shows "routing_change (\<lambda>_. False) s s' \<and> rt_configs s' = rt_configs s"
proof -
  note p = load_pair_Inr [OF l inv]
  have "routing_inv (update_destination s t')"
    by (rule update_destination_inv [OF inv p(1)]) (use t' p(1,3) inv in \<open>auto simp: routing_inv_def\<close>)
  note logd = log_destination_operator_Inr [OF log this]
  have "routing_change (\<lambda>_. False) s s'"
    by (rule logged_change [OF logd]) (use update_enables_nothing [OF p(1) t'(1,3)] in auto)
  then show ?thesis using logd by simp
qed

lemma disable_by_operator_change:
  assumes "disable_notification_destination_by_operator s now actor k request_id = Inr (s', r)" "routing_inv s"
  shows "routing_change (\<lambda>_. False) s s' \<and> rt_configs s' = rt_configs s"
proof -
  from assms(1) obtain t config where l: "load_pair s k = Inr (t, config)" and k: "de_adapter_kind t = ''telegram''"
    by (auto simp: disable_notification_destination_by_operator_def bind_r_eq_Inr)
  define t' where "t' = t\<lparr>de_enabled := False, de_updated_at := now\<rparr>"
  show ?thesis
  proof (cases "de_enabled t")
    case True
    then have log: "log_destination_operator (update_destination s t') now actor ''notification_destination.disabled_by_operator''
        (de_id t) request_id (policy_details t') = Inr s'"
      using assms(1) l k by (auto simp: disable_notification_destination_by_operator_def bind_r_eq_Inr Let_def t'_def)
    show ?thesis by (rule operator_change [OF l assms(2) _ _ _ log]) (simp_all add: t'_def)
  next
    case False
    then show ?thesis using assms l k
      by (auto simp: disable_notification_destination_by_operator_def routing_change_refl)
  qed
qed

lemma severity_by_operator_change:
  assumes "update_notification_destination_severity_by_operator s now actor k sev request_id = Inr (s', r)" "routing_inv s"
  shows "routing_change (\<lambda>_. False) s s' \<and> rt_configs s' = rt_configs s"
proof -
  from assms(1) obtain t config where l: "load_pair s k = Inr (t, config)" and k: "de_adapter_kind t = ''telegram''"
    by (auto simp: update_notification_destination_severity_by_operator_def bind_r_eq_Inr)
  define t' where "t' = t\<lparr>de_minimum_severity := sev, de_updated_at := now\<rparr>"
  show ?thesis
  proof (cases "de_minimum_severity t = sev")
    case False
    then obtain details where log: "log_destination_operator (update_destination s t') now actor
        ''notification_destination.minimum_severity_changed_by_operator'' (de_id t) request_id details = Inr s'"
      using assms(1) l k by (auto simp: update_notification_destination_severity_by_operator_def bind_r_eq_Inr Let_def t'_def)
    show ?thesis by (rule operator_change [OF l assms(2) _ _ _ log]) (simp_all add: t'_def)
  next
    case True
    then show ?thesis using assms l k
      by (auto simp: update_notification_destination_severity_by_operator_def routing_change_refl)
  qed
qed

section \<open>Runs\<close>

text \<open>A transaction is labelled with its caller and with the token files that were staged when it asked.\<close>

datatype caller = Local_Cli | Dashboard

inductive routing_step :: "caller \<Rightarrow> (string \<Rightarrow> bool) \<Rightarrow> routing \<Rightarrow> routing \<Rightarrow> bool" where
  create: "create_telegram_destination ready s now chat name sev = Inr (s', r) \<Longrightarrow> routing_step Local_Cli ready s s'"
| switch: "set_notification_destination_enabled ready s now k on = Inr (s', r) \<Longrightarrow> routing_step Local_Cli ready s s'"
| reroute: "update_telegram_destination ready s now k new_chat new_name new_sev = Inr (s', r) \<Longrightarrow> routing_step Local_Cli ready s s'"
| disable: "disable_notification_destination_by_operator s now actor k request_id = Inr (s', r) \<Longrightarrow> routing_step Dashboard ready s s'"
| threshold: "update_notification_destination_severity_by_operator s now actor k sev request_id = Inr (s', r)
    \<Longrightarrow> routing_step Dashboard ready s s'"

lemma routing_step_change:
  assumes "routing_step caller ready s s'" "routing_inv s"
  shows "routing_change ready s s' \<and> (caller = Dashboard \<longrightarrow> routing_change (\<lambda>_. False) s s' \<and> rt_configs s' = rt_configs s)"
  using assms
proof (cases rule: routing_step.cases)
  case (disable now actor k request_id r)
  from disable_by_operator_change [OF disable(2) assms(2)] show ?thesis by (auto simp: routing_change_def)
next
  case (threshold now actor k sev request_id r)
  from severity_by_operator_change [OF threshold(2) assms(2)] show ?thesis by (auto simp: routing_change_def)
qed (auto intro: create_telegram_destination_change set_enabled_change update_telegram_destination_change)

definition routed :: "routing \<Rightarrow> routing \<Rightarrow> bool" where
  "routed s s' \<longleftrightarrow> (\<exists>caller ready. routing_step caller ready s s')"

interpretation destinations: step_system routed routing_inv
  by unfold_locales (use routing_step_change in \<open>fastforce simp: routed_def routing_change_def\<close>)

text \<open>C15: A destination delivers only through a staged token file. After any sequence of transactions from a
  consistent state, the next one keeps the tables consistent (an enabled destination has a configuration with a valid
  chat and file name). A destination enabled with a token file after it was enabled with that file before, or the
  command line saw the file staged in this transaction. The dashboard enables no destination with any file it was not
  enabled with and leaves every configuration as it is. A transaction that changes anything appends one audit
  record.\<close>

theorem enabled_destinations_are_ready:
  assumes "routed\<^sup>*\<^sup>* s0 s" "routing_inv s0" "routing_step caller ready s s'"
  shows "routing_inv s'
    \<and> (\<forall>k name. enabled_with_file s' k name \<longrightarrow> enabled_with_file s k name \<or> caller = Local_Cli \<and> ready name)
    \<and> (caller = Dashboard \<longrightarrow> rt_configs s' = rt_configs s)
    \<and> (s' = s \<or> (\<exists>e. audit_log (rt_main s') = audit_log (rt_main s) @ [e]))"
proof -
  have "routing_inv s" by (rule destinations.ok_steps [OF assms(1,2)])
  note change = routing_step_change [OF assms(3) this]
  have "enabled_with_file s k name \<or> caller = Local_Cli \<and> ready name" if "enabled_with_file s' k name" for k name
    using change that by (cases caller) (auto simp: routing_change_def)
  with change show ?thesis by (simp add: routing_change_def)
qed

theorem enabled_destinations_are_ready_witness:
  "let s0 = \<lparr>rt_main = db_empty, rt_configs = []\<rparr>;
       s1 = fst (projr (create_telegram_destination (\<lambda>_. True) s0 5 7 ''bot'' Medium));
       s2 = fst (projr (set_notification_destination_enabled (\<lambda>f. f = ''bot'') s1 6 1 True))
   in enabled_with_file s2 1 ''bot'' \<and> \<not> enabled_with_file s1 1 ''bot'' \<and> routing_inv s2"
proof -
  let ?s0 = "\<lparr>rt_main = db_empty, rt_configs = []\<rparr> :: routing"
  let ?r1 = "create_telegram_destination (\<lambda>_. True) ?s0 5 7 ''bot'' Medium"
  let ?s1 = "fst (projr ?r1)"
  let ?r2 = "set_notification_destination_enabled (\<lambda>f. f = ''bot'') ?s1 6 1 True"
  have run: "\<not> isl ?r1 \<and> \<not> isl ?r2 \<and> enabled_with_file (fst (projr ?r2)) 1 ''bot'' \<and> \<not> enabled_with_file ?s1 1 ''bot''"
    by code_simp
  have ok: "routing_inv ?s0" by (simp add: routing_inv_def audit_inv_def audit_unique_def db_empty_def)
  have "?r1 = Inr (?s1, snd (projr ?r1))" "?r2 = Inr (fst (projr ?r2), snd (projr ?r2))"
    using run by (metis prod.collapse sum.collapse(2))+
  then have steps: "routing_step Local_Cli (\<lambda>_. True) ?s0 ?s1" "routing_step Local_Cli (\<lambda>f. f = ''bot'') ?s1 (fst (projr ?r2))"
    by (metis create, metis switch)
  have "routed\<^sup>*\<^sup>* ?s0 ?s1" by (rule r_into_rtranclp) (use steps(1) in \<open>auto simp: routed_def\<close>)
  from enabled_destinations_are_ready [OF this ok steps(2)] show ?thesis using run by (simp add: Let_def)
qed

end
