(* ===== verification/Spec2Isabelle.thy ===== *)
theory Spec2Isabelle
  imports Incident_Comments Outbox_Leases Detection Rule_Sync Delivery_System Operator_Sessions Ip_Blocks Telegram_Poller
    File_Integrity Followed_File Destinations
begin

text \<open>
  Woland Guard watches servers. An agent (\<open>src/apps/agent\<close>) reads journals and log files, turns records into
  security events, keeps them in a durable queue and delivers them. A control plane (\<open>src/apps/control-plane\<close>)
  authenticates agents, stores events exactly once, detects incidents by rules, lets operators work on incidents
  through a dashboard, an API and Telegram, and notifies destinations through an outbox. This development
  models the services behind these interfaces, each operation as a function on explicit tables, and proves what
  the interfaces rely on. Below, paths are relative to \<open>src\<close>; \<open>CP\<close> is
  \<open>apps/control-plane/src/woland_guard_control_plane\<close> and \<open>AG\<close> is \<open>apps/agent/src/woland_guard_agent\<close>.

  Conventions. An exception is a value of \<open>exn\<close>, a fallible function returns \<open>'a result\<close>, the sum of both.
  A transaction is a function on the tables it may touch; a function that fails leaves the tables of its caller,
  which is the roll back of \<open>session.begin\<close>. Tables are lists of rows in the order of insertion, with one record
  per model class of \<open>CP/infrastructure/database/models\<close>; \<open>CHECK\<close> constraints and unique indexes are tests at the
  insertion and raise \<open>IntegrityError\<close>. Identifiers (\<open>uuid\<close>) are natural numbers below \<open>2 ^ 128\<close> in their canonical
  text, and the next one a database hands out is a counter, since all the code relies on is that they are fresh.
  Times are integers of microseconds, seconds of clocks and configuration are rationals, integers of Python are
  \<open>int\<close>, addresses are words of 32 and 128 bits. Strings of the protocol are \<open>string\<close>, texts of users are lists of
  code points (\<open>ustring\<close>). What the code takes from elsewhere is an argument: SHA-256, random bytes,
  clocks, the Unicode character database, the readers and writers of pydantic and YAML, HTTP clients and adapters.

  Theories and what they model:

  \<^item> \<open>Guard_Prelude\<close>, \<open>Json\<close>, \<open>Unicode_Text\<close>, \<open>Uuid_Text\<close>, \<open>Ip_Address\<close>: results, tables as lists, decimal, hexadecimal and
    UUID text and its readers, canonical JSON, Python's equality of JSON values, validation of user text,
    \<open>ipaddress\<close> as the code uses it. \<open>Step_Systems\<close> holds the interfaces of the state machines: \<open>step_system\<close> (an
    invariant every step keeps) and \<open>forward_system\<close> (an order in which states only move forward).
  \<^item> \<open>Database\<close>, \<open>Audit_Log\<close> (\<open>CP/application/audit.py\<close>), \<open>Idempotency\<close> (\<open>operator_idempotency.py\<close>, with the interface
    \<open>idempotent_operation\<close>): the tables shared by the services, the closed registry of audit actions, stored
    outcomes of requests.
  \<^item> \<open>Incident_Workflow\<close> (\<open>incident_workflow.py\<close>) and \<open>Incident_Comments\<close> (\<open>incident_comments.py\<close>): transitions of incidents
    under optimistic locks and idempotency keys, and comments. Both interpret \<open>idempotent_operation\<close>. Histories
    replay to the rows, every request is answered, with the exact change of every table on every branch, one writer
    wins, retries replay.
  \<^item> \<open>Outbox\<close> (\<open>outbox.py\<close>), \<open>Outbox_Worker\<close> (\<open>outbox_worker.py\<close>), \<open>Outbox_Leases\<close>: enqueueing of notifications, claims,
    deliveries, retries, recovery and requeueing; any number of workers as the steps of one machine, which
    interprets \<open>lease_tokens\<close> and \<open>forward_system\<close>.
  \<^item> \<open>Rules\<close>, \<open>Rule_Evaluation\<close>, \<open>Detection\<close>, \<open>Rule_Sync\<close> (\<open>CP/application/detection\<close>): rule definitions and their loading,
    the four kinds of rules, the persistence of matches, the activation of versions. A sequence rule is compared
    with its declarative meaning, evidence is shown sound, a run of detection has exactly the effect of its matches
    (\<open>detection_hits\<close>), the synchronisation meets its contract.
  \<^item> \<open>Event_Contract\<close> (\<open>packages/contracts\<close>), \<open>Agent_Access\<close> (\<open>agent_keys.py\<close>, \<open>authentication.py\<close>, \<open>provisioning.py\<close>), \<open>Rate_Limit\<close>,
    \<open>Ingest\<close> (\<open>api/routes/events.py\<close>, \<open>event_repository.py\<close>): the request that stores a batch.
  \<^item> \<open>Agent_Spool\<close>, \<open>Agent_Delivery\<close>, \<open>Agent_Service\<close> (\<open>AG/spool.py\<close>, \<open>transport.py\<close>, \<open>delivery.py\<close>, \<open>service.py\<close>): the durable queue
    of the agent, the policy of deliveries, the collection of records. \<open>Delivery_System\<close> joins them with \<open>Ingest\<close>
    across a network that loses messages and an agent that crashes.
  \<^item> \<open>Rbac\<close>, \<open>Web_Tokens\<close>, \<open>Operator_Access\<close>, \<open>Operator_Sessions\<close> (\<open>rbac.py\<close>, \<open>operator_keys.py\<close>, \<open>operators.py\<close>,
    \<open>operator_authentication.py\<close>, \<open>web_sessions.py\<close>): operators, keys and browser sessions as one state machine.
  \<^item> \<open>Ip_Blocks\<close> (\<open>ip_block_policy.py\<close>, \<open>ip_blocks.py\<close>): the closed policy of targets and the life of plans.
  \<^item> \<open>Telegram_Identity\<close>, \<open>Telegram_Callbacks\<close>, \<open>Telegram_Router\<close>, \<open>Telegram_Updates\<close>, \<open>Telegram_Inbox\<close>, \<open>Telegram_Poller\<close>
    (\<open>telegram_identity.py\<close>, \<open>CP/telegram_bot\<close>, \<open>CP/infrastructure/telegram\<close>): linked accounts, buttons, the router, exactly
    what one update can do (\<open>button_did\<close>, \<open>message_did\<close>), runs of the inbox with all other work on the tables in
    between, where every pending reason goes back to a permitted button, and the polling cycle.
  \<^item> \<open>File_Integrity\<close>, \<open>Followed_File\<close> (\<open>AG/sources/file_integrity.py\<close>, \<open>followed_file.py\<close>): the source that compares watched
    files with the baseline in its cursor, and the reader that tails a log across rotation.
  \<^item> \<open>Destinations\<close> (\<open>notification_destinations.py\<close>): where notifications go and when a destination may be enabled.
  Recursion. Every loop of the modelled code is bounded and its model is total: the worker's run by its limit, the
  retries of the agent by the number of attempts the theorem states, polling by one cycle. There is no fuel.
  Concurrency is interleaving: each transaction, and each call under a process-local lock, is one step, which
  is what row locks, advisory locks and the single writer of SQLite provide; the machines let any number of them
  interleave in any order. An operation reads one clock value.

  Not modelled. The dashboard, its templates and forms, the HTTP shell and the command lines only parse, call the
  services and print. Read-only reports and lists (\<open>*_queries.py\<close>, \<open>dashboard_overview.py\<close>, \<open>weekly_report.py\<close>) are SQL
  selections whose meaning would be a copy of the query. The texts of Telegram and of reports are catalogues; a
  reply is a constructor named after its text. Line parsers built on regular expressions, \<open>journalctl\<close>, the
  HTTP clients and the content of token files touch the outside world. Migrations are generated; the constraints they create are
  the tests of the model. The demo and end-to-end scripts drive an installed system.
\<close>

end
